(* ===== verification/Bina_Prelude.thy ===== *)
theory Bina_Prelude
  imports Main "HOL-Library.Word" "HOL-Library.AList" "HOL-Library.List_Lexorder"
    "HOL-Library.Char_ord" "HOL-Library.Multiset"
begin

text \<open>
  What every component shares: the machine integers of the Rust code and their saturating and
  checked arithmetic, little-endian byte encodings, byte arrays, hash maps as association
  lists, results, and the record of the third-party functions (BLAKE3, SHA-256, Keccak-256,
  hex, Ed25519, Falcon-512) that every definition using one takes as its argument.

  Plain \<open>+\<close> on a machine integer wraps: the workspace is built with \<^verbatim>\<open>--release\<close> (README,
  \<^verbatim>\<open>Cargo.toml\<close> sets no \<^verbatim>\<open>overflow-checks\<close>), where Rust's \<^verbatim>\<open>+\<close> wraps.
\<close>

unbundle bit_operations_syntax

named_theorems word_nat \<open>the reading of machine-integer operations as natural numbers\<close>
named_theorems len_simps \<open>lengths of encodings\<close>

section \<open>Machine integers\<close>

type_synonym byte = "8 word"
type_synonym bytes = "8 word list"
type_synonym u8 = "8 word"
type_synonym u16 = "16 word"
type_synonym u32 = "32 word"
type_synonym u64 = "64 word"
type_synonym u128 = "128 word"

text \<open>Rust's \<^verbatim>\<open>saturating_add\<close>, \<^verbatim>\<open>saturating_sub\<close>, \<^verbatim>\<open>checked_add\<close> and \<^verbatim>\<open>abs_diff\<close>.\<close>

definition sat_add :: "'a::len word \<Rightarrow> 'a word \<Rightarrow> 'a word" where
  "sat_add a b = (if unat a + unat b < 2 ^ LENGTH('a) then a + b else - 1)"

definition sat_sub :: "'a::len word \<Rightarrow> 'a word \<Rightarrow> 'a word" where
  "sat_sub a b = (if b \<le> a then a - b else 0)"

definition checked_add :: "'a::len word \<Rightarrow> 'a word \<Rightarrow> 'a word option" where
  "checked_add a b = (if unat a + unat b < 2 ^ LENGTH('a) then Some (a + b) else None)"

definition abs_diff :: "'a::len word \<Rightarrow> 'a word \<Rightarrow> 'a word" where
  "abs_diff a b = (if b \<le> a then a - b else b - a)"

lemma unat_add_fits:
  fixes a b :: "'a::len word"
  assumes "unat a + unat b < 2 ^ LENGTH('a)"
  shows "unat (a + b) = unat a + unat b"
  using assms by (simp add: unat_word_ariths)

lemma unat_sub_le:
  fixes a b :: "'a::len word"
  shows "b \<le> a \<Longrightarrow> unat (a - b) = unat a - unat b"
  by (simp add: unat_sub_if' word_le_nat_alt)

lemma unat_minus_one_word: "unat (- 1 :: 'a::len word) = 2 ^ LENGTH('a) - 1"
  by (simp add: unsigned_minus_1_eq_mask mask_eq_exp_minus_1)

lemma unat_sat_add [word_nat]:
  fixes a b :: "'a::len word"
  shows "unat (sat_add a b) = min (unat a + unat b) (2 ^ LENGTH('a) - 1)"
  by (auto simp: sat_add_def unat_add_fits unat_minus_one_word min_def)

lemma unat_sat_sub [word_nat]: "unat (sat_sub a b) = unat a - unat b"
  by (auto simp: sat_sub_def unat_sub_le word_le_nat_alt)

lemma sat_add_fits:
  fixes a b :: "'a::len word"
  shows "unat a + unat b < 2 ^ LENGTH('a) \<Longrightarrow> sat_add a b = a + b"
  by (simp add: sat_add_def)

lemma checked_add_SomeD [word_nat]:
  "checked_add a b = Some c \<Longrightarrow> unat c = unat a + unat b"
  by (auto simp: checked_add_def unat_add_fits split: if_splits)

lemma checked_add_Some_iff:
  fixes a b c :: "'a::len word"
  shows "checked_add a b = Some c \<longleftrightarrow> unat a + unat b < 2 ^ LENGTH('a) \<and> c = a + b"
  by (auto simp: checked_add_def)

lemma unat_abs_diff [word_nat]:
  "unat (abs_diff a b) = (if unat b \<le> unat a then unat a - unat b else unat b - unat a)"
  by (auto simp: abs_diff_def unat_sub_le word_le_nat_alt)

lemma unat_lt_u64: "unat (a :: u64) < 2 ^ 64"
  using unsigned_less [of a] by simp

lemma unat_not_max:
  assumes "(a :: u64) \<noteq> - 1"
  shows "unat a + 1 < 2 ^ 64"
proof -
  have "unat a \<noteq> unat (- 1 :: u64)"
    using assms word_unat_eq_iff by blast
  then show ?thesis
    using unat_lt_u64 [of a] by (simp add: unat_minus_one_word)
qed

section \<open>Little-endian bytes\<close>

text \<open>\<open>le_nat k n\<close> is the low \<open>k\<close> bytes of \<open>n\<close>, least significant first; \<^verbatim>\<open>x.to_le_bytes()\<close>
  of a \<open>w\<close>-bit integer is \<open>le_bytes k x\<close> with \<open>8 * k = w\<close>.\<close>

fun le_nat :: "nat \<Rightarrow> nat \<Rightarrow> bytes" where
  "le_nat 0 n = []"
| "le_nat (Suc k) n = word_of_nat (n mod 256) # le_nat k (n div 256)"

fun nat_of_le :: "bytes \<Rightarrow> nat" where
  "nat_of_le [] = 0"
| "nat_of_le (b # bs) = unat b + 256 * nat_of_le bs"

definition le_bytes :: "nat \<Rightarrow> 'a::len word \<Rightarrow> bytes" where
  "le_bytes k w = le_nat k (unat w)"

definition from_le_bytes :: "bytes \<Rightarrow> 'a::len word" where
  "from_le_bytes bs = word_of_nat (nat_of_le bs)"

lemma length_le_nat [simp, len_simps]: "length (le_nat k n) = k"
  by (induction k arbitrary: n) auto

lemma length_le_bytes [simp, len_simps]: "length (le_bytes k w) = k"
  by (simp add: le_bytes_def)

lemma nat_of_le_le_nat: "nat_of_le (le_nat k n) = n mod 256 ^ k"
proof (induction k arbitrary: n)
  case 0
  show ?case by simp
next
  case (Suc k)
  have "nat_of_le (le_nat (Suc k) n) = n mod 256 + 256 * (n div 256 mod 256 ^ k)"
    by (simp add: Suc unat_of_nat)
  also have "\<dots> = n mod 256 ^ Suc k"
    by (simp add: mod_mult2_eq)
  finally show ?case .
qed

lemma from_le_bytes_le_bytes:
  fixes w :: "'a::len word"
  assumes "LENGTH('a) \<le> 8 * k"
  shows "from_le_bytes (le_bytes k w) = w"
proof -
  have "unat w < 2 ^ LENGTH('a)"
    by (rule unsigned_less)
  also have "(2::nat) ^ LENGTH('a) \<le> 2 ^ (8 * k)"
    using assms by (rule power_increasing) simp
  also have "(2::nat) ^ (8 * k) = 256 ^ k"
    by (simp add: power_mult)
  finally have "unat w mod 256 ^ k = unat w"
    by simp
  then show ?thesis
    by (simp add: from_le_bytes_def le_bytes_def nat_of_le_le_nat)
qed

lemma le_bytes_inj:
  fixes a b :: "'a::len word"
  assumes "LENGTH('a) \<le> 8 * k" and "le_bytes k a = le_bytes k b"
  shows "a = b"
  using assms from_le_bytes_le_bytes [OF assms(1)] by metis

lemma le_nat_nat_of_le: "le_nat (length bs) (nat_of_le bs) = bs"
proof (induction bs)
  case (Cons b bs)
  have b: "unat b < 256"
    using unsigned_less [of b] by simp
  then have "(unat b + 256 * nat_of_le bs) mod 256 = unat b"
    and "(unat b + 256 * nat_of_le bs) div 256 = nat_of_le bs"
    by simp_all
  with Cons show ?case by simp
qed simp

lemma nat_of_le_less: "nat_of_le bs < 256 ^ length bs"
proof (induction bs)
  case (Cons b bs)
  have "unat b < 256"
    using unsigned_less [of b] by simp
  with Cons show ?case
    by simp
qed simp

lemma le_bytes_from_le_bytes:
  assumes "8 * length bs \<le> LENGTH('a::len)"
  shows "le_bytes (length bs) (from_le_bytes bs :: 'a word) = bs"
proof -
  have "nat_of_le bs < 256 ^ length bs"
    by (rule nat_of_le_less)
  also have "(256::nat) ^ length bs = 2 ^ (8 * length bs)"
    by (simp add: power_mult)
  also have "\<dots> \<le> 2 ^ LENGTH('a)"
    using assms by (rule power_increasing) simp
  finally have "unat (from_le_bytes bs :: 'a word) = nat_of_le bs"
    by (simp add: from_le_bytes_def unat_of_nat)
  then show ?thesis
    by (simp add: le_bytes_def le_nat_nat_of_le)
qed

section \<open>Byte arrays and strings\<close>

text \<open>A Rust string is the list of its UTF-8 bytes, an Isabelle string a list of 8-bit characters.\<close>

definition as_bytes :: "string \<Rightarrow> bytes" where
  "as_bytes s = map of_char s"

definition zeros :: "nat \<Rightarrow> bytes" where
  "zeros n = replicate n 0"

lemma length_as_bytes [simp, len_simps]: "length (as_bytes s) = length s"
  by (simp add: as_bytes_def)

lemma length_zeros [simp, len_simps]: "length (zeros n) = n"
  by (simp add: zeros_def)

lemma unat_of_char: "unat (of_char c :: byte) = of_char c"
proof -
  have "(of_char c :: byte) = of_nat (of_char c)" by (rule of_nat_of_char [symmetric])
  moreover have "(of_char c :: nat) < 256"
    by (metis of_char_mod_256 mod_less_divisor zero_less_numeral)
  ultimately show ?thesis by (simp only: unat_of_nat) simp
qed

lemma inj_byte_of_char: "inj (of_char :: char \<Rightarrow> byte)"
  by (rule injI) (metis unat_of_char of_char_eq_iff)

lemma as_bytes_inj: "as_bytes s = as_bytes t \<longleftrightarrow> s = t"
  unfolding as_bytes_def by (rule inj_map_eq_map [OF inj_byte_of_char])

section \<open>Results\<close>

text \<open>A Rust \<^verbatim>\<open>Result<T, E>\<close> is \<open>'e + 'a\<close>, \<open>Inl\<close> the error; \<^verbatim>\<open>?\<close> is \<open>res_bind\<close>.\<close>

definition res_bind :: "'e + 'a \<Rightarrow> ('a \<Rightarrow> 'e + 'b) \<Rightarrow> 'e + 'b" where
  "res_bind r f = (case r of Inl e \<Rightarrow> Inl e | Inr x \<Rightarrow> f x)"

definition map_err :: "('e \<Rightarrow> 'f) \<Rightarrow> 'e + 'a \<Rightarrow> 'f + 'a" where
  "map_err g r = (case r of Inl e \<Rightarrow> Inl (g e) | Inr x \<Rightarrow> Inr x)"

definition is_ok :: "'e + 'a \<Rightarrow> bool" where
  "is_ok r = (case r of Inl _ \<Rightarrow> False | Inr _ \<Rightarrow> True)"

lemma res_bind_simps [simp]: "res_bind (Inl e) f = Inl e" "res_bind (Inr x) f = f x"
  by (simp_all add: res_bind_def)

lemma map_err_simps [simp]: "map_err g (Inl e) = Inl (g e)" "map_err g (Inr x) = Inr x"
  by (simp_all add: map_err_def)

lemma is_ok_simps [simp]: "\<not> is_ok (Inl e)" "is_ok (Inr x)"
  by (simp_all add: is_ok_def)

lemma res_bind_Inr_iff: "res_bind r f = Inr y \<longleftrightarrow> (\<exists>x. r = Inr x \<and> f x = Inr y)"
  by (cases r) auto

lemma map_err_Inr_iff [simp]: "map_err g r = Inr y \<longleftrightarrow> r = Inr y"
  by (cases r) auto

lemma is_ok_iff: "is_ok r \<longleftrightarrow> (\<exists>x. r = Inr x)"
  by (cases r) auto

section \<open>Third-party functions\<close>

text \<open>
  The crates \<^verbatim>\<open>blake3\<close>, \<^verbatim>\<open>sha2\<close>, \<^verbatim>\<open>sha3\<close>, \<^verbatim>\<open>hex\<close>, \<^verbatim>\<open>ed25519-dalek\<close> and \<^verbatim>\<open>pqcrypto-falcon\<close> are not part
  of the repository. Their functions are the fields of a record that the definitions take as
  an argument; what the code relies on is stated in the predicates below, which are hypotheses
  of the theorems that need them. Keys and signatures are their byte encodings; \<open>fal_keypair\<close>
  and \<open>fal_sign\<close> take the randomness they draw as a number.
\<close>

record prims =
  blake3 :: "bytes \<Rightarrow> bytes"
  sha256 :: "bytes \<Rightarrow> bytes"
  keccak256 :: "bytes \<Rightarrow> bytes"
  hex_encode :: "bytes \<Rightarrow> string"
  hex_decode :: "string \<Rightarrow> bytes option"
  ed_pk_valid :: "bytes \<Rightarrow> bool"
  ed_public :: "bytes \<Rightarrow> bytes"
  ed_sign :: "bytes \<Rightarrow> bytes \<Rightarrow> bytes"
  ed_verify :: "bytes \<Rightarrow> bytes \<Rightarrow> bytes \<Rightarrow> bool"
  fal_pk_valid :: "bytes \<Rightarrow> bool"
  fal_sk_valid :: "bytes \<Rightarrow> bool"
  fal_sig_valid :: "bytes \<Rightarrow> bool"
  fal_keypair :: "nat \<Rightarrow> bytes \<times> bytes"
  fal_sign :: "nat \<Rightarrow> bytes \<Rightarrow> bytes \<Rightarrow> bytes"
  fal_verify :: "bytes \<Rightarrow> bytes \<Rightarrow> bytes \<Rightarrow> bool"

definition hash_ok :: "prims \<Rightarrow> bool" where
  "hash_ok P \<longleftrightarrow> (\<forall>x. length (blake3 P x) = 32) \<and> (\<forall>x. length (sha256 P x) = 32)
     \<and> (\<forall>x. length (keccak256 P x) = 32)"

text \<open>\<^verbatim>\<open>hex::encode\<close> writes two lower-case hex digits per byte, and \<^verbatim>\<open>hex::decode\<close> reads them back.\<close>

definition hex_ok :: "prims \<Rightarrow> bool" where
  "hex_ok P \<longleftrightarrow> (\<forall>b. hex_decode P (hex_encode P b) = Some b)
     \<and> (\<forall>b. length (hex_encode P b) = 2 * length b)
     \<and> (\<forall>b. set (hex_encode P b) \<subseteq> set ''0123456789abcdef'')
     \<and> (\<forall>s b. hex_decode P s = Some b \<longrightarrow> length s = 2 * length b)"

text \<open>
  Ed25519 is deterministic with 32-byte keys and 64-byte signatures, Falcon-512 has 897-byte
  public keys, 1281-byte secret keys and signatures of at most 666 bytes (the sizes of
  \<^verbatim>\<open>core/src/crypto.rs\<close>); what is signed with a generated key verifies under it.
\<close>

definition sig_ok :: "prims \<Rightarrow> bool" where
  "sig_ok P \<longleftrightarrow>
     (\<forall>sk. length sk = 32 \<longrightarrow> length (ed_public P sk) = 32 \<and> ed_pk_valid P (ed_public P sk))
     \<and> (\<forall>sk m. length sk = 32 \<longrightarrow> length (ed_sign P sk m) = 64
          \<and> ed_verify P (ed_public P sk) m (ed_sign P sk m))
     \<and> (\<forall>r. length (fst (fal_keypair P r)) = 897 \<and> length (snd (fal_keypair P r)) = 1281
          \<and> fal_pk_valid P (fst (fal_keypair P r)) \<and> fal_sk_valid P (snd (fal_keypair P r)))
     \<and> (\<forall>r q m. length (fal_sign P q (snd (fal_keypair P r)) m) \<le> 666
          \<and> fal_sig_valid P (fal_sign P q (snd (fal_keypair P r)) m)
          \<and> fal_verify P (fst (fal_keypair P r)) m (fal_sign P q (snd (fal_keypair P r)) m))"

lemma hash_ok_length [simp, len_simps]:
  "hash_ok P \<Longrightarrow> length (blake3 P x) = 32"
  "hash_ok P \<Longrightarrow> length (sha256 P x) = 32"
  "hash_ok P \<Longrightarrow> length (keccak256 P x) = 32"
  by (simp_all add: hash_ok_def)

lemma hex_decode_encode [simp]: "hex_ok P \<Longrightarrow> hex_decode P (hex_encode P b) = Some b"
  by (simp add: hex_ok_def)

lemma length_hex_encode [simp, len_simps]: "hex_ok P \<Longrightarrow> length (hex_encode P b) = 2 * length b"
  by (simp add: hex_ok_def)

lemma hex_encode_inj: "hex_ok P \<Longrightarrow> hex_encode P a = hex_encode P b \<longleftrightarrow> a = b"
  by (metis hex_decode_encode option.inject)

lemma hex_encode_chars: "hex_ok P \<Longrightarrow> c \<in> set (hex_encode P b) \<Longrightarrow> c \<in> set ''0123456789abcdef''"
  unfolding hex_ok_def by blast

text \<open>Cutting a byte string of known field lengths: equal concatenations have equal fields.\<close>

lemma append_eq_lengthD:
  "xs @ ys = xs' @ ys' \<Longrightarrow> length xs = length xs' \<Longrightarrow> xs = xs' \<and> ys = ys'"
  by simp

end
