(* ===== verification/Sample_Prims.thy ===== *)
theory Sample_Prims
  imports Bina_Prelude
begin

text \<open>
  One concrete instance of the third-party functions, for the theorems that evaluate a property
  on an input: a computable stand-in for each hash and signature scheme that satisfies the laws
  \<open>hash_ok\<close>, \<open>hex_ok\<close> and \<open>sig_ok\<close>, with the real \<^verbatim>\<open>hex\<close> coding. No definition that models code
  uses it.
\<close>

section \<open>Hexadecimal\<close>

definition hex_digit :: "nat \<Rightarrow> char" where
  "hex_digit n = ''0123456789abcdef'' ! n"

fun sample_hex :: "bytes \<Rightarrow> string" where
  "sample_hex [] = []"
| "sample_hex (b # bs) = hex_digit (unat b div 16) # hex_digit (unat b mod 16) # sample_hex bs"

definition hex_value :: "char \<Rightarrow> nat option" where
  "hex_value c = (let n = of_char c :: nat in
     if 48 \<le> n \<and> n \<le> 57 then Some (n - 48)
     else if 97 \<le> n \<and> n \<le> 102 then Some (n - 87)
     else if 65 \<le> n \<and> n \<le> 70 then Some (n - 55) else None)"

fun sample_unhex :: "string \<Rightarrow> bytes option" where
  "sample_unhex [] = Some []"
| "sample_unhex [c] = None"
| "sample_unhex (c # d # s) =
     (case (hex_value c, hex_value d, sample_unhex s) of
        (Some h, Some l, Some bs) \<Rightarrow> Some (word_of_nat (16 * h + l) # bs)
      | _ \<Rightarrow> None)"

lemma less_16_cases:
  "n < 16 \<Longrightarrow> n \<in> {0, 1, 2, 3, 4, 5, 6, 7, 8, 9, 10, 11, 12, 13, 14, 15 :: nat}"
  by (simp, arith)

lemma hex_value_digit: "n < 16 \<Longrightarrow> hex_value (hex_digit n) = Some n"
  by (drule less_16_cases) (auto simp: hex_value_def hex_digit_def)

lemma hex_digit_mem: "n < 16 \<Longrightarrow> hex_digit n \<in> set ''0123456789abcdef''"
  unfolding hex_digit_def by (rule nth_mem) simp

lemma unat_byte_div_16: "unat (b :: byte) div 16 < 16"
proof -
  have "unat b < 256"
    using unsigned_less [of b] by simp
  then show ?thesis
    by (simp add: less_mult_imp_div_less)
qed

lemma sample_unhex_hex: "sample_unhex (sample_hex bs) = Some bs"
  by (induction bs) (simp_all add: hex_value_digit unat_byte_div_16)

lemma length_sample_hex: "length (sample_hex bs) = 2 * length bs"
  by (induction bs) simp_all

lemma set_sample_hex: "set (sample_hex bs) \<subseteq> set ''0123456789abcdef''"
proof (induction bs)
  case (Cons b bs)
  then show ?case
    using hex_digit_mem [OF unat_byte_div_16 [of b]] hex_digit_mem [of "unat b mod 16"]
    by (simp add: subset_iff)
qed simp

lemma length_sample_unhex: "sample_unhex s = Some bs \<Longrightarrow> length s = 2 * length bs"
  by (induction s arbitrary: bs rule: sample_unhex.induct) (auto split: option.splits)

section \<open>The instance\<close>

definition sample_hash :: "bytes \<Rightarrow> bytes" where
  "sample_hash x = take 32 (le_nat 2 (length x) @ rev x @ zeros 32)"

definition sample_prims :: prims where
  "sample_prims =
     \<lparr>blake3 = sample_hash, sha256 = sample_hash, keccak256 = sample_hash,
      hex_encode = sample_hex, hex_decode = sample_unhex,
      ed_pk_valid = (\<lambda>k. length k = 32), ed_public = (\<lambda>sk. sk),
      ed_sign = (\<lambda>sk m. take 64 (sk @ sample_hash m @ zeros 64)),
      ed_verify = (\<lambda>pk m s. s = take 64 (pk @ sample_hash m @ zeros 64)),
      fal_pk_valid = (\<lambda>k. length k = 897), fal_sk_valid = (\<lambda>k. length k = 1281),
      fal_sig_valid = (\<lambda>s. length s \<le> 666), fal_keypair = (\<lambda>r. (zeros 897, zeros 1281)),
      fal_sign = (\<lambda>q sk m. sample_hash m), fal_verify = (\<lambda>pk m s. s = sample_hash m)\<rparr>"

lemma sample_prims_sel [simp]:
  "blake3 sample_prims = sample_hash" "sha256 sample_prims = sample_hash"
  "keccak256 sample_prims = sample_hash" "hex_encode sample_prims = sample_hex"
  "hex_decode sample_prims = sample_unhex" "ed_pk_valid sample_prims k = (length k = 32)"
  "ed_public sample_prims k = k"
  "ed_sign sample_prims k m = take 64 (k @ sample_hash m @ zeros 64)"
  "ed_verify sample_prims k m s = (s = take 64 (k @ sample_hash m @ zeros 64))"
  "fal_keypair sample_prims r = (zeros 897, zeros 1281)"
  by (simp_all add: sample_prims_def)

lemma length_sample_hash [simp]: "length (sample_hash x) = 32"
  by (simp add: sample_hash_def)

lemma sample_hash_head: "sample_hash x ! 0 = word_of_nat (length x mod 256)"
  by (simp add: sample_hash_def numeral_2_eq_2)

lemma sample_hash_ok: "hash_ok sample_prims"
  by (simp add: hash_ok_def sample_prims_def)

lemma sample_hex_ok: "hex_ok sample_prims"
  using set_sample_hex by (simp add: hex_ok_def sample_prims_def sample_unhex_hex length_sample_hex
      length_sample_unhex)

lemma sample_sig_ok: "sig_ok sample_prims"
  by (simp add: sig_ok_def sample_prims_def)

end
