(* ===== verification/Wallet_Crypto.thy ===== *)
theory Wallet_Crypto
  imports Sample_Prims
begin

text \<open>
  \<^verbatim>\<open>core/src/crypto.rs\<close>: the hybrid Ed25519 + Falcon-512 wallet. Keys and signatures are records of
  their byte encodings; the predicates \<open>wpk_wf\<close>, \<open>keypair_wf\<close> and \<open>hsig_wf\<close> say what the Rust types
  guarantee of them (array lengths, keys the crates accepted). The lemmas are the round trips of the
  three serialisations in both directions, that a hybrid signature verifies exactly when both parts
  do, and that what a generated wallet signs verifies under its public key.
\<close>

definition FALCON_PK_BYTES :: nat where "FALCON_PK_BYTES = 897"
definition FALCON_SK_BYTES :: nat where "FALCON_SK_BYTES = 1281"

definition ADDR_TAG :: bytes where
  "ADDR_TAG = as_bytes ''BINA-ADDR-v1''"

type_synonym wallet_address = bytes

datatype crypto_error =
    WpkLength nat
  | EdPublicKeyInvalid
  | FalPublicKeyInvalid
  | EdVerifyFailed
  | FalSigBytesInvalid
  | FalVerifyFailed
  | KeypairLength nat
  | FalPublicKeyInvalidInSecret
  | FalSecretKeyInvalidInSecret
  | HsigTooShort nat
  | HsigTruncated nat

section \<open>Public keys\<close>

record wallet_public_key =
  wpk_ed25519 :: bytes
  wpk_falcon :: bytes

record hybrid_signature =
  hs_ed25519 :: bytes
  hs_falcon :: bytes

record wallet_keypair =
  kp_public :: wallet_public_key
  kp_ed_sk :: bytes
  kp_falcon_sk :: bytes

definition wpk_wf :: "prims \<Rightarrow> wallet_public_key \<Rightarrow> bool" where
  "wpk_wf P pk \<longleftrightarrow> length (wpk_ed25519 pk) = 32 \<and> ed_pk_valid P (wpk_ed25519 pk)
     \<and> length (wpk_falcon pk) = FALCON_PK_BYTES \<and> fal_pk_valid P (wpk_falcon pk)"

definition wpk_address :: "prims \<Rightarrow> wallet_public_key \<Rightarrow> wallet_address" where
  "wpk_address P pk = take 20 (blake3 P (ADDR_TAG @ wpk_ed25519 pk @ wpk_falcon pk))"

definition wpk_address_hex :: "prims \<Rightarrow> wallet_public_key \<Rightarrow> string" where
  "wpk_address_hex P pk = hex_encode P (wpk_address P pk)"

definition wpk_to_bytes :: "wallet_public_key \<Rightarrow> bytes" where
  "wpk_to_bytes pk = wpk_ed25519 pk @ wpk_falcon pk"

definition wpk_from_bytes :: "prims \<Rightarrow> bytes \<Rightarrow> crypto_error + wallet_public_key" where
  "wpk_from_bytes P b =
     (if length b \<noteq> 32 + FALCON_PK_BYTES then Inl (WpkLength (length b))
      else if \<not> ed_pk_valid P (take 32 b) then Inl EdPublicKeyInvalid
      else if \<not> fal_pk_valid P (drop 32 b) then Inl FalPublicKeyInvalid
      else Inr \<lparr>wpk_ed25519 = take 32 b, wpk_falcon = drop 32 b\<rparr>)"

definition wpk_verify ::
    "prims \<Rightarrow> wallet_public_key \<Rightarrow> bytes \<Rightarrow> hybrid_signature \<Rightarrow> crypto_error + unit" where
  "wpk_verify P pk msg sig =
     (if \<not> ed_verify P (wpk_ed25519 pk) msg (hs_ed25519 sig) then Inl EdVerifyFailed
      else if \<not> fal_sig_valid P (hs_falcon sig) then Inl FalSigBytesInvalid
      else if \<not> fal_verify P (wpk_falcon pk) msg (hs_falcon sig) then Inl FalVerifyFailed
      else Inr ())"

section \<open>Key pairs\<close>

text \<open>\<open>SigningKey::generate\<close> draws the 32 secret bytes \<open>seed\<close>; \<open>r\<close> is Falcon's randomness.\<close>

definition keypair_generate :: "prims \<Rightarrow> bytes \<Rightarrow> nat \<Rightarrow> wallet_keypair" where
  "keypair_generate P seed r =
     (let (falcon_pk, falcon_sk) = fal_keypair P r in
      \<lparr>kp_public = \<lparr>wpk_ed25519 = ed_public P seed, wpk_falcon = falcon_pk\<rparr>,
       kp_ed_sk = seed, kp_falcon_sk = falcon_sk\<rparr>)"

definition keypair_address :: "prims \<Rightarrow> wallet_keypair \<Rightarrow> wallet_address" where
  "keypair_address P kp = wpk_address P (kp_public kp)"

definition keypair_sign :: "prims \<Rightarrow> nat \<Rightarrow> wallet_keypair \<Rightarrow> bytes \<Rightarrow> hybrid_signature" where
  "keypair_sign P q kp msg =
     \<lparr>hs_ed25519 = ed_sign P (kp_ed_sk kp) msg,
      hs_falcon = fal_sign P q (kp_falcon_sk kp) msg\<rparr>"

definition keypair_to_secret_bytes :: "wallet_keypair \<Rightarrow> bytes" where
  "keypair_to_secret_bytes kp = kp_ed_sk kp @ wpk_falcon (kp_public kp) @ kp_falcon_sk kp"

definition keypair_from_secret_bytes :: "prims \<Rightarrow> bytes \<Rightarrow> crypto_error + wallet_keypair" where
  "keypair_from_secret_bytes P b =
     (if length b \<noteq> 32 + FALCON_PK_BYTES + FALCON_SK_BYTES then Inl (KeypairLength (length b))
      else let ed_sk = take 32 b;
               falcon_pk = take FALCON_PK_BYTES (drop 32 b);
               falcon_sk = drop (32 + FALCON_PK_BYTES) b in
        if \<not> fal_pk_valid P falcon_pk then Inl FalPublicKeyInvalidInSecret
        else if \<not> fal_sk_valid P falcon_sk then Inl FalSecretKeyInvalidInSecret
        else Inr \<lparr>kp_public = \<lparr>wpk_ed25519 = ed_public P ed_sk, wpk_falcon = falcon_pk\<rparr>,
                  kp_ed_sk = ed_sk, kp_falcon_sk = falcon_sk\<rparr>)"

definition keypair_wf :: "prims \<Rightarrow> wallet_keypair \<Rightarrow> bool" where
  "keypair_wf P kp \<longleftrightarrow> wpk_wf P (kp_public kp) \<and> length (kp_ed_sk kp) = 32
     \<and> wpk_ed25519 (kp_public kp) = ed_public P (kp_ed_sk kp)
     \<and> length (kp_falcon_sk kp) = FALCON_SK_BYTES \<and> fal_sk_valid P (kp_falcon_sk kp)"

section \<open>Hybrid signatures\<close>

definition hsig_to_bytes :: "hybrid_signature \<Rightarrow> bytes" where
  "hsig_to_bytes s = (let flen = word_of_nat (length (hs_falcon s)) :: u16 in
     le_bytes 2 flen @ hs_ed25519 s @ hs_falcon s)"

definition hsig_from_bytes :: "bytes \<Rightarrow> crypto_error + hybrid_signature" where
  "hsig_from_bytes b =
     (if length b < 2 + 64 then Inl (HsigTooShort (length b))
      else let flen = unat (from_le_bytes (take 2 b) :: u16) in
        if length b < 2 + 64 + flen then Inl (HsigTruncated flen)
        else Inr \<lparr>hs_ed25519 = take 64 (drop 2 b), hs_falcon = take flen (drop (2 + 64) b)\<rparr>)"

definition hsig_wf :: "hybrid_signature \<Rightarrow> bool" where
  "hsig_wf s \<longleftrightarrow> length (hs_ed25519 s) = 64 \<and> length (hs_falcon s) < 2 ^ 16"

definition hsig_byte_len :: "hybrid_signature \<Rightarrow> nat" where
  "hsig_byte_len s = 2 + 64 + length (hs_falcon s)"

lemmas falcon_sizes = FALCON_PK_BYTES_def FALCON_SK_BYTES_def

section \<open>Round trips\<close>

lemma wpk_from_to_bytes: "wpk_wf P pk \<Longrightarrow> wpk_from_bytes P (wpk_to_bytes pk) = Inr pk"
  by (simp add: wpk_wf_def wpk_from_bytes_def wpk_to_bytes_def)

lemma wpk_from_bytes_InrD:
  assumes "wpk_from_bytes P b = Inr pk"
  shows "wpk_wf P pk" "wpk_to_bytes pk = b"
  using assms by (auto simp: wpk_wf_def wpk_from_bytes_def wpk_to_bytes_def split: if_splits)

lemma keypair_from_to_secret_bytes:
  "keypair_wf P kp \<Longrightarrow> keypair_from_secret_bytes P (keypair_to_secret_bytes kp) = Inr kp"
  by (simp add: keypair_wf_def wpk_wf_def keypair_from_secret_bytes_def keypair_to_secret_bytes_def
      Let_def)

lemma keypair_from_secret_bytes_InrD:
  assumes "sig_ok P" and "keypair_from_secret_bytes P b = Inr kp"
  shows "keypair_wf P kp" "keypair_to_secret_bytes kp = b"
proof -
  have b: "length b = 32 + FALCON_PK_BYTES + FALCON_SK_BYTES"
    and kp: "kp = \<lparr>kp_public = \<lparr>wpk_ed25519 = ed_public P (take 32 b),
                      wpk_falcon = take FALCON_PK_BYTES (drop 32 b)\<rparr>,
                    kp_ed_sk = take 32 b, kp_falcon_sk = drop (32 + FALCON_PK_BYTES) b\<rparr>"
    and v: "fal_pk_valid P (take FALCON_PK_BYTES (drop 32 b))"
      "fal_sk_valid P (drop (32 + FALCON_PK_BYTES) b)"
    using assms(2) by (auto simp: keypair_from_secret_bytes_def Let_def split: if_splits)
  show "keypair_wf P kp"
    using assms(1) b v by (simp add: kp keypair_wf_def wpk_wf_def sig_ok_def falcon_sizes)
  have "drop (32 + FALCON_PK_BYTES) b = drop FALCON_PK_BYTES (drop 32 b)"
    by (simp add: add.commute)
  then show "keypair_to_secret_bytes kp = b"
    unfolding kp keypair_to_secret_bytes_def
    by (simp only: wallet_keypair.simps wallet_public_key.simps append_take_drop_id)
qed

lemma hsig_from_to_bytes:
  assumes "hsig_wf s"
  shows "hsig_from_bytes (hsig_to_bytes s) = Inr s"
proof -
  have "unat (word_of_nat (length (hs_falcon s)) :: u16) = length (hs_falcon s)"
    using assms by (simp add: hsig_wf_def unat_of_nat)
  then show ?thesis
    using assms by (simp add: hsig_wf_def hsig_from_bytes_def hsig_to_bytes_def Let_def
        from_le_bytes_le_bytes)
qed

lemma length_hsig_to_bytes: "hsig_wf s \<Longrightarrow> length (hsig_to_bytes s) = hsig_byte_len s"
  by (simp add: hsig_wf_def hsig_to_bytes_def hsig_byte_len_def Let_def)

text \<open>Bytes after the declared Falcon length are ignored, so parsing is not injective.\<close>

lemma hsig_from_bytes_append:
  "hsig_from_bytes b = Inr s \<Longrightarrow> hsig_from_bytes (b @ extra) = Inr s"
  by (auto simp: hsig_from_bytes_def Let_def split: if_splits)

lemma hsig_from_bytes_wf: "hsig_from_bytes b = Inr s \<Longrightarrow> hsig_wf s"
proof -
  have "unat (from_le_bytes (take 2 b) :: u16) < 2 ^ 16"
    using unsigned_less [of "from_le_bytes (take 2 b) :: u16"] by simp
  then show "hsig_from_bytes b = Inr s \<Longrightarrow> hsig_wf s"
    by (auto simp: hsig_from_bytes_def hsig_wf_def Let_def split: if_splits)
qed

section \<open>Verification\<close>

lemma wpk_verify_ok_iff:
  "wpk_verify P pk msg s = Inr () \<longleftrightarrow>
     ed_verify P (wpk_ed25519 pk) msg (hs_ed25519 s) \<and> fal_sig_valid P (hs_falcon s)
     \<and> fal_verify P (wpk_falcon pk) msg (hs_falcon s)"
  by (simp add: wpk_verify_def)

lemma keypair_generate_wf:
  assumes "sig_ok P" and "length seed = 32"
  shows "keypair_wf P (keypair_generate P seed r)"
  using assms by (auto simp: sig_ok_def keypair_generate_def keypair_wf_def wpk_wf_def falcon_sizes
      split: prod.splits) (metis fst_conv snd_conv)+

lemma keypair_sign_wf:
  assumes "sig_ok P" and "length seed = 32"
  shows "hsig_wf (keypair_sign P q (keypair_generate P seed r) msg)"
proof -
  have "length (fal_sign P q (snd (fal_keypair P r)) msg) \<le> 666"
    and "length (ed_sign P seed msg) = 64"
    using assms by (simp_all add: sig_ok_def)
  then show ?thesis
    by (auto simp: hsig_wf_def keypair_sign_def keypair_generate_def split: prod.splits)
qed

lemma keypair_sign_verifies:
  assumes "sig_ok P" and "length seed = 32"
  shows "wpk_verify P (kp_public (keypair_generate P seed r)) msg
           (keypair_sign P q (keypair_generate P seed r) msg) = Inr ()"
proof -
  have "fal_sig_valid P (fal_sign P q (snd (fal_keypair P r)) msg)"
    and "fal_verify P (fst (fal_keypair P r)) msg (fal_sign P q (snd (fal_keypair P r)) msg)"
    and "ed_verify P (ed_public P seed) msg (ed_sign P seed msg)"
    using assms by (simp_all add: sig_ok_def)
  then show ?thesis
    by (auto simp: wpk_verify_ok_iff keypair_sign_def keypair_generate_def split: prod.splits)
qed

lemma length_wpk_address [simp, len_simps]: "hash_ok P \<Longrightarrow> length (wpk_address P pk) = 20"
  by (simp add: wpk_address_def)

end
