(* ===== verification/Hash_Map.thy ===== *)
theory Hash_Map
  imports Bina_Prelude
begin

text \<open>
  \<^verbatim>\<open>HashMap\<close> and \<^verbatim>\<open>HashSet\<close> of the Rust standard library as association lists with distinct keys
  (operations of \<^verbatim>\<open>HOL-Library.AList\<close>). The list order stands for the unspecified iteration
  order of a hash map: where the code's result could depend on it, the theorems say that it
  does not. The locale \<open>dictionary\<close> is the interface the components use; it is interpreted on
  these maps here and on the SQLite mempool table in \<^verbatim>\<open>Block_Store\<close>.
\<close>

section \<open>Maps\<close>

type_synonym ('k, 'v) hmap = "('k \<times> 'v) list"

definition hm_get :: "('k, 'v) hmap \<Rightarrow> 'k \<Rightarrow> 'v option" where
  "hm_get m k = map_of m k"

definition hm_get_or :: "'v \<Rightarrow> ('k, 'v) hmap \<Rightarrow> 'k \<Rightarrow> 'v" where
  "hm_get_or d m k = (case hm_get m k of None \<Rightarrow> d | Some v \<Rightarrow> v)"

definition hm_insert :: "'k \<Rightarrow> 'v \<Rightarrow> ('k, 'v) hmap \<Rightarrow> ('k, 'v) hmap" where
  "hm_insert k v m = AList.update k v m"

definition hm_remove :: "'k \<Rightarrow> ('k, 'v) hmap \<Rightarrow> ('k, 'v) hmap" where
  "hm_remove k m = AList.delete k m"

definition hm_has :: "('k, 'v) hmap \<Rightarrow> 'k \<Rightarrow> bool" where
  "hm_has m k = (hm_get m k \<noteq> None)"

definition hm_keys :: "('k, 'v) hmap \<Rightarrow> 'k list" where
  "hm_keys m = map fst m"

definition hm_values :: "('k, 'v) hmap \<Rightarrow> 'v list" where
  "hm_values m = map snd m"

definition hm_wf :: "('k, 'v) hmap \<Rightarrow> bool" where
  "hm_wf m = distinct (map fst m)"

lemma hm_get_Nil [simp]: "hm_get [] k = None"
  by (simp add: hm_get_def)

lemma hm_get_Cons [simp]: "hm_get ((a, v) # m) k = (if k = a then Some v else hm_get m k)"
  by (simp add: hm_get_def)

lemma hm_get_insert [simp]: "hm_get (hm_insert k v m) x = (if x = k then Some v else hm_get m x)"
  by (simp add: hm_get_def hm_insert_def update_conv)

lemma hm_get_remove [simp]: "hm_get (hm_remove k m) x = (if x = k then None else hm_get m x)"
  by (simp add: hm_get_def hm_remove_def delete_conv)

lemma hm_get_or_Nil [simp]: "hm_get_or d [] k = d"
  by (simp add: hm_get_or_def)

lemma hm_get_or_insert [simp]:
  "hm_get_or d (hm_insert k v m) x = (if x = k then v else hm_get_or d m x)"
  by (simp add: hm_get_or_def)

lemma hm_get_or_remove [simp]:
  "hm_get_or d (hm_remove k m) x = (if x = k then d else hm_get_or d m x)"
  by (simp add: hm_get_or_def)

lemma hm_wf_Nil [simp]: "hm_wf []"
  by (simp add: hm_wf_def)

lemma hm_wf_insert [simp]: "hm_wf m \<Longrightarrow> hm_wf (hm_insert k v m)"
  by (simp add: hm_wf_def hm_insert_def distinct_update)

lemma hm_wf_remove [simp]: "hm_wf m \<Longrightarrow> hm_wf (hm_remove k m)"
  by (simp add: hm_wf_def hm_remove_def distinct_delete)

lemma hm_keys_insert [simp]: "set (hm_keys (hm_insert k v m)) = insert k (set (hm_keys m))"
  by (simp add: hm_keys_def hm_insert_def dom_update)

lemma hm_keys_Nil [simp]: "hm_keys [] = []"
  by (simp add: hm_keys_def)

lemma hm_get_eq_None_iff: "hm_get m k = None \<longleftrightarrow> k \<notin> set (hm_keys m)"
  by (simp add: hm_get_def hm_keys_def map_of_eq_None_iff)

lemma hm_keysI: "hm_get m k = Some v \<Longrightarrow> k \<in> set (hm_keys m)"
  by (metis hm_get_eq_None_iff option.distinct(1))

lemma hm_get_or_not_key: "k \<notin> set (hm_keys m) \<Longrightarrow> hm_get_or d m k = d"
  by (simp add: hm_get_or_def hm_get_eq_None_iff [THEN iffD2])

lemma hm_has_iff: "hm_has m k \<longleftrightarrow> k \<in> set (hm_keys m)"
  by (simp add: hm_has_def hm_get_eq_None_iff del: not_None_eq)

lemma hm_wf_filter [simp]: "hm_wf m \<Longrightarrow> hm_wf (filter p m)"
  by (simp add: hm_wf_def distinct_map_filter)

lemma hm_get_mem_iff: "hm_wf m \<Longrightarrow> hm_get m k = Some v \<longleftrightarrow> (k, v) \<in> set m"
  by (simp add: hm_get_def hm_wf_def)

lemma length_hm_insert: "length (hm_insert k v m) = (if hm_has m k then length m else Suc (length m))"
  by (induction m) (auto simp: hm_insert_def hm_has_def)

lemma length_hm_insert_le: "length (hm_insert k v m) \<le> Suc (length m)"
  by (simp add: length_hm_insert)

section \<open>Sums over a map\<close>

definition hm_sum :: "('v \<Rightarrow> nat) \<Rightarrow> ('k, 'v) hmap \<Rightarrow> nat" where
  "hm_sum f m = sum_list (map (\<lambda>p. f (snd p)) m)"

lemma hm_sum_Nil [simp]: "hm_sum f [] = 0"
  by (simp add: hm_sum_def)

lemma hm_sum_insert:
  "hm_sum f (hm_insert k v m) + (case hm_get m k of None \<Rightarrow> 0 | Some w \<Rightarrow> f w) = hm_sum f m + f v"
  by (induction m) (auto simp: hm_sum_def hm_insert_def split: option.splits)

lemma hm_sum_ge: "hm_get m k = Some v \<Longrightarrow> f v \<le> hm_sum f m"
  by (induction m) (auto simp: hm_sum_def split: if_splits)

lemma hm_sum_insert_or:
  assumes "f d = 0"
  shows "hm_sum f (hm_insert k v m) + f (hm_get_or d m k) = hm_sum f m + f v"
  using hm_sum_insert [of f k v m] assms by (auto simp: hm_get_or_def split: option.splits)

lemma hm_sum_ge_or: "f d = 0 \<Longrightarrow> f (hm_get_or d m k) \<le> hm_sum f m"
  by (auto simp: hm_get_or_def hm_sum_ge split: option.splits)

lemma hm_sum_ge_or2:
  assumes "f d = 0" and "a \<noteq> b"
  shows "f (hm_get_or d m a) + f (hm_get_or d m b) \<le> hm_sum f m"
  using assms by (induction m) (auto simp: hm_sum_def hm_get_or_def hm_get_def split: option.splits
      dest: hm_sum_ge [unfolded hm_get_def hm_sum_def, of _ _ _ f] intro: order_trans [OF add_left_mono])

section \<open>The dictionary interface\<close>

locale dictionary =
  fixes get :: "'m \<Rightarrow> 'k \<Rightarrow> 'v option"
    and put :: "'k \<Rightarrow> 'v \<Rightarrow> 'm \<Rightarrow> 'm"
    and del :: "'k \<Rightarrow> 'm \<Rightarrow> 'm"
    and inv :: "'m \<Rightarrow> bool"
  assumes get_put: "inv m \<Longrightarrow> get (put k v m) x = (if x = k then Some v else get m x)"
    and get_del: "inv m \<Longrightarrow> get (del k m) x = (if x = k then None else get m x)"
    and inv_put: "inv m \<Longrightarrow> inv (put k v m)"
    and inv_del: "inv m \<Longrightarrow> inv (del k m)"
begin

lemma inv_fold_put: "inv m \<Longrightarrow> inv (fold (\<lambda>x. put (f x) (g x)) xs m)"
  by (induction xs arbitrary: m) (auto simp: inv_put)

lemma inv_fold_del: "inv m \<Longrightarrow> inv (fold (\<lambda>x. del (f x)) xs m)"
  by (induction xs arbitrary: m) (auto simp: inv_del)

text \<open>Inserting a list of values under their own keys: each is found, the rest is untouched.\<close>

lemma get_fold_put_notin:
  "inv m \<Longrightarrow> k \<notin> f ` set xs \<Longrightarrow> get (fold (\<lambda>x. put (f x) (g x)) xs m) k = get m k"
  by (induction xs arbitrary: m) (auto simp: inv_put get_put)

lemma get_fold_put_in:
  assumes "inv m" and "k \<in> f ` set xs"
  shows "\<exists>x \<in> set xs. f x = k \<and> get (fold (\<lambda>x. put (f x) (g x)) xs m) k = Some (g x)"
  using assms
proof (induction xs arbitrary: m)
  case (Cons y ys)
  show ?case
  proof (cases "k \<in> f ` set ys")
    case True
    then show ?thesis
      using Cons.IH [of "put (f y) (g y) m"] Cons.prems(1) by (auto simp: inv_put)
  next
    case False
    then have "get (fold (\<lambda>x. put (f x) (g x)) ys (put (f y) (g y) m)) k = get (put (f y) (g y) m) k"
      using Cons.prems(1) by (intro get_fold_put_notin) (auto simp: inv_put)
    with False Cons.prems show ?thesis by (auto simp: get_put)
  qed
qed simp

text \<open>Removing a list of keys.\<close>

lemma get_fold_del:
  "inv m \<Longrightarrow> get (fold (\<lambda>x. del (f x)) xs m) k = (if k \<in> f ` set xs then None else get m k)"
  by (induction xs arbitrary: m) (auto simp: inv_del get_del)

lemma get_put_del_same: "inv m \<Longrightarrow> get (del k (put k v m)) k = None"
  by (simp add: get_del inv_put)

end

interpretation hmd: dictionary hm_get hm_insert hm_remove hm_wf
  by unfold_locales simp_all

end
