(* ===== verification/State_Root.thy ===== *)
theory State_Root
  imports Hash_Map
begin

text \<open>
  The ledger commitment of \<^verbatim>\<open>core/src/rewards.rs\<close>: \<open>compute_state_root\<close> hashes the accounts
  sorted by address. The lemmas show that the root depends on the set of accounts only, not on
  the order they are listed in, and that on accounts with addresses of one length (40 hex
  digits on this chain) the hashed bytes determine the accounts.
\<close>

type_synonym account_entry = "string \<times> u64 \<times> u64"

definition STATE_ROOT_TAG :: bytes where
  "STATE_ROOT_TAG = as_bytes ''BINA-STATE-v1''"

definition entry_bytes :: "account_entry \<Rightarrow> bytes" where
  "entry_bytes e = as_bytes (fst e) @ le_bytes 8 (fst (snd e)) @ le_bytes 8 (snd (snd e))"

definition state_root_preimage :: "account_entry list \<Rightarrow> bytes" where
  "state_root_preimage entries = STATE_ROOT_TAG @ concat (map entry_bytes (sort_key fst entries))"

definition compute_state_root :: "prims \<Rightarrow> account_entry list \<Rightarrow> bytes" where
  "compute_state_root P entries = blake3 P (state_root_preimage entries)"

definition empty_state_root :: "prims \<Rightarrow> bytes" where
  "empty_state_root P = compute_state_root P []"

lemma length_compute_state_root [simp, len_simps]:
  "hash_ok P \<Longrightarrow> length (compute_state_root P es) = 32"
  by (simp add: compute_state_root_def)

section \<open>Independence of the listing order\<close>

lemma sort_key_perm:
  fixes xs ys :: "('a::linorder \<times> 'b) list"
  assumes "mset xs = mset ys" and "distinct (map fst xs)"
  shows "sort_key fst xs = sort_key fst ys"
proof (rule map_sorted_distinct_set_unique [where f = fst])
  have "distinct (map fst ys)"
    using assms by (metis mset_eq_imp_distinct_iff mset_map)
  then show "distinct (map fst (sort_key fst ys))" "inj_on fst (set (sort_key fst xs) \<union> set (sort_key fst ys))"
    using assms(1) by (auto simp: distinct_map dest: mset_eq_setD)
  show "distinct (map fst (sort_key fst xs))"
    using assms(2) by (simp add: distinct_map)
  show "set (sort_key fst xs) = set (sort_key fst ys)"
    using assms(1) by (auto dest: mset_eq_setD)
qed simp_all

lemma state_root_preimage_perm:
  "mset xs = mset ys \<Longrightarrow> distinct (map fst xs) \<Longrightarrow> state_root_preimage xs = state_root_preimage ys"
  by (simp add: state_root_preimage_def sort_key_perm)

section \<open>What the hashed bytes determine\<close>

lemma length_entry_bytes [simp, len_simps]: "length (entry_bytes e) = length (fst e) + 16"
  by (simp add: entry_bytes_def)

lemma entry_bytes_nonempty: "entry_bytes e \<noteq> []"
  using length_entry_bytes [of e] by fastforce

lemma entry_bytes_inj:
  assumes "entry_bytes a = entry_bytes b" and "length (fst a) = length (fst b)"
  shows "a = b"
proof -
  have "as_bytes (fst a) = as_bytes (fst b)"
    and "le_bytes 8 (fst (snd a)) = le_bytes 8 (fst (snd b))"
    and "le_bytes 8 (snd (snd a)) = le_bytes 8 (snd (snd b))"
    using assms by (auto simp: entry_bytes_def)
  then have "fst a = fst b" "fst (snd a) = fst (snd b)" "snd (snd a) = snd (snd b)"
    by (auto simp: as_bytes_inj intro: le_bytes_inj [where k = 8])
  then show ?thesis
    by (auto intro!: prod_eqI)
qed

lemma concat_entry_bytes_inj:
  assumes "concat (map entry_bytes xs) = concat (map entry_bytes ys)"
    and "\<forall>e \<in> set xs \<union> set ys. length (fst e) = n"
  shows "xs = ys"
  using assms
proof (induction xs arbitrary: ys)
  case Nil
  then show ?case
    using entry_bytes_nonempty by (cases ys) auto
next
  case (Cons x xs)
  then obtain y ys' where ys: "ys = y # ys'"
    using entry_bytes_nonempty by (cases ys) auto
  have "entry_bytes x = entry_bytes y \<and> concat (map entry_bytes xs) = concat (map entry_bytes ys')"
    using Cons.prems ys by (intro append_eq_lengthD) auto
  with Cons ys show ?case
    by (auto intro!: entry_bytes_inj)
qed

lemma state_root_preimage_inj:
  assumes "state_root_preimage xs = state_root_preimage ys"
    and "\<forall>e \<in> set xs \<union> set ys. length (fst e) = n"
  shows "mset xs = mset ys"
proof -
  have "sort_key fst xs = sort_key fst ys"
    using assms by (intro concat_entry_bytes_inj [where n = n]) (auto simp: state_root_preimage_def)
  then show ?thesis
    by (metis mset_sort)
qed

section \<open>Properties\<close>

text \<open>The state root is a canonical commitment: on account lists with distinct addresses of one
  length, the bytes hashed into the root are equal exactly when the lists are the same accounts,
  in whatever order they are given.\<close>

theorem state_root_canonical:
  assumes "distinct (map fst xs)" and "\<forall>e \<in> set xs \<union> set ys. length (fst e) = n"
  shows "state_root_preimage xs = state_root_preimage ys \<longleftrightarrow> mset xs = mset ys"
  using state_root_preimage_inj [OF _ assms(2)] state_root_preimage_perm [OF _ assms(1)] by blast

theorem state_root_canonical_witness:
  "state_root_preimage [(''bbbb'', 1, 0), (''aaaa'', 2, 0)] = state_root_preimage [(''aaaa'', 2, 0), (''bbbb'', 1, 0)]
   \<and> state_root_preimage [(''aaaa'', 10, 0)] \<noteq> state_root_preimage [(''aaaa'', 10, 1)]"
  using state_root_canonical [of "[(''bbbb'', 1, 0), (''aaaa'', 2, 0)]" "[(''aaaa'', 2, 0), (''bbbb'', 1, 0)]" 4]
    state_root_canonical [of "[(''aaaa'', 10, 0)]" "[(''aaaa'', 10, 1)]" 4]
  by simp

end
