(* ===== verification/Block.thy ===== *)
theory Block
  imports State_Root Sample_Prims
begin

text \<open>
  \<^verbatim>\<open>core/src/block.rs\<close>: the block header and its hash, the difficulty check, the leading-zero
  count, the genesis block and the timestamp rule. A \<^verbatim>\<open>[u8; n]\<close> field is a byte list;
  \<open>header_wf\<close> states the array lengths the Rust types fix. The lemmas show that the hashed
  bytes determine every header field, and that the mask-based difficulty check is the comparison
  with the number of leading zero bits.
\<close>

section \<open>Headers\<close>

definition DOMAIN_TAG :: bytes where
  "DOMAIN_TAG = as_bytes ''BINA-L1-v1''"

definition GENESIS_PREV_HASH :: bytes where
  "GENESIS_PREV_HASH = zeros 32"

definition GENESIS_MINER_ADDRESS :: bytes where
  "GENESIS_MINER_ADDRESS = zeros 20"

record l1_header =
  h_version :: u32
  h_height :: u64
  h_prev_hash :: bytes
  h_merkle_root :: bytes
  h_state_root :: bytes
  h_timestamp :: u64
  h_nonce :: u64
  h_miner_address :: bytes
  h_difficulty_bits :: u32
  h_bitcoin_seed_hash :: bytes

definition header_wf :: "l1_header \<Rightarrow> bool" where
  "header_wf h \<longleftrightarrow> length (h_prev_hash h) = 32 \<and> length (h_merkle_root h) = 32
     \<and> length (h_state_root h) = 32 \<and> length (h_miner_address h) = 20
     \<and> length (h_bitcoin_seed_hash h) = 32"

definition header_preimage :: "l1_header \<Rightarrow> bytes" where
  "header_preimage h = DOMAIN_TAG @ le_bytes 4 (h_version h) @ le_bytes 8 (h_height h)
     @ h_prev_hash h @ h_merkle_root h @ h_state_root h
     @ le_bytes 8 (h_timestamp h) @ le_bytes 8 (h_nonce h)
     @ h_miner_address h @ le_bytes 4 (h_difficulty_bits h) @ h_bitcoin_seed_hash h"

definition header_hash :: "prims \<Rightarrow> l1_header \<Rightarrow> bytes" where
  "header_hash P h = blake3 P (header_preimage h)"

lemma length_header_hash [simp, len_simps]: "hash_ok P \<Longrightarrow> length (header_hash P h) = 32"
  by (simp add: header_hash_def)

lemma length_header_preimage: "header_wf h \<Longrightarrow> length (header_preimage h) = 190"
  by (simp add: header_preimage_def header_wf_def DOMAIN_TAG_def)

lemma header_preimage_fields:
  assumes wf: "header_wf a" "header_wf b"
    and eq: "header_preimage a = header_preimage b"
  shows "a = b"
proof -
  have "le_bytes 4 (h_version a) = le_bytes 4 (h_version b)"
    and "le_bytes 8 (h_height a) = le_bytes 8 (h_height b)"
    and "h_prev_hash a = h_prev_hash b" and "h_merkle_root a = h_merkle_root b"
    and "h_state_root a = h_state_root b"
    and "le_bytes 8 (h_timestamp a) = le_bytes 8 (h_timestamp b)"
    and "le_bytes 8 (h_nonce a) = le_bytes 8 (h_nonce b)"
    and "h_miner_address a = h_miner_address b"
    and "le_bytes 4 (h_difficulty_bits a) = le_bytes 4 (h_difficulty_bits b)"
    and "h_bitcoin_seed_hash a = h_bitcoin_seed_hash b"
    using wf eq by (auto simp: header_preimage_def header_wf_def)
  then show ?thesis
    by (auto intro!: l1_header.equality intro: le_bytes_inj [where k = 4] le_bytes_inj [where k = 8])
qed

section \<open>The difficulty check\<close>

text \<open>\<^verbatim>\<open>u8::leading_zeros\<close>.\<close>

definition leading_zeros_u8 :: "byte \<Rightarrow> nat" where
  "leading_zeros_u8 b = length (takeWhile (\<lambda>i. \<not> bit b i) [7, 6, 5, 4, 3, 2, 1, 0])"

fun leading_zero_bits :: "bytes \<Rightarrow> nat" where
  "leading_zero_bits [] = 0"
| "leading_zero_bits (b # bs) = (if b = 0 then 8 + leading_zero_bits bs else leading_zeros_u8 b)"

definition meets_difficulty :: "bytes \<Rightarrow> u32 \<Rightarrow> bool" where
  "meets_difficulty hash bits =
     (if bits = 0 then True
      else let full_bytes = unat (bits div 8); remainder = unat (bits mod 8) in
        if list_ex (\<lambda>b. b \<noteq> 0) (take full_bytes hash) then False
        else if remainder > 0 \<and> full_bytes < 32
        then hash ! full_bytes AND push_bit (8 - remainder) 0xff = 0
        else True)"

lemma le_length_takeWhile_iff:
  "n \<le> length (takeWhile p xs) \<longleftrightarrow> n \<le> length xs \<and> (\<forall>x \<in> set (take n xs). p x)"
proof (induction xs arbitrary: n)
  case (Cons x xs)
  then show ?case by (cases n) auto
qed simp

lemma byte_0xff: "(0xff :: byte) = mask 8"
  by (simp add: mask_eq_exp_minus_1)

lemma mask_top_bits_zero:
  fixes b :: byte
  shows "b AND push_bit (8 - r) 0xff = 0 \<longleftrightarrow> (\<forall>i \<in> set [8 - r..<8]. \<not> bit b i)"
proof -
  have "i - (8 - r) < 8" if "i < 8" for i :: nat
    using that by simp
  then show ?thesis
    unfolding byte_0xff by (fastforce simp: bit_eq_iff bit_and_iff bit_push_bit_iff bit_mask_iff)
qed

lemma leading_zeros_u8_ge:
  assumes "0 < r" "r < 8"
  shows "r \<le> leading_zeros_u8 b \<longleftrightarrow> b AND push_bit (8 - r) 0xff = 0"
proof -
  have "r = 1 \<or> r = 2 \<or> r = 3 \<or> r = 4 \<or> r = 5 \<or> r = 6 \<or> r = 7"
    using assms by arith
  then show ?thesis
    unfolding mask_top_bits_zero leading_zeros_u8_def le_length_takeWhile_iff
    by (elim disjE) (simp_all add: upt_rec numeral_2_eq_2 [symmetric] conj_ac)
qed

lemma bit_u8_nonzero: "(b :: byte) \<noteq> 0 \<Longrightarrow> \<exists>i < 8. bit b i"
proof (rule ccontr)
  assume nz: "b \<noteq> 0" and none: "\<not> (\<exists>i < 8. bit b i)"
  have "\<not> bit b i" for i
    using none bit_imp_le_length [of b i] by auto
  then have "b = 0"
    by (simp add: bit_eq_iff)
  with nz show False ..
qed

lemma leading_zeros_u8_less: "b \<noteq> 0 \<Longrightarrow> leading_zeros_u8 b < 8"
proof -
  assume "b \<noteq> 0"
  then obtain i where i: "i < 8" "bit b i"
    using bit_u8_nonzero by blast
  have "i \<in> set [7, 6, 5, 4, 3, 2, 1, 0]"
    using i(1) by (simp, arith)
  then have "length (takeWhile (\<lambda>i. \<not> bit b i) [7, 6, 5, 4, 3, 2, 1, 0]) < length [7, 6, 5, 4, 3, 2, 1, 0 :: nat]"
    using i(2) by (metis (mono_tags, lifting) length_takeWhile_le le_neq_implies_less
      set_takeWhileD takeWhile_eq_take take_all_iff order_refl)
  then show ?thesis by (simp add: leading_zeros_u8_def)
qed

lemma leading_zeros_u8_zero: "leading_zeros_u8 0 = 8"
  by (simp add: leading_zeros_u8_def)

lemma leading_zero_bits_le: "leading_zero_bits hs \<le> 8 * length hs"
  by (induction hs) (auto dest!: leading_zeros_u8_less)

lemma le_leading_zero_bits_iff:
  "k \<le> 8 * length hs \<Longrightarrow> k \<le> leading_zero_bits hs \<longleftrightarrow>
     (\<forall>b \<in> set (take (k div 8) hs). b = 0) \<and>
     (0 < k mod 8 \<longrightarrow> k mod 8 \<le> leading_zeros_u8 (hs ! (k div 8)))"
proof (induction hs arbitrary: k)
  case (Cons b bs)
  show ?case
  proof (cases "k < 8")
    case True
    then have "k div 8 = 0" "k mod 8 = k" by simp_all
    with True show ?thesis
      by (cases "b = 0"; cases k) (simp_all add: leading_zeros_u8_zero)
  next
    case False
    define k' where "k' = k - 8"
    with False have k: "k = k' + 8" by simp
    have "k' \<le> 8 * length bs"
      using Cons.prems k by simp
    note IH = Cons.IH [OF this]
    have dm: "k div 8 = Suc (k' div 8)" "k mod 8 = k' mod 8"
      unfolding k by simp_all
    show ?thesis
    proof (cases "b = 0")
      case True
      with IH dm k show ?thesis by simp
    next
      case b: False
      with leading_zeros_u8_less [OF b] False dm show ?thesis by simp
    qed
  qed
qed simp

lemma meets_difficulty_nat:
  assumes "bits \<noteq> 0"
  shows "meets_difficulty hash bits \<longleftrightarrow>
     (\<forall>b \<in> set (take (unat bits div 8) hash). b = 0) \<and>
     (0 < unat bits mod 8 \<and> unat bits div 8 < 32 \<longrightarrow>
        unat bits mod 8 \<le> leading_zeros_u8 (hash ! (unat bits div 8)))"
proof -
  have div: "unat (bits div 8) = unat bits div 8" and mod: "unat (bits mod 8) = unat bits mod 8"
    by (simp_all add: unat_div unat_mod)
  have "unat bits mod 8 < 8" by simp
  then show ?thesis
    using assms by (auto simp: meets_difficulty_def Let_def div mod list_ex_iff
        leading_zeros_u8_ge [symmetric])
qed

lemma meets_difficulty_iff:
  assumes len: "length hash = 32"
  shows "meets_difficulty hash bits \<longleftrightarrow> min (unat bits) 256 \<le> leading_zero_bits hash"
proof (cases "bits = 0")
  case True
  then show ?thesis by (simp add: meets_difficulty_def)
next
  case nz: False
  show ?thesis
  proof (cases "unat bits \<le> 256")
    case True
    have "0 < unat bits mod 8 \<Longrightarrow> unat bits div 8 < 32"
      using True by presburger
    with True show ?thesis
      using le_leading_zero_bits_iff [of "unat bits" hash] len
      by (auto simp: meets_difficulty_nat [OF nz] min_absorb1)
  next
    case False
    then have "32 \<le> unat bits div 8" by simp
    moreover have "256 \<le> leading_zero_bits hash \<longleftrightarrow> (\<forall>b \<in> set hash. b = 0)"
      using le_leading_zero_bits_iff [of 256 hash] len by simp
    ultimately show ?thesis
      using False len by (simp add: meets_difficulty_nat [OF nz])
  qed
qed

lemma meets_difficulty_0 [simp]: "meets_difficulty h 0"
  by (simp add: meets_difficulty_def)

lemma meets_difficulty_mono:
  assumes "length hash = 32" and "meets_difficulty hash bits" and "bits' \<le> bits"
  shows "meets_difficulty hash bits'"
  using assms by (auto simp: meets_difficulty_iff word_le_nat_alt)

section \<open>Genesis and timestamps\<close>

definition genesis_header :: "prims \<Rightarrow> l1_header" where
  "genesis_header P =
     \<lparr>h_version = 1, h_height = 0, h_prev_hash = GENESIS_PREV_HASH, h_merkle_root = zeros 32,
      h_state_root = empty_state_root P, h_timestamp = 1751241600000, h_nonce = 0,
      h_miner_address = GENESIS_MINER_ADDRESS, h_difficulty_bits = 0,
      h_bitcoin_seed_hash = zeros 32\<rparr>"

definition timestamp_is_valid :: "u64 \<Rightarrow> u64 \<Rightarrow> u64 \<Rightarrow> u64 \<Rightarrow> bool" where
  "timestamp_is_valid candidate_ms prev_ms validator_now_ms max_future_ms \<longleftrightarrow>
     candidate_ms > prev_ms \<and> candidate_ms \<le> sat_add validator_now_ms max_future_ms"

lemma genesis_header_wf: "hash_ok P \<Longrightarrow> header_wf (genesis_header P)"
  by (simp add: header_wf_def genesis_header_def GENESIS_PREV_HASH_def GENESIS_MINER_ADDRESS_def
      empty_state_root_def)

lemma timestamp_is_valid_iff:
  "timestamp_is_valid c p now fut \<longleftrightarrow>
     unat p < unat c \<and> unat c \<le> min (unat now + unat fut) (2 ^ 64 - 1)"
  by (simp add: timestamp_is_valid_def word_less_nat_alt word_le_nat_alt word_nat)

section \<open>Properties\<close>

text \<open>The bytes hashed into a block hash determine the header: two headers with arrays of the
  declared lengths have the same preimage only if they agree in every field, the state root and the
  Bitcoin seed included.\<close>

theorem header_preimage_binds_all_fields:
  assumes "header_wf a" "header_wf b"
  shows "header_preimage a = header_preimage b \<longleftrightarrow> a = b"
  using header_preimage_fields [OF assms] by blast

theorem header_preimage_binds_all_fields_witness:
  "header_preimage (genesis_header sample_prims)
   \<noteq> header_preimage ((genesis_header sample_prims)\<lparr>h_state_root := replicate 32 7\<rparr>)"
proof -
  have wf: "header_wf (genesis_header sample_prims)"
    by (rule genesis_header_wf [OF sample_hash_ok])
  have "header_wf ((genesis_header sample_prims)\<lparr>h_state_root := replicate 32 7\<rparr>)"
    using wf by (simp add: header_wf_def)
  moreover have "h_state_root (genesis_header sample_prims) ! 0 = 13"
    by (simp add: genesis_header_def empty_state_root_def compute_state_root_def
        state_root_preimage_def STATE_ROOT_TAG_def sample_hash_head)
  then have "h_state_root (genesis_header sample_prims) \<noteq> replicate 32 7"
    by auto
  then have "(genesis_header sample_prims)\<lparr>h_state_root := replicate 32 7\<rparr> \<noteq> genesis_header sample_prims"
    by (auto dest: arg_cong [where f = h_state_root])
  ultimately show ?thesis
    by (simp add: header_preimage_binds_all_fields [OF wf] eq_commute)
qed

text \<open>The byte-and-mask difficulty check accepts a 32-byte hash exactly when it has at least the
  required number of leading zero bits (requirements above 256 act as 256).\<close>

theorem meets_difficulty_leading_zeros:
  assumes "length hash = 32"
  shows "meets_difficulty hash bits \<longleftrightarrow> min (unat bits) 256 \<le> leading_zero_bits hash"
  by (rule meets_difficulty_iff [OF assms])

theorem meets_difficulty_leading_zeros_witness:
  "meets_difficulty (zeros 3 @ [0x1f] @ zeros 28) 27 \<and> \<not> meets_difficulty (zeros 3 @ [0x1f] @ zeros 28) 28"
  using meets_difficulty_leading_zeros [of "zeros 3 @ [0x1f] @ zeros 28" 27]
    meets_difficulty_leading_zeros [of "zeros 3 @ [0x1f] @ zeros 28" 28]
  by (simp add: zeros_def numeral_3_eq_3 leading_zeros_u8_def)

text \<open>A timestamp is accepted exactly when it lies strictly after its predecessor's and at most
  the allowed drift after the validator's clock, with the bound saturating at the largest u64.\<close>

theorem timestamp_rule:
  "timestamp_is_valid c p now fut \<longleftrightarrow>
     unat p < unat c \<and> unat c \<le> min (unat now + unat fut) (2 ^ 64 - 1)"
  by (rule timestamp_is_valid_iff)

end
