(* ===== verification/Transactions.thy ===== *)
theory Transactions
  imports Wallet_Crypto Block
begin

text \<open>
  \<^verbatim>\<open>core/src/transaction.rs\<close>: transfers, their signing with the hybrid wallet or with Ed25519 only,
  their verification, ids, addresses and the Merkle root of a block's transactions. The lemmas
  give the exact condition under which verification succeeds, show that what either signing
  function produces verifies, that the signed digest determines the transfer, and what the
  Merkle root does and does not commit to.
\<close>

definition TX_DOMAIN_TAG :: bytes where
  "TX_DOMAIN_TAG = as_bytes ''BINA-TX-v1''"

definition ED25519_PUBLIC_KEY_BYTES :: nat where "ED25519_PUBLIC_KEY_BYTES = 32"
definition ED25519_SIGNATURE_BYTES :: nat where "ED25519_SIGNATURE_BYTES = 64"
definition MAX_TXS_PER_BLOCK :: nat where "MAX_TXS_PER_BLOCK = 2000"

definition TX_MERKLE_TAG :: bytes where
  "TX_MERKLE_TAG = as_bytes ''BINA-TXMERKLE-v1''"

definition TX_ID_TAG :: bytes where
  "TX_ID_TAG = as_bytes ''BINA-TXID-v1''"

lemmas ed25519_sizes = ED25519_PUBLIC_KEY_BYTES_def ED25519_SIGNATURE_BYTES_def

record transaction =
  tx_from :: wallet_address
  tx_to :: wallet_address
  tx_amount :: u64
  tx_nonce :: u64
  tx_fee :: u64

record signed_transaction =
  stx_tx :: transaction
  stx_public_key :: bytes
  stx_signature :: bytes

datatype tx_error =
    FromNotSigner
  | FromNotEdSigner
  | AmountZero
  | SendToSelf
  | TxCrypto crypto_error
  | PublicKeyNotFrom
  | TxSignatureFailed crypto_error
  | EdKeyLength nat
  | EdKeyNotFrom
  | EdSignatureLength nat
  | EdKeyInvalid
  | EdTxSignatureFailed
  | AddressNotHex
  | AddressLength nat

definition tx_wf :: "transaction \<Rightarrow> bool" where
  "tx_wf t \<longleftrightarrow> length (tx_from t) = 20 \<and> length (tx_to t) = 20"

definition tx_preimage :: "transaction \<Rightarrow> bytes" where
  "tx_preimage t = TX_DOMAIN_TAG @ tx_from t @ tx_to t @ le_bytes 8 (tx_amount t)
     @ le_bytes 8 (tx_nonce t) @ le_bytes 8 (tx_fee t)"

definition tx_digest :: "prims \<Rightarrow> transaction \<Rightarrow> bytes" where
  "tx_digest P t = blake3 P (tx_preimage t)"

definition ed25519_only_address :: "prims \<Rightarrow> bytes \<Rightarrow> tx_error + wallet_address" where
  "ed25519_only_address P public_key =
     (if length public_key \<noteq> ED25519_PUBLIC_KEY_BYTES then Inl (EdKeyLength (length public_key))
      else Inr (take 20 (keccak256 P public_key)))"

definition parse_address_hex :: "prims \<Rightarrow> string \<Rightarrow> tx_error + wallet_address" where
  "parse_address_hex P address =
     (let trimmed = (if take 2 address = ''0x'' then drop 2 address else address) in
      case hex_decode P trimmed of
        None \<Rightarrow> Inl AddressNotHex
      | Some bytes \<Rightarrow>
          if length bytes \<noteq> 20 then Inl (AddressLength (length bytes)) else Inr bytes)"

section \<open>Signing\<close>

definition stx_sign ::
    "prims \<Rightarrow> nat \<Rightarrow> transaction \<Rightarrow> wallet_keypair \<Rightarrow> tx_error + signed_transaction" where
  "stx_sign P q t kp =
     (if tx_from t \<noteq> keypair_address P kp then Inl FromNotSigner
      else let digest = tx_digest P t;
               signature = hsig_to_bytes (keypair_sign P q kp digest) in
        Inr \<lparr>stx_tx = t, stx_public_key = wpk_to_bytes (kp_public kp), stx_signature = signature\<rparr>)"

definition stx_sign_ed25519_only ::
    "prims \<Rightarrow> transaction \<Rightarrow> bytes \<Rightarrow> tx_error + signed_transaction" where
  "stx_sign_ed25519_only P t signing_key =
     (let public_key = ed_public P signing_key in
      res_bind (ed25519_only_address P public_key) (\<lambda>addr.
        if tx_from t \<noteq> addr then Inl FromNotEdSigner
        else Inr \<lparr>stx_tx = t, stx_public_key = public_key,
                  stx_signature = ed_sign P signing_key (tx_digest P t)\<rparr>))"

section \<open>Verification\<close>

definition stx_validate_fields :: "signed_transaction \<Rightarrow> tx_error + unit" where
  "stx_validate_fields s =
     (if tx_amount (stx_tx s) = 0 then Inl AmountZero
      else if tx_from (stx_tx s) = tx_to (stx_tx s) then Inl SendToSelf
      else Inr ())"

definition stx_verify_ed25519_only :: "prims \<Rightarrow> signed_transaction \<Rightarrow> tx_error + unit" where
  "stx_verify_ed25519_only P s =
     res_bind (ed25519_only_address P (stx_public_key s)) (\<lambda>addr.
       if tx_from (stx_tx s) \<noteq> addr then Inl EdKeyNotFrom
       else if length (stx_signature s) \<noteq> ED25519_SIGNATURE_BYTES
       then Inl (EdSignatureLength (length (stx_signature s)))
       else if \<not> ed_pk_valid P (stx_public_key s) then Inl EdKeyInvalid
       else if \<not> ed_verify P (stx_public_key s) (tx_digest P (stx_tx s)) (stx_signature s)
       then Inl EdTxSignatureFailed
       else Inr ())"

definition stx_verify :: "prims \<Rightarrow> signed_transaction \<Rightarrow> tx_error + unit" where
  "stx_verify P s =
     res_bind (stx_validate_fields s) (\<lambda>_.
       if length (stx_public_key s) = ED25519_PUBLIC_KEY_BYTES then stx_verify_ed25519_only P s
       else res_bind (map_err TxCrypto (wpk_from_bytes P (stx_public_key s))) (\<lambda>public_key.
         if wpk_address P public_key \<noteq> tx_from (stx_tx s) then Inl PublicKeyNotFrom
         else res_bind (map_err TxCrypto (hsig_from_bytes (stx_signature s))) (\<lambda>signature.
           map_err TxSignatureFailed
             (wpk_verify P public_key (tx_digest P (stx_tx s)) signature))))"

section \<open>Ids and the Merkle root\<close>

definition tx_id_preimage :: "prims \<Rightarrow> signed_transaction \<Rightarrow> bytes" where
  "tx_id_preimage P s = TX_ID_TAG @ tx_digest P (stx_tx s) @ stx_signature s"

definition stx_tx_id :: "prims \<Rightarrow> signed_transaction \<Rightarrow> bytes" where
  "stx_tx_id P s = blake3 P (tx_id_preimage P s)"

definition stx_tx_id_hex :: "prims \<Rightarrow> signed_transaction \<Rightarrow> string" where
  "stx_tx_id_hex P s = hex_encode P (stx_tx_id P s)"

definition stx_from_hex :: "prims \<Rightarrow> signed_transaction \<Rightarrow> string" where
  "stx_from_hex P s = hex_encode P (tx_from (stx_tx s))"

definition stx_to_hex :: "prims \<Rightarrow> signed_transaction \<Rightarrow> string" where
  "stx_to_hex P s = hex_encode P (tx_to (stx_tx s))"

definition merkle_node :: "prims \<Rightarrow> bytes \<Rightarrow> bytes \<Rightarrow> bytes" where
  "merkle_node P a b = blake3 P (TX_MERKLE_TAG @ a @ b)"

text \<open>One pass of the \<^verbatim>\<open>while\<close> loop over \<^verbatim>\<open>layer.chunks(2)\<close>; an odd last node is paired with itself.\<close>

fun merkle_next :: "prims \<Rightarrow> bytes list \<Rightarrow> bytes list" where
  "merkle_next P [] = []"
| "merkle_next P [a] = [merkle_node P a a]"
| "merkle_next P (a # b # layer) = merkle_node P a b # merkle_next P layer"

lemma length_merkle_next: "length (merkle_next P layer) = (length layer + 1) div 2"
  by (induction P layer rule: merkle_next.induct) auto

function merkle_reduce :: "prims \<Rightarrow> bytes list \<Rightarrow> bytes" where
  "merkle_reduce P layer =
     (if length layer > 1 then merkle_reduce P (merkle_next P layer) else layer ! 0)"
  by pat_completeness auto
termination
  by (relation "measure (\<lambda>(P, layer). length layer)") (auto simp: length_merkle_next)

declare merkle_reduce.simps [simp del]

definition merkle_root :: "prims \<Rightarrow> signed_transaction list \<Rightarrow> bytes" where
  "merkle_root P txs = (if txs = [] then zeros 32 else merkle_reduce P (map (stx_tx_id P) txs))"

section \<open>Lengths\<close>

lemma length_tx_digest [simp, len_simps]: "hash_ok P \<Longrightarrow> length (tx_digest P t) = 32"
  by (simp add: tx_digest_def)

lemma length_stx_tx_id [simp, len_simps]: "hash_ok P \<Longrightarrow> length (stx_tx_id P s) = 32"
  by (simp add: stx_tx_id_def)

lemma length_ed25519_only_address:
  "hash_ok P \<Longrightarrow> ed25519_only_address P k = Inr a \<Longrightarrow> length a = 20"
  by (auto simp: ed25519_only_address_def split: if_splits)

lemma length_parse_address_hex: "parse_address_hex P s = Inr a \<Longrightarrow> length a = 20"
  by (auto simp: parse_address_hex_def Let_def split: option.splits if_splits)

section \<open>What the digest commits to\<close>

lemma tx_preimage_inj:
  assumes "tx_wf a" "tx_wf b" "tx_preimage a = tx_preimage b"
  shows "a = b"
proof -
  have "tx_from a = tx_from b" "tx_to a = tx_to b"
    and "le_bytes 8 (tx_amount a) = le_bytes 8 (tx_amount b)"
    and "le_bytes 8 (tx_nonce a) = le_bytes 8 (tx_nonce b)"
    and "le_bytes 8 (tx_fee a) = le_bytes 8 (tx_fee b)"
    using assms by (auto simp: tx_preimage_def tx_wf_def)
  then show ?thesis
    by (auto intro!: transaction.equality intro: le_bytes_inj [where k = 8])
qed

section \<open>When verification succeeds\<close>

lemma stx_validate_fields_ok_iff:
  "stx_validate_fields s = Inr () \<longleftrightarrow> tx_amount (stx_tx s) \<noteq> 0 \<and> tx_from (stx_tx s) \<noteq> tx_to (stx_tx s)"
  by (simp add: stx_validate_fields_def)

lemma stx_verify_ed25519_only_ok_iff:
  "stx_verify_ed25519_only P s = Inr () \<longleftrightarrow>
     ed25519_only_address P (stx_public_key s) = Inr (tx_from (stx_tx s))
     \<and> length (stx_signature s) = 64 \<and> ed_pk_valid P (stx_public_key s)
     \<and> ed_verify P (stx_public_key s) (tx_digest P (stx_tx s)) (stx_signature s)"
  by (auto simp: stx_verify_ed25519_only_def res_bind_Inr_iff ed25519_sizes)

lemma stx_verify_ok_iff:
  "stx_verify P s = Inr () \<longleftrightarrow>
     stx_validate_fields s = Inr () \<and>
     (if length (stx_public_key s) = 32 then stx_verify_ed25519_only P s = Inr ()
      else \<exists>pk sig. wpk_from_bytes P (stx_public_key s) = Inr pk
             \<and> wpk_address P pk = tx_from (stx_tx s)
             \<and> hsig_from_bytes (stx_signature s) = Inr sig
             \<and> wpk_verify P pk (tx_digest P (stx_tx s)) sig = Inr ())"
  by (auto simp: stx_verify_def res_bind_Inr_iff ed25519_sizes)

lemma stx_verify_sender:
  assumes "stx_verify P s = Inr ()"
  shows "tx_amount (stx_tx s) \<noteq> 0" "tx_from (stx_tx s) \<noteq> tx_to (stx_tx s)"
  using assms by (auto simp: stx_verify_ok_iff stx_validate_fields_ok_iff)

lemma stx_verify_from_length:
  "hash_ok P \<Longrightarrow> stx_verify P s = Inr () \<Longrightarrow> length (tx_from (stx_tx s)) = 20"
  by (auto simp: stx_verify_ok_iff stx_verify_ed25519_only_ok_iff length_ed25519_only_address
      split: if_splits dest: arg_cong [where f = length])

section \<open>What is signed verifies\<close>

lemma stx_sign_verifies:
  assumes "hash_ok P" "sig_ok P" "length seed = 32"
    and "stx_sign P q t (keypair_generate P seed r) = Inr s"
    and "tx_amount t \<noteq> 0" "tx_from t \<noteq> tx_to t"
  shows "stx_verify P s = Inr ()"
proof -
  define kp where "kp = keypair_generate P seed r"
  have wf: "wpk_wf P (kp_public kp)"
    using keypair_generate_wf [OF assms(2,3)] by (simp add: kp_def keypair_wf_def)
  have s: "s = \<lparr>stx_tx = t, stx_public_key = wpk_to_bytes (kp_public kp),
                stx_signature = hsig_to_bytes (keypair_sign P q kp (tx_digest P t))\<rparr>"
    and addr: "tx_from t = wpk_address P (kp_public kp)"
    using assms(4) by (auto simp: stx_sign_def Let_def kp_def keypair_address_def split: if_splits)
  have "length (wpk_to_bytes (kp_public kp)) \<noteq> 32"
    using wf by (simp add: wpk_wf_def wpk_to_bytes_def falcon_sizes)
  moreover have "hsig_wf (keypair_sign P q kp (tx_digest P t))"
    unfolding kp_def by (rule keypair_sign_wf [OF assms(2,3)])
  moreover have "wpk_verify P (kp_public kp) (tx_digest P t) (keypair_sign P q kp (tx_digest P t)) = Inr ()"
    unfolding kp_def by (rule keypair_sign_verifies [OF assms(2,3)])
  ultimately show ?thesis
    using wf assms(5,6) by (simp add: s addr stx_verify_ok_iff stx_validate_fields_ok_iff
        wpk_from_to_bytes hsig_from_to_bytes)
qed

lemma stx_sign_ed25519_only_verifies:
  assumes "sig_ok P" "length sk = 32"
    and "stx_sign_ed25519_only P t sk = Inr s"
    and "tx_amount t \<noteq> 0" "tx_from t \<noteq> tx_to t"
  shows "stx_verify P s = Inr ()"
proof -
  have "ed25519_only_address P (ed_public P sk) = Inr (tx_from t)"
    and s: "s = \<lparr>stx_tx = t, stx_public_key = ed_public P sk,
                 stx_signature = ed_sign P sk (tx_digest P t)\<rparr>"
    using assms(3) by (auto simp: stx_sign_ed25519_only_def Let_def res_bind_Inr_iff split: if_splits)
  with assms show ?thesis
    by (simp add: stx_verify_ok_iff stx_validate_fields_ok_iff stx_verify_ed25519_only_ok_iff sig_ok_def)
qed

lemma stx_sign_tx: "stx_sign P q t kp = Inr s \<Longrightarrow> stx_tx s = t \<and> stx_public_key s = wpk_to_bytes (kp_public kp)"
  by (auto simp: stx_sign_def Let_def split: if_splits)

lemma stx_sign_ed25519_only_tx: "stx_sign_ed25519_only P t k = Inr s \<Longrightarrow> stx_tx s = t"
  by (auto simp: stx_sign_ed25519_only_def Let_def res_bind_Inr_iff split: if_splits)

section \<open>Signatures are malleable\<close>

text \<open>Bytes appended to a hybrid signature do not affect verification but enter the id.\<close>

lemma stx_verify_append_signature:
  assumes "stx_verify P s = Inr ()" and "length (stx_public_key s) \<noteq> 32"
  shows "stx_verify P (s\<lparr>stx_signature := stx_signature s @ extra\<rparr>) = Inr ()"
  using assms by (auto simp: stx_verify_ok_iff stx_validate_fields_ok_iff
      intro: hsig_from_bytes_append)

section \<open>What the Merkle root commits to\<close>

text \<open>
  The byte strings hashed on the way from a list of ids to the root. A root commits to the list
  of ids of a given length as long as no two of these strings collide; since a hash cannot be
  injective on all strings, the hypothesis is about these finitely many only.
\<close>

fun merkle_pairs :: "bytes list \<Rightarrow> bytes list" where
  "merkle_pairs [] = []"
| "merkle_pairs [a] = [TX_MERKLE_TAG @ a @ a]"
| "merkle_pairs (a # b # layer) = (TX_MERKLE_TAG @ a @ b) # merkle_pairs layer"

lemma merkle_next_pairs: "merkle_next P layer = map (blake3 P) (merkle_pairs layer)"
  by (induction layer rule: merkle_pairs.induct) (auto simp: merkle_node_def)

function merkle_inputs :: "prims \<Rightarrow> bytes list \<Rightarrow> bytes list" where
  "merkle_inputs P layer =
     (if length layer > 1 then merkle_pairs layer @ merkle_inputs P (merkle_next P layer) else [])"
  by pat_completeness auto
termination
  by (relation "measure (\<lambda>(P, layer). length layer)") (auto simp: length_merkle_next)

declare merkle_inputs.simps [simp del]

lemma merkle_pairs_inj:
  assumes "length xs = length ys" "\<forall>x \<in> set xs \<union> set ys. length x = 32"
    and "merkle_pairs xs = merkle_pairs ys"
  shows "xs = ys"
  using assms
proof (induction xs arbitrary: ys rule: merkle_pairs.induct)
  case (2 a)
  then show ?case
    by (cases ys) auto
next
  case (3 a b layer)
  then obtain c d ys' where ys: "ys = c # d # ys'"
    by (cases ys; cases "tl ys") auto
  have "(TX_MERKLE_TAG @ a @ b) = TX_MERKLE_TAG @ c @ d \<and> merkle_pairs layer = merkle_pairs ys'"
    using "3.prems"(3) unfolding ys by simp
  moreover have "length a = length c"
    using "3.prems"(2) by (simp add: ys)
  ultimately show ?case
    using "3.IH" [of ys'] "3.prems"(1,2) by (simp add: ys)
qed simp

lemma merkle_next_lengths: "hash_ok P \<Longrightarrow> x \<in> set (merkle_next P layer) \<Longrightarrow> length x = 32"
  by (auto simp: merkle_next_pairs)

lemma merkle_next_nonempty: "length layer > 1 \<Longrightarrow> merkle_next P layer \<noteq> []"
  using length_merkle_next [of P layer] by auto

lemma merkle_reduce_inj:
  assumes "hash_ok P" "inj_on (blake3 P) (set (merkle_inputs P xs) \<union> set (merkle_inputs P ys))"
    and "length xs = length ys" "xs \<noteq> []" "\<forall>x \<in> set xs \<union> set ys. length x = 32"
    and "merkle_reduce P xs = merkle_reduce P ys"
  shows "xs = ys"
  using assms
proof (induction P xs arbitrary: ys rule: merkle_reduce.induct)
  case (1 P layer)
  show ?case
  proof (cases "length layer > 1")
    case True
    with "1.prems"(3) have y: "length ys > 1" by simp
    note unfold = merkle_inputs.simps [of P layer] merkle_inputs.simps [of P ys]
      merkle_reduce.simps [of P layer] merkle_reduce.simps [of P ys]
    note inputs = unfold(1,2) [unfolded if_P [OF True] if_P [OF y]]
    have "merkle_next P layer = merkle_next P ys"
    proof (rule "1.IH" [OF True "1.prems"(1)])
      show "inj_on (blake3 P) (set (merkle_inputs P (merkle_next P layer))
              \<union> set (merkle_inputs P (merkle_next P ys)))"
        using "1.prems"(2) by (rule inj_on_subset) (auto simp: inputs)
      show "merkle_reduce P (merkle_next P layer) = merkle_reduce P (merkle_next P ys)"
        using "1.prems"(6) True y by (simp add: unfold)
      show "\<forall>x \<in> set (merkle_next P layer) \<union> set (merkle_next P ys). length x = 32"
        using merkle_next_lengths [OF "1.prems"(1)] by blast
    qed (use "1.prems"(3) True in \<open>simp_all add: length_merkle_next merkle_next_nonempty\<close>)
    then have "map (blake3 P) (merkle_pairs layer) = map (blake3 P) (merkle_pairs ys)"
      by (simp add: merkle_next_pairs)
    moreover have "inj_on (blake3 P) (set (merkle_pairs layer) \<union> set (merkle_pairs ys))"
      using "1.prems"(2) by (rule inj_on_subset) (auto simp: inputs)
    ultimately have "merkle_pairs layer = merkle_pairs ys"
      by (rule map_inj_on)
    then show ?thesis
      by (rule merkle_pairs_inj [OF "1.prems"(3,5)])
  next
    case False
    then obtain a b where "layer = [a]" "ys = [b]"
      using "1.prems"(3,4) by (cases layer; cases ys) auto
    with "1.prems"(6) show ?thesis
      by (simp add: merkle_reduce.simps)
  qed
qed

definition merkle_hashed :: "prims \<Rightarrow> signed_transaction list \<Rightarrow> bytes set" where
  "merkle_hashed P txs = set (merkle_inputs P (map (stx_tx_id P) txs))"

lemma merkle_root_ids:
  assumes "hash_ok P" and "length txs = length txs'"
    and "inj_on (blake3 P) (merkle_hashed P txs \<union> merkle_hashed P txs')"
    and "merkle_root P txs = merkle_root P txs'"
  shows "map (stx_tx_id P) txs = map (stx_tx_id P) txs'"
proof (cases "txs = []")
  case False
  with assms(2,4) have "merkle_reduce P (map (stx_tx_id P) txs) = merkle_reduce P (map (stx_tx_id P) txs')"
    by (auto simp: merkle_root_def split: if_splits)
  with assms(1-3) False show ?thesis
    by (intro merkle_reduce_inj) (auto simp: merkle_hashed_def)
qed (use assms(2) in simp)

lemma merkle_root_single: "merkle_root P [s] = stx_tx_id P s"
  by (simp add: merkle_root_def merkle_reduce.simps)

text \<open>The duplication of an odd last node: repeating the last of three transactions keeps the root.\<close>

lemma merkle_root_duplicate: "merkle_root P [a, b, c] = merkle_root P [a, b, c, c]"
  by (simp add: merkle_root_def merkle_reduce.simps)

lemma length_merkle_root: 
  assumes "hash_ok P"
  shows "length (merkle_root P txs) = 32"
proof -
  have "length (merkle_reduce P layer) = 32" if "layer \<noteq> []" "\<forall>x \<in> set layer. length x = 32" for layer
    using that assms
  proof (induction P layer rule: merkle_reduce.induct)
    case (1 P layer)
    show ?case
    proof (cases "length layer > 1")
      case True
      with 1 show ?thesis
        using merkle_next_lengths [OF 1(4)] merkle_next_nonempty [OF True]
        by (simp add: merkle_reduce.simps [of P layer])
    next
      case False
      then show ?thesis
        using 1(2,3) by (cases layer) (auto simp: merkle_reduce.simps)
    qed
  qed
  then show ?thesis
    using assms by (simp add: merkle_root_def)
qed

section \<open>Addresses\<close>

lemma parse_address_hex_encode:
  assumes "hex_ok P" and "length a = 20"
  shows "parse_address_hex P (hex_encode P a) = Inr a"
    and "parse_address_hex P (''0x'' @ hex_encode P a) = Inr a"
proof -
  have "take 2 (hex_encode P a) \<noteq> ''0x''"
  proof
    assume "take 2 (hex_encode P a) = ''0x''"
    then have "CHR ''x'' \<in> set (hex_encode P a)"
      by (metis in_set_takeD list.set_intros(1) list.set_intros(2))
    with assms(1) have "CHR ''x'' \<in> set ''0123456789abcdef''"
      by (rule hex_encode_chars)
    then show False by simp
  qed
  with assms show "parse_address_hex P (hex_encode P a) = Inr a"
    by (simp add: parse_address_hex_def Let_def)
  from assms show "parse_address_hex P (''0x'' @ hex_encode P a) = Inr a"
    by (simp add: parse_address_hex_def Let_def)
qed

section \<open>Properties\<close>

text \<open>A transaction verifies exactly when its amount is non-zero, it does not send to its own
  sender, and either its key is 32 bytes long and Keccak-derives the sender with a 64-byte Ed25519
  signature over the digest, or its key parses as a hybrid key deriving the sender and the parsed
  hybrid signature passes both Ed25519 and Falcon-512 over the digest.\<close>

theorem stx_verify_characterised:
  "stx_verify P s = Inr () \<longleftrightarrow>
     tx_amount (stx_tx s) \<noteq> 0 \<and> tx_from (stx_tx s) \<noteq> tx_to (stx_tx s) \<and>
     (if length (stx_public_key s) = 32
      then tx_from (stx_tx s) = take 20 (keccak256 P (stx_public_key s))
        \<and> length (stx_signature s) = 64 \<and> ed_pk_valid P (stx_public_key s)
        \<and> ed_verify P (stx_public_key s) (tx_digest P (stx_tx s)) (stx_signature s)
      else \<exists>pk sig. wpk_from_bytes P (stx_public_key s) = Inr pk
        \<and> tx_from (stx_tx s) = wpk_address P pk \<and> hsig_from_bytes (stx_signature s) = Inr sig
        \<and> ed_verify P (wpk_ed25519 pk) (tx_digest P (stx_tx s)) (hs_ed25519 sig)
        \<and> fal_sig_valid P (hs_falcon sig)
        \<and> fal_verify P (wpk_falcon pk) (tx_digest P (stx_tx s)) (hs_falcon sig))"
  by (auto simp: stx_verify_ok_iff stx_validate_fields_ok_iff stx_verify_ed25519_only_ok_iff
      ed25519_only_address_def ed25519_sizes wpk_verify_ok_iff)

text \<open>Two sample transfers, one for each kind of wallet.\<close>

definition sample_ed_tx :: transaction where
  "sample_ed_tx = \<lparr>tx_from = take 20 (sample_hash (zeros 32)), tx_to = replicate 20 1,
     tx_amount = 42, tx_nonce = 0, tx_fee = 1\<rparr>"

definition sample_hybrid_tx :: transaction where
  "sample_hybrid_tx = \<lparr>tx_from = keypair_address sample_prims (keypair_generate sample_prims (zeros 32) 0),
     tx_to = replicate 20 1, tx_amount = 42, tx_nonce = 0, tx_fee = 1\<rparr>"

text \<open>Whatever either signing function returns for a transfer of a non-zero amount to another
  address passes verification, for a hybrid wallet generated from any seed and for an Ed25519-only
  signing key.\<close>

theorem signed_transfers_verify:
  assumes "hash_ok P" "sig_ok P" "length seed = 32"
    and "stx_sign P q t (keypair_generate P seed r) = Inr s \<or> stx_sign_ed25519_only P t seed = Inr s"
    and "tx_amount t \<noteq> 0" "tx_from t \<noteq> tx_to t"
  shows "stx_verify P s = Inr () \<and> stx_tx s = t"
  using assms stx_sign_verifies [OF assms(1-3) _ assms(5,6)]
    stx_sign_ed25519_only_verifies [OF assms(2,3) _ assms(5,6)] stx_sign_tx stx_sign_ed25519_only_tx
  by metis

lemma sample_ed_tx_signs: "is_ok (stx_sign_ed25519_only sample_prims sample_ed_tx (zeros 32))"
  by (simp add: stx_sign_ed25519_only_def sample_ed_tx_def ed25519_only_address_def ed25519_sizes
      Let_def)

lemma sample_hybrid_tx_signs:
  "is_ok (stx_sign sample_prims q sample_hybrid_tx (keypair_generate sample_prims (zeros 32) 0))"
  by (simp add: stx_sign_def sample_hybrid_tx_def Let_def)

lemma sample_ed_tx_not_self: "tx_from sample_ed_tx \<noteq> tx_to sample_ed_tx"
proof
  assume "tx_from sample_ed_tx = tx_to sample_ed_tx"
  then have "tx_from sample_ed_tx ! 0 = tx_to sample_ed_tx ! 0" by simp
  then show False
    by (simp add: sample_ed_tx_def sample_hash_head)
qed

lemma sample_hybrid_tx_not_self: "tx_from sample_hybrid_tx \<noteq> tx_to sample_hybrid_tx"
proof
  assume "tx_from sample_hybrid_tx = tx_to sample_hybrid_tx"
  then have "tx_from sample_hybrid_tx ! 0 = tx_to sample_hybrid_tx ! 0" by simp
  then show False
    by (simp add: sample_hybrid_tx_def keypair_address_def wpk_address_def
        keypair_generate_def sample_hash_head ADDR_TAG_def)
qed

theorem signed_transfers_verify_witness:
  "\<exists>s s'. stx_verify sample_prims s = Inr () \<and> stx_tx s = sample_hybrid_tx
     \<and> stx_verify sample_prims s' = Inr () \<and> stx_tx s' = sample_ed_tx"
proof -
  obtain s where s: "stx_sign sample_prims 0 sample_hybrid_tx
      (keypair_generate sample_prims (zeros 32) 0) = Inr s"
    using sample_hybrid_tx_signs [of 0] by (auto simp: is_ok_iff)
  obtain s' where s': "stx_sign_ed25519_only sample_prims sample_ed_tx (zeros 32) = Inr s'"
    using sample_ed_tx_signs by (auto simp: is_ok_iff)
  have "stx_verify sample_prims s = Inr () \<and> stx_tx s = sample_hybrid_tx"
    by (rule signed_transfers_verify [where seed = "zeros 32" and q = 0 and r = 0])
      (simp_all add: s sample_hash_ok sample_sig_ok sample_hybrid_tx_not_self, simp add: sample_hybrid_tx_def)
  moreover have "stx_verify sample_prims s' = Inr () \<and> stx_tx s' = sample_ed_tx"
    by (rule signed_transfers_verify [where seed = "zeros 32" and q = 0 and r = 0])
      (simp_all add: s' sample_hash_ok sample_sig_ok sample_ed_tx_not_self, simp add: sample_ed_tx_def)
  ultimately show ?thesis by blast
qed

text \<open>The bytes a transfer's digest hashes determine sender, recipient, amount, nonce and fee:
  with 20-byte addresses, two transfers have the same preimage only if they are the same.\<close>

theorem tx_digest_binds_fields:
  assumes "tx_wf a" "tx_wf b"
  shows "tx_preimage a = tx_preimage b \<longleftrightarrow> a = b"
  using tx_preimage_inj [OF assms] by blast

theorem tx_digest_binds_fields_witness:
  "tx_preimage \<lparr>tx_from = zeros 20, tx_to = replicate 20 1, tx_amount = 42, tx_nonce = 7, tx_fee = 1\<rparr> \<noteq>
   tx_preimage \<lparr>tx_from = zeros 20, tx_to = replicate 20 1, tx_amount = 43, tx_nonce = 7, tx_fee = 1\<rparr>"
  by (subst tx_digest_binds_fields) (simp_all add: tx_wf_def)

text \<open>Two transaction lists of the same length with the same Merkle root have the same ids in
  the same order, unless the hash collides on one of the node strings computed for them.\<close>

theorem merkle_root_commits:
  assumes "hash_ok P" and "length txs = length txs'"
    and "inj_on (blake3 P) (merkle_hashed P txs \<union> merkle_hashed P txs')"
  shows "merkle_root P txs = merkle_root P txs' \<longleftrightarrow> map (stx_tx_id P) txs = map (stx_tx_id P) txs'"
proof
  show "map (stx_tx_id P) txs = map (stx_tx_id P) txs' \<Longrightarrow> merkle_root P txs = merkle_root P txs'"
    using assms(2) by (auto simp: merkle_root_def)
qed (rule merkle_root_ids [OF assms])

definition sample_stx :: "u64 \<Rightarrow> signed_transaction" where
  "sample_stx fee = \<lparr>stx_tx = sample_ed_tx\<lparr>tx_fee := fee\<rparr>, stx_public_key = zeros 32,
     stx_signature = le_bytes 8 fee\<rparr>"

theorem merkle_root_commits_witness:
  "merkle_root sample_prims [sample_stx 1, sample_stx 2] \<noteq> merkle_root sample_prims [sample_stx 1, sample_stx 3]"
proof -
  have "inj_on (blake3 sample_prims) (merkle_hashed sample_prims [sample_stx 1, sample_stx 2]
          \<union> merkle_hashed sample_prims [sample_stx 1, sample_stx 3])"
    by code_simp
  moreover have "map (stx_tx_id sample_prims) [sample_stx 1, sample_stx 2]
      \<noteq> map (stx_tx_id sample_prims) [sample_stx 1, sample_stx 3]"
    by code_simp
  ultimately show ?thesis
    using merkle_root_commits [OF sample_hash_ok] by simp
qed

text \<open>A hybrid-signed transaction that verifies still verifies after arbitrary bytes are appended
  to its signature, and the bytes hashed into its id change: transaction ids of hybrid wallets
  are malleable by anyone who relays them.\<close>

theorem hybrid_tx_id_malleable:
  assumes "stx_verify P s = Inr ()" and "length (stx_public_key s) \<noteq> ED25519_PUBLIC_KEY_BYTES"
    and "extra \<noteq> []" and "s' = s\<lparr>stx_signature := stx_signature s @ extra\<rparr>"
  shows "stx_verify P s' = Inr () \<and> stx_tx s' = stx_tx s
    \<and> tx_id_preimage P s' \<noteq> tx_id_preimage P s"
  using stx_verify_append_signature [OF assms(1)] assms(2-4)
  by (simp add: ed25519_sizes tx_id_preimage_def)

theorem hybrid_tx_id_malleable_witness:
  "\<exists>s s'. stx_tx s = sample_hybrid_tx \<and> stx_tx s' = sample_hybrid_tx
     \<and> stx_verify sample_prims s = Inr () \<and> stx_verify sample_prims s' = Inr ()
     \<and> tx_id_preimage sample_prims s' \<noteq> tx_id_preimage sample_prims s"
proof -
  obtain s where s: "stx_sign sample_prims 0 sample_hybrid_tx
      (keypair_generate sample_prims (zeros 32) 0) = Inr s"
    using sample_hybrid_tx_signs [of 0] by (auto simp: is_ok_iff)
  have v: "stx_verify sample_prims s = Inr ()"
    by (rule stx_sign_verifies [OF sample_hash_ok sample_sig_ok _ s])
      (simp_all add: sample_hybrid_tx_not_self, simp add: sample_hybrid_tx_def)
  have k: "length (stx_public_key s) \<noteq> ED25519_PUBLIC_KEY_BYTES"
    using stx_sign_tx [OF s] by (simp add: wpk_to_bytes_def keypair_generate_def ed25519_sizes)
  note hybrid_tx_id_malleable [OF v k not_Cons_self2 [of 0 "[]"] refl]
  with v stx_sign_tx [OF s] show ?thesis by metis
qed

end
