(* ===== verification/Text_Format.thy ===== *)
theory Text_Format
  imports Bina_Prelude
begin

text \<open>
  What the code uses of Rust's text handling: decimal printing and \<^verbatim>\<open>parse::<u64>()\<close>, \<^verbatim>\<open>split\<close> on a
  separator and \<^verbatim>\<open>trim\<close>. Strings are byte lists, so \<^verbatim>\<open>trim\<close> removes the ASCII white space; the
  non-ASCII white space it also knows does not occur in the files the node writes. The lemmas are the
  round trips of printing and parsing, and of joining and splitting.
\<close>

section \<open>Decimal numbers\<close>

definition digit_char :: "nat \<Rightarrow> char" where
  "digit_char d = char_of (48 + d)"

definition digit_value :: "char \<Rightarrow> nat option" where
  "digit_value c = (let n = of_char c :: nat in if 48 \<le> n \<and> n \<le> 57 then Some (n - 48) else None)"

fun show_nat :: "nat \<Rightarrow> string" where
  "show_nat n = (if n < 10 then [digit_char n] else show_nat (n div 10) @ [digit_char (n mod 10)])"

declare show_nat.simps [simp del]

definition show_u64 :: "u64 \<Rightarrow> string" where
  "show_u64 w = show_nat (unat w)"

text \<open>The digits from left to right onto an accumulator; \<open>None\<close> is an invalid digit or an overflow.\<close>

fun parse_digits :: "nat \<Rightarrow> string \<Rightarrow> nat option" where
  "parse_digits acc [] = Some acc"
| "parse_digits acc (c # s) =
     (case digit_value c of
        None \<Rightarrow> None
      | Some d \<Rightarrow> if 10 * acc + d < 2 ^ 64 then parse_digits (10 * acc + d) s else None)"

definition parse_u64 :: "string \<Rightarrow> u64 option" where
  "parse_u64 s =
     (let t = (if s \<noteq> [] \<and> hd s = CHR ''+'' then tl s else s) in
      if t = [] then None else map_option word_of_nat (parse_digits 0 t))"

lemma digit_value_char [simp]: "d < 10 \<Longrightarrow> digit_value (digit_char d) = Some d"
  by (simp add: digit_value_def digit_char_def Let_def)

lemma digit_char_neq: "d < 10 \<Longrightarrow> of_char c < (48 :: nat) \<or> 57 < (of_char c :: nat) \<Longrightarrow> digit_char d \<noteq> c"
  by (auto simp: digit_char_def)

lemma show_nat_nonempty [simp]: "show_nat n \<noteq> []"
  by (subst show_nat.simps) auto

lemma show_nat_chars: "c \<in> set (show_nat n) \<Longrightarrow> \<exists>d < 10. c = digit_char d"
proof (induction n rule: show_nat.induct)
  case (1 n)
  then show ?case
    by (subst (asm) (2) show_nat.simps) (fastforce split: if_splits intro: mod_less_divisor)
qed

lemma parse_digits_append:
  "parse_digits acc (s @ t) = Option.bind (parse_digits acc s) (\<lambda>a. parse_digits a t)"
  by (induction s arbitrary: acc) (auto split: option.splits)

lemma parse_digits_show: "n < 2 ^ 64 \<Longrightarrow> parse_digits 0 (show_nat n) = Some n"
proof (induction n rule: show_nat.induct)
  case (1 n)
  show ?case
  proof (cases "n < 10")
    case True
    then show ?thesis by (subst show_nat.simps) simp
  next
    case False
    then have "parse_digits 0 (show_nat (n div 10)) = Some (n div 10)"
      using 1 by simp
    with False "1.prems" show ?thesis
      by (subst show_nat.simps) (simp add: parse_digits_append)
  qed
qed

lemma parse_show_u64 [simp]: "parse_u64 (show_u64 w) = Some w"
proof -
  obtain d where "d < 10" "hd (show_nat (unat w)) = digit_char d"
    using show_nat_chars hd_in_set [OF show_nat_nonempty] by blast
  then have "hd (show_nat (unat w)) \<noteq> CHR ''+''"
    using digit_char_neq [of d "CHR ''+''"] by simp
  then show ?thesis
    using unat_lt_u64 [of w] by (simp add: parse_u64_def show_u64_def parse_digits_show)
qed

lemma show_u64_chars: "c \<in> set (show_u64 w) \<Longrightarrow> \<exists>d < 10. c = digit_char d"
  unfolding show_u64_def by (rule show_nat_chars)

lemma show_u64_nonempty [simp]: "show_u64 w \<noteq> []"
  by (simp add: show_u64_def)

section \<open>Separators\<close>

fun split_on :: "char \<Rightarrow> string \<Rightarrow> string list" where
  "split_on sep [] = [[]]"
| "split_on sep (c # s) =
     (if c = sep then [] # split_on sep s
      else case split_on sep s of [] \<Rightarrow> [[c]] | f # fs \<Rightarrow> (c # f) # fs)"

fun join_with :: "char \<Rightarrow> string list \<Rightarrow> string" where
  "join_with sep [] = []"
| "join_with sep [f] = f"
| "join_with sep (f # g # fs) = f @ sep # join_with sep (g # fs)"

lemma split_on_nonempty [simp]: "split_on sep s \<noteq> []"
  by (induction s) (auto split: list.splits)

lemma split_on_no_sep: "sep \<notin> set s \<Longrightarrow> split_on sep s = [s]"
  by (induction s) auto

lemma split_on_append: "sep \<notin> set f \<Longrightarrow> split_on sep (f @ sep # s) = f # split_on sep s"
  by (induction f) auto

lemma split_join:
  "fs \<noteq> [] \<Longrightarrow> \<forall>f \<in> set fs. sep \<notin> set f \<Longrightarrow> split_on sep (join_with sep fs) = fs"
  by (induction sep fs rule: join_with.induct) (auto simp: split_on_no_sep split_on_append)

section \<open>White space\<close>

definition is_space :: "char \<Rightarrow> bool" where
  "is_space c = (let n = of_char c :: nat in n = 32 \<or> (9 \<le> n \<and> n \<le> 13))"

definition trim :: "string \<Rightarrow> string" where
  "trim s = rev (dropWhile is_space (rev (dropWhile is_space s)))"

lemma trim_no_space: "\<forall>c \<in> set s. \<not> is_space c \<Longrightarrow> trim s = s"
proof -
  assume "\<forall>c \<in> set s. \<not> is_space c"
  then have "dropWhile is_space s = s" "dropWhile is_space (rev s) = rev s"
    by (auto simp: dropWhile_eq_self_iff hd_rev)
  then show ?thesis by (simp add: trim_def)
qed

lemma digit_not_space: "d < 10 \<Longrightarrow> \<not> is_space (digit_char d)"
  by (simp add: is_space_def digit_char_def Let_def)

lemma trim_show_u64 [simp]: "trim (show_u64 w) = show_u64 w"
  by (rule trim_no_space) (metis show_u64_chars digit_not_space)

lemma comma_code: "of_char (CHR '','') = (44 :: nat)"
  by simp

lemma comma_code_less: "(44 :: nat) < 48"
  by simp

lemma show_u64_no_comma [simp]: "CHR '','' \<notin> set (show_u64 w)"
proof
  assume "CHR '','' \<in> set (show_u64 w)"
  then obtain d where "d < 10" "CHR '','' = digit_char d"
    using show_u64_chars by blast
  then show False
    using digit_char_neq [of d "CHR '',''"] by (metis (full_types) comma_code comma_code_less)
qed

text \<open>A field that survives being written between commas and trimmed on the way back.\<close>

definition csv_safe :: "string \<Rightarrow> bool" where
  "csv_safe s \<longleftrightarrow> CHR '','' \<notin> set s \<and> (\<forall>c \<in> set s. \<not> is_space c)"

lemma csv_safe_trim: "csv_safe s \<Longrightarrow> trim s = s"
  by (simp add: csv_safe_def trim_no_space)

lemma csv_safe_show_u64 [simp]: "csv_safe (show_u64 w)"
  by (metis csv_safe_def show_u64_no_comma show_u64_chars digit_not_space)

lemma csv_safe_Nil [simp]: "csv_safe []"
  by (simp add: csv_safe_def)

lemma csv_safe_hex [simp]: "hex_ok P \<Longrightarrow> csv_safe (hex_encode P b)"
proof -
  assume "hex_ok P"
  then have "c \<in> set ''0123456789abcdef''" if "c \<in> set (hex_encode P b)" for c
    using hex_encode_chars that by blast
  moreover have "\<forall>c \<in> set ''0123456789abcdef''. c \<noteq> CHR '','' \<and> \<not> is_space c"
    by code_simp
  ultimately show ?thesis
    unfolding csv_safe_def by blast
qed

end
