(* ===== verification/Rewards.thy ===== *)
theory Rewards
  imports Transactions Text_Format
begin

text \<open>
  \<^verbatim>\<open>core/src/rewards.rs\<close>: the emission schedule, the reward ledger and the dry run of a block.
  The ledger's CSV file is the list of its lines, part of the state; an append takes the flag
  whether the file could be opened and written, and as in the code the balances have already
  changed when it fails.
\<close>

section \<open>Emission\<close>

definition HARD_CAP :: u64 where "HARD_CAP = 2000000000"
definition INITIAL_BLOCK_REWARD :: u64 where "INITIAL_BLOCK_REWARD = 50"
definition HALVING_INTERVAL :: u64 where "HALVING_INTERVAL = 1576800000"

definition block_reward :: "u64 \<Rightarrow> u64 \<Rightarrow> u64" where
  "block_reward height total_mined =
     (if total_mined \<ge> HARD_CAP then 0
      else let era = height div HALVING_INTERVAL;
               reward = (if era \<ge> 64 then 0 else drop_bit (unat era) INITIAL_BLOCK_REWARD) in
        min reward (HARD_CAP - total_mined))"

definition reward_era :: "u64 \<Rightarrow> u64" where
  "reward_era height = height div HALVING_INTERVAL"

definition supply_remaining :: "u64 \<Rightarrow> u64" where
  "supply_remaining total_mined = sat_sub HARD_CAP total_mined"

lemma unat_HARD_CAP: "unat HARD_CAP = 2000000000"
  by (simp add: HARD_CAP_def)

lemma block_reward_le: "block_reward h t \<le> INITIAL_BLOCK_REWARD"
proof -
  have "drop_bit n INITIAL_BLOCK_REWARD \<le> INITIAL_BLOCK_REWARD" for n
    unfolding word_le_nat_alt unat_drop_bit_eq by (simp only: drop_bit_eq_div div_le_dividend)
  then show ?thesis
    by (auto simp: block_reward_def Let_def intro: min.coboundedI1)
qed

lemma block_reward_cap:
  assumes "t \<le> HARD_CAP"
  shows "unat t + unat (block_reward h t) \<le> unat HARD_CAP"
proof (cases "t \<ge> HARD_CAP")
  case True
  with assms show ?thesis by (simp add: block_reward_def)
next
  case False
  have "block_reward h t \<le> HARD_CAP - t"
    using False by (simp add: block_reward_def Let_def)
  then have "unat (block_reward h t) \<le> unat (HARD_CAP - t)"
    by (simp add: word_le_nat_alt)
  moreover have "unat (HARD_CAP - t) = unat HARD_CAP - unat t"
    using assms by (rule unat_sub_le)
  ultimately show ?thesis
    using assms by (simp add: word_le_nat_alt)
qed

section \<open>The ledger\<close>

record ledger =
  lg_balances :: "(string, u64) hmap"
  lg_nonces :: "(string, u64) hmap"
  lg_total_mined :: u64
  lg_csv :: "string list"

datatype ledger_error =
    LedgerIo
  | LedgerTx tx_error
  | BadNonce u64 u64
  | AmountFeeOverflow
  | InsufficientBalance u64 u64

definition ledger_balance :: "ledger \<Rightarrow> string \<Rightarrow> u64" where
  "ledger_balance l address = hm_get_or 0 (lg_balances l) address"

definition ledger_nonce :: "ledger \<Rightarrow> string \<Rightarrow> u64" where
  "ledger_nonce l address = hm_get_or 0 (lg_nonces l) address"

definition ledger_supply_remaining :: "ledger \<Rightarrow> u64" where
  "ledger_supply_remaining l = supply_remaining (lg_total_mined l)"

text \<open>Sorted by balance, largest first, with a stable sort.\<close>

definition all_balances :: "ledger \<Rightarrow> (string \<times> u64) list" where
  "all_balances l = sort_key (\<lambda>p. - uint (snd p)) (lg_balances l)"

definition state_root_with_overlay :: "prims \<Rightarrow> ledger \<Rightarrow> (string, u64 \<times> u64) hmap \<Rightarrow> bytes" where
  "state_root_with_overlay P l overlay =
     (let addrs = sort (remdups (hm_keys (lg_balances l) @ hm_keys (lg_nonces l) @ hm_keys overlay)) in
      compute_state_root P
        (map (\<lambda>addr. (addr, hm_get_or (ledger_balance l addr, ledger_nonce l addr) overlay addr)) addrs))"

definition ledger_state_root :: "prims \<Rightarrow> ledger \<Rightarrow> bytes" where
  "ledger_state_root P l = state_root_with_overlay P l []"

section \<open>Crediting and transfers\<close>

definition credit_balance :: "(string, u64) hmap \<Rightarrow> string \<Rightarrow> u64 \<Rightarrow> (string, u64) hmap" where
  "credit_balance balances address amount =
     hm_insert address (sat_add (hm_get_or 0 balances address) amount) balances"

definition debit :: "(string, u64) hmap \<Rightarrow> string \<Rightarrow> u64 \<Rightarrow> (string, u64) hmap" where
  "debit balances address amount =
     hm_insert address (sat_sub (hm_get_or 0 balances address) amount) balances"

text \<open>The entry is created before the check, so a failing call leaves a zero balance behind.\<close>

definition debit_checked ::
    "(string, u64) hmap \<Rightarrow> string \<Rightarrow> u64 \<Rightarrow> (ledger_error + unit) \<times> (string, u64) hmap" where
  "debit_checked balances address amount =
     (let balance = hm_get_or 0 balances address in
      if balance < amount
      then (Inl (InsufficientBalance balance amount), hm_insert address balance balances)
      else (Inr (), hm_insert address (balance - amount) balances))"

definition reward_line :: "u64 \<Rightarrow> string \<Rightarrow> u64 \<Rightarrow> u64 \<Rightarrow> u64 \<Rightarrow> string" where
  "reward_line height miner reward tot timestamp =
     join_with (CHR '','') [show_u64 height, miner, show_u64 reward, show_u64 tot, show_u64 timestamp]"

definition tx_line ::
    "prims \<Rightarrow> u64 \<Rightarrow> signed_transaction \<Rightarrow> string \<Rightarrow> u64 \<Rightarrow> u64 \<Rightarrow> string" where
  "tx_line P height s miner tot timestamp =
     join_with (CHR '','') [''tx'', show_u64 height, stx_tx_id_hex P s, stx_from_hex P s, stx_to_hex P s,
       show_u64 (tx_amount (stx_tx s)), show_u64 (tx_fee (stx_tx s)), show_u64 (tx_nonce (stx_tx s)),
       miner, show_u64 tot, show_u64 timestamp]"

definition append_line :: "bool \<Rightarrow> string \<Rightarrow> 'a \<Rightarrow> ledger \<Rightarrow> (ledger_error + 'a) \<times> ledger" where
  "append_line io_ok line x l =
     (if io_ok then (Inr x, l\<lparr>lg_csv := lg_csv l @ [line]\<rparr>) else (Inl LedgerIo, l))"

definition ledger_credit ::
    "bool \<Rightarrow> u64 \<Rightarrow> string \<Rightarrow> u64 \<Rightarrow> u64 \<Rightarrow> ledger \<Rightarrow> (ledger_error + u64) \<times> ledger" where
  "ledger_credit io_ok height miner_address reward timestamp l =
     (if reward = 0 then (Inr (ledger_balance l miner_address), l)
      else let tot = sat_add (lg_total_mined l) reward;
               new_balance = ledger_balance l miner_address + reward;
               l' = l\<lparr>lg_total_mined := tot,
                      lg_balances := hm_insert miner_address new_balance (lg_balances l)\<rparr> in
        append_line io_ok (reward_line height miner_address reward tot timestamp) new_balance l')"

definition apply_transaction ::
    "prims \<Rightarrow> bool \<Rightarrow> u64 \<Rightarrow> signed_transaction \<Rightarrow> string \<Rightarrow> u64 \<Rightarrow> ledger
      \<Rightarrow> (ledger_error + unit) \<times> ledger" where
  "apply_transaction P io_ok height s miner_address timestamp l =
     (case stx_verify P s of
        Inl e \<Rightarrow> (Inl (LedgerTx e), l)
      | Inr _ \<Rightarrow>
         let from_addr = stx_from_hex P s; to_addr = stx_to_hex P s;
             expected_nonce = ledger_nonce l from_addr in
         if tx_nonce (stx_tx s) \<noteq> expected_nonce
         then (Inl (BadNonce expected_nonce (tx_nonce (stx_tx s))), l)
         else (case checked_add (tx_amount (stx_tx s)) (tx_fee (stx_tx s)) of
             None \<Rightarrow> (Inl AmountFeeOverflow, l)
           | Some debit_total \<Rightarrow>
              let balance = ledger_balance l from_addr in
              if balance < debit_total then (Inl (InsufficientBalance balance debit_total), l)
              else (case debit_checked (lg_balances l) from_addr debit_total of
                  (Inl e, b1) \<Rightarrow> (Inl e, l\<lparr>lg_balances := b1\<rparr>)
                | (Inr _, b1) \<Rightarrow>
                   let b2 = credit_balance b1 to_addr (tx_amount (stx_tx s));
                       b3 = (if tx_fee (stx_tx s) > 0 \<and> miner_address \<noteq> []
                             then credit_balance b2 miner_address (tx_fee (stx_tx s)) else b2);
                       n1 = hm_insert from_addr (sat_add (tx_nonce (stx_tx s)) 1) (lg_nonces l);
                       l' = l\<lparr>lg_balances := b3, lg_nonces := n1\<rparr> in
                   append_line io_ok
                     (tx_line P height s miner_address (lg_total_mined l) timestamp) () l')))"

section \<open>The dry run of a block\<close>

type_synonym overlay = "(string, u64 \<times> u64) hmap"

definition overlay_read :: "ledger \<Rightarrow> overlay \<Rightarrow> string \<Rightarrow> u64 \<times> u64" where
  "overlay_read l overlay addr = hm_get_or (ledger_balance l addr, ledger_nonce l addr) overlay addr"

text \<open>One iteration of the loop over the candidate transactions; \<open>None\<close> is \<^verbatim>\<open>continue\<close>.\<close>

definition simulate_tx :: "prims \<Rightarrow> ledger \<Rightarrow> string \<Rightarrow> signed_transaction \<Rightarrow> overlay \<Rightarrow> overlay option" where
  "simulate_tx P l miner_address s overlay =
     (if \<not> is_ok (stx_verify P s) then None
      else let from_addr = stx_from_hex P s; to_addr = stx_to_hex P s;
               (from_balance, from_nonce) = overlay_read l overlay from_addr in
        if tx_nonce (stx_tx s) \<noteq> from_nonce then None
        else (case checked_add (tx_amount (stx_tx s)) (tx_fee (stx_tx s)) of
            None \<Rightarrow> None
          | Some debit_total \<Rightarrow>
             if from_balance < debit_total then None
             else let ov1 = hm_insert from_addr (from_balance - debit_total, from_nonce + 1) overlay;
                      (to_balance, to_nonce) = overlay_read l ov1 to_addr;
                      ov2 = hm_insert to_addr (sat_add to_balance (tx_amount (stx_tx s)), to_nonce) ov1 in
               Some (if tx_fee (stx_tx s) > 0 \<and> miner_address \<noteq> []
                     then let (mb, mn) = overlay_read l ov2 miner_address in
                       hm_insert miner_address (sat_add mb (tx_fee (stx_tx s)), mn) ov2
                     else ov2)))"

fun simulate_txs ::
    "prims \<Rightarrow> ledger \<Rightarrow> string \<Rightarrow> signed_transaction list \<Rightarrow> overlay \<Rightarrow> signed_transaction list \<times> overlay" where
  "simulate_txs P l miner [] overlay = ([], overlay)"
| "simulate_txs P l miner (s # txs) overlay =
     (case simulate_tx P l miner s overlay of
        None \<Rightarrow> simulate_txs P l miner txs overlay
      | Some overlay' \<Rightarrow>
         let (applied, final) = simulate_txs P l miner txs overlay' in (s # applied, final))"

definition simulate_reward :: "ledger \<Rightarrow> string \<Rightarrow> u64 \<Rightarrow> overlay \<Rightarrow> overlay" where
  "simulate_reward l miner_address reward overlay =
     (if reward > 0 then let (mb, mn) = overlay_read l overlay miner_address in
        hm_insert miner_address (sat_add mb reward, mn) overlay
      else overlay)"

definition simulate_block_execution ::
    "prims \<Rightarrow> ledger \<Rightarrow> signed_transaction list \<Rightarrow> string \<Rightarrow> u64 \<Rightarrow> signed_transaction list \<times> bytes" where
  "simulate_block_execution P l txs miner_address reward =
     (let (applied, overlay) = simulate_txs P l miner_address txs [] in
      (applied, state_root_with_overlay P l (simulate_reward l miner_address reward overlay)))"

section \<open>What a failed or successful transfer does\<close>

lemma debit_checked_enough:
  "\<not> hm_get_or 0 b a < d \<Longrightarrow> debit_checked b a d = (Inr (), hm_insert a (hm_get_or 0 b a - d) b)"
  by (simp add: debit_checked_def Let_def)

text \<open>The balances and nonces after a transfer that passed every check.\<close>

definition transfer_effect :: "prims \<Rightarrow> signed_transaction \<Rightarrow> string \<Rightarrow> ledger \<Rightarrow> ledger" where
  "transfer_effect P s miner l =
     (let from_addr = stx_from_hex P s;
          debit_total = tx_amount (stx_tx s) + tx_fee (stx_tx s);
          b1 = hm_insert from_addr (ledger_balance l from_addr - debit_total) (lg_balances l);
          b2 = credit_balance b1 (stx_to_hex P s) (tx_amount (stx_tx s));
          b3 = (if tx_fee (stx_tx s) > 0 \<and> miner \<noteq> [] then credit_balance b2 miner (tx_fee (stx_tx s)) else b2) in
      l\<lparr>lg_balances := b3,
        lg_nonces := hm_insert from_addr (sat_add (tx_nonce (stx_tx s)) 1) (lg_nonces l)\<rparr>)"

definition transfer_ok :: "prims \<Rightarrow> signed_transaction \<Rightarrow> ledger \<Rightarrow> bool" where
  "transfer_ok P s l \<longleftrightarrow> is_ok (stx_verify P s)
     \<and> tx_nonce (stx_tx s) = ledger_nonce l (stx_from_hex P s)
     \<and> unat (tx_amount (stx_tx s)) + unat (tx_fee (stx_tx s)) \<le> unat (ledger_balance l (stx_from_hex P s))"

lemma amount_fee_fits:
  fixes a f b :: u64
  assumes "unat a + unat f \<le> unat b"
  shows "checked_add a f = Some (a + f)" "a + f \<le> b" "unat (a + f) = unat a + unat f"
proof -
  have "unat a + unat f < 2 ^ 64"
    using assms unat_lt_u64 [of b] by simp
  then show "checked_add a f = Some (a + f)" "unat (a + f) = unat a + unat f"
    by (simp_all add: checked_add_def unat_add_fits)
  with assms show "a + f \<le> b"
    by (simp add: word_le_nat_alt)
qed

lemma apply_transaction_ok:
  assumes "transfer_ok P s l"
  shows "apply_transaction P io h s miner ts l =
     append_line io (tx_line P h s miner (lg_total_mined l) ts) () (transfer_effect P s miner l)"
proof -
  have v: "stx_verify P s = Inr ()" and n: "tx_nonce (stx_tx s) = ledger_nonce l (stx_from_hex P s)"
    and b: "unat (tx_amount (stx_tx s)) + unat (tx_fee (stx_tx s)) \<le> unat (ledger_balance l (stx_from_hex P s))"
    using assms by (auto simp: transfer_ok_def is_ok_iff)
  note f = amount_fee_fits [OF b]
  then have nl: "\<not> ledger_balance l (stx_from_hex P s) < tx_amount (stx_tx s) + tx_fee (stx_tx s)"
    by (simp add: not_less)
  then have d: "debit_checked (lg_balances l) (stx_from_hex P s) (tx_amount (stx_tx s) + tx_fee (stx_tx s)) =
      (Inr (), hm_insert (stx_from_hex P s)
        (ledger_balance l (stx_from_hex P s) - (tx_amount (stx_tx s) + tx_fee (stx_tx s))) (lg_balances l))"
    by (simp add: debit_checked_enough ledger_balance_def)
  show ?thesis
    using nl by (simp add: apply_transaction_def v n f(1) d transfer_effect_def Let_def)
qed

lemma apply_transaction_bad:
  assumes "\<not> transfer_ok P s l"
  shows "\<exists>e. apply_transaction P io h s miner ts l = (Inl e, l)"
proof (cases "stx_verify P s")
  case (Inr u)
  show ?thesis
  proof (cases "checked_add (tx_amount (stx_tx s)) (tx_fee (stx_tx s))")
    case (Some d)
    then have "unat d = unat (tx_amount (stx_tx s)) + unat (tx_fee (stx_tx s))"
      by (rule checked_add_SomeD)
    with assms Inr Some show ?thesis
      by (auto simp: apply_transaction_def transfer_ok_def Let_def word_less_nat_alt)
  qed (use Inr in \<open>simp add: apply_transaction_def Let_def\<close>)
qed (simp add: apply_transaction_def)

lemma apply_transaction_cases:
  obtains (Ok) "transfer_ok P s l"
      "apply_transaction P io h s miner ts l =
         append_line io (tx_line P h s miner (lg_total_mined l) ts) () (transfer_effect P s miner l)"
  | (Bad) e where "\<not> transfer_ok P s l" "apply_transaction P io h s miner ts l = (Inl e, l)"
  using apply_transaction_ok apply_transaction_bad by metis

section \<open>Supply\<close>

definition ledger_wf :: "ledger \<Rightarrow> bool" where
  "ledger_wf l \<longleftrightarrow> hm_wf (lg_balances l) \<and> hm_wf (lg_nonces l)"

definition circulating :: "ledger \<Rightarrow> nat" where
  "circulating l = hm_sum unat (lg_balances l)"

definition supply_ok :: "ledger \<Rightarrow> bool" where
  "supply_ok l \<longleftrightarrow> circulating l \<le> unat (lg_total_mined l) \<and> lg_total_mined l \<le> HARD_CAP"

lemma append_line_sel [simp]:
  "lg_balances (snd (append_line io x v l)) = lg_balances l"
  "lg_nonces (snd (append_line io x v l)) = lg_nonces l"
  "lg_total_mined (snd (append_line io x v l)) = lg_total_mined l"
  by (simp_all add: append_line_def)

lemma supply_ok_append_line [simp]:
  "circulating (snd (append_line io x v l)) = circulating l"
  "supply_ok (snd (append_line io x v l)) = supply_ok l"
  "ledger_wf (snd (append_line io x v l)) = ledger_wf l"
  by (simp_all add: supply_ok_def circulating_def ledger_wf_def)

lemma hm_sum_insert_u64:
  "hm_sum unat (hm_insert a v b) + unat (hm_get_or 0 b a) = hm_sum unat b + unat (v :: u64)"
  by (rule hm_sum_insert_or) simp

lemma hm_sum_credit_balance: "hm_sum unat (credit_balance b a x) \<le> hm_sum unat b + unat x"
  using hm_sum_insert_u64 [of a "sat_add (hm_get_or 0 b a) x" b]
  by (simp add: credit_balance_def word_nat)

lemma hm_sum_credit_balance_fits:
  assumes "unat (hm_get_or 0 b a) + unat x < 2 ^ 64"
  shows "hm_sum unat (credit_balance b a x) = hm_sum unat b + unat x"
  using hm_sum_insert_u64 [of a "sat_add (hm_get_or 0 b a) x" b] assms
  by (simp add: credit_balance_def word_nat)

lemma hm_sum_ge_u64: "unat (hm_get_or (0 :: u64) b a) \<le> hm_sum unat b"
  by (rule hm_sum_ge_or) simp

text \<open>A transfer moves what it debits, and burns the fee when the block has no miner address.\<close>

lemma circulating_transfer_effect:
  assumes "transfer_ok P s l" and "circulating l < 2 ^ 64"
  shows "circulating (transfer_effect P s miner l)
           + (if miner = [] then unat (tx_fee (stx_tx s)) else 0) = circulating l"
proof -
  let ?f = "stx_from_hex P s" and ?a = "tx_amount (stx_tx s)" and ?e = "tx_fee (stx_tx s)"
  define b1 where "b1 = hm_insert ?f (ledger_balance l ?f - (?a + ?e)) (lg_balances l)"
  define b2 where "b2 = credit_balance b1 (stx_to_hex P s) ?a"
  have le: "unat ?a + unat ?e \<le> unat (ledger_balance l ?f)"
    using assms(1) by (simp add: transfer_ok_def)
  note fits = amount_fee_fits [OF le]
  have "unat (ledger_balance l ?f - (?a + ?e)) = unat (ledger_balance l ?f) - (unat ?a + unat ?e)"
    using unat_sub_le [OF fits(2)] fits(3) by simp
  then have s1: "hm_sum unat b1 + unat ?a + unat ?e = circulating l"
    using hm_sum_insert_u64 [of ?f "ledger_balance l ?f - (?a + ?e)" "lg_balances l"] le
    by (simp add: b1_def circulating_def ledger_balance_def)
  then have "unat (hm_get_or 0 b1 (stx_to_hex P s)) + unat ?a < 2 ^ 64"
    using hm_sum_ge_u64 [of b1 "stx_to_hex P s"] assms(2) by simp
  then have s2: "hm_sum unat b2 = hm_sum unat b1 + unat ?a"
    unfolding b2_def by (rule hm_sum_credit_balance_fits)
  then have "unat (hm_get_or 0 b2 miner) + unat ?e < 2 ^ 64"
    using hm_sum_ge_u64 [of b2 miner] s1 assms(2) by simp
  then have s3: "hm_sum unat (credit_balance b2 miner ?e) = hm_sum unat b2 + unat ?e"
    by (rule hm_sum_credit_balance_fits)
  have "?e > 0 \<or> unat ?e = 0"
    by (auto simp: word_gt_0 unat_eq_0)
  then show ?thesis
    using s1 s2 s3 by (auto simp: transfer_effect_def Let_def circulating_def b1_def b2_def)
qed

lemma transfer_effect_sel [simp]:
  "lg_total_mined (transfer_effect P s miner l) = lg_total_mined l"
  "ledger_wf l \<Longrightarrow> ledger_wf (transfer_effect P s miner l)"
  by (auto simp: transfer_effect_def Let_def ledger_wf_def credit_balance_def)

lemma ledger_wf_apply: "ledger_wf l \<Longrightarrow> ledger_wf (snd (apply_transaction P io h s miner ts l))"
  by (rule apply_transaction_cases [of P s l io h miner ts]) auto

lemma circulating_cap: "supply_ok l \<Longrightarrow> circulating l \<le> 2000000000"
  by (auto simp: supply_ok_def word_le_nat_alt unat_HARD_CAP)

lemma supply_ok_apply:
  assumes "supply_ok l"
  shows "supply_ok (snd (apply_transaction P io h s miner ts l))"
proof (cases rule: apply_transaction_cases [of P s l io h miner ts])
  case Ok
  have "circulating (transfer_effect P s miner l) \<le> circulating l"
    using circulating_transfer_effect [OF Ok(1), of miner] circulating_cap [OF assms] by simp
  with assms Ok(2) show ?thesis
    by (simp add: supply_ok_def)
qed (use assms in simp)

lemma supply_ok_credit:
  assumes "supply_ok l" and "unat (lg_total_mined l) + unat reward \<le> unat HARD_CAP"
  shows "supply_ok (snd (ledger_credit io h miner reward ts l))"
proof (cases "reward = 0")
  case False
  have total: "unat (sat_add (lg_total_mined l) reward) = unat (lg_total_mined l) + unat reward"
    using assms(2) by (simp add: word_nat unat_HARD_CAP)
  have "unat (ledger_balance l miner) \<le> circulating l"
    unfolding ledger_balance_def circulating_def by (rule hm_sum_ge_u64)
  then have "unat (ledger_balance l miner + reward) = unat (ledger_balance l miner) + unat reward"
    using assms unat_HARD_CAP by (intro unat_add_fits) (simp add: supply_ok_def)
  then have "hm_sum unat (hm_insert miner (ledger_balance l miner + reward) (lg_balances l)) = circulating l + unat reward"
    using hm_sum_insert_u64 [of miner "ledger_balance l miner + reward" "lg_balances l"]
    by (simp add: circulating_def ledger_balance_def)
  with assms False total show ?thesis
    by (simp add: ledger_credit_def Let_def supply_ok_def circulating_def word_le_nat_alt)
qed (use assms in \<open>simp add: ledger_credit_def\<close>)

lemma ledger_wf_credit: "ledger_wf l \<Longrightarrow> ledger_wf (snd (ledger_credit io h miner reward ts l))"
  by (auto simp: ledger_credit_def Let_def ledger_wf_def)

section \<open>Properties\<close>

text \<open>The reward of a block never exceeds the initial reward and never takes a total that is within
  the hard cap over it; once the cap is reached it is zero.\<close>

theorem block_reward_within_cap:
  assumes "t \<le> HARD_CAP"
  shows "unat t + unat (block_reward h t) \<le> 2000000000 \<and> block_reward h t \<le> 50
    \<and> (t = HARD_CAP \<longrightarrow> block_reward h t = 0)"
  using block_reward_cap [OF assms, of h] block_reward_le [of h t]
  by (simp add: unat_HARD_CAP INITIAL_BLOCK_REWARD_def block_reward_def)

theorem block_reward_within_cap_witness:
  "unat (1999999990 :: u64) + unat (block_reward 7 1999999990) \<le> 2000000000 \<and> block_reward 7 1999999990 = 10"
  using block_reward_within_cap [of 1999999990 7]
  by (simp add: HARD_CAP_def block_reward_def HALVING_INTERVAL_def INITIAL_BLOCK_REWARD_def Let_def)

text \<open>C6: With the reward the emission schedule gives, crediting a block and applying any transaction,
  failed file writes included, keep the ledger's maps well formed, the balances together at most
  the mined total, and the mined total at most the hard cap.\<close>

theorem ledger_supply_invariant:
  assumes "ledger_wf l" "supply_ok l"
  shows "ledger_wf (snd (apply_transaction P io h s miner ts l))
    \<and> supply_ok (snd (apply_transaction P io h s miner ts l))
    \<and> ledger_wf (snd (ledger_credit io h miner (block_reward h' (lg_total_mined l)) ts l))
    \<and> supply_ok (snd (ledger_credit io h miner (block_reward h' (lg_total_mined l)) ts l))"
proof -
  have "lg_total_mined l \<le> HARD_CAP"
    using assms(2) by (simp add: supply_ok_def)
  then have "unat (lg_total_mined l) + unat (block_reward h' (lg_total_mined l)) \<le> unat HARD_CAP"
    by (rule block_reward_cap)
  with assms show ?thesis
    by (intro conjI ledger_wf_apply supply_ok_apply ledger_wf_credit supply_ok_credit)
qed

definition sample_signed :: signed_transaction where
  "sample_signed = \<lparr>stx_tx = sample_ed_tx, stx_public_key = zeros 32,
     stx_signature = ed_sign sample_prims (zeros 32) (tx_digest sample_prims sample_ed_tx)\<rparr>"

definition sample_ledger :: ledger where
  "sample_ledger = \<lparr>lg_balances = [(stx_from_hex sample_prims sample_signed, 100)], lg_nonces = [],
     lg_total_mined = 100, lg_csv = [''header'']\<rparr>"

lemma sample_ledger_ok: "ledger_wf sample_ledger" "supply_ok sample_ledger"
  by (simp_all add: ledger_wf_def supply_ok_def sample_ledger_def hm_wf_def circulating_def hm_sum_def
      HARD_CAP_def)

lemma sample_transfer_ok: "transfer_ok sample_prims sample_signed sample_ledger"
  by code_simp

theorem ledger_supply_invariant_witness:
  "supply_ok (snd (apply_transaction sample_prims True 1 sample_signed ''bb'' 5 sample_ledger))"
  using ledger_supply_invariant [OF sample_ledger_ok] by blast

text \<open>C22: A transfer succeeds, given a writable file, exactly when its signature verifies, its nonce is
  the sender's next one and the sender holds amount plus fee (added without overflow). It then
  moves exactly these sums, burning the fee when the block names no miner; a transfer that fails
  leaves the ledger as it was.\<close>

theorem apply_transaction_conserves:
  assumes "supply_ok l"
  shows "if transfer_ok P s l
    then fst (apply_transaction P True h s miner ts l) = Inr ()
      \<and> circulating (snd (apply_transaction P True h s miner ts l))
          + (if miner = [] then unat (tx_fee (stx_tx s)) else 0) = circulating l
      \<and> ledger_nonce (snd (apply_transaction P True h s miner ts l)) (stx_from_hex P s)
          = sat_add (tx_nonce (stx_tx s)) 1
    else \<exists>e. apply_transaction P True h s miner ts l = (Inl e, l)"
proof (cases rule: apply_transaction_cases [of P s l True h miner ts])
  case Ok
  then show ?thesis
    using circulating_transfer_effect [OF Ok(1), of miner] circulating_cap [OF assms]
    by (simp add: append_line_def ledger_nonce_def circulating_def) (simp add: transfer_effect_def Let_def)
qed simp

theorem apply_transaction_conserves_witness:
  "transfer_ok sample_prims sample_signed sample_ledger
   \<and> circulating (snd (apply_transaction sample_prims True 1 sample_signed ''bb'' 5 sample_ledger)) = 100"
proof -
  note ok = sample_transfer_ok
  then show ?thesis
    using apply_transaction_conserves [OF sample_ledger_ok(2), of sample_prims sample_signed 1 "''bb''" 5]
    by (simp add: sample_ledger_def circulating_def hm_sum_def)
qed

text \<open>A transaction that was applied cannot be applied again: the second attempt fails on its
  nonce, whatever the block, the miner and the time.\<close>

theorem applied_transaction_not_replayed:
  assumes "apply_transaction P io h s miner ts l = (Inr (), l')"
    and "tx_nonce (stx_tx s) \<noteq> - 1"
  shows "apply_transaction P io' h' s miner' ts' l' =
    (Inl (BadNonce (tx_nonce (stx_tx s) + 1) (tx_nonce (stx_tx s))), l')"
proof (cases rule: apply_transaction_cases [of P s l io h miner ts])
  case Ok
  have "unat (tx_nonce (stx_tx s)) + 1 < 2 ^ 64"
    using assms(2) by (rule unat_not_max)
  then have n: "sat_add (tx_nonce (stx_tx s)) 1 = tx_nonce (stx_tx s) + 1"
    by (simp add: sat_add_fits)
  have "l' = snd (append_line io (tx_line P h s miner (lg_total_mined l) ts) () (transfer_effect P s miner l))"
    using Ok(2) assms(1) by (metis snd_conv)
  then have "ledger_nonce l' (stx_from_hex P s) = tx_nonce (stx_tx s) + 1"
    by (simp add: ledger_nonce_def) (simp add: transfer_effect_def Let_def n)
  moreover have "stx_verify P s = Inr ()"
    using Ok(1) by (auto simp: transfer_ok_def is_ok_iff)
  ultimately show ?thesis
    by (simp add: apply_transaction_def Let_def)
qed (use assms in simp)

theorem applied_transaction_not_replayed_witness:
  "\<exists>l' e. apply_transaction sample_prims True 1 sample_signed ''bb'' 5 sample_ledger = (Inr (), l')
    \<and> apply_transaction sample_prims True 2 sample_signed ''cc'' 9 l' = (Inl e, l')"
proof -
  have "fst (apply_transaction sample_prims True 1 sample_signed ''bb'' 5 sample_ledger) = Inr ()"
    by (simp add: apply_transaction_ok [OF sample_transfer_ok] append_line_def)
  then obtain l' where l': "apply_transaction sample_prims True 1 sample_signed ''bb'' 5 sample_ledger = (Inr (), l')"
    by (metis prod.collapse)
  have "tx_nonce (stx_tx sample_signed) \<noteq> - 1"
    by (simp add: sample_signed_def sample_ed_tx_def)
  from applied_transaction_not_replayed [OF l' this] l' show ?thesis
    by blast
qed

end
