(* ===== verification/Block_Execution.thy ===== *)
theory Block_Execution
  imports Rewards
begin

text \<open>
  The dry run of a block against its real execution. Both are executors of the same abstract
  machine on accounts (address to balance and nonce, defined for the addresses that have an entry):
  the locale \<open>block_executor\<close> says what an executor of transfers is, proves once that a whole
  list of transactions is executed as on the abstract accounts, and is interpreted on the
  overlay of \<open>simulate_block_execution\<close> and on the ledger under \<open>apply_transaction\<close>.
\<close>

section \<open>The abstract machine\<close>

type_synonym accounts = "string \<Rightarrow> (u64 \<times> u64) option"

definition acc_get :: "accounts \<Rightarrow> string \<Rightarrow> u64 \<times> u64" where
  "acc_get m a = (case m a of None \<Rightarrow> (0, 0) | Some x \<Rightarrow> x)"

definition acc_credit :: "string \<Rightarrow> u64 \<Rightarrow> accounts \<Rightarrow> accounts" where
  "acc_credit a x m = m(a \<mapsto> (sat_add (fst (acc_get m a)) x, snd (acc_get m a)))"

definition acc_transfer_ok :: "prims \<Rightarrow> signed_transaction \<Rightarrow> accounts \<Rightarrow> bool" where
  "acc_transfer_ok P s m \<longleftrightarrow> is_ok (stx_verify P s)
     \<and> tx_nonce (stx_tx s) = snd (acc_get m (stx_from_hex P s))
     \<and> unat (tx_amount (stx_tx s)) + unat (tx_fee (stx_tx s)) \<le> unat (fst (acc_get m (stx_from_hex P s)))"

definition acc_transfer :: "prims \<Rightarrow> string \<Rightarrow> signed_transaction \<Rightarrow> accounts \<Rightarrow> accounts option" where
  "acc_transfer P miner s m =
     (if acc_transfer_ok P s m
      then let from_addr = stx_from_hex P s; (b, n) = acc_get m from_addr;
               m1 = m(from_addr \<mapsto> (b - (tx_amount (stx_tx s) + tx_fee (stx_tx s)), n + 1));
               m2 = acc_credit (stx_to_hex P s) (tx_amount (stx_tx s)) m1 in
        Some (if tx_fee (stx_tx s) > 0 \<and> miner \<noteq> [] then acc_credit miner (tx_fee (stx_tx s)) m2 else m2)
      else None)"

definition accounts_root :: "prims \<Rightarrow> accounts \<Rightarrow> bytes" where
  "accounts_root P m =
     compute_state_root P (map (\<lambda>a. (a, acc_get m a)) (sorted_list_of_set (dom m)))"

text \<open>Room for \<open>k\<close> more transfers of every sender before a nonce wraps.\<close>

definition nonce_room :: "nat \<Rightarrow> accounts \<Rightarrow> bool" where
  "nonce_room k m \<longleftrightarrow> (\<forall>a. unat (snd (acc_get m a)) + k < 2 ^ 64)"

text \<open>Executing a list in order, dropping what does not apply.\<close>

fun exec_txs :: "('t \<Rightarrow> 's \<Rightarrow> 's option) \<Rightarrow> 't list \<Rightarrow> 's \<Rightarrow> 't list \<times> 's" where
  "exec_txs step [] s = ([], s)"
| "exec_txs step (t # ts) s =
     (case step t s of
        None \<Rightarrow> exec_txs step ts s
      | Some s' \<Rightarrow> (t # fst (exec_txs step ts s'), snd (exec_txs step ts s')))"

lemma exec_txs_applied: "exec_txs step (fst (exec_txs step ts s)) s = exec_txs step ts s"
  by (induction step ts s rule: exec_txs.induct) (auto split: option.splits)

lemma length_exec_txs: "length (fst (exec_txs step ts s)) \<le> length ts"
  by (induction step ts s rule: exec_txs.induct) (auto split: option.splits)

lemma acc_get_upd [simp]: "acc_get (m(a \<mapsto> x)) b = (if b = a then x else acc_get m b)"
  by (simp add: acc_get_def)

lemma acc_get_credit:
  "acc_get (acc_credit a x m) b =
     (if b = a then (sat_add (fst (acc_get m a)) x, snd (acc_get m a)) else acc_get m b)"
  by (simp add: acc_credit_def)

lemma snd_acc_get_credit [simp]: "snd (acc_get (acc_credit a x m) b) = snd (acc_get m b)"
  by (simp add: acc_get_credit)

lemma nonce_room_credit [simp]: "nonce_room k (acc_credit a x m) = nonce_room k m"
  by (simp add: nonce_room_def)

lemma nonce_room_mono: "nonce_room k m \<Longrightarrow> j \<le> k \<Longrightarrow> nonce_room j m"
  unfolding nonce_room_def by (meson add_left_mono le_less_trans)

lemma nonce_room_SucD: "nonce_room (Suc k) m \<Longrightarrow> nonce_room k m"
  by (erule nonce_room_mono) simp

lemma nonce_room_transfer:
  assumes "nonce_room (Suc k) m" and "acc_transfer P miner s m = Some m'"
  shows "nonce_room k m'"
proof -
  let ?f = "stx_from_hex P s"
  have "unat (snd (acc_get m ?f) + 1) = unat (snd (acc_get m ?f)) + 1"
    using assms(1) by (subst unat_add_fits) (auto simp: nonce_room_def dest: spec [of _ ?f])
  then have "nonce_room k (m(?f \<mapsto> (x, snd (acc_get m ?f) + 1)))" for x
    using assms(1) nonce_room_SucD [OF assms(1)] by (auto simp: nonce_room_def)
  then show ?thesis
    using assms(2) by (auto simp: acc_transfer_def Let_def split: if_splits prod.splits)
qed

lemma acc_transfer_nonce:
  "acc_transfer P miner s m = Some m' \<Longrightarrow>
     snd (acc_get m' a) = (if a = stx_from_hex P s then snd (acc_get m a) + 1 else snd (acc_get m a))"
  by (auto simp: acc_transfer_def Let_def split: if_splits prod.splits)

lemma acc_transfer_twice: "acc_transfer P miner s m = Some m' \<Longrightarrow> acc_transfer P miner s m' = None"
  using acc_transfer_nonce [of P miner s m m' "stx_from_hex P s"]
  by (auto simp: acc_transfer_def acc_transfer_ok_def split: if_splits)

section \<open>Executors\<close>

locale block_executor =
  fixes accounts :: "'s \<Rightarrow> accounts"
    and inv :: "'s \<Rightarrow> bool"
    and step :: "signed_transaction \<Rightarrow> 's \<Rightarrow> 's option"
    and P :: prims
    and miner :: string
  assumes step_accounts:
      "inv s \<Longrightarrow> nonce_room 1 (accounts s) \<Longrightarrow>
         map_option accounts (step t s) = acc_transfer P miner t (accounts s)"
    and inv_step: "inv s \<Longrightarrow> step t s = Some s' \<Longrightarrow> inv s'"
begin

lemma exec_accounts:
  assumes "inv s" "nonce_room (length txs) (accounts s)"
  shows "fst (exec_txs step txs s) = fst (exec_txs (acc_transfer P miner) txs (accounts s))
    \<and> accounts (snd (exec_txs step txs s)) = snd (exec_txs (acc_transfer P miner) txs (accounts s))
    \<and> inv (snd (exec_txs step txs s))"
  using assms
proof (induction txs arbitrary: s)
  case (Cons t txs)
  have st: "map_option accounts (step t s) = acc_transfer P miner t (accounts s)"
    using Cons.prems by (intro step_accounts) (auto intro: nonce_room_mono)
  show ?case
  proof (cases "step t s")
    case None
    with st have "acc_transfer P miner t (accounts s) = None" by simp
    with None Cons.IH [of s] Cons.prems show ?thesis
      by (simp add: nonce_room_SucD)
  next
    case (Some s')
    with st have acc: "acc_transfer P miner t (accounts s) = Some (accounts s')" by simp
    with Cons.prems have "nonce_room (length txs) (accounts s')"
      by (auto intro: nonce_room_transfer)
    with Cons.IH [of s'] Cons.prems(1) Some acc show ?thesis
      by (simp add: inv_step)
  qed
qed simp

end

section \<open>The overlay executes the abstract machine\<close>

definition ledger_accounts :: "ledger \<Rightarrow> accounts" where
  "ledger_accounts l a =
     (if hm_has (lg_balances l) a \<or> hm_has (lg_nonces l) a
      then Some (ledger_balance l a, ledger_nonce l a) else None)"

definition overlay_accounts :: "ledger \<Rightarrow> overlay \<Rightarrow> accounts" where
  "overlay_accounts l ov a = (case hm_get ov a of None \<Rightarrow> ledger_accounts l a | Some x \<Rightarrow> Some x)"

lemma hm_get_or_absent: "\<not> hm_has m k \<Longrightarrow> hm_get_or d m k = d"
  by (simp add: hm_has_iff hm_get_or_not_key)

lemma acc_get_ledger [simp]: "acc_get (ledger_accounts l) a = (ledger_balance l a, ledger_nonce l a)"
  by (simp add: acc_get_def ledger_accounts_def ledger_balance_def ledger_nonce_def hm_get_or_absent)

lemma acc_get_overlay [simp]: "acc_get (overlay_accounts l ov) a = overlay_read l ov a"
  using acc_get_ledger [of l a]
  by (simp add: acc_get_def overlay_accounts_def overlay_read_def hm_get_or_def split: option.splits)

lemma overlay_accounts_insert [simp]:
  "overlay_accounts l (hm_insert a x ov) = (overlay_accounts l ov)(a \<mapsto> x)"
  by (rule ext) (simp add: overlay_accounts_def)

lemma overlay_accounts_Nil [simp]: "overlay_accounts l [] = ledger_accounts l"
  by (rule ext) (simp add: overlay_accounts_def)

lemma overlay_read_insert [simp]:
  "overlay_read l (hm_insert a x ov) b = (if b = a then x else overlay_read l ov b)"
  by (simp add: overlay_read_def)

lemma simulate_tx_accounts:
  "map_option (overlay_accounts l) (simulate_tx P l miner s ov) =
     acc_transfer P miner s (overlay_accounts l ov)"
proof -
  obtain b n where bn: "overlay_read l ov (stx_from_hex P s) = (b, n)" by fastforce
  show ?thesis
  proof (cases "checked_add (tx_amount (stx_tx s)) (tx_fee (stx_tx s))")
    case None
    then have "\<not> unat (tx_amount (stx_tx s)) + unat (tx_fee (stx_tx s)) \<le> unat b"
      using amount_fee_fits(1) by fastforce
    with None bn show ?thesis
      by (simp add: simulate_tx_def acc_transfer_def acc_transfer_ok_def Let_def)
  next
    case (Some d)
    then have d: "d = tx_amount (stx_tx s) + tx_fee (stx_tx s)"
      "unat d = unat (tx_amount (stx_tx s)) + unat (tx_fee (stx_tx s))"
      by (auto simp: checked_add_Some_iff unat_add_fits)
    then have iff: "b < d \<longleftrightarrow> \<not> unat (tx_amount (stx_tx s)) + unat (tx_fee (stx_tx s)) \<le> unat b"
      by (simp add: word_less_nat_alt not_le)
    with Some bn d(1) show ?thesis
      by (auto simp: simulate_tx_def acc_transfer_def acc_transfer_ok_def acc_credit_def Let_def
          split: prod.splits)
  qed
qed

interpretation dry: block_executor "overlay_accounts l" "\<lambda>_. True" "simulate_tx P l miner" P miner
  for l P miner
  by unfold_locales (simp_all add: simulate_tx_accounts)

section \<open>The ledger executes the abstract machine\<close>

definition ledger_step ::
    "prims \<Rightarrow> u64 \<Rightarrow> string \<Rightarrow> u64 \<Rightarrow> signed_transaction \<Rightarrow> ledger \<Rightarrow> ledger option" where
  "ledger_step P h miner ts s l =
     (case apply_transaction P True h s miner ts l of
        (Inl _, _) \<Rightarrow> None
      | (Inr _, l') \<Rightarrow> Some l')"

lemma ledger_step_eq:
  "ledger_step P h miner ts s l =
     (if transfer_ok P s l
      then Some (snd (append_line True (tx_line P h s miner (lg_total_mined l) ts) () (transfer_effect P s miner l)))
      else None)"
  by (rule apply_transaction_cases [of P s l True h miner ts])
    (simp_all add: ledger_step_def append_line_def)

lemma transfer_ok_accounts: "transfer_ok P s l = acc_transfer_ok P s (ledger_accounts l)"
  by (simp add: transfer_ok_def acc_transfer_ok_def)

lemma ledger_accounts_cong:
  "lg_balances l = lg_balances l' \<Longrightarrow> lg_nonces l = lg_nonces l' \<Longrightarrow> ledger_accounts l = ledger_accounts l'"
  by (rule ext) (simp add: ledger_accounts_def ledger_balance_def ledger_nonce_def)

lemma hm_has_insert [simp]: "hm_has (hm_insert k v m) x = (x = k \<or> hm_has m x)"
  by (simp add: hm_has_def)

lemma ledger_accounts_credit:
  "ledger_accounts (l\<lparr>lg_balances := credit_balance b a x\<rparr>) = acc_credit a x (ledger_accounts (l\<lparr>lg_balances := b\<rparr>))"
  by (rule ext) (auto simp: ledger_accounts_def acc_credit_def credit_balance_def ledger_balance_def
      ledger_nonce_def acc_get_def hm_get_or_absent)

lemma transfer_effect_accounts:
  assumes "hex_ok P" "transfer_ok P s l" "nonce_room 1 (ledger_accounts l)"
  shows "Some (ledger_accounts (transfer_effect P s miner l)) = acc_transfer P miner s (ledger_accounts l)"
proof -
  let ?f = "stx_from_hex P s" and ?d = "tx_amount (stx_tx s) + tx_fee (stx_tx s)"
  define l1 where "l1 = l\<lparr>lg_nonces := hm_insert ?f (sat_add (tx_nonce (stx_tx s)) 1) (lg_nonces l)\<rparr>"
  define b1 where "b1 = hm_insert ?f (ledger_balance l ?f - ?d) (lg_balances l)"
  have n: "tx_nonce (stx_tx s) = ledger_nonce l ?f"
    using assms(2) by (simp add: transfer_ok_def)
  have "unat (ledger_nonce l ?f) + 1 < 2 ^ 64"
    using assms(3) by (simp add: nonce_room_def)
  then have n1: "sat_add (tx_nonce (stx_tx s)) 1 = ledger_nonce l ?f + 1"
    by (simp add: n sat_add_fits)
  have m1: "ledger_accounts (l1\<lparr>lg_balances := b1\<rparr>) =
      (ledger_accounts l)(?f \<mapsto> (ledger_balance l ?f - ?d, ledger_nonce l ?f + 1))"
    by (rule ext) (simp add: ledger_accounts_def l1_def b1_def ledger_balance_def ledger_nonce_def n1)
  have eff: "transfer_effect P s miner l =
      l1\<lparr>lg_balances := (if tx_fee (stx_tx s) > 0 \<and> miner \<noteq> []
         then credit_balance (credit_balance b1 (stx_to_hex P s) (tx_amount (stx_tx s))) miner (tx_fee (stx_tx s))
         else credit_balance b1 (stx_to_hex P s) (tx_amount (stx_tx s)))\<rparr>"
    by (simp add: transfer_effect_def Let_def b1_def l1_def)
  show ?thesis
    using assms(2) by (simp add: eff acc_transfer_def transfer_ok_accounts ledger_accounts_credit m1 Let_def)
qed

lemma ledger_step_accounts:
  assumes "hex_ok P" "nonce_room 1 (ledger_accounts l)"
  shows "map_option ledger_accounts (ledger_step P h miner ts s l) = acc_transfer P miner s (ledger_accounts l)"
proof (cases "transfer_ok P s l")
  case True
  have "ledger_accounts (snd (append_line True x () l')) = ledger_accounts l'" for x l'
    by (rule ledger_accounts_cong) simp_all
  with True transfer_effect_accounts [OF assms(1) True assms(2)] show ?thesis
    by (simp add: ledger_step_eq)
next
  case False
  then show ?thesis
    by (simp add: ledger_step_eq acc_transfer_def transfer_ok_accounts)
qed

interpretation live: block_executor ledger_accounts "\<lambda>_. hex_ok P" "ledger_step P h miner ts" P miner
  for P h miner ts
  by unfold_locales (simp_all add: ledger_step_accounts)

section \<open>Roots\<close>

lemma sorted_dom:
  "dom m = set xs \<Longrightarrow> sort (remdups xs) = sorted_list_of_set (dom m)"
  by (simp add: sorted_list_of_set_sort_remdups)

lemma dom_overlay_accounts:
  "dom (overlay_accounts l ov) = set (hm_keys (lg_balances l) @ hm_keys (lg_nonces l) @ hm_keys ov)"
proof -
  have "a \<in> dom (overlay_accounts l ov) \<longleftrightarrow>
      hm_has ov a \<or> hm_has (lg_balances l) a \<or> hm_has (lg_nonces l) a" for a
    by (auto simp: overlay_accounts_def ledger_accounts_def hm_has_def dom_def split: option.splits)
  then show ?thesis
    by (auto simp: hm_has_iff)
qed

lemma state_root_overlay_accounts:
  "state_root_with_overlay P l ov = accounts_root P (overlay_accounts l ov)"
  unfolding state_root_with_overlay_def accounts_root_def Let_def
  by (simp add: sorted_dom [OF dom_overlay_accounts] overlay_read_def [symmetric] del: set_append)

lemma ledger_state_root_accounts: "ledger_state_root P l = accounts_root P (ledger_accounts l)"
  by (simp add: ledger_state_root_def state_root_overlay_accounts)

lemma simulate_txs_exec: "simulate_txs P l miner ts ov = exec_txs (simulate_tx P l miner) ts ov"
  by (induction P l miner ts ov rule: simulate_txs.induct) (auto split: option.splits prod.splits)

section \<open>Executing a block on the ledger\<close>

text \<open>The transactions of a block applied one after another, then the reward credited; the first
  failing call ends it.\<close>

fun apply_all ::
    "prims \<Rightarrow> u64 \<Rightarrow> string \<Rightarrow> u64 \<Rightarrow> signed_transaction list \<Rightarrow> ledger \<Rightarrow> (ledger_error + unit) \<times> ledger" where
  "apply_all P h miner ts [] l = (Inr (), l)"
| "apply_all P h miner ts (s # txs) l =
     (case apply_transaction P True h s miner ts l of
        (Inl e, l') \<Rightarrow> (Inl e, l')
      | (Inr _, l') \<Rightarrow> apply_all P h miner ts txs l')"

lemma apply_all_exec:
  "fst (exec_txs (ledger_step P h miner ts) txs l) = txs \<Longrightarrow>
     apply_all P h miner ts txs l = (Inr (), snd (exec_txs (ledger_step P h miner ts) txs l))"
proof (induction txs arbitrary: l)
  case (Cons s txs)
  show ?case
  proof (cases "ledger_step P h miner ts s l")
    case None
    have "length (fst (exec_txs (ledger_step P h miner ts) txs l)) \<le> length txs"
      by (rule length_exec_txs)
    with Cons.prems None show ?thesis
      by simp
  next
    case (Some l')
    then have "\<exists>u. apply_transaction P True h s miner ts l = (Inr u, l')"
      by (auto simp: ledger_step_def split: prod.splits sum.splits)
    with Cons Some show ?thesis by auto
  qed
qed simp

section \<open>The dry run agrees with the real run\<close>

text \<open>A block really executed: its transactions, then the reward, with a writable ledger file.\<close>

definition execute_block ::
    "prims \<Rightarrow> u64 \<Rightarrow> signed_transaction list \<Rightarrow> string \<Rightarrow> u64 \<Rightarrow> u64 \<Rightarrow> ledger
      \<Rightarrow> (ledger_error + unit) \<times> ledger" where
  "execute_block P h txs miner reward ts l =
     (case apply_all P h miner ts txs l of
        (Inl e, l') \<Rightarrow> (Inl e, l')
      | (Inr _, l') \<Rightarrow> (Inr (), snd (ledger_credit True h miner reward ts l')))"

definition reward_fits :: "accounts \<Rightarrow> string \<Rightarrow> u64 \<Rightarrow> bool" where
  "reward_fits m miner reward \<longleftrightarrow> unat (fst (acc_get m miner)) + unat reward < 2 ^ 64"

lemma ledger_accounts_reward:
  assumes "reward_fits (ledger_accounts l) miner reward"
  shows "ledger_accounts (snd (ledger_credit True h miner reward ts l)) =
    (if reward = 0 then ledger_accounts l else acc_credit miner reward (ledger_accounts l))"
proof -
  have "sat_add (ledger_balance l miner) reward = ledger_balance l miner + reward"
    using assms by (simp add: reward_fits_def sat_add_fits)
  moreover have "ledger_accounts (snd (append_line True x v l')) = ledger_accounts l'" for x l' and v :: u64
    by (rule ledger_accounts_cong) simp_all
  ultimately show ?thesis
    by (auto simp: ledger_credit_def Let_def fun_eq_iff ledger_accounts_def acc_credit_def
        ledger_balance_def ledger_nonce_def acc_get_def hm_get_or_absent)
qed

lemma overlay_accounts_reward:
  "overlay_accounts l (simulate_reward l miner reward ov) =
    (if reward = 0 then overlay_accounts l ov else acc_credit miner reward (overlay_accounts l ov))"
  by (auto simp: simulate_reward_def Let_def acc_credit_def word_gt_0 split: prod.splits)

definition block_accounts :: "prims \<Rightarrow> ledger \<Rightarrow> signed_transaction list \<Rightarrow> string \<Rightarrow> accounts" where
  "block_accounts P l txs miner = snd (exec_txs (acc_transfer P miner) txs (ledger_accounts l))"

lemma simulate_execute_agree:
  assumes hex: "hex_ok P" and room: "nonce_room (length txs) (ledger_accounts l)"
    and fits: "reward_fits (block_accounts P l txs miner) miner reward"
    and sim: "simulate_block_execution P l txs miner reward = (applied, root)"
  shows "\<exists>l'. execute_block P h applied miner reward ts l = (Inr (), l') \<and> ledger_state_root P l' = root"
proof -
  note dry = dry.exec_accounts [where l = l and P = P and miner = miner and txs = txs and s = "[]", simplified, OF room]
  define ov where "ov = snd (exec_txs (simulate_tx P l miner) txs [])"
  have applied: "applied = fst (exec_txs (acc_transfer P miner) txs (ledger_accounts l))"
    and root: "root = state_root_with_overlay P l (simulate_reward l miner reward ov)"
    using sim dry by (auto simp: simulate_block_execution_def simulate_txs_exec ov_def split: prod.splits)
  have ov: "overlay_accounts l ov = block_accounts P l txs miner"
    using dry by (simp add: ov_def block_accounts_def)
  have "length applied \<le> length txs"
    unfolding applied by (rule length_exec_txs)
  with room have room': "nonce_room (length applied) (ledger_accounts l)"
    by (rule nonce_room_mono)
  let ?run = "exec_txs (ledger_step P h miner ts) applied l"
  note live = live.exec_accounts [where P = P and h = h and miner = miner and ts = ts and txs = applied and s = l, OF hex room']
  have again: "exec_txs (acc_transfer P miner) applied (ledger_accounts l)
      = exec_txs (acc_transfer P miner) txs (ledger_accounts l)"
    unfolding applied by (rule exec_txs_applied)
  have "fst ?run = applied" and acc: "ledger_accounts (snd ?run) = block_accounts P l txs miner"
    using live by (auto simp: again block_accounts_def) (simp add: applied)
  then have all: "apply_all P h miner ts applied l = (Inr (), snd ?run)"
    by (intro apply_all_exec)
  let ?l' = "snd (ledger_credit True h miner reward ts (snd ?run))"
  have "ledger_accounts ?l' = overlay_accounts l (simulate_reward l miner reward ov)"
    using fits by (simp add: ledger_accounts_reward overlay_accounts_reward acc ov)
  then have "ledger_state_root P ?l' = root"
    by (simp add: ledger_state_root_accounts root state_root_overlay_accounts)
  then show ?thesis
    by (simp add: execute_block_def all)
qed

section \<open>Properties\<close>

text \<open>C5: The dry run predicts the real run: whatever \<^verbatim>\<open>simulate_block_execution\<close> keeps of a candidate list
  is applied transaction by transaction by the ledger without an error, and after the reward is credited the
  ledger's state root is the one the dry run announced. (No sender may be about to exhaust its
  2^64 nonces, and the reward must fit the miner's balance: the dry run saturates where the
  ledger adds with wrap-around.)\<close>

theorem simulation_predicts_execution:
  assumes "hex_ok P" and "nonce_room (length txs) (ledger_accounts l)"
    and "reward_fits (block_accounts P l txs miner) miner reward"
  shows "\<exists>l'. execute_block P h (fst (simulate_block_execution P l txs miner reward)) miner reward ts l = (Inr (), l')
    \<and> ledger_state_root P l' = snd (simulate_block_execution P l txs miner reward)"
  by (rule simulate_execute_agree [OF assms]) simp

lemma fst_simulate:
  "fst (simulate_block_execution P l txs miner reward) = fst (simulate_txs P l miner txs [])"
  by (simp add: simulate_block_execution_def split: prod.splits)

theorem simulation_predicts_execution_witness:
  "fst (simulate_block_execution sample_prims sample_ledger [sample_signed, sample_signed] ''bb'' 50) = [sample_signed]
   \<and> (\<exists>l'. execute_block sample_prims 1 [sample_signed] ''bb'' 50 5 sample_ledger = (Inr (), l')
        \<and> ledger_state_root sample_prims l' =
            snd (simulate_block_execution sample_prims sample_ledger [sample_signed, sample_signed] ''bb'' 50))"
proof -
  let ?m = "ledger_accounts sample_ledger"
  have room: "nonce_room (length [sample_signed, sample_signed]) ?m"
    by (simp add: nonce_room_def ledger_nonce_def sample_ledger_def)
  have "acc_transfer_ok sample_prims sample_signed ?m"
    using sample_transfer_ok by (simp add: transfer_ok_accounts)
  then obtain m' where m': "acc_transfer sample_prims ''bb'' sample_signed ?m = Some m'"
    by (auto simp: acc_transfer_def Let_def split: prod.splits)
  have ex: "exec_txs (acc_transfer sample_prims ''bb'') [sample_signed, sample_signed] ?m = ([sample_signed], m')"
    using m' acc_transfer_twice [OF m'] by simp
  have applied: "fst (simulate_block_execution sample_prims sample_ledger [sample_signed, sample_signed] ''bb'' 50)
      = [sample_signed]"
    using dry.exec_accounts [where l = sample_ledger and P = sample_prims and miner = "''bb''"
        and txs = "[sample_signed, sample_signed]" and s = "[]"] room
    by (simp only: fst_simulate simulate_txs_exec overlay_accounts_Nil ex fst_conv)
  have "length (stx_from_hex sample_prims sample_signed) = 40" "length (stx_to_hex sample_prims sample_signed) = 40"
    using length_hex_encode [OF sample_hex_ok]
    by (simp_all add: stx_from_hex_def stx_to_hex_def sample_signed_def sample_ed_tx_def del: sample_prims_sel)
  then have "stx_from_hex sample_prims sample_signed \<noteq> ''bb''" "stx_to_hex sample_prims sample_signed \<noteq> ''bb''"
    by auto
  moreover from this have "ledger_balance sample_ledger ''bb'' = 0"
    by (auto simp: ledger_balance_def sample_ledger_def hm_get_or_def)
  moreover have "tx_fee (stx_tx sample_signed) = 1"
    by (simp add: sample_signed_def sample_ed_tx_def)
  ultimately have "fst (acc_get m' ''bb'') = 1"
    using m' by (auto simp: acc_transfer_def Let_def acc_get_credit sat_add_def split: if_splits prod.splits)
  then have fits: "reward_fits (block_accounts sample_prims sample_ledger [sample_signed, sample_signed] ''bb'') ''bb'' 50"
    using ex by (simp add: reward_fits_def block_accounts_def word_le_nat_alt)
  show ?thesis
    using simulation_predicts_execution [OF sample_hex_ok _ fits, of 1 5] room by (simp add: applied)
qed

text \<open>The dry run keeps a sublist in the given order: running it again on what it kept keeps all of
  it and gives the same root, so a block built from its result is one every validator keeps whole.\<close>

theorem simulation_idempotent:
  "simulate_block_execution P l (fst (simulate_block_execution P l txs miner reward)) miner reward
     = simulate_block_execution P l txs miner reward"
  by (auto simp: simulate_block_execution_def simulate_txs_exec exec_txs_applied split: prod.splits)
    (metis exec_txs_applied fst_conv snd_conv)+

end
