(* ===== verification/Ledger_Csv.thy ===== *)
theory Ledger_Csv
  imports Block_Execution
begin

text \<open>
  Loading the ledger from its CSV file (\<^verbatim>\<open>RewardLedger::open\<close> and \<^verbatim>\<open>open_scoped\<close> in
  \<^verbatim>\<open>core/src/rewards.rs\<close>). A file is the list of its lines. The lemmas show that both ways of loading
  give back exactly the ledger that wrote the file, block after block, as long as blocks are
  only appended; and what the scoped load does with the rows of blocks that were rolled back.
\<close>

section \<open>Rows\<close>

definition parse_or :: "u64 \<Rightarrow> string \<Rightarrow> u64" where
  "parse_or d s = (case parse_u64 (trim s) of None \<Rightarrow> d | Some n \<Rightarrow> n)"

text \<open>A line with its columns read: a transfer row keeps its total column as text, since a column
  that does not parse leaves the total unchanged. Lines that are skipped are \<open>None\<close>.\<close>

datatype csv_row =
    CsvTx (ct_height: u64) (ct_from: string) (ct_to: string) (ct_amount: u64) (ct_fee: u64)
      (ct_nonce: u64) (ct_miner: string) (ct_total: string)
  | CsvReward (cr_height: u64) (cr_addr: string) (cr_reward: u64) (cr_total: u64)

definition read_csv_row :: "string \<Rightarrow> csv_row option" where
  "read_csv_row line =
     (if trim line = [] then None
      else let cols = split_on (CHR '','') line in
        if hd cols = ''tx''
        then if length cols < 11 then None
             else Some (CsvTx (parse_or 0 (cols ! 1)) (trim (cols ! 3)) (trim (cols ! 4))
               (parse_or 0 (cols ! 5)) (parse_or 0 (cols ! 6)) (parse_or 0 (cols ! 7))
               (trim (cols ! 8)) (cols ! 9))
        else if length cols < 4 then None
        else Some (CsvReward (parse_or 0 (cols ! 0)) (trim (cols ! 1)) (parse_or 0 (cols ! 2))
               (parse_or 0 (cols ! 3))))"

fun csv_row_height :: "csv_row \<Rightarrow> u64" where
  "csv_row_height (CsvTx h _ _ _ _ _ _ _) = h"
| "csv_row_height (CsvReward h _ _ _) = h"

text \<open>The rows of a file: the first line is the header.\<close>

definition csv_rows :: "string list \<Rightarrow> csv_row list" where
  "csv_rows lines = List.map_filter read_csv_row (drop 1 lines)"

section \<open>Replaying rows\<close>

record replay_state =
  rs_balances :: "(string, u64) hmap"
  rs_nonces :: "(string, u64) hmap"
  rs_total :: u64

definition replay_init :: replay_state where
  "replay_init = \<lparr>rs_balances = [], rs_nonces = [], rs_total = 0\<rparr>"

definition replay_tx ::
    "string \<Rightarrow> string \<Rightarrow> u64 \<Rightarrow> u64 \<Rightarrow> u64 \<Rightarrow> string \<Rightarrow> replay_state \<Rightarrow> replay_state" where
  "replay_tx from_addr to_addr amount fee nonce miner st =
     (let b1 = debit (rs_balances st) from_addr (sat_add amount fee);
          b2 = credit_balance b1 to_addr amount;
          b3 = (if fee > 0 \<and> miner \<noteq> [] then credit_balance b2 miner fee else b2);
          next_nonce = sat_add nonce 1;
          entry = hm_get_or 0 (rs_nonces st) from_addr in
      st\<lparr>rs_balances := b3,
         rs_nonces := hm_insert from_addr (if next_nonce > entry then next_nonce else entry) (rs_nonces st)\<rparr>)"

text \<open>Without an active height every row is applied as it is read.\<close>

fun replay_unscoped :: "csv_row \<Rightarrow> replay_state \<Rightarrow> replay_state" where
  "replay_unscoped (CsvTx h f t a e n m total_col) st =
     (let st' = replay_tx f t a e n m st in st'\<lparr>rs_total := parse_or (rs_total st) total_col\<rparr>)"
| "replay_unscoped (CsvReward h addr reward tot) st =
     st\<lparr>rs_balances := credit_balance (rs_balances st) addr reward, rs_total := tot\<rparr>"

text \<open>With an active height the rows up to it are collected, with the index of the last reward row
  of each height; then transfers are replayed, and of each height the last reward row only.\<close>

datatype replay_row =
    ReplayReward nat u64 string u64
  | ReplayTx string string u64 u64 u64 string

fun collect_row :: "u64 \<Rightarrow> csv_row \<Rightarrow> replay_row list \<times> (u64, nat) hmap \<Rightarrow> replay_row list \<times> (u64, nat) hmap" where
  "collect_row active (CsvTx h f t a e n m tc) (rows, latest) =
     (if h > active then (rows, latest) else (rows @ [ReplayTx f t a e n m], latest))"
| "collect_row active (CsvReward h addr reward tot) (rows, latest) =
     (if h > active then (rows, latest)
      else (rows @ [ReplayReward (length rows) h addr reward], hm_insert h (length rows) latest))"

fun replay_scoped :: "(u64, nat) hmap \<Rightarrow> replay_row \<Rightarrow> replay_state \<Rightarrow> replay_state" where
  "replay_scoped latest (ReplayReward i h addr reward) st =
     (if hm_get latest h = Some i
      then st\<lparr>rs_balances := credit_balance (rs_balances st) addr reward,
              rs_total := sat_add (rs_total st) reward\<rparr>
      else st)"
| "replay_scoped latest (ReplayTx f t a e n m) st = replay_tx f t a e n m st"

definition CSV_HEADER :: string where
  "CSV_HEADER = ''height,miner_address,reward_bina,total_mined_bina,timestamp_unix''"

text \<open>\<open>file\<close> is the content of the file if it exists; creating it may fail.\<close>

definition open_inner :: "bool \<Rightarrow> string list option \<Rightarrow> u64 option \<Rightarrow> ledger_error + ledger" where
  "open_inner io_ok file active_height =
     (case file of
        None \<Rightarrow>
          if io_ok
          then Inr \<lparr>lg_balances = [], lg_nonces = [], lg_total_mined = 0, lg_csv = [CSV_HEADER]\<rparr>
          else Inl LedgerIo
      | Some lines \<Rightarrow>
          let st = (case active_height of
                None \<Rightarrow> fold replay_unscoped (csv_rows lines) replay_init
              | Some active \<Rightarrow>
                  let (rows, latest) = fold (collect_row active) (csv_rows lines) ([], []) in
                  fold (replay_scoped latest) rows replay_init) in
          Inr \<lparr>lg_balances = rs_balances st, lg_nonces = rs_nonces st, lg_total_mined = rs_total st,
               lg_csv = lines\<rparr>)"

definition ledger_open :: "bool \<Rightarrow> string list option \<Rightarrow> ledger_error + ledger" where
  "ledger_open io_ok file = open_inner io_ok file None"

definition ledger_open_scoped :: "bool \<Rightarrow> string list option \<Rightarrow> u64 \<Rightarrow> ledger_error + ledger" where
  "ledger_open_scoped io_ok file active_height = open_inner io_ok file (Some active_height)"

section \<open>Reading back what was written\<close>

lemma trim_not_Nil: "\<exists>c \<in> set s. \<not> is_space c \<Longrightarrow> trim s \<noteq> []"
  by (auto simp: trim_def dropWhile_eq_Nil_conv) (metis dropWhile_eq_Nil_conv set_dropWhileD
      set_takeWhileD takeWhile_dropWhile_id Un_iff set_append)

lemma parse_or_show [simp]: "parse_or d (show_u64 w) = w"
  by (simp add: parse_or_def)

lemma show_u64_not_tx: "show_u64 w \<noteq> ''tx''"
proof
  assume "show_u64 w = ''tx''"
  then obtain d where "d < 10" "CHR ''t'' = digit_char d"
    using show_u64_chars [of "CHR ''t''" w] by auto
  then have "digit_value (CHR ''t'') = Some d"
    by (metis digit_value_char)
  then show False
    by (simp add: digit_value_def Let_def)
qed

lemma join_with_prefix: "join_with c (f # g # fs) = f @ c # join_with c (g # fs)"
  by simp

lemma csv_row_reward_line:
  assumes "csv_safe miner"
  shows "read_csv_row (reward_line h miner reward tot ts) = Some (CsvReward h miner reward tot)"
proof -
  let ?fs = "[show_u64 h, miner, show_u64 reward, show_u64 tot, show_u64 ts]"
  have "split_on (CHR '','') (join_with (CHR '','') ?fs) = ?fs"
    using assms by (intro split_join) (auto simp: csv_safe_def)
  moreover have "trim (join_with (CHR '','') ?fs) \<noteq> []"
    by (rule trim_not_Nil) (auto simp: is_space_def)
  ultimately show ?thesis
    using assms show_u64_not_tx by (simp add: read_csv_row_def reward_line_def csv_safe_trim del: join_with.simps)
qed

lemma csv_row_tx_line:
  assumes "csv_safe miner" "hex_ok P"
  shows "read_csv_row (tx_line P h s miner tot ts) =
    Some (CsvTx h (stx_from_hex P s) (stx_to_hex P s) (tx_amount (stx_tx s)) (tx_fee (stx_tx s))
      (tx_nonce (stx_tx s)) miner (show_u64 tot))"
proof -
  let ?fs = "[''tx'', show_u64 h, stx_tx_id_hex P s, stx_from_hex P s, stx_to_hex P s,
       show_u64 (tx_amount (stx_tx s)), show_u64 (tx_fee (stx_tx s)), show_u64 (tx_nonce (stx_tx s)),
       miner, show_u64 tot, show_u64 ts]"
  have hex: "csv_safe (stx_tx_id_hex P s)" "csv_safe (stx_from_hex P s)" "csv_safe (stx_to_hex P s)"
    using assms(2) by (simp_all add: stx_tx_id_hex_def stx_from_hex_def stx_to_hex_def)
  then have "split_on (CHR '','') (join_with (CHR '','') ?fs) = ?fs"
    using assms by (intro split_join) (auto simp: csv_safe_def)
  moreover have "trim (join_with (CHR '','') ?fs) \<noteq> []"
    by (rule trim_not_Nil) (auto simp: is_space_def)
  ultimately show ?thesis
    using assms hex by (simp add: read_csv_row_def tx_line_def csv_safe_trim del: join_with.simps)
qed

section \<open>Loading gives back the ledger\<close>

definition replay_of :: "ledger \<Rightarrow> replay_state" where
  "replay_of l = \<lparr>rs_balances = lg_balances l, rs_nonces = lg_nonces l, rs_total = lg_total_mined l\<rparr>"

definition reward_heights :: "csv_row list \<Rightarrow> u64 set" where
  "reward_heights rows = {h. \<exists>a r t. CsvReward h a r t \<in> set rows}"

lemma csv_rows_append:
  "lines \<noteq> [] \<Longrightarrow> csv_rows (lines @ [line]) = csv_rows lines @ (case read_csv_row line of None \<Rightarrow> [] | Some r \<Rightarrow> [r])"
  by (cases lines) (auto simp: csv_rows_def List.map_filter_def split: option.splits)

text \<open>Replaying the rows collected so far does not depend on the heights that come later.\<close>

lemma collect_heights:
  "ReplayReward i h a r \<in> set (fst (fold (collect_row active) rs acc)) \<Longrightarrow>
     ReplayReward i h a r \<in> set (fst acc) \<or> h \<in> reward_heights rs"
proof (induction rs arbitrary: acc)
  case (Cons x rs)
  obtain rows latest where acc: "acc = (rows, latest)" by fastforce
  have "ReplayReward i h a r \<in> set (fst (collect_row active x acc)) \<or> h \<in> reward_heights rs"
    using Cons by simp
  then show ?case
    by (cases x) (auto simp: acc reward_heights_def split: if_splits)
qed simp

lemma replay_scoped_fresh:
  assumes "\<forall>i a r. ReplayReward i h a r \<notin> set rows"
  shows "fold (replay_scoped (hm_insert h k latest)) rows st = fold (replay_scoped latest) rows st"
  using assms
proof (induction rows arbitrary: st)
  case (Cons x rows)
  then show ?case by (cases x) auto
qed simp

definition scoped_state :: "u64 \<Rightarrow> csv_row list \<Rightarrow> replay_state" where
  "scoped_state active rs =
     (let (rows, latest) = fold (collect_row active) rs ([], []) in fold (replay_scoped latest) rows replay_init)"

lemma scoped_state_tx:
  "h \<le> active \<Longrightarrow> scoped_state active (rs @ [CsvTx h f t a e n m tc]) = replay_tx f t a e n m (scoped_state active rs)"
  by (auto simp: scoped_state_def split: prod.splits)

lemma scoped_state_reward:
  assumes "h \<le> active" "h \<notin> reward_heights rs"
  shows "scoped_state active (rs @ [CsvReward h addr reward tot]) =
    (let st = scoped_state active rs in
     st\<lparr>rs_balances := credit_balance (rs_balances st) addr reward, rs_total := sat_add (rs_total st) reward\<rparr>)"
proof -
  obtain rows latest where c: "fold (collect_row active) rs ([], []) = (rows, latest)" by fastforce
  have "\<forall>i a r. ReplayReward i h a r \<notin> set rows"
    using collect_heights [of _ h _ _ active rs "([], [])"] assms(2) c by auto
  from replay_scoped_fresh [OF this] assms(1) c show ?thesis
    by (simp add: scoped_state_def Let_def)
qed

text \<open>What is true of a ledger whose file has only ever been appended to: all rows are of heights up
  to \<open>h\<close>, the reward rows of heights up to \<open>r\<close>.\<close>

definition persisted :: "u64 \<Rightarrow> u64 \<Rightarrow> ledger \<Rightarrow> bool" where
  "persisted r h l \<longleftrightarrow> lg_csv l \<noteq> []
     \<and> fold replay_unscoped (csv_rows (lg_csv l)) replay_init = replay_of l
     \<and> (\<forall>active \<ge> h. scoped_state active (csv_rows (lg_csv l)) = replay_of l)
     \<and> (\<forall>row \<in> set (csv_rows (lg_csv l)). csv_row_height row \<le> h)
     \<and> (\<forall>x \<in> reward_heights (csv_rows (lg_csv l)). x \<le> r)"

lemma sat_add_one_ge: "(n :: u64) \<le> sat_add n 1"
  using unat_lt_u64 [of n] by (simp add: word_le_nat_alt word_nat min_def)

text \<open>Replaying the row of a transfer does to the maps what the transfer did.\<close>

lemma replay_transfer:
  assumes "transfer_ok P s l"
  shows "replay_tx (stx_from_hex P s) (stx_to_hex P s) (tx_amount (stx_tx s)) (tx_fee (stx_tx s))
      (tx_nonce (stx_tx s)) miner (replay_of l) = replay_of (transfer_effect P s miner l)"
proof -
  let ?f = "stx_from_hex P s"
  have le: "unat (tx_amount (stx_tx s)) + unat (tx_fee (stx_tx s)) \<le> unat (ledger_balance l ?f)"
    and n: "tx_nonce (stx_tx s) = ledger_nonce l ?f"
    using assms by (simp_all add: transfer_ok_def)
  note f = amount_fee_fits [OF le]
  have "sat_add (tx_amount (stx_tx s)) (tx_fee (stx_tx s)) = tx_amount (stx_tx s) + tx_fee (stx_tx s)"
    using f(1) by (auto simp: checked_add_def sat_add_def split: if_splits)
  moreover have "sat_sub (ledger_balance l ?f) (tx_amount (stx_tx s) + tx_fee (stx_tx s))
      = ledger_balance l ?f - (tx_amount (stx_tx s) + tx_fee (stx_tx s))"
    using f(2) by (simp add: sat_sub_def)
  moreover have "(if sat_add n 1 > n then sat_add n 1 else n) = sat_add n 1" for n :: u64
    using sat_add_one_ge [of n] by auto
  ultimately show ?thesis
    by (simp add: replay_tx_def replay_of_def transfer_effect_def debit_def n Let_def
        ledger_balance_def ledger_nonce_def)
qed

lemma replay_of_append_line [simp]: "replay_of (snd (append_line io line v l)) = replay_of l"
  by (simp add: replay_of_def)

lemma lg_csv_transfer [simp]: "lg_csv (transfer_effect P s miner l) = lg_csv l"
  by (simp add: transfer_effect_def Let_def)

lemma persisted_scoped:
  "persisted r h l \<Longrightarrow> h \<le> active \<Longrightarrow> scoped_state active (csv_rows (lg_csv l)) = replay_of l"
  by (simp add: persisted_def)

lemma persisted_append:
  assumes "persisted r h l" "h \<le> h'" "lg_csv l' = lg_csv l @ [line]" "read_csv_row line = Some row"
    and "csv_row_height row = h'" "replay_unscoped row (replay_of l) = replay_of l'"
    and "\<And>active. h' \<le> active \<Longrightarrow> scoped_state active (csv_rows (lg_csv l) @ [row]) = replay_of l'"
    and "\<And>x. x \<in> reward_heights [row] \<Longrightarrow> x \<le> r'" "r \<le> r'"
  shows "persisted r' h' l'"
proof -
  have "reward_heights (csv_rows (lg_csv l) @ [row]) = reward_heights (csv_rows (lg_csv l)) \<union> reward_heights [row]"
    by (auto simp: reward_heights_def)
  then have rh: "\<forall>x \<in> reward_heights (csv_rows (lg_csv l) @ [row]). x \<le> r'"
    using assms(1,8,9) by (auto simp: persisted_def)
  have rows: "csv_rows (lg_csv l @ [line]) = csv_rows (lg_csv l) @ [row]"
    using assms(1,4) by (simp add: csv_rows_append persisted_def)
  have "\<forall>row \<in> set (csv_rows (lg_csv l)). csv_row_height row \<le> h'"
    using assms(1,2) by (auto simp: persisted_def)
  then show ?thesis
    using assms(1,3,5-7) rh by (simp add: persisted_def rows)
qed

lemma persisted_transfer:
  assumes "persisted r h l" "h \<le> h'" "csv_safe miner" "hex_ok P"
  shows "persisted r h' (snd (apply_transaction P True h' s miner ts l))"
proof (cases rule: apply_transaction_cases [of P s l True h' miner ts])
  case Ok
  have "(replay_of (transfer_effect P s miner l))\<lparr>rs_total := lg_total_mined l\<rparr>
      = replay_of (transfer_effect P s miner l)"
    by (simp add: replay_of_def)
  with assms replay_transfer [OF Ok(1)] persisted_scoped [OF assms(1)] show ?thesis
    unfolding Ok(2)
    by (intro persisted_append [OF assms(1,2) _ csv_row_tx_line [OF assms(3,4)]])
      (auto simp: append_line_def scoped_state_tx Let_def replay_of_def reward_heights_def)
next
  case Bad
  with assms(1,2) show ?thesis
    by (auto simp: persisted_def)
qed

lemma persisted_credit:
  assumes "persisted r h l" "r < h'" "h \<le> h'" "csv_safe miner" "supply_ok l"
    and "unat (lg_total_mined l) + unat reward \<le> unat HARD_CAP"
  shows "persisted h' h' (snd (ledger_credit True h' miner reward ts l))"
proof (cases "reward = 0")
  case True
  with assms(1-3) show ?thesis
    by (fastforce simp: persisted_def ledger_credit_def)
next
  case False
  let ?b = "credit_balance (lg_balances l) miner reward" and ?t = "sat_add (lg_total_mined l) reward"
  have "unat (ledger_balance l miner) + unat reward < 2 ^ 64"
    using hm_sum_ge_u64 [of "lg_balances l" miner] assms(5,6) unat_HARD_CAP
    by (simp add: supply_ok_def circulating_def ledger_balance_def)
  then have b: "hm_insert miner (ledger_balance l miner + reward) (lg_balances l) = ?b"
    by (simp add: credit_balance_def ledger_balance_def sat_add_fits)
  let ?l' = "snd (ledger_credit True h' miner reward ts l)"
  have l': "?l' = l\<lparr>lg_total_mined := ?t, lg_balances := ?b,
      lg_csv := lg_csv l @ [reward_line h' miner reward ?t ts]\<rparr>"
    using False by (simp add: ledger_credit_def append_line_def b Let_def)
  have fresh: "h' \<notin> reward_heights (csv_rows (lg_csv l))"
    using assms(1,2) by (force simp: persisted_def)
  have sc: "scoped_state active (csv_rows (lg_csv l)) = replay_of l" if "h' \<le> active" for active
    using persisted_scoped [OF assms(1)] assms(3) that by (meson order_trans)
  show ?thesis
    using assms(2) sc
    by (intro persisted_append [OF assms(1,3) _ csv_row_reward_line [OF assms(4)]])
      (auto simp: l' scoped_state_reward [OF _ fresh] replay_of_def Let_def reward_heights_def)
qed

section \<open>Histories\<close>

lemma apply_all_induct:
  assumes "I l" "\<And>s l. I l \<Longrightarrow> I (snd (apply_transaction P True h s miner ts l))"
  shows "I (snd (apply_all P h miner ts txs l))"
  using assms(1)
proof (induction txs arbitrary: l)
  case (Cons s txs)
  then show ?case
    using assms(2) [of l s]
    by (cases "apply_transaction P True h s miner ts l"; cases "fst (apply_transaction P True h s miner ts l)") simp_all
qed simp

lemma apply_all_total_mined: "lg_total_mined (snd (apply_all P h miner ts txs l)) = lg_total_mined l"
proof (rule apply_all_induct [where I = "\<lambda>l'. lg_total_mined l' = lg_total_mined l"])
  fix s and l' :: ledger assume "lg_total_mined l' = lg_total_mined l"
  then show "lg_total_mined (snd (apply_transaction P True h s miner ts l')) = lg_total_mined l"
    by (cases rule: apply_transaction_cases [of P s l' True h miner ts]) simp_all
qed simp

definition new_ledger :: ledger where
  "new_ledger = \<lparr>lg_balances = [], lg_nonces = [], lg_total_mined = 0, lg_csv = [CSV_HEADER]\<rparr>"

text \<open>A ledger that started empty and executed blocks of rising heights, each a list of
  transactions followed by a reward within the remaining supply.\<close>

inductive ledger_history :: "prims \<Rightarrow> u64 \<Rightarrow> ledger \<Rightarrow> bool" for P where
  start: "ledger_history P 0 new_ledger"
| block: "ledger_history P h l \<Longrightarrow> h < h' \<Longrightarrow> csv_safe miner \<Longrightarrow>
    unat (lg_total_mined l) + unat reward \<le> unat HARD_CAP \<Longrightarrow>
    execute_block P h' txs miner reward ts l = (r, l') \<Longrightarrow> ledger_history P h' l'"

inductive_cases ledger_historyE: "ledger_history P h l"

lemma execute_block_snd:
  "snd (execute_block P h txs miner reward ts l) =
     (let l1 = snd (apply_all P h miner ts txs l) in
      if is_ok (fst (apply_all P h miner ts txs l)) then snd (ledger_credit True h miner reward ts l1) else l1)"
  by (auto simp: execute_block_def Let_def is_ok_def split: prod.splits sum.splits)

lemma persisted_apply_all:
  assumes "persisted r h l" "h \<le> h'" "csv_safe miner" "hex_ok P"
  shows "persisted r h' (snd (apply_all P h' miner ts txs l))"
proof (rule apply_all_induct [where I = "persisted r h'"])
  show "persisted r h' l"
    using assms(1,2) by (fastforce simp: persisted_def)
qed (rule persisted_transfer [OF _ order_refl assms(3,4)])

lemma supply_ok_apply_all: "supply_ok l \<Longrightarrow> supply_ok (snd (apply_all P h miner ts txs l))"
  by (rule apply_all_induct [where I = supply_ok]) (simp_all add: supply_ok_apply)

lemma ledger_wf_apply_all: "ledger_wf l \<Longrightarrow> ledger_wf (snd (apply_all P h miner ts txs l))"
  by (rule apply_all_induct [where I = ledger_wf]) (simp_all add: ledger_wf_apply)

lemma persisted_execute_block:
  assumes "persisted h h l" "h < h'" "csv_safe miner" "hex_ok P" "supply_ok l"
    and "unat (lg_total_mined l) + unat reward \<le> unat HARD_CAP"
  shows "persisted h' h' (snd (execute_block P h' txs miner reward ts l))"
proof -
  let ?l1 = "snd (apply_all P h' miner ts txs l)"
  have p: "persisted h h' ?l1"
    using assms(1-4) by (intro persisted_apply_all) auto
  then have "persisted h' h' ?l1"
    using assms(2) by (fastforce simp: persisted_def)
  moreover have "persisted h' h' (snd (ledger_credit True h' miner reward ts ?l1))"
    using assms by (intro persisted_credit [OF p _ order_refl]) (simp_all add: supply_ok_apply_all apply_all_total_mined)
  ultimately show ?thesis
    by (simp add: execute_block_snd Let_def)
qed

lemma ledger_history_invariant:
  assumes "ledger_history P h l" "hex_ok P"
  shows "persisted h h l \<and> supply_ok l \<and> ledger_wf l"
  using assms
proof (induction rule: ledger_history.induct)
  case start
  show ?case
    by (simp add: persisted_def new_ledger_def supply_ok_def ledger_wf_def circulating_def
        csv_rows_def scoped_state_def replay_of_def replay_init_def List.map_filter_def reward_heights_def)
next
  case (block h l h' miner reward txs ts r l')
  then have l': "l' = snd (execute_block P h' txs miner reward ts l)" by simp
  have "supply_ok l'" "ledger_wf l'"
    using block by (auto simp: l' execute_block_snd Let_def ledger_wf_apply_all ledger_wf_credit
        supply_ok_apply_all apply_all_total_mined intro!: supply_ok_credit)
  with block show ?case
    using persisted_execute_block by (auto simp: l')
qed

lemma open_persisted:
  assumes "persisted r h l" "h \<le> active"
  shows "open_inner io (Some (lg_csv l)) None = Inr l" "open_inner io (Some (lg_csv l)) (Some active) = Inr l"
proof -
  have "fold replay_unscoped (csv_rows (lg_csv l)) replay_init = replay_of l"
    using assms(1) by (simp add: persisted_def)
  then show "open_inner io (Some (lg_csv l)) None = Inr l"
    by (simp add: open_inner_def replay_of_def)
  have "scoped_state active (csv_rows (lg_csv l)) = replay_of l"
    by (rule persisted_scoped [OF assms])
  then have "(let (rows, latest) = fold (collect_row active) (csv_rows (lg_csv l)) ([], []) in
      fold (replay_scoped latest) rows replay_init) = replay_of l"
    by (simp add: scoped_state_def)
  then show "open_inner io (Some (lg_csv l)) (Some active) = Inr l"
    by (simp add: open_inner_def replay_of_def)
qed

section \<open>Properties\<close>

text \<open>C10: A node that restarts finds its ledger again: after any sequence of executed blocks, loading
  the CSV file, unscoped or scoped to the current or a later height, returns exactly the ledger
  that was in memory: balances, nonces and mined total.\<close>

theorem ledger_reload_exact:
  assumes "ledger_history P h l" "hex_ok P" "h \<le> active"
  shows "ledger_open io (Some (lg_csv l)) = Inr l \<and> ledger_open_scoped io (Some (lg_csv l)) active = Inr l"
  using ledger_history_invariant [OF assms(1,2)] open_persisted assms(3)
  unfolding ledger_open_def ledger_open_scoped_def by blast

lemma sample_history:
  "ledger_history sample_prims 1 (snd (execute_block sample_prims 1 [] ''aabb'' 50 1000 new_ledger))"
  by (rule ledger_history.block [OF ledger_history.start _ _ _ prod.collapse [symmetric]])
    (simp_all add: csv_safe_def is_space_def new_ledger_def unat_HARD_CAP)

theorem ledger_reload_exact_witness:
  "\<exists>l. ledger_balance l ''aabb'' = 50 \<and> ledger_open_scoped True (Some (lg_csv l)) 1 = Inr l"
proof -
  let ?l = "snd (execute_block sample_prims 1 [] ''aabb'' 50 1000 new_ledger)"
  have "ledger_balance ?l ''aabb'' = 50"
    by (simp add: execute_block_def ledger_credit_def append_line_def Let_def new_ledger_def ledger_balance_def)
  with ledger_reload_exact [OF sample_history sample_hex_ok order_refl, of True] show ?thesis
    by blast
qed

text \<open>One transfer and a reward, executed on a ledger where the transfer is due.\<close>

lemma execute_block_one:
  assumes "transfer_ok P s l" "reward \<noteq> 0"
  shows "execute_block P h [s] miner reward ts l =
    (let e = transfer_effect P s miner l; tot = sat_add (lg_total_mined l) reward in
     (Inr (), e\<lparr>lg_balances := hm_insert miner (ledger_balance e miner + reward) (lg_balances e),
       lg_total_mined := tot,
       lg_csv := lg_csv l @ [tx_line P h s miner (lg_total_mined l) ts, reward_line h miner reward tot ts]\<rparr>))"
  using assms by (simp add: execute_block_def apply_transaction_ok append_line_def ledger_credit_def
      ledger_balance_def Let_def)

definition sample_from :: string where
  "sample_from = stx_from_hex sample_prims sample_signed"

definition sample_to :: string where
  "sample_to = stx_to_hex sample_prims sample_signed"

text \<open>Block 1 pays the sample sender 50; block 2 is first mined by Carol with the sample transfer of 42
  (fee 1) in it, rolled back by loading the ledger scoped to height 1, and mined again by Dave.\<close>

definition reorg_block_1 :: ledger where
  "reorg_block_1 = snd (execute_block sample_prims 1 [] sample_from 50 1000 new_ledger)"

definition reorg_block_2 :: ledger where
  "reorg_block_2 = snd (execute_block sample_prims 2 [sample_signed] ''carol'' 50 1001 reorg_block_1)"

definition reorg_block_2' :: "ledger \<Rightarrow> ledger" where
  "reorg_block_2' l = snd (execute_block sample_prims 2 [sample_signed] ''dave'' 50 1002 l)"

lemma sample_addresses:
  "length sample_from = 40" "length sample_to = 40" "sample_from \<noteq> sample_to"
  "csv_safe sample_from" "csv_safe sample_to"
proof -
  show "length sample_from = 40" "length sample_to = 40"
    using length_hex_encode [OF sample_hex_ok]
    by (simp_all add: sample_from_def sample_to_def stx_from_hex_def stx_to_hex_def sample_signed_def
        sample_ed_tx_def del: sample_prims_sel)
  show "sample_from \<noteq> sample_to"
    using hex_encode_inj [OF sample_hex_ok] sample_ed_tx_not_self
    by (simp add: sample_from_def sample_to_def stx_from_hex_def stx_to_hex_def sample_signed_def
        del: sample_prims_sel)
  show "csv_safe sample_from" "csv_safe sample_to"
    by (simp_all add: sample_from_def sample_to_def stx_from_hex_def stx_to_hex_def sample_hex_ok
        del: sample_prims_sel)
qed

lemma sample_signed_sel:
  "tx_amount (stx_tx sample_signed) = 42" "tx_fee (stx_tx sample_signed) = 1"
  "tx_nonce (stx_tx sample_signed) = 0" "is_ok (stx_verify sample_prims sample_signed)"
  using sample_transfer_ok by (simp_all add: sample_signed_def sample_ed_tx_def transfer_ok_def)

lemma sample_names: "csv_safe ''carol''" "csv_safe ''dave''"
  "sample_from \<noteq> ''carol''" "sample_from \<noteq> ''dave''" "sample_to \<noteq> ''carol''" "sample_to \<noteq> ''dave''"
proof -
  have "x \<noteq> ''carol'' \<and> x \<noteq> ''dave''" if "length x = 40" for x :: string
    using that by auto
  then show "sample_from \<noteq> ''carol''" "sample_from \<noteq> ''dave''" "sample_to \<noteq> ''carol''" "sample_to \<noteq> ''dave''"
    using sample_addresses(1,2) by blast+
qed (simp_all add: csv_safe_def is_space_def)

lemma reorg_block_1_eq:
  "reorg_block_1 = \<lparr>lg_balances = [(sample_from, 50)], lg_nonces = [], lg_total_mined = 50,
     lg_csv = [CSV_HEADER, reward_line 1 sample_from 50 50 1000]\<rparr>"
  by (simp add: reorg_block_1_def execute_block_def ledger_credit_def append_line_def Let_def
      new_ledger_def ledger_balance_def hm_insert_def sat_add_def)

lemma transfer_ok_due:
  "lg_balances l = [(sample_from, 50)] \<Longrightarrow> lg_nonces l = [] \<Longrightarrow> transfer_ok sample_prims sample_signed l"
  by (simp add: transfer_ok_def ledger_balance_def ledger_nonce_def sample_signed_sel
      sample_from_def [symmetric] hm_get_or_def)

lemmas sample_rows = csv_row_tx_line [OF _ sample_hex_ok] csv_row_reward_line sample_addresses sample_names
  sample_signed_sel sample_from_def [symmetric] sample_to_def [symmetric]

lemma reorg_block_2_csv:
  "lg_csv reorg_block_2 = [CSV_HEADER, reward_line 1 sample_from 50 50 1000,
     tx_line sample_prims 2 sample_signed ''carol'' 50 1001, reward_line 2 ''carol'' 50 100 1001]"
  by (simp add: reorg_block_2_def execute_block_one transfer_ok_due reorg_block_1_eq Let_def sat_add_def)

lemma reorg_rollback:
  "ledger_open_scoped io (Some (lg_csv reorg_block_2)) 1 = Inr (reorg_block_1\<lparr>lg_csv := lg_csv reorg_block_2\<rparr>)"
  by (simp add: ledger_open_scoped_def open_inner_def reorg_block_2_csv csv_rows_def List.map_filter_def
      sample_rows reorg_block_1_eq replay_init_def credit_balance_def hm_insert_def sat_add_def)

abbreviation rolled_back :: ledger where
  "rolled_back \<equiv> reorg_block_1\<lparr>lg_csv := lg_csv reorg_block_2\<rparr>"

lemmas sample_eval = sample_addresses sample_addresses(3) [symmetric] sample_names
  sample_names(3-6) [symmetric] sample_signed_sel sample_from_def [symmetric] sample_to_def [symmetric]
  Let_def hm_insert_def hm_get_or_def sat_add_def sat_sub_def

lemma remined_balances:
  "lg_balances (reorg_block_2' rolled_back) = [(sample_from, 7), (sample_to, 42), (''dave'', 51)]"
  "lg_total_mined (reorg_block_2' rolled_back) = 100"
  "lg_csv (reorg_block_2' rolled_back) = lg_csv reorg_block_2 @
     [tx_line sample_prims 2 sample_signed ''dave'' 50 1002, reward_line 2 ''dave'' 50 100 1002]"
  unfolding reorg_block_2'_def
  by (simp_all add: execute_block_one transfer_ok_due reorg_block_1_eq transfer_effect_def
      ledger_balance_def credit_balance_def sample_eval)

lemmas sample_balances = hm_insert_def hm_get_or_def sat_add_def sat_sub_def
  sample_addresses(3) sample_addresses(3) [symmetric] sample_names(3-6) sample_names(3-6) [symmetric]

lemma replay_abandoned:
  "replay_tx sample_from sample_to 42 1 0 ''carol''
     \<lparr>rs_balances = [(sample_from, 50)], rs_nonces = [], rs_total = 50\<rparr> =
   \<lparr>rs_balances = [(sample_from, 7), (sample_to, 42), (''carol'', 1)], rs_nonces = [(sample_from, 1)], rs_total = 50\<rparr>"
  by (simp add: replay_tx_def debit_def credit_balance_def Let_def sample_balances)

lemma replay_remined:
  "replay_tx sample_from sample_to 42 1 0 ''dave''
     \<lparr>rs_balances = [(sample_from, 7), (sample_to, 42), (''carol'', 1)], rs_nonces = [(sample_from, 1)], rs_total = 50\<rparr> =
   \<lparr>rs_balances = [(sample_from, 0), (sample_to, 84), (''carol'', 1), (''dave'', 1)], rs_nonces = [(sample_from, 1)], rs_total = 50\<rparr>"
  by (simp add: replay_tx_def debit_def credit_balance_def Let_def sample_balances)

lemma restarted_ledger:
  "\<exists>l. ledger_open_scoped True (Some (lg_csv (reorg_block_2' rolled_back))) 2 = Inr l
     \<and> lg_balances l = [(sample_from, 0), (sample_to, 84), (''carol'', 1), (''dave'', 51)]
     \<and> lg_total_mined l = 100"
proof -
  have rows: "csv_rows (lg_csv (reorg_block_2' rolled_back)) =
      [CsvReward 1 sample_from 50 50,
       CsvTx 2 sample_from sample_to 42 1 0 ''carol'' (show_u64 50), CsvReward 2 ''carol'' 50 100,
       CsvTx 2 sample_from sample_to 42 1 0 ''dave'' (show_u64 50), CsvReward 2 ''dave'' 50 100]"
    unfolding remined_balances(3) by (simp add: reorg_block_2_csv csv_rows_def List.map_filter_def sample_rows)
  have "fold (collect_row 2) (csv_rows (lg_csv (reorg_block_2' rolled_back))) ([], []) =
      ([ReplayReward 0 1 sample_from 50, ReplayTx sample_from sample_to 42 1 0 ''carol'',
        ReplayReward 2 2 ''carol'' 50, ReplayTx sample_from sample_to 42 1 0 ''dave'',
        ReplayReward 4 2 ''dave'' 50], [(1, 0), (2, 4)])"
    by (simp add: rows hm_insert_def)
  then show ?thesis
    by (simp add: ledger_open_scoped_def open_inner_def replay_init_def replay_abandoned replay_remined
        credit_balance_def sample_balances)
qed


end
