(* ===== verification/Difficulty.thy ===== *)
theory Difficulty
  imports Complex_Main Bina_Prelude
begin

text \<open>
  \<^verbatim>\<open>core/src/difficulty.rs\<close>: the difficulty adjuster. The code computes \<^verbatim>\<open>log2\<close> in \<^verbatim>\<open>f64\<close> and rounds; the
  model computes it in the reals. Since the result is clamped to three bits, only six cut points
  matter, and \<open>clamped_delta_steps\<close> shows that the result is a step function of the elapsed
  milliseconds even when the logarithm is off by up to 1/10000, which leaves ample room for the
  rounding of \<^verbatim>\<open>f64\<close>. The same lemma makes the definitions executable.
\<close>

definition MIN_BITS :: u32 where "MIN_BITS = 25"
definition MAX_BITS :: u32 where "MAX_BITS = 45"
definition TARGET_BLOCK_MS :: u64 where "TARGET_BLOCK_MS = 40"
definition EPOCH_SIZE :: u64 where "EPOCH_SIZE = 20"
definition MAX_DELTA_BITS :: int where "MAX_DELTA_BITS = 3"

record adjustment_info =
  ai_new_bits :: u32
  ai_old_bits :: u32
  ai_actual_ms :: u64
  ai_target_ms :: u64
  ai_raw_delta :: int
  ai_at_height :: u64

record adjuster =
  da_current_bits :: u32
  da_epoch_start_ms :: u64
  da_epoch_start_height :: u64
  da_last_adjustment :: "adjustment_info option"

definition clamp_bits :: "u32 \<Rightarrow> u32" where
  "clamp_bits b = min (max b MIN_BITS) MAX_BITS"

definition adjuster_new :: "u32 \<Rightarrow> u64 \<Rightarrow> adjuster" where
  "adjuster_new initial_bits genesis_timestamp_ms =
     \<lparr>da_current_bits = clamp_bits initial_bits, da_epoch_start_ms = genesis_timestamp_ms,
      da_epoch_start_height = 0, da_last_adjustment = None\<rparr>"

definition adjuster_restore :: "u32 \<Rightarrow> u64 \<Rightarrow> u64 \<Rightarrow> adjuster" where
  "adjuster_restore current_bits epoch_start_ms epoch_start_height =
     \<lparr>da_current_bits = clamp_bits current_bits, da_epoch_start_ms = epoch_start_ms,
      da_epoch_start_height = epoch_start_height, da_last_adjustment = None\<rparr>"

section \<open>The delta of an epoch\<close>

text \<open>\<^verbatim>\<open>f64::round\<close>: to the nearest integer, halves away from zero.\<close>

definition round_away :: "real \<Rightarrow> int" where
  "round_away x = (if 0 \<le> x then \<lfloor>x + 1 / 2\<rfloor> else \<lceil>x - 1 / 2\<rceil>)"

definition clamped_delta :: "real \<Rightarrow> int" where
  "clamped_delta d = min (max (round_away d) (- MAX_DELTA_BITS)) MAX_DELTA_BITS"

definition raw_delta :: "u64 \<Rightarrow> u64 \<Rightarrow> int" where
  "raw_delta actual_ms target_ms =
     (if actual_ms = 0 then MAX_DELTA_BITS
      else clamped_delta (- log 2 (real (unat actual_ms) / real (unat target_ms))))"

definition record_block :: "u64 \<Rightarrow> u64 \<Rightarrow> adjuster \<Rightarrow> adjustment_info option \<times> adjuster" where
  "record_block height block_ts_ms adj =
     (if height = 0 \<or> height mod EPOCH_SIZE \<noteq> 0 then (None, adj)
      else let actual_ms = sat_sub block_ts_ms (da_epoch_start_ms adj);
               target_ms = EPOCH_SIZE * TARGET_BLOCK_MS;
               old_bits = da_current_bits adj;
               delta = raw_delta actual_ms target_ms;
               new_bits = word_of_int (min (max (sint old_bits + delta) (sint MIN_BITS)) (sint MAX_BITS));
               info = \<lparr>ai_new_bits = new_bits, ai_old_bits = old_bits, ai_actual_ms = actual_ms,
                       ai_target_ms = target_ms, ai_raw_delta = delta, ai_at_height = height\<rparr> in
        (Some info,
         adj\<lparr>da_current_bits := new_bits, da_epoch_start_ms := block_ts_ms,
             da_epoch_start_height := height, da_last_adjustment := Some info\<rparr>))"

section \<open>The delta as a step function\<close>

definition delta_steps :: "nat \<Rightarrow> int" where
  "delta_steps a =
     (if a \<le> 141 then 3 else if a \<le> 282 then 2 else if a \<le> 565 then 1 else if a \<le> 1131 then 0
      else if a \<le> 2262 then - 1 else if a \<le> 4525 then - 2 else - 3)"

lemma round_away_eq:
  "of_int k - 1 / 2 < x \<Longrightarrow> x < of_int k + 1 / 2 \<Longrightarrow> round_away x = k"
  unfolding round_away_def by (auto simp: floor_eq_iff ceiling_eq_iff)

lemma log2_slope: "1 / 5000 \<le> log 2 (5001 / 5000 :: real)"
proof -
  have "(2 :: real) \<le> (1 + 1 / 5000) ^ 5000"
    using Bernoulli_inequality [of "1 / 5000 :: real" 5000] by simp
  then have "log 2 2 \<le> log 2 ((5001 / 5000 :: real) ^ 5000)"
    by (subst log_le_cancel_iff) simp_all
  also have "\<dots> = 5000 * log 2 (5001 / 5000)"
    by (simp add: log_nat_power)
  finally show ?thesis by simp
qed

lemma log2_half_above:
  assumes "0 < x" and "2 powr k * (5001 / 5000) < x ^ 2"
  shows "k / 2 + 1 / 10000 < log 2 x"
proof -
  have "k + log 2 (5001 / 5000) = log 2 (2 powr k * (5001 / 5000))"
    by (subst log_mult) simp_all
  also have "\<dots> < log 2 (x ^ 2)"
    using assms by (subst log_less_cancel_iff) simp_all
  also have "\<dots> = 2 * log 2 x"
    using assms(1) by (simp add: log_nat_power)
  finally show ?thesis
    using log2_slope by simp
qed

lemma log2_half_below:
  assumes "0 < x" and "x ^ 2 * (5001 / 5000) < 2 powr k"
  shows "log 2 x < k / 2 - 1 / 10000"
proof -
  have "2 * log 2 x + log 2 (5001 / 5000) = log 2 (x ^ 2 * (5001 / 5000))"
    using assms(1) by (subst log_mult) (simp_all add: log_nat_power)
  also have "\<dots> < log 2 (2 powr k)"
    using assms by (subst log_less_cancel_iff) simp_all
  also have "\<dots> = k"
    by simp
  finally show ?thesis
    using log2_slope by simp
qed

lemma inverse_square_mono:
  assumes "0 < a" "a \<le> (b :: nat)"
  shows "(800 / real b) ^ 2 \<le> (800 / real a) ^ 2"
  using assms by (intro power_mono divide_left_mono) simp_all

lemma cut_above:
  assumes "0 < a" "a \<le> n" "2 powr k * (5001 / 5000) < (800 / real n) ^ 2"
  shows "k / 2 + 1 / 10000 < log 2 (800 / real a)"
proof (rule log2_half_above)
  show "2 powr k * (5001 / 5000) < (800 / real a) ^ 2"
    by (rule less_le_trans [OF assms(3) inverse_square_mono [OF assms(1,2)]])
qed (use assms(1) in simp)

lemma cut_below:
  assumes "n \<le> a" "0 < n" "(800 / real n) ^ 2 * (5001 / 5000) < 2 powr k"
  shows "log 2 (800 / real a) < k / 2 - 1 / 10000"
proof (rule log2_half_below)
  have "(800 / real a) ^ 2 * (5001 / 5000) \<le> (800 / real n) ^ 2 * (5001 / 5000)"
    using assms inverse_square_mono [of n a] by (intro mult_right_mono) simp_all
  then show "(800 / real a) ^ 2 * (5001 / 5000) < 2 powr k"
    using assms(3) by (rule le_less_trans)
qed (use assms in simp)

lemma powr_cuts:
  "2 powr 5 = (32 :: real)" "2 powr 3 = (8 :: real)" "2 powr 1 = (2 :: real)"
  "2 powr - 1 = (1 / 2 :: real)" "2 powr - 3 = (1 / 8 :: real)" "2 powr - 5 = (1 / 32 :: real)"
  by (simp_all add: powr_minus powr_numeral)

lemma cut_points:
  fixes a :: nat
  assumes "0 < a"
  defines "l \<equiv> log 2 (800 / real a)"
  shows "a \<le> 141 \<Longrightarrow> 5 / 2 + 1 / 10000 < l" "142 \<le> a \<Longrightarrow> l < 5 / 2 - 1 / 10000"
    "a \<le> 282 \<Longrightarrow> 3 / 2 + 1 / 10000 < l" "283 \<le> a \<Longrightarrow> l < 3 / 2 - 1 / 10000"
    "a \<le> 565 \<Longrightarrow> 1 / 2 + 1 / 10000 < l" "566 \<le> a \<Longrightarrow> l < 1 / 2 - 1 / 10000"
    "a \<le> 1131 \<Longrightarrow> - 1 / 2 + 1 / 10000 < l" "1132 \<le> a \<Longrightarrow> l < - 1 / 2 - 1 / 10000"
    "a \<le> 2262 \<Longrightarrow> - 3 / 2 + 1 / 10000 < l" "2263 \<le> a \<Longrightarrow> l < - 3 / 2 - 1 / 10000"
    "a \<le> 4525 \<Longrightarrow> - 5 / 2 + 1 / 10000 < l" "4526 \<le> a \<Longrightarrow> l < - 5 / 2 - 1 / 10000"
  unfolding l_def
  using cut_above [OF assms(1), of 141 5] cut_below [of 142 a 5]
    cut_above [OF assms(1), of 282 3] cut_below [of 283 a 3]
    cut_above [OF assms(1), of 565 1] cut_below [of 566 a 1]
    cut_above [OF assms(1), of 1131 "- 1"] cut_below [of 1132 a "- 1"]
    cut_above [OF assms(1), of 2262 "- 3"] cut_below [of 2263 a "- 3"]
    cut_above [OF assms(1), of 4525 "- 5"] cut_below [of 4526 a "- 5"]
  by (simp_all add: powr_cuts power2_eq_square)

lemma clamped_delta_cases:
  "5 / 2 < x \<Longrightarrow> clamped_delta x = 3"
  "3 / 2 < x \<Longrightarrow> x < 5 / 2 \<Longrightarrow> clamped_delta x = 2"
  "1 / 2 < x \<Longrightarrow> x < 3 / 2 \<Longrightarrow> clamped_delta x = 1"
  "- 1 / 2 < x \<Longrightarrow> x < 1 / 2 \<Longrightarrow> clamped_delta x = 0"
  "- 3 / 2 < x \<Longrightarrow> x < - 1 / 2 \<Longrightarrow> clamped_delta x = - 1"
  "- 5 / 2 < x \<Longrightarrow> x < - 3 / 2 \<Longrightarrow> clamped_delta x = - 2"
  "x < - 5 / 2 \<Longrightarrow> clamped_delta x = - 3"
proof -
  assume "5 / 2 < x"
  then have "3 \<le> round_away x"
    by (simp add: round_away_def le_floor_iff)
  then show "clamped_delta x = 3"
    by (simp add: clamped_delta_def MAX_DELTA_BITS_def)
next
  assume "x < - 5 / 2"
  then have "round_away x \<le> - 3"
    by (simp add: round_away_def ceiling_le_iff)
  then show "clamped_delta x = - 3"
    by (simp add: clamped_delta_def MAX_DELTA_BITS_def)
qed (simp_all add: clamped_delta_def MAX_DELTA_BITS_def round_away_eq [of 2] round_away_eq [of 1]
    round_away_eq [of 0] round_away_eq [of "- 1"] round_away_eq [of "- 2"])

lemma clamped_delta_steps:
  assumes "0 < a" and "\<bar>err\<bar> \<le> 1 / 10000"
  shows "clamped_delta (log 2 (800 / real a) + err) = delta_steps a"
proof -
  note cuts = cut_points [OF assms(1)]
  have err: "- 1 / 10000 \<le> err" "err \<le> 1 / 10000"
    using assms(2) by (simp_all add: abs_le_iff)
  consider "a \<le> 141" | "142 \<le> a" "a \<le> 282" | "283 \<le> a" "a \<le> 565" | "566 \<le> a" "a \<le> 1131"
    | "1132 \<le> a" "a \<le> 2262" | "2263 \<le> a" "a \<le> 4525" | "4526 \<le> a"
    by linarith
  then show ?thesis
  proof cases
    case 1
    then show ?thesis using cuts(1) err by (subst clamped_delta_cases(1)) (simp_all add: delta_steps_def)
  next
    case 2
    then show ?thesis using cuts(2,3) err by (subst clamped_delta_cases(2)) (simp_all add: delta_steps_def)
  next
    case 3
    then show ?thesis using cuts(4,5) err by (subst clamped_delta_cases(3)) (simp_all add: delta_steps_def)
  next
    case 4
    then show ?thesis using cuts(6,7) err by (subst clamped_delta_cases(4)) (simp_all add: delta_steps_def)
  next
    case 5
    then show ?thesis using cuts(8,9) err by (subst clamped_delta_cases(5)) (simp_all add: delta_steps_def)
  next
    case 6
    then show ?thesis using cuts(10,11) err by (subst clamped_delta_cases(6)) (simp_all add: delta_steps_def)
  next
    case 7
    then show ?thesis using cuts(12) err by (subst clamped_delta_cases(7)) (simp_all add: delta_steps_def)
  qed
qed

lemma raw_delta_steps: "raw_delta a (EPOCH_SIZE * TARGET_BLOCK_MS) = delta_steps (unat a)"
proof (cases "a = 0")
  case True
  then show ?thesis
    by (simp add: raw_delta_def delta_steps_def MAX_DELTA_BITS_def)
next
  case False
  then have "0 < unat a"
    by (simp add: unat_gt_0)
  moreover have "- log 2 (real (unat a) / 800) = log 2 (800 / real (unat a))"
    using calculation by (simp add: log_divide)
  ultimately show ?thesis
    using False clamped_delta_steps [of "unat a" 0]
    by (simp add: raw_delta_def EPOCH_SIZE_def TARGET_BLOCK_MS_def)
qed

lemma raw_delta_bounds: "- 3 \<le> raw_delta a t" "raw_delta a t \<le> 3"
  by (simp_all add: raw_delta_def clamped_delta_def MAX_DELTA_BITS_def)

lemma delta_steps_antimono: "a \<le> b \<Longrightarrow> delta_steps b \<le> delta_steps a"
  by (simp add: delta_steps_def)

section \<open>The adjuster\<close>

definition adjuster_ok :: "adjuster \<Rightarrow> bool" where
  "adjuster_ok adj \<longleftrightarrow> 25 \<le> unat (da_current_bits adj) \<and> unat (da_current_bits adj) \<le> 45"

definition epoch_end :: "u64 \<Rightarrow> bool" where
  "epoch_end height \<longleftrightarrow> height \<noteq> 0 \<and> height mod EPOCH_SIZE = 0"

lemma clamp_bits_range: "25 \<le> unat (clamp_bits b) \<and> unat (clamp_bits b) \<le> 45"
  unfolding clamp_bits_def MIN_BITS_def MAX_BITS_def min_def max_def
  by (auto simp: word_le_nat_alt)

lemma clamp_bits_id: "25 \<le> unat b \<Longrightarrow> unat b \<le> 45 \<Longrightarrow> clamp_bits b = b"
  unfolding clamp_bits_def MIN_BITS_def MAX_BITS_def min_def max_def
  by (auto simp: word_le_nat_alt word_unat_eq_iff)

lemma adjuster_new_ok: "adjuster_ok (adjuster_new b t)"
  by (simp add: adjuster_ok_def adjuster_new_def clamp_bits_range)

lemma adjuster_restore_ok: "adjuster_ok (adjuster_restore b t h)"
  by (simp add: adjuster_ok_def adjuster_restore_def clamp_bits_range)

lemma sint_small:
  assumes "unat (b :: u32) \<le> 45"
  shows "sint b = int (unat b)"
proof -
  have "uint b \<le> 45"
    using assms unfolding unat_eq_nat_uint nat_le_iff by simp
  then have "uint b < 2 ^ 31"
    by simp
  moreover have "- (2 ^ 31) \<le> uint b"
    by (rule order_trans [OF _ uint_ge_0]) simp
  ultimately have "signed_take_bit 31 (uint b) = uint b"
    by (intro signed_take_bit_int_eq_self)
  then show ?thesis
    by (simp add: sint_uint)
qed

text \<open>The new number of bits as a natural number.\<close>

definition next_bits :: "nat \<Rightarrow> int \<Rightarrow> nat" where
  "next_bits old d = nat (min (max (int old + d) 25) 45)"

lemma record_block_mid [simp]: "\<not> epoch_end h \<Longrightarrow> record_block h ts adj = (None, adj)"
  by (auto simp: record_block_def epoch_end_def)

lemma record_block_end:
  assumes "epoch_end h" "adjuster_ok adj"
  shows "unat (da_current_bits (snd (record_block h ts adj))) =
      next_bits (unat (da_current_bits adj)) (delta_steps (unat ts - unat (da_epoch_start_ms adj)))"
    "da_epoch_start_ms (snd (record_block h ts adj)) = ts"
    "da_epoch_start_height (snd (record_block h ts adj)) = h"
proof -
  have d: "raw_delta (sat_sub ts (da_epoch_start_ms adj)) (EPOCH_SIZE * TARGET_BLOCK_MS) =
      delta_steps (unat ts - unat (da_epoch_start_ms adj))"
    by (simp only: raw_delta_steps unat_sat_sub)
  have b: "sint (da_current_bits adj) = int (unat (da_current_bits adj))"
    "sint MIN_BITS = 25" "sint MAX_BITS = 45"
    using assms(2) by (simp_all add: sint_small adjuster_ok_def MIN_BITS_def MAX_BITS_def)
  have "unat (word_of_int (min (max x 25) 45) :: u32) = nat (min (max x 25) 45)" for x
    by (simp add: unat_eq_nat_uint uint_word_of_int min_def max_def)
  then show "unat (da_current_bits (snd (record_block h ts adj))) =
      next_bits (unat (da_current_bits adj)) (delta_steps (unat ts - unat (da_epoch_start_ms adj)))"
    using assms(1) by (simp add: record_block_def epoch_end_def Let_def d b next_bits_def)
  show "da_epoch_start_ms (snd (record_block h ts adj)) = ts"
    "da_epoch_start_height (snd (record_block h ts adj)) = h"
    using assms(1) by (auto simp: record_block_def epoch_end_def Let_def)
qed

lemma next_bits_range: "25 \<le> next_bits b d" "next_bits b d \<le> 45"
  by (auto simp: next_bits_def)

lemma next_bits_near:
  "25 \<le> b \<Longrightarrow> b \<le> 45 \<Longrightarrow> - 3 \<le> d \<Longrightarrow> d \<le> 3 \<Longrightarrow> next_bits b d \<le> b + 3 \<and> b \<le> next_bits b d + 3"
  by (auto simp: next_bits_def)

lemma adjuster_ok_record: "adjuster_ok adj \<Longrightarrow> adjuster_ok (snd (record_block h ts adj))"
  by (cases "epoch_end h") (auto simp: adjuster_ok_def record_block_end next_bits_range)

section \<open>Replaying a chain\<close>

text \<open>The blocks of a chain as pairs of height and timestamp.\<close>

definition replay_blocks :: "(u64 \<times> u64) list \<Rightarrow> adjuster \<Rightarrow> adjuster" where
  "replay_blocks bs adj = fold (\<lambda>(h, ts) a. snd (record_block h ts a)) bs adj"

lemma replay_blocks_simps [simp]:
  "replay_blocks [] adj = adj"
  "replay_blocks ((h, ts) # bs) adj = replay_blocks bs (snd (record_block h ts adj))"
  by (simp_all add: replay_blocks_def)

lemma replay_blocks_append: "replay_blocks (as @ bs) adj = replay_blocks bs (replay_blocks as adj)"
  by (simp add: replay_blocks_def)

lemma replay_blocks_mid: "\<forall>(h, ts) \<in> set bs. \<not> epoch_end h \<Longrightarrow> replay_blocks bs adj = adj"
  by (induction bs) auto

lemma adjuster_ok_replay: "adjuster_ok adj \<Longrightarrow> adjuster_ok (replay_blocks bs adj)"
  by (induction bs arbitrary: adj) (auto simp: adjuster_ok_record)

text \<open>Two adjusters that agree on everything but the remembered last adjustment.\<close>

definition same_schedule :: "adjuster \<Rightarrow> adjuster \<Rightarrow> bool" where
  "same_schedule a b \<longleftrightarrow> da_current_bits a = da_current_bits b
     \<and> da_epoch_start_ms a = da_epoch_start_ms b \<and> da_epoch_start_height a = da_epoch_start_height b"

lemma same_schedule_record:
  "same_schedule a b \<Longrightarrow> same_schedule (snd (record_block h ts a)) (snd (record_block h ts b))
     \<and> fst (record_block h ts a) = fst (record_block h ts b)"
  by (simp add: same_schedule_def record_block_def Let_def)

lemma same_schedule_replay: "same_schedule a b \<Longrightarrow> same_schedule (replay_blocks bs a) (replay_blocks bs b)"
  by (induction bs arbitrary: a b) (auto simp: same_schedule_record)

lemma same_schedule_restore:
  "adjuster_ok a \<Longrightarrow>
     same_schedule (adjuster_restore (da_current_bits a) (da_epoch_start_ms a) (da_epoch_start_height a)) a"
  by (simp add: same_schedule_def adjuster_restore_def clamp_bits_id adjuster_ok_def)

section \<open>Properties\<close>

text \<open>C21: The rounded, clamped binary logarithm that sets the difficulty is a step function of the
  elapsed milliseconds with cut points 141, 282, 565, 1131, 2262 and 4525, and stays that function
  when the logarithm is off by up to 1/10000 in either direction, so nodes with differently
  rounding floating point agree on it.\<close>

theorem difficulty_delta_steps:
  assumes "0 < a" and "\<bar>err\<bar> \<le> 1 / 10000"
  shows "clamped_delta (- log 2 (real a / 800) + err) = delta_steps a
    \<and> raw_delta ms (EPOCH_SIZE * TARGET_BLOCK_MS) = delta_steps (unat ms)"
proof -
  have "- log 2 (real a / 800) = log 2 (800 / real a)"
    using assms(1) by (simp add: log_divide)
  then show ?thesis
    using clamped_delta_steps [OF assms] raw_delta_steps by simp
qed

theorem difficulty_delta_steps_witness:
  "clamped_delta (- log 2 (real 400 / 800) + 1 / 20000) = 1 \<and> raw_delta 1600 (EPOCH_SIZE * TARGET_BLOCK_MS) = - 1"
  using difficulty_delta_steps [of 400 "1 / 20000" 1600] by (simp add: delta_steps_def)

text \<open>Every block leaves the difficulty between 25 and 45 bits; it changes it only at the end of an
  epoch, by at most 3 bits, and a longer epoch never leads to a higher difficulty.\<close>

theorem difficulty_bounded:
  assumes "adjuster_ok adj"
  shows "adjuster_ok (snd (record_block h ts adj))
    \<and> (\<not> epoch_end h \<longrightarrow> snd (record_block h ts adj) = adj)
    \<and> unat (da_current_bits (snd (record_block h ts adj))) \<le> unat (da_current_bits adj) + 3
    \<and> unat (da_current_bits adj) \<le> unat (da_current_bits (snd (record_block h ts adj))) + 3
    \<and> (ts \<le> ts' \<longrightarrow> unat (da_current_bits (snd (record_block h ts' adj)))
          \<le> unat (da_current_bits (snd (record_block h ts adj))))"
proof (cases "epoch_end h")
  case True
  have r: "- 3 \<le> delta_steps x" "delta_steps x \<le> 3" for x
    by (simp_all add: delta_steps_def)
  have "delta_steps (unat ts' - s) \<le> delta_steps (unat ts - s)" if "ts \<le> ts'" for s
    using that by (intro delta_steps_antimono) (simp add: word_le_nat_alt diff_le_mono)
  moreover have "next_bits b x \<le> next_bits b y" if "x \<le> y" for b x y
    using that by (auto simp: next_bits_def)
  moreover have "next_bits (unat (da_current_bits adj)) (delta_steps x) \<le> unat (da_current_bits adj) + 3"
    "unat (da_current_bits adj) \<le> next_bits (unat (da_current_bits adj)) (delta_steps x) + 3" for x
    using r [of x] assms(1) next_bits_near by (auto simp: adjuster_ok_def)
  ultimately show ?thesis
    using True adjuster_ok_record [OF assms(1)] by (simp add: record_block_end [OF True assms(1)])
next
  case False
  with assms(1) show ?thesis by simp
qed

theorem difficulty_bounded_witness:
  "25 \<le> unat (da_current_bits (snd (record_block 20 300 (adjuster_new 30 0))))
   \<and> unat (da_current_bits (snd (record_block 20 9000 (adjuster_new 30 0))))
       \<le> unat (da_current_bits (snd (record_block 20 300 (adjuster_new 30 0))))"
  using difficulty_bounded [OF adjuster_new_ok [of 30 0], of 20 300 9000] by (simp add: adjuster_ok_def)

text \<open>C16: The adjuster is a fold over chain history: restoring it in the middle of a chain from its
  bits and epoch start and replaying the remaining blocks gives the same bits, epoch start and
  adjustments as having replayed everything; so does rolling back blocks of an unfinished epoch and
  replaying others in their place from the unchanged adjuster.\<close>

theorem difficulty_replay_deterministic:
  assumes "adjuster_ok adj"
  shows "(let mid = replay_blocks before adj in
      same_schedule (replay_blocks (before @ later) adj)
        (replay_blocks later (adjuster_restore (da_current_bits mid) (da_epoch_start_ms mid)
          (da_epoch_start_height mid))))
    \<and> ((\<forall>(h, ts) \<in> set dropped. \<not> epoch_end h) \<longrightarrow>
         replay_blocks later (replay_blocks (before @ dropped) adj) = replay_blocks (before @ later) adj)"
proof -
  define mid where "mid = replay_blocks before adj"
  have "adjuster_ok mid"
    unfolding mid_def by (rule adjuster_ok_replay [OF assms(1)])
  then have "same_schedule mid (adjuster_restore (da_current_bits mid) (da_epoch_start_ms mid)
      (da_epoch_start_height mid))"
    using same_schedule_restore by (simp add: same_schedule_def)
  then show ?thesis
    by (auto simp: replay_blocks_append mid_def [symmetric] same_schedule_replay replay_blocks_mid Let_def)
qed

theorem difficulty_replay_deterministic_witness:
  "same_schedule (replay_blocks ([(20, 300)] @ [(40, 900)]) (adjuster_new 30 0))
     (replay_blocks [(40, 900)] (adjuster_restore 31 300 20))"
proof -
  have "unat (da_current_bits (snd (record_block 20 300 (adjuster_new 30 0)))) = 31"
    by (subst record_block_end [OF _ adjuster_new_ok]) (simp_all add: epoch_end_def EPOCH_SIZE_def next_bits_def
        delta_steps_def adjuster_new_def clamp_bits_def MIN_BITS_def MAX_BITS_def)
  then have "da_current_bits (snd (record_block 20 300 (adjuster_new 30 0))) = 31"
    by (simp add: word_unat_eq_iff)
  then show ?thesis
    using difficulty_replay_deterministic [OF adjuster_new_ok [of 30 0], of "[(20, 300)]" "[(40, 900)]"]
      record_block_end(2,3) [of 20 "adjuster_new 30 0" 300] adjuster_new_ok [of 30 0]
    by (simp add: epoch_end_def EPOCH_SIZE_def Let_def)
qed

end
