(* ===== verification/Claims.thy ===== *)
theory Claims
  imports Transactions
begin

text \<open>
  \<^verbatim>\<open>core/src/claims.rs\<close>: signed block claims and the election between claims for one height. The
  locale \<open>election\<close> states what a ranking has to satisfy for the arrival order not to matter, and
  proves that the fold the code uses picks a best candidate; it is interpreted on
  \<open>claim_is_better\<close> here, and in \<^verbatim>\<open>Node_State\<close> on the pending claims of the node.
\<close>

section \<open>Claims\<close>

definition CLAIM_TAG :: bytes where
  "CLAIM_TAG = as_bytes ''BINA-BLOCK-CLAIM-v1''"

definition ELECTION_TAG :: bytes where
  "ELECTION_TAG = as_bytes ''BINA-ELECTION-v1''"

record signed_claim =
  sc_header :: l1_header
  sc_public_key :: bytes
  sc_signature :: bytes

datatype claim_error =
    ClaimCrypto crypto_error
  | ClaimKeyNotMiner
  | ClaimNoWork

definition claim_message :: "prims \<Rightarrow> l1_header \<Rightarrow> bytes" where
  "claim_message P h = blake3 P (CLAIM_TAG @ header_hash P h)"

definition election_score :: "prims \<Rightarrow> l1_header \<Rightarrow> bytes" where
  "election_score P h = blake3 P (ELECTION_TAG @ le_bytes 8 (h_height h) @ h_prev_hash h
     @ header_hash P h @ h_miner_address h)"

definition claim_block_hash :: "prims \<Rightarrow> signed_claim \<Rightarrow> bytes" where
  "claim_block_hash P c = header_hash P (sc_header c)"

definition claim_block_hash_hex :: "prims \<Rightarrow> signed_claim \<Rightarrow> string" where
  "claim_block_hash_hex P c = hex_encode P (claim_block_hash P c)"

definition claim_miner_address_hex :: "prims \<Rightarrow> signed_claim \<Rightarrow> string" where
  "claim_miner_address_hex P c = hex_encode P (h_miner_address (sc_header c))"

definition claim_work_bits :: "prims \<Rightarrow> signed_claim \<Rightarrow> nat" where
  "claim_work_bits P c = leading_zero_bits (claim_block_hash P c)"

definition claim_digest_hex :: "prims \<Rightarrow> signed_claim \<Rightarrow> string" where
  "claim_digest_hex P c = hex_encode P (claim_message P (sc_header c))"

definition claim_election_score :: "prims \<Rightarrow> signed_claim \<Rightarrow> bytes" where
  "claim_election_score P c = election_score P (sc_header c)"

definition claim_sign :: "prims \<Rightarrow> nat \<Rightarrow> l1_header \<Rightarrow> wallet_keypair \<Rightarrow> signed_claim" where
  "claim_sign P q header kp =
     (let sig = keypair_sign P q kp (claim_message P header) in
      \<lparr>sc_header = header, sc_public_key = wpk_to_bytes (kp_public kp), sc_signature = hsig_to_bytes sig\<rparr>)"

definition claim_verify :: "prims \<Rightarrow> signed_claim \<Rightarrow> claim_error + unit" where
  "claim_verify P c =
     res_bind (map_err ClaimCrypto (wpk_from_bytes P (sc_public_key c))) (\<lambda>public_key.
       if wpk_address P public_key \<noteq> h_miner_address (sc_header c) then Inl ClaimKeyNotMiner
       else if \<not> meets_difficulty (claim_block_hash P c) (h_difficulty_bits (sc_header c))
       then Inl ClaimNoWork
       else res_bind (map_err ClaimCrypto (hsig_from_bytes (sc_signature c))) (\<lambda>signature.
         map_err ClaimCrypto (wpk_verify P public_key (claim_message P (sc_header c)) signature)))"

lemma claim_verify_ok_iff:
  "claim_verify P c = Inr () \<longleftrightarrow>
     (\<exists>pk sig. wpk_from_bytes P (sc_public_key c) = Inr pk
        \<and> wpk_address P pk = h_miner_address (sc_header c)
        \<and> meets_difficulty (claim_block_hash P c) (h_difficulty_bits (sc_header c))
        \<and> hsig_from_bytes (sc_signature c) = Inr sig
        \<and> wpk_verify P pk (claim_message P (sc_header c)) sig = Inr ())"
  by (auto simp: claim_verify_def res_bind_Inr_iff)

lemma claim_sign_verifies:
  assumes "sig_ok P" "length seed = 32"
    and "h_miner_address h = wpk_address P (kp_public (keypair_generate P seed r))"
    and "meets_difficulty (header_hash P h) (h_difficulty_bits h)"
  shows "claim_verify P (claim_sign P q h (keypair_generate P seed r)) = Inr ()"
proof -
  let ?kp = "keypair_generate P seed r"
  have "wpk_from_bytes P (wpk_to_bytes (kp_public ?kp)) = Inr (kp_public ?kp)"
    using keypair_generate_wf [OF assms(1,2)] by (intro wpk_from_to_bytes) (simp add: keypair_wf_def)
  moreover have "hsig_from_bytes (hsig_to_bytes (keypair_sign P q ?kp (claim_message P h)))
      = Inr (keypair_sign P q ?kp (claim_message P h))"
    by (rule hsig_from_to_bytes [OF keypair_sign_wf [OF assms(1,2)]])
  ultimately show ?thesis
    using assms(3,4) keypair_sign_verifies [OF assms(1,2)]
    by (simp add: claim_verify_ok_iff claim_sign_def claim_block_hash_def Let_def)
qed

section \<open>Elections\<close>

text \<open>\<^verbatim>\<open>Iterator::reduce\<close> with the ranking: the first element, replaced by each strictly better one.\<close>

fun select_best :: "('a \<Rightarrow> 'a \<Rightarrow> bool) \<Rightarrow> 'a list \<Rightarrow> 'a option" where
  "select_best better [] = None"
| "select_best better (x # xs) = Some (fold (\<lambda>c w. if better c w then c else w) xs x)"

locale election =
  fixes better :: "'a \<Rightarrow> 'a \<Rightarrow> bool"
    and ident :: "'a \<Rightarrow> 'b"
  assumes asym: "better a b \<Longrightarrow> \<not> better b a"
    and neg_trans: "\<not> better a b \<Longrightarrow> \<not> better b c \<Longrightarrow> \<not> better a c"
    and tie: "\<not> better a b \<Longrightarrow> \<not> better b a \<Longrightarrow> ident a = ident b"
begin

lemma fold_best:
  "let w = fold (\<lambda>c w. if better c w then c else w) xs x in
     w \<in> set (x # xs) \<and> (\<forall>y \<in> set (x # xs). \<not> better y w)"
proof (induction xs arbitrary: x)
  case Nil
  show ?case using asym by auto
next
  case (Cons c cs)
  let ?y = "if better c x then c else x"
  let ?w = "fold (\<lambda>c w. if better c w then c else w) cs ?y"
  from Cons.IH [of ?y] have w: "?w \<in> set (?y # cs)" "\<forall>z \<in> set (?y # cs). \<not> better z ?w"
    unfolding Let_def by blast+
  have "\<not> better x ?y" "\<not> better c ?y"
    using asym [of c x] asym [of x x] asym [of c c] by auto
  then have "\<not> better x ?w" "\<not> better c ?w"
    using w(2) neg_trans by (meson list.set_intros(1))+
  then have "\<forall>z \<in> set (x # c # cs). \<not> better z ?w"
    using w(2) by simp
  moreover have "?w \<in> set (x # c # cs)"
    using w(1) by (auto split: if_splits)
  ultimately show ?case
    by (simp add: Let_def)
qed

lemma select_best_SomeD:
  "select_best better xs = Some w \<Longrightarrow> w \<in> set xs \<and> (\<forall>y \<in> set xs. \<not> better y w)"
  using fold_best by (cases xs) (auto simp: Let_def)

lemma select_best_None: "select_best better xs = None \<longleftrightarrow> xs = []"
  by (cases xs) auto

text \<open>Two nodes that saw the same candidates, in any order and any number of times, elect the same.\<close>

lemma select_best_order:
  assumes "set xs = set ys"
  shows "map_option ident (select_best better xs) = map_option ident (select_best better ys)"
proof (cases "select_best better xs")
  case None
  then have "xs = []" "ys = []"
    using assms by (simp_all add: select_best_None)
  then show ?thesis by simp
next
  case (Some w)
  then have "ys \<noteq> []"
    using assms select_best_None [of xs] by auto
  then obtain v where v: "select_best better ys = Some v"
    using select_best_None [of ys] by blast
  from select_best_SomeD [OF Some] select_best_SomeD [OF v] assms
  have "\<not> better v w" "\<not> better w v" by blast+
  then have "ident v = ident w" by (rule tie)
  with Some v show ?thesis by simp
qed

end

definition claim_is_better :: "prims \<Rightarrow> signed_claim \<Rightarrow> signed_claim \<Rightarrow> bool" where
  "claim_is_better P candidate incumbent =
     (let candidate_work = claim_work_bits P candidate; incumbent_work = claim_work_bits P incumbent in
      if candidate_work \<noteq> incumbent_work then candidate_work > incumbent_work
      else let candidate_score = claim_election_score P candidate;
               incumbent_score = claim_election_score P incumbent in
        if candidate_score \<noteq> incumbent_score then candidate_score < incumbent_score
        else claim_block_hash P candidate < claim_block_hash P incumbent)"

definition select_winning_claim :: "prims \<Rightarrow> signed_claim list \<Rightarrow> signed_claim option" where
  "select_winning_claim P = select_best (claim_is_better P)"

lemma claim_rank_laws:
  "claim_is_better P a b \<Longrightarrow> \<not> claim_is_better P b a"
  "\<not> claim_is_better P a b \<Longrightarrow> \<not> claim_is_better P b c \<Longrightarrow> \<not> claim_is_better P a c"
  "\<not> claim_is_better P a b \<Longrightarrow> \<not> claim_is_better P b a \<Longrightarrow> claim_block_hash P a = claim_block_hash P b"
  by (auto simp: claim_is_better_def Let_def split: if_splits)

interpretation claims: election "claim_is_better P" "claim_block_hash P" for P
  by unfold_locales (fact claim_rank_laws)+

section \<open>Properties\<close>

text \<open>C13: Every node that knows the same claims for a height elects the same block, whatever order and
  however often the claims arrived, and the elected claim is one that no other claim beats.\<close>

theorem election_order_independent:
  assumes "set xs = set ys"
  shows "map_option (claim_block_hash P) (select_winning_claim P xs)
      = map_option (claim_block_hash P) (select_winning_claim P ys)
    \<and> (\<forall>w. select_winning_claim P xs = Some w \<longrightarrow> w \<in> set xs \<and> (\<forall>c \<in> set xs. \<not> claim_is_better P c w))"
  using claims.select_best_order [OF assms, of P] claims.select_best_SomeD [of P xs]
  by (auto simp: select_winning_claim_def)

definition sample_claim :: "u64 \<Rightarrow> signed_claim" where
  "sample_claim n = \<lparr>sc_header = (genesis_header sample_prims)\<lparr>h_nonce := n\<rparr>, sc_public_key = [], sc_signature = []\<rparr>"

theorem election_order_independent_witness:
  "map_option (claim_block_hash sample_prims) (select_winning_claim sample_prims [sample_claim 1, sample_claim 2])
   = map_option (claim_block_hash sample_prims) (select_winning_claim sample_prims [sample_claim 2, sample_claim 1, sample_claim 2])"
  using election_order_independent [of "[sample_claim 1, sample_claim 2]"
      "[sample_claim 2, sample_claim 1, sample_claim 2]" sample_prims]
  by (simp add: insert_commute)

text \<open>C14: A claim that verifies was made with the key of the address it pays, over this very header,
  and its hash has at least the leading zero bits the header declares; and what a generated
  wallet signs for its own address on a header with enough work verifies.\<close>

theorem claim_verify_sound_and_complete:
  assumes "hash_ok P" "sig_ok P" "length seed = 32"
  shows "(claim_verify P c = Inr () \<longrightarrow>
        (\<exists>pk sig. wpk_from_bytes P (sc_public_key c) = Inr pk \<and> hsig_from_bytes (sc_signature c) = Inr sig
          \<and> h_miner_address (sc_header c) = wpk_address P pk
          \<and> wpk_verify P pk (claim_message P (sc_header c)) sig = Inr ())
        \<and> min (unat (h_difficulty_bits (sc_header c))) 256 \<le> claim_work_bits P c)
    \<and> (h_miner_address h = keypair_address P (keypair_generate P seed r) \<longrightarrow>
        min (unat (h_difficulty_bits h)) 256 \<le> leading_zero_bits (header_hash P h) \<longrightarrow>
        claim_verify P (claim_sign P q h (keypair_generate P seed r)) = Inr ())"
  using claim_sign_verifies [OF assms(2,3)] assms(1)
  by (auto simp: claim_verify_ok_iff claim_work_bits_def claim_block_hash_def keypair_address_def
      meets_difficulty_iff [of "header_hash P _", symmetric])

theorem claim_verify_sound_and_complete_witness:
  "claim_verify sample_prims (claim_sign sample_prims 0
     ((genesis_header sample_prims)\<lparr>h_miner_address :=
        keypair_address sample_prims (keypair_generate sample_prims (zeros 32) 0)\<rparr>)
     (keypair_generate sample_prims (zeros 32) 0)) = Inr ()"
proof -
  let ?h = "(genesis_header sample_prims)\<lparr>h_miner_address :=
        keypair_address sample_prims (keypair_generate sample_prims (zeros 32) 0)\<rparr>"
  have "h_miner_address ?h = keypair_address sample_prims (keypair_generate sample_prims (zeros 32) 0)"
    by simp
  moreover have "min (unat (h_difficulty_bits ?h)) 256 \<le> leading_zero_bits (header_hash sample_prims ?h)"
    by (simp add: genesis_header_def)
  ultimately show ?thesis
    using claim_verify_sound_and_complete [OF sample_hash_ok sample_sig_ok length_zeros, of _ ?h 0 0] by blast
qed

end
