(* ===== verification/Randomness.thy ===== *)
theory Randomness
  imports Hash_Map Sample_Prims
begin

text \<open>
  \<^verbatim>\<open>core/src/randomness.rs\<close>: the randomness output of a block and the set of spent nullifiers
  (a list without repetitions). A run of operations on the set is a fold; the lemmas show
  that over any run each nullifier is consumed at most once.
\<close>

definition TAG_OUTPUT :: bytes where "TAG_OUTPUT = as_bytes ''BINA-RAND-v1''"
definition TAG_NULLIFIER :: bytes where "TAG_NULLIFIER = as_bytes ''BINA-NULL-v1''"

record randomness_output =
  ro_height :: u64
  ro_block_hash :: bytes
  ro_bitcoin_seed_hash :: bytes
  ro_output :: bytes
  ro_nullifier :: bytes

definition output_preimage :: "u64 \<Rightarrow> bytes \<Rightarrow> bytes \<Rightarrow> bytes" where
  "output_preimage height block_hash seed = TAG_OUTPUT @ le_bytes 8 height @ block_hash @ seed"

definition nullifier_preimage :: "u64 \<Rightarrow> bytes \<Rightarrow> bytes" where
  "nullifier_preimage height out = TAG_NULLIFIER @ le_bytes 8 height @ out"

definition randomness_from_block :: "prims \<Rightarrow> u64 \<Rightarrow> bytes \<Rightarrow> bytes \<Rightarrow> randomness_output" where
  "randomness_from_block P height block_hash seed =
     (let out = blake3 P (output_preimage height block_hash seed);
          nullifier = blake3 P (nullifier_preimage height out) in
      \<lparr>ro_height = height, ro_block_hash = block_hash, ro_bitcoin_seed_hash = seed,
       ro_output = out, ro_nullifier = nullifier\<rparr>)"

definition output_hex :: "prims \<Rightarrow> randomness_output \<Rightarrow> string" where
  "output_hex P r = hex_encode P (ro_output r)"

definition nullifier_hex :: "prims \<Rightarrow> randomness_output \<Rightarrow> string" where
  "nullifier_hex P r = hex_encode P (ro_nullifier r)"

definition randomness_verify :: "prims \<Rightarrow> randomness_output \<Rightarrow> bool" where
  "randomness_verify P r =
     (let expected = randomness_from_block P (ro_height r) (ro_block_hash r) (ro_bitcoin_seed_hash r) in
      ro_output expected = ro_output r \<and> ro_nullifier expected = ro_nullifier r)"

section \<open>The set of spent nullifiers\<close>

type_synonym nullifier_set = "bytes list"

datatype nullifier_error = AlreadySpent u64 bytes

definition nullifiers_mark_spent :: "bytes \<Rightarrow> nullifier_set \<Rightarrow> bool \<times> nullifier_set" where
  "nullifiers_mark_spent n spent = (if n \<in> set spent then (False, spent) else (True, n # spent))"

definition nullifiers_consume ::
    "randomness_output \<Rightarrow> nullifier_set \<Rightarrow> (nullifier_error + bytes) \<times> nullifier_set" where
  "nullifiers_consume r spent =
     (let (fresh, spent') = nullifiers_mark_spent (ro_nullifier r) spent in
      if fresh then (Inr (ro_output r), spent') else (Inl (AlreadySpent (ro_height r) (ro_nullifier r)), spent'))"

definition nullifiers_is_spent :: "randomness_output \<Rightarrow> nullifier_set \<Rightarrow> bool" where
  "nullifiers_is_spent r spent = (ro_nullifier r \<in> set spent)"

definition nullifiers_len :: "nullifier_set \<Rightarrow> nat" where
  "nullifiers_len spent = length spent"

lemma mark_spent_set [simp]: "set (snd (nullifiers_mark_spent n spent)) = insert n (set spent)"
  by (auto simp: nullifiers_mark_spent_def)

lemma mark_spent_distinct: "distinct spent \<Longrightarrow> distinct (snd (nullifiers_mark_spent n spent))"
  by (simp add: nullifiers_mark_spent_def)

lemma consume_snd: "snd (nullifiers_consume r spent) = snd (nullifiers_mark_spent (ro_nullifier r) spent)"
  by (simp add: nullifiers_consume_def split: prod.splits)

lemma consume_ok_iff: "is_ok (fst (nullifiers_consume r spent)) \<longleftrightarrow> \<not> nullifiers_is_spent r spent"
  by (simp add: nullifiers_consume_def nullifiers_mark_spent_def nullifiers_is_spent_def)

text \<open>A run of consumptions: the outputs that were handed out, in order.\<close>

fun consume_all :: "randomness_output list \<Rightarrow> nullifier_set \<Rightarrow> randomness_output list \<times> nullifier_set" where
  "consume_all [] spent = ([], spent)"
| "consume_all (r # rs) spent =
     (case nullifiers_consume r spent of
        (Inl _, spent') \<Rightarrow> consume_all rs spent'
      | (Inr _, spent') \<Rightarrow> (r # fst (consume_all rs spent'), snd (consume_all rs spent')))"

lemma consume_all_spec:
  assumes "distinct spent"
  shows "distinct (map ro_nullifier (fst (consume_all rs spent)))
    \<and> set (map ro_nullifier (fst (consume_all rs spent))) \<inter> set spent = {}
    \<and> set (snd (consume_all rs spent)) = set spent \<union> ro_nullifier ` set rs
    \<and> distinct (snd (consume_all rs spent))"
  using assms
proof (induction rs arbitrary: spent)
  case (Cons r rs)
  show ?case
  proof (cases "ro_nullifier r \<in> set spent")
    case True
    with Cons show ?thesis
      by (auto simp: nullifiers_consume_def nullifiers_mark_spent_def)
  next
    case False
    then have "nullifiers_consume r spent = (Inr (ro_output r), ro_nullifier r # spent)"
      by (simp add: nullifiers_consume_def nullifiers_mark_spent_def)
    with False Cons.IH [of "ro_nullifier r # spent"] Cons.prems show ?thesis by auto
  qed
qed simp

section \<open>What outputs and nullifiers commit to\<close>

lemma randomness_verify_iff:
  fixes r :: randomness_output
  shows "randomness_verify P r \<longleftrightarrow>
    r = randomness_from_block P (ro_height r) (ro_block_hash r) (ro_bitcoin_seed_hash r)"
  by (cases r) (auto simp: randomness_verify_def randomness_from_block_def Let_def)

lemma output_preimage_inj:
  assumes "length b = 32" "length b' = 32"
    and "output_preimage h b s = output_preimage h' b' s'"
  shows "h = h' \<and> b = b' \<and> s = s'"
  using assms by (auto simp: output_preimage_def intro: le_bytes_inj [where k = 8])

lemma nullifier_preimage_inj: "nullifier_preimage h out = nullifier_preimage h' out' \<Longrightarrow> h = h' \<and> out = out'"
  by (auto simp: nullifier_preimage_def intro: le_bytes_inj [where k = 8])

section \<open>Properties\<close>

text \<open>Starting from any set of spent nullifiers, a run of consumptions hands out every nullifier at
  most once and none that was spent before, and afterwards exactly the old ones and the requested
  ones are spent; a consumption fails exactly when its nullifier is spent.\<close>

theorem nullifier_consumed_once:
  assumes "distinct spent"
  shows "distinct (map ro_nullifier (fst (consume_all rs spent)))
    \<and> set (map ro_nullifier (fst (consume_all rs spent))) \<inter> set spent = {}
    \<and> set (snd (consume_all rs spent)) = set spent \<union> ro_nullifier ` set rs
    \<and> (is_ok (fst (nullifiers_consume r spent)) \<longleftrightarrow> \<not> nullifiers_is_spent r spent)"
  using consume_all_spec [OF assms, of rs] consume_ok_iff [of r spent] by (elim conjE) (intro conjI)

lemma consume_twice: "fst (consume_all [r, r] []) = [r]"
  by (simp add: nullifiers_consume_def nullifiers_mark_spent_def)

definition sample_output :: randomness_output where
  "sample_output = randomness_from_block sample_prims 1 (zeros 32) (zeros 32)"

theorem nullifier_consumed_once_witness:
  "fst (consume_all [sample_output, sample_output] []) = [sample_output]
   \<and> set (snd (consume_all [sample_output, sample_output] [])) = {ro_nullifier sample_output}"
proof
  have "set (snd (consume_all [sample_output, sample_output] []))
      = set [] \<union> ro_nullifier ` set [sample_output, sample_output]"
    using nullifier_consumed_once [OF distinct.simps(1) [THEN iffD2, OF TrueI]] by blast
  then show "set (snd (consume_all [sample_output, sample_output] [])) = {ro_nullifier sample_output}"
    by (simp del: consume_all.simps)
qed (rule consume_twice)

text \<open>An output verifies exactly when it is the one derived from its height, block hash and Bitcoin
  seed, and outputs of different blocks are derived from different bytes: the preimages of output
  and nullifier determine height, block hash and seed.\<close>

theorem randomness_binds_block:
  fixes r :: randomness_output
  assumes "length b = 32" "length b' = 32"
  shows "(randomness_verify P r \<longleftrightarrow>
        r = randomness_from_block P (ro_height r) (ro_block_hash r) (ro_bitcoin_seed_hash r))
    \<and> (output_preimage h b s = output_preimage h' b' s' \<longleftrightarrow> h = h' \<and> b = b' \<and> s = s')
    \<and> (nullifier_preimage h out = nullifier_preimage h' out' \<longleftrightarrow> h = h' \<and> out = out')"
proof (intro conjI)
  show "randomness_verify P r \<longleftrightarrow>
      r = randomness_from_block P (ro_height r) (ro_block_hash r) (ro_bitcoin_seed_hash r)"
    by (rule randomness_verify_iff)
  show "output_preimage h b s = output_preimage h' b' s' \<longleftrightarrow> h = h' \<and> b = b' \<and> s = s'"
    using output_preimage_inj [OF assms] by blast
  show "nullifier_preimage h out = nullifier_preimage h' out' \<longleftrightarrow> h = h' \<and> out = out'"
    using nullifier_preimage_inj by blast
qed

theorem randomness_binds_block_witness:
  "randomness_verify sample_prims (randomness_from_block sample_prims 5 (zeros 32) (zeros 32))
   \<and> output_preimage 5 (zeros 32) (zeros 32) \<noteq> output_preimage 6 (zeros 32) (zeros 32)"
proof -
  have "randomness_verify sample_prims (randomness_from_block sample_prims 5 (zeros 32) (zeros 32))"
    by (simp add: randomness_verify_def randomness_from_block_def Let_def)
  moreover have "output_preimage 5 (zeros 32) (zeros 32) \<noteq> output_preimage 6 (zeros 32) (zeros 32)"
    using randomness_binds_block [OF length_zeros length_zeros, of sample_prims undefined 5 "zeros 32" 6 "zeros 32"]
    by simp
  ultimately show ?thesis ..
qed

end
