(* ===== verification/Btc_Entropy.thy ===== *)
theory Btc_Entropy
  imports Hash_Map Sample_Prims Text_Format
begin

text \<open>
  \<^verbatim>\<open>core/src/bitcoin_entropy.rs\<close>: the schedule of Bitcoin-seed checkpoints, checkpoint proofs and
  the helpers on 32-byte values. The clock is an argument.
\<close>

definition BTC_CHECKPOINT_INTERVAL :: u64 where "BTC_CHECKPOINT_INTERVAL = 20"

definition is_checkpoint_height :: "u64 \<Rightarrow> bool" where
  "is_checkpoint_height height \<longleftrightarrow> height = 1 \<or> sat_sub height 1 mod BTC_CHECKPOINT_INTERVAL = 0"

definition governing_checkpoint_height :: "u64 \<Rightarrow> u64" where
  "governing_checkpoint_height height =
     (if height = 0 then 0
      else ((height - 1) div BTC_CHECKPOINT_INTERVAL) * BTC_CHECKPOINT_INTERVAL + 1)"

definition BTC_TAG :: bytes where "BTC_TAG = as_bytes ''BINA-BTC-v1''"

record btc_checkpoint_proof =
  cp_tip_hash :: bytes
  cp_tip_height :: u64
  cp_utxo_entropy :: bytes
  cp_stale_xor_pool :: bytes

record btc_entropy_state =
  be_tip_hash :: bytes
  be_utxo_entropy :: bytes
  be_stale_xor_pool :: bytes
  be_seed_timestamp :: u64
  be_tip_height :: u64
  be_fork_detected :: bool

definition btc_seed_preimage :: "bytes \<Rightarrow> bytes \<Rightarrow> bytes \<Rightarrow> bytes" where
  "btc_seed_preimage tip utxo stale = BTC_TAG @ tip @ utxo @ stale"

definition checkpoint_from_state :: "btc_entropy_state \<Rightarrow> btc_checkpoint_proof" where
  "checkpoint_from_state s =
     \<lparr>cp_tip_hash = be_tip_hash s, cp_tip_height = be_tip_height s,
      cp_utxo_entropy = be_utxo_entropy s, cp_stale_xor_pool = be_stale_xor_pool s\<rparr>"

definition checkpoint_seed_hash :: "prims \<Rightarrow> btc_checkpoint_proof \<Rightarrow> bytes" where
  "checkpoint_seed_hash P c =
     blake3 P (btc_seed_preimage (cp_tip_hash c) (cp_utxo_entropy c) (cp_stale_xor_pool c))"

definition checkpoint_plausible :: "btc_checkpoint_proof \<Rightarrow> u64 \<Rightarrow> u64 \<Rightarrow> u64 \<Rightarrow> bool" where
  "checkpoint_plausible c previous_tip observed_tip tolerance =
     (if cp_tip_height c < previous_tip then False
      else abs_diff (cp_tip_height c) observed_tip \<le> tolerance)"

definition btc_state_seed_hash :: "prims \<Rightarrow> btc_entropy_state \<Rightarrow> bytes" where
  "btc_state_seed_hash P s =
     blake3 P (btc_seed_preimage (be_tip_hash s) (be_utxo_entropy s) (be_stale_xor_pool s))"

definition btc_state_is_fresh :: "u64 \<Rightarrow> btc_entropy_state \<Rightarrow> u64 \<Rightarrow> bool" where
  "btc_state_is_fresh now s max_age_secs \<longleftrightarrow> sat_sub now (be_seed_timestamp s) < max_age_secs"

definition btc_state_age_secs :: "u64 \<Rightarrow> btc_entropy_state \<Rightarrow> u64" where
  "btc_state_age_secs now s = sat_sub now (be_seed_timestamp s)"

definition btc_state_mock :: btc_entropy_state where
  "btc_state_mock =
     \<lparr>be_tip_hash = [0xde, 0xad, 0xbe, 0xef] @ zeros 28,
      be_utxo_entropy = [0xca, 0xfe, 0xba, 0xbe] @ zeros 28,
      be_stale_xor_pool = zeros 32, be_seed_timestamp = 0, be_tip_height = 0, be_fork_detected = False\<rparr>"

definition xor32 :: "bytes \<Rightarrow> bytes \<Rightarrow> bytes" where
  "xor32 a b = map (\<lambda>i. a ! i XOR b ! i) [0..<32]"

definition blake3_keyed :: "prims \<Rightarrow> bytes \<Rightarrow> bytes \<Rightarrow> bytes" where
  "blake3_keyed P domain data = blake3 P (domain @ data)"

definition hex_to_32 :: "prims \<Rightarrow> string \<Rightarrow> bytes option" where
  "hex_to_32 P s =
     (let t = trim s in if length t \<noteq> 64 then None else hex_decode P t)"

section \<open>The schedule\<close>

text \<open>The schedule on natural numbers.\<close>

definition checkpoint_nat :: "nat \<Rightarrow> bool" where
  "checkpoint_nat h \<longleftrightarrow> h = 0 \<or> h mod 20 = 1"

lemma is_checkpoint_nat: "is_checkpoint_height h \<longleftrightarrow> checkpoint_nat (unat h)"
proof -
  have A: "sat_sub h 1 mod BTC_CHECKPOINT_INTERVAL = 0 \<longleftrightarrow> (unat h - 1) mod 20 = 0"
    unfolding word_unat_eq_iff unat_mod unat_sat_sub BTC_CHECKPOINT_INTERVAL_def by simp
  have B: "h = 1 \<longleftrightarrow> unat h = 1"
    unfolding word_unat_eq_iff by simp
  have C: "(x - 1) mod 20 = 0 \<longleftrightarrow> x = 0 \<or> x mod 20 = 1" for x :: nat
  proof (cases x)
    case (Suc n)
    have "Suc n mod 20 = (if Suc (n mod 20) = 20 then 0 else Suc (n mod 20))"
      by (rule mod_Suc)
    then show ?thesis unfolding Suc by simp
  qed simp
  have D: "n = 1 \<Longrightarrow> n mod 20 = 1" for n :: nat
    by simp
  show ?thesis
    unfolding is_checkpoint_height_def checkpoint_nat_def A B C [of "unat h"]
    using D [of "unat h"] by blast
qed

lemma governing_nat:
  assumes "0 < unat h"
  shows "unat (governing_checkpoint_height h) = (unat h - 1) div 20 * 20 + 1"
proof -
  have h: "h \<noteq> 0" using assms by auto
  have s: "unat (h - 1) = unat h - 1"
    using assms by (subst unat_sub_le) (simp_all add: word_le_nat_alt)
  have "(unat h - 1) div 20 * 20 + 1 \<le> unat h"
    using assms by simp
  then have b: "(unat h - 1) div 20 * 20 + 1 < 2 ^ 64"
    using unat_lt_u64 [of h] by (rule le_less_trans)
  have "unat ((h - 1) div 20 * 20) = (unat h - 1) div 20 * 20"
    using b by (simp add: unat_word_ariths unat_div s)
  then show ?thesis
    using h b by (simp add: governing_checkpoint_height_def BTC_CHECKPOINT_INTERVAL_def unat_word_ariths)
qed

lemma governing_props:
  assumes "0 < unat h"
  shows "checkpoint_nat (unat (governing_checkpoint_height h))"
    "unat (governing_checkpoint_height h) \<le> unat h" "unat h < unat (governing_checkpoint_height h) + 20"
    "checkpoint_nat c \<Longrightarrow> c \<le> unat h \<Longrightarrow> c \<le> unat (governing_checkpoint_height h)"
proof -
  obtain n where n: "unat h = Suc n"
    using assms gr0_implies_Suc by blast
  have g: "unat (governing_checkpoint_height h) = n div 20 * 20 + 1"
    using governing_nat [OF assms] by (simp add: n)
  show "checkpoint_nat (unat (governing_checkpoint_height h))"
    by (simp add: g checkpoint_nat_def mod_Suc)
  show "unat (governing_checkpoint_height h) \<le> unat h"
    by (simp add: g n)
  show "unat h < unat (governing_checkpoint_height h) + 20"
    using dividend_less_div_times [of 20 n] by (simp add: g n)
  show "c \<le> unat (governing_checkpoint_height h)" if "checkpoint_nat c" "c \<le> unat h"
  proof (cases "c = 0")
    case False
    then have "c mod 20 = 1"
      using that(1) by (simp add: checkpoint_nat_def)
    then have c: "c = c div 20 * 20 + 1"
      using div_mult_mod_eq [of c 20] by simp
    then have "c div 20 * 20 \<le> n"
      using that(2) n by simp
    then have "c div 20 * 20 div 20 \<le> n div 20"
      by (rule div_le_mono)
    then show ?thesis
      using c by (simp add: g)
  qed simp
qed

section \<open>Bytes\<close>

lemma length_xor32 [simp, len_simps]: "length (xor32 a b) = 32"
  by (simp add: xor32_def)

lemma xor32_involutive: "length a = 32 \<Longrightarrow> xor32 (xor32 a b) b = a"
  by (rule nth_equalityI) (simp_all add: xor32_def xor.assoc)

lemma hex_to_32_length:
  assumes "hex_ok P" "hex_to_32 P s = Some b"
  shows "length b = 32"
proof -
  have "hex_decode P (trim s) = Some b" "length (trim s) = 64"
    using assms(2) by (simp_all add: hex_to_32_def Let_def split: if_splits)
  moreover from this(1) have "length (trim s) = 2 * length b"
    using assms(1) unfolding hex_ok_def by blast
  ultimately show ?thesis by simp
qed

section \<open>Properties\<close>

text \<open>The checkpoint that governs a height is the latest checkpoint height not after it, lies fewer
  than 20 blocks back, and is the height itself exactly at checkpoint heights.\<close>

theorem governing_checkpoint_latest:
  assumes "0 < h" and "g = governing_checkpoint_height h"
  shows "is_checkpoint_height g \<and> g \<le> h \<and> unat h < unat g + 20
    \<and> (is_checkpoint_height c \<longrightarrow> c \<le> h \<longrightarrow> c \<le> g)
    \<and> (is_checkpoint_height h \<longleftrightarrow> g = h)"
proof -
  have pos: "0 < unat h"
    using assms(1) by (simp add: word_less_nat_alt)
  note p = governing_props [OF pos, folded assms(2)]
  have "is_checkpoint_height h \<longleftrightarrow> g = h"
  proof
    assume "is_checkpoint_height h"
    then have "unat h \<le> unat g"
      by (intro p(4)) (simp_all add: is_checkpoint_nat)
    with p(2) show "g = h"
      by (simp add: word_unat_eq_iff)
  qed (use p(1) is_checkpoint_nat in blast)
  with p show ?thesis
    by (simp add: is_checkpoint_nat word_le_nat_alt)
qed

theorem governing_checkpoint_latest_witness:
  "is_checkpoint_height (governing_checkpoint_height 40) \<and> governing_checkpoint_height 40 = 21"
  using governing_checkpoint_latest [of 40 "governing_checkpoint_height 40"]
  by (simp add: governing_checkpoint_height_def BTC_CHECKPOINT_INTERVAL_def)

text \<open>A checkpoint proof is plausible exactly when its tip is not behind the previous checkpoint's
  and differs by at most the tolerance from the validator's own tip, in either direction and
  without wrapping; the seed of a proof taken from a state is the state's seed.\<close>

theorem checkpoint_plausible_iff:
  "(checkpoint_plausible c prev obs tol \<longleftrightarrow>
      unat prev \<le> unat (cp_tip_height c) \<and> unat (cp_tip_height c) \<le> unat obs + unat tol
      \<and> unat obs \<le> unat (cp_tip_height c) + unat tol)
   \<and> checkpoint_seed_hash P (checkpoint_from_state s) = btc_state_seed_hash P s"
  by (auto simp: checkpoint_plausible_def checkpoint_seed_hash_def checkpoint_from_state_def
      btc_state_seed_hash_def word_less_nat_alt word_le_nat_alt unat_abs_diff)

end
