(* ===== verification/Pow.thy ===== *)
theory Pow
  imports Block
begin

text \<open>
  \<^verbatim>\<open>core/src/pow.rs\<close>: the threads of \<^verbatim>\<open>mine_block\<close> as an interleaving of their atomic steps. The flag
  \<^verbatim>\<open>found\<close> is read and written with relaxed ordering, so a thread may go on hashing although
  another one has set it; it never stops without having seen it set. The lemmas show that,
  whatever the interleaving, when all threads have returned the winning nonce satisfies the
  difficulty, that no reachable state is stuck before that, that each thread stays on its stripe
  of nonces, and that the hash counter counts the hashes.
\<close>

section \<open>Threads\<close>

datatype pc = Check | Hashing | Won | Counting | Publishing | Advancing | Flushing | Done

record miner_thread =
  mt_pc :: pc
  mt_nonce :: u64
  mt_local :: u64

record mining =
  mn_found :: bool
  mn_winner :: "u64 option"
  mn_total :: u64
  mn_threads :: "miner_thread list"

text \<open>The part of the job that the threads share and do not change.\<close>

record mining_job =
  mj_prims :: prims
  mj_template :: l1_header
  mj_threads :: nat

definition mining_template ::
    "u64 \<Rightarrow> bytes \<Rightarrow> bytes \<Rightarrow> bytes \<Rightarrow> bytes \<Rightarrow> bytes \<Rightarrow> u32 \<Rightarrow> u64 \<Rightarrow> l1_header" where
  "mining_template height prev_hash merkle_root state_root miner_address bitcoin_seed_hash
      difficulty_bits timestamp =
     \<lparr>h_version = 1, h_height = height, h_prev_hash = prev_hash, h_merkle_root = merkle_root,
      h_state_root = state_root, h_timestamp = timestamp, h_nonce = 0, h_miner_address = miner_address,
      h_difficulty_bits = difficulty_bits, h_bitcoin_seed_hash = bitcoin_seed_hash\<rparr>"

definition nonce_wins :: "mining_job \<Rightarrow> u64 \<Rightarrow> bool" where
  "nonce_wins j nonce = meets_difficulty (header_hash (mj_prims j) ((mj_template j)\<lparr>h_nonce := nonce\<rparr>))
     (h_difficulty_bits (mj_template j))"

definition mining_start :: "mining_job \<Rightarrow> mining" where
  "mining_start j =
     \<lparr>mn_found = False, mn_winner = None, mn_total = 0,
      mn_threads = map (\<lambda>tid. \<lparr>mt_pc = Check, mt_nonce = word_of_nat tid, mt_local = 0\<rparr>) [0..<mj_threads j]\<rparr>"

definition set_thread :: "nat \<Rightarrow> miner_thread \<Rightarrow> mining \<Rightarrow> mining" where
  "set_thread i t s = s\<lparr>mn_threads := (mn_threads s)[i := t]\<rparr>"

text \<open>One atomic step of some thread \<open>i\<close>; the label says whether it computed a hash. A thread that
  returns drops its local counter, which it has added to the shared one before.\<close>

inductive mine_step :: "mining_job \<Rightarrow> bool \<Rightarrow> mining \<Rightarrow> mining \<Rightarrow> bool" for j where
  abort: "i < length (mn_threads s) \<Longrightarrow> t = mn_threads s ! i \<Longrightarrow> mt_pc t = Check \<Longrightarrow> mn_found s \<Longrightarrow>
    mine_step j False s
      (set_thread i (t\<lparr>mt_pc := Done, mt_local := 0\<rparr>) (s\<lparr>mn_total := mn_total s + mt_local t\<rparr>))"
| check: "i < length (mn_threads s) \<Longrightarrow> t = mn_threads s ! i \<Longrightarrow> mt_pc t = Check \<Longrightarrow>
    mine_step j False s (set_thread i (t\<lparr>mt_pc := Hashing\<rparr>) s)"
| hash: "i < length (mn_threads s) \<Longrightarrow> t = mn_threads s ! i \<Longrightarrow> mt_pc t = Hashing \<Longrightarrow>
    mine_step j True s (set_thread i (t\<lparr>mt_pc := (if nonce_wins j (mt_nonce t) then Won else Advancing),
      mt_local := mt_local t + 1\<rparr>) s)"
| won: "i < length (mn_threads s) \<Longrightarrow> t = mn_threads s ! i \<Longrightarrow> mt_pc t = Won \<Longrightarrow>
    mine_step j False s (set_thread i (t\<lparr>mt_pc := Counting\<rparr>) (s\<lparr>mn_found := True\<rparr>))"
| count: "i < length (mn_threads s) \<Longrightarrow> t = mn_threads s ! i \<Longrightarrow> mt_pc t = Counting \<Longrightarrow>
    mine_step j False s
      (set_thread i (t\<lparr>mt_pc := Publishing, mt_local := 0\<rparr>) (s\<lparr>mn_total := mn_total s + mt_local t\<rparr>))"
| publish: "i < length (mn_threads s) \<Longrightarrow> t = mn_threads s ! i \<Longrightarrow> mt_pc t = Publishing \<Longrightarrow>
    mine_step j False s (set_thread i (t\<lparr>mt_pc := Done\<rparr>) (s\<lparr>mn_winner := Some (mt_nonce t)\<rparr>))"
| advance: "i < length (mn_threads s) \<Longrightarrow> t = mn_threads s ! i \<Longrightarrow> mt_pc t = Advancing \<Longrightarrow>
    mine_step j False s
      (set_thread i (t\<lparr>mt_pc := Flushing, mt_nonce := mt_nonce t + word_of_nat (mj_threads j)\<rparr>) s)"
| flush: "i < length (mn_threads s) \<Longrightarrow> t = mn_threads s ! i \<Longrightarrow> mt_pc t = Flushing \<Longrightarrow>
    mt_local t mod 500000 = 0 \<Longrightarrow>
    mine_step j False s
      (set_thread i (t\<lparr>mt_pc := Check, mt_local := 0\<rparr>) (s\<lparr>mn_total := mn_total s + mt_local t\<rparr>))"
| keep: "i < length (mn_threads s) \<Longrightarrow> t = mn_threads s ! i \<Longrightarrow> mt_pc t = Flushing \<Longrightarrow>
    mt_local t mod 500000 \<noteq> 0 \<Longrightarrow>
    mine_step j False s (set_thread i (t\<lparr>mt_pc := Check\<rparr>) s)"

inductive_cases mine_stepE: "mine_step j l s s'"

text \<open>The states of a run, with the number of hashes computed so far.\<close>

inductive mine_reachable :: "mining_job \<Rightarrow> nat \<Rightarrow> mining \<Rightarrow> bool" for j where
  start: "mine_reachable j 0 (mining_start j)"
| step: "mine_reachable j k s \<Longrightarrow> mine_step j hashed s s' \<Longrightarrow>
    mine_reachable j (if hashed then Suc k else k) s'"

definition all_joined :: "mining \<Rightarrow> bool" where
  "all_joined s \<longleftrightarrow> (\<forall>t \<in> set (mn_threads s). mt_pc t = Done)"

text \<open>What \<^verbatim>\<open>mine_block\<close> returns after joining its threads.\<close>

definition mined_header :: "mining_job \<Rightarrow> mining \<Rightarrow> l1_header" where
  "mined_header j s =
     (mj_template j)\<lparr>h_nonce := (case mn_winner s of None \<Rightarrow> 0 | Some n \<Rightarrow> n)\<rparr>"

section \<open>The invariant\<close>

definition thread_wins :: "mining_job \<Rightarrow> miner_thread \<Rightarrow> bool" where
  "thread_wins j t \<longleftrightarrow> (mt_pc t \<in> {Won, Counting, Publishing} \<longrightarrow> nonce_wins j (mt_nonce t))"

definition winner_inv :: "mining_job \<Rightarrow> mining \<Rightarrow> bool" where
  "winner_inv j s \<longleftrightarrow> (\<forall>n. mn_winner s = Some n \<longrightarrow> nonce_wins j n)
     \<and> (\<forall>t \<in> set (mn_threads s). thread_wins j t)"

definition announcing :: "miner_thread \<Rightarrow> bool" where
  "announcing t \<longleftrightarrow> mt_pc t = Counting \<or> mt_pc t = Publishing"

definition has_seen :: "bool \<Rightarrow> miner_thread \<Rightarrow> bool" where
  "has_seen found t \<longleftrightarrow> (mt_pc t \<in> {Counting, Publishing, Done} \<longrightarrow> found)"

definition found_inv :: "mining \<Rightarrow> bool" where
  "found_inv s \<longleftrightarrow>
     (mn_found s \<longrightarrow> mn_winner s \<noteq> None \<or> (\<exists>t \<in> set (mn_threads s). announcing t))
     \<and> (\<forall>t \<in> set (mn_threads s). has_seen (mn_found s) t)"

definition hashes :: "mining \<Rightarrow> u64" where
  "hashes s = mn_total s + sum_list (map mt_local (mn_threads s))"

definition on_stripe :: "mining_job \<Rightarrow> nat \<Rightarrow> u64 \<Rightarrow> bool" where
  "on_stripe j tid nonce \<longleftrightarrow> (\<exists>k. nonce = word_of_nat (tid + k * mj_threads j))"

definition stripe_inv :: "mining_job \<Rightarrow> mining \<Rightarrow> bool" where
  "stripe_inv j s \<longleftrightarrow> length (mn_threads s) = mj_threads j
     \<and> (\<forall>i < mj_threads j. on_stripe j i (mt_nonce (mn_threads s ! i)))"

lemma set_thread_sel [simp]:
  "mn_found (set_thread i t s) = mn_found s" "mn_winner (set_thread i t s) = mn_winner s"
  "mn_total (set_thread i t s) = mn_total s" "mn_threads (set_thread i t s) = (mn_threads s)[i := t]"
  by (simp_all add: set_thread_def)

lemma ball_list_update:
  "\<forall>x \<in> set xs. P x \<Longrightarrow> P t \<Longrightarrow> \<forall>x \<in> set (xs[i := t]). P x"
  using set_update_subset_insert [of xs i t] by auto

lemma bex_list_update:
  "\<exists>x \<in> set xs. P x \<Longrightarrow> i < length xs \<Longrightarrow> P (xs ! i) \<longrightarrow> P t \<Longrightarrow> \<exists>x \<in> set (xs[i := t]). P x"
  by (metis in_set_conv_nth length_list_update nth_list_update_eq nth_list_update_neq)

lemma bex_list_update_new: "i < length xs \<Longrightarrow> P t \<Longrightarrow> \<exists>x \<in> set (xs[i := t]). P x"
  using set_update_memI by fast

lemma sum_list_update_word:
  "i < length xs \<Longrightarrow> sum_list (map f (xs[i := t])) = sum_list (map f xs) - f (xs ! i) + (f t :: u64)"
  by (induction xs arbitrary: i) (auto split: nat.splits)

lemma winner_inv_set:
  assumes "winner_inv j s" "mn_threads s' = mn_threads s" "thread_wins j t"
    and "mn_winner s' = mn_winner s \<or> (\<exists>n. mn_winner s' = Some n \<and> nonce_wins j n)"
  shows "winner_inv j (set_thread i t s')"
  using assms ball_list_update [of "mn_threads s" "thread_wins j" t i] by (auto simp: winner_inv_def)

lemma winner_inv_step:
  assumes "mine_step j l s s'" "winner_inv j s"
  shows "winner_inv j s'"
  using assms(1)
proof cases
  case (publish i t)
  then have "thread_wins j t"
    using assms(2) by (simp add: winner_inv_def)
  with publish assms(2) show ?thesis
    by (auto simp: thread_wins_def intro!: winner_inv_set [OF assms(2)])
next
  case (won i t)
  then have "thread_wins j t"
    using assms(2) by (simp add: winner_inv_def)
  with won assms(2) show ?thesis
    by (auto simp: thread_wins_def intro!: winner_inv_set [OF assms(2)])
next
  case (count i t)
  then have "thread_wins j t"
    using assms(2) by (simp add: winner_inv_def)
  with count assms(2) show ?thesis
    by (auto simp: thread_wins_def intro!: winner_inv_set [OF assms(2)])
qed (auto simp: thread_wins_def intro!: winner_inv_set [OF assms(2)])

lemma found_inv_set:
  assumes "found_inv s" "mn_threads s' = mn_threads s" "mn_found s \<longrightarrow> mn_found s'" "i < length (mn_threads s)"
    and "has_seen (mn_found s') t"
    and "mn_found s' \<longrightarrow> mn_winner s' \<noteq> None \<or> announcing t \<or>
      mn_found s \<and> mn_winner s' = mn_winner s \<and> (announcing (mn_threads s ! i) \<longrightarrow> announcing t)"
  shows "found_inv (set_thread i t s')"
proof -
  have "\<forall>x \<in> set (mn_threads s). has_seen (mn_found s') x"
    using assms(1,3) by (auto simp: found_inv_def has_seen_def)
  then have "\<forall>x \<in> set ((mn_threads s)[i := t]). has_seen (mn_found s') x"
    using assms(5) by (rule ball_list_update)
  moreover have "\<exists>x \<in> set ((mn_threads s)[i := t]). announcing x" if "mn_found s'" "mn_winner s' = None"
    using that assms(1,4,6) bex_list_update [of "mn_threads s" announcing i t]
      bex_list_update_new [of i "mn_threads s" announcing t]
    by (auto simp: found_inv_def)
  ultimately show ?thesis
    using assms(2) by (auto simp: found_inv_def)
qed

lemma found_inv_step:
  assumes "mine_step j l s s'" "found_inv s"
  shows "found_inv s'"
proof -
  have seen: "i < length (mn_threads s) \<Longrightarrow> has_seen (mn_found s) (mn_threads s ! i)" for i
    using assms(2) by (simp add: found_inv_def)
  show ?thesis
    using assms(1)
  proof cases
    case (count i t)
    with seen [of i] show ?thesis
      by (auto simp: has_seen_def announcing_def intro!: found_inv_set [OF assms(2)])
  next
    case (publish i t)
    with seen [of i] show ?thesis
      by (auto simp: has_seen_def announcing_def intro!: found_inv_set [OF assms(2)])
  qed (auto simp: has_seen_def announcing_def intro!: found_inv_set [OF assms(2)])
qed

lemma hashes_step: "mine_step j l s s' \<Longrightarrow> hashes s' = hashes s + (if l then 1 else 0)"
  by (induction rule: mine_step.induct) (simp_all add: hashes_def sum_list_update_word)

lemma stripe_inv_set:
  assumes "stripe_inv j s" "mn_threads s' = mn_threads s"
    and "i < length (mn_threads s) \<longrightarrow> on_stripe j i (mt_nonce t)"
  shows "stripe_inv j (set_thread i t s')"
  using assms by (auto simp: stripe_inv_def) (metis nth_list_update_eq nth_list_update_neq)

lemma on_stripe_next: "on_stripe j i n \<Longrightarrow> on_stripe j i (n + word_of_nat (mj_threads j))"
proof -
  assume "on_stripe j i n"
  then obtain k where "n = word_of_nat (i + k * mj_threads j)"
    by (auto simp: on_stripe_def)
  then have "n + word_of_nat (mj_threads j) = word_of_nat (i + Suc k * mj_threads j)"
    by simp
  then show ?thesis
    unfolding on_stripe_def by blast
qed

lemma stripe_inv_step:
  assumes "mine_step j l s s'" "stripe_inv j s"
  shows "stripe_inv j s'"
proof -
  have on: "i < length (mn_threads s) \<Longrightarrow> on_stripe j i (mt_nonce (mn_threads s ! i))" for i
    using assms(2) by (simp add: stripe_inv_def)
  show ?thesis
    using assms(1) by cases (auto intro!: stripe_inv_set [OF assms(2)] on_stripe_next on)
qed

lemma mining_start_invs:
  "winner_inv j (mining_start j)" "found_inv (mining_start j)" "stripe_inv j (mining_start j)"
  "hashes (mining_start j) = 0"
proof -
  show "stripe_inv j (mining_start j)"
    by (auto simp: stripe_inv_def mining_start_def on_stripe_def intro!: exI [of _ 0])
  have "sum_list (map mt_local (mn_threads (mining_start j))) = 0"
    by (simp add: mining_start_def comp_def sum_list_triv)
  then show "hashes (mining_start j) = 0"
    by (simp add: hashes_def) (simp add: mining_start_def)
qed (auto simp: winner_inv_def found_inv_def mining_start_def thread_wins_def has_seen_def)

lemma mine_reachable_invs:
  assumes "mine_reachable j k s"
  shows "winner_inv j s" "found_inv s" "stripe_inv j s" "hashes s = word_of_nat k"
  using assms
  by (induction rule: mine_reachable.induct)
    (simp_all add: mining_start_invs winner_inv_step found_inv_step stripe_inv_step hashes_step split: if_splits)

section \<open>Progress\<close>

lemma mine_progress:
  assumes "\<not> all_joined s"
  shows "\<exists>l s'. mine_step j l s s'"
proof -
  obtain i where i: "i < length (mn_threads s)" "mt_pc (mn_threads s ! i) \<noteq> Done"
    using assms by (auto simp: all_joined_def in_set_conv_nth)
  then show ?thesis
  proof (cases "mt_pc (mn_threads s ! i)")
    case Flushing
    with i(1) show ?thesis
      by (cases "mt_local (mn_threads s ! i) mod 500000 = 0") (blast intro: mine_step.intros)+
  qed (use i in \<open>blast intro: mine_step.intros\<close>)+
qed

lemma winner_on_stripe:
  assumes "mine_reachable j k s" "mn_winner s = Some n"
  shows "\<exists>i < mj_threads j. on_stripe j i n"
  using assms
proof (induction arbitrary: n rule: mine_reachable.induct)
  case (step k s hashed s')
  have "stripe_inv j s"
    using step.hyps(1) by (rule mine_reachable_invs)
  with step.hyps(2) step.IH step.prems show ?case
    by cases (auto simp: stripe_inv_def split: if_splits)
qed (simp add: mining_start_def)

lemma all_joined_winner:
  assumes "mine_reachable j k s" "all_joined s" "0 < mj_threads j"
  shows "\<exists>n. mn_winner s = Some n"
proof -
  note inv = mine_reachable_invs [OF assms(1)]
  have "mn_threads s \<noteq> []"
    using inv(3) assms(3) by (auto simp: stripe_inv_def)
  then obtain t where t: "t \<in> set (mn_threads s)" "mt_pc t = Done"
    using assms(2) by (cases "mn_threads s") (auto simp: all_joined_def)
  then have "mn_found s"
    using inv(2) by (auto simp: found_inv_def has_seen_def)
  moreover have "\<not> announcing x" if "x \<in> set (mn_threads s)" for x
    using assms(2) that by (auto simp: all_joined_def announcing_def)
  ultimately show ?thesis
    using inv(2) by (auto simp: found_inv_def)
qed

section \<open>Properties\<close>

text \<open>C11: Whatever the interleaving of the mining threads and however late they see the stop flag, once
  all of at least one thread have returned, the header \<^verbatim>\<open>mine_block\<close> returns meets the difficulty, its
  nonce lies on the stripe of one of the threads, and the reported number of hashes is the number
  computed (modulo 2^64).\<close>

theorem mined_header_meets_difficulty:
  assumes "mine_reachable j k s" "all_joined s" "0 < mj_threads j"
  shows "meets_difficulty (header_hash (mj_prims j) (mined_header j s)) (h_difficulty_bits (mj_template j))
    \<and> (\<exists>i < mj_threads j. on_stripe j i (h_nonce (mined_header j s)))
    \<and> mn_total s + sum_list (map mt_local (mn_threads s)) = word_of_nat k"
proof -
  obtain n where n: "mn_winner s = Some n"
    using all_joined_winner [OF assms] by blast
  then have "nonce_wins j n"
    using mine_reachable_invs(1) [OF assms(1)] by (simp add: winner_inv_def)
  then show ?thesis
    using winner_on_stripe [OF assms(1) n] mine_reachable_invs(4) [OF assms(1)]
    by (simp add: nonce_wins_def mined_header_def n hashes_def)
qed

definition sample_job :: "nat \<Rightarrow> mining_job" where
  "sample_job n = \<lparr>mj_prims = sample_prims, mj_template = genesis_header sample_prims, mj_threads = n\<rparr>"

text \<open>A run of one thread on a job of difficulty 0.\<close>

definition sample_mined :: "pc \<Rightarrow> u64 \<Rightarrow> bool \<Rightarrow> u64 option \<Rightarrow> u64 \<Rightarrow> mining" where
  "sample_mined c loc found w tot = \<lparr>mn_found = found, mn_winner = w, mn_total = tot,
     mn_threads = [\<lparr>mt_pc = c, mt_nonce = 0, mt_local = loc\<rparr>]\<rparr>"

lemma sample_job_wins: "nonce_wins (sample_job n) x"
  by (simp add: nonce_wins_def sample_job_def genesis_header_def)

lemma easy_run:
  assumes "nonce_wins j 0" "mj_threads j = 1"
  shows "mine_reachable j 1 (sample_mined Done 0 True (Some 0) 1)"
proof -
  let ?j = j
  have "mining_start ?j = sample_mined Check 0 False None 0"
    using assms(2) by (simp add: mining_start_def sample_mined_def)
  then have 0: "mine_reachable ?j 0 (sample_mined Check 0 False None 0)"
    using mine_reachable.start [of ?j] by simp
  have 1: "mine_step ?j False (sample_mined Check 0 False None 0) (sample_mined Hashing 0 False None 0)"
    using mine_step.check [of 0 "sample_mined Check 0 False None 0" _ ?j] by (simp add: sample_mined_def set_thread_def)
  have 2: "mine_step ?j True (sample_mined Hashing 0 False None 0) (sample_mined Won 1 False None 0)"
    using mine_step.hash [of 0 "sample_mined Hashing 0 False None 0" _ ?j] assms(1)
    by (simp add: sample_mined_def set_thread_def)
  have 3: "mine_step ?j False (sample_mined Won 1 False None 0) (sample_mined Counting 1 True None 0)"
    using mine_step.won [of 0 "sample_mined Won 1 False None 0" _ ?j] by (simp add: sample_mined_def set_thread_def)
  have 4: "mine_step ?j False (sample_mined Counting 1 True None 0) (sample_mined Publishing 0 True None 1)"
    using mine_step.count [of 0 "sample_mined Counting 1 True None 0" _ ?j] by (simp add: sample_mined_def set_thread_def)
  have 5: "mine_step ?j False (sample_mined Publishing 0 True None 1) (sample_mined Done 0 True (Some 0) 1)"
    using mine_step.publish [of 0 "sample_mined Publishing 0 True None 1" _ ?j] by (simp add: sample_mined_def set_thread_def)
  note run = mine_reachable.step [OF mine_reachable.step [OF mine_reachable.step [OF
        mine_reachable.step [OF mine_reachable.step [OF 0 1] 2] 3] 4] 5]
  then show ?thesis by simp
qed

lemma sample_run: "mine_reachable (sample_job 1) 1 (sample_mined Done 0 True (Some 0) 1)"
  by (rule easy_run) (simp_all add: sample_job_wins, simp add: sample_job_def)

theorem mined_header_meets_difficulty_witness:
  "meets_difficulty (header_hash sample_prims (mined_header (sample_job 1) (sample_mined Done 0 True (Some 0) 1)))
     (h_difficulty_bits (genesis_header sample_prims))"
  using mined_header_meets_difficulty [OF sample_run]
  by (simp add: all_joined_def sample_mined_def sample_job_def)

text \<open>Mining cannot get stuck: as long as some thread has not returned, some thread can take its
  next step; and with no threads at all the call returns at once, with the nonce 0 that no thread
  has checked.\<close>

theorem mining_progress:
  "(\<not> all_joined s \<longrightarrow> (\<exists>l s'. mine_step j l s s'))
   \<and> (mj_threads j = 0 \<longrightarrow> all_joined (mining_start j)
        \<and> mined_header j (mining_start j) = (mj_template j)\<lparr>h_nonce := 0\<rparr>)"
  using mine_progress [of s j] by (auto simp: all_joined_def mining_start_def mined_header_def)

theorem mining_progress_witness:
  "\<exists>l s'. mine_step (sample_job 2) l (mining_start (sample_job 2)) s'"
proof -
  have "\<not> all_joined (mining_start (sample_job 2))"
    by (auto simp: all_joined_def mining_start_def sample_job_def intro!: exI [of _ 0])
  then show ?thesis
    using mining_progress by blast
qed

end
