(* ===== verification/Envelope.thy ===== *)
theory Envelope
  imports Claims Btc_Entropy
begin

text \<open>
  \<^verbatim>\<open>node/src/envelope.rs\<close>: the messages of the gossip network. The clock is an argument. An envelope
  repeats some derived fields of the claim it carries, which \<^verbatim>\<open>verify\<close> compares; its \<^verbatim>\<open>message_id\<close> is
  a hash of the claim, but neither covers the transactions nor is it compared by \<^verbatim>\<open>verify\<close>.
\<close>

record derived_fields =
  df_header_hash :: string
  df_claim_digest :: string
  df_work_bits :: u32
  df_election_score :: string

record claim_envelope =
  ev_network :: string
  ev_message_id :: string
  ev_sent_at_unix :: u64
  ev_ttl :: u8
  ev_claim :: signed_claim
  ev_btc_checkpoint :: "btc_checkpoint_proof option"
  ev_transactions :: "signed_transaction list"
  ev_derived :: derived_fields

record hello_envelope =
  hl_network :: string
  hl_version :: u32
  hl_best_height :: u64
  hl_best_hash :: string
  hl_listen_addr :: string

datatype bina_message =
    BlockClaim claim_envelope
  | PeerHello hello_envelope
  | PeerListMsg "string list"
  | Ping u64 u64

datatype envelope_error =
    EnvelopeClaim claim_error
  | EnvelopeDerived
  | EnvelopeMerkle

definition claim_election_score_hex :: "prims \<Rightarrow> signed_claim \<Rightarrow> string" where
  "claim_election_score_hex P c = hex_encode P (claim_election_score P c)"

definition derived_from_claim :: "prims \<Rightarrow> signed_claim \<Rightarrow> derived_fields" where
  "derived_from_claim P claim =
     \<lparr>df_header_hash = claim_block_hash_hex P claim, df_claim_digest = claim_digest_hex P claim,
      df_work_bits = word_of_nat (claim_work_bits P claim),
      df_election_score = claim_election_score_hex P claim\<rparr>"

definition MSG_TAG :: bytes where
  "MSG_TAG = as_bytes ''BINA-P2P-MSG-v1''"

definition message_id :: "prims \<Rightarrow> string \<Rightarrow> u64 \<Rightarrow> signed_claim \<Rightarrow> derived_fields
    \<Rightarrow> btc_checkpoint_proof option \<Rightarrow> string" where
  "message_id P network sent_at_unix claim derived btc_checkpoint =
     hex_encode P (blake3 P (MSG_TAG @ as_bytes network @ le_bytes 8 sent_at_unix
       @ as_bytes (df_header_hash derived) @ as_bytes (df_claim_digest derived)
       @ as_bytes (df_election_score derived) @ sc_signature claim
       @ (case btc_checkpoint of None \<Rightarrow> [] | Some proof \<Rightarrow> checkpoint_seed_hash P proof)))"

definition envelope_from_claim :: "prims \<Rightarrow> u64 \<Rightarrow> string \<Rightarrow> u8 \<Rightarrow> signed_claim
    \<Rightarrow> btc_checkpoint_proof option \<Rightarrow> signed_transaction list \<Rightarrow> claim_envelope" where
  "envelope_from_claim P now network ttl claim btc_checkpoint transactions =
     (let derived = derived_from_claim P claim in
      \<lparr>ev_network = network, ev_message_id = message_id P network now claim derived btc_checkpoint,
       ev_sent_at_unix = now, ev_ttl = ttl, ev_claim = claim, ev_btc_checkpoint = btc_checkpoint,
       ev_transactions = transactions, ev_derived = derived\<rparr>)"

definition envelope_verify :: "prims \<Rightarrow> claim_envelope \<Rightarrow> envelope_error + unit" where
  "envelope_verify P e =
     res_bind (map_err EnvelopeClaim (claim_verify P (ev_claim e))) (\<lambda>_.
       let expected = derived_from_claim P (ev_claim e) in
       if ev_derived e \<noteq> expected then Inl EnvelopeDerived
       else if merkle_root P (ev_transactions e) \<noteq> h_merkle_root (sc_header (ev_claim e))
       then Inl EnvelopeMerkle
       else Inr ())"

lemma envelope_verify_iff:
  "envelope_verify P e = Inr () \<longleftrightarrow>
     claim_verify P (ev_claim e) = Inr () \<and> ev_derived e = derived_from_claim P (ev_claim e)
     \<and> merkle_root P (ev_transactions e) = h_merkle_root (sc_header (ev_claim e))"
  by (auto simp: envelope_verify_def res_bind_Inr_iff Let_def)

lemma envelope_from_claim_sel [simp]:
  "ev_network (envelope_from_claim P now n t c b txs) = n"
  "ev_ttl (envelope_from_claim P now n t c b txs) = t"
  "ev_claim (envelope_from_claim P now n t c b txs) = c"
  "ev_sent_at_unix (envelope_from_claim P now n t c b txs) = now"
  "ev_transactions (envelope_from_claim P now n t c b txs) = txs"
  "ev_btc_checkpoint (envelope_from_claim P now n t c b txs) = b"
  "ev_derived (envelope_from_claim P now n t c b txs) = derived_from_claim P c"
  "ev_message_id (envelope_from_claim P now n t c b txs) = message_id P n now c (derived_from_claim P c) b"
  by (simp_all add: envelope_from_claim_def Let_def)

text \<open>What the node wraps itself, it accepts.\<close>

lemma envelope_from_claim_verifies:
  "claim_verify P c = Inr () \<Longrightarrow> merkle_root P txs = h_merkle_root (sc_header c) \<Longrightarrow>
    envelope_verify P (envelope_from_claim P now n t c b txs) = Inr ()"
  by (simp add: envelope_verify_iff)

section \<open>A sample\<close>

definition sample_miner :: wallet_keypair where
  "sample_miner = keypair_generate sample_prims (zeros 32) 0"

definition mined_by_sample :: "l1_header \<Rightarrow> signed_claim" where
  "mined_by_sample h =
     claim_sign sample_prims 0 (h\<lparr>h_miner_address := keypair_address sample_prims sample_miner\<rparr>) sample_miner"

lemma mined_by_sample_header [simp]:
  "sc_header (mined_by_sample h) = h\<lparr>h_miner_address := keypair_address sample_prims sample_miner\<rparr>"
  by (simp add: mined_by_sample_def claim_sign_def Let_def)

lemma mined_by_sample_verifies:
  "h_difficulty_bits h = 0 \<Longrightarrow> claim_verify sample_prims (mined_by_sample h) = Inr ()"
  unfolding mined_by_sample_def sample_miner_def
  by (rule claim_sign_verifies [OF sample_sig_ok]) (simp_all add: keypair_address_def meets_difficulty_def)

definition sample_envelope :: claim_envelope where
  "sample_envelope = envelope_from_claim sample_prims 100 ''bina-l1'' 8
     (mined_by_sample (genesis_header sample_prims)) None []"

lemma sample_envelope_verifies: "envelope_verify sample_prims sample_envelope = Inr ()"
  unfolding sample_envelope_def
  by (rule envelope_from_claim_verifies) (simp_all add: mined_by_sample_verifies genesis_header_def merkle_root_def)

end
