(* ===== verification/Peers.thy ===== *)
theory Peers
  imports Bina_Prelude
begin

text \<open>
  \<^verbatim>\<open>node/src/peers.rs\<close>: the list of known peers and the policy on the addresses it admits. An address
  is that of \<^verbatim>\<open>std::net\<close>; the classes of addresses are the ranges the standard library documents. A
  \<^verbatim>\<open>HashSet\<close> is a list without repetition whose order is the unspecified iteration order. Drawing a
  random sample is a function argument.
\<close>

section \<open>Addresses\<close>

datatype ip_addr = IpV4 u32 | IpV6 u128

datatype socket_addr =
    SocketV4 u32 u16
  | SocketV6 u128 u16 u32 u32

fun sock_port :: "socket_addr \<Rightarrow> u16" where
  "sock_port (SocketV4 ip port) = port"
| "sock_port (SocketV6 ip port flowinfo scope_id) = port"

fun sock_ip :: "socket_addr \<Rightarrow> ip_addr" where
  "sock_ip (SocketV4 ip port) = IpV4 ip"
| "sock_ip (SocketV6 ip port flowinfo scope_id) = IpV6 ip"

definition ipv4 :: "nat \<Rightarrow> nat \<Rightarrow> nat \<Rightarrow> nat \<Rightarrow> u32" where
  "ipv4 a b c d = word_of_nat (((a * 256 + b) * 256 + c) * 256 + d)"

definition octet1 :: "u32 \<Rightarrow> nat" where "octet1 ip = unat ip div 2 ^ 24"
definition octet2 :: "u32 \<Rightarrow> nat" where "octet2 ip = unat ip div 2 ^ 16 mod 256"

definition v4_unspecified :: "u32 \<Rightarrow> bool" where "v4_unspecified ip = (ip = 0)"
definition v4_broadcast :: "u32 \<Rightarrow> bool" where "v4_broadcast ip = (ip = - 1)"
definition v4_multicast :: "u32 \<Rightarrow> bool" where "v4_multicast ip = (224 \<le> octet1 ip \<and> octet1 ip \<le> 239)"
definition v4_loopback :: "u32 \<Rightarrow> bool" where "v4_loopback ip = (octet1 ip = 127)"
definition v4_link_local :: "u32 \<Rightarrow> bool" where "v4_link_local ip = (octet1 ip = 169 \<and> octet2 ip = 254)"

definition v4_private :: "u32 \<Rightarrow> bool" where
  "v4_private ip = (octet1 ip = 10 \<or> octet1 ip = 172 \<and> 16 \<le> octet2 ip \<and> octet2 ip \<le> 31
     \<or> octet1 ip = 192 \<and> octet2 ip = 168)"

definition v6_unspecified :: "u128 \<Rightarrow> bool" where "v6_unspecified ip = (ip = 0)"
definition v6_loopback :: "u128 \<Rightarrow> bool" where "v6_loopback ip = (ip = 1)"
definition v6_multicast :: "u128 \<Rightarrow> bool" where "v6_multicast ip = (unat ip div 2 ^ 120 = 255)"

section \<open>The peer list\<close>

record peer_list =
  pl_peers :: "socket_addr list"
  pl_max_peers :: nat
  pl_allow_loopback :: bool
  pl_allow_private :: bool

text \<open>\<^verbatim>\<open>cfg!(debug_assertions)\<close> is a constant of the build, given as an argument.\<close>

definition peers_new :: "bool \<Rightarrow> nat \<Rightarrow> peer_list" where
  "peers_new debug_assertions max_peers =
     \<lparr>pl_peers = [], pl_max_peers = max_peers, pl_allow_loopback = debug_assertions,
      pl_allow_private = debug_assertions\<rparr>"

definition peers_with_policy :: "nat \<Rightarrow> bool \<Rightarrow> bool \<Rightarrow> peer_list" where
  "peers_with_policy max_peers allow_loopback allow_private =
     \<lparr>pl_peers = [], pl_max_peers = max_peers, pl_allow_loopback = allow_loopback,
      pl_allow_private = allow_private\<rparr>"

definition is_private_v4 :: "u32 \<Rightarrow> bool" where
  "is_private_v4 ip = (v4_private ip \<or> v4_link_local ip)"

definition is_allowed_addr :: "peer_list \<Rightarrow> socket_addr \<Rightarrow> bool" where
  "is_allowed_addr pl addr =
     (if sock_port addr = 0 then False
      else case sock_ip addr of
        IpV4 ip \<Rightarrow>
          (if v4_unspecified ip \<or> v4_broadcast ip \<or> v4_multicast ip then False
           else if v4_loopback ip \<and> \<not> pl_allow_loopback pl then False
           else if is_private_v4 ip \<and> \<not> pl_allow_private pl then False
           else True)
      | IpV6 ip \<Rightarrow>
          (if v6_unspecified ip \<or> v6_multicast ip then False
           else if v6_loopback ip \<and> \<not> pl_allow_loopback pl then False
           else True))"

definition peers_contains :: "peer_list \<Rightarrow> socket_addr \<Rightarrow> bool" where
  "peers_contains pl addr = (addr \<in> set (pl_peers pl))"

definition peers_add :: "socket_addr \<Rightarrow> peer_list \<Rightarrow> bool \<times> peer_list" where
  "peers_add addr pl =
     (if \<not> is_allowed_addr pl addr then (False, pl)
      else if length (pl_peers pl) \<ge> pl_max_peers pl \<and> \<not> peers_contains pl addr then (False, pl)
      else if peers_contains pl addr then (False, pl)
      else (True, pl\<lparr>pl_peers := addr # pl_peers pl\<rparr>))"

definition peers_remove :: "socket_addr \<Rightarrow> peer_list \<Rightarrow> bool \<times> peer_list" where
  "peers_remove addr pl =
     (peers_contains pl addr, pl\<lparr>pl_peers := remove1 addr (pl_peers pl)\<rparr>)"

definition peers_all :: "peer_list \<Rightarrow> socket_addr list" where
  "peers_all pl = pl_peers pl"

definition peers_sample :: "(nat \<Rightarrow> socket_addr list \<Rightarrow> socket_addr list) \<Rightarrow> nat \<Rightarrow> peer_list \<Rightarrow> socket_addr list" where
  "peers_sample choose_multiple n pl = choose_multiple n (pl_peers pl)"

definition peers_count :: "peer_list \<Rightarrow> nat" where
  "peers_count pl = length (pl_peers pl)"

text \<open>Adding a list of addresses, as the handlers do with the addresses a peer sends.\<close>

definition peers_add_all :: "socket_addr list \<Rightarrow> peer_list \<Rightarrow> peer_list" where
  "peers_add_all addrs pl = fold (\<lambda>a p. snd (peers_add a p)) addrs pl"

section \<open>The invariant of the list\<close>

definition same_policy :: "peer_list \<Rightarrow> peer_list \<Rightarrow> bool" where
  "same_policy a b \<longleftrightarrow> pl_max_peers a = pl_max_peers b \<and> pl_allow_loopback a = pl_allow_loopback b
     \<and> pl_allow_private a = pl_allow_private b"

definition peers_ok :: "peer_list \<Rightarrow> bool" where
  "peers_ok pl \<longleftrightarrow> distinct (pl_peers pl) \<and> length (pl_peers pl) \<le> pl_max_peers pl
     \<and> (\<forall>a \<in> set (pl_peers pl). is_allowed_addr pl a)"

lemma is_allowed_policy: "same_policy a b \<Longrightarrow> is_allowed_addr a addr = is_allowed_addr b addr"
  by (simp add: is_allowed_addr_def same_policy_def split: ip_addr.splits)

lemma same_policy_add [simp]: "same_policy (snd (peers_add a pl)) pl"
  by (simp add: peers_add_def same_policy_def)

lemma same_policy_remove [simp]: "same_policy (snd (peers_remove a pl)) pl"
  by (simp add: peers_remove_def same_policy_def)

lemma same_policy_trans: "same_policy a b \<Longrightarrow> same_policy b c \<Longrightarrow> same_policy a c"
  by (simp add: same_policy_def)

lemma same_policy_add_all: "same_policy (peers_add_all as pl) pl"
  unfolding peers_add_all_def
proof (induction as arbitrary: pl)
  case Nil
  show ?case by (simp add: same_policy_def)
next
  case (Cons a as)
  show ?case using same_policy_trans [OF Cons same_policy_add] by simp
qed

lemma peers_set_add:
  "set (pl_peers (snd (peers_add a pl)))
    = (if fst (peers_add a pl) then insert a (set (pl_peers pl)) else set (pl_peers pl))"
  by (simp add: peers_add_def)

lemma peers_ok_new [simp]: "peers_ok (peers_new d n)" "peers_ok (peers_with_policy n l p)"
  by (simp_all add: peers_ok_def peers_new_def peers_with_policy_def)

lemma peers_ok_add: "peers_ok pl \<Longrightarrow> peers_ok (snd (peers_add a pl))"
  using is_allowed_policy [OF same_policy_add, of a pl]
  by (auto simp: peers_ok_def peers_add_def peers_contains_def)

lemma peers_ok_remove: "peers_ok pl \<Longrightarrow> peers_ok (snd (peers_remove a pl))"
proof -
  assume ok: "peers_ok pl"
  let ?pl = "snd (peers_remove a pl)"
  have "length (pl_peers ?pl) \<le> length (pl_peers pl)" "set (pl_peers ?pl) \<subseteq> set (pl_peers pl)"
    by (simp_all add: peers_remove_def length_remove1 set_remove1_subset)
  moreover have "distinct (pl_peers ?pl)" "pl_max_peers ?pl = pl_max_peers pl"
    using ok by (simp_all add: peers_remove_def peers_ok_def)
  ultimately show ?thesis
    using ok is_allowed_policy [OF same_policy_remove, of a pl] by (auto simp: peers_ok_def)
qed

lemma peers_ok_add_all: "peers_ok pl \<Longrightarrow> peers_ok (peers_add_all as pl)"
  unfolding peers_add_all_def by (induction as arbitrary: pl) (simp_all add: peers_ok_add)

text \<open>An address admitted on a production policy is a routable one.\<close>

definition routable_v4 :: "u32 \<Rightarrow> bool" where
  "routable_v4 ip \<longleftrightarrow> ip \<noteq> 0 \<and> ip \<noteq> - 1 \<and> octet1 ip \<noteq> 10 \<and> octet1 ip \<noteq> 127
     \<and> \<not> (octet1 ip = 169 \<and> octet2 ip = 254) \<and> \<not> (octet1 ip = 172 \<and> octet2 ip \<in> {16..31})
     \<and> \<not> (octet1 ip = 192 \<and> octet2 ip = 168) \<and> octet1 ip \<notin> {224..239}"

lemma allowed_v4_iff:
  assumes "\<not> pl_allow_loopback pl" "\<not> pl_allow_private pl"
  shows "is_allowed_addr pl (SocketV4 ip port) \<longleftrightarrow> port \<noteq> 0 \<and> routable_v4 ip"
  using assms
  by (auto simp: is_allowed_addr_def routable_v4_def is_private_v4_def v4_unspecified_def v4_broadcast_def
      v4_multicast_def v4_loopback_def v4_private_def v4_link_local_def)

section \<open>Properties\<close>

text \<open>Commands of the list, as the network delivers them.\<close>

datatype peer_cmd = Add socket_addr | Remove socket_addr | AddAll "socket_addr list"

fun peer_step :: "peer_cmd \<Rightarrow> peer_list \<Rightarrow> peer_list" where
  "peer_step (Add a) pl = snd (peers_add a pl)"
| "peer_step (Remove a) pl = snd (peers_remove a pl)"
| "peer_step (AddAll as) pl = peers_add_all as pl"

lemma peers_run_ok:
  "peers_ok pl \<Longrightarrow> peers_ok (fold peer_step cmds pl) \<and> same_policy (fold peer_step cmds pl) pl"
proof (induction cmds arbitrary: pl)
  case Nil
  then show ?case by (simp add: same_policy_def)
next
  case (Cons c cmds)
  have "peers_ok (peer_step c pl) \<and> same_policy (peer_step c pl) pl"
    using Cons.prems by (cases c) (simp_all add: peers_ok_add peers_ok_remove peers_ok_add_all same_policy_add_all)
  with Cons.IH [of "peer_step c pl"] show ?case
    by (auto intro: same_policy_trans)
qed

text \<open>Whatever addresses the network makes a release build add and remove, its peer list holds at most
  the maximal number of addresses, each once, and every IPv4 address in it has a port and is
  routable: none is loopback, private, link-local, multicast, broadcast or unspecified.\<close>

theorem peer_list_bounded_and_routable:
  assumes "pl = fold peer_step cmds (peers_new False n)"
  shows "distinct (peers_all pl) \<and> peers_count pl \<le> n
    \<and> (\<forall>ip port. SocketV4 ip port \<in> set (peers_all pl) \<longrightarrow> port \<noteq> 0 \<and> routable_v4 ip)"
proof -
  have run: "peers_ok pl" "same_policy pl (peers_new False n)"
    using peers_run_ok [of "peers_new False n" cmds] assms by simp_all
  then have "\<not> pl_allow_loopback pl" "\<not> pl_allow_private pl" "pl_max_peers pl = n"
    by (simp_all add: same_policy_def peers_new_def)
  with run(1) show ?thesis
    using allowed_v4_iff [of pl] unfolding peers_ok_def peers_all_def peers_count_def by blast
qed

definition sample_peers :: peer_list where
  "sample_peers = fold peer_step [Add (SocketV4 (ipv4 144 126 157 197) 8181),
     Add (SocketV4 (ipv4 127 0 0 2) 8181), Add (SocketV4 (ipv4 10 0 0 2) 8181)] (peers_new False 128)"

lemma sample_octets:
  "octet1 (ipv4 144 126 157 197) = 144" "octet1 (ipv4 127 0 0 2) = 127" "octet1 (ipv4 10 0 0 2) = 10"
  by (simp_all add: octet1_def ipv4_def)

lemma sample_routable: "routable_v4 (ipv4 144 126 157 197)"
  unfolding routable_v4_def by (simp add: sample_octets) (simp add: ipv4_def)

lemma sample_peers_all: "peers_all sample_peers = [SocketV4 (ipv4 144 126 157 197) 8181]"
proof -
  have "is_allowed_addr pl (SocketV4 (ipv4 144 126 157 197) 8181)"
    "\<not> is_allowed_addr pl (SocketV4 (ipv4 127 0 0 2) 8181)"
    "\<not> is_allowed_addr pl (SocketV4 (ipv4 10 0 0 2) 8181)"
    if "\<not> pl_allow_loopback pl" "\<not> pl_allow_private pl" for pl
    using sample_routable by (simp_all add: allowed_v4_iff [OF that]) (simp_all add: routable_v4_def sample_octets)
  then show ?thesis
    by (simp add: sample_peers_def peers_new_def peers_add_def peers_all_def peers_contains_def)
qed

theorem peer_list_bounded_and_routable_witness: "routable_v4 (ipv4 144 126 157 197)"
  using peer_list_bounded_and_routable [OF sample_peers_def] by (simp add: sample_peers_all)

end
