(* ===== verification/Gossip.thy ===== *)
theory Gossip
  imports Envelope Peers
begin

text \<open>
  \<^verbatim>\<open>node/src/gossip.rs\<close>: the set of message ids seen, and what the node does with a message before the
  consensus code sees it. Parsing a socket address is the function \<open>parse_addr\<close>; what is sent is a
  list of addressee and message. The order of the id list is the unspecified iteration order of the
  \<^verbatim>\<open>HashSet\<close>.
\<close>

section \<open>Seen messages\<close>

definition MESSAGE_MAX_AGE_SECS :: u64 where
  "MESSAGE_MAX_AGE_SECS = 30"

record seen_messages =
  sm_seen :: "string list"
  sm_max_size :: nat

definition seen_new :: "nat \<Rightarrow> seen_messages" where
  "seen_new max_size = \<lparr>sm_seen = [], sm_max_size = max_size\<rparr>"

definition mark_seen :: "string \<Rightarrow> seen_messages \<Rightarrow> bool \<times> seen_messages" where
  "mark_seen msg_id s =
     (if msg_id \<in> set (sm_seen s) then (False, s)
      else let to_remove = take (sm_max_size s div 2) (sm_seen s);
               kept = (if length (sm_seen s) \<ge> sm_max_size s
                       then filter (\<lambda>i. i \<notin> set to_remove) (sm_seen s) else sm_seen s) in
        (True, s\<lparr>sm_seen := msg_id # kept\<rparr>))"

definition seen_ok :: "seen_messages \<Rightarrow> bool" where
  "seen_ok s \<longleftrightarrow> distinct (sm_seen s) \<and> length (sm_seen s) \<le> sm_max_size s"

lemma filter_not_take: "distinct xs \<Longrightarrow> filter (\<lambda>x. x \<notin> set (take n xs)) xs = drop n xs"
proof (induction xs arbitrary: n)
  case (Cons x xs)
  show ?case
  proof (cases n)
    case (Suc m)
    have "filter (\<lambda>y. y \<noteq> x \<and> y \<notin> set (take m xs)) xs = filter (\<lambda>y. y \<notin> set (take m xs)) xs"
      using Cons.prems by (intro filter_cong) auto
    with Suc Cons show ?thesis by simp
  qed simp
qed simp

lemma seen_ok_mark:
  assumes "seen_ok s" "2 \<le> sm_max_size s"
  shows "seen_ok (snd (mark_seen i s)) \<and> sm_max_size (snd (mark_seen i s)) = sm_max_size s"
proof -
  have d: "distinct (sm_seen s)" "length (sm_seen s) \<le> sm_max_size s"
    using assms(1) by (simp_all add: seen_ok_def)
  have "length (sm_seen s) - sm_max_size s div 2 < sm_max_size s"
    using d(2) assms(2) by linarith
  with d assms(2) show ?thesis
    by (auto simp: seen_ok_def mark_seen_def Let_def filter_not_take dest: in_set_dropD)
qed

lemma mark_seen_mem [simp]: "i \<in> set (sm_seen (snd (mark_seen i s)))"
  by (simp add: mark_seen_def Let_def)

lemma mark_seen_fst [simp]: "fst (mark_seen i s) \<longleftrightarrow> i \<notin> set (sm_seen s)"
  by (simp add: mark_seen_def Let_def)

section \<open>The gossip component\<close>

record gossip =
  go_peers :: peer_list
  go_seen :: seen_messages
  go_network :: string

definition gossip_new :: "peer_list \<Rightarrow> string \<Rightarrow> gossip" where
  "gossip_new peers network = \<lparr>go_peers = peers, go_seen = seen_new 10000, go_network = network\<rparr>"

definition broadcast_message :: "gossip \<Rightarrow> bina_message \<Rightarrow> socket_addr option \<Rightarrow> (socket_addr \<times> bina_message) list" where
  "broadcast_message g message except =
     map (\<lambda>peer. (peer, message)) (filter (\<lambda>peer. Some peer \<noteq> except) (peers_all (go_peers g)))"

definition broadcast_claim :: "claim_envelope \<Rightarrow> gossip \<Rightarrow> (socket_addr \<times> bina_message) list \<times> gossip" where
  "broadcast_claim envelope g =
     (let g' = g\<lparr>go_seen := snd (mark_seen (ev_message_id envelope) (go_seen g))\<rparr> in
      (broadcast_message g' (BlockClaim envelope) None, g'))"

definition relay_message :: "gossip \<Rightarrow> bina_message \<Rightarrow> socket_addr \<Rightarrow> (socket_addr \<times> bina_message) list" where
  "relay_message g message except = broadcast_message g message (Some except)"

definition handle_incoming_claim ::
    "prims \<Rightarrow> u64 \<Rightarrow> claim_envelope \<Rightarrow> gossip \<Rightarrow> claim_envelope option \<times> gossip" where
  "handle_incoming_claim P now envelope g =
     (if ev_network envelope \<noteq> go_network g then (None, g)
      else if ev_ttl envelope = 0 \<or> now > sat_add (ev_sent_at_unix envelope) MESSAGE_MAX_AGE_SECS
      then (None, g)
      else let (fresh, seen) = mark_seen (ev_message_id envelope) (go_seen g);
               g' = g\<lparr>go_seen := seen\<rparr> in
        if \<not> fresh then (None, g')
        else if \<not> is_ok (envelope_verify P envelope) then (None, g')
        else (Some (envelope\<lparr>ev_ttl := sat_sub (ev_ttl envelope) 1\<rparr>), g'))"

definition add_parsed :: "(string \<Rightarrow> socket_addr option) \<Rightarrow> string list \<Rightarrow> gossip \<Rightarrow> gossip" where
  "add_parsed parse_addr texts g =
     g\<lparr>go_peers := peers_add_all (List.map_filter parse_addr texts) (go_peers g)\<rparr>"

fun handle_incoming :: "prims \<Rightarrow> (string \<Rightarrow> socket_addr option) \<Rightarrow> u64 \<Rightarrow> bina_message \<Rightarrow> gossip
    \<Rightarrow> bina_message option \<times> gossip" where
  "handle_incoming P parse_addr now (BlockClaim envelope) g =
     (let (r, g') = handle_incoming_claim P now envelope g in (map_option BlockClaim r, g'))"
| "handle_incoming P parse_addr now (PeerHello hello) g =
     (if hl_network hello \<noteq> go_network g then (None, g)
      else (Some (PeerHello hello), add_parsed parse_addr [hl_listen_addr hello] g))"
| "handle_incoming P parse_addr now (PeerListMsg peers) g =
     (Some (PeerListMsg peers), add_parsed parse_addr peers g)"
| "handle_incoming P parse_addr now (Ping nonce height) g = (Some (Ping nonce height), g)"

text \<open>Start-up: greet every known peer and adopt the addresses each answers with (\<open>answer\<close>; \<open>None\<close>
  is a peer that does not answer or answers something else).\<close>

definition bootstrap_hello :: "gossip \<Rightarrow> string \<Rightarrow> u64 \<Rightarrow> string \<Rightarrow> hello_envelope" where
  "bootstrap_hello g listen_addr best_height best_hash =
     \<lparr>hl_network = go_network g, hl_version = 1, hl_best_height = best_height,
      hl_best_hash = best_hash, hl_listen_addr = listen_addr\<rparr>"

definition bootstrap :: "(string \<Rightarrow> socket_addr option) \<Rightarrow> (socket_addr \<Rightarrow> string list option) \<Rightarrow> string
    \<Rightarrow> u64 \<Rightarrow> string \<Rightarrow> gossip \<Rightarrow> (socket_addr \<times> hello_envelope) list \<times> gossip" where
  "bootstrap parse_addr answer listen_addr best_height best_hash g =
     (let seeds = peers_all (go_peers g) in
      (map (\<lambda>seed. (seed, bootstrap_hello g listen_addr best_height best_hash)) seeds,
       fold (\<lambda>seed g. case answer seed of None \<Rightarrow> g | Some peers \<Rightarrow> add_parsed parse_addr peers g) seeds g))"

section \<open>Lemmas\<close>

declare handle_incoming.simps(1) [simp del]

lemma handle_incoming_block [simp]:
  "fst (handle_incoming P parse_addr now (BlockClaim e) g) = map_option BlockClaim (fst (handle_incoming_claim P now e g))"
  "snd (handle_incoming P parse_addr now (BlockClaim e) g) = snd (handle_incoming_claim P now e g)"
  by (simp_all add: handle_incoming.simps(1) case_prod_unfold Let_def)

definition gossip_ok :: "nat \<Rightarrow> nat \<Rightarrow> gossip \<Rightarrow> bool" where
  "gossip_ok k n g \<longleftrightarrow> peers_ok (go_peers g) \<and> seen_ok (go_seen g) \<and> 2 \<le> k
     \<and> sm_max_size (go_seen g) = k \<and> pl_max_peers (go_peers g) = n"

lemma gossip_ok_new: "gossip_ok 10000 n (gossip_new (peers_new d n) network)"
  by (simp add: gossip_ok_def gossip_new_def seen_new_def seen_ok_def) (simp add: peers_new_def)

lemma gossip_ok_add_parsed: "gossip_ok k n g \<Longrightarrow> gossip_ok k n (add_parsed parse_addr texts g)"
  using same_policy_add_all [of "List.map_filter parse_addr texts" "go_peers g"]
  by (simp add: gossip_ok_def add_parsed_def peers_ok_add_all same_policy_def)

lemma gossip_ok_claim: "gossip_ok k n g \<Longrightarrow> gossip_ok k n (snd (handle_incoming_claim P now e g))"
  using seen_ok_mark [of "go_seen g" "ev_message_id e"]
  by (auto simp: gossip_ok_def handle_incoming_claim_def Let_def case_prod_unfold)

lemma gossip_ok_incoming: "gossip_ok k n g \<Longrightarrow> gossip_ok k n (snd (handle_incoming P parse_addr now m g))"
  by (cases m) (simp_all add: gossip_ok_claim gossip_ok_add_parsed case_prod_unfold)

lemma gossip_ok_broadcast: "gossip_ok k n g \<Longrightarrow> gossip_ok k n (snd (broadcast_claim e g))"
  using seen_ok_mark [of "go_seen g" "ev_message_id e"]
  by (simp add: gossip_ok_def broadcast_claim_def Let_def)

lemma incoming_claim_accepted:
  "handle_incoming_claim P now e g = (Some e', g') \<longleftrightarrow>
     ev_network e = go_network g \<and> ev_ttl e \<noteq> 0 \<and> now \<le> sat_add (ev_sent_at_unix e) MESSAGE_MAX_AGE_SECS
     \<and> ev_message_id e \<notin> set (sm_seen (go_seen g)) \<and> envelope_verify P e = Inr ()
     \<and> e' = e\<lparr>ev_ttl := sat_sub (ev_ttl e) 1\<rparr>
     \<and> g' = g\<lparr>go_seen := snd (mark_seen (ev_message_id e) (go_seen g))\<rparr>"
  by (auto simp: handle_incoming_claim_def Let_def case_prod_unfold is_ok_iff not_less)

lemma incoming_claim_seen:
  "ev_message_id e \<in> set (sm_seen (go_seen g)) \<Longrightarrow> fst (handle_incoming_claim P now e g) = None"
  by (auto simp: handle_incoming_claim_def Let_def case_prod_unfold)

lemma incoming_claim_marks:
  assumes "ev_network e = go_network g" "ev_ttl e \<noteq> 0" "now \<le> sat_add (ev_sent_at_unix e) MESSAGE_MAX_AGE_SECS"
  shows "ev_message_id e \<in> set (sm_seen (go_seen (snd (handle_incoming_claim P now e g))))"
  using assms by (auto simp: handle_incoming_claim_def Let_def case_prod_unfold)

lemma unat_dec_ttl: "(t :: u8) \<noteq> 0 \<Longrightarrow> unat (sat_sub t 1) < unat t"
  by (simp add: unat_sat_sub unat_gt_0)

section \<open>Properties\<close>

text \<open>A block claim leaves the gossip layer towards the consensus code and the other peers only if it
  is of this network, not expired, was not seen before and its envelope verifies; its time to live
  has gone down, so no claim circulates for ever, and the same message is dropped when it comes
  back at once.\<close>

theorem gossip_delivers_verified_claims:
  assumes "handle_incoming P parse_addr now (BlockClaim e) g = (Some m, g')"
  shows "\<exists>e'. m = BlockClaim e' \<and> e' = e\<lparr>ev_ttl := ev_ttl e'\<rparr> \<and> unat (ev_ttl e') < unat (ev_ttl e)
    \<and> ev_network e = go_network g \<and> unat now \<le> unat (ev_sent_at_unix e) + 30
    \<and> claim_verify P (ev_claim e) = Inr ()
    \<and> merkle_root P (ev_transactions e) = h_merkle_root (sc_header (ev_claim e))
    \<and> ev_message_id e \<notin> set (sm_seen (go_seen g))
    \<and> fst (handle_incoming P parse_addr now' (BlockClaim e) g') = None"
proof -
  obtain e' where m: "m = BlockClaim e'" and acc: "handle_incoming_claim P now e g = (Some e', g')"
    using assms handle_incoming_block [of P parse_addr now e g] by (auto simp: prod_eq_iff)
  note a = acc [unfolded incoming_claim_accepted]
  have "unat now \<le> unat (sat_add (ev_sent_at_unix e) MESSAGE_MAX_AGE_SECS)"
    using a word_le_nat_alt by blast
  then have "unat now \<le> unat (ev_sent_at_unix e) + 30"
    by (simp add: unat_sat_add MESSAGE_MAX_AGE_SECS_def)
  moreover have "fst (handle_incoming_claim P now' e g') = None"
    using a by (intro incoming_claim_seen) simp
  ultimately show ?thesis
    using a m unat_dec_ttl [of "ev_ttl e"]
    by (auto simp: envelope_verify_iff case_prod_unfold)
qed

definition sample_gossip :: gossip where
  "sample_gossip = gossip_new (peers_new False 128) ''bina-l1''"

theorem gossip_delivers_verified_claims_witness:
  "fst (handle_incoming sample_prims (\<lambda>_. None) 110 (BlockClaim sample_envelope) sample_gossip) \<noteq> None
    \<and> fst (handle_incoming sample_prims (\<lambda>_. None) 111 (BlockClaim sample_envelope)
        (snd (handle_incoming sample_prims (\<lambda>_. None) 110 (BlockClaim sample_envelope) sample_gossip))) = None"
proof -
  let ?r = "handle_incoming_claim sample_prims 110 sample_envelope sample_gossip"
  have "ev_network sample_envelope = go_network sample_gossip" "ev_ttl sample_envelope \<noteq> 0"
    "110 \<le> sat_add (ev_sent_at_unix sample_envelope) MESSAGE_MAX_AGE_SECS"
    "sm_seen (go_seen sample_gossip) = []"
    by (simp_all add: sample_envelope_def sample_gossip_def gossip_new_def seen_new_def
        word_le_nat_alt unat_sat_add MESSAGE_MAX_AGE_SECS_def)
  then have "fst ?r \<noteq> None"
    using incoming_claim_accepted [of sample_prims 110 sample_envelope sample_gossip
        "sample_envelope\<lparr>ev_ttl := sat_sub (ev_ttl sample_envelope) 1\<rparr>"] sample_envelope_verifies
    by (auto simp: prod_eq_iff)
  then obtain m where "handle_incoming sample_prims (\<lambda>_. None) 110 (BlockClaim sample_envelope) sample_gossip
      = (Some m, snd (handle_incoming sample_prims (\<lambda>_. None) 110 (BlockClaim sample_envelope) sample_gossip))"
    by (auto simp: prod_eq_iff)
  from gossip_delivers_verified_claims [OF this, of 111] this show ?thesis by auto
qed

text \<open>C24: The id of a message is recorded before the message is verified, and verification does not compare
  it with the content: after an envelope that fails verification but carries the id of a good one,
  for example the good one with its transactions removed, the good one is dropped.\<close>

theorem forged_envelope_suppresses_claim:
  assumes "ev_network e = go_network g" "ev_ttl e \<noteq> 0"
    and "now \<le> sat_add (ev_sent_at_unix e) MESSAGE_MAX_AGE_SECS"
    and "merkle_root P txs \<noteq> h_merkle_root (sc_header (ev_claim e))"
  shows "fst (handle_incoming P parse_addr now (BlockClaim (e\<lparr>ev_transactions := txs\<rparr>)) g) = None
    \<and> fst (handle_incoming P parse_addr now' (BlockClaim e)
        (snd (handle_incoming P parse_addr now (BlockClaim (e\<lparr>ev_transactions := txs\<rparr>)) g))) = None"
proof -
  let ?f = "e\<lparr>ev_transactions := txs\<rparr>"
  have "fst (handle_incoming_claim P now ?f g) = None"
    using assms(4) by (auto simp: handle_incoming_claim_def envelope_verify_iff is_ok_iff Let_def case_prod_unfold)
  moreover have "ev_message_id ?f \<in> set (sm_seen (go_seen (snd (handle_incoming_claim P now ?f g))))"
    using assms by (intro incoming_claim_marks) simp_all
  ultimately show ?thesis
    using incoming_claim_seen [of e "snd (handle_incoming_claim P now ?f g)" P now']
    by (simp add: case_prod_unfold)
qed

definition sample_relayed_tx :: signed_transaction where
  "sample_relayed_tx = \<lparr>stx_tx = sample_ed_tx, stx_public_key = [], stx_signature = []\<rparr>"

theorem forged_envelope_suppresses_claim_witness:
  "fst (handle_incoming sample_prims (\<lambda>_. None) 111 (BlockClaim sample_envelope)
      (snd (handle_incoming sample_prims (\<lambda>_. None) 110
        (BlockClaim (sample_envelope\<lparr>ev_transactions := [sample_relayed_tx]\<rparr>)) sample_gossip))) = None"
proof -
  have "merkle_root sample_prims [sample_relayed_tx] ! 0 \<noteq> 0"
    by (simp add: merkle_root_single stx_tx_id_def sample_hash_head tx_id_preimage_def TX_ID_TAG_def
        tx_digest_def sample_relayed_tx_def)
  then have "merkle_root sample_prims [sample_relayed_tx] \<noteq> h_merkle_root (sc_header (ev_claim sample_envelope))"
    by (auto simp: sample_envelope_def genesis_header_def zeros_def)
  moreover have "110 \<le> sat_add (ev_sent_at_unix sample_envelope) MESSAGE_MAX_AGE_SECS"
    by (simp add: sample_envelope_def word_le_nat_alt unat_sat_add MESSAGE_MAX_AGE_SECS_def)
  ultimately show ?thesis
    using forged_envelope_suppresses_claim [of sample_envelope sample_gossip 110 sample_prims "[sample_relayed_tx]" "\<lambda>_. None" 111]
    by (simp add: sample_envelope_def sample_gossip_def gossip_new_def)
qed

text \<open>Whatever messages arrive, the gossip state stays within its bounds: at most the maximal numbers
  of peers and of remembered ids, each peer admitted by the address policy.\<close>

theorem gossip_state_bounded:
  assumes "g = fold (\<lambda>(now, m) g. snd (handle_incoming P parse_addr now m g)) msgs
                 (gossip_new (peers_new False n) network)"
  shows "length (sm_seen (go_seen g)) \<le> 10000 \<and> peers_count (go_peers g) \<le> n
    \<and> (\<forall>a \<in> set (peers_all (go_peers g)). is_allowed_addr (go_peers g) a)"
proof -
  have "gossip_ok k n (fold (\<lambda>(now, m) g. snd (handle_incoming P parse_addr now m g)) msgs g0)"
    if "gossip_ok k n g0" for k g0
    using that by (induction msgs arbitrary: g0) (simp_all add: gossip_ok_incoming case_prod_unfold)
  from this [OF gossip_ok_new] have "gossip_ok 10000 n g"
    using assms by simp
  then show ?thesis
    by (simp add: gossip_ok_def peers_ok_def seen_ok_def peers_count_def peers_all_def)
qed

theorem gossip_state_bounded_witness:
  "length (sm_seen (go_seen (fold (\<lambda>(now, m) g. snd (handle_incoming sample_prims (\<lambda>_. None) now m g))
      [(110, BlockClaim sample_envelope), (110, Ping 1 2)] (gossip_new (peers_new False 128) ''bina-l1'')))) \<le> 10000"
  using gossip_state_bounded [OF refl] by blast

end
