(* ===== verification/Block_Record.thy ===== *)
theory Block_Record
  imports Complex_Main Claims Btc_Entropy Text_Format
begin

text \<open>
  The records the node exchanges and stores (\<^verbatim>\<open>node/src/main.rs\<close>): \<^verbatim>\<open>BlockRecord\<close>, the header it
  stands for, and the payload of a submitted transaction. The measured hash rate, an \<^verbatim>\<open>f64\<close>, is only
  stored and shown; it is a rational number here. JSON coding of transactions is \<^verbatim>\<open>serde_json\<close>'s:
  two functions, whose round trip is the hypothesis \<open>json_ok\<close>.
\<close>

section \<open>Block records\<close>

record block_record =
  br_height :: u64
  br_block_hash :: string
  br_prev_hash :: string
  br_nonce :: u64
  br_timestamp :: u64
  br_mined_timestamp_secs :: u64
  br_zero_bits :: u32
  br_difficulty_bits :: u32
  br_hashes_tried :: u64
  br_elapsed_ms :: u64
  br_hashrate_mhs :: rat
  br_miner_address :: string
  br_miner_public_key :: string
  br_miner_signature :: string
  br_claim_digest :: string
  br_election_score :: string
  br_source :: string
  br_reward_bina :: u64
  br_randomness_output :: string
  br_nullifier :: string
  br_btc_seed :: string
  br_btc_height :: u64
  br_merkle_root :: string
  br_state_root :: string
  br_chain_work_hex :: string
  br_transactions :: "signed_transaction list"

datatype header_error = BadAddress tx_error | BadHash32 string

definition header_hash32 :: "prims \<Rightarrow> string \<Rightarrow> header_error + bytes" where
  "header_hash32 P s = (case hex_to_32 P s of None \<Rightarrow> Inl (BadHash32 s) | Some b \<Rightarrow> Inr b)"

definition header_from_record :: "prims \<Rightarrow> block_record \<Rightarrow> bytes \<Rightarrow> header_error + l1_header" where
  "header_from_record P rec prev_hash =
     res_bind (map_err BadAddress (parse_address_hex P (br_miner_address rec))) (\<lambda>miner_address.
     res_bind (header_hash32 P (br_btc_seed rec)) (\<lambda>bitcoin_seed_hash.
     res_bind (header_hash32 P (br_merkle_root rec)) (\<lambda>merkle_root.
     res_bind (header_hash32 P (br_state_root rec)) (\<lambda>state_root.
     Inr \<lparr>h_version = 1, h_height = br_height rec, h_prev_hash = prev_hash, h_merkle_root = merkle_root,
          h_state_root = state_root, h_timestamp = br_timestamp rec, h_nonce = br_nonce rec,
          h_miner_address = miner_address, h_difficulty_bits = br_difficulty_bits rec,
          h_bitcoin_seed_hash = bitcoin_seed_hash\<rparr>))))"

text \<open>The value of \<^verbatim>\<open>1u128 << bits.min(127)\<close>: the work a block of the required difficulty stands for.\<close>

definition block_work :: "u32 \<Rightarrow> u128" where
  "block_work bits = push_bit (min (unat bits) 127) 1"

section \<open>Transaction payloads\<close>

record tx_payload =
  pl_from :: string
  pl_to :: string
  pl_amount :: u64
  pl_nonce :: u64
  pl_fee :: u64
  pl_public_key :: string
  pl_signature :: string

datatype payload_error = PayloadAddress tx_error | PayloadPublicKeyHex | PayloadSignatureHex

definition into_signed_transaction :: "prims \<Rightarrow> tx_payload \<Rightarrow> payload_error + signed_transaction" where
  "into_signed_transaction P p =
     res_bind (map_err PayloadAddress (parse_address_hex P (pl_from p))) (\<lambda>from_addr.
     res_bind (map_err PayloadAddress (parse_address_hex P (pl_to p))) (\<lambda>to_addr.
     case hex_decode P (pl_public_key p) of
       None \<Rightarrow> Inl PayloadPublicKeyHex
     | Some public_key \<Rightarrow>
         (case hex_decode P (pl_signature p) of
            None \<Rightarrow> Inl PayloadSignatureHex
          | Some signature \<Rightarrow>
              Inr \<lparr>stx_tx = \<lparr>tx_from = from_addr, tx_to = to_addr, tx_amount = pl_amount p,
                           tx_nonce = pl_nonce p, tx_fee = pl_fee p\<rparr>,
                   stx_public_key = public_key, stx_signature = signature\<rparr>)))"

section \<open>JSON of transactions\<close>

record serde =
  tx_to_json :: "signed_transaction \<Rightarrow> string"
  tx_from_json :: "string \<Rightarrow> signed_transaction option"

definition json_ok :: "serde \<Rightarrow> bool" where
  "json_ok J \<longleftrightarrow> (\<forall>t. tx_from_json J (tx_to_json J t) = Some t)"

lemma json_round_trip [simp]: "json_ok J \<Longrightarrow> tx_from_json J (tx_to_json J t) = Some t"
  by (simp add: json_ok_def)

lemma those_Some [simp]: "those (map Some xs) = Some xs"
  by (induction xs) simp_all

lemma those_json [simp]: "json_ok J \<Longrightarrow> those (map (\<lambda>t. tx_from_json J (tx_to_json J t)) ts) = Some ts"
  by (induction ts) simp_all

section \<open>Headers and records\<close>

lemma hex_to_32_encode [simp]:
  assumes "hex_ok P" "length b = 32"
  shows "hex_to_32 P (hex_encode P b) = Some b"
proof -
  have "trim (hex_encode P b) = hex_encode P b"
    by (rule csv_safe_trim [OF csv_safe_hex [OF assms(1)]])
  with assms show ?thesis by (simp add: hex_to_32_def)
qed

lemma hex_no_0x:
  assumes "hex_ok P"
  shows "take 2 (hex_encode P b) \<noteq> ''0x''"
proof
  assume "take 2 (hex_encode P b) = ''0x''"
  then have "CHR ''x'' \<in> set (take 2 (hex_encode P b))" by simp
  then have "CHR ''x'' \<in> set (hex_encode P b)" by (rule in_set_takeD)
  then have "CHR ''x'' \<in> set ''0123456789abcdef''" by (rule hex_encode_chars [OF assms])
  then show False by simp
qed

lemma parse_address_encode [simp]:
  "hex_ok P \<Longrightarrow> length a = 20 \<Longrightarrow> parse_address_hex P (hex_encode P a) = Inr a"
  by (simp add: parse_address_hex_def hex_no_0x)

lemma header_hash32_encode [simp]:
  "hex_ok P \<Longrightarrow> length b = 32 \<Longrightarrow> header_hash32 P (hex_encode P b) = Inr b"
  by (simp add: header_hash32_def)

lemma header_hash32_length: "hex_ok P \<Longrightarrow> header_hash32 P s = Inr b \<Longrightarrow> length b = 32"
  by (auto simp: header_hash32_def hex_to_32_length split: option.splits)

lemma header_from_record_wf:
  assumes "hex_ok P" "header_from_record P r prev = Inr h" "length prev = 32"
  shows "header_wf h"
  using assms header_hash32_length [OF assms(1)] length_parse_address_hex
  by (auto simp: header_from_record_def res_bind_Inr_iff header_wf_def)

lemma header_from_record_fields:
  assumes "header_from_record P r prev = Inr h"
  shows "h_version h = 1" "h_height h = br_height r" "h_prev_hash h = prev"
    "h_timestamp h = br_timestamp r" "h_nonce h = br_nonce r"
    "h_difficulty_bits h = br_difficulty_bits r"
  using assms by (auto simp: header_from_record_def res_bind_Inr_iff)

text \<open>A record that carries the fields of a version 1 header in hex stands for that header.\<close>

definition record_of_header :: "prims \<Rightarrow> l1_header \<Rightarrow> block_record \<Rightarrow> bool" where
  "record_of_header P h r \<longleftrightarrow>
     br_height r = h_height h \<and> br_nonce r = h_nonce h \<and> br_timestamp r = h_timestamp h
     \<and> br_difficulty_bits r = h_difficulty_bits h \<and> br_miner_address r = hex_encode P (h_miner_address h)
     \<and> br_btc_seed r = hex_encode P (h_bitcoin_seed_hash h)
     \<and> br_merkle_root r = hex_encode P (h_merkle_root h) \<and> br_state_root r = hex_encode P (h_state_root h)"

lemma header_of_its_record:
  assumes "hex_ok P" "header_wf h" "h_version h = 1" "record_of_header P h r"
  shows "header_from_record P r (h_prev_hash h) = Inr h"
  using assms by (simp add: header_from_record_def record_of_header_def header_wf_def)

lemma unat_pow2_small: "n < 128 \<Longrightarrow> unat ((2::u128) ^ n) = 2 ^ n"
proof -
  assume "n < 128"
  then have "(2::nat) ^ n < 2 ^ LENGTH(128)"
    by (intro power_strict_increasing) simp_all
  then have "unat (of_nat (2 ^ n) :: u128) = 2 ^ n" unfolding unsigned_of_nat take_bit_eq_mod by (simp only: mod_less of_nat_id)
  then show ?thesis by simp
qed

lemma unat_block_work: "unat (block_work b) = 2 ^ min (unat b) 127"
  unfolding block_work_def push_bit_eq_mult mult_1_left by (rule unat_pow2_small) simp

section \<open>A sample coding\<close>

definition sample_tx_json :: "signed_transaction \<Rightarrow> string" where
  "sample_tx_json s = join_with CHR '':''
     [sample_hex (tx_from (stx_tx s)), sample_hex (tx_to (stx_tx s)), show_u64 (tx_amount (stx_tx s)),
      show_u64 (tx_nonce (stx_tx s)), show_u64 (tx_fee (stx_tx s)), sample_hex (stx_public_key s),
      sample_hex (stx_signature s)]"

definition sample_tx_unjson :: "string \<Rightarrow> signed_transaction option" where
  "sample_tx_unjson t =
     (case split_on CHR '':'' t of
        [a, b, c, d, e, f, g] \<Rightarrow>
          (case (sample_unhex a, sample_unhex b, parse_u64 c, parse_u64 d, parse_u64 e,
                 sample_unhex f, sample_unhex g) of
             (Some a', Some b', Some c', Some d', Some e', Some f', Some g') \<Rightarrow>
               Some \<lparr>stx_tx = \<lparr>tx_from = a', tx_to = b', tx_amount = c', tx_nonce = d', tx_fee = e'\<rparr>,
                     stx_public_key = f', stx_signature = g'\<rparr>
           | _ \<Rightarrow> None)
      | _ \<Rightarrow> None)"

definition sample_serde :: serde where
  "sample_serde = \<lparr>tx_to_json = sample_tx_json, tx_from_json = sample_tx_unjson\<rparr>"

lemma colon_not_hex: "CHR '':'' \<notin> set (sample_hex b)"
  using set_sample_hex [of b] by auto

lemma colon_not_digit: "CHR '':'' \<notin> set (show_u64 w)"
proof
  assume "CHR '':'' \<in> set (show_u64 w)"
  then obtain d where "d < 10" "CHR '':'' = digit_char d"
    using show_u64_chars by blast
  moreover from \<open>d < 10\<close> have "digit_char d \<noteq> CHR '':''"
    by (rule digit_char_neq) simp
  ultimately show False by simp
qed

lemma sample_json_ok: "json_ok sample_serde"
proof -
  have "sample_tx_unjson (sample_tx_json t) = Some t" for t
    unfolding sample_tx_json_def sample_tx_unjson_def
    by (subst split_join) (simp_all add: colon_not_hex colon_not_digit sample_unhex_hex)
  then show ?thesis by (simp add: json_ok_def sample_serde_def)
qed

end
