(* ===== verification/Block_Store.thy ===== *)
theory Block_Store
  imports Block_Record Hash_Map
begin

text \<open>
  \<^verbatim>\<open>node/src/store.rs\<close>: the SQLite block store. A table is the list of its rows; the queries of the
  code are written out on them (\<^verbatim>\<open>WHERE\<close> is a filter, \<^verbatim>\<open>ORDER BY\<close> a stable sort, \<^verbatim>\<open>INSERT OR REPLACE\<close>
  first deletes every row that has the primary key or a unique column in common). An SQLite integer
  is signed: \<open>as_i64\<close> and \<open>as_u64\<close> are the casts. Failing to open, read or write the file is not
  modelled; a stored transaction that does not decode is an error. The locale \<open>block_archive\<close> is what
  the synchronisation and the reorganisation of the chain need of a store.
\<close>

section \<open>The tables\<close>

definition as_i64 :: "u64 \<Rightarrow> int" where
  "as_i64 w = sint w"

definition as_u64 :: "int \<Rightarrow> u64" where
  "as_u64 i = word_of_int i"

record block_row =
  row_height :: int
  row_block_hash :: string
  row_prev_hash :: string
  row_nonce :: int
  row_timestamp :: int
  row_zero_bits :: u32
  row_difficulty_bits :: u32
  row_hashes_tried :: int
  row_elapsed_ms :: int
  row_hashrate_mhs :: rat
  row_miner_address :: string
  row_miner_public_key :: string
  row_miner_signature :: string
  row_claim_digest :: string
  row_election_score :: string
  row_source :: string
  row_reward_bina :: int
  row_randomness_output :: string
  row_nullifier :: string
  row_btc_seed :: string
  row_btc_height :: int
  row_merkle_root :: string
  row_state_root :: string
  row_chain_work_hex :: string

record tx_row =
  tr_height :: int
  tr_index :: int
  tr_json :: string

record block_store =
  bs_blocks :: "block_row list"
  bs_txs :: "tx_row list"
  bs_mempool :: "(string, string) hmap"

datatype store_error = StoredTxCorrupt

definition store_open :: "block_store option \<Rightarrow> block_store" where
  "store_open file =
     (case file of Some s \<Rightarrow> s | None \<Rightarrow> \<lparr>bs_blocks = [], bs_txs = [], bs_mempool = []\<rparr>)"

definition record_to_row :: "block_record \<Rightarrow> block_row" where
  "record_to_row r =
     \<lparr>row_height = as_i64 (br_height r), row_block_hash = br_block_hash r,
      row_prev_hash = br_prev_hash r, row_nonce = as_i64 (br_nonce r),
      row_timestamp = as_i64 (br_timestamp r), row_zero_bits = br_zero_bits r,
      row_difficulty_bits = br_difficulty_bits r, row_hashes_tried = as_i64 (br_hashes_tried r),
      row_elapsed_ms = as_i64 (br_elapsed_ms r), row_hashrate_mhs = br_hashrate_mhs r,
      row_miner_address = br_miner_address r, row_miner_public_key = br_miner_public_key r,
      row_miner_signature = br_miner_signature r, row_claim_digest = br_claim_digest r,
      row_election_score = br_election_score r, row_source = br_source r,
      row_reward_bina = as_i64 (br_reward_bina r), row_randomness_output = br_randomness_output r,
      row_nullifier = br_nullifier r, row_btc_seed = br_btc_seed r,
      row_btc_height = as_i64 (br_btc_height r), row_merkle_root = br_merkle_root r,
      row_state_root = br_state_root r, row_chain_work_hex = br_chain_work_hex r\<rparr>"

definition row_to_record :: "block_row \<Rightarrow> block_record" where
  "row_to_record row =
     (let timestamp = as_u64 (row_timestamp row) in
      \<lparr>br_height = as_u64 (row_height row), br_block_hash = row_block_hash row,
       br_prev_hash = row_prev_hash row, br_nonce = as_u64 (row_nonce row),
       br_timestamp = timestamp, br_mined_timestamp_secs = timestamp div 1000,
       br_zero_bits = row_zero_bits row, br_difficulty_bits = row_difficulty_bits row,
       br_hashes_tried = as_u64 (row_hashes_tried row), br_elapsed_ms = as_u64 (row_elapsed_ms row),
       br_hashrate_mhs = row_hashrate_mhs row, br_miner_address = row_miner_address row,
       br_miner_public_key = row_miner_public_key row, br_miner_signature = row_miner_signature row,
       br_claim_digest = row_claim_digest row, br_election_score = row_election_score row,
       br_source = row_source row, br_reward_bina = as_u64 (row_reward_bina row),
       br_randomness_output = row_randomness_output row, br_nullifier = row_nullifier row,
       br_btc_seed = row_btc_seed row, br_btc_height = as_u64 (row_btc_height row),
       br_merkle_root = row_merkle_root row, br_state_root = row_state_root row,
       br_chain_work_hex = row_chain_work_hex row, br_transactions = []\<rparr>)"

section \<open>Blocks\<close>

fun tx_rows :: "serde \<Rightarrow> int \<Rightarrow> int \<Rightarrow> signed_transaction list \<Rightarrow> tx_row list" where
  "tx_rows J h i [] = []"
| "tx_rows J h i (t # ts) =
     \<lparr>tr_height = h, tr_index = i, tr_json = tx_to_json J t\<rparr> # tx_rows J h (i + 1) ts"

definition insert_block :: "serde \<Rightarrow> block_record \<Rightarrow> block_store \<Rightarrow> block_store" where
  "insert_block J r s =
     (let h = as_i64 (br_height r);
          kept = filter (\<lambda>row. row_height row \<noteq> h \<and> row_block_hash row \<noteq> br_block_hash r) (bs_blocks s);
          cleared = filter (\<lambda>t. tr_height t \<noteq> h) (bs_txs s) in
      s\<lparr>bs_blocks := kept @ [record_to_row r], bs_txs := cleared @ tx_rows J h 0 (br_transactions r)\<rparr>)"

definition get_transactions :: "serde \<Rightarrow> block_store \<Rightarrow> u64 \<Rightarrow> store_error + signed_transaction list" where
  "get_transactions J s height =
     (case those (map (\<lambda>t. tx_from_json J (tr_json t))
             (sort_key tr_index (filter (\<lambda>t. tr_height t = as_i64 height) (bs_txs s)))) of
        None \<Rightarrow> Inl StoredTxCorrupt
      | Some txs \<Rightarrow> Inr txs)"

definition with_transactions :: "serde \<Rightarrow> block_store \<Rightarrow> block_record \<Rightarrow> store_error + block_record" where
  "with_transactions J s r =
     res_bind (get_transactions J s (br_height r)) (\<lambda>txs. Inr (r\<lparr>br_transactions := txs\<rparr>))"

definition store_get :: "serde \<Rightarrow> block_store \<Rightarrow> u64 \<Rightarrow> store_error + block_record option" where
  "store_get J s height =
     (case find (\<lambda>row. row_height row = as_i64 height) (bs_blocks s) of
        None \<Rightarrow> Inr None
      | Some row \<Rightarrow>
          res_bind (get_transactions J s height) (\<lambda>txs.
            Inr (Some ((row_to_record row)\<lparr>br_transactions := txs\<rparr>))))"

definition store_get_by_hash :: "serde \<Rightarrow> block_store \<Rightarrow> string \<Rightarrow> store_error + block_record option" where
  "store_get_by_hash J s hash =
     (case find (\<lambda>row. row_block_hash row = hash) (bs_blocks s) of
        None \<Rightarrow> Inr None
      | Some row \<Rightarrow> res_bind (with_transactions J s (row_to_record row)) (\<lambda>r. Inr (Some r)))"

text \<open>The rows are read in order; the first that does not decode ends the call with its error.\<close>

fun read_rows :: "serde \<Rightarrow> block_store \<Rightarrow> block_row list \<Rightarrow> store_error + block_record list" where
  "read_rows J s [] = Inr []"
| "read_rows J s (row # rows) =
     res_bind (with_transactions J s (row_to_record row)) (\<lambda>r.
     res_bind (read_rows J s rows) (\<lambda>rs. Inr (r # rs)))"

definition sql_limit :: "u64 \<Rightarrow> 'a list \<Rightarrow> 'a list" where
  "sql_limit limit rows = (if as_i64 limit < 0 then rows else take (nat (as_i64 limit)) rows)"

definition get_range ::
    "serde \<Rightarrow> block_store \<Rightarrow> u64 \<Rightarrow> u64 \<Rightarrow> u64 \<Rightarrow> store_error + block_record list" where
  "get_range J s start stop limit =
     read_rows J s (sql_limit limit (sort_key row_height
       (filter (\<lambda>row. as_i64 start \<le> row_height row \<and> row_height row \<le> as_i64 stop) (bs_blocks s))))"

definition tip_height :: "block_store \<Rightarrow> u64" where
  "tip_height s =
     (if bs_blocks s = [] then 0 else as_u64 (Max (set (map row_height (bs_blocks s)))))"

definition block_hash_at :: "block_store \<Rightarrow> u64 \<Rightarrow> string option" where
  "block_hash_at s height =
     map_option row_block_hash (find (\<lambda>row. row_height row = as_i64 height) (bs_blocks s))"

definition rollback_above :: "u64 \<Rightarrow> block_store \<Rightarrow> block_store" where
  "rollback_above height s =
     s\<lparr>bs_blocks := filter (\<lambda>row. \<not> row_height row > as_i64 height) (bs_blocks s),
       bs_txs := filter (\<lambda>t. \<not> tr_height t > as_i64 height) (bs_txs s)\<rparr>"

definition latest_checkpoint :: "block_store \<Rightarrow> (string \<times> u64) option" where
  "latest_checkpoint s =
     (case rev (sort_key row_height (filter (\<lambda>row. row_btc_height row > 0) (bs_blocks s))) of
        [] \<Rightarrow> None
      | row # _ \<Rightarrow> Some (row_btc_seed row, as_u64 (row_btc_height row)))"

definition all_nullifiers :: "block_store \<Rightarrow> string list" where
  "all_nullifiers s = map row_nullifier (sort_key row_height (bs_blocks s))"

section \<open>The pending transactions\<close>

definition mempool_put :: "string \<Rightarrow> string \<Rightarrow> block_store \<Rightarrow> block_store" where
  "mempool_put tx_id json s = s\<lparr>bs_mempool := hm_insert tx_id json (bs_mempool s)\<rparr>"

definition mempool_del :: "string \<Rightarrow> block_store \<Rightarrow> block_store" where
  "mempool_del tx_id s = s\<lparr>bs_mempool := hm_remove tx_id (bs_mempool s)\<rparr>"

definition mempool_insert :: "prims \<Rightarrow> serde \<Rightarrow> signed_transaction \<Rightarrow> block_store \<Rightarrow> block_store" where
  "mempool_insert P J t = mempool_put (stx_tx_id_hex P t) (tx_to_json J t)"

definition mempool_remove :: "prims \<Rightarrow> bytes \<Rightarrow> block_store \<Rightarrow> block_store" where
  "mempool_remove P tx_id = mempool_del (hex_encode P tx_id)"

definition mempool_load :: "serde \<Rightarrow> block_store \<Rightarrow> signed_transaction list \<times> block_store" where
  "mempool_load J s =
     (let corrupt = filter (\<lambda>(k, json). tx_from_json J json = None) (bs_mempool s) in
      (List.map_filter (\<lambda>(k, json). tx_from_json J json) (bs_mempool s),
       fold (\<lambda>(k, json). mempool_del k) corrupt s))"

section \<open>Reading what was written\<close>

lemma as_u64_i64 [simp]: "as_u64 (as_i64 w) = w"
  by (simp add: as_u64_def as_i64_def)

lemma as_i64_inj [simp]: "as_i64 a = as_i64 b \<longleftrightarrow> a = b"
  by (metis as_u64_i64)

lemma as_i64_u64: "0 \<le> i \<Longrightarrow> i < 2 ^ 63 \<Longrightarrow> as_i64 (as_u64 i) = i"
  unfolding as_i64_def as_u64_def
  by (simp add: signed_of_int signed_take_bit_int_eq_self)

definition small_height :: "u64 \<Rightarrow> bool" where
  "small_height h \<longleftrightarrow> unat h < 2 ^ 63"

lemma as_i64_small:
  assumes "small_height h"
  shows "as_i64 h = int (unat h)"
proof -
  have "int (unat h) < int (2 ^ 63)"
    using assms unfolding small_height_def by (rule iffD2 [OF of_nat_less_iff])
  then have "uint h < 2 ^ 63" by simp
  moreover have "0 \<le> uint h" by simp
  ultimately have "signed_take_bit 63 (uint h) = uint h"
    by (intro signed_take_bit_int_eq_self) linarith+
  then show ?thesis by (simp add: as_i64_def sint_uint)
qed

lemma as_i64_small_range:
  assumes "small_height h"
  shows "0 \<le> as_i64 h \<and> as_i64 h < 2 ^ 63"
proof -
  have "int (unat h) < int (2 ^ 63)"
    using assms unfolding small_height_def by (rule iffD2 [OF of_nat_less_iff])
  with as_i64_small [OF assms] show ?thesis by simp
qed

text \<open>What a stored record reads back as.\<close>

definition as_stored :: "block_record \<Rightarrow> block_record" where
  "as_stored r = r\<lparr>br_mined_timestamp_secs := br_timestamp r div 1000\<rparr>"

lemma row_record_round_trip:
  "(row_to_record (record_to_row r))\<lparr>br_transactions := br_transactions r\<rparr> = as_stored r"
  by (cases r) (simp add: row_to_record_def record_to_row_def as_stored_def Let_def)

lemma row_height_record [simp]: "row_height (record_to_row r) = as_i64 (br_height r)"
  by (simp add: record_to_row_def)

lemma row_hash_record [simp]: "row_block_hash (record_to_row r) = br_block_hash r"
  by (simp add: record_to_row_def)

lemma tx_rows_height: "t \<in> set (tx_rows J h i ts) \<Longrightarrow> tr_height t = h \<and> i \<le> tr_index t"
  by (induction ts arbitrary: i) fastforce+

lemma tx_rows_filter [simp]:
  "filter (\<lambda>t. tr_height t = k) (tx_rows J h i ts) = (if k = h then tx_rows J h i ts else [])"
  by (auto simp: filter_empty_conv filter_id_conv dest: tx_rows_height)

lemma tx_rows_sorted: "sort_key tr_index (tx_rows J h i ts) = tx_rows J h i ts"
proof (rule sort_key_id_if_sorted)
  show "sorted (map tr_index (tx_rows J h i ts))"
  proof (induction ts arbitrary: i)
    case (Cons t ts)
    have "i \<le> tr_index x" if "x \<in> set (tx_rows J h (i + 1) ts)" for x
      using tx_rows_height [OF that] by simp
    with Cons [of "i + 1"] show ?case by auto
  qed simp
qed

lemma tx_rows_json: "map (\<lambda>t. tx_from_json J (tr_json t)) (tx_rows J h i ts)
    = map (\<lambda>t. tx_from_json J (tx_to_json J t)) ts"
  by (induction ts arbitrary: i) simp_all

lemma get_transactions_insert_same:
  assumes "json_ok J"
  shows "get_transactions J (insert_block J r s) (br_height r) = Inr (br_transactions r)"
proof -
  have "filter (\<lambda>t. tr_height t = as_i64 (br_height r)) (bs_txs (insert_block J r s))
      = tx_rows J (as_i64 (br_height r)) 0 (br_transactions r)"
    by (simp add: insert_block_def Let_def)
  with assms show ?thesis
    by (simp add: get_transactions_def tx_rows_sorted tx_rows_json)
qed

lemma get_transactions_insert_other:
  assumes "h \<noteq> br_height r"
  shows "get_transactions J (insert_block J r s) h = get_transactions J s h"
proof -
  have "filter (\<lambda>t. tr_height t = as_i64 h) (bs_txs (insert_block J r s))
      = filter (\<lambda>t. tr_height t = as_i64 h) (bs_txs s)"
    using assms by (auto simp: insert_block_def Let_def intro: filter_cong)
  then show ?thesis by (simp add: get_transactions_def)
qed

lemma find_append_if: "find p (xs @ ys) = (case find p xs of None \<Rightarrow> find p ys | Some x \<Rightarrow> Some x)"
  by (induction xs) simp_all

lemma find_filter_keep: "(\<And>x. x \<in> set xs \<Longrightarrow> p x \<Longrightarrow> q x) \<Longrightarrow> find p (filter q xs) = find p xs"
  by (induction xs) auto

lemma find_filter_none: "(\<And>x. x \<in> set xs \<Longrightarrow> p x \<Longrightarrow> \<not> q x) \<Longrightarrow> find p (filter q xs) = None"
  by (auto simp: find_None_iff)

lemma store_get_insert_same:
  assumes "json_ok J"
  shows "store_get J (insert_block J r s) (br_height r) = Inr (Some (as_stored r))"
proof -
  have "find (\<lambda>row. row_height row = as_i64 (br_height r)) (bs_blocks (insert_block J r s))
      = Some (record_to_row r)"
    by (simp add: insert_block_def Let_def find_append_if find_filter_none)
  with assms show ?thesis
    by (simp add: store_get_def get_transactions_insert_same row_record_round_trip)
qed

text \<open>No block of another height has this hash: the \<^verbatim>\<open>UNIQUE\<close> column removes nothing else.\<close>

definition hash_fresh :: "block_record \<Rightarrow> block_store \<Rightarrow> bool" where
  "hash_fresh r s \<longleftrightarrow>
     (\<forall>row \<in> set (bs_blocks s). row_block_hash row = br_block_hash r \<longrightarrow> row_height row = as_i64 (br_height r))"

lemma store_get_insert_other:
  assumes "hash_fresh r s" "h \<noteq> br_height r"
  shows "store_get J (insert_block J r s) h = store_get J s h"
proof -
  have "find (\<lambda>row. row_height row = as_i64 h) (bs_blocks (insert_block J r s))
      = find (\<lambda>row. row_height row = as_i64 h) (bs_blocks s)"
  proof -
    have "find (\<lambda>row. row_height row = as_i64 h)
        (filter (\<lambda>row. row_height row \<noteq> as_i64 (br_height r) \<and> row_block_hash row \<noteq> br_block_hash r) (bs_blocks s))
      = find (\<lambda>row. row_height row = as_i64 h) (bs_blocks s)"
      using assms by (intro find_filter_keep) (auto simp: hash_fresh_def)
    then show ?thesis
      using assms(2) by (simp add: insert_block_def Let_def find_append_if split: option.splits)
  qed
  then show ?thesis
    by (simp add: store_get_def get_transactions_insert_other [OF assms(2)] cong: option.case_cong)
qed

lemma as_i64_le: "small_height a \<Longrightarrow> small_height b \<Longrightarrow> as_i64 a \<le> as_i64 b \<longleftrightarrow> a \<le> b"
  by (simp add: as_i64_small word_le_def)

lemma get_transactions_rollback:
  assumes "small_height k" "small_height h" "h \<le> k"
  shows "get_transactions J (rollback_above k s) h = get_transactions J s h"
proof -
  have "filter (\<lambda>t. tr_height t = as_i64 h) (bs_txs (rollback_above k s))
      = filter (\<lambda>t. tr_height t = as_i64 h) (bs_txs s)"
    using as_i64_le [OF assms(2,1)] assms(3) by (auto simp: rollback_above_def intro: filter_cong)
  then show ?thesis by (simp add: get_transactions_def)
qed

lemma store_get_rollback:
  assumes "small_height k" "small_height h"
  shows "store_get J (rollback_above k s) h = (if h \<le> k then store_get J s h else Inr None)"
proof (cases "h \<le> k")
  case True
  have "find (\<lambda>row. row_height row = as_i64 h) (bs_blocks (rollback_above k s))
      = find (\<lambda>row. row_height row = as_i64 h) (bs_blocks s)"
    unfolding rollback_above_def using as_i64_le [OF assms(2,1)] True
    by (simp, intro find_filter_keep) auto
  with True show ?thesis
    by (simp add: store_get_def get_transactions_rollback assms cong: option.case_cong)
next
  case False
  have "find (\<lambda>row. row_height row = as_i64 h) (bs_blocks (rollback_above k s)) = None"
    unfolding rollback_above_def using as_i64_le [OF assms(2,1)] False
    by (simp, intro find_filter_none) auto
  with False show ?thesis by (simp add: store_get_def)
qed

section \<open>The store as a map from heights to records\<close>

definition store_lookup :: "serde \<Rightarrow> block_store \<Rightarrow> u64 \<Rightarrow> block_record option" where
  "store_lookup J s h = (case store_get J s h of Inl _ \<Rightarrow> None | Inr r \<Rightarrow> r)"

definition store_inv :: "serde \<Rightarrow> block_store \<Rightarrow> bool" where
  "store_inv J s \<longleftrightarrow> json_ok J \<and> distinct (map row_height (bs_blocks s))
     \<and> (\<forall>row \<in> set (bs_blocks s). 0 \<le> row_height row \<and> row_height row < 2 ^ 63)
     \<and> (\<forall>h. is_ok (get_transactions J s h))"

lemma store_get_lookup: "store_inv J s \<Longrightarrow> store_get J s h = Inr (store_lookup J s h)"
  by (auto simp: store_inv_def store_lookup_def store_get_def is_ok_iff split: option.splits sum.splits)
    (metis Inr_not_Inl res_bind_simps(2))

lemma get_transactions_empty: "filter (\<lambda>t. tr_height t = as_i64 h) (bs_txs s) = [] \<Longrightarrow> get_transactions J s h = Inr []"
  by (simp add: get_transactions_def)

lemma get_transactions_rollback_ok:
  assumes "is_ok (get_transactions J s h)"
  shows "is_ok (get_transactions J (rollback_above k s) h)"
proof (cases "as_i64 h > as_i64 k")
  case True
  then have "filter (\<lambda>t. tr_height t = as_i64 h) (bs_txs (rollback_above k s)) = []"
    by (auto simp: rollback_above_def filter_empty_conv)
  then show ?thesis by (simp add: get_transactions_empty)
next
  case False
  then have "filter (\<lambda>t. tr_height t = as_i64 h) (bs_txs (rollback_above k s))
      = filter (\<lambda>t. tr_height t = as_i64 h) (bs_txs s)"
    by (auto simp: rollback_above_def intro: filter_cong)
  with assms show ?thesis by (simp add: get_transactions_def)
qed

lemma store_inv_insert:
  assumes "store_inv J s" "small_height (br_height r)"
  shows "store_inv J (insert_block J r s)"
proof -
  have "is_ok (get_transactions J (insert_block J r s) h)" for h
    using assms(1) get_transactions_insert_same [of J r s] get_transactions_insert_other [of h r J s]
    by (cases "h = br_height r") (simp_all add: store_inv_def)
  moreover have "distinct (map row_height (bs_blocks (insert_block J r s)))"
    using assms(1) by (auto simp: store_inv_def insert_block_def Let_def distinct_map_filter)
  moreover have "0 \<le> as_i64 (br_height r) \<and> as_i64 (br_height r) < 2 ^ 63"
    by (rule as_i64_small_range [OF assms(2)])
  ultimately show ?thesis
    using assms(1) by (auto simp: store_inv_def insert_block_def Let_def)
qed

lemma store_inv_rollback: "store_inv J s \<Longrightarrow> store_inv J (rollback_above k s)"
  using get_transactions_rollback_ok [of J s _ k]
  by (auto simp: store_inv_def rollback_above_def distinct_map_filter)

lemma store_inv_open: "json_ok J \<Longrightarrow> store_inv J (store_open None)"
  by (simp add: store_inv_def store_open_def get_transactions_def)

lemma store_lookup_insert:
  assumes "store_inv J s" "hash_fresh r s"
  shows "store_lookup J (insert_block J r s) h
    = (if h = br_height r then Some (as_stored r) else store_lookup J s h)"
  using assms store_get_insert_same [of J r s] store_get_insert_other [OF assms(2), of h J]
  by (simp add: store_lookup_def store_inv_def)

lemma store_lookup_rollback:
  "small_height k \<Longrightarrow> small_height h \<Longrightarrow>
    store_lookup J (rollback_above k s) h = (if h \<le> k then store_lookup J s h else None)"
  by (simp add: store_lookup_def store_get_rollback)

lemma hash_fresh_rollback: "hash_fresh r s \<Longrightarrow> hash_fresh r (rollback_above k s)"
  by (auto simp: hash_fresh_def rollback_above_def)

lemma hash_fresh_insert: "hash_fresh r s \<Longrightarrow> br_block_hash r' \<noteq> br_block_hash r \<Longrightarrow> hash_fresh r (insert_block J r' s)"
  by (auto simp: hash_fresh_def insert_block_def Let_def)

section \<open>Ranges\<close>

definition row_at :: "block_store \<Rightarrow> int \<Rightarrow> block_row option" where
  "row_at s i = find (\<lambda>row. row_height row = i) (bs_blocks s)"

lemma row_at_mem:
  assumes "store_inv J s" "row \<in> set (bs_blocks s)"
  shows "row_at s (row_height row) = Some row"
proof -
  obtain x where x: "find (\<lambda>r. row_height r = row_height row) (bs_blocks s) = Some x"
    using assms(2) by (cases "find (\<lambda>r. row_height r = row_height row) (bs_blocks s)") (auto simp: find_None_iff)
  then have "x \<in> set (bs_blocks s)" "row_height x = row_height row"
    by (auto simp: find_Some_iff)
  with assms have "x = row"
    by (auto simp: store_inv_def distinct_map dest: inj_onD)
  with x show ?thesis by (simp add: row_at_def)
qed

lemma row_at_SomeD: "row_at s i = Some row \<Longrightarrow> row \<in> set (bs_blocks s) \<and> row_height row = i"
  by (auto simp: row_at_def find_Some_iff)

lemma sorted_range_rows:
  assumes "store_inv J s"
  shows "sort_key row_height (filter (\<lambda>row. a \<le> row_height row \<and> row_height row \<le> b) (bs_blocks s))
    = List.map_filter (row_at s) [a..b]"
proof -
  let ?L = "sort_key row_height (filter (\<lambda>row. a \<le> row_height row \<and> row_height row \<le> b) (bs_blocks s))"
  have "map row_height ?L = filter (\<lambda>i. row_at s i \<noteq> None) [a..b]"
  proof (rule sorted_distinct_set_unique)
    show "distinct (map row_height ?L)"
      using assms by (simp add: store_inv_def distinct_map inj_on_subset distinct_filter)
        (metis (no_types, lifting) inj_on_subset mem_Collect_eq subsetI)
    show "set (map row_height ?L) = set (filter (\<lambda>i. row_at s i \<noteq> None) [a..b])"
      using row_at_mem [OF assms] by (force dest: row_at_SomeD)
  qed (simp_all add: sorted_wrt_filter)
  moreover have "?L = map (\<lambda>i. the (row_at s i)) (map row_height ?L)"
    unfolding map_map by (rule map_idI [symmetric]) (simp add: row_at_mem [OF assms])
  ultimately show ?thesis
    by (simp add: List.map_filter_def comp_def)
qed

lemma read_rows_lookup:
  assumes "store_inv J s" "set rows \<subseteq> set (bs_blocks s)"
  shows "read_rows J s rows = Inr (map (\<lambda>row. the (store_lookup J s (as_u64 (row_height row)))) rows)"
  using assms(2)
proof (induction rows)
  case (Cons row rows)
  let ?h = "as_u64 (row_height row)"
  have row: "row \<in> set (bs_blocks s)" using Cons.prems by simp
  then have "as_i64 ?h = row_height row"
    using assms(1) by (intro as_i64_u64) (simp_all add: store_inv_def)
  then have "store_get J s ?h
      = res_bind (get_transactions J s ?h) (\<lambda>txs. Inr (Some ((row_to_record row)\<lparr>br_transactions := txs\<rparr>)))"
    using row_at_mem [OF assms(1) row] by (simp add: store_get_def row_at_def)
  moreover obtain txs where "get_transactions J s ?h = Inr txs"
    using assms(1) by (auto simp: store_inv_def is_ok_iff)
  moreover have "br_height (row_to_record row) = ?h"
    by (simp add: row_to_record_def Let_def)
  ultimately show ?case
    using Cons by (simp add: with_transactions_def store_lookup_def)
qed simp

lemma map_take_filter: "map f (take n (List.map_filter g xs)) = take n (map f (List.map_filter g xs))"
  by (simp add: take_map)

lemma map_filter_cong: "(\<And>x. x \<in> set xs \<Longrightarrow> f x = g x) \<Longrightarrow> List.map_filter f xs = List.map_filter g xs"
  by (induction xs) (simp_all add: List.map_filter_simps split: option.splits)

lemma map_map_filter: "map f (List.map_filter g xs) = List.map_filter (map_option f \<circ> g) xs"
  by (induction xs) (simp_all add: List.map_filter_simps split: option.splits)

lemma map_filter_map: "List.map_filter g (map f xs) = List.map_filter (g \<circ> f) xs"
  by (induction xs) (simp_all add: List.map_filter_simps split: option.splits)

lemma store_lookup_row:
  assumes "store_inv J s"
  shows "store_lookup J s h = None \<longleftrightarrow> row_at s (as_i64 h) = None"
  using store_get_lookup [OF assms, of h] assms
  by (auto simp: store_get_def row_at_def store_inv_def is_ok_iff split: option.splits)
    (metis Inr_inject option.distinct(1) res_bind_simps(2))

lemma map_int_upt: "map int [a..<Suc b] = [int a..int b]"
proof (rule sorted_distinct_set_unique)
  have "i \<in> int ` {a..b}" if "int a \<le> i" "i \<le> int b" for i
    using that by (intro image_eqI [of _ _ "nat i"]) auto
  then show "set (map int [a..<Suc b]) = set [int a..int b]"
    unfolding set_map set_upt atLeastLessThanSuc_atLeastAtMost set_upto by auto
  show "sorted (map int [a..<Suc b])"
    by (simp add: sorted_map sorted_wrt_append flip: upt_Suc)
qed (simp_all add: distinct_map del: upt_Suc)

lemma upto_as_nats: "small_height a \<Longrightarrow> small_height b \<Longrightarrow> [as_i64 a..as_i64 b] = map int [unat a..<Suc (unat b)]"
  by (simp only: as_i64_small map_int_upt)

lemma get_range_lookup:
  assumes inv: "store_inv J s" and small: "small_height a" "small_height b" "small_height c"
  shows "get_range J s a b c
    = Inr (take (unat c) (List.map_filter (\<lambda>i. store_lookup J s (of_nat i)) [unat a..<Suc (unat b)]))"
proof -
  let ?rows = "List.map_filter (row_at s) [as_i64 a..as_i64 b]"
  have lim: "sql_limit c xs = take (unat c) xs" for xs :: "block_row list"
    unfolding sql_limit_def as_i64_small [OF small(3)] by simp
  have "set (take (unat c) ?rows) \<subseteq> set (bs_blocks s)"
    using row_at_SomeD by (fastforce simp: List.map_filter_def dest!: in_set_takeD)
  then have "get_range J s a b c
      = Inr (map (\<lambda>row. the (store_lookup J s (as_u64 (row_height row)))) (take (unat c) ?rows))"
    unfolding get_range_def sorted_range_rows [OF inv] lim by (rule read_rows_lookup [OF inv])
  also have "\<dots> = Inr (take (unat c) (List.map_filter
      (map_option (\<lambda>row. the (store_lookup J s (as_u64 (row_height row)))) \<circ> row_at s) [as_i64 a..as_i64 b]))"
    by (simp only: map_take_filter map_map_filter)
  also have "List.map_filter (map_option (\<lambda>row. the (store_lookup J s (as_u64 (row_height row)))) \<circ> row_at s)
        [as_i64 a..as_i64 b]
      = List.map_filter (\<lambda>i. store_lookup J s (of_nat i)) [unat a..<Suc (unat b)]"
    unfolding upto_as_nats [OF small(1,2)] map_filter_map
  proof (rule map_filter_cong)
    fix i assume "i \<in> set [unat a..<Suc (unat b)]"
    then have "i \<le> unat b" unfolding set_upt by simp
    then have "i < 2 ^ 63" using small(2) unfolding small_height_def by (rule le_less_trans)
    then have u: "unat (of_nat i :: u64) = i" by (simp add: unat_of_nat)
    then have "small_height (of_nat i)" using \<open>i < 2 ^ 63\<close> by (simp add: small_height_def)
    then have i: "as_i64 (of_nat i) = int i" using u by (simp only: as_i64_small)
    have "as_u64 (int i) = of_nat i" by (simp add: as_u64_def)
    with i store_lookup_row [OF inv, of "of_nat i"]
    show "((map_option (\<lambda>row. the (store_lookup J s (as_u64 (row_height row)))) \<circ> row_at s) \<circ> int) i
        = store_lookup J s (of_nat i)"
      by (cases "row_at s (int i)") (auto dest: row_at_SomeD)
  qed
  finally show ?thesis .
qed

text \<open>
  What the chain code needs of a store of blocks: inserting a block whose hash is new at other
  heights changes the map at its height only, a rollback forgets exactly the heights above.
\<close>

locale block_archive =
  fixes lookup :: "'s \<Rightarrow> u64 \<Rightarrow> 'r option"
    and ins :: "'r \<Rightarrow> 's \<Rightarrow> 's"
    and rollback :: "u64 \<Rightarrow> 's \<Rightarrow> 's"
    and inv :: "'s \<Rightarrow> bool"
    and height :: "'r \<Rightarrow> u64"
    and hash :: "'r \<Rightarrow> 'h"
    and fresh :: "'r \<Rightarrow> 's \<Rightarrow> bool"
    and stored :: "'r \<Rightarrow> 'r"
  assumes lookup_ins: "inv s \<Longrightarrow> fresh r s \<Longrightarrow> lookup (ins r s) h = (if h = height r then Some (stored r) else lookup s h)"
    and lookup_rollback: "small_height k \<Longrightarrow> small_height h \<Longrightarrow>
          lookup (rollback k s) h = (if h \<le> k then lookup s h else None)"
    and inv_ins: "inv s \<Longrightarrow> small_height (height r) \<Longrightarrow> inv (ins r s)"
    and inv_rollback: "inv s \<Longrightarrow> inv (rollback k s)"
    and fresh_rollback: "fresh r s \<Longrightarrow> fresh r (rollback k s)"
    and fresh_ins: "fresh r s \<Longrightarrow> hash r' \<noteq> hash r \<Longrightarrow> fresh r (ins r' s)"
begin

text \<open>Appending a branch: blocks with increasing heights and hashes of their own.\<close>

lemma inv_append: "inv s \<Longrightarrow> \<forall>r \<in> set rs. small_height (height r) \<Longrightarrow> inv (fold ins rs s)"
  by (induction rs arbitrary: s) (simp_all add: inv_ins)

lemma fresh_append:
  "fresh r s \<Longrightarrow> \<forall>r' \<in> set rs. hash r' \<noteq> hash r \<Longrightarrow> fresh r (fold ins rs s)"
  by (induction rs arbitrary: s) (simp_all add: fresh_ins)

lemma lookup_append:
  assumes "inv s" "\<forall>r \<in> set rs. small_height (height r) \<and> fresh r s" "distinct (map hash rs)"
  shows "h \<notin> height ` set rs \<Longrightarrow> lookup (fold ins rs s) h = lookup s h"
  using assms
proof (induction rs arbitrary: s)
  case (Cons r rs)
  have "lookup (fold ins rs (ins r s)) h = lookup (ins r s) h"
    using Cons.prems by (intro Cons.IH) (auto simp: inv_ins intro: fresh_ins)
  with Cons.prems show ?case by (simp add: lookup_ins)
qed simp

text \<open>A reorganisation: everything up to the fork point is as before.\<close>

lemma lookup_adopt_below:
  assumes "inv s" "small_height k" "small_height h" "h \<le> k"
    and "\<forall>r \<in> set rs. small_height (height r) \<and> fresh r s \<and> k < height r" "distinct (map hash rs)"
  shows "lookup (fold ins rs (rollback k s)) h = lookup s h"
proof -
  have "h \<notin> height ` set rs" using assms(4,5) by (auto simp: not_le [symmetric])
  then have "lookup (fold ins rs (rollback k s)) h = lookup (rollback k s) h"
    using assms by (intro lookup_append) (auto simp: inv_rollback fresh_rollback)
  with assms(2-4) show ?thesis by (simp add: lookup_rollback)
qed

text \<open>And above it the store holds the adopted branch and nothing else.\<close>

lemma lookup_adopt_above:
  assumes "inv s" "small_height k" "small_height h" "k < h"
    and "\<forall>r \<in> set rs. small_height (height r) \<and> fresh r s" "distinct (map hash rs)"
    and "distinct (map height rs)"
  shows "lookup (fold ins rs (rollback k s)) h = map_option stored (find (\<lambda>r. height r = h) rs)"
proof -
  have "lookup (fold ins rs s') h = (case find (\<lambda>r. height r = h) rs of None \<Rightarrow> lookup s' h | Some r \<Rightarrow> Some (stored r))"
    if "inv s'" "\<forall>r \<in> set rs. fresh r s'" for s'
    using assms(5-7) that
  proof (induction rs arbitrary: s')
    case (Cons r rs)
    have "inv (ins r s')" "\<forall>x \<in> set rs. fresh x (ins r s')"
      using Cons.prems by (auto simp: inv_ins intro!: fresh_ins)
    then have IH: "lookup (fold ins rs (ins r s')) h
        = (case find (\<lambda>r. height r = h) rs of None \<Rightarrow> lookup (ins r s') h | Some r \<Rightarrow> Some (stored r))"
      using Cons by simp
    have "find (\<lambda>x. height x = h) rs = None" if "height r = h"
      using Cons.prems(3) that by (auto simp: find_None_iff image_iff)
    with IH Cons.prems show ?case by (auto simp: lookup_ins cong: option.case_cong)
  qed simp
  from this [of "rollback k s"] assms show ?thesis
    by (auto simp: inv_rollback fresh_rollback lookup_rollback split: option.splits)
qed

end

interpretation sq: block_archive "store_lookup J" "insert_block J" rollback_above "store_inv J"
    br_height br_block_hash hash_fresh as_stored for J
  by unfold_locales
    (simp_all add: store_lookup_insert store_lookup_rollback store_inv_insert store_inv_rollback
      hash_fresh_rollback hash_fresh_insert)

interpretation mem: dictionary "\<lambda>s. hm_get (bs_mempool s)" mempool_put mempool_del "\<lambda>s. hm_wf (bs_mempool s)"
  by unfold_locales (simp_all add: mempool_put_def mempool_del_def)

lemma map_filter_upt_none:
  "(\<And>i. i \<in> set xs \<Longrightarrow> f i = None) \<Longrightarrow> List.map_filter f xs = []"
  by (induction xs) (simp_all add: List.map_filter_simps)

lemma store_wf_after_insert:
  "json_ok J \<Longrightarrow> small_height (br_height r) \<Longrightarrow> store_inv J (insert_block J r (store_open None))"
  by (rule store_inv_insert [OF store_inv_open])

section \<open>Properties\<close>

definition sample_record :: "u64 \<Rightarrow> string \<Rightarrow> block_record" where
  "sample_record h hash =
     \<lparr>br_height = h, br_block_hash = hash, br_prev_hash = [], br_nonce = 0, br_timestamp = 0,
      br_mined_timestamp_secs = 0, br_zero_bits = 0, br_difficulty_bits = 0, br_hashes_tried = 0,
      br_elapsed_ms = 0, br_hashrate_mhs = 0, br_miner_address = [], br_miner_public_key = [],
      br_miner_signature = [], br_claim_digest = [], br_election_score = [], br_source = [],
      br_reward_bina = 0, br_randomness_output = [], br_nullifier = [], br_btc_seed = [],
      br_btc_height = 0, br_merkle_root = [], br_state_root = [], br_chain_work_hex = [],
      br_transactions = []\<rparr>"

lemma sample_record_sel [simp]:
  "br_height (sample_record h x) = h" "br_block_hash (sample_record h x) = x"
  by (simp_all add: sample_record_def)

lemma hash_fresh_open [simp]: "hash_fresh r (store_open None)"
  by (simp add: hash_fresh_def store_open_def)

text \<open>C17: The tables implement a map from heights to block records: inserting a block, with its list of
  transactions, whose hash no other height has updates the map at its height, a rollback restricts
  it to the heights up to its argument, both keep the store consistent, and every read succeeds.\<close>

theorem store_implements_map:
  assumes "store_inv J s" "hash_fresh r s"
    and "small_height (br_height r)" "small_height k"
  shows "store_lookup J (insert_block J r s) = (store_lookup J s)(br_height r \<mapsto> as_stored r)
    \<and> store_inv J (insert_block J r s) \<and> store_inv J (rollback_above k s)
    \<and> (\<forall>h. store_get J s h = Inr (store_lookup J s h))
    \<and> (\<forall>h. small_height h \<longrightarrow>
         store_lookup J (rollback_above k s) h = (if h \<le> k then store_lookup J s h else None))"
  using assms store_lookup_insert [OF assms(1,2)] store_lookup_rollback [OF assms(4), of _ J s]
    store_inv_insert [OF assms(1,3)] store_inv_rollback [OF assms(1)] store_get_lookup [OF assms(1)]
  by (simp add: fun_eq_iff)

theorem store_implements_map_witness:
  "store_lookup sample_serde (insert_block sample_serde (sample_record 1 ''a'') (store_open None)) 1
     = Some (as_stored (sample_record 1 ''a''))"
  using store_implements_map [OF store_inv_open [OF sample_json_ok] hash_fresh_open,
      of "sample_record 1 ''a''" 5]
  by (simp add: small_height_def)

text \<open>A range query returns the stored blocks of the inclusive range of heights in height order, cut
  at the limit, whatever the order in which the rows were inserted, and does not fail.\<close>

theorem get_range_exact:
  assumes "store_inv J s" "small_height a" "small_height b" "small_height n"
  shows "get_range J s a b n
    = Inr (take (unat n) (List.map_filter (\<lambda>i. store_lookup J s (of_nat i)) [unat a..<Suc (unat b)]))"
  by (rule get_range_lookup [OF assms])

definition sample_store :: block_store where
  "sample_store = insert_block sample_serde (sample_record 1 ''a'')
     (insert_block sample_serde (sample_record 2 ''b'') (store_open None))"

lemma sample_store_inv: "store_inv sample_serde sample_store"
  unfolding sample_store_def
  by (intro store_inv_insert store_inv_open sample_json_ok) (simp_all add: small_height_def)

lemma sample_store_lookup:
  "store_lookup sample_serde sample_store h
    = (if h = 1 then Some (as_stored (sample_record 1 ''a''))
       else if h = 2 then Some (as_stored (sample_record 2 ''b'')) else None)"
proof -
  have inv: "store_inv sample_serde (insert_block sample_serde (sample_record 2 ''b'') (store_open None))"
    by (rule store_wf_after_insert [OF sample_json_ok]) (simp add: small_height_def)
  have fresh: "hash_fresh (sample_record 1 ''a'') (insert_block sample_serde (sample_record 2 ''b'') (store_open None))"
    by (rule hash_fresh_insert) simp_all
  have "store_lookup sample_serde (store_open None) h = None"
    by (simp add: store_lookup_def store_get_def store_open_def)
  then show ?thesis
    unfolding sample_store_def
    by (simp add: store_lookup_insert [OF inv fresh] store_lookup_insert [OF store_inv_open [OF sample_json_ok] hash_fresh_open])
qed

theorem get_range_exact_witness:
  "get_range sample_serde sample_store 0 3 1 = Inr [as_stored (sample_record 1 ''a'')]"
proof -
  have "[unat (0::u64)..<Suc (unat (3::u64))] = [0, 1, 2, 3]"
    by (simp add: upt_rec)
  then show ?thesis
    using get_range_exact [OF sample_store_inv, of 0 3 1]
    by (simp add: small_height_def List.map_filter_simps sample_store_lookup)
qed

text \<open>After a reorganisation, rolling back to the fork point and inserting the adopted branch, the
  store holds the old blocks up to the fork point and exactly the branch above it.\<close>

theorem store_after_reorg:
  assumes "store_inv J s" "small_height k" "small_height h"
    and "\<forall>r \<in> set rs. small_height (br_height r) \<and> hash_fresh r s \<and> k < br_height r"
    and "distinct (map br_block_hash rs)" "distinct (map br_height rs)"
  shows "store_lookup J (fold (insert_block J) rs (rollback_above k s)) h
    = (if h \<le> k then store_lookup J s h else map_option as_stored (find (\<lambda>r. br_height r = h) rs))"
proof (cases "h \<le> k")
  case True
  then show ?thesis using sq.lookup_adopt_below [OF assms(1-3) True assms(4,5)] by simp
next
  case False
  then have "k < h" by simp
  then show ?thesis
    using sq.lookup_adopt_above [OF assms(1-3) \<open>k < h\<close> _ assms(5,6)] assms(4) False by simp
qed

theorem store_after_reorg_witness:
  "store_lookup sample_serde
     (fold (insert_block sample_serde) [sample_record 2 ''c''] (rollback_above 1 sample_store)) 2
   = Some (as_stored (sample_record 2 ''c''))"
proof -
  have "hash_fresh (sample_record 2 ''c'') sample_store"
    unfolding sample_store_def by (intro hash_fresh_insert hash_fresh_open) simp_all
  then show ?thesis
    using store_after_reorg [OF sample_store_inv, of 1 2 "[sample_record 2 ''c'']"]
    by (simp add: small_height_def word_less_nat_alt word_le_nat_alt)
qed

end
