(* ===== verification/Node_State.thy ===== *)
theory Node_State
  imports Block_Store Block_Execution Difficulty Randomness Envelope
begin

text \<open>
  The shared state of the node (\<^verbatim>\<open>node/src/main.rs\<close>, \<^verbatim>\<open>NodeState\<close>, the ledger and the block store) and
  the two ways the network changes it: \<^verbatim>\<open>accept_signed_claim\<close> admits a candidate for the next block,
  \<^verbatim>\<open>enqueue_transaction\<close> a pending transaction. Clocks are arguments. The three phases of
  \<^verbatim>\<open>accept_signed_claim\<close> take the lock separately: \<open>accept_check\<close> is what the first two read,
  \<open>accept_admit\<close> the third. The election between pending claims is the second interpretation of the
  locale \<open>election\<close>.
\<close>

section \<open>State\<close>

definition NETWORK_ID :: string where "NETWORK_ID = ''bina-l1''"
definition DEFAULT_P2P_TTL :: u8 where "DEFAULT_P2P_TTL = 8"
definition MAX_PEERS :: nat where "MAX_PEERS = 128"
definition MAX_FUTURE_MS :: u64 where "MAX_FUTURE_MS = 30000"
definition BTC_HEIGHT_TOLERANCE :: u64 where "BTC_HEIGHT_TOLERANCE = 2"
definition MAX_MEMPOOL_SIZE :: nat where "MAX_MEMPOOL_SIZE = 50000"

record pending_claim =
  pc_claim :: signed_claim
  pc_btc_checkpoint :: "btc_checkpoint_proof option"
  pc_transactions :: "signed_transaction list"

record node_state =
  ns_genesis_hash :: bytes
  ns_tip_hash :: bytes
  ns_chain_height :: u64
  ns_pending_claims :: "(u64, (string, pending_claim) hmap) hmap"
  ns_mempool :: "(bytes, signed_transaction) hmap"
  ns_nullifiers :: nullifier_set
  ns_total_hashes :: u64
  ns_total_time_ms :: u64
  ns_started_at :: u64
  ns_threads :: nat
  ns_last_observed_btc :: btc_entropy_state
  ns_btc_seed_hash :: bytes
  ns_btc_seed_changed_at :: u64
  ns_btc_checkpoint_tip_height :: u64
  ns_difficulty_bits :: u32
  ns_last_block_timestamp_ms :: u64
  ns_chain_work :: u128
  ns_miner_address :: string
  ns_total_mined_bina :: u64
  ns_current_reward :: u64
  ns_last_adjustment :: "adjustment_info option"

text \<open>What the handlers and the mining loop share behind locks.\<close>

record node =
  nd_state :: node_state
  nd_ledger :: ledger
  nd_store :: block_store

text \<open>The state a process starts with (\<^verbatim>\<open>main\<close>).\<close>

definition initial_state :: "u64 \<Rightarrow> u64 \<Rightarrow> nat \<Rightarrow> node_state" where
  "initial_state started_at now_secs threads =
     \<lparr>ns_genesis_hash = zeros 32, ns_tip_hash = zeros 32, ns_chain_height = 0, ns_pending_claims = [],
      ns_mempool = [], ns_nullifiers = [], ns_total_hashes = 0, ns_total_time_ms = 0,
      ns_started_at = started_at, ns_threads = threads, ns_last_observed_btc = btc_state_mock,
      ns_btc_seed_hash = zeros 32, ns_btc_seed_changed_at = now_secs, ns_btc_checkpoint_tip_height = 0,
      ns_difficulty_bits = MIN_BITS, ns_last_block_timestamp_ms = 0, ns_chain_work = 0,
      ns_miner_address = [], ns_total_mined_bina = 0, ns_current_reward = INITIAL_BLOCK_REWARD,
      ns_last_adjustment = None\<rparr>"

section \<open>Pending claims\<close>

definition pending_is_better :: "prims \<Rightarrow> pending_claim \<Rightarrow> pending_claim \<Rightarrow> bool" where
  "pending_is_better P candidate winner = claim_is_better P (pc_claim candidate) (pc_claim winner)"

definition select_winning_pending :: "prims \<Rightarrow> pending_claim list \<Rightarrow> pending_claim option" where
  "select_winning_pending P claims = select_best (pending_is_better P) claims"

definition pending_at :: "node_state \<Rightarrow> u64 \<Rightarrow> (string, pending_claim) hmap" where
  "pending_at s height = hm_get_or [] (ns_pending_claims s) height"

text \<open>\<^verbatim>\<open>pending_claims.retain(|h, _| *h > height)\<close>.\<close>

definition retain_above :: "u64 \<Rightarrow> (u64, 'v) hmap \<Rightarrow> (u64, 'v) hmap" where
  "retain_above height m = filter (\<lambda>(h, _). h > height) m"

interpretation pending: election "pending_is_better P" "\<lambda>p. claim_block_hash P (pc_claim p)" for P
  unfolding pending_is_better_def by unfold_locales (fact claim_rank_laws)+

section \<open>Accepting a claim\<close>

datatype status_code = OK_200 | BAD_REQUEST | NOT_FOUND | CONFLICT | INTERNAL_SERVER_ERROR | BAD_GATEWAY
  | SERVICE_UNAVAILABLE | TOO_MANY_REQUESTS | PAYLOAD_TOO_LARGE | METHOD_NOT_ALLOWED

datatype claim_reject =
    RejectClaim claim_error
  | RejectTooManyTransactions nat
  | RejectMerkleRoot
  | RejectNoGenesis
  | RejectHeight u64 u64
  | RejectPrevHash
  | RejectDifficulty
  | RejectTimestamp
  | RejectNoCheckpointProof
  | RejectProofSeed
  | RejectImplausible u64 u64 u64
  | RejectPinnedSeed
  | RejectTransactions
  | RejectStateRoot
  | RejectSecondClaim

fun reject_status :: "claim_reject \<Rightarrow> status_code" where
  "reject_status (RejectClaim e) = BAD_REQUEST"
| "reject_status (RejectTooManyTransactions n) = BAD_REQUEST"
| "reject_status RejectMerkleRoot = BAD_REQUEST"
| "reject_status RejectNoGenesis = SERVICE_UNAVAILABLE"
| "reject_status (RejectHeight h n) = CONFLICT"
| "reject_status RejectPrevHash = CONFLICT"
| "reject_status RejectDifficulty = CONFLICT"
| "reject_status RejectTimestamp = BAD_REQUEST"
| "reject_status RejectNoCheckpointProof = BAD_REQUEST"
| "reject_status RejectProofSeed = BAD_REQUEST"
| "reject_status (RejectImplausible a b c) = CONFLICT"
| "reject_status RejectPinnedSeed = CONFLICT"
| "reject_status RejectTransactions = BAD_REQUEST"
| "reject_status RejectStateRoot = BAD_REQUEST"
| "reject_status RejectSecondClaim = CONFLICT"

record accepted_claim =
  ac_height :: u64
  ac_miner_hex :: string
  ac_block_hash :: string
  ac_election_score :: string
  ac_work_bits :: nat

definition accept_payload :: "prims \<Rightarrow> signed_claim \<Rightarrow> signed_transaction list \<Rightarrow> claim_reject + unit" where
  "accept_payload P claim transactions =
     res_bind (map_err RejectClaim (claim_verify P claim)) (\<lambda>_.
       if length transactions > MAX_TXS_PER_BLOCK then Inl (RejectTooManyTransactions (length transactions))
       else if merkle_root P transactions \<noteq> h_merkle_root (sc_header claim) then Inl RejectMerkleRoot
       else Inr ())"

definition accept_checkpoint ::
    "prims \<Rightarrow> node_state \<Rightarrow> l1_header \<Rightarrow> btc_checkpoint_proof option \<Rightarrow> claim_reject + unit" where
  "accept_checkpoint P s header btc_checkpoint =
     (if is_checkpoint_height (h_height header)
      then (case btc_checkpoint of
          None \<Rightarrow> Inl RejectNoCheckpointProof
        | Some proof \<Rightarrow>
            if checkpoint_seed_hash P proof \<noteq> h_bitcoin_seed_hash header then Inl RejectProofSeed
            else if \<not> checkpoint_plausible proof (ns_btc_checkpoint_tip_height s)
                        (be_tip_height (ns_last_observed_btc s)) BTC_HEIGHT_TOLERANCE
            then Inl (RejectImplausible (cp_tip_height proof) (ns_btc_checkpoint_tip_height s)
                        (be_tip_height (ns_last_observed_btc s)))
            else Inr ())
      else if h_bitcoin_seed_hash header \<noteq> ns_btc_seed_hash s then Inl RejectPinnedSeed
      else Inr ())"

text \<open>Phase 1; the result is the reward of the block.\<close>

definition accept_structure :: "prims \<Rightarrow> u64 \<Rightarrow> node_state \<Rightarrow> signed_claim
    \<Rightarrow> btc_checkpoint_proof option \<Rightarrow> claim_reject + u64" where
  "accept_structure P now_ms s claim btc_checkpoint =
     (let header = sc_header claim; height = h_height header; next_height = ns_chain_height s + 1 in
      if ns_genesis_hash s = zeros 32 then Inl RejectNoGenesis
      else if height \<noteq> next_height then Inl (RejectHeight height next_height)
      else if h_prev_hash header \<noteq> ns_tip_hash s then Inl RejectPrevHash
      else if h_difficulty_bits header \<noteq> ns_difficulty_bits s then Inl RejectDifficulty
      else if \<not> timestamp_is_valid (h_timestamp header) (ns_last_block_timestamp_ms s) now_ms MAX_FUTURE_MS
      then Inl RejectTimestamp
      else res_bind (accept_checkpoint P s header btc_checkpoint) (\<lambda>_.
             Inr (block_reward height (ns_total_mined_bina s))))"

text \<open>Phase 2.\<close>

definition accept_execution :: "prims \<Rightarrow> ledger \<Rightarrow> signed_claim \<Rightarrow> signed_transaction list \<Rightarrow> u64
    \<Rightarrow> claim_reject + unit" where
  "accept_execution P l claim transactions reward =
     (let (applied, computed_state_root) =
            simulate_block_execution P l transactions (claim_miner_address_hex P claim) reward in
      if length applied \<noteq> length transactions then Inl RejectTransactions
      else if computed_state_root \<noteq> h_state_root (sc_header claim) then Inl RejectStateRoot
      else Inr ())"

definition accept_check :: "prims \<Rightarrow> u64 \<Rightarrow> node_state \<Rightarrow> ledger \<Rightarrow> signed_claim
    \<Rightarrow> btc_checkpoint_proof option \<Rightarrow> signed_transaction list \<Rightarrow> claim_reject + unit" where
  "accept_check P now_ms s l claim btc_checkpoint transactions =
     res_bind (accept_payload P claim transactions) (\<lambda>_.
     res_bind (accept_structure P now_ms s claim btc_checkpoint) (\<lambda>reward.
       accept_execution P l claim transactions reward))"

text \<open>Phase 3: the entry for the height is created even when the claim is then refused.\<close>

definition accept_admit :: "prims \<Rightarrow> pending_claim \<Rightarrow> node_state \<Rightarrow> (claim_reject + accepted_claim) \<times> node_state" where
  "accept_admit P p s =
     (let claim = pc_claim p; height = h_height (sc_header claim);
          miner_hex = claim_miner_address_hex P claim; claims = pending_at s height in
      if hm_has claims miner_hex
      then (Inl RejectSecondClaim, s\<lparr>ns_pending_claims := hm_insert height claims (ns_pending_claims s)\<rparr>)
      else (Inr \<lparr>ac_height = height, ac_miner_hex = miner_hex, ac_block_hash = claim_block_hash_hex P claim,
                 ac_election_score = claim_election_score_hex P claim, ac_work_bits = claim_work_bits P claim\<rparr>,
            s\<lparr>ns_pending_claims := hm_insert height (hm_insert miner_hex p claims) (ns_pending_claims s)\<rparr>))"

definition accept_signed_claim :: "prims \<Rightarrow> u64 \<Rightarrow> signed_claim \<Rightarrow> btc_checkpoint_proof option
    \<Rightarrow> signed_transaction list \<Rightarrow> node \<Rightarrow> (claim_reject + accepted_claim) \<times> node" where
  "accept_signed_claim P now_ms claim btc_checkpoint transactions nd =
     (case accept_check P now_ms (nd_state nd) (nd_ledger nd) claim btc_checkpoint transactions of
        Inl e \<Rightarrow> (Inl e, nd)
      | Inr _ \<Rightarrow>
          let p = \<lparr>pc_claim = claim, pc_btc_checkpoint = btc_checkpoint, pc_transactions = transactions\<rparr>;
              (r, s) = accept_admit P p (nd_state nd) in
          (r, nd\<lparr>nd_state := s\<rparr>))"

section \<open>Queueing a transaction\<close>

datatype enqueue_error =
    EnqueueInvalid tx_error
  | EnqueueNonce u64 u64
  | EnqueueOverflow
  | EnqueueBalance u64 u64
  | EnqueueFull

definition enqueue_check :: "prims \<Rightarrow> ledger \<Rightarrow> signed_transaction \<Rightarrow> enqueue_error + unit" where
  "enqueue_check P l s =
     res_bind (map_err EnqueueInvalid (stx_verify P s)) (\<lambda>_.
       let from_addr = stx_from_hex P s; expected_nonce = ledger_nonce l from_addr in
       if tx_nonce (stx_tx s) \<noteq> expected_nonce then Inl (EnqueueNonce expected_nonce (tx_nonce (stx_tx s)))
       else case checked_add (tx_amount (stx_tx s)) (tx_fee (stx_tx s)) of
           None \<Rightarrow> Inl EnqueueOverflow
         | Some debit_total \<Rightarrow>
             let balance = ledger_balance l from_addr in
             if balance < debit_total then Inl (EnqueueBalance balance debit_total) else Inr ())"

definition enqueue_transaction :: "prims \<Rightarrow> serde \<Rightarrow> signed_transaction \<Rightarrow> node \<Rightarrow> (enqueue_error + unit) \<times> node" where
  "enqueue_transaction P J s nd =
     (case enqueue_check P (nd_ledger nd) s of
        Inl e \<Rightarrow> (Inl e, nd)
      | Inr _ \<Rightarrow>
          let pool = ns_mempool (nd_state nd) in
          if length pool \<ge> MAX_MEMPOOL_SIZE \<and> \<not> hm_has pool (stx_tx_id P s) then (Inl EnqueueFull, nd)
          else (Inr (),
                nd\<lparr>nd_state := (nd_state nd)\<lparr>ns_mempool := hm_insert (stx_tx_id P s) s pool\<rparr>,
                   nd_store := mempool_insert P J s (nd_store nd)\<rparr>))"

section \<open>What an accepted claim satisfies\<close>

text \<open>A candidate for the next block of a chain: its tip, height, required difficulty, pinned seed, last
  timestamp and mined total, and the ledger.\<close>

definition candidate_ok :: "prims \<Rightarrow> node_state \<Rightarrow> ledger \<Rightarrow> pending_claim \<Rightarrow> bool" where
  "candidate_ok P s l p \<longleftrightarrow>
     (let header = sc_header (pc_claim p) in
      claim_verify P (pc_claim p) = Inr ()
      \<and> length (pc_transactions p) \<le> MAX_TXS_PER_BLOCK
      \<and> merkle_root P (pc_transactions p) = h_merkle_root header
      \<and> h_height header = ns_chain_height s + 1
      \<and> h_prev_hash header = ns_tip_hash s
      \<and> h_difficulty_bits header = ns_difficulty_bits s
      \<and> ns_last_block_timestamp_ms s < h_timestamp header
      \<and> (if is_checkpoint_height (h_height header)
         then \<exists>proof. pc_btc_checkpoint p = Some proof \<and> checkpoint_seed_hash P proof = h_bitcoin_seed_hash header
         else h_bitcoin_seed_hash header = ns_btc_seed_hash s)
      \<and> simulate_block_execution P l (pc_transactions p) (claim_miner_address_hex P (pc_claim p))
          (block_reward (h_height header) (ns_total_mined_bina s))
        = (pc_transactions p, h_state_root header))"

lemma exec_txs_all: "length (fst (exec_txs step ts s)) = length ts \<Longrightarrow> fst (exec_txs step ts s) = ts"
proof (induction ts arbitrary: s)
  case (Cons t ts)
  show ?case
  proof (cases "step t s")
    case None
    then show ?thesis
      using Cons.prems length_exec_txs [of step ts s] by simp
  qed (use Cons in simp)
qed simp

lemma simulate_all:
  "length (fst (simulate_block_execution P l txs miner reward)) = length txs \<Longrightarrow>
     fst (simulate_block_execution P l txs miner reward) = txs"
  by (simp add: fst_simulate simulate_txs_exec exec_txs_all)

lemma accept_execution_ok:
  "accept_execution P l claim txs reward = Inr () \<longleftrightarrow>
     simulate_block_execution P l txs (claim_miner_address_hex P claim) reward = (txs, h_state_root (sc_header claim))"
  using simulate_all [of P l txs "claim_miner_address_hex P claim" reward]
  by (auto simp: accept_execution_def case_prod_unfold prod_eq_iff Let_def)

lemma accept_payload_ok:
  "accept_payload P claim txs = Inr () \<longleftrightarrow> claim_verify P claim = Inr ()
     \<and> length txs \<le> MAX_TXS_PER_BLOCK \<and> merkle_root P txs = h_merkle_root (sc_header claim)"
  by (auto simp: accept_payload_def res_bind_Inr_iff not_less)

lemma accept_checkpoint_ok:
  "accept_checkpoint P s header ckpt = Inr () \<longleftrightarrow>
     (if is_checkpoint_height (h_height header)
      then \<exists>proof. ckpt = Some proof \<and> checkpoint_seed_hash P proof = h_bitcoin_seed_hash header
         \<and> checkpoint_plausible proof (ns_btc_checkpoint_tip_height s)
             (be_tip_height (ns_last_observed_btc s)) BTC_HEIGHT_TOLERANCE
      else h_bitcoin_seed_hash header = ns_btc_seed_hash s)"
  by (auto simp: accept_checkpoint_def split: option.splits)

lemma accept_structure_ok:
  "accept_structure P now s claim ckpt = Inr reward \<longleftrightarrow>
     (let header = sc_header claim in
      ns_genesis_hash s \<noteq> zeros 32 \<and> h_height header = ns_chain_height s + 1
      \<and> h_prev_hash header = ns_tip_hash s \<and> h_difficulty_bits header = ns_difficulty_bits s
      \<and> timestamp_is_valid (h_timestamp header) (ns_last_block_timestamp_ms s) now MAX_FUTURE_MS
      \<and> accept_checkpoint P s header ckpt = Inr ()
      \<and> reward = block_reward (h_height header) (ns_total_mined_bina s))"
  by (auto simp: accept_structure_def Let_def res_bind_Inr_iff)

lemma accept_check_candidate:
  assumes "accept_check P now s l claim ckpt txs = Inr ()"
  shows "candidate_ok P s l \<lparr>pc_claim = claim, pc_btc_checkpoint = ckpt, pc_transactions = txs\<rparr>"
proof -
  obtain reward where a: "accept_payload P claim txs = Inr ()"
      "accept_structure P now s claim ckpt = Inr reward" "accept_execution P l claim txs reward = Inr ()"
    using assms by (auto simp: accept_check_def res_bind_Inr_iff)
  then have "ns_last_block_timestamp_ms s < h_timestamp (sc_header claim)"
    by (simp add: accept_structure_ok Let_def timestamp_is_valid_def)
  with a show ?thesis
    by (auto simp: candidate_ok_def Let_def accept_payload_ok accept_structure_ok accept_execution_ok
        accept_checkpoint_ok split: if_splits)
qed

text \<open>Balances stay within the cap while a block is executed, so its reward fits.\<close>

lemma ledger_step_supply: "supply_ok l \<Longrightarrow> ledger_step P h miner ts s l = Some l' \<Longrightarrow> supply_ok l'"
  using supply_ok_apply [of l P True h s miner ts]
  by (auto simp: ledger_step_def split: prod.splits sum.splits)

lemma exec_txs_supply: "supply_ok l \<Longrightarrow> supply_ok (snd (exec_txs (ledger_step P h miner ts) txs l))"
  by (induction txs arbitrary: l) (auto split: option.splits dest: ledger_step_supply)

lemma supply_balance: "supply_ok l \<Longrightarrow> unat (ledger_balance l a) \<le> 2000000000"
  using hm_sum_ge_u64 [of "lg_balances l" a] circulating_cap [of l]
  by (simp add: ledger_balance_def circulating_def)

lemma supply_reward_fits:
  assumes "hex_ok P" "supply_ok l" "nonce_room (length txs) (ledger_accounts l)"
  shows "reward_fits (block_accounts P l txs miner) miner (block_reward h t)"
proof -
  let ?l = "snd (exec_txs (ledger_step P h miner 0) txs l)"
  have "ledger_accounts ?l = block_accounts P l txs miner"
    using live.exec_accounts [where P = P and h = h and miner = miner and ts = 0 and s = l, OF assms(1,3)]
    by (simp add: block_accounts_def)
  then have "fst (acc_get (block_accounts P l txs miner) miner) = ledger_balance ?l miner"
    by (metis acc_get_ledger fst_conv)
  moreover have "unat (ledger_balance ?l miner) \<le> 2000000000"
    by (rule supply_balance [OF exec_txs_supply [OF assms(2)]])
  moreover have "unat (block_reward h t) \<le> 50"
    using block_reward_le [of h t] by (simp add: word_le_nat_alt INITIAL_BLOCK_REWARD_def)
  ultimately show ?thesis
    by (simp add: reward_fits_def)
qed

lemma candidate_executes:
  assumes "hex_ok P" "supply_ok l" "nonce_room (length (pc_transactions p)) (ledger_accounts l)"
    and "candidate_ok P s l p"
  shows "\<exists>l'. execute_block P (h_height (sc_header (pc_claim p))) (pc_transactions p)
      (claim_miner_address_hex P (pc_claim p))
      (block_reward (h_height (sc_header (pc_claim p))) (ns_total_mined_bina s)) ts l = (Inr (), l')
    \<and> ledger_state_root P l' = h_state_root (sc_header (pc_claim p))"
  using assms(4) unfolding candidate_ok_def Let_def
  by (intro simulate_execute_agree [OF assms(1,3) supply_reward_fits [OF assms(1-3)]]) (elim conjE)

section \<open>One claim per miner and height\<close>

definition has_pending :: "u64 \<Rightarrow> string \<Rightarrow> pending_claim \<Rightarrow> node_state \<Rightarrow> bool" where
  "has_pending height miner p s \<longleftrightarrow> hm_get (pending_at s height) miner = Some p"

lemma pending_at_insert [simp]:
  "pending_at (s\<lparr>ns_pending_claims := hm_insert h m (ns_pending_claims s)\<rparr>) k = (if k = h then m else pending_at s k)"
  by (simp add: pending_at_def)

lemma accept_admit_keeps: "has_pending h miner p s \<Longrightarrow> has_pending h miner p (snd (accept_admit P q s))"
  by (auto simp: accept_admit_def has_pending_def Let_def hm_has_def)

lemma accept_keeps:
  "has_pending h miner p (nd_state nd) \<Longrightarrow>
     has_pending h miner p (nd_state (snd (accept_signed_claim P now c k txs nd)))"
  by (auto simp: accept_signed_claim_def Let_def accept_admit_keeps split: sum.splits prod.splits)
    (metis accept_admit_keeps snd_conv)

lemma accept_signed_claim_ok:
  assumes "accept_signed_claim P now c k txs nd = (Inr a, nd')"
  shows "candidate_ok P (nd_state nd) (nd_ledger nd) \<lparr>pc_claim = c, pc_btc_checkpoint = k, pc_transactions = txs\<rparr>"
    "\<not> hm_has (pending_at (nd_state nd) (h_height (sc_header c))) (claim_miner_address_hex P c)"
    "nd' = nd\<lparr>nd_state := (nd_state nd)\<lparr>ns_pending_claims := hm_insert (h_height (sc_header c))
       (hm_insert (claim_miner_address_hex P c) \<lparr>pc_claim = c, pc_btc_checkpoint = k, pc_transactions = txs\<rparr>
          (pending_at (nd_state nd) (h_height (sc_header c)))) (ns_pending_claims (nd_state nd))\<rparr>\<rparr>"
proof -
  show "candidate_ok P (nd_state nd) (nd_ledger nd) \<lparr>pc_claim = c, pc_btc_checkpoint = k, pc_transactions = txs\<rparr>"
    using assms accept_check_candidate by (auto simp: accept_signed_claim_def split: sum.splits)
  show "\<not> hm_has (pending_at (nd_state nd) (h_height (sc_header c))) (claim_miner_address_hex P c)"
    and "nd' = nd\<lparr>nd_state := (nd_state nd)\<lparr>ns_pending_claims := hm_insert (h_height (sc_header c))
       (hm_insert (claim_miner_address_hex P c) \<lparr>pc_claim = c, pc_btc_checkpoint = k, pc_transactions = txs\<rparr>
          (pending_at (nd_state nd) (h_height (sc_header c)))) (ns_pending_claims (nd_state nd))\<rparr>\<rparr>"
    using assms by (auto simp: accept_signed_claim_def accept_admit_def Let_def split: sum.splits if_splits)
qed

section \<open>The pool of pending transactions\<close>

text \<open>Every entry is filed under its own id and verifies, and the table of the block store holds the same
  transactions, so that a restart finds them.\<close>

definition mempool_ok :: "prims \<Rightarrow> serde \<Rightarrow> node \<Rightarrow> bool" where
  "mempool_ok P J nd \<longleftrightarrow>
     hm_wf (ns_mempool (nd_state nd)) \<and> hm_wf (bs_mempool (nd_store nd))
     \<and> (\<forall>k t. hm_get (ns_mempool (nd_state nd)) k = Some t \<longrightarrow> k = stx_tx_id P t \<and> stx_verify P t = Inr ())
     \<and> (\<forall>k. hm_get (bs_mempool (nd_store nd)) (hex_encode P k)
            = map_option (tx_to_json J) (hm_get (ns_mempool (nd_state nd)) k))"

lemma enqueue_check_ok:
  "enqueue_check P l s = Inr () \<longleftrightarrow> transfer_ok P s l"
proof (cases "checked_add (tx_amount (stx_tx s)) (tx_fee (stx_tx s))")
  case None
  then have "\<not> transfer_ok P s l"
    using amount_fee_fits(1) [of "tx_amount (stx_tx s)" "tx_fee (stx_tx s)"] by (auto simp: transfer_ok_def)
  with None show ?thesis
    by (auto simp: enqueue_check_def res_bind_Inr_iff Let_def)
next
  case (Some d)
  then have "unat d = unat (tx_amount (stx_tx s)) + unat (tx_fee (stx_tx s))"
    by (rule checked_add_SomeD)
  with Some show ?thesis
    by (auto simp: enqueue_check_def transfer_ok_def res_bind_Inr_iff is_ok_iff Let_def word_less_nat_alt)
qed

lemma mempool_ok_insert:
  assumes "hex_ok P" "mempool_ok P J nd" "stx_verify P t = Inr ()"
  shows "mempool_ok P J (nd\<lparr>nd_state := (nd_state nd)\<lparr>ns_mempool := hm_insert (stx_tx_id P t) t (ns_mempool (nd_state nd))\<rparr>,
      nd_store := mempool_insert P J t (nd_store nd)\<rparr>)"
  using assms
  by (auto simp: mempool_ok_def mempool_insert_def mempool_put_def stx_tx_id_hex_def hex_encode_inj split: if_splits)

lemma mempool_ok_remove:
  assumes "hex_ok P" "mempool_ok P J nd"
  shows "mempool_ok P J (nd\<lparr>nd_state := (nd_state nd)\<lparr>ns_mempool := hm_remove k (ns_mempool (nd_state nd))\<rparr>,
      nd_store := mempool_remove P k (nd_store nd)\<rparr>)"
  using assms
  by (auto simp: mempool_ok_def mempool_remove_def mempool_del_def hex_encode_inj split: if_splits)

lemma mempool_ok_cong:
  "ns_mempool (nd_state nd) = ns_mempool (nd_state nd') \<Longrightarrow> bs_mempool (nd_store nd) = bs_mempool (nd_store nd')
    \<Longrightarrow> mempool_ok P J nd = mempool_ok P J nd'"
  by (simp add: mempool_ok_def)

lemma mempool_ok_enqueue:
  assumes "hex_ok P" "mempool_ok P J nd"
  shows "mempool_ok P J (snd (enqueue_transaction P J t nd))"
proof (cases "enqueue_check P (nd_ledger nd) t")
  case (Inr u)
  then have "stx_verify P t = Inr ()"
    using enqueue_check_ok [of P "nd_ledger nd" t] by (auto simp: transfer_ok_def is_ok_iff)
  with assms Inr show ?thesis
    by (simp add: enqueue_transaction_def Let_def mempool_ok_insert)
qed (use assms in \<open>simp add: enqueue_transaction_def\<close>)

lemma mempool_ok_accept: "mempool_ok P J (snd (accept_signed_claim P now c k txs nd)) = mempool_ok P J nd"
  by (rule mempool_ok_cong)
    (auto simp: accept_signed_claim_def accept_admit_def Let_def split: sum.splits prod.splits)

lemma enqueue_bound:
  "length (ns_mempool (nd_state nd)) \<le> MAX_MEMPOOL_SIZE \<Longrightarrow>
     length (ns_mempool (nd_state (snd (enqueue_transaction P J t nd)))) \<le> MAX_MEMPOOL_SIZE"
  by (auto simp: enqueue_transaction_def Let_def length_hm_insert split: sum.splits)

section \<open>A sample node\<close>

definition sample_miner_hex :: string where
  "sample_miner_hex = sample_hex (keypair_address sample_prims sample_miner)"

definition sample_next_header :: l1_header where
  "sample_next_header =
     \<lparr>h_version = 1, h_height = 2, h_prev_hash = replicate 32 7, h_merkle_root = zeros 32,
      h_state_root = snd (simulate_block_execution sample_prims sample_ledger [] sample_miner_hex (block_reward 2 100)),
      h_timestamp = 1000040, h_nonce = 5, h_miner_address = keypair_address sample_prims sample_miner,
      h_difficulty_bits = 0, h_bitcoin_seed_hash = zeros 32\<rparr>"

definition sample_next_claim :: signed_claim where
  "sample_next_claim = mined_by_sample sample_next_header"

definition sample_state :: node_state where
  "sample_state = (initial_state 0 0 1)\<lparr>ns_genesis_hash := replicate 32 7, ns_tip_hash := replicate 32 7,
     ns_chain_height := 1, ns_difficulty_bits := 0, ns_last_block_timestamp_ms := 1000000,
     ns_total_mined_bina := 100\<rparr>"

definition sample_node :: node where
  "sample_node = \<lparr>nd_state = sample_state, nd_ledger = sample_ledger, nd_store = store_open None\<rparr>"

lemma sample_next_claim_header [simp]: "sc_header sample_next_claim = sample_next_header"
  by (simp add: sample_next_claim_def) (simp add: sample_next_header_def)

lemma sample_next_claim_miner [simp]: "claim_miner_address_hex sample_prims sample_next_claim = sample_miner_hex"
  by (simp add: claim_miner_address_hex_def) (simp add: sample_next_header_def sample_miner_hex_def)

lemma sample_next_claim_verifies: "claim_verify sample_prims sample_next_claim = Inr ()"
  unfolding sample_next_claim_def by (rule mined_by_sample_verifies) (simp add: sample_next_header_def)

lemma sample_node_accepts:
  "accept_check sample_prims 1000050 sample_state sample_ledger sample_next_claim None [] = Inr ()"
proof -
  have "length (fst (simulate_block_execution sample_prims sample_ledger [] m r)) = length ([] :: signed_transaction list)" for m r
    by (simp add: fst_simulate)
  then have "accept_execution sample_prims sample_ledger sample_next_claim [] (block_reward 2 100) = Inr ()"
    by (auto simp: accept_execution_ok prod_eq_iff sample_next_header_def)
  moreover have "accept_structure sample_prims 1000050 sample_state sample_next_claim None = Inr (block_reward 2 100)"
    by (simp add: accept_structure_ok accept_checkpoint_ok Let_def sample_next_header_def sample_state_def
        initial_state_def timestamp_is_valid_iff MAX_FUTURE_MS_def is_checkpoint_height_def BTC_CHECKPOINT_INTERVAL_def
        sat_sub_def zeros_def)
  ultimately show ?thesis
    by (simp add: accept_check_def accept_payload_def sample_next_claim_verifies merkle_root_def)
      (simp add: sample_next_header_def)
qed

lemma sample_ledger_room: "k < 1000 \<Longrightarrow> nonce_room k (ledger_accounts sample_ledger)"
  by (simp add: nonce_room_def ledger_nonce_def sample_ledger_def)

lemma sample_node_accepted:
  obtains a where "accept_signed_claim sample_prims 1000050 sample_next_claim None [] sample_node
    = (Inr a, snd (accept_signed_claim sample_prims 1000050 sample_next_claim None [] sample_node))"
proof -
  have "accept_check sample_prims 1000050 (nd_state sample_node) (nd_ledger sample_node) sample_next_claim None [] = Inr ()"
    using sample_node_accepts by (simp add: sample_node_def)
  moreover have "pending_at sample_state h = []" for h
    by (simp add: pending_at_def sample_state_def initial_state_def)
  ultimately show ?thesis
    by (intro that) (auto simp: accept_signed_claim_def accept_admit_def Let_def hm_has_def sample_node_def)
qed

section \<open>Properties\<close>

text \<open>C8: A claim is admitted only if it was signed by the miner it pays with enough work, extends the tip at
  the required difficulty after the last timestamp with the pinned or proved Bitcoin seed, and
  commits to a list of transactions that the ledger executes without an error to exactly the
  state root of its header; admitting it changes nothing but the candidates of its height.\<close>

theorem accepted_claim_executes:
  assumes "hex_ok P" "supply_ok (nd_ledger nd)" "nonce_room (length txs) (ledger_accounts (nd_ledger nd))"
    and "accept_signed_claim P now c k txs nd = (Inr a, nd')"
  shows "claim_verify P c = Inr () \<and> merkle_root P txs = h_merkle_root (sc_header c)
    \<and> h_prev_hash (sc_header c) = ns_tip_hash (nd_state nd)
    \<and> h_height (sc_header c) = ns_chain_height (nd_state nd) + 1
    \<and> h_difficulty_bits (sc_header c) = ns_difficulty_bits (nd_state nd)
    \<and> ns_last_block_timestamp_ms (nd_state nd) < h_timestamp (sc_header c)
    \<and> (\<exists>l'. execute_block P (h_height (sc_header c)) txs (claim_miner_address_hex P c)
          (block_reward (h_height (sc_header c)) (ns_total_mined_bina (nd_state nd))) ts (nd_ledger nd) = (Inr (), l')
        \<and> ledger_state_root P l' = h_state_root (sc_header c))
    \<and> nd_ledger nd' = nd_ledger nd \<and> nd_store nd' = nd_store nd
    \<and> (\<forall>h. h \<noteq> h_height (sc_header c) \<longrightarrow> pending_at (nd_state nd') h = pending_at (nd_state nd) h)"
proof -
  note acc = accept_signed_claim_ok [OF assms(4)]
  have "\<exists>l'. execute_block P (h_height (sc_header c)) txs (claim_miner_address_hex P c)
          (block_reward (h_height (sc_header c)) (ns_total_mined_bina (nd_state nd))) ts (nd_ledger nd) = (Inr (), l')
        \<and> ledger_state_root P l' = h_state_root (sc_header c)"
    using candidate_executes [OF assms(1,2) _ acc(1), of ts] assms(3) by simp
  moreover have "nd_ledger nd' = nd_ledger nd \<and> nd_store nd' = nd_store nd
      \<and> (\<forall>h. h \<noteq> h_height (sc_header c) \<longrightarrow> pending_at (nd_state nd') h = pending_at (nd_state nd) h)"
    by (simp add: acc(3))
  ultimately show ?thesis
    using acc(1) by (auto simp: candidate_ok_def Let_def)
qed

theorem accepted_claim_executes_witness:
  "\<exists>l'. execute_block sample_prims 2 [] sample_miner_hex (block_reward 2 100) 1000 sample_ledger = (Inr (), l')
    \<and> ledger_state_root sample_prims l' = h_state_root sample_next_header"
proof -
  obtain a where acc: "accept_signed_claim sample_prims 1000050 sample_next_claim None [] sample_node
    = (Inr a, snd (accept_signed_claim sample_prims 1000050 sample_next_claim None [] sample_node))"
    by (rule sample_node_accepted)
  have "supply_ok (nd_ledger sample_node)" "nonce_room (length ([] :: signed_transaction list)) (ledger_accounts (nd_ledger sample_node))"
    using sample_ledger_ok(2) sample_ledger_room [of 0] by (simp_all add: sample_node_def)
  from accepted_claim_executes [OF sample_hex_ok this acc, of 1000] show ?thesis
    by (simp add: sample_node_def) (simp add: sample_next_header_def sample_state_def)
qed

text \<open>The first valid claim of a miner for a height is kept: whatever claims are submitted afterwards, with
  whatever result, it stays the candidate of that miner.\<close>

theorem first_claim_kept:
  assumes "accept_signed_claim P now c k txs nd = (Inr a, nd')"
  shows "hm_get (pending_at (nd_state (fold (\<lambda>(now, c, k, txs) nd. snd (accept_signed_claim P now c k txs nd)) later nd'))
      (h_height (sc_header c))) (claim_miner_address_hex P c)
    = Some \<lparr>pc_claim = c, pc_btc_checkpoint = k, pc_transactions = txs\<rparr>"
proof -
  have "has_pending h m p (nd_state (fold (\<lambda>(now, c, k, txs) nd. snd (accept_signed_claim P now c k txs nd)) later nd0))"
    if "has_pending h m p (nd_state nd0)" for h m p nd0
    using that by (induction later arbitrary: nd0) (auto simp: accept_keeps)
  moreover have "has_pending (h_height (sc_header c)) (claim_miner_address_hex P c)
      \<lparr>pc_claim = c, pc_btc_checkpoint = k, pc_transactions = txs\<rparr> (nd_state nd')"
    by (simp add: accept_signed_claim_ok(3) [OF assms] has_pending_def)
  ultimately show ?thesis
    unfolding has_pending_def by blast
qed

theorem first_claim_kept_witness:
  "hm_get (pending_at (nd_state (snd (accept_signed_claim sample_prims 1000060 sample_next_claim None []
      (snd (accept_signed_claim sample_prims 1000050 sample_next_claim None [] sample_node))))) 2) sample_miner_hex
   = Some \<lparr>pc_claim = sample_next_claim, pc_btc_checkpoint = None, pc_transactions = []\<rparr>"
proof -
  obtain a where "accept_signed_claim sample_prims 1000050 sample_next_claim None [] sample_node
    = (Inr a, snd (accept_signed_claim sample_prims 1000050 sample_next_claim None [] sample_node))"
    by (rule sample_node_accepted)
  from first_claim_kept [OF this, of "[(1000060, sample_next_claim, None, [])]"] show ?thesis
    by (simp add: sample_next_header_def)
qed


lemma sample_node_mempool: "mempool_ok sample_prims sample_serde sample_node"
  by (simp add: mempool_ok_def sample_node_def sample_state_def initial_state_def store_open_def)


end
