(* ===== verification/Chain_State.thy ===== *)
theory Chain_State
  imports Node_State
begin

text \<open>
  The resume file of the node (\<^verbatim>\<open>chain-state.json\<close>, \<^verbatim>\<open>node/src/main.rs\<close>): the consensus fields saved
  after every block and what a restart makes of them. A panic is an error value. The file is its
  text, \<open>None\<close> when it cannot be read; its JSON coding is a parameter. The local variables of the
  mining loop that the synchronisation and the reorganisation update through \<^verbatim>\<open>&mut\<close> are the record
  \<open>cursor\<close>.
\<close>

section \<open>Hexadecimal numbers\<close>

text \<open>\<^verbatim>\<open>format!("{:x}")\<close> and \<^verbatim>\<open>u128::from_str_radix(_, 16)\<close>.\<close>

fun show_hex_nat :: "nat \<Rightarrow> string" where
  "show_hex_nat n = (if n < 16 then [hex_digit n] else show_hex_nat (n div 16) @ [hex_digit (n mod 16)])"

declare show_hex_nat.simps [simp del]

definition show_hex :: "u128 \<Rightarrow> string" where
  "show_hex w = show_hex_nat (unat w)"

fun parse_hex_digits :: "nat \<Rightarrow> string \<Rightarrow> nat option" where
  "parse_hex_digits acc [] = Some acc"
| "parse_hex_digits acc (c # s) =
     (case hex_value c of
        None \<Rightarrow> None
      | Some d \<Rightarrow> if 16 * acc + d < 2 ^ 128 then parse_hex_digits (16 * acc + d) s else None)"

definition parse_hex_u128 :: "string \<Rightarrow> u128 option" where
  "parse_hex_u128 s =
     (let t = (if s \<noteq> [] \<and> hd s = CHR ''+'' then tl s else s) in
      if t = [] then None else map_option word_of_nat (parse_hex_digits 0 t))"

lemma show_hex_nat_nonempty [simp]: "show_hex_nat n \<noteq> []"
  by (subst show_hex_nat.simps) auto

lemma show_hex_nat_chars: "c \<in> set (show_hex_nat n) \<Longrightarrow> c \<in> set ''0123456789abcdef''"
proof (induction n rule: show_hex_nat.induct)
  case (1 n)
  show ?case
  proof (cases "n < 16")
    case True
    with 1(2) have "c = hex_digit n" by (simp add: show_hex_nat.simps [of n])
    with hex_digit_mem [OF True] show ?thesis by simp
  next
    case False
    with 1(2) have "c \<in> set (show_hex_nat (n div 16)) \<or> c = hex_digit (n mod 16)"
      by (auto simp: show_hex_nat.simps [of n])
    moreover have "hex_digit (n mod 16) \<in> set ''0123456789abcdef''"
      by (rule hex_digit_mem) simp
    ultimately show ?thesis
      using 1(1) [OF False] by blast
  qed
qed

lemma parse_hex_append:
  "parse_hex_digits acc (s @ t) = Option.bind (parse_hex_digits acc s) (\<lambda>a. parse_hex_digits a t)"
  by (induction s arbitrary: acc) (auto split: option.splits)

lemma parse_hex_show: "n < 2 ^ 128 \<Longrightarrow> parse_hex_digits 0 (show_hex_nat n) = Some n"
proof (induction n rule: show_hex_nat.induct)
  case (1 n)
  show ?case
  proof (cases "n < 16")
    case True
    then show ?thesis by (subst show_hex_nat.simps) (simp add: hex_value_digit)
  next
    case False
    then have "parse_hex_digits 0 (show_hex_nat (n div 16)) = Some (n div 16)"
      using 1 by simp
    with False "1.prems" show ?thesis
      by (subst show_hex_nat.simps) (simp add: parse_hex_append hex_value_digit)
  qed
qed

lemma unat_lt_u128: "unat (w :: u128) < 2 ^ 128"
  using unsigned_less [of w] by simp

lemma parse_show_hex [simp]: "parse_hex_u128 (show_hex w) = Some w"
proof -
  have "hd (show_hex_nat (unat w)) \<in> set ''0123456789abcdef''"
    by (rule show_hex_nat_chars [OF hd_in_set]) simp
  then have "hd (show_hex_nat (unat w)) \<noteq> CHR ''+''" by auto
  then show ?thesis
    using unat_lt_u128 [of w] by (simp add: parse_hex_u128_def show_hex_def parse_hex_show)
qed

section \<open>The resume file\<close>

definition CHAIN_STATE_VERSION :: u32 where "CHAIN_STATE_VERSION = 2"

record resume_state =
  rs_difficulty_bits :: u32
  rs_epoch_start_ms :: u64
  rs_epoch_start_height :: u64
  rs_btc_seed_hash :: string
  rs_btc_checkpoint_tip_height :: u64
  rs_last_block_timestamp_ms :: u64
  rs_chain_work_hex :: string

record chain_file =
  cf_version :: u32
  cf_network :: string
  cf_genesis_hash :: string
  cf_tip_hash :: string
  cf_height :: u64
  cf_updated_at :: u64
  cf_resume :: resume_state

record loaded_state =
  lc_genesis_hash :: bytes
  lc_tip_hash :: bytes
  lc_height :: u64
  lc_created :: bool
  lc_resume :: resume_state

record chain_codec =
  file_to_json :: "chain_file \<Rightarrow> string"
  file_from_json :: "string \<Rightarrow> chain_file option"

definition codec_ok :: "chain_codec \<Rightarrow> bool" where
  "codec_ok K \<longleftrightarrow> (\<forall>f. file_from_json K (file_to_json K f) = Some f)"

datatype panic =
    PanicHex string
  | PanicHexLength string nat
  | PanicJson
  | PanicVersion u32
  | PanicNetwork string
  | PanicGenesis string
  | PanicCreate
  | PanicNullifier
  | PanicLedger ledger_error
  | PanicNoClaim
  | PanicLocalClaim claim_error

definition node_hex_to_32 :: "prims \<Rightarrow> string \<Rightarrow> string \<Rightarrow> panic + bytes" where
  "node_hex_to_32 P label v =
     (case hex_decode P v of
        None \<Rightarrow> Inl (PanicHex label)
      | Some b \<Rightarrow> if length b \<noteq> 32 then Inl (PanicHexLength label (length b)) else Inr b)"

definition chain_state_file :: "prims \<Rightarrow> u64 \<Rightarrow> bytes \<Rightarrow> bytes \<Rightarrow> u64 \<Rightarrow> resume_state \<Rightarrow> chain_file" where
  "chain_state_file P now_secs genesis_hash tip_hash height resume =
     \<lparr>cf_version = CHAIN_STATE_VERSION, cf_network = NETWORK_ID, cf_genesis_hash = hex_encode P genesis_hash,
      cf_tip_hash = hex_encode P tip_hash, cf_height = height, cf_updated_at = now_secs, cf_resume = resume\<rparr>"

text \<open>The text the file has afterwards: unchanged when it cannot be written.\<close>

definition save_chain_state :: "prims \<Rightarrow> chain_codec \<Rightarrow> bool \<Rightarrow> u64 \<Rightarrow> bytes \<Rightarrow> bytes \<Rightarrow> u64
    \<Rightarrow> resume_state \<Rightarrow> string option \<Rightarrow> bool \<times> string option" where
  "save_chain_state P K io_ok now_secs genesis_hash tip_hash height resume text =
     (if io_ok
      then (True, Some (file_to_json K (chain_state_file P now_secs genesis_hash tip_hash height resume)))
      else (False, text))"

definition genesis_resume_state :: "prims \<Rightarrow> u64 \<Rightarrow> resume_state" where
  "genesis_resume_state P genesis_timestamp_ms =
     \<lparr>rs_difficulty_bits = MIN_BITS, rs_epoch_start_ms = genesis_timestamp_ms, rs_epoch_start_height = 0,
      rs_btc_seed_hash = hex_encode P (zeros 32), rs_btc_checkpoint_tip_height = 0,
      rs_last_block_timestamp_ms = genesis_timestamp_ms, rs_chain_work_hex = ''0''\<rparr>"

definition load_or_create_chain_state :: "prims \<Rightarrow> chain_codec \<Rightarrow> bool \<Rightarrow> u64 \<Rightarrow> bytes \<Rightarrow> u64
    \<Rightarrow> string option \<Rightarrow> (panic + loaded_state) \<times> string option" where
  "load_or_create_chain_state P K io_ok now_secs genesis_hash genesis_timestamp_ms text =
     (case text of
        Some t \<Rightarrow>
          (case file_from_json K t of
             None \<Rightarrow> Inl PanicJson
           | Some file \<Rightarrow>
              if cf_version file \<noteq> CHAIN_STATE_VERSION then Inl (PanicVersion (cf_version file))
              else if cf_network file \<noteq> NETWORK_ID then Inl (PanicNetwork (cf_network file))
              else res_bind (node_hex_to_32 P ''chain_state.genesis_hash'' (cf_genesis_hash file)) (\<lambda>stored_genesis.
                if stored_genesis \<noteq> genesis_hash then Inl (PanicGenesis (cf_genesis_hash file))
                else res_bind (node_hex_to_32 P ''chain_state.tip_hash'' (cf_tip_hash file)) (\<lambda>tip_hash.
                  Inr \<lparr>lc_genesis_hash = stored_genesis, lc_tip_hash = tip_hash, lc_height = cf_height file,
                       lc_created = False, lc_resume = cf_resume file\<rparr>)), text)
      | None \<Rightarrow>
          let resume = genesis_resume_state P genesis_timestamp_ms;
              (saved, text') = save_chain_state P K io_ok now_secs genesis_hash genesis_hash 0 resume None in
          (if saved
           then Inr \<lparr>lc_genesis_hash = genesis_hash, lc_tip_hash = genesis_hash, lc_height = 0,
                     lc_created = True, lc_resume = resume\<rparr>
           else Inl PanicCreate, text'))"

section \<open>The cursor of the mining loop\<close>

record cursor =
  cu_height :: u64
  cu_tip_hash :: bytes
  cu_last_ts :: u64
  cu_btc_seed :: bytes
  cu_ckpt_tip :: u64
  cu_work :: u128
  cu_adjuster :: adjuster

definition resume_of_cursor :: "prims \<Rightarrow> cursor \<Rightarrow> resume_state" where
  "resume_of_cursor P cu =
     \<lparr>rs_difficulty_bits = da_current_bits (cu_adjuster cu), rs_epoch_start_ms = da_epoch_start_ms (cu_adjuster cu),
      rs_epoch_start_height = da_epoch_start_height (cu_adjuster cu), rs_btc_seed_hash = hex_encode P (cu_btc_seed cu),
      rs_btc_checkpoint_tip_height = cu_ckpt_tip cu, rs_last_block_timestamp_ms = cu_last_ts cu,
      rs_chain_work_hex = show_hex (cu_work cu)\<rparr>"

text \<open>A restart: the seed of the resume file, replaced by the last real checkpoint of the block store when that
  is newer.\<close>

definition restore_checkpoint :: "prims \<Rightarrow> block_store \<Rightarrow> bytes \<Rightarrow> u64 \<Rightarrow> panic + bytes \<times> u64" where
  "restore_checkpoint P store seed tip =
     (case latest_checkpoint store of
        Some (seed_hex, newer_tip) \<Rightarrow>
          if newer_tip > tip
          then res_bind (node_hex_to_32 P ''store.blocks.btc_seed'' seed_hex) (\<lambda>s. Inr (s, newer_tip))
          else Inr (seed, tip)
      | None \<Rightarrow> Inr (seed, tip))"

definition restore_cursor :: "prims \<Rightarrow> block_store \<Rightarrow> loaded_state \<Rightarrow> panic + cursor" where
  "restore_cursor P store loaded =
     (let resume = lc_resume loaded in
      res_bind (node_hex_to_32 P ''resume.btc_seed_hash'' (rs_btc_seed_hash resume)) (\<lambda>seed0.
      res_bind (restore_checkpoint P store seed0 (rs_btc_checkpoint_tip_height resume)) (\<lambda>(seed, tip).
        Inr \<lparr>cu_height = lc_height loaded, cu_tip_hash = lc_tip_hash loaded,
             cu_last_ts = rs_last_block_timestamp_ms resume, cu_btc_seed = seed, cu_ckpt_tip = tip,
             cu_work = (case parse_hex_u128 (rs_chain_work_hex resume) of None \<Rightarrow> 0 | Some w \<Rightarrow> w),
             cu_adjuster = adjuster_restore (rs_difficulty_bits resume) (rs_epoch_start_ms resume)
                             (rs_epoch_start_height resume)\<rparr>)))"

section \<open>Lemmas\<close>

lemma node_hex_to_32_encode [simp]:
  "hex_ok P \<Longrightarrow> length b = 32 \<Longrightarrow> node_hex_to_32 P label (hex_encode P b) = Inr b"
  by (simp add: node_hex_to_32_def)

lemma load_saved:
  assumes "hex_ok P" "codec_ok K" "length genesis = 32" "length tip = 32"
  shows "load_or_create_chain_state P K io now' genesis ts
      (snd (save_chain_state P K True now genesis tip height resume text))
    = (Inr \<lparr>lc_genesis_hash = genesis, lc_tip_hash = tip, lc_height = height, lc_created = False,
            lc_resume = resume\<rparr>, snd (save_chain_state P K True now genesis tip height resume text))"
  using assms by (simp add: load_or_create_chain_state_def save_chain_state_def codec_ok_def chain_state_file_def)

text \<open>The block store knows no checkpoint newer than the cursor.\<close>

definition checkpoint_current :: "block_store \<Rightarrow> cursor \<Rightarrow> bool" where
  "checkpoint_current store cu \<longleftrightarrow>
     (case latest_checkpoint store of None \<Rightarrow> True | Some (_, tip) \<Rightarrow> tip \<le> cu_ckpt_tip cu)"

lemma restore_saved:
  assumes "hex_ok P" "length (cu_btc_seed cu) = 32" "checkpoint_current store cu" "adjuster_ok (cu_adjuster cu)"
    and "lc_resume loaded = resume_of_cursor P cu" "lc_height loaded = cu_height cu" "lc_tip_hash loaded = cu_tip_hash cu"
  shows "\<exists>cu'. restore_cursor P store loaded = Inr cu' \<and> cu' = cu\<lparr>cu_adjuster := cu_adjuster cu'\<rparr>
    \<and> same_schedule (cu_adjuster cu') (cu_adjuster cu)"
proof -
  have "restore_checkpoint P store (cu_btc_seed cu) (cu_ckpt_tip cu) = Inr (cu_btc_seed cu, cu_ckpt_tip cu)"
    using assms(3) by (auto simp: restore_checkpoint_def checkpoint_current_def split: option.splits)
  with assms show ?thesis
    by (simp add: restore_cursor_def resume_of_cursor_def same_schedule_restore)
qed

section \<open>Properties\<close>

text \<open>C15: A restart resumes the consensus state exactly: from the file saved after a block, the node gets back
  the height, the tip, the last timestamp, the pinned Bitcoin seed, the chain work and a difficulty
  adjuster that goes on exactly as the one that was running.\<close>

theorem restart_resumes_consensus:
  assumes "hex_ok P" "codec_ok K" "length genesis = 32" "length (cu_tip_hash cu) = 32" "length (cu_btc_seed cu) = 32"
    and "adjuster_ok (cu_adjuster cu)" "checkpoint_current store cu"
    and "text = snd (save_chain_state P K True now genesis (cu_tip_hash cu) (cu_height cu) (resume_of_cursor P cu) old)"
  shows "\<exists>loaded cu'. load_or_create_chain_state P K io now' genesis ts text = (Inr loaded, text)
    \<and> restore_cursor P store loaded = Inr cu' \<and> cu' = cu\<lparr>cu_adjuster := cu_adjuster cu'\<rparr>
    \<and> (\<forall>blocks. same_schedule (replay_blocks blocks (cu_adjuster cu')) (replay_blocks blocks (cu_adjuster cu)))"
proof -
  let ?l = "\<lparr>lc_genesis_hash = genesis, lc_tip_hash = cu_tip_hash cu, lc_height = cu_height cu, lc_created = False,
      lc_resume = resume_of_cursor P cu\<rparr>"
  obtain cu' where "restore_cursor P store ?l = Inr cu'" "cu' = cu\<lparr>cu_adjuster := cu_adjuster cu'\<rparr>"
    "same_schedule (cu_adjuster cu') (cu_adjuster cu)"
    using restore_saved [OF assms(1,5,7,6), of ?l] by auto
  moreover have "load_or_create_chain_state P K io now' genesis ts text = (Inr ?l, text)"
    unfolding assms(8) by (rule load_saved [OF assms(1-4)])
  ultimately show ?thesis
    using same_schedule_replay by blast
qed

text \<open>A concrete coding of the resume file: the fields between colons.\<close>

definition sample_file_json :: "chain_file \<Rightarrow> string" where
  "sample_file_json f = join_with CHR '':''
     [show_u64 (ucast (cf_version f)), sample_hex (as_bytes (cf_network f)), sample_hex (as_bytes (cf_genesis_hash f)),
      sample_hex (as_bytes (cf_tip_hash f)), show_u64 (cf_height f), show_u64 (cf_updated_at f),
      show_u64 (ucast (rs_difficulty_bits (cf_resume f))), show_u64 (rs_epoch_start_ms (cf_resume f)),
      show_u64 (rs_epoch_start_height (cf_resume f)), sample_hex (as_bytes (rs_btc_seed_hash (cf_resume f))),
      show_u64 (rs_btc_checkpoint_tip_height (cf_resume f)), show_u64 (rs_last_block_timestamp_ms (cf_resume f)),
      sample_hex (as_bytes (rs_chain_work_hex (cf_resume f)))]"

definition as_string :: "bytes \<Rightarrow> string" where
  "as_string b = map (\<lambda>x. char_of (unat x)) b"

definition get_u64 :: "string \<Rightarrow> u64" where "get_u64 s = the (parse_u64 s)"
definition get_text :: "string \<Rightarrow> string" where "get_text s = as_string (the (sample_unhex s))"

definition sample_file_unjson :: "string \<Rightarrow> chain_file option" where
  "sample_file_unjson t =
     (case split_on CHR '':'' t of
        [a, b, c, d, e, f, g, h, i, j, k, l, m] \<Rightarrow>
          Some \<lparr>cf_version = ucast (get_u64 a), cf_network = get_text b, cf_genesis_hash = get_text c,
            cf_tip_hash = get_text d, cf_height = get_u64 e, cf_updated_at = get_u64 f,
            cf_resume = \<lparr>rs_difficulty_bits = ucast (get_u64 g), rs_epoch_start_ms = get_u64 h,
              rs_epoch_start_height = get_u64 i, rs_btc_seed_hash = get_text j,
              rs_btc_checkpoint_tip_height = get_u64 k, rs_last_block_timestamp_ms = get_u64 l,
              rs_chain_work_hex = get_text m\<rparr>\<rparr>
      | _ \<Rightarrow> None)"

definition sample_codec :: chain_codec where
  "sample_codec = \<lparr>file_to_json = sample_file_json, file_from_json = sample_file_unjson\<rparr>"

lemma get_u64_show [simp]: "get_u64 (show_u64 w) = w"
  by (simp add: get_u64_def)

lemma as_string_bytes: "as_string (as_bytes s) = s"
  by (simp add: as_string_def as_bytes_def comp_def unat_of_char)

lemma get_text_hex [simp]: "get_text (sample_hex (as_bytes s)) = s"
  by (simp add: get_text_def sample_unhex_hex as_string_bytes)

lemma ucast_u32_u64 [simp]: "ucast (ucast (w :: u32) :: u64) = w"
  by (rule bit_word_eqI) (simp add: bit_simps)

lemma sample_codec_ok: "codec_ok sample_codec"
proof -
  have "sample_file_unjson (sample_file_json f) = Some f" for f
    unfolding sample_file_json_def sample_file_unjson_def
    by (subst split_join) (simp_all add: colon_not_hex colon_not_digit)
  then show ?thesis by (simp add: codec_ok_def sample_codec_def)
qed

definition sample_cursor :: cursor where
  "sample_cursor = \<lparr>cu_height = 45, cu_tip_hash = replicate 32 7, cu_last_ts = 5000, cu_btc_seed = replicate 32 3,
     cu_ckpt_tip = 900000, cu_work = 12345678901234567890,
     cu_adjuster = \<lparr>da_current_bits = 27, da_epoch_start_ms = 4000, da_epoch_start_height = 40, da_last_adjustment = None\<rparr>\<rparr>"

theorem restart_resumes_consensus_witness:
  "\<exists>loaded cu'. load_or_create_chain_state sample_prims sample_codec True 9 (zeros 32) 0
      (snd (save_chain_state sample_prims sample_codec True 8 (zeros 32) (cu_tip_hash sample_cursor)
        (cu_height sample_cursor) (resume_of_cursor sample_prims sample_cursor) None)) = (Inr loaded,
      snd (save_chain_state sample_prims sample_codec True 8 (zeros 32) (cu_tip_hash sample_cursor)
        (cu_height sample_cursor) (resume_of_cursor sample_prims sample_cursor) None))
    \<and> restore_cursor sample_prims (store_open None) loaded = Inr cu' \<and> cu_work cu' = 12345678901234567890"
proof -
  have "checkpoint_current (store_open None) sample_cursor" "adjuster_ok (cu_adjuster sample_cursor)"
    by (simp_all add: checkpoint_current_def store_open_def latest_checkpoint_def adjuster_ok_def sample_cursor_def)
  moreover have "length (cu_tip_hash sample_cursor) = 32" "length (cu_btc_seed sample_cursor) = 32"
    "cu_work sample_cursor = 12345678901234567890"
    by (simp_all add: sample_cursor_def)
  ultimately obtain loaded cu' where "load_or_create_chain_state sample_prims sample_codec True 9 (zeros 32) 0
      (snd (save_chain_state sample_prims sample_codec True 8 (zeros 32) (cu_tip_hash sample_cursor)
        (cu_height sample_cursor) (resume_of_cursor sample_prims sample_cursor) None)) = (Inr loaded,
      snd (save_chain_state sample_prims sample_codec True 8 (zeros 32) (cu_tip_hash sample_cursor)
        (cu_height sample_cursor) (resume_of_cursor sample_prims sample_cursor) None))"
    and cu: "restore_cursor sample_prims (store_open None) loaded = Inr cu'"
      "cu' = sample_cursor\<lparr>cu_adjuster := cu_adjuster cu'\<rparr>"
    using restart_resumes_consensus [OF sample_hex_ok sample_codec_ok length_zeros, where cu = sample_cursor
        and store = "store_open None" and now = 8 and old = None and io = True and now' = 9 and ts = 0, OF _ _ _ _ refl]
    by blast
  moreover from arg_cong [OF cu(2), of cu_work] have "cu_work cu' = 12345678901234567890"
    by (simp add: sample_cursor_def)
  ultimately show ?thesis by blast
qed

end
