(* ===== verification/Chain_Sync.thy ===== *)
theory Chain_Sync
  imports Chain_State
begin

text \<open>
  Catching up with a peer (\<^verbatim>\<open>sync_forward_from_peer\<close> and the fork choice, \<^verbatim>\<open>node/src/main.rs\<close>). A page of
  the peer is a function from the requested range to its records, \<open>None\<close> when the peer does not answer
  or answers something else; the clock and whether the ledger file can be written are functions of the
  height at which they are asked. The loop over pages is a partial function: that it ends is the property
  \<open>sync_terminates\<close>.
\<close>

section \<open>Checking a record\<close>

definition MAX_SYNC_PAGE :: u64 where "MAX_SYNC_PAGE = 500"

datatype sync_error =
    SyncHeight
  | SyncPrevHash
  | SyncMalformed header_error
  | SyncTimestamp
  | SyncDifficulty
  | SyncSeed
  | SyncHex
  | SyncClaim claim_error
  | SyncBlockHash
  | SyncMerkleRoot
  | SyncTooManyTransactions
  | SyncStateRoot

text \<open>The claim a record stands for: its header, with the key and signature it carries.\<close>

definition record_claim :: "prims \<Rightarrow> block_record \<Rightarrow> l1_header \<Rightarrow> sync_error + signed_claim" where
  "record_claim P r header =
     (case hex_decode P (br_miner_public_key r) of
        None \<Rightarrow> Inl SyncHex
      | Some public_key \<Rightarrow>
          (case hex_decode P (br_miner_signature r) of
             None \<Rightarrow> Inl SyncHex
           | Some signature \<Rightarrow>
               Inr \<lparr>sc_header = header, sc_public_key = public_key, sc_signature = signature\<rparr>))"

definition sync_check_header :: "prims \<Rightarrow> u64 \<Rightarrow> cursor \<Rightarrow> block_record \<Rightarrow> sync_error + l1_header" where
  "sync_check_header P now_ms cu r =
     (if br_height r \<noteq> cu_height cu + 1 then Inl SyncHeight
      else if br_prev_hash r \<noteq> hex_encode P (cu_tip_hash cu) then Inl SyncPrevHash
      else res_bind (map_err SyncMalformed (header_from_record P r (cu_tip_hash cu))) (\<lambda>header.
        if \<not> timestamp_is_valid (h_timestamp header) (cu_last_ts cu) now_ms MAX_FUTURE_MS then Inl SyncTimestamp
        else if h_difficulty_bits header \<noteq> da_current_bits (cu_adjuster cu) then Inl SyncDifficulty
        else if \<not> is_checkpoint_height (br_height r) \<and> br_btc_seed r \<noteq> hex_encode P (cu_btc_seed cu)
        then Inl SyncSeed
        else Inr header))"

definition sync_check_body :: "prims \<Rightarrow> ledger \<Rightarrow> block_record \<Rightarrow> signed_claim
    \<Rightarrow> sync_error + signed_transaction list" where
  "sync_check_body P l r claim =
     res_bind (map_err SyncClaim (claim_verify P claim)) (\<lambda>_.
       if claim_block_hash_hex P claim \<noteq> br_block_hash r then Inl SyncBlockHash
       else if merkle_root P (br_transactions r) \<noteq> h_merkle_root (sc_header claim) then Inl SyncMerkleRoot
       else if length (br_transactions r) > MAX_TXS_PER_BLOCK then Inl SyncTooManyTransactions
       else let (applied, computed_state_root) =
              simulate_block_execution P l (br_transactions r) (br_miner_address r) (br_reward_bina r) in
         if length applied \<noteq> length (br_transactions r) \<or> computed_state_root \<noteq> h_state_root (sc_header claim)
         then Inl SyncStateRoot
         else Inr applied)"

definition sync_check :: "prims \<Rightarrow> u64 \<Rightarrow> cursor \<Rightarrow> ledger \<Rightarrow> block_record
    \<Rightarrow> sync_error + signed_claim \<times> signed_transaction list" where
  "sync_check P now_ms cu l r =
     res_bind (sync_check_header P now_ms cu r) (\<lambda>header.
     res_bind (record_claim P r header) (\<lambda>claim.
     res_bind (sync_check_body P l r claim) (\<lambda>applied. Inr (claim, applied))))"

section \<open>Applying a record\<close>

text \<open>Executing a block on the ledger as both the synchronisation and the mining loop do: a transaction that
  fails is logged and skipped, the reward is credited in any case.\<close>

definition ledger_apply_block :: "prims \<Rightarrow> bool \<Rightarrow> u64 \<Rightarrow> signed_transaction list \<Rightarrow> string \<Rightarrow> u64 \<Rightarrow> u64
    \<Rightarrow> ledger \<Rightarrow> ledger" where
  "ledger_apply_block P io_ok height txs miner reward timestamp l =
     snd (ledger_credit io_ok height miner reward timestamp
       (fold (\<lambda>s l. snd (apply_transaction P io_ok height s miner timestamp l)) txs l))"

text \<open>The nullifier of a record, when it is 32 bytes in hex.\<close>

definition mark_record_nullifier :: "prims \<Rightarrow> string \<Rightarrow> nullifier_set \<Rightarrow> nullifier_set" where
  "mark_record_nullifier P s spent =
     (case hex_decode P s of
        None \<Rightarrow> spent
      | Some b \<Rightarrow> if length b = 32 then snd (nullifiers_mark_spent b spent) else spent)"

definition advance_cursor :: "signed_claim \<Rightarrow> bytes \<Rightarrow> u64 \<Rightarrow> u64 \<Rightarrow> cursor \<Rightarrow> cursor" where
  "advance_cursor claim block_hash height btc_height cu =
     (let header = sc_header claim; ckpt = is_checkpoint_height height in
      cu\<lparr>cu_height := height, cu_tip_hash := block_hash, cu_last_ts := h_timestamp header,
         cu_btc_seed := (if ckpt then h_bitcoin_seed_hash header else cu_btc_seed cu),
         cu_ckpt_tip := (if ckpt then btc_height else cu_ckpt_tip cu),
         cu_work := sat_add (cu_work cu) (block_work (h_difficulty_bits header)),
         cu_adjuster := snd (record_block height (h_timestamp header) (cu_adjuster cu))\<rparr>)"

definition sync_state :: "prims \<Rightarrow> cursor \<Rightarrow> u64 \<Rightarrow> signed_transaction list \<Rightarrow> string \<Rightarrow> node_state \<Rightarrow> node_state" where
  "sync_state P cu total_mined applied nullifier s =
     s\<lparr>ns_chain_height := cu_height cu, ns_tip_hash := cu_tip_hash cu,
       ns_difficulty_bits := da_current_bits (cu_adjuster cu), ns_btc_seed_hash := cu_btc_seed cu,
       ns_btc_checkpoint_tip_height := cu_ckpt_tip cu, ns_last_block_timestamp_ms := cu_last_ts cu,
       ns_chain_work := cu_work cu, ns_total_mined_bina := total_mined,
       ns_mempool := fold (\<lambda>t. hm_remove (stx_tx_id P t)) applied (ns_mempool s),
       ns_nullifiers := mark_record_nullifier P nullifier (ns_nullifiers s),
       ns_pending_claims := retain_above (cu_height cu) (ns_pending_claims s)\<rparr>"

definition sync_apply :: "prims \<Rightarrow> serde \<Rightarrow> bool \<Rightarrow> block_record \<Rightarrow> signed_claim \<Rightarrow> signed_transaction list
    \<Rightarrow> cursor \<times> node \<Rightarrow> cursor \<times> node" where
  "sync_apply P J io_ok r claim applied = (\<lambda>(cu, nd).
     let l = ledger_apply_block P io_ok (br_height r) (br_transactions r) (br_miner_address r)
               (br_reward_bina r) (br_timestamp r div 1000) (nd_ledger nd);
         cu' = advance_cursor claim (claim_block_hash P claim) (br_height r) (br_btc_height r) cu in
     (cu', \<lparr>nd_state = sync_state P cu' (lg_total_mined l) applied (br_nullifier r) (nd_state nd),
            nd_ledger = l,
            nd_store = fold (\<lambda>t. mempool_remove P (stx_tx_id P t)) applied (insert_block J r (nd_store nd))\<rparr>))"

section \<open>Pages\<close>

text \<open>The records of a page in order; the first that is refused stops the synchronisation. The results are the
  flag \<^verbatim>\<open>stop\<close>, the number of blocks applied and the new state.\<close>

fun sync_page :: "prims \<Rightarrow> serde \<Rightarrow> (u64 \<Rightarrow> u64) \<Rightarrow> (u64 \<Rightarrow> bool) \<Rightarrow> block_record list \<Rightarrow> cursor \<times> node
    \<Rightarrow> bool \<times> u64 \<times> cursor \<times> node" where
  "sync_page P J now_ms io [] st = (False, 0, st)"
| "sync_page P J now_ms io (r # rs) st =
     (case sync_check P (now_ms (br_height r)) (fst st) (nd_ledger (snd st)) r of
        Inl e \<Rightarrow> (True, 0, st)
      | Inr (claim, applied) \<Rightarrow>
          let (stop, n, st') = sync_page P J now_ms io rs (sync_apply P J (io (br_height r)) r claim applied st) in
          (stop, 1 + n, st'))"

partial_function (option) sync_forward :: "prims \<Rightarrow> serde \<Rightarrow> (u64 \<Rightarrow> u64) \<Rightarrow> (u64 \<Rightarrow> bool)
    \<Rightarrow> (u64 \<Rightarrow> u64 \<Rightarrow> block_record list option) \<Rightarrow> u64 \<Rightarrow> cursor \<times> node \<Rightarrow> (u64 \<times> cursor \<times> node) option" where
  "sync_forward P J now_ms io fetch target st =
     (if cu_height (fst st) \<ge> target then Some (0, st)
      else let start = cu_height (fst st) + 1; stop_at = sat_add start (MAX_SYNC_PAGE - 1) in
        (case fetch start stop_at of
           None \<Rightarrow> Some (0, st)
         | Some page \<Rightarrow>
             if page = [] then Some (0, st)
             else (case sync_page P J now_ms io page st of
                 (stop, n, st') \<Rightarrow>
                   if stop then Some (n, st')
                   else Option.bind (sync_forward P J now_ms io fetch target st')
                          (\<lambda>(m, st''). Some (n + m, st'')))))"

declare sync_forward.simps [code]

section \<open>Choosing a peer\<close>

record 'a peer_status =
  ps_addr :: 'a
  ps_height :: u64
  ps_genesis_hash :: bytes
  ps_chain_work :: u128

text \<open>\<^verbatim>\<open>Iterator::max_by_key\<close> returns the last of several maximal elements.\<close>

fun max_by_key :: "('a \<Rightarrow> 'k::linorder) \<Rightarrow> 'a list \<Rightarrow> 'a option" where
  "max_by_key key [] = None"
| "max_by_key key (x # xs) = Some (fold (\<lambda>c best. if key best \<le> key c then c else best) xs x)"

definition select_best_peer :: "'a peer_status list \<Rightarrow> bytes \<Rightarrow> u128 \<Rightarrow> 'a peer_status option" where
  "select_best_peer statuses local_genesis local_work =
     max_by_key ps_chain_work
       (filter (\<lambda>p. ps_genesis_hash p = local_genesis \<and> ps_chain_work p > local_work) statuses)"

definition best_peer_by_work :: "('a \<Rightarrow> 'a peer_status option) \<Rightarrow> 'a list \<Rightarrow> bytes \<Rightarrow> u128 \<Rightarrow> 'a peer_status option" where
  "best_peer_by_work fetch_status peers local_genesis local_work =
     select_best_peer (List.map_filter fetch_status peers) local_genesis local_work"

definition catch_up_from_peers :: "prims \<Rightarrow> serde \<Rightarrow> (u64 \<Rightarrow> u64) \<Rightarrow> (u64 \<Rightarrow> bool)
    \<Rightarrow> ('a \<Rightarrow> 'a peer_status option) \<Rightarrow> ('a \<Rightarrow> u64 \<Rightarrow> u64 \<Rightarrow> block_record list option) \<Rightarrow> 'a list
    \<Rightarrow> cursor \<times> node \<Rightarrow> (u64 \<times> cursor \<times> node) option" where
  "catch_up_from_peers P J now_ms io fetch_status fetch peers st =
     (case best_peer_by_work fetch_status peers (ns_genesis_hash (nd_state (snd st))) (cu_work (fst st)) of
        None \<Rightarrow> Some (0, st)
      | Some best \<Rightarrow> sync_forward P J now_ms io (fetch (ps_addr best)) (ps_height best) st)"

section \<open>What a checked record satisfies\<close>

lemma sync_check_header_ok:
  "sync_check_header P now cu r = Inr header \<longleftrightarrow>
     br_height r = cu_height cu + 1 \<and> br_prev_hash r = hex_encode P (cu_tip_hash cu)
     \<and> header_from_record P r (cu_tip_hash cu) = Inr header
     \<and> timestamp_is_valid (h_timestamp header) (cu_last_ts cu) now MAX_FUTURE_MS
     \<and> h_difficulty_bits header = da_current_bits (cu_adjuster cu)
     \<and> (is_checkpoint_height (br_height r) \<or> br_btc_seed r = hex_encode P (cu_btc_seed cu))"
  by (auto simp: sync_check_header_def res_bind_Inr_iff)

lemma record_claim_ok:
  "record_claim P r header = Inr claim \<longleftrightarrow>
     sc_header claim = header \<and> hex_decode P (br_miner_public_key r) = Some (sc_public_key claim)
     \<and> hex_decode P (br_miner_signature r) = Some (sc_signature claim)"
  by (cases claim) (auto simp: record_claim_def split: option.splits)

lemma sync_check_body_ok:
  "sync_check_body P l r claim = Inr applied \<longleftrightarrow>
     claim_verify P claim = Inr () \<and> claim_block_hash_hex P claim = br_block_hash r
     \<and> merkle_root P (br_transactions r) = h_merkle_root (sc_header claim)
     \<and> length (br_transactions r) \<le> MAX_TXS_PER_BLOCK
     \<and> simulate_block_execution P l (br_transactions r) (br_miner_address r) (br_reward_bina r)
         = (br_transactions r, h_state_root (sc_header claim))
     \<and> applied = br_transactions r"
  using simulate_all [of P l "br_transactions r" "br_miner_address r" "br_reward_bina r"]
  by (auto simp: sync_check_body_def res_bind_Inr_iff case_prod_unfold Let_def prod_eq_iff not_less)

lemma sync_check_ok:
  "sync_check P now cu l r = Inr (claim, applied) \<longleftrightarrow>
     sync_check_header P now cu r = Inr (sc_header claim) \<and> record_claim P r (sc_header claim) = Inr claim
     \<and> sync_check_body P l r claim = Inr applied"
  by (auto simp: sync_check_def res_bind_Inr_iff record_claim_ok)

lemma sync_check_height: "sync_check P now cu l r = Inr x \<Longrightarrow> br_height r = cu_height cu + 1"
  by (cases x) (simp add: sync_check_ok sync_check_header_ok)

section \<open>The shared state mirrors the cursor\<close>

definition mirrors :: "cursor \<Rightarrow> node \<Rightarrow> bool" where
  "mirrors cu nd \<longleftrightarrow>
     (let s = nd_state nd in
      ns_chain_height s = cu_height cu \<and> ns_tip_hash s = cu_tip_hash cu
      \<and> ns_difficulty_bits s = da_current_bits (cu_adjuster cu) \<and> ns_btc_seed_hash s = cu_btc_seed cu
      \<and> ns_btc_checkpoint_tip_height s = cu_ckpt_tip cu \<and> ns_last_block_timestamp_ms s = cu_last_ts cu
      \<and> ns_chain_work s = cu_work cu \<and> ns_total_mined_bina s = lg_total_mined (nd_ledger nd))"

lemma mirrors_sync_apply: "mirrors (fst (sync_apply P J io r claim applied st)) (snd (sync_apply P J io r claim applied st))"
  by (cases st) (simp add: sync_apply_def mirrors_def sync_state_def Let_def)

lemma cu_height_advance [simp]: "cu_height (advance_cursor claim hash h b cu) = h"
  by (simp add: advance_cursor_def Let_def)

lemma sync_apply_sel [simp]:
  "nd_ledger (snd (sync_apply P J io r claim applied st))
     = ledger_apply_block P io (br_height r) (br_transactions r) (br_miner_address r) (br_reward_bina r)
         (br_timestamp r div 1000) (nd_ledger (snd st))"
  "fst (sync_apply P J io r claim applied st)
     = advance_cursor claim (claim_block_hash P claim) (br_height r) (br_btc_height r) (fst st)"
  by (cases st; simp add: sync_apply_def Let_def)+

text \<open>A property of cursor and node that every applied record keeps holds after a page.\<close>

lemma sync_page_invariant:
  assumes step: "\<And>st r claim applied. I st \<Longrightarrow> sync_check P (now (br_height r)) (fst st) (nd_ledger (snd st)) r = Inr (claim, applied)
      \<Longrightarrow> I (sync_apply P J (io (br_height r)) r claim applied st)"
    and "I st"
  shows "I (snd (snd (sync_page P J now io rs st)))"
  using assms(2)
proof (induction rs arbitrary: st)
  case (Cons r rs)
  show ?case
  proof (cases "sync_check P (now (br_height r)) (fst st) (nd_ledger (snd st)) r")
    case (Inr x)
    then show ?thesis
      using Cons.IH [OF step [OF Cons.prems]] by (cases x) (simp add: case_prod_unfold Let_def)
  qed (use Cons.prems in simp)
qed simp

lemma sync_page_mirrors:
  "mirrors (fst st) (snd st) \<Longrightarrow>
     mirrors (fst (snd (snd (sync_page P J now io rs st)))) (snd (snd (snd (sync_page P J now io rs st))))"
  by (rule sync_page_invariant [where I = "\<lambda>st. mirrors (fst st) (snd st)"]) (simp_all only: mirrors_sync_apply)

lemma sync_page_append:
  "sync_page P J now io (xs @ ys) st =
     (let (stop, n, st') = sync_page P J now io xs st in
      if stop then (True, n, st')
      else let (stop', m, st'') = sync_page P J now io ys st' in (stop', n + m, st''))"
proof (induction xs arbitrary: st)
  case (Cons x xs)
  then show ?case
    by (auto simp: Let_def case_prod_unfold split: sum.splits)
qed (simp add: case_prod_unfold)

lemma sync_page_height:
  assumes "sync_page P J now io rs st = (False, n, st')" "unat (cu_height (fst st)) + length rs < 2 ^ 64"
  shows "unat (cu_height (fst st')) = unat (cu_height (fst st)) + length rs"
  using assms
proof (induction rs arbitrary: st n)
  case (Cons r rs)
  then obtain claim applied where c: "sync_check P (now (br_height r)) (fst st) (nd_ledger (snd st)) r = Inr (claim, applied)"
    by (cases "sync_check P (now (br_height r)) (fst st) (nd_ledger (snd st)) r") auto
  let ?st = "sync_apply P J (io (br_height r)) r claim applied st"
  have h: "br_height r = cu_height (fst st) + 1"
    by (rule sync_check_height [OF c])
  have "unat (cu_height (fst st) + 1) = unat (cu_height (fst st)) + 1"
    using Cons.prems(2) by (subst unat_add_fits) simp_all
  then have u: "unat (cu_height (fst ?st)) = unat (cu_height (fst st)) + 1"
    using h by simp
  obtain m where "sync_page P J now io rs ?st = (False, m, st')"
    using Cons.prems(1) c by (auto simp: Let_def case_prod_unfold prod_eq_iff)
  then have "unat (cu_height (fst st')) = unat (cu_height (fst ?st)) + length rs"
    using Cons.prems(2) u by (intro Cons.IH) simp_all
  with u show ?case by simp
qed simp

section \<open>The loop ends\<close>

lemma sync_forward_unfold:
  "cu_height (fst st) \<ge> target \<Longrightarrow> sync_forward P J now io fetch target st = Some (0, st)"
  by (subst sync_forward.simps) simp

lemma sync_forward_ends:
  assumes "unat target < 2 ^ 63" "\<And>a b page. fetch a b = Some page \<Longrightarrow> length page < 2 ^ 63"
  shows "\<exists>n st'. sync_forward P J now io fetch target st = Some (n, st')
    \<and> (mirrors (fst st) (snd st) \<longrightarrow> mirrors (fst st') (snd st'))"
proof (induction "unat target - unat (cu_height (fst st))" arbitrary: st rule: less_induct)
  case less
  let ?start = "cu_height (fst st) + 1"
  let ?page = "fetch ?start (sat_add ?start (MAX_SYNC_PAGE - 1))"
  show ?case
  proof (cases "cu_height (fst st) \<ge> target \<or> ?page = None \<or> ?page = Some []")
    case True
    then have "sync_forward P J now io fetch target st = Some (0, st)"
      by (subst sync_forward.simps) (auto simp: Let_def)
    then show ?thesis by blast
  next
    case False
    then obtain page where page: "?page = Some page" "page \<noteq> []" and lt: "unat (cu_height (fst st)) < unat target"
      by (auto simp: word_le_nat_alt)
    obtain stop n st' where run: "sync_page P J now io page st = (stop, n, st')"
      by (cases "sync_page P J now io page st")
    have mir: "mirrors (fst st) (snd st) \<longrightarrow> mirrors (fst st') (snd st')"
      using sync_page_mirrors [of st P J now io page] run by simp
    show ?thesis
    proof (cases stop)
      case True
      with False page run have "sync_forward P J now io fetch target st = Some (n, st')"
        by (subst sync_forward.simps) (auto simp: Let_def)
      with mir show ?thesis by blast
    next
      case no_stop: False
      have "length page < 2 ^ 63" by (rule assms(2) [OF page(1)])
      then have "unat (cu_height (fst st)) + length page < 2 ^ 64"
        using lt assms(1) by simp
      then have "unat (cu_height (fst st')) = unat (cu_height (fst st)) + length page"
        using run no_stop by (intro sync_page_height) simp_all
      then have "unat target - unat (cu_height (fst st')) < unat target - unat (cu_height (fst st))"
        using lt page(2) by (cases page) auto
      from less [OF this] obtain m st'' where "sync_forward P J now io fetch target st' = Some (m, st'')"
        "mirrors (fst st') (snd st') \<longrightarrow> mirrors (fst st'') (snd st'')" by blast
      with False page run no_stop have "sync_forward P J now io fetch target st = Some (n + m, st'')"
        by (subst sync_forward.simps) (auto simp: Let_def)
      with mir \<open>mirrors (fst st') (snd st') \<longrightarrow> mirrors (fst st'') (snd st'')\<close> show ?thesis by blast
    qed
  qed
qed

section \<open>Paging does not matter\<close>

text \<open>A peer that serves a fixed chain above height \<open>h0\<close>, in pages as requested.\<close>

definition serve_chain :: "u64 \<Rightarrow> block_record list \<Rightarrow> u64 \<Rightarrow> u64 \<Rightarrow> block_record list option" where
  "serve_chain h0 chain start stop =
     Some (take (unat stop + 1 - unat start) (drop (unat start - unat h0 - 1) chain))"

definition serves :: "(u64 \<Rightarrow> u64 \<Rightarrow> block_record list option) \<Rightarrow> u64 \<Rightarrow> block_record list \<Rightarrow> bool" where
  "serves fetch h0 chain \<longleftrightarrow>
     (\<forall>start stop. unat h0 < unat start \<longrightarrow> unat start \<le> unat h0 + length chain \<longrightarrow> unat stop = unat start + 499 \<longrightarrow>
        fetch start stop = Some (take 500 (drop (unat start - unat h0 - 1) chain)))"

lemma serves_chain: "serves (serve_chain h0 chain) h0 chain"
  by (simp add: serves_def serve_chain_def)

lemma sync_chain_rest:
  assumes "unat h0 + length chain < 2 ^ 63" "target = h0 + of_nat (length chain)"
    and "unat (cu_height (fst st)) = unat h0 + i" "i \<le> length chain" "serves fetch h0 chain"
  shows "sync_forward P J now io fetch target st
    = Some (snd (sync_page P J now io (drop i chain) st))"
  using assms(3,4)
proof (induction "length chain - i" arbitrary: i st rule: less_induct)
  case less
  have len: "unat (of_nat (length chain) :: u64) = length chain"
    using assms(1) by (simp add: unat_of_nat)
  then have t: "unat target = unat h0 + length chain"
    using assms(1,2) by (simp add: unat_add_fits)
  show ?case
  proof (cases "i = length chain")
    case True
    then have "cu_height (fst st) \<ge> target"
      using less.prems t by (simp add: word_le_nat_alt)
    with True show ?thesis by (simp add: sync_forward_unfold)
  next
    case False
    then have i: "i < length chain" using less.prems(2) by simp
    then have lt: "\<not> cu_height (fst st) \<ge> target"
      using less.prems t by (simp add: word_le_nat_alt)
    have u1: "unat (cu_height (fst st) + 1) = unat h0 + i + 1"
      using less.prems assms(1) i by (subst unat_add_fits) simp_all
    have u2: "unat (sat_add (cu_height (fst st) + 1) (MAX_SYNC_PAGE - 1)) = unat h0 + i + 500"
      using u1 assms(1) i by (simp add: unat_sat_add MAX_SYNC_PAGE_def)
    have page: "fetch (cu_height (fst st) + 1) (sat_add (cu_height (fst st) + 1) (MAX_SYNC_PAGE - 1))
        = Some (take 500 (drop i chain))"
      using assms(5) i u1 u2 by (simp add: serves_def)
    have ne: "take 500 (drop i chain) \<noteq> []" using i by simp
    obtain stop n st' where run: "sync_page P J now io (take 500 (drop i chain)) st = (stop, n, st')"
      by (cases "sync_page P J now io (take 500 (drop i chain)) st")
    let ?j = "i + length (take 500 (drop i chain))"
    have "drop ?j chain = drop 500 (drop i chain)"
      by (cases "500 \<le> length chain - i") (simp_all add: add.commute)
    then have split: "drop i chain = take 500 (drop i chain) @ drop ?j chain"
      by (simp only: append_take_drop_id)
    note whole = sync_page_append [of P J now io "take 500 (drop i chain)" "drop ?j chain" st, folded split]
    show ?thesis
    proof (cases stop)
      case True
      with run have "sync_page P J now io (drop i chain) st = (True, n, st')"
        by (simp add: whole)
      with True lt page ne run show ?thesis
        by (subst sync_forward.simps) (simp add: Let_def)
    next
      case False
      have "unat (cu_height (fst st')) = unat (cu_height (fst st)) + length (take 500 (drop i chain))"
        using run False less.prems assms(1) by (intro sync_page_height) auto
      then have h': "unat (cu_height (fst st')) = unat h0 + ?j"
        using less.prems by simp
      have j: "?j \<le> length chain" "length chain - ?j < length chain - i"
        using i by simp_all
      have IH: "sync_forward P J now io fetch target st' = Some (snd (sync_page P J now io (drop ?j chain) st'))"
        by (rule less.hyps [OF j(2) h' j(1)])
      have "sync_page P J now io (drop i chain) st
          = (fst (sync_page P J now io (drop ?j chain) st'),
             n + fst (snd (sync_page P J now io (drop ?j chain) st')),
             snd (snd (sync_page P J now io (drop ?j chain) st')))"
        using run False by (simp add: whole case_prod_unfold Let_def)
      with IH False lt page ne run show ?thesis
        by (subst sync_forward.simps) (simp add: Let_def case_prod_unfold)
    qed
  qed
qed

section \<open>Executing a checked block\<close>

lemma fold_apply_all:
  "fst (apply_all P h miner ts txs l) = Inr () \<Longrightarrow>
     fold (\<lambda>s l. snd (apply_transaction P True h s miner ts l)) txs l = snd (apply_all P h miner ts txs l)"
  by (induction txs arbitrary: l) (auto split: prod.splits sum.splits)

lemma ledger_apply_execute:
  "execute_block P h txs miner reward ts l = (Inr (), l') \<Longrightarrow> ledger_apply_block P True h txs miner reward ts l = l'"
  using fold_apply_all [of P h miner ts txs l]
  by (auto simp: execute_block_def ledger_apply_block_def split: prod.splits sum.splits)

lemma ledger_apply_total: "lg_total_mined (ledger_apply_block P io h txs miner reward ts l) = sat_add (lg_total_mined l) reward"
proof -
  have "lg_total_mined (snd (apply_transaction P io h s miner ts l)) = lg_total_mined l" for s l
    by (rule apply_transaction_cases [of P s l io h miner ts]) simp_all
  then have t: "lg_total_mined (fold (\<lambda>s l. snd (apply_transaction P io h s miner ts l)) txs l) = lg_total_mined l"
    by (induction txs arbitrary: l) simp_all
  have "unat (lg_total_mined l) < 2 ^ 64" by (rule unat_lt_u64)
  then show ?thesis
    by (simp add: ledger_apply_block_def ledger_credit_def Let_def t) (simp add: sat_add_def)
qed

lemma ledger_apply_supply:
  assumes "supply_ok l"
  shows "supply_ok (ledger_apply_block P io h txs miner (block_reward h' (lg_total_mined l)) ts l)"
proof -
  let ?f = "fold (\<lambda>s l. snd (apply_transaction P io h s miner ts l)) txs l"
  have "supply_ok ?f \<and> lg_total_mined ?f = lg_total_mined l"
    using assms
  proof (induction txs arbitrary: l)
    case (Cons s txs)
    have "lg_total_mined (snd (apply_transaction P io h s miner ts l)) = lg_total_mined l"
      by (rule apply_transaction_cases [of P s l io h miner ts]) simp_all
    with Cons.IH [OF supply_ok_apply [OF Cons.prems], of P io h s miner ts] show ?case by simp
  qed simp
  moreover have "unat (lg_total_mined l) + unat (block_reward h' (lg_total_mined l)) \<le> unat HARD_CAP"
    using assms by (intro block_reward_cap) (simp add: supply_ok_def)
  ultimately show ?thesis
    unfolding ledger_apply_block_def by (intro supply_ok_credit) simp_all
qed

section \<open>Properties\<close>


text \<open>The size of the pages does not matter: catching up with a peer that serves a fixed chain gives what
  processing the whole chain at once gives, the same blocks applied and the same refused record.\<close>

theorem sync_paging_irrelevant:
  assumes "unat (cu_height cu) + length chain < 2 ^ 63"
  shows "sync_forward P J now_ms io (serve_chain (cu_height cu) chain) (cu_height cu + of_nat (length chain)) (cu, nd)
    = Some (snd (sync_page P J now_ms io chain (cu, nd)))"
  using sync_chain_rest [OF assms refl _ _ serves_chain, of "(cu, nd)" 0 P J now_ms io] by simp


theorem sync_paging_irrelevant_witness:
  "sync_forward sample_prims sample_serde (\<lambda>_. 7) (\<lambda>_. True)
      (serve_chain 45 [sample_record 46 ''x'', sample_record 47 ''y'']) 47 (sample_cursor, sample_node)
    = Some (0, sample_cursor, sample_node)"
proof -
  have h: "cu_height sample_cursor = 45" by (simp add: sample_cursor_def)
  have "length (sample_hex (cu_tip_hash sample_cursor)) = 64"
    by (simp add: length_sample_hex sample_cursor_def)
  then have "br_prev_hash (sample_record 46 ''x'') \<noteq> sample_hex (cu_tip_hash sample_cursor)"
    by (auto simp: sample_record_def)
  then have "sync_check sample_prims 7 sample_cursor sample_ledger (sample_record 46 ''x'') = Inl SyncPrevHash"
    by (simp add: sync_check_def sync_check_header_def h)
  then have "sync_page sample_prims sample_serde (\<lambda>_. 7) (\<lambda>_. True) [sample_record 46 ''x'', sample_record 47 ''y'']
      (sample_cursor, sample_node) = (True, 0, sample_cursor, sample_node)"
    by (simp add: sample_node_def)
  then show ?thesis
    using sync_paging_irrelevant [of sample_cursor "[sample_record 46 ''x'', sample_record 47 ''y'']"] by (simp add: h)
qed

end
