(* ===== verification/Mining.thy ===== *)
theory Mining
  imports Chain_Sync Pow
begin

text \<open>
  One pass of the mining loop (\<^verbatim>\<open>mining_loop\<close>, \<^verbatim>\<open>node/src/main.rs\<close>): the Bitcoin observation of a
  checkpoint height, the candidate built from the pool, the local claim, the election and the commitment of
  the elected block to the ledger, the block store, the resume file and the shared state. The header comes
  from the threads of \<open>Pow\<close>; clocks, Bitcoin answers and whether files can be written are arguments. The
  wait for an observation may last forever and is a partial function.
\<close>

section \<open>Observing Bitcoin\<close>

definition fetch_btc :: "btc_entropy_state option \<Rightarrow> btc_entropy_state option \<Rightarrow> btc_entropy_state" where
  "fetch_btc answer previous =
     (case answer of
        Some e \<Rightarrow> e
      | None \<Rightarrow> (case previous of Some p \<Rightarrow> p | None \<Rightarrow> btc_state_mock))"

text \<open>One round of the background task.\<close>

definition btc_observe :: "btc_entropy_state option \<Rightarrow> node_state \<Rightarrow> node_state" where
  "btc_observe answer s =
     s\<lparr>ns_last_observed_btc := fetch_btc answer (Some (ns_last_observed_btc s))\<rparr>"

text \<open>At a checkpoint height, once the chain has a real checkpoint, the loop asks again until the
  observation is real: the answers and the last observation of the shared state at the \<open>k\<close>-th attempt.\<close>

partial_function (option) await_observation :: "u64 \<Rightarrow> (nat \<Rightarrow> btc_entropy_state option)
    \<Rightarrow> (nat \<Rightarrow> btc_entropy_state) \<Rightarrow> nat \<Rightarrow> btc_entropy_state option" where
  "await_observation checkpoint_tip answers observed k =
     (let fresh = fetch_btc (answers k) (Some (observed k)) in
      if be_tip_height fresh = 0 \<and> checkpoint_tip > 0
      then await_observation checkpoint_tip answers observed (Suc k)
      else Some fresh)"

section \<open>The candidate\<close>

record candidate =
  cd_height :: u64
  cd_seed :: bytes
  cd_proof :: "btc_checkpoint_proof option"
  cd_bits :: u32
  cd_reward :: u64
  cd_timestamp :: u64
  cd_txs :: "signed_transaction list"
  cd_state_root :: bytes

definition block_seed :: "prims \<Rightarrow> u64 \<Rightarrow> btc_entropy_state \<Rightarrow> cursor \<Rightarrow> bytes \<times> btc_checkpoint_proof option" where
  "block_seed P height fresh cu =
     (if is_checkpoint_height height
      then (btc_state_seed_hash P fresh, Some (checkpoint_from_state fresh))
      else (cu_btc_seed cu, None))"

definition candidate_txs :: "node_state \<Rightarrow> signed_transaction list" where
  "candidate_txs s = take MAX_TXS_PER_BLOCK (hm_values (ns_mempool s))"

definition build_candidate :: "prims \<Rightarrow> u64 \<Rightarrow> string \<Rightarrow> btc_entropy_state \<Rightarrow> cursor \<Rightarrow> node \<Rightarrow> candidate \<times> node" where
  "build_candidate P now_ms miner_hex fresh cu nd =
     (let height = cu_height cu + 1;
          (btc_seed, checkpoint_proof) = block_seed P height fresh cu;
          s = (nd_state nd)\<lparr>ns_last_observed_btc :=
                 (if is_checkpoint_height height then fresh else ns_last_observed_btc (nd_state nd)),
               ns_difficulty_bits := da_current_bits (cu_adjuster cu)\<rparr>;
          reward = block_reward height (ns_total_mined_bina s);
          (applied, root) = simulate_block_execution P (nd_ledger nd) (candidate_txs s) miner_hex reward in
      (\<lparr>cd_height = height, cd_seed = btc_seed, cd_proof = checkpoint_proof,
        cd_bits = da_current_bits (cu_adjuster cu), cd_reward = reward,
        cd_timestamp = max now_ms (sat_add (cu_last_ts cu) 1), cd_txs = applied, cd_state_root = root\<rparr>,
       nd\<lparr>nd_state := s\<rparr>))"

definition candidate_job :: "prims \<Rightarrow> bytes \<Rightarrow> nat \<Rightarrow> cursor \<Rightarrow> candidate \<Rightarrow> mining_job" where
  "candidate_job P miner_address threads cu cd =
     \<lparr>mj_prims = P,
      mj_template = mining_template (cd_height cd) (cu_tip_hash cu) (merkle_root P (cd_txs cd)) (cd_state_root cd)
        miner_address (cd_seed cd) (cd_bits cd) (cd_timestamp cd),
      mj_threads = threads\<rparr>"

text \<open>The local claim enters the pool of its height unless this miner already has one there.\<close>

definition local_pending :: "candidate \<Rightarrow> signed_claim \<Rightarrow> pending_claim" where
  "local_pending cd claim = \<lparr>pc_claim = claim, pc_btc_checkpoint = cd_proof cd, pc_transactions = cd_txs cd\<rparr>"

definition submit_local :: "string \<Rightarrow> candidate \<Rightarrow> signed_claim \<Rightarrow> node_state \<Rightarrow> node_state" where
  "submit_local miner_hex cd claim s =
     (let claims = pending_at s (cd_height cd) in
      s\<lparr>ns_pending_claims := hm_insert (cd_height cd)
          (if hm_has claims miner_hex then claims else hm_insert miner_hex (local_pending cd claim) claims)
          (ns_pending_claims s)\<rparr>)"

section \<open>The election\<close>

definition elect :: "prims \<Rightarrow> u64 \<Rightarrow> node_state \<Rightarrow> (panic + pending_claim) \<times> node_state" where
  "elect P height s =
     (let candidates = hm_values (pending_at s height);
          s' = s\<lparr>ns_pending_claims := retain_above height (hm_remove height (ns_pending_claims s))\<rparr> in
      ((case select_winning_pending P candidates of None \<Rightarrow> Inl PanicNoClaim | Some w \<Rightarrow> Inr w), s'))"

section \<open>The commitment\<close>

text \<open>What \<^verbatim>\<open>mine_block\<close> reports about its own work.\<close>

record mining_result =
  mi_elapsed_ms :: u64
  mi_hashes_tried :: u64
  mi_hashrate_hs :: rat

text \<open>The checkpoint height the block pins, and the local variables of the loop afterwards. The local
  checkpoint height is not among the ones the loop assigns.\<close>

definition pinned_tip :: "u64 \<Rightarrow> pending_claim \<Rightarrow> u64 \<Rightarrow> u64" where
  "pinned_tip height winning shared_tip =
     (case pc_btc_checkpoint winning of
        Some proof \<Rightarrow> if is_checkpoint_height height then cp_tip_height proof else shared_tip
      | None \<Rightarrow> shared_tip)"

definition commit_cursor :: "prims \<Rightarrow> u64 \<Rightarrow> pending_claim \<Rightarrow> cursor \<Rightarrow> cursor" where
  "commit_cursor P height winning cu =
     (let header = sc_header (pc_claim winning) in
      cu\<lparr>cu_height := height, cu_tip_hash := claim_block_hash P (pc_claim winning),
         cu_last_ts := h_timestamp header,
         cu_btc_seed := (if is_checkpoint_height height \<and> pc_btc_checkpoint winning \<noteq> None
                         then h_bitcoin_seed_hash header else cu_btc_seed cu),
         cu_work := sat_add (cu_work cu) (block_work (h_difficulty_bits header)),
         cu_adjuster := snd (record_block height (h_timestamp header) (cu_adjuster cu))\<rparr>)"

definition claim_randomness :: "prims \<Rightarrow> u64 \<Rightarrow> signed_claim \<Rightarrow> randomness_output" where
  "claim_randomness P height claim =
     randomness_from_block P height (claim_block_hash P claim) (h_bitcoin_seed_hash (sc_header claim))"

definition mined_record :: "prims \<Rightarrow> u64 \<Rightarrow> pending_claim \<Rightarrow> u64 \<Rightarrow> mining_result \<Rightarrow> bytes \<Rightarrow> u64 \<Rightarrow> u128
    \<Rightarrow> block_record" where
  "mined_record P height winning reward result local_hash tip_now chain_work =
     (let claim = pc_claim winning; header = sc_header claim; block_hash = claim_block_hash P claim;
          rand_out = claim_randomness P height claim;
          local_won = block_hash = local_hash in
      \<lparr>br_height = height, br_block_hash = hex_encode P block_hash, br_prev_hash = hex_encode P (h_prev_hash header),
       br_nonce = h_nonce header, br_timestamp = h_timestamp header,
       br_mined_timestamp_secs = h_timestamp header div 1000,
       br_zero_bits = word_of_nat (leading_zero_bits block_hash), br_difficulty_bits = h_difficulty_bits header,
       br_hashes_tried = (if local_won then mi_hashes_tried result else 0),
       br_elapsed_ms = (if local_won then mi_elapsed_ms result else 0),
       br_hashrate_mhs = (if local_won then mi_hashrate_hs result / 1000000 else 0),
       br_miner_address = claim_miner_address_hex P claim, br_miner_public_key = hex_encode P (sc_public_key claim),
       br_miner_signature = hex_encode P (sc_signature claim), br_claim_digest = claim_digest_hex P claim,
       br_election_score = claim_election_score_hex P claim,
       br_source = (if local_won then ''local'' else ''submitted''), br_reward_bina = reward,
       br_randomness_output = output_hex P rand_out, br_nullifier = nullifier_hex P rand_out,
       br_btc_seed = hex_encode P (h_bitcoin_seed_hash header), br_btc_height = tip_now,
       br_merkle_root = hex_encode P (h_merkle_root header), br_state_root = hex_encode P (h_state_root header),
       br_chain_work_hex = show_hex chain_work, br_transactions = pc_transactions winning\<rparr>)"

text \<open>The fields of the shared state that are written at the end, when the nullifier was fresh.\<close>

definition commit_state :: "u64 \<Rightarrow> cursor \<Rightarrow> u64 \<Rightarrow> u64 \<Rightarrow> mining_result \<Rightarrow> nullifier_set \<Rightarrow> node_state \<Rightarrow> node_state" where
  "commit_state now_secs cu tip_now total_mined result spent s =
     s\<lparr>ns_nullifiers := spent, ns_total_hashes := ns_total_hashes s + mi_hashes_tried result,
       ns_total_time_ms := ns_total_time_ms s + mi_elapsed_ms result,
       ns_chain_height := cu_height cu, ns_total_mined_bina := total_mined,
       ns_current_reward := block_reward (cu_height cu + 1) total_mined,
       ns_difficulty_bits := da_current_bits (cu_adjuster cu), ns_tip_hash := cu_tip_hash cu,
       ns_btc_seed_hash := cu_btc_seed cu, ns_btc_checkpoint_tip_height := tip_now,
       ns_btc_seed_changed_at :=
         (if is_checkpoint_height (cu_height cu) then now_secs else ns_btc_seed_changed_at s),
       ns_last_block_timestamp_ms := cu_last_ts cu, ns_chain_work := cu_work cu\<rparr>"

definition drop_confirmed :: "prims \<Rightarrow> signed_transaction list \<Rightarrow> node_state \<Rightarrow> node_state" where
  "drop_confirmed P txs s = s\<lparr>ns_mempool := fold (\<lambda>t. hm_remove (stx_tx_id P t)) txs (ns_mempool s)\<rparr>"

text \<open>The commitment of the elected claim. The file is the text of the resume file; the ledger, the store and
  the file have been written when a nullifier that was spent before makes the loop panic.\<close>

definition commit :: "prims \<Rightarrow> serde \<Rightarrow> chain_codec \<Rightarrow> bool \<Rightarrow> bool \<Rightarrow> u64 \<Rightarrow> candidate \<Rightarrow> mining_result \<Rightarrow> bytes
    \<Rightarrow> pending_claim \<Rightarrow> cursor \<times> node \<times> string option \<Rightarrow> (panic + unit) \<times> cursor \<times> node \<times> string option" where
  "commit P J K ledger_io file_io now_secs cd result local_hash winning = (\<lambda>(cu, nd, file).
     let s = nd_state nd; height = cd_height cd; txs = pc_transactions winning;
         header = sc_header (pc_claim winning); block_hash = claim_block_hash P (pc_claim winning);
         rand_out = claim_randomness P height (pc_claim winning);
         tip_now = pinned_tip height winning (ns_btc_checkpoint_tip_height s);
         cu' = commit_cursor P height winning cu;
         s1 = (case fst (record_block height (h_timestamp header) (cu_adjuster cu)) of
                 None \<Rightarrow> s | Some info \<Rightarrow> s\<lparr>ns_last_adjustment := Some info\<rparr>);
         l = ledger_apply_block P ledger_io height txs (claim_miner_address_hex P (pc_claim winning))
               (cd_reward cd) (h_timestamp header div 1000) (nd_ledger nd);
         s2 = drop_confirmed P txs s1;
         rec = mined_record P height winning (cd_reward cd) result local_hash tip_now (cu_work cu');
         store = insert_block J rec (fold (\<lambda>t. mempool_remove P (stx_tx_id P t)) txs (nd_store nd));
         file' = snd (save_chain_state P K file_io now_secs (header_hash P (genesis_header P)) block_hash height
                   (resume_of_cursor P (cu'\<lparr>cu_ckpt_tip := tip_now\<rparr>)) file) in
     case nullifiers_consume rand_out (ns_nullifiers s2) of
       (Inl _, spent) \<Rightarrow>
         (Inl PanicNullifier, cu', \<lparr>nd_state = s2\<lparr>ns_nullifiers := spent\<rparr>, nd_ledger = l, nd_store = store\<rparr>, file')
     | (Inr _, spent) \<Rightarrow>
         (Inr (), cu',
          \<lparr>nd_state = commit_state now_secs cu' tip_now (lg_total_mined l) result spent s2,
           nd_ledger = l, nd_store = store\<rparr>, file'))"

section \<open>The shared state follows the loop\<close>

text \<open>As \<open>mirrors\<close>, but for the checkpoint height, of which the loop's copy is not updated.\<close>

definition tracks :: "cursor \<Rightarrow> node \<Rightarrow> bool" where
  "tracks cu nd \<longleftrightarrow>
     (let s = nd_state nd in
      ns_chain_height s = cu_height cu \<and> ns_tip_hash s = cu_tip_hash cu
      \<and> ns_difficulty_bits s = da_current_bits (cu_adjuster cu) \<and> ns_btc_seed_hash s = cu_btc_seed cu
      \<and> ns_last_block_timestamp_ms s = cu_last_ts cu \<and> ns_chain_work s = cu_work cu
      \<and> ns_total_mined_bina s = lg_total_mined (nd_ledger nd))"

lemma mirrors_tracks: "mirrors cu nd \<Longrightarrow> tracks cu nd"
  by (simp add: mirrors_def tracks_def Let_def)

text \<open>A candidate of the loop, built on the tip it follows.\<close>

definition candidate_fits :: "prims \<Rightarrow> string \<Rightarrow> cursor \<Rightarrow> ledger \<Rightarrow> candidate \<Rightarrow> bool" where
  "candidate_fits P miner_hex cu l cd \<longleftrightarrow>
     cd_height cd = cu_height cu + 1 \<and> cd_bits cd = da_current_bits (cu_adjuster cu)
     \<and> cd_reward cd = block_reward (cd_height cd) (lg_total_mined l)
     \<and> cu_last_ts cu < cd_timestamp cd \<and> length (cd_txs cd) \<le> MAX_TXS_PER_BLOCK
     \<and> simulate_block_execution P l (cd_txs cd) miner_hex (cd_reward cd) = (cd_txs cd, cd_state_root cd)
     \<and> (if is_checkpoint_height (cd_height cd)
        then \<exists>proof. cd_proof cd = Some proof \<and> checkpoint_seed_hash P proof = cd_seed cd
        else cd_seed cd = cu_btc_seed cu)"

lemma checkpoint_seed_from_state: "checkpoint_seed_hash P (checkpoint_from_state e) = btc_state_seed_hash P e"
  by (simp add: checkpoint_seed_hash_def checkpoint_from_state_def btc_state_seed_hash_def)

lemma simulate_applied:
  assumes "simulate_block_execution P l txs miner reward = (applied, sr)"
  shows "simulate_block_execution P l applied miner reward = (applied, sr)" "length applied \<le> length txs"
proof -
  have e: "applied = fst (exec_txs (simulate_tx P l miner) txs [])"
    using fst_simulate [of P l txs miner reward] assms by (simp add: simulate_txs_exec)
  with length_exec_txs show "length applied \<le> length txs" by simp
  have "exec_txs (simulate_tx P l miner) applied [] = exec_txs (simulate_tx P l miner) txs []"
    unfolding e by (rule exec_txs_applied)
  with assms show "simulate_block_execution P l applied miner reward = (applied, sr)"
    by (simp add: simulate_block_execution_def simulate_txs_exec)
qed

lemma less_sat_add_one: "unat (t :: u64) + 1 < 2 ^ 64 \<Longrightarrow> t < max n (sat_add t 1)"
proof -
  assume "unat t + 1 < 2 ^ 64"
  then have "t < sat_add t 1" by (simp add: word_less_nat_alt unat_sat_add)
  then show ?thesis by (simp add: less_max_iff_disj)
qed

lemma build_candidate_node:
  assumes "build_candidate P now miner_hex fresh cu nd = (cd, nd')"
  shows "nd' = nd\<lparr>nd_state := (nd_state nd)\<lparr>ns_last_observed_btc := ns_last_observed_btc (nd_state nd'),
    ns_difficulty_bits := da_current_bits (cu_adjuster cu)\<rparr>\<rparr>"
  using assms by (auto simp: build_candidate_def Let_def case_prod_unfold)

lemma build_candidate_fits:
  assumes "build_candidate P now miner_hex fresh cu nd = (cd, nd')" "tracks cu nd"
    and "unat (cu_last_ts cu) + 1 < 2 ^ 64"
  shows "candidate_fits P miner_hex cu (nd_ledger nd) cd"
proof -
  let ?h = "cu_height cu + 1"
  let ?reward = "block_reward ?h (lg_total_mined (nd_ledger nd))"
  obtain applied sr where sim: "simulate_block_execution P (nd_ledger nd) (candidate_txs (nd_state nd)) miner_hex ?reward = (applied, sr)"
    by fastforce
  have "ns_total_mined_bina (nd_state nd) = lg_total_mined (nd_ledger nd)"
    using assms(2) by (simp add: tracks_def Let_def)
  moreover have "candidate_txs ((nd_state nd)\<lparr>ns_last_observed_btc := e, ns_difficulty_bits := b\<rparr>) = candidate_txs (nd_state nd)" for e b
    by (simp add: candidate_txs_def)
  ultimately have cd: "cd = \<lparr>cd_height = ?h, cd_seed = fst (block_seed P ?h fresh cu), cd_proof = snd (block_seed P ?h fresh cu),
      cd_bits = da_current_bits (cu_adjuster cu), cd_reward = ?reward,
      cd_timestamp = max now (sat_add (cu_last_ts cu) 1), cd_txs = applied, cd_state_root = sr\<rparr>"
    using assms(1) sim by (auto simp: build_candidate_def Let_def case_prod_unfold)
  have "length applied \<le> length (candidate_txs (nd_state nd))"
    using simulate_applied(2) [OF sim] .
  then have "length applied \<le> MAX_TXS_PER_BLOCK"
    by (simp add: candidate_txs_def)
  with simulate_applied(1) [OF sim] less_sat_add_one [OF assms(3)] show ?thesis
    by (simp add: candidate_fits_def cd block_seed_def checkpoint_seed_from_state)
qed

text \<open>The claim mined from a candidate that fits is a candidate the network would admit.\<close>

lemma mined_header_fields:
  "h_height (mined_header j r) = h_height (mj_template j)" "h_prev_hash (mined_header j r) = h_prev_hash (mj_template j)"
  "h_merkle_root (mined_header j r) = h_merkle_root (mj_template j)"
  "h_state_root (mined_header j r) = h_state_root (mj_template j)"
  "h_timestamp (mined_header j r) = h_timestamp (mj_template j)"
  "h_miner_address (mined_header j r) = h_miner_address (mj_template j)"
  "h_difficulty_bits (mined_header j r) = h_difficulty_bits (mj_template j)"
  "h_bitcoin_seed_hash (mined_header j r) = h_bitcoin_seed_hash (mj_template j)"
  "h_version (mined_header j r) = h_version (mj_template j)"
  by (simp_all add: mined_header_def)

lemma local_candidate_ok:
  assumes "candidate_fits P (hex_encode P addr) cu (nd_ledger nd) cd" "tracks cu nd"
    and "sc_header claim = mined_header (candidate_job P addr threads cu cd) run" "claim_verify P claim = Inr ()"
  shows "candidate_ok P (nd_state nd) (nd_ledger nd) (local_pending cd claim)"
  using assms
  by (auto simp: candidate_ok_def candidate_fits_def tracks_def local_pending_def mined_header_fields Let_def
      candidate_job_def mining_template_def claim_miner_address_hex_def)

section \<open>A mined block as a record\<close>

text \<open>Two cursors that differ at most in the checkpoint height.\<close>

definition same_consensus :: "cursor \<Rightarrow> cursor \<Rightarrow> bool" where
  "same_consensus a b \<longleftrightarrow> a\<lparr>cu_ckpt_tip := cu_ckpt_tip b\<rparr> = b"

lemma same_consensus_fields:
  assumes "same_consensus a b"
  shows "cu_height b = cu_height a" "cu_tip_hash b = cu_tip_hash a" "cu_last_ts b = cu_last_ts a"
    "cu_btc_seed b = cu_btc_seed a" "cu_work b = cu_work a" "cu_adjuster b = cu_adjuster a"
  using assms unfolding same_consensus_def by (metis cursor.ext_inject cursor.surjective cursor.update_convs(5))+

lemma mined_record_sel [simp]:
  "br_height (mined_record P height w reward result local tip work) = height"
  "br_block_hash (mined_record P height w reward result local tip work) = claim_block_hash_hex P (pc_claim w)"
  "br_prev_hash (mined_record P height w reward result local tip work) = hex_encode P (h_prev_hash (sc_header (pc_claim w)))"
  "br_timestamp (mined_record P height w reward result local tip work) = h_timestamp (sc_header (pc_claim w))"
  "br_miner_address (mined_record P height w reward result local tip work) = claim_miner_address_hex P (pc_claim w)"
  "br_reward_bina (mined_record P height w reward result local tip work) = reward"
  "br_btc_seed (mined_record P height w reward result local tip work) = hex_encode P (h_bitcoin_seed_hash (sc_header (pc_claim w)))"
  "br_btc_height (mined_record P height w reward result local tip work) = tip"
  "br_transactions (mined_record P height w reward result local tip work) = pc_transactions w"
  "br_nullifier (mined_record P height w reward result local tip work) = nullifier_hex P (claim_randomness P height (pc_claim w))"
  by (simp_all add: mined_record_def Let_def claim_block_hash_hex_def)

lemma mined_record_of_header:
  "h_height (sc_header (pc_claim w)) = height \<Longrightarrow>
     record_of_header P (sc_header (pc_claim w)) (mined_record P height w reward result local tip work)"
  by (simp add: record_of_header_def mined_record_def Let_def claim_miner_address_hex_def)

lemma record_claim_mined:
  "hex_ok P \<Longrightarrow> record_claim P (mined_record P height w reward result local tip work) (sc_header (pc_claim w)) = Inr (pc_claim w)"
  by (simp add: record_claim_def mined_record_def Let_def)

text \<open>What \<open>candidate_ok\<close> says of a claim, with any reward in place of the scheduled one.\<close>

definition claim_extends :: "prims \<Rightarrow> cursor \<Rightarrow> ledger \<Rightarrow> u64 \<Rightarrow> pending_claim \<Rightarrow> bool" where
  "claim_extends P cu l reward w \<longleftrightarrow>
     (let header = sc_header (pc_claim w) in
      claim_verify P (pc_claim w) = Inr () \<and> length (pc_transactions w) \<le> MAX_TXS_PER_BLOCK
      \<and> merkle_root P (pc_transactions w) = h_merkle_root header
      \<and> h_height header = cu_height cu + 1 \<and> h_prev_hash header = cu_tip_hash cu
      \<and> h_difficulty_bits header = da_current_bits (cu_adjuster cu) \<and> cu_last_ts cu < h_timestamp header
      \<and> (\<not> is_checkpoint_height (h_height header) \<longrightarrow> h_bitcoin_seed_hash header = cu_btc_seed cu)
      \<and> simulate_block_execution P l (pc_transactions w) (claim_miner_address_hex P (pc_claim w)) reward
        = (pc_transactions w, h_state_root header))"

lemma candidate_extends:
  "candidate_ok P (nd_state nd) (nd_ledger nd) w \<Longrightarrow> tracks cu nd \<Longrightarrow>
     claim_extends P cu (nd_ledger nd) (block_reward (cu_height cu + 1) (lg_total_mined (nd_ledger nd))) w"
  by (auto simp: candidate_ok_def claim_extends_def tracks_def Let_def split: if_splits)

lemma sync_check_mined:
  assumes "hex_ok P" "claim_extends P cu l reward w"
    and "header_wf (sc_header (pc_claim w))" "h_version (sc_header (pc_claim w)) = 1"
    and "same_consensus cu cu'" "h_timestamp (sc_header (pc_claim w)) \<le> sat_add now MAX_FUTURE_MS"
  shows "sync_check P now cu' l (mined_record P (cu_height cu + 1) w reward result local tip work)
    = Inr (pc_claim w, pc_transactions w)"
proof -
  let ?h = "sc_header (pc_claim w)"
  let ?r = "mined_record P (cu_height cu + 1) w reward result local tip work"
  note same = same_consensus_fields [OF assms(5)]
  have h: "h_height ?h = cu_height cu + 1" "h_prev_hash ?h = cu_tip_hash cu"
    using assms(2) by (simp_all add: claim_extends_def Let_def)
  have "header_from_record P ?r (cu_tip_hash cu) = Inr ?h"
    using header_of_its_record [OF assms(1,3,4) mined_record_of_header [OF h(1)]] h(2) by simp
  then have "sync_check_header P now cu' ?r = Inr ?h"
    using assms(2,6) by (auto simp: sync_check_header_def same timestamp_is_valid_def claim_extends_def Let_def)
  moreover have "sync_check_body P l ?r (pc_claim w) = Inr (pc_transactions w)"
    using assms(2) by (simp add: sync_check_body_def claim_extends_def Let_def)
  ultimately show ?thesis
    using assms(1) by (simp add: sync_check_def record_claim_mined)
qed

lemma advance_commit:
  assumes "candidate_ok P s l w" "h_height (sc_header (pc_claim w)) = height" "same_consensus cu cu'"
  shows "same_consensus (commit_cursor P height w cu)
    (advance_cursor (pc_claim w) (claim_block_hash P (pc_claim w)) height tip cu')"
proof -
  have "is_checkpoint_height height \<longrightarrow> pc_btc_checkpoint w \<noteq> None"
    using assms(1,2) by (auto simp: candidate_ok_def Let_def)
  then show ?thesis
    using same_consensus_fields [OF assms(3)]
    by (simp add: same_consensus_def commit_cursor_def advance_cursor_def Let_def)
qed

section \<open>What a commitment leaves behind\<close>

lemma drop_confirmed_sel [simp]:
  "ns_nullifiers (drop_confirmed P txs s) = ns_nullifiers s" "ns_chain_height (drop_confirmed P txs s) = ns_chain_height s"
  "ns_pending_claims (drop_confirmed P txs s) = ns_pending_claims s"
  "ns_mempool (drop_confirmed P txs s) = fold (\<lambda>t. hm_remove (stx_tx_id P t)) txs (ns_mempool s)"
  by (simp_all add: drop_confirmed_def)

lemma commit_result:
  "fst (commit P J K lio fio secs cd result lh w (cu, nd, file)) =
    (if ro_nullifier (claim_randomness P (cd_height cd) (pc_claim w)) \<in> set (ns_nullifiers (nd_state nd))
     then Inl PanicNullifier else Inr ())"
  by (simp add: commit_def Let_def nullifiers_consume_def nullifiers_mark_spent_def split: option.splits)

lemma commit_cursor_of:
  "fst (snd (commit P J K lio fio secs cd result lh w (cu, nd, file))) = commit_cursor P (cd_height cd) w cu"
  by (simp add: commit_def Let_def case_prod_unfold split: sum.splits)

lemma commit_ledger:
  "nd_ledger (fst (snd (snd (commit P J K lio fio secs cd result lh w (cu, nd, file))))) =
     ledger_apply_block P lio (cd_height cd) (pc_transactions w) (claim_miner_address_hex P (pc_claim w))
       (cd_reward cd) (h_timestamp (sc_header (pc_claim w)) div 1000) (nd_ledger nd)"
  by (simp add: commit_def Let_def case_prod_unfold split: sum.splits)

lemma commit_store:
  "nd_store (fst (snd (snd (commit P J K lio fio secs cd result lh w (cu, nd, file))))) =
     insert_block J (mined_record P (cd_height cd) w (cd_reward cd) result lh
         (pinned_tip (cd_height cd) w (ns_btc_checkpoint_tip_height (nd_state nd)))
         (cu_work (commit_cursor P (cd_height cd) w cu)))
       (fold (\<lambda>t. mempool_remove P (stx_tx_id P t)) (pc_transactions w) (nd_store nd))"
  by (simp add: commit_def Let_def case_prod_unfold split: sum.splits)

lemma commit_tracks:
  assumes "commit P J K lio fio secs cd result lh w (cu, nd, file) = (Inr (), cu', nd', file')"
  shows "tracks cu' nd'"
  using assms by (auto simp: commit_def Let_def case_prod_unfold commit_state_def tracks_def split: sum.splits)

lemma commit_pending:
  "ns_pending_claims (nd_state (fst (snd (snd (commit P J K lio fio secs cd result lh w (cu, nd, file))))))
     = ns_pending_claims (nd_state nd)"
  by (simp add: commit_def Let_def case_prod_unfold commit_state_def split: sum.splits option.splits)

lemma commit_nullifiers:
  "set (ns_nullifiers (nd_state (fst (snd (snd (commit P J K lio fio secs cd result lh w (cu, nd, file)))))))
     = insert (ro_nullifier (claim_randomness P (cd_height cd) (pc_claim w))) (set (ns_nullifiers (nd_state nd)))"
  by (auto simp: commit_def Let_def case_prod_unfold commit_state_def nullifiers_consume_def nullifiers_mark_spent_def
      split: sum.splits option.splits)

end
