(* ===== verification/Mined_Sync.thy ===== *)
theory Mined_Sync
  imports Mining
begin

text \<open>
  The composition of mining and synchronisation: what a peer makes of the record a miner stored, and what the
  synchronisation takes from a record without checking it. The samples extend the chain of
  \<open>sample_node\<close> by one block.
\<close>

section \<open>Samples\<close>

definition sample_tip :: cursor where
  "sample_tip = \<lparr>cu_height = 1, cu_tip_hash = replicate 32 7, cu_last_ts = 1000000, cu_btc_seed = zeros 32,
     cu_ckpt_tip = 0, cu_work = 0,
     cu_adjuster = \<lparr>da_current_bits = 0, da_epoch_start_ms = 0, da_epoch_start_height = 0, da_last_adjustment = None\<rparr>\<rparr>"

lemma sample_tip_sel [simp]: "cu_height sample_tip = 1" "cu_ckpt_tip sample_tip = 0"
  by (simp_all add: sample_tip_def)

lemma sample_tracks: "tracks sample_tip sample_node"
  by (simp add: tracks_def Let_def sample_tip_def sample_node_def sample_state_def initial_state_def sample_ledger_def)

text \<open>The header of a block on top of that chain with a reward and a version.\<close>

definition sample_block :: "u32 \<Rightarrow> u64 \<Rightarrow> l1_header" where
  "sample_block v reward = sample_next_header\<lparr>h_version := v,
     h_state_root := snd (simulate_block_execution sample_prims sample_ledger [] sample_miner_hex reward)\<rparr>"

definition sample_winner :: "u32 \<Rightarrow> u64 \<Rightarrow> pending_claim" where
  "sample_winner v reward =
     \<lparr>pc_claim = mined_by_sample (sample_block v reward), pc_btc_checkpoint = None, pc_transactions = []\<rparr>"

lemma sample_winner_sel [simp]:
  "sc_header (pc_claim (sample_winner v reward)) = sample_block v reward"
  "pc_transactions (sample_winner v reward) = []" "pc_btc_checkpoint (sample_winner v reward) = None"
  by (simp_all add: sample_winner_def) (simp add: sample_block_def sample_next_header_def)

lemma sample_block_sel [simp]:
  "h_version (sample_block v reward) = v" "h_height (sample_block v reward) = 2"
  "h_timestamp (sample_block v reward) = 1000040" "h_difficulty_bits (sample_block v reward) = 0"
  by (simp_all add: sample_block_def sample_next_header_def)

lemma sample_height_2 [simp]: "\<not> is_checkpoint_height 2"
  by (simp add: is_checkpoint_height_def BTC_CHECKPOINT_INTERVAL_def sat_sub_def)

lemma sample_extends: "claim_extends sample_prims sample_tip sample_ledger reward (sample_winner v reward)"
proof -
  have "length (fst (simulate_block_execution sample_prims sample_ledger [] m r)) = length ([] :: signed_transaction list)" for m r
    by (simp add: fst_simulate)
  moreover have "claim_verify sample_prims (pc_claim (sample_winner v reward)) = Inr ()"
    unfolding sample_winner_def by (simp add: mined_by_sample_verifies)
  moreover have "claim_miner_address_hex sample_prims (pc_claim (sample_winner v reward)) = sample_miner_hex"
    by (simp add: claim_miner_address_hex_def) (simp add: sample_block_def sample_next_header_def sample_miner_hex_def)
  ultimately show ?thesis
    by (simp add: claim_extends_def prod_eq_iff merkle_root_def)
      (simp add: sample_block_def sample_next_header_def sample_tip_def)
qed

lemma sample_block_wf: "header_wf (sample_block v reward)"
proof -
  have "length (keypair_address sample_prims sample_miner) = 20"
    using sample_next_claim_verifies by (simp add: keypair_address_def wpk_address_def)
  moreover have "length (snd (simulate_block_execution sample_prims sample_ledger [] m r)) = 32" for m r
    by (simp add: simulate_block_execution_def state_root_with_overlay_def compute_state_root_def Let_def)
  ultimately show ?thesis
    by (simp add: header_wf_def sample_block_def sample_next_header_def)
qed

lemma sample_candidate: "candidate_ok sample_prims sample_state sample_ledger (sample_winner v (block_reward 2 100))"
  using sample_extends [of "block_reward 2 100" v]
  by (simp add: candidate_ok_def claim_extends_def Let_def sample_state_def initial_state_def sample_tip_def)

lemma as_stored_mined [simp]: "as_stored (mined_record P h w reward result local tip work) = mined_record P h w reward result local tip work"
  by (simp add: as_stored_def mined_record_def Let_def)

section \<open>What a check does not read\<close>

lemma sync_check_randomness:
  "sync_check P now cu l (r\<lparr>br_randomness_output := out, br_nullifier := n\<rparr>) = sync_check P now cu l r"
proof -
  let ?r = "r\<lparr>br_randomness_output := out, br_nullifier := n\<rparr>"
  have "header_from_record P ?r p = header_from_record P r p" and c: "record_claim P ?r header = record_claim P r header" for p header
    by (simp_all add: header_from_record_def record_claim_def cong: option.case_cong)
  then have "sync_check_header P now cu ?r = sync_check_header P now cu r"
    by (cases "header_from_record P r (cu_tip_hash cu)") (simp_all add: sync_check_header_def)
  moreover have "sync_check_body P l ?r x = sync_check_body P l r x" for x
    by (cases "claim_verify P x") (simp_all add: sync_check_body_def)
  moreover have "record_claim P ?r = record_claim P r"
    using c by (intro ext) simp
  ultimately show ?thesis
    by (simp add: sync_check_def)
qed

section \<open>The record of a mined block\<close>

lemma committed_record_syncs:
  assumes "hex_ok P" "candidate_ok P (nd_state nd) (nd_ledger nd) w" "tracks cu nd"
    and "header_wf (sc_header (pc_claim w))" "h_version (sc_header (pc_claim w)) = 1"
    and "cd_height cd = cu_height cu + 1" "cd_reward cd = block_reward (cd_height cd) (lg_total_mined (nd_ledger nd))"
    and "commit P J K lio fio secs cd result lh w (cu, nd, rf) = (Inr (), cu', nd', rf')"
    and "same_consensus cu peer_cu" "nd_ledger peer = nd_ledger nd"
    and "h_timestamp (sc_header (pc_claim w)) \<le> sat_add now MAX_FUTURE_MS"
  defines "r \<equiv> mined_record P (cd_height cd) w (cd_reward cd) result lh
      (pinned_tip (cd_height cd) w (ns_btc_checkpoint_tip_height (nd_state nd)))
      (cu_work (commit_cursor P (cd_height cd) w cu))"
  shows "nd_store nd' = insert_block J r (fold (\<lambda>t. mempool_remove P (stx_tx_id P t)) (pc_transactions w) (nd_store nd))"
    "sync_check P now peer_cu (nd_ledger peer) r = Inr (pc_claim w, pc_transactions w)"
    "same_consensus cu' (fst (sync_apply P J' lio r (pc_claim w) (pc_transactions w) (peer_cu, peer)))"
    "nd_ledger (snd (sync_apply P J' lio r (pc_claim w) (pc_transactions w) (peer_cu, peer))) = nd_ledger nd'"
    "cu' = commit_cursor P (cd_height cd) w cu"
proof -
  show "nd_store nd' = insert_block J r (fold (\<lambda>t. mempool_remove P (stx_tx_id P t)) (pc_transactions w) (nd_store nd))"
    using commit_store [of P J K lio fio secs cd result lh w cu nd rf] assms(8) by (simp add: r_def del: mined_record_sel)
  show "sync_check P now peer_cu (nd_ledger peer) r = Inr (pc_claim w, pc_transactions w)"
    using sync_check_mined [OF assms(1) candidate_extends [OF assms(2,3)] assms(4,5,9,11)] assms(6,7,10) by (simp add: r_def)
  show cu': "cu' = commit_cursor P (cd_height cd) w cu"
    using commit_cursor_of [of P J K lio fio secs cd result lh w cu nd rf] assms(8) by simp
  have "h_height (sc_header (pc_claim w)) = cd_height cd"
    using candidate_extends [OF assms(2,3)] assms(6) by (simp add: claim_extends_def Let_def)
  then show "same_consensus cu' (fst (sync_apply P J' lio r (pc_claim w) (pc_transactions w) (peer_cu, peer)))"
    using advance_commit [OF assms(2) _ assms(9)] by (simp add: cu' r_def)
  show "nd_ledger (snd (sync_apply P J' lio r (pc_claim w) (pc_transactions w) (peer_cu, peer))) = nd_ledger nd'"
    using commit_ledger [of P J K lio fio secs cd result lh w cu nd rf] assms(8,10) by (simp add: r_def)
qed

section \<open>Properties\<close>

text \<open>C2: A peer that catches up reproduces the block of the miner: when the elected claim was an admissible
  candidate, the record the miner stores is accepted by every peer that is in the same consensus state, and
  applying it leaves the peer with the same ledger and the same tip, timestamp, pinned seed, chain
  work and difficulty adjuster.\<close>

theorem mined_block_syncs:
  assumes "hex_ok P" "json_ok J" "candidate_ok P (nd_state nd) (nd_ledger nd) w" "tracks cu nd"
    and "header_wf (sc_header (pc_claim w))" "h_version (sc_header (pc_claim w)) = 1"
    and "cd_height cd = cu_height cu + 1" "cd_reward cd = block_reward (cd_height cd) (lg_total_mined (nd_ledger nd))"
    and "commit P J K lio fio secs cd result lh w (cu, nd, rf) = (Inr (), cu', nd', rf')"
    and "same_consensus cu peer_cu" "nd_ledger peer = nd_ledger nd"
    and "h_timestamp (sc_header (pc_claim w)) \<le> sat_add now MAX_FUTURE_MS"
  shows "\<exists>r. store_get J (nd_store nd') (cd_height cd) = Inr (Some r)
    \<and> sync_check P now peer_cu (nd_ledger peer) r = Inr (pc_claim w, pc_transactions w)
    \<and> same_consensus cu' (fst (sync_apply P J lio r (pc_claim w) (pc_transactions w) (peer_cu, peer)))
    \<and> nd_ledger (snd (sync_apply P J lio r (pc_claim w) (pc_transactions w) (peer_cu, peer))) = nd_ledger nd'"
proof -
  note c = committed_record_syncs [OF assms(1,3-12)]
  let ?r = "mined_record P (cd_height cd) w (cd_reward cd) result lh
      (pinned_tip (cd_height cd) w (ns_btc_checkpoint_tip_height (nd_state nd)))
      (cu_work (commit_cursor P (cd_height cd) w cu))"
  have "store_get J (nd_store nd') (br_height ?r) = Inr (Some (as_stored ?r))"
    unfolding c(1) by (rule store_get_insert_same [OF assms(2)])
  then show ?thesis
    using c(2-4) by (intro exI [of _ ?r]) simp
qed

definition sample_candidate_block :: candidate where
  "sample_candidate_block = \<lparr>cd_height = 2, cd_seed = zeros 32, cd_proof = None, cd_bits = 0,
     cd_reward = block_reward 2 100, cd_timestamp = 1000040, cd_txs = [],
     cd_state_root = h_state_root (sample_block 1 (block_reward 2 100))\<rparr>"

definition sample_result :: mining_result where
  "sample_result = \<lparr>mi_elapsed_ms = 3, mi_hashes_tried = 1, mi_hashrate_hs = 300\<rparr>"

theorem mined_block_syncs_witness:
  "\<exists>r (nd' :: node). store_get sample_serde (nd_store nd') 2 = Inr (Some r)
    \<and> sync_check sample_prims 1000050 sample_tip sample_ledger r = Inr (pc_claim (sample_winner 1 (block_reward 2 100)), [])"
proof -
  let ?w = "sample_winner 1 (block_reward 2 100)"
  let ?run = "commit sample_prims sample_serde sample_codec True True 9 sample_candidate_block sample_result [] ?w
      (sample_tip, sample_node, None)"
  have "ns_nullifiers (nd_state sample_node) = []"
    by (simp add: sample_node_def sample_state_def initial_state_def)
  then have run: "?run = (Inr (), fst (snd ?run), fst (snd (snd ?run)), snd (snd (snd ?run)))"
    using commit_result [of sample_prims sample_serde sample_codec True True 9 sample_candidate_block sample_result "[]" ?w
        sample_tip sample_node None] by (simp add: prod_eq_iff)
  have same: "same_consensus sample_tip sample_tip" by (simp add: same_consensus_def)
  have cand: "candidate_ok sample_prims (nd_state sample_node) (nd_ledger sample_node) ?w"
    using sample_candidate by (simp add: sample_node_def)
  have "cd_height sample_candidate_block = cu_height sample_tip + 1"
    "cd_reward sample_candidate_block = block_reward (cd_height sample_candidate_block) (lg_total_mined (nd_ledger sample_node))"
    "h_timestamp (sc_header (pc_claim ?w)) \<le> sat_add 1000050 MAX_FUTURE_MS"
    by (simp_all add: sample_candidate_block_def sample_node_def sample_ledger_def MAX_FUTURE_MS_def sat_add_def)
  from mined_block_syncs [OF sample_hex_ok sample_json_ok cand sample_tracks _ _ this(1,2) run same refl this(3)]
  obtain r where "store_get sample_serde (nd_store (fst (snd (snd ?run)))) (cd_height sample_candidate_block) = Inr (Some r)"
    "sync_check sample_prims 1000050 sample_tip (nd_ledger sample_node) r = Inr (pc_claim ?w, pc_transactions ?w)"
    by (auto simp: sample_block_wf)
  moreover have "cd_height sample_candidate_block = 2" "nd_ledger sample_node = sample_ledger"
    by (simp_all add: sample_candidate_block_def sample_node_def)
  ultimately have "store_get sample_serde (nd_store (fst (snd (snd ?run)))) 2 = Inr (Some r)
      \<and> sync_check sample_prims 1000050 sample_tip sample_ledger r = Inr (pc_claim ?w, [])"
    by simp
  then show ?thesis by blast
qed

text \<open>C26: The synchronisation credits whatever reward the record claims: a signed block that is valid in every
  other respect is accepted with any reward as long as its header commits to the balances with that reward,
  and the mined total grows by it, beyond the emission schedule and the hard cap.\<close>

theorem sync_credits_claimed_reward:
  assumes "hex_ok P" "claim_extends P cu (nd_ledger nd) reward w"
    and "header_wf (sc_header (pc_claim w))" "h_version (sc_header (pc_claim w)) = 1"
    and "h_timestamp (sc_header (pc_claim w)) \<le> sat_add now MAX_FUTURE_MS"
    and "r = mined_record P (cu_height cu + 1) w reward result local tip work"
  shows "sync_check P now cu (nd_ledger nd) r = Inr (pc_claim w, pc_transactions w)
    \<and> lg_total_mined (nd_ledger (snd (sync_apply P J io r (pc_claim w) (pc_transactions w) (cu, nd))))
      = sat_add (lg_total_mined (nd_ledger nd)) reward"
  using sync_check_mined [OF assms(1-4) _ assms(5), of cu] by (simp add: assms(6) ledger_apply_total same_consensus_def)

theorem sync_credits_claimed_reward_witness:
  "\<exists>r. sync_check sample_prims 1000050 sample_tip sample_ledger r = Inr (pc_claim (sample_winner 1 5000000000), [])
    \<and> lg_total_mined (nd_ledger (snd (sync_apply sample_prims sample_serde True r (pc_claim (sample_winner 1 5000000000)) []
        (sample_tip, sample_node)))) = 5000000100
    \<and> unat (5000000100 :: u64) > unat HARD_CAP"
proof -
  have "claim_extends sample_prims sample_tip (nd_ledger sample_node) 5000000000 (sample_winner 1 5000000000)"
    using sample_extends by (simp add: sample_node_def)
  moreover have "h_timestamp (sc_header (pc_claim (sample_winner 1 5000000000))) \<le> sat_add 1000050 MAX_FUTURE_MS"
    by (simp add: MAX_FUTURE_MS_def sat_add_def)
  ultimately obtain r where "sync_check sample_prims 1000050 sample_tip (nd_ledger sample_node) r
      = Inr (pc_claim (sample_winner 1 5000000000), pc_transactions (sample_winner 1 5000000000))"
    and t: "lg_total_mined (nd_ledger (snd (sync_apply sample_prims sample_serde True r (pc_claim (sample_winner 1 5000000000))
        (pc_transactions (sample_winner 1 5000000000)) (sample_tip, sample_node))))
      = sat_add (lg_total_mined (nd_ledger sample_node)) 5000000000"
    using sync_credits_claimed_reward [OF sample_hex_ok _ _ _ _ refl, where now = 1000050 and J = sample_serde and io = True
        and cu = sample_tip and nd = sample_node and reward = 5000000000 and w = "sample_winner 1 5000000000"]
    by (metis sample_block_sel(1) sample_block_wf sample_winner_sel(1))
  moreover have "sat_add (lg_total_mined (nd_ledger sample_node)) 5000000000 = 5000000100"
    by (simp add: sample_node_def sample_ledger_def sat_add_def)
  moreover have "unat HARD_CAP < unat (5000000100 :: u64)" "nd_ledger sample_node = sample_ledger"
    by (simp_all add: HARD_CAP_def sample_node_def)
  ultimately show ?thesis by (metis sample_winner_sel(2))
qed

text \<open>A claim whose header has another version than 1 passes every check of the live network, which never
  looks at the version, but the record of its block, from which peers rebuild the header with version 1, is
  refused by every peer that catches up, unless the rebuilt header is a hash collision.\<close>

theorem unversioned_block_unsyncable:
  assumes "hex_ok P" "header_wf (sc_header (pc_claim w))" "h_version (sc_header (pc_claim w)) \<noteq> 1"
    and "length (cu_tip_hash peer_cu) = 32"
    and "sync_check P now peer_cu l (mined_record P height w reward result lh tip work) = Inr (claim, applied)"
  shows "header_wf (sc_header claim) \<and> sc_header claim \<noteq> sc_header (pc_claim w)
    \<and> header_preimage (sc_header claim) \<noteq> header_preimage (sc_header (pc_claim w))
    \<and> header_hash P (sc_header claim) = header_hash P (sc_header (pc_claim w))"
proof -
  let ?r = "mined_record P height w reward result lh tip work"
  obtain header where h: "sync_check_header P now peer_cu ?r = Inr header" "record_claim P ?r header = Inr claim"
    "sync_check_body P l ?r claim = Inr applied"
    using assms(5) by (auto simp: sync_check_def res_bind_Inr_iff)
  then have f: "header_from_record P ?r (cu_tip_hash peer_cu) = Inr header"
    by (auto simp: sync_check_header_def res_bind_Inr_iff split: if_splits)
  have c: "sc_header claim = header"
    using h(2) by (auto simp: record_claim_def split: option.splits)
  have wf: "header_wf header" "h_version header = 1"
    using header_from_record_wf [OF assms(1) f assms(4)] header_from_record_fields(1) [OF f] by simp_all
  have "claim_block_hash_hex P claim = claim_block_hash_hex P (pc_claim w)"
    using h(3) by (auto simp: sync_check_body_def res_bind_Inr_iff split: if_splits)
  then have "header_hash P header = header_hash P (sc_header (pc_claim w))"
    using assms(1) by (simp add: claim_block_hash_hex_def claim_block_hash_def hex_encode_inj c)
  moreover have "header \<noteq> sc_header (pc_claim w)"
    using wf(2) assms(3) by auto
  moreover from this have "header_preimage header \<noteq> header_preimage (sc_header (pc_claim w))"
    using header_preimage_fields [OF wf(1) assms(2)] by blast
  ultimately show ?thesis
    using wf(1) by (simp add: c)
qed

text \<open>The sample hash sees the end of its input only, so that there the collision exists.\<close>

lemma sample_hash_suffix: "length a = length b \<Longrightarrow> 30 \<le> length c \<Longrightarrow> sample_hash (a @ c) = sample_hash (b @ c)"
  by (simp add: sample_hash_def)

lemma sample_version_hash:
  assumes "header_wf h"
  shows "header_hash sample_prims (h\<lparr>h_version := v\<rparr>) = header_hash sample_prims h"
proof -
  have "header_preimage (h\<lparr>h_version := x\<rparr>) = (DOMAIN_TAG @ le_bytes 4 x) @ drop (length DOMAIN_TAG + 4) (header_preimage h)" for x
    by (simp add: header_preimage_def)
  moreover have "30 \<le> length (drop (length DOMAIN_TAG + 4) (header_preimage h))"
    using length_header_preimage [OF assms] by (simp add: DOMAIN_TAG_def)
  ultimately have "sample_hash (header_preimage (h\<lparr>h_version := v\<rparr>)) = sample_hash (header_preimage (h\<lparr>h_version := h_version h\<rparr>))"
    by (simp only: ) (rule sample_hash_suffix, simp_all)
  then show ?thesis by (simp add: header_hash_def)
qed

lemma sample_winner_record:
  "mined_record sample_prims 2 (sample_winner 2 reward) reward result lh tip work
    = mined_record sample_prims 2 (sample_winner 1 reward) reward result lh tip work"
proof -
  let ?a = "keypair_address sample_prims sample_miner"
  have b: "sample_block 2 reward = (sample_block 1 reward)\<lparr>h_version := 2\<rparr>"
    by (simp add: sample_block_def)
  have hash: "header_hash sample_prims (sample_block 2 reward) = header_hash sample_prims (sample_block 1 reward)"
    unfolding b by (rule sample_version_hash [OF sample_block_wf])
  have "(sample_block v reward)\<lparr>h_miner_address := ?a\<rparr> = sample_block v reward" for v
    using sample_winner_sel(1) [of v reward] unfolding sample_winner_def by simp
  then have c: "pc_claim (sample_winner v reward) = claim_sign sample_prims 0 (sample_block v reward) sample_miner" for v
    by (simp add: sample_winner_def mined_by_sample_def)
  have m: "claim_message sample_prims (sample_block 2 reward) = claim_message sample_prims (sample_block 1 reward)"
    by (simp add: claim_message_def hash)
  have "sc_public_key (pc_claim (sample_winner 2 reward)) = sc_public_key (pc_claim (sample_winner 1 reward))"
    "sc_signature (pc_claim (sample_winner 2 reward)) = sc_signature (pc_claim (sample_winner 1 reward))"
    by (simp_all add: c claim_sign_def Let_def m)
  then show ?thesis
    by (simp add: mined_record_def Let_def claim_block_hash_def claim_miner_address_hex_def claim_digest_hex_def
        claim_election_score_hex_def claim_election_score_def election_score_def claim_randomness_def hash m)
      (simp add: b)
qed

text \<open>A live node admits a claim of version 2.\<close>

lemma sample_version_2_admitted:
  "accept_check sample_prims 1000050 sample_state sample_ledger (mined_by_sample (sample_block 2 (block_reward 2 100))) None [] = Inr ()"
proof -
  let ?c = "pc_claim (sample_winner 2 (block_reward 2 100))"
  have e: "claim_extends sample_prims sample_tip sample_ledger (block_reward 2 100) (sample_winner 2 (block_reward 2 100))"
    by (rule sample_extends)
  then have "accept_structure sample_prims 1000050 sample_state ?c None = Inr (block_reward 2 100)"
    by (simp add: accept_structure_ok accept_checkpoint_ok Let_def claim_extends_def sample_state_def sample_tip_def
        initial_state_def timestamp_is_valid_iff MAX_FUTURE_MS_def zeros_def)
  moreover have "accept_payload sample_prims ?c [] = Inr ()"
    using e unfolding accept_payload_ok by (simp add: claim_extends_def Let_def)
  moreover have "accept_execution sample_prims sample_ledger ?c [] (block_reward 2 100) = Inr ()"
    using e unfolding accept_execution_ok by (simp add: claim_extends_def Let_def)
  ultimately have "accept_check sample_prims 1000050 sample_state sample_ledger ?c None [] = Inr ()"
    by (simp add: accept_check_def)
  then show ?thesis by (simp add: sample_winner_def)
qed

text \<open>C27: A synchronising node believes the nullifier of a record: a peer that serves a valid block with the
  nullifier of a block it withholds is accepted, and when the withheld block is elected later the mining loop
  panics after writing it to the ledger, the store and the resume file.\<close>

theorem forged_nullifier_halts_miner:
  assumes "hex_ok P" "sync_check P now cu (nd_ledger nd) r = Inr (claim, applied)"
    and "n = ro_nullifier (claim_randomness P (cd_height cd) (pc_claim w))" "length n = 32"
    and "forged = r\<lparr>br_nullifier := hex_encode P n\<rparr>"
    and "set (ns_nullifiers (nd_state (snd (sync_apply P J io forged claim applied (cu, nd)))))
      \<subseteq> set (ns_nullifiers (nd_state later))"
  shows "sync_check P now cu (nd_ledger nd) forged = Inr (claim, applied)
    \<and> fst (commit P J K lio fio secs cd result lh w (cu', later, rf)) = Inl PanicNullifier"
proof
  have "forged = r\<lparr>br_randomness_output := br_randomness_output r, br_nullifier := hex_encode P n\<rparr>"
    by (simp add: assms(5))
  then have "sync_check P now cu (nd_ledger nd) forged = sync_check P now cu (nd_ledger nd) r"
    by (simp only: sync_check_randomness)
  then show "sync_check P now cu (nd_ledger nd) forged = Inr (claim, applied)"
    using assms(2) by simp
  have "n \<in> set (ns_nullifiers (nd_state (snd (sync_apply P J io forged claim applied (cu, nd)))))"
    using assms(1,4,5) by (simp add: sync_apply_def sync_state_def mark_record_nullifier_def Let_def)
  with assms(6) have "ro_nullifier (claim_randomness P (cd_height cd) (pc_claim w)) \<in> set (ns_nullifiers (nd_state later))"
    using assms(3) by blast
  then show "fst (commit P J K lio fio secs cd result lh w (cu', later, rf)) = Inl PanicNullifier"
    by (simp add: commit_result)
qed

lemma sample_record_accepted:
  "sync_check sample_prims 1000050 sample_tip sample_ledger (mined_record sample_prims 2 (sample_winner 1 reward) reward result lh tip work)
    = Inr (pc_claim (sample_winner 1 reward), [])"
proof -
  have "h_timestamp (sc_header (pc_claim (sample_winner 1 reward))) \<le> sat_add 1000050 MAX_FUTURE_MS"
    by (simp add: MAX_FUTURE_MS_def sat_add_def)
  from sync_check_mined [OF sample_hex_ok sample_extends _ _ _ this, of sample_tip] show ?thesis
    by (simp add: sample_block_wf same_consensus_def)
qed

theorem unversioned_block_unsyncable_witness:
  "header_hash sample_prims (sample_block 1 50) = header_hash sample_prims (sample_block 2 50)
   \<and> header_preimage (sample_block 1 50) \<noteq> header_preimage (sample_block 2 50)
   \<and> accept_check sample_prims 1000050 sample_state sample_ledger (mined_by_sample (sample_block 2 (block_reward 2 100))) None [] = Inr ()"
proof -
  let ?r = "mined_record sample_prims 2 (sample_winner 2 50) 50 sample_result [] 0 0"
  have s: "sync_check sample_prims 1000050 sample_tip sample_ledger ?r = Inr (pc_claim (sample_winner 1 50), [])"
    unfolding sample_winner_record by (rule sample_record_accepted)
  have "length (cu_tip_hash sample_tip) = 32" "header_wf (sc_header (pc_claim (sample_winner 2 50)))"
    "h_version (sc_header (pc_claim (sample_winner 2 50))) \<noteq> 1"
    by (simp_all add: sample_tip_def sample_block_wf)
  from unversioned_block_unsyncable [OF sample_hex_ok this(2,3,1) s] sample_version_2_admitted show ?thesis
    by simp
qed

theorem forged_nullifier_halts_miner_witness:
  "\<exists>r rf. sync_check sample_prims 1000050 sample_tip sample_ledger r = Inr (pc_claim (sample_winner 1 50), [])
    \<and> fst (commit sample_prims sample_serde sample_codec True True 9 (sample_candidate_block\<lparr>cd_height := 3\<rparr>) sample_result []
        (sample_winner 1 60) (sample_tip, snd (sync_apply sample_prims sample_serde True r (pc_claim (sample_winner 1 50)) []
          (sample_tip, sample_node)), rf)) = Inl PanicNullifier"
proof -
  let ?r = "mined_record sample_prims 2 (sample_winner 1 50) 50 sample_result [] 0 0"
  let ?n = "ro_nullifier (claim_randomness sample_prims (cd_height (sample_candidate_block\<lparr>cd_height := 3\<rparr>)) (pc_claim (sample_winner 1 60)))"
  have "nd_ledger sample_node = sample_ledger" by (simp add: sample_node_def)
  moreover have "length ?n = 32"
    by (simp add: claim_randomness_def randomness_from_block_def Let_def)
  ultimately show ?thesis
    using forged_nullifier_halts_miner [OF sample_hex_ok, of 1000050 sample_tip sample_node ?r "pc_claim (sample_winner 1 50)" "[]"
        ?n "sample_candidate_block\<lparr>cd_height := 3\<rparr>" "sample_winner 1 60" _ sample_serde True, OF _ refl _ refl subset_refl]
      sample_record_accepted by metis
qed

end
