(* ===== verification/Reorg.thy ===== *)
theory Reorg
  imports Mined_Sync Ledger_Csv
begin

text \<open>
  Switching to a heavier branch (\<^verbatim>\<open>reconcile_fork\<close>, \<^verbatim>\<open>node/src/main.rs\<close>): the search for the
  common ancestor, the rollback of the block store, the ledger and the consensus variables to it, and the
  return of the transactions of the abandoned blocks to the pool. The peer is a function from the
  requested range to its records, as in \<open>Chain_Sync\<close>. The ledger file is the text kept in the
  ledger. A step of the code that gives up without changing anything is \<open>None\<close>.
\<close>

section \<open>Definitions\<close>

definition MAX_AUTO_REORG_DEPTH :: u64 where "MAX_AUTO_REORG_DEPTH = EPOCH_SIZE - 1"

definition requeue_tx :: "prims \<Rightarrow> serde \<Rightarrow> signed_transaction
    \<Rightarrow> (bytes, signed_transaction) hmap \<times> block_store \<Rightarrow> (bytes, signed_transaction) hmap \<times> block_store" where
  "requeue_tx P J t = (\<lambda>(pool, store). (hm_insert (stx_tx_id P t) t pool, mempool_insert P J t store))"

definition requeue_block :: "prims \<Rightarrow> serde \<Rightarrow> block_record
    \<Rightarrow> (bytes, signed_transaction) hmap \<times> block_store \<Rightarrow> (bytes, signed_transaction) hmap \<times> block_store" where
  "requeue_block P J block = fold (requeue_tx P J) (br_transactions block)"

definition requeue_rolled_back_transactions :: "prims \<Rightarrow> serde \<Rightarrow> block_record list
    \<Rightarrow> (bytes, signed_transaction) hmap \<times> block_store \<Rightarrow> (bytes, signed_transaction) hmap \<times> block_store" where
  "requeue_rolled_back_transactions P J dropped = fold (requeue_block P J) dropped"

definition local_hash_at :: "prims \<Rightarrow> block_store \<Rightarrow> u64 \<Rightarrow> bytes option" where
  "local_hash_at P store h = Option.bind (block_hash_at store h) (hex_to_32 P)"

definition peer_hash_at :: "prims \<Rightarrow> (u64 \<Rightarrow> u64 \<Rightarrow> block_record list option) \<Rightarrow> u64 \<Rightarrow> bytes option" where
  "peer_hash_at P fetch h =
     Option.bind (fetch h h) (\<lambda>records.
       Option.bind (find (\<lambda>r. br_height r = h) records) (\<lambda>r. hex_to_32 P (br_block_hash r)))"

text \<open>The search goes back from the tip while it is above the floor.\<close>

function probe_fork :: "prims \<Rightarrow> block_store \<Rightarrow> (u64 \<Rightarrow> u64 \<Rightarrow> block_record list option) \<Rightarrow> u64 \<Rightarrow> u64 \<Rightarrow> u64 option" where
  "probe_fork P store fetch probe_floor fork_point =
     (if fork_point > probe_floor
      then (case peer_hash_at P fetch fork_point of
              None \<Rightarrow> None
            | Some peer_hash \<Rightarrow>
                (case local_hash_at P store fork_point of
                   None \<Rightarrow> None
                 | Some local_hash \<Rightarrow>
                     if local_hash = peer_hash then Some fork_point
                     else if fork_point = 0 then None
                     else probe_fork P store fetch probe_floor (fork_point - 1)))
      else Some fork_point)"
  by pat_completeness auto
termination
proof (relation "measure (\<lambda>(P, store, fetch, probe_floor, fork_point). unat fork_point)")
  fix P :: prims and store :: block_store and fetch :: "u64 \<Rightarrow> u64 \<Rightarrow> block_record list option"
    and probe_floor fork_point :: u64 and peer_hash local_hash :: bytes
  assume "fork_point \<noteq> 0"
  then have "unat (fork_point - 1) < unat fork_point"
    by (metis measure_unat)
  then show "((P, store, fetch, probe_floor, fork_point - 1), P, store, fetch, probe_floor, fork_point)
      \<in> measure (\<lambda>(P, store, fetch, probe_floor, fork_point). unat fork_point)" by simp
qed simp

declare probe_fork.simps [simp del]

definition rolled_back_blocks :: "serde \<Rightarrow> block_store \<Rightarrow> u64 \<Rightarrow> u64 \<Rightarrow> block_record list" where
  "rolled_back_blocks J store fork_point height =
     (case get_range J store (fork_point + 1) height (height - fork_point + 1) of
        Inl _ \<Rightarrow> [] | Inr records \<Rightarrow> records)"

definition work_of_blocks :: "block_record list \<Rightarrow> u128" where
  "work_of_blocks blocks = fold (\<lambda>b acc. sat_add acc (block_work (br_difficulty_bits b))) blocks 0"

definition fork_tip :: "prims \<Rightarrow> serde \<Rightarrow> cursor \<Rightarrow> node \<Rightarrow> u64 \<Rightarrow> (bytes \<times> u64) option" where
  "fork_tip P J cu nd fork_point =
     (if fork_point = 0
      then Some (ns_genesis_hash (nd_state nd), da_epoch_start_ms (cu_adjuster cu))
      else (case store_get J (nd_store nd) fork_point of
              Inr (Some b) \<Rightarrow> map_option (\<lambda>hash. (hash, br_timestamp b)) (hex_to_32 P (br_block_hash b))
            | _ \<Rightarrow> None))"

definition fork_seed :: "prims \<Rightarrow> serde \<Rightarrow> cursor \<Rightarrow> node \<Rightarrow> u64 \<Rightarrow> (bytes \<times> u64) option" where
  "fork_seed P J cu nd fork_point =
     (let governing = governing_checkpoint_height fork_point in
      if governing = 0 then Some (cu_btc_seed cu, cu_ckpt_tip cu)
      else (case store_get J (nd_store nd) governing of
              Inr (Some b) \<Rightarrow> map_option (\<lambda>seed. (seed, br_btc_height b)) (hex_to_32 P (br_btc_seed b))
            | _ \<Rightarrow> None))"

definition roll_back_state :: "cursor \<Rightarrow> u64 \<Rightarrow> (bytes, signed_transaction) hmap \<Rightarrow> node_state \<Rightarrow> node_state" where
  "roll_back_state cu total_mined pool s =
     s\<lparr>ns_pending_claims := retain_above (cu_height cu) (ns_pending_claims s), ns_chain_height := cu_height cu,
       ns_tip_hash := cu_tip_hash cu, ns_last_block_timestamp_ms := cu_last_ts cu, ns_btc_seed_hash := cu_btc_seed cu,
       ns_btc_checkpoint_tip_height := cu_ckpt_tip cu, ns_chain_work := cu_work cu,
       ns_total_mined_bina := total_mined, ns_mempool := pool\<rparr>"

text \<open>The rollback; \<open>file\<close> is the ledger file if it can be read.\<close>

definition roll_back :: "prims \<Rightarrow> serde \<Rightarrow> bool \<Rightarrow> string list option \<Rightarrow> u64 \<Rightarrow> cursor \<times> node \<Rightarrow> (cursor \<times> node) option" where
  "roll_back P J io_ok ledger_file fork_point = (\<lambda>(cu, nd).
     let dropped = rolled_back_blocks J (nd_store nd) fork_point (cu_height cu);
         work_removed = work_of_blocks dropped in
     case fork_tip P J cu nd fork_point of
       None \<Rightarrow> None
     | Some (new_tip, new_ts) \<Rightarrow>
         (case fork_seed P J cu nd fork_point of
            None \<Rightarrow> None
          | Some (new_seed, new_seed_tip) \<Rightarrow>
              (case ledger_open_scoped io_ok ledger_file fork_point of
                 Inl e \<Rightarrow> None
               | Inr reopened \<Rightarrow>
                   let cu' = cu\<lparr>cu_work := sat_sub (cu_work cu) work_removed, cu_height := fork_point,
                                cu_tip_hash := new_tip, cu_last_ts := new_ts, cu_btc_seed := new_seed,
                                cu_ckpt_tip := new_seed_tip\<rparr>;
                       (pool, store) = requeue_rolled_back_transactions P J dropped
                         (ns_mempool (nd_state nd), rollback_above fork_point (nd_store nd)) in
                   Some (cu', \<lparr>nd_state = roll_back_state cu' (lg_total_mined reopened) pool (nd_state nd),
                               nd_ledger = reopened, nd_store = store\<rparr>))))"

text \<open>The decision, with the peer chosen by its reported work; the result counts the adopted blocks.\<close>

definition reconcile_with :: "prims \<Rightarrow> serde \<Rightarrow> (u64 \<Rightarrow> u64) \<Rightarrow> (u64 \<Rightarrow> bool) \<Rightarrow> bool \<Rightarrow> string list option
    \<Rightarrow> (u64 \<Rightarrow> u64 \<Rightarrow> block_record list option) \<Rightarrow> u64 \<Rightarrow> cursor \<times> node \<Rightarrow> (u64 \<times> cursor \<times> node) option" where
  "reconcile_with P J now_ms io io_ok ledger_file fetch peer_height st =
     (let cu = fst st; probe_floor = sat_sub (cu_height cu) MAX_AUTO_REORG_DEPTH in
      if peer_height < cu_height cu then Some (0, st)
      else (case probe_fork P (nd_store (snd st)) fetch probe_floor (cu_height cu) of
          None \<Rightarrow> Some (0, st)
        | Some fork_point \<Rightarrow>
            if fork_point = cu_height cu then sync_forward P J now_ms io fetch peer_height st
            else if fork_point \<le> probe_floor then Some (0, st)
            else if fork_point < da_epoch_start_height (cu_adjuster cu) then Some (0, st)
            else (case roll_back P J io_ok ledger_file fork_point st of
                    None \<Rightarrow> Some (0, st)
                  | Some st' \<Rightarrow> sync_forward P J now_ms io fetch peer_height st')))"

definition reconcile_fork :: "prims \<Rightarrow> serde \<Rightarrow> (u64 \<Rightarrow> u64) \<Rightarrow> (u64 \<Rightarrow> bool) \<Rightarrow> bool \<Rightarrow> string list option
    \<Rightarrow> ('a \<Rightarrow> 'a peer_status option) \<Rightarrow> ('a \<Rightarrow> u64 \<Rightarrow> u64 \<Rightarrow> block_record list option) \<Rightarrow> 'a list
    \<Rightarrow> cursor \<times> node \<Rightarrow> (u64 \<times> cursor \<times> node) option" where
  "reconcile_fork P J now_ms io io_ok ledger_file fetch_status fetch peers st =
     (case best_peer_by_work fetch_status peers (ns_genesis_hash (nd_state (snd st))) (cu_work (fst st)) of
        None \<Rightarrow> Some (0, st)
      | Some best \<Rightarrow>
          reconcile_with P J now_ms io io_ok ledger_file (fetch (ps_addr best)) (ps_height best) st)"

section \<open>One record\<close>

lemma sync_check_facts:
  assumes "sync_check P now cu l r = Inr (claim, applied)"
  shows "br_height r = cu_height cu + 1" "h_difficulty_bits (sc_header claim) = br_difficulty_bits r"
    "h_timestamp (sc_header claim) = br_timestamp r" "h_height (sc_header claim) = br_height r"
    "hex_to_32 P (br_btc_seed r) = Some (h_bitcoin_seed_hash (sc_header claim))"
    "br_block_hash r = hex_encode P (claim_block_hash P claim)" "applied = br_transactions r"
proof -
  obtain header where h: "sync_check_header P now cu r = Inr header" "record_claim P r header = Inr claim"
    "sync_check_body P l r claim = Inr applied"
    using assms by (auto simp: sync_check_def res_bind_Inr_iff)
  then have f: "header_from_record P r (cu_tip_hash cu) = Inr header" and "br_height r = cu_height cu + 1"
    by (auto simp: sync_check_header_def res_bind_Inr_iff split: if_splits)
  then show "br_height r = cu_height cu + 1" by simp
  have c: "sc_header claim = header"
    using h(2) by (auto simp: record_claim_def split: option.splits)
  show "h_difficulty_bits (sc_header claim) = br_difficulty_bits r" "h_timestamp (sc_header claim) = br_timestamp r"
    "h_height (sc_header claim) = br_height r"
    using header_from_record_fields [OF f] by (simp_all add: c)
  show "hex_to_32 P (br_btc_seed r) = Some (h_bitcoin_seed_hash (sc_header claim))"
    using f by (auto simp: c header_from_record_def header_hash32_def res_bind_Inr_iff split: option.splits)
  show "br_block_hash r = hex_encode P (claim_block_hash P claim)" "applied = br_transactions r"
    using h(3) simulate_all [of P l "br_transactions r" "br_miner_address r" "br_reward_bina r"]
    by (auto simp: sync_check_body_def res_bind_Inr_iff claim_block_hash_hex_def case_prod_unfold Let_def split: if_splits)
qed

text \<open>Only the tables of blocks matter to a lookup.\<close>

lemma store_view_cong:
  assumes "bs_blocks s = bs_blocks s'" "bs_txs s = bs_txs s'"
  shows "store_lookup J s = store_lookup J s'" "store_inv J s = store_inv J s'" "hash_fresh r s = hash_fresh r s'"
    "get_range J s a b n = get_range J s' a b n" "store_get J s h = store_get J s' h"
proof -
  have t: "get_transactions J s h = get_transactions J s' h" for h
    by (simp add: get_transactions_def assms(2))
  then have w: "with_transactions J s x = with_transactions J s' x" for x
    by (simp add: with_transactions_def)
  then have "read_rows J s rows = read_rows J s' rows" for rows
    by (induction rows) simp_all
  then show "get_range J s a b n = get_range J s' a b n"
    by (simp add: get_range_def assms(1))
  show "store_inv J s = store_inv J s'" "hash_fresh r s = hash_fresh r s'"
    by (simp_all add: store_inv_def hash_fresh_def assms(1) t)
  have g: "store_get J s h = store_get J s' h" for h
    using w by (simp add: store_get_def assms(1) t cong: option.case_cong)
  then show "store_get J s h = store_get J s' h" .
  from g show "store_lookup J s = store_lookup J s'"
    by (simp add: store_lookup_def fun_eq_iff)
qed

lemma mempool_tables [simp]:
  "bs_blocks (mempool_remove P k s) = bs_blocks s" "bs_txs (mempool_remove P k s) = bs_txs s"
  "bs_blocks (mempool_insert P J t s) = bs_blocks s" "bs_txs (mempool_insert P J t s) = bs_txs s"
  by (simp_all add: mempool_remove_def mempool_del_def mempool_insert_def mempool_put_def)

lemma fold_mempool_tables [simp]:
  "bs_blocks (fold (\<lambda>t. mempool_remove P (f t)) ts s) = bs_blocks s"
  "bs_txs (fold (\<lambda>t. mempool_remove P (f t)) ts s) = bs_txs s"
  by (induction ts arbitrary: s) simp_all

lemma sync_apply_tables:
  "bs_blocks (nd_store (snd (sync_apply P J io r claim applied st))) = bs_blocks (insert_block J r (nd_store (snd st)))"
  "bs_txs (nd_store (snd (sync_apply P J io r claim applied st))) = bs_txs (insert_block J r (nd_store (snd st)))"
  by (simp_all add: sync_apply_def Let_def case_prod_unfold)

lemmas sync_apply_view = store_view_cong [OF sync_apply_tables]

lemma sync_page_ConsE:
  assumes "sync_page P J now io (r # rs) st = (False, n, st')"
  obtains claim applied m where
    "sync_check P (now (br_height r)) (fst st) (nd_ledger (snd st)) r = Inr (claim, applied)"
    "sync_page P J now io rs (sync_apply P J (io (br_height r)) r claim applied st) = (False, m, st')"
  using assms by (auto simp: Let_def case_prod_unfold prod_eq_iff split: sum.splits)

text \<open>Records to be applied: none of their block hashes is in the store or occurs twice.\<close>

definition fresh_branch :: "block_record list \<Rightarrow> block_store \<Rightarrow> bool" where
  "fresh_branch rs s \<longleftrightarrow> (\<forall>r \<in> set rs. hash_fresh r s) \<and> distinct (map br_block_hash rs)"

lemma fresh_branch_step:
  "fresh_branch (r # rs) s \<Longrightarrow> hash_fresh r s \<and> fresh_branch rs (insert_block J r s)"
  by (auto simp: fresh_branch_def intro!: hash_fresh_insert)

lemma sync_page_heights:
  assumes "sync_page P J now io rs st = (False, n, st')" "unat (cu_height (fst st)) + length rs < 2 ^ 63" "i < length rs"
  shows "unat (br_height (rs ! i)) = unat (cu_height (fst st)) + 1 + i"
  using assms
proof (induction rs arbitrary: st n i)
  case (Cons r rs)
  from Cons.prems(1) obtain claim applied m where
    c: "sync_check P (now (br_height r)) (fst st) (nd_ledger (snd st)) r = Inr (claim, applied)"
    and rest: "sync_page P J now io rs (sync_apply P J (io (br_height r)) r claim applied st) = (False, m, st')"
    by (rule sync_page_ConsE)
  have h: "unat (br_height r) = unat (cu_height (fst st)) + 1"
    using Cons.prems(2) unfolding sync_check_facts(1) [OF c] by (subst unat_add_fits) simp_all
  then show ?case
    using Cons.IH [OF rest, of "i - 1"] Cons.prems(2,3) by (cases i) auto
qed simp

lemma sync_page_store:
  assumes "sync_page P J now io rs st = (False, n, st')" "unat (cu_height (fst st)) + length rs < 2 ^ 63"
    and "store_inv J (nd_store (snd st))" "fresh_branch rs (nd_store (snd st))"
  shows "store_inv J (nd_store (snd st')) \<and>
    (\<forall>h. h \<notin> br_height ` set rs \<longrightarrow> store_lookup J (nd_store (snd st')) h = store_lookup J (nd_store (snd st)) h) \<and>
    (\<forall>r \<in> set rs. store_lookup J (nd_store (snd st')) (br_height r) = Some (as_stored r))"
  using assms
proof (induction rs arbitrary: st n)
  case (Cons r rs)
  from Cons.prems(1) obtain claim applied m where
    c: "sync_check P (now (br_height r)) (fst st) (nd_ledger (snd st)) r = Inr (claim, applied)"
    and rest: "sync_page P J now io rs (sync_apply P J (io (br_height r)) r claim applied st) = (False, m, st')"
    by (rule sync_page_ConsE)
  let ?st = "sync_apply P J (io (br_height r)) r claim applied st"
  have h: "unat (br_height r) = unat (cu_height (fst st)) + 1"
    using Cons.prems(2) unfolding sync_check_facts(1) [OF c] by (subst unat_add_fits) simp_all
  have small: "small_height (br_height r)"
    using h Cons.prems(2) by (simp add: small_height_def)
  note f = fresh_branch_step [OF Cons.prems(4)]
  have inv: "store_inv J (nd_store (snd ?st))" "fresh_branch rs (nd_store (snd ?st))"
    using store_inv_insert [OF Cons.prems(3) small] f [of J] sync_apply_view(2,3)
    by (simp_all add: fresh_branch_def)
  have len: "unat (cu_height (fst ?st)) + length rs < 2 ^ 63"
    using Cons.prems(2) h by simp
  note IH = Cons.IH [OF rest len inv]
  have later: "br_height r \<notin> br_height ` set rs"
  proof
    assume "br_height r \<in> br_height ` set rs"
    then obtain i where "i < length rs" "br_height (rs ! i) = br_height r"
      by (auto simp: in_set_conv_nth)
    with sync_page_heights [OF rest len] show False by fastforce
  qed
  have one: "store_lookup J (nd_store (snd ?st)) x = (if x = br_height r then Some (as_stored r) else store_lookup J (nd_store (snd st)) x)" for x
    using store_lookup_insert [OF Cons.prems(3) conjunct1 [OF f [of J]]] sync_apply_view(1) by metis
  show ?case
    using IH later one by auto
qed simp

section \<open>A branch\<close>

lemma unat_next_u64: "unat (h :: u64) < 2 ^ 63 \<Longrightarrow> unat (h + 1) = unat h + 1"
  by (subst unat_add_fits) simp_all

definition branch_work :: "block_record list \<Rightarrow> nat" where
  "branch_work rs = sum_list (map (\<lambda>r. unat (block_work (br_difficulty_bits r))) rs)"

lemma sync_page_work:
  assumes "sync_page P J now io rs st = (False, n, st')" "unat (cu_work (fst st)) + branch_work rs < 2 ^ 128"
  shows "unat (cu_work (fst st')) = unat (cu_work (fst st)) + branch_work rs"
  using assms
proof (induction rs arbitrary: st n)
  case (Cons r rs)
  from Cons.prems(1) obtain claim applied m where
    c: "sync_check P (now (br_height r)) (fst st) (nd_ledger (snd st)) r = Inr (claim, applied)"
    and rest: "sync_page P J now io rs (sync_apply P J (io (br_height r)) r claim applied st) = (False, m, st')"
    by (rule sync_page_ConsE)
  have "cu_work (fst (sync_apply P J (io (br_height r)) r claim applied st)) = sat_add (cu_work (fst st)) (block_work (br_difficulty_bits r))"
    by (simp add: advance_cursor_def Let_def sync_check_facts(2) [OF c])
  then have "unat (cu_work (fst (sync_apply P J (io (br_height r)) r claim applied st)))
      = unat (cu_work (fst st)) + unat (block_work (br_difficulty_bits r))"
    using Cons.prems(2) by (simp add: unat_sat_add branch_work_def)
  then show ?case
    using Cons.IH [OF rest] Cons.prems(2) by (simp add: branch_work_def)
qed (simp add: branch_work_def)

lemma work_of_blocks_sum:
  assumes "branch_work rs < 2 ^ 128"
  shows "unat (work_of_blocks rs) = branch_work rs"
proof -
  have "unat (fold (\<lambda>b acc. sat_add acc (block_work (br_difficulty_bits b))) rs a) = unat a + branch_work rs"
    if "unat a + branch_work rs < 2 ^ 128" for a
    using that
  proof (induction rs arbitrary: a)
    case (Cons r rs)
    then have "unat (sat_add a (block_work (br_difficulty_bits r))) = unat a + unat (block_work (br_difficulty_bits r))"
      by (simp add: unat_sat_add branch_work_def)
    then show ?case
      using Cons.IH [of "sat_add a (block_work (br_difficulty_bits r))"] Cons.prems by (simp add: branch_work_def)
  qed (simp add: branch_work_def)
  from this [of 0] assms show ?thesis by (simp add: work_of_blocks_def)
qed

text \<open>Within an epoch the adjuster stays as it is.\<close>

lemma record_block_epoch: "snd (record_block h ts a) = a \<or> da_epoch_start_height (snd (record_block h ts a)) = h"
  by (simp add: record_block_def Let_def)

lemma sync_page_adjuster:
  assumes "sync_page P J now io rs st = (False, n, st')" "unat (cu_height (fst st)) + length rs < 2 ^ 63"
  shows "cu_adjuster (fst st') = cu_adjuster (fst st) \<or> cu_height (fst st) < da_epoch_start_height (cu_adjuster (fst st'))"
  using assms
proof (induction rs arbitrary: st n)
  case (Cons r rs)
  from Cons.prems(1) obtain claim applied m where
    c: "sync_check P (now (br_height r)) (fst st) (nd_ledger (snd st)) r = Inr (claim, applied)"
    and rest: "sync_page P J now io rs (sync_apply P J (io (br_height r)) r claim applied st) = (False, m, st')"
    by (rule sync_page_ConsE)
  let ?st = "sync_apply P J (io (br_height r)) r claim applied st"
  have h: "unat (br_height r) = unat (cu_height (fst st)) + 1"
    using Cons.prems(2) unfolding sync_check_facts(1) [OF c] by (subst unat_add_fits) simp_all
  have "cu_adjuster (fst ?st) = snd (record_block (br_height r) (h_timestamp (sc_header claim)) (cu_adjuster (fst st)))"
    by (simp add: advance_cursor_def Let_def)
  then have "cu_adjuster (fst ?st) = cu_adjuster (fst st) \<or> da_epoch_start_height (cu_adjuster (fst ?st)) = br_height r"
    using record_block_epoch by metis
  moreover have "cu_adjuster (fst st') = cu_adjuster (fst ?st) \<or> br_height r < da_epoch_start_height (cu_adjuster (fst st'))"
    using Cons.IH [OF rest] Cons.prems(2) h by simp
  ultimately show ?case
    using h by (auto simp: word_less_nat_alt)
qed simp

section \<open>The ledger file\<close>

text \<open>A ledger file grows by rows of the height of the block that is applied.\<close>

definition grown :: "u64 \<Rightarrow> ledger \<Rightarrow> ledger \<Rightarrow> bool" where
  "grown h l l' \<longleftrightarrow> (\<exists>rows. csv_rows (lg_csv l') = csv_rows (lg_csv l) @ rows \<and> (\<forall>row \<in> set rows. csv_row_height row > h))
     \<and> lg_csv l' \<noteq> []"

lemma grown_refl: "lg_csv l \<noteq> [] \<Longrightarrow> grown h l l"
  by (simp add: grown_def)

lemma grown_trans: "grown h l l' \<Longrightarrow> grown h l' l'' \<Longrightarrow> grown h l l''"
  by (fastforce simp: grown_def)

lemma grown_line:
  assumes "lg_csv l \<noteq> []" "lg_csv l' = lg_csv l @ [line]" "read_csv_row line = Some row" "csv_row_height row > h"
  shows "grown h l l'"
  using assms by (simp add: grown_def csv_rows_append)

lemma grown_same: "lg_csv l \<noteq> [] \<Longrightarrow> lg_csv l' = lg_csv l \<Longrightarrow> grown h l l'"
  by (simp add: grown_def)

lemma grown_transaction:
  assumes "lg_csv l \<noteq> []" "hex_ok P" "csv_safe miner" "h < h'"
  shows "grown h l (snd (apply_transaction P True h' s miner ts l))"
proof (cases rule: apply_transaction_cases [of P s l True h' miner ts])
  case Ok
  have "lg_csv (snd (apply_transaction P True h' s miner ts l)) = lg_csv l @ [tx_line P h' s miner (lg_total_mined l) ts]"
    unfolding Ok(2) by (simp add: append_line_def)
  from grown_line [OF assms(1) this csv_row_tx_line [OF assms(3,2)]] assms(4) show ?thesis by simp
qed (simp add: grown_refl assms(1))

lemma grown_credit:
  assumes "lg_csv l \<noteq> []" "csv_safe miner" "h < h'"
  shows "grown h l (snd (ledger_credit True h' miner reward ts l))"
proof (cases "reward = 0")
  case False
  then have "lg_csv (snd (ledger_credit True h' miner reward ts l))
      = lg_csv l @ [reward_line h' miner reward (sat_add (lg_total_mined l) reward) ts]"
    by (simp add: ledger_credit_def append_line_def Let_def)
  from grown_line [OF assms(1) this csv_row_reward_line [OF assms(2)]] assms(3) show ?thesis by simp
qed (simp add: ledger_credit_def grown_refl assms(1))

lemma grown_block:
  assumes "lg_csv l \<noteq> []" "hex_ok P" "csv_safe miner" "h < h'"
  shows "grown h l (ledger_apply_block P True h' txs miner reward ts l)"
proof -
  have f: "grown h l (fold (\<lambda>s l. snd (apply_transaction P True h' s miner ts l)) txs l)"
    using assms(1)
  proof (induction txs arbitrary: l)
    case (Cons s txs)
    have g: "grown h l (snd (apply_transaction P True h' s miner ts l))"
      by (rule grown_transaction [OF Cons.prems assms(2-4)])
    then have "lg_csv (snd (apply_transaction P True h' s miner ts l)) \<noteq> []" by (simp add: grown_def)
    with Cons.IH g show ?case by (auto intro: grown_trans)
  qed (simp add: grown_refl)
  then have "lg_csv (fold (\<lambda>s l. snd (apply_transaction P True h' s miner ts l)) txs l) \<noteq> []" by (simp add: grown_def)
  from grown_trans [OF f grown_credit [OF this assms(3,4)]] show ?thesis
    unfolding ledger_apply_block_def .
qed

lemma scoped_state_later:
  "\<forall>row \<in> set rows. csv_row_height row > active \<Longrightarrow> scoped_state active (rs @ rows) = scoped_state active rs"
proof -
  assume later: "\<forall>row \<in> set rows. csv_row_height row > active"
  have "fold (collect_row active) rows acc = acc" for acc
    using later
  proof (induction rows arbitrary: acc)
    case (Cons row rows)
    have "collect_row active row acc = acc"
      using Cons.prems by (cases acc; cases row) auto
    with Cons show ?case by simp
  qed simp
  then show ?thesis by (simp add: scoped_state_def)
qed

lemma open_grown:
  assumes "persisted h h l" "grown h l l'"
  shows "ledger_open_scoped io (Some (lg_csv l')) h = Inr (l\<lparr>lg_csv := lg_csv l'\<rparr>)"
proof -
  obtain rows where rows: "csv_rows (lg_csv l') = csv_rows (lg_csv l) @ rows" "\<forall>row \<in> set rows. csv_row_height row > h"
    using assms(2) by (auto simp: grown_def)
  have "scoped_state h (csv_rows (lg_csv l')) = replay_of l"
    unfolding rows(1) scoped_state_later [OF rows(2)] by (rule persisted_scoped [OF assms(1) order_refl])
  then have "(let (rows, latest) = fold (collect_row h) (csv_rows (lg_csv l')) ([], []) in
      fold (replay_scoped latest) rows replay_init) = replay_of l"
    by (simp add: scoped_state_def)
  then show ?thesis
    by (simp add: ledger_open_scoped_def open_inner_def replay_of_def)
qed

lemma grown_mono: "grown h l l' \<Longrightarrow> k \<le> h \<Longrightarrow> grown k l l'"
  by (fastforce simp: grown_def)

lemma sync_page_grown:
  assumes "sync_page P J now (\<lambda>_. True) rs st = (False, n, st')" "unat (cu_height (fst st)) + length rs < 2 ^ 63"
    and "hex_ok P" "lg_csv (nd_ledger (snd st)) \<noteq> []" "\<forall>r \<in> set rs. csv_safe (br_miner_address r)"
  shows "grown (cu_height (fst st)) (nd_ledger (snd st)) (nd_ledger (snd st'))"
  using assms
proof (induction rs arbitrary: st n)
  case (Cons r rs)
  from Cons.prems(1) obtain claim applied m where
    c: "sync_check P (now (br_height r)) (fst st) (nd_ledger (snd st)) r = Inr (claim, applied)"
    and rest: "sync_page P J now (\<lambda>_. True) rs (sync_apply P J True r claim applied st) = (False, m, st')"
    by (rule sync_page_ConsE)
  let ?st = "sync_apply P J True r claim applied st"
  have h: "unat (br_height r) = unat (cu_height (fst st)) + 1"
    using Cons.prems(2) unfolding sync_check_facts(1) [OF c] by (subst unat_add_fits) simp_all
  then have lt: "cu_height (fst st) < br_height r" by (simp add: word_less_nat_alt)
  have g: "grown (cu_height (fst st)) (nd_ledger (snd st)) (nd_ledger (snd ?st))"
    using Cons.prems(3-5) lt by (simp add: grown_block)
  then have "grown (cu_height (fst ?st)) (nd_ledger (snd ?st)) (nd_ledger (snd st'))"
    using Cons.IH [OF rest] Cons.prems(2,3,5) h by (simp add: grown_def)
  moreover have "cu_height (fst st) \<le> cu_height (fst ?st)"
    using lt by simp
  ultimately show ?case
    by (rule grown_trans [OF g grown_mono])
qed (simp add: grown_refl)

lemma map_filter_indexed:
  assumes "\<And>i. i < length rs \<Longrightarrow> f (a + i) = Some (g (rs ! i))"
  shows "List.map_filter f [a..<a + length rs] = map g rs"
proof -
  have "List.map_filter f [a..<a + length rs] = map (the \<circ> f) (filter (\<lambda>i. f i \<noteq> None) [a..<a + length rs])"
    by (simp add: List.map_filter_def)
  also have "filter (\<lambda>i. f i \<noteq> None) [a..<a + length rs] = [a..<a + length rs]"
  proof (rule filter_True, rule ballI)
    fix i assume "i \<in> set [a..<a + length rs]"
    with assms [of "i - a"] show "f i \<noteq> None" by auto
  qed
  also have "map (the \<circ> f) [a..<a + length rs] = map g rs"
    using assms by (intro nth_equalityI) simp_all
  finally show ?thesis .
qed

lemma dropped_blocks:
  assumes "sync_page P J now io rs st = (False, n, st')" "unat (cu_height (fst st)) + length rs < 2 ^ 62"
    and "store_inv J (nd_store (snd st))" "fresh_branch rs (nd_store (snd st))"
  shows "rolled_back_blocks J (nd_store (snd st')) (cu_height (fst st)) (cu_height (fst st')) = map as_stored rs"
proof -
  let ?h0 = "cu_height (fst st)" and ?h1 = "cu_height (fst st')"
  have h1: "unat ?h1 = unat ?h0 + length rs"
    using assms(2) by (intro sync_page_height [OF assms(1)]) simp
  have u: "unat (?h0 + 1) = unat ?h0 + 1" "unat (?h1 - ?h0 + 1) = length rs + 1"
  proof -
    show "unat (?h0 + 1) = unat ?h0 + 1"
      using assms(2) by (intro unat_next_u64) simp
    have "unat (?h1 - ?h0) = length rs"
      using h1 by (simp add: unat_sub word_le_nat_alt)
    then show "unat (?h1 - ?h0 + 1) = length rs + 1"
      using assms(2) by (subst unat_add_fits) simp_all
  qed
  have page: "store_inv J (nd_store (snd st'))" "\<forall>r \<in> set rs. store_lookup J (nd_store (snd st')) (br_height r) = Some (as_stored r)"
    using sync_page_store [OF assms(1) _ assms(3,4)] assms(2) by simp_all
  have "store_lookup J (nd_store (snd st')) (of_nat (unat ?h0 + 1 + i)) = Some (as_stored (rs ! i))" if "i < length rs" for i
  proof -
    have "unat (br_height (rs ! i)) = unat ?h0 + 1 + i"
      using assms(2) that by (intro sync_page_heights [OF assms(1)]) simp_all
    moreover have "of_nat (unat (br_height (rs ! i))) = br_height (rs ! i)" by simp
    ultimately have "of_nat (unat ?h0 + 1 + i) = br_height (rs ! i)" by metis
    with page(2) that show ?thesis by simp
  qed
  then have "List.map_filter (\<lambda>i. store_lookup J (nd_store (snd st')) (of_nat i)) [unat ?h0 + 1..<unat ?h0 + 1 + length rs]
      = map as_stored rs"
    by (rule map_filter_indexed)
  moreover have "get_range J (nd_store (snd st')) (?h0 + 1) ?h1 (?h1 - ?h0 + 1)
      = Inr (take (unat (?h1 - ?h0 + 1)) (List.map_filter (\<lambda>i. store_lookup J (nd_store (snd st')) (of_nat i)) [unat (?h0 + 1)..<Suc (unat ?h1)]))"
    using assms(2) u h1 by (intro get_range_lookup [OF page(1)]) (simp_all add: small_height_def)
  ultimately show ?thesis
    by (simp add: rolled_back_blocks_def u h1)
qed

section \<open>Requeued transactions\<close>

lemma fold_keeps: "Q s \<Longrightarrow> (\<And>x s. Q s \<Longrightarrow> Q (f x s)) \<Longrightarrow> Q (fold f xs s)"
  by (induction xs arbitrary: s) simp_all

lemma fold_establishes:
  "x \<in> set xs \<Longrightarrow> (\<And>s. Q (f x s)) \<Longrightarrow> (\<And>y s. Q s \<Longrightarrow> Q (f y s)) \<Longrightarrow> Q (fold f xs s)"
  by (induction xs arbitrary: s) (auto intro: fold_keeps)

lemma requeue_tx_sel:
  "fst (requeue_tx P J t ps) = hm_insert (stx_tx_id P t) t (fst ps)"
  "snd (requeue_tx P J t ps) = mempool_insert P J t (snd ps)"
  by (simp_all add: requeue_tx_def case_prod_unfold)

lemma requeue_tables:
  "bs_blocks (snd (requeue_rolled_back_transactions P J rs ps)) = bs_blocks (snd ps)
   \<and> bs_txs (snd (requeue_rolled_back_transactions P J rs ps)) = bs_txs (snd ps)"
  unfolding requeue_rolled_back_transactions_def requeue_block_def
  by (rule fold_keeps, simp, rule fold_keeps) (simp_all add: requeue_tx_sel)

lemma requeue_keeps: "hm_has (fst ps) k \<Longrightarrow> hm_has (fst (requeue_block P J r ps)) k"
  unfolding requeue_block_def by (rule fold_keeps) (simp_all add: requeue_tx_sel)

lemma requeue_all:
  assumes "r \<in> set rs" "t \<in> set (br_transactions r)"
  shows "hm_has (fst (requeue_rolled_back_transactions P J rs ps)) (stx_tx_id P t)"
proof -
  have "hm_has (fst (requeue_block P J r ps)) (stx_tx_id P t)" for ps
    unfolding requeue_block_def by (rule fold_establishes [OF assms(2)]) (simp_all add: requeue_tx_sel)
  then show ?thesis
    unfolding requeue_rolled_back_transactions_def
    by (rule fold_establishes [OF assms(1)]) (rule requeue_keeps)
qed

section \<open>What the store knows of the tip\<close>

text \<open>The block store ends at the tip of the cursor and holds it and the block whose checkpoint governs it.\<close>

definition anchored :: "prims \<Rightarrow> serde \<Rightarrow> cursor \<Rightarrow> block_store \<Rightarrow> bool" where
  "anchored P J cu store \<longleftrightarrow> store_inv J store \<and> cu_height cu \<noteq> 0
     \<and> (\<exists>b. store_lookup J store (cu_height cu) = Some b \<and> hex_to_32 P (br_block_hash b) = Some (cu_tip_hash cu)
          \<and> br_timestamp b = cu_last_ts cu)
     \<and> (\<exists>g. store_lookup J store (governing_checkpoint_height (cu_height cu)) = Some g
          \<and> hex_to_32 P (br_btc_seed g) = Some (cu_btc_seed cu) \<and> br_btc_height g = cu_ckpt_tip cu)
     \<and> (\<forall>h. small_height h \<longrightarrow> cu_height cu < h \<longrightarrow> store_lookup J store h = None)"

lemma governing_le:
  assumes "h \<noteq> 0" "unat h < 2 ^ 63"
  shows "governing_checkpoint_height h \<le> h" "governing_checkpoint_height h \<noteq> 0"
proof -
  have u: "unat (governing_checkpoint_height h) = (unat h - 1) div 20 * 20 + 1"
    using assms(1) by (intro governing_nat) (simp add: word_unat_eq_iff)
  have "unat h \<noteq> 0" using assms(1) by (simp add: word_unat_eq_iff)
  then have "(unat h - 1) div 20 * 20 + 1 \<le> unat h"
    using div_times_less_eq_dividend [of "unat h - 1" 20] by linarith
  then show "governing_checkpoint_height h \<le> h"
    by (simp add: word_le_nat_alt u)
  show "governing_checkpoint_height h \<noteq> 0"
    using u by (metis add_is_0 one_neq_zero unat_0)
qed

section \<open>Properties\<close>

lemma branch_work_stored [simp]: "branch_work (map as_stored rs) = branch_work rs"
  by (simp add: branch_work_def comp_def as_stored_def)

lemma lookup_below_branch:
  assumes "sync_page P J now io rs st = (False, n, st')" "unat (cu_height (fst st)) + length rs < 2 ^ 62"
    and "store_inv J (nd_store (snd st))" "fresh_branch rs (nd_store (snd st))" "h \<le> cu_height (fst st)"
  shows "store_get J (nd_store (snd st')) h = Inr (store_lookup J (nd_store (snd st)) h)"
proof -
  have "h \<notin> br_height ` set rs"
  proof
    assume "h \<in> br_height ` set rs"
    then obtain i where "i < length rs" "h = br_height (rs ! i)"
      by (auto simp: in_set_conv_nth)
    with sync_page_heights [OF assms(1) _ this(1)] assms(2,5) show False
      by (simp add: word_le_nat_alt)
  qed
  moreover have len: "unat (cu_height (fst st)) + length rs < 2 ^ 63"
    using assms(2) by simp
  ultimately show ?thesis
    using sync_page_store [OF assms(1) len assms(3,4)] store_get_lookup [of J "nd_store (snd st')" h] by simp
qed

text \<open>What the rollback to the block before an applied branch reads from the store and the ledger file.\<close>

lemma fork_block_found:
  assumes "anchored P J cu (nd_store nd)" "sync_page P J now (\<lambda>_. True) rs (cu, nd) = (False, n, cu', nd')"
    and "fresh_branch rs (nd_store nd)" "unat (cu_height cu) + length rs < 2 ^ 62"
  shows "fork_tip P J cu' nd' (cu_height cu) = Some (cu_tip_hash cu, cu_last_ts cu)"
    "fork_seed P J cu' nd' (cu_height cu) = Some (cu_btc_seed cu, cu_ckpt_tip cu)"
    "x \<le> cu_height cu \<Longrightarrow> store_get J (nd_store nd') x = Inr (store_lookup J (nd_store nd) x)"
proof -
  let ?h = "cu_height cu"
  have inv: "store_inv J (nd_store nd)" "?h \<noteq> 0"
    using assms(1) by (simp_all add: anchored_def)
  have gov: "governing_checkpoint_height ?h \<le> ?h" "governing_checkpoint_height ?h \<noteq> 0"
    using governing_le [OF inv(2)] assms(4) by simp_all
  have below: "store_get J (nd_store nd') x = Inr (store_lookup J (nd_store nd) x)" if "x \<le> ?h" for x
    using lookup_below_branch [OF assms(2) _ _ _, of x] assms(3,4) inv(1) that by simp
  then show "x \<le> ?h \<Longrightarrow> store_get J (nd_store nd') x = Inr (store_lookup J (nd_store nd) x)" .
  show "fork_tip P J cu' nd' ?h = Some (cu_tip_hash cu, cu_last_ts cu)"
    using assms(1) by (auto simp: fork_tip_def below anchored_def)
  show "fork_seed P J cu' nd' ?h = Some (cu_btc_seed cu, cu_ckpt_tip cu)"
    using gov assms(1) by (auto simp: fork_seed_def below Let_def anchored_def)
qed

lemma branch_work_undone:
  assumes "sync_page P J now io rs (cu, nd) = (False, n, cu', nd')" "unat (cu_work cu) + branch_work rs < 2 ^ 128"
  shows "sat_sub (cu_work cu') (work_of_blocks (map as_stored rs)) = cu_work cu"
proof -
  have "unat (cu_work cu') = unat (cu_work cu) + branch_work rs"
    using sync_page_work [OF assms(1)] assms(2) by simp
  moreover have "unat (work_of_blocks (map as_stored rs)) = branch_work rs"
    using assms(2) work_of_blocks_sum [of "map as_stored rs"] by simp
  ultimately have "unat (sat_sub (cu_work cu') (work_of_blocks (map as_stored rs))) = unat (cu_work cu)"
    by (simp add: unat_sat_sub)
  then show ?thesis by (simp add: word_unat_eq_iff)
qed

lemma branch_rolls_back:
  assumes "hex_ok P" "anchored P J cu (nd_store nd)" "persisted (cu_height cu) (cu_height cu) (nd_ledger nd)"
    and page: "sync_page P J now (\<lambda>_. True) rs (cu, nd) = (False, n, cu', nd')"
    and "fresh_branch rs (nd_store nd)" "\<forall>r \<in> set rs. csv_safe (br_miner_address r)"
    and "unat (cu_height cu) + length rs < 2 ^ 62" "unat (cu_work cu) + branch_work rs < 2 ^ 128"
    and "da_epoch_start_height (cu_adjuster cu') \<le> cu_height cu"
  obtains pool store where "cu_adjuster cu' = cu_adjuster cu"
    "requeue_rolled_back_transactions P J (map as_stored rs) (ns_mempool (nd_state nd'), rollback_above (cu_height cu) (nd_store nd'))
      = (pool, store)"
    "roll_back P J True (Some (lg_csv (nd_ledger nd'))) (cu_height cu) (cu', nd') = Some (cu,
      \<lparr>nd_state = roll_back_state cu (lg_total_mined (nd_ledger nd)) pool (nd_state nd'),
       nd_ledger = (nd_ledger nd)\<lparr>lg_csv := lg_csv (nd_ledger nd')\<rparr>, nd_store = store\<rparr>)"
proof -
  let ?h = "cu_height cu"
  have dropped: "rolled_back_blocks J (nd_store nd') ?h (cu_height cu') = map as_stored rs"
    using dropped_blocks [OF page] assms(2,5,7) by (simp add: anchored_def)
  have adj: "cu_adjuster cu' = cu_adjuster cu"
    using sync_page_adjuster [OF page] assms(7,9) by auto
  have ledger: "ledger_open_scoped True (Some (lg_csv (nd_ledger nd'))) ?h = Inr ((nd_ledger nd)\<lparr>lg_csv := lg_csv (nd_ledger nd')\<rparr>)"
    using assms(3,6,7) sync_page_grown [OF page _ assms(1)] by (intro open_grown) (simp_all add: persisted_def)
  obtain pool store where rq: "requeue_rolled_back_transactions P J (map as_stored rs)
      (ns_mempool (nd_state nd'), rollback_above ?h (nd_store nd')) = (pool, store)"
    by fastforce
  define cu'' where "cu'' = cu'\<lparr>cu_work := cu_work cu, cu_height := ?h, cu_tip_hash := cu_tip_hash cu, cu_last_ts := cu_last_ts cu,
      cu_btc_seed := cu_btc_seed cu, cu_ckpt_tip := cu_ckpt_tip cu\<rparr>"
  have cu'': "cu'' = cu"
    using adj by (simp add: cu''_def)
  show thesis
    using fork_block_found(1,2) [OF assms(2) page assms(5,7)] ledger rq cu''
    by (intro that [OF adj rq]) (simp add: roll_back_def dropped branch_work_undone [OF page assms(8)] Let_def flip: cu''_def)
qed

lemma rolled_back_lookup:
  assumes "anchored P J cu (nd_store nd)" "sync_page P J now (\<lambda>_. True) rs (cu, nd) = (False, n, cu', nd')"
    and "fresh_branch rs (nd_store nd)" "unat (cu_height cu) + length rs < 2 ^ 62"
    and "bs_blocks store = bs_blocks (rollback_above (cu_height cu) (nd_store nd'))"
      "bs_txs store = bs_txs (rollback_above (cu_height cu) (nd_store nd'))"
    and x: "small_height x"
  shows "store_lookup J store x = store_lookup J (nd_store nd) x"
proof -
  let ?h = "cu_height cu"
  have "store_lookup J store x = (if x \<le> ?h then store_lookup J (nd_store nd') x else None)"
    unfolding store_view_cong(1) [OF assms(5,6)]
    using assms(4) x by (intro store_lookup_rollback) (simp_all add: small_height_def)
  moreover have "store_lookup J (nd_store nd') x = store_lookup J (nd_store nd) x" if "x \<le> ?h"
    using fork_block_found(3) [OF assms(1-4) that] by (simp add: store_lookup_def)
  moreover have "store_lookup J (nd_store nd) x = None" if "?h < x"
    using assms(1) x that by (simp add: anchored_def)
  ultimately show ?thesis by auto
qed

text \<open>C7: A reorganisation undoes what it abandons: after a branch of blocks within one difficulty epoch has
  been applied, rolling back to the block before it restores the height, the tip, the last timestamp, the
  pinned Bitcoin seed, the chain work, the adjuster, the balances, the nonces, the mined total and the block
  store that the node had there, and every transaction of the abandoned blocks is pending again.\<close>

theorem rollback_undoes_branch:
  assumes "hex_ok P" "anchored P J cu (nd_store nd)" "persisted (cu_height cu) (cu_height cu) (nd_ledger nd)" "mirrors cu nd"
    and "sync_page P J now (\<lambda>_. True) rs (cu, nd) = (False, n, cu', nd')"
    and "fresh_branch rs (nd_store nd)" "\<forall>r \<in> set rs. csv_safe (br_miner_address r)"
    and "unat (cu_height cu) + length rs < 2 ^ 62" "unat (cu_work cu) + branch_work rs < 2 ^ 128"
    and "da_epoch_start_height (cu_adjuster cu') \<le> cu_height cu"
  shows "\<exists>nd''. roll_back P J True (Some (lg_csv (nd_ledger nd'))) (cu_height cu) (cu', nd') = Some (cu, nd'')
    \<and> nd_ledger nd'' = (nd_ledger nd)\<lparr>lg_csv := lg_csv (nd_ledger nd')\<rparr> \<and> mirrors cu nd''
    \<and> (\<forall>h. small_height h \<longrightarrow> store_lookup J (nd_store nd'') h = store_lookup J (nd_store nd) h)
    \<and> (\<forall>r \<in> set rs. \<forall>t \<in> set (br_transactions r). hm_has (ns_mempool (nd_state nd'')) (stx_tx_id P t))"
proof -
  let ?pool = "ns_mempool (nd_state nd')" and ?left = "rollback_above (cu_height cu) (nd_store nd')"
  note page = assms(5)
  obtain pool store where adj: "cu_adjuster cu' = cu_adjuster cu"
    and rq: "requeue_rolled_back_transactions P J (map as_stored rs) (?pool, ?left) = (pool, store)"
    and rb: "roll_back P J True (Some (lg_csv (nd_ledger nd'))) (cu_height cu) (cu', nd') = Some (cu,
      \<lparr>nd_state = roll_back_state cu (lg_total_mined (nd_ledger nd)) pool (nd_state nd'),
       nd_ledger = (nd_ledger nd)\<lparr>lg_csv := lg_csv (nd_ledger nd')\<rparr>, nd_store = store\<rparr>)" (is "_ = Some (cu, ?nd)")
    by (rule branch_rolls_back [OF assms(1-3) page assms(6-10)])
  have "bs_blocks store = bs_blocks ?left" "bs_txs store = bs_txs ?left"
    using requeue_tables [of P J "map as_stored rs" "(?pool, ?left)"] rq by simp_all
  note lookup = rolled_back_lookup [OF assms(2) page assms(6,8) this]
  have "hm_has pool (stx_tx_id P t)" if "r \<in> set rs" "t \<in> set (br_transactions r)" for r t
    using requeue_all [of "as_stored r" "map as_stored rs" t P J "(?pool, ?left)"] rq that
    by (simp add: as_stored_def)
  moreover have "mirrors cu' nd'"
    using sync_page_mirrors [of "(cu, nd)" P J now "\<lambda>_. True" rs] assms(4) page by simp
  then have "mirrors cu ?nd"
    using adj by (simp add: mirrors_def roll_back_state_def Let_def)
  ultimately show ?thesis
    using rb lookup by (intro exI [of _ ?nd]) (simp add: roll_back_state_def)
qed

section \<open>A sample branch\<close>

definition base_ledger :: ledger where
  "base_ledger = snd (execute_block sample_prims 1 [] ''aabb'' 50 1000 new_ledger)"

definition base_record :: block_record where
  "base_record = (sample_record 1 ''x'')\<lparr>br_block_hash := sample_hex (replicate 32 7), br_timestamp := 1000000,
     br_btc_seed := sample_hex (zeros 32), br_btc_height := 0\<rparr>"

definition base_node :: node where
  "base_node = \<lparr>nd_state = sample_state\<lparr>ns_total_mined_bina := lg_total_mined base_ledger\<rparr>, nd_ledger = base_ledger,
     nd_store = insert_block sample_serde base_record (store_open None)\<rparr>"

definition branch_header :: l1_header where
  "branch_header = (sample_block 1 50)\<lparr>h_state_root := snd (simulate_block_execution sample_prims base_ledger [] sample_miner_hex 50)\<rparr>"

definition branch_claim :: pending_claim where
  "branch_claim = \<lparr>pc_claim = mined_by_sample branch_header, pc_btc_checkpoint = None, pc_transactions = []\<rparr>"

definition branch_record :: block_record where
  "branch_record = mined_record sample_prims 2 branch_claim 50 sample_result [] 0 0"

lemma branch_claim_sel [simp]: "sc_header (pc_claim branch_claim) = branch_header" "pc_transactions branch_claim = []"
  by (simp_all add: branch_claim_def) (simp add: branch_header_def sample_block_def sample_next_header_def)

lemma base_persisted: "persisted 1 1 base_ledger"
  using ledger_history_invariant [OF sample_history sample_hex_ok] by (simp add: base_ledger_def)

lemma base_lookup: "store_lookup sample_serde (nd_store base_node) h = (if h = 1 then Some (as_stored base_record) else None)"
proof -
  have "store_lookup sample_serde (store_open None) h = None"
    by (simp add: store_lookup_def store_get_def store_open_def)
  moreover have "br_height base_record = 1"
    by (simp add: base_record_def sample_record_def)
  ultimately show ?thesis
    using store_lookup_insert [OF store_inv_open [OF sample_json_ok] hash_fresh_open, of base_record h] by (simp add: base_node_def)
qed

lemma base_anchored: "anchored sample_prims sample_serde sample_tip (nd_store base_node)"
proof -
  have "store_inv sample_serde (nd_store base_node)"
    unfolding base_node_def node.select_convs
    by (rule store_inv_insert [OF store_inv_open [OF sample_json_ok]]) (simp add: base_record_def sample_record_def small_height_def)
  moreover have "hex_to_32 sample_prims (sample_hex b) = Some b" if "length b = 32" for b
    using hex_to_32_encode [OF sample_hex_ok that] by simp
  ultimately show ?thesis
    by (auto simp: anchored_def base_lookup as_stored_def base_record_def sample_tip_def governing_checkpoint_height_def)
qed

lemma branch_accepted: "sync_check sample_prims 1000050 sample_tip base_ledger branch_record = Inr (pc_claim branch_claim, [])"
proof -
  have "length (fst (simulate_block_execution sample_prims base_ledger [] m r)) = length ([] :: signed_transaction list)" for m r
    by (simp add: fst_simulate)
  moreover have "claim_verify sample_prims (pc_claim branch_claim) = Inr ()"
    unfolding branch_claim_def by (simp add: mined_by_sample_verifies branch_header_def)
  moreover have "claim_miner_address_hex sample_prims (pc_claim branch_claim) = sample_miner_hex"
    by (simp add: claim_miner_address_hex_def)
      (simp add: branch_header_def sample_block_def sample_next_header_def sample_miner_hex_def)
  ultimately have e: "claim_extends sample_prims sample_tip base_ledger 50 branch_claim"
    by (simp add: claim_extends_def prod_eq_iff merkle_root_def)
      (simp add: branch_header_def sample_block_def sample_next_header_def sample_tip_def)
  have "length (snd (simulate_block_execution sample_prims base_ledger [] m r)) = 32" for m r
    by (simp add: simulate_block_execution_def state_root_with_overlay_def compute_state_root_def Let_def)
  then have "header_wf branch_header"
    using sample_block_wf [of 1 50] by (simp add: branch_header_def header_wf_def)
  moreover have "h_version branch_header = 1" "h_timestamp branch_header \<le> sat_add 1000050 MAX_FUTURE_MS"
    by (simp_all add: branch_header_def MAX_FUTURE_MS_def sat_add_def)
  ultimately show ?thesis
    using sync_check_mined [OF sample_hex_ok e, of sample_tip 1000050] by (simp add: branch_record_def same_consensus_def)
qed

lemma branch_fresh: "fresh_branch [branch_record] (nd_store base_node)"
proof -
  have "header_hash sample_prims branch_header ! 0 = word_of_nat (length (header_preimage branch_header) mod 256)"
    by (simp add: header_hash_def sample_hash_head)
  moreover have "length (header_preimage branch_header) = 190"
  proof -
    have "length (snd (simulate_block_execution sample_prims base_ledger [] m r)) = 32" for m r
      by (simp add: simulate_block_execution_def state_root_with_overlay_def compute_state_root_def Let_def)
    then show ?thesis
      using sample_block_wf [of 1 50] by (intro length_header_preimage) (simp add: branch_header_def header_wf_def)
  qed
  ultimately have "header_hash sample_prims branch_header \<noteq> replicate 32 7"
    by auto
  then have "br_block_hash branch_record \<noteq> br_block_hash base_record"
    using hex_encode_inj [OF sample_hex_ok]
    by (simp add: branch_record_def claim_block_hash_hex_def claim_block_hash_def base_record_def sample_record_def)
  then show ?thesis
    by (auto simp: fresh_branch_def base_node_def intro!: hash_fresh_insert hash_fresh_open)
qed

theorem rollback_undoes_branch_witness:
  "\<exists>cu' nd' nd''. sync_page sample_prims sample_serde (\<lambda>_. 1000050) (\<lambda>_. True) [branch_record] (sample_tip, base_node) = (False, 1, cu', nd')
    \<and> cu_height cu' = 2
    \<and> roll_back sample_prims sample_serde True (Some (lg_csv (nd_ledger nd'))) 1 (cu', nd') = Some (sample_tip, nd'')
    \<and> lg_balances (nd_ledger nd'') = lg_balances base_ledger"
proof -
  let ?st = "sync_apply sample_prims sample_serde True branch_record (pc_claim branch_claim) [] (sample_tip, base_node)"
  have h: "br_height branch_record = 2" "br_difficulty_bits branch_record = 0"
    by (simp_all add: branch_record_def) (simp add: mined_record_def Let_def branch_header_def)
  have l: "nd_ledger base_node = base_ledger" by (simp add: base_node_def)
  have page: "sync_page sample_prims sample_serde (\<lambda>_. 1000050) (\<lambda>_. True) [branch_record] (sample_tip, base_node) = (False, 1, fst ?st, snd ?st)"
    using branch_accepted l by (simp del: sync_apply_sel)
  have cu: "cu_height (fst ?st) = 2" "cu_adjuster (fst ?st) = cu_adjuster sample_tip"
    by (simp_all add: h advance_cursor_def Let_def record_block_def EPOCH_SIZE_def word_mod_def)
  have p: "persisted (cu_height sample_tip) (cu_height sample_tip) (nd_ledger base_node)"
    using base_persisted l by simp
  have m: "mirrors sample_tip base_node"
    by (simp add: mirrors_def Let_def base_node_def) (simp add: sample_tip_def sample_state_def initial_state_def)
  have safe: "\<forall>r \<in> set [branch_record]. csv_safe (br_miner_address r)"
    using csv_safe_hex [OF sample_hex_ok] by (simp add: branch_record_def claim_miner_address_hex_def)
  have bounds: "unat (cu_height sample_tip) + length [branch_record] < 2 ^ 62"
    "unat (cu_work sample_tip) + branch_work [branch_record] < 2 ^ 128"
    "da_epoch_start_height (cu_adjuster (fst ?st)) \<le> cu_height sample_tip"
    by (simp_all only: cu(2)) (simp_all add: branch_work_def h unat_block_work, simp_all add: sample_tip_def)
  obtain nd'' where "roll_back sample_prims sample_serde True (Some (lg_csv (nd_ledger (snd ?st)))) (cu_height sample_tip) (fst ?st, snd ?st) = Some (sample_tip, nd'')"
    "nd_ledger nd'' = (nd_ledger base_node)\<lparr>lg_csv := lg_csv (nd_ledger (snd ?st))\<rparr>"
    using rollback_undoes_branch [OF sample_hex_ok base_anchored p m page branch_fresh safe bounds] by blast
  with page cu l show ?thesis
    by (intro exI [of _ "fst ?st"] exI [of _ "snd ?st"] exI [of _ nd'']) (simp del: sync_apply_sel)
qed

end
