(* ===== verification/Node_System.thy ===== *)
theory Node_System
  imports Mined_Sync
begin

text \<open>
  The node as a transition system: the passes of the mining loop interleaved with the handlers that admit
  claims and transactions and with the Bitcoin observer (\<^verbatim>\<open>node/src/main.rs\<close>). The three phases of
  \<^verbatim>\<open>accept_signed_claim\<close> are separate steps, since they take the locks separately: a claim between
  them is in flight. The election, the commitment and each phase are atomic, as each holds its lock. A
  panic ends the run, since it poisons the lock of the state. Synchronisation with a peer is not part
  of these runs. Clocks are below \<open>2 ^ 63\<close> milliseconds and heights below \<open>2 ^ 62\<close>.
\<close>

section \<open>States\<close>

datatype phase =
    Idle
  | Searching candidate
  | Waiting candidate bytes mining_result
  | Elected candidate bytes mining_result pending_claim
  | Crashed panic

record inflight =
  if_pending :: pending_claim
  if_reward :: u64
  if_executed :: bool

record system =
  sy_cursor :: cursor
  sy_node :: node
  sy_file :: "string option"
  sy_phase :: phase
  sy_inflight :: "inflight list"

record miner =
  mr_prims :: prims
  mr_serde :: serde
  mr_codec :: chain_codec
  mr_keypair :: wallet_keypair
  mr_threads :: nat

definition mr_hex :: "miner \<Rightarrow> string" where
  "mr_hex M = hex_encode (mr_prims M) (keypair_address (mr_prims M) (mr_keypair M))"

definition running :: "system \<Rightarrow> bool" where
  "running sy \<longleftrightarrow> (case sy_phase sy of Crashed p \<Rightarrow> False | _ \<Rightarrow> True)"

text \<open>The claim mined by the threads of the candidate's job.\<close>

definition local_claim :: "miner \<Rightarrow> nat \<Rightarrow> cursor \<Rightarrow> candidate \<Rightarrow> mining \<Rightarrow> signed_claim" where
  "local_claim M q cu cd run =
     claim_sign (mr_prims M) q
       (mined_header (candidate_job (mr_prims M) (keypair_address (mr_prims M) (mr_keypair M)) (mr_threads M) cu cd) run)
       (mr_keypair M)"

section \<open>Steps\<close>

inductive loop_step :: "miner \<Rightarrow> system \<Rightarrow> system \<Rightarrow> bool" for M where
  prepare: "sy_phase sy = Idle \<Longrightarrow> unat (cu_height (sy_cursor sy)) < 2 ^ 62 \<Longrightarrow> unat now < 2 ^ 63 \<Longrightarrow>
    is_checkpoint_height (cu_height (sy_cursor sy) + 1) \<longrightarrow>
      await_observation (cu_ckpt_tip (sy_cursor sy)) answers observed 0 = Some fresh \<Longrightarrow>
    build_candidate (mr_prims M) now (mr_hex M) fresh (sy_cursor sy) (sy_node sy) = (cd, nd') \<Longrightarrow>
    loop_step M sy (sy\<lparr>sy_node := nd', sy_phase := Searching cd\<rparr>)"
| mined: "sy_phase sy = Searching cd \<Longrightarrow>
    mine_reachable (candidate_job (mr_prims M) (keypair_address (mr_prims M) (mr_keypair M)) (mr_threads M) (sy_cursor sy) cd) k run \<Longrightarrow>
    all_joined run \<Longrightarrow> claim = local_claim M q (sy_cursor sy) cd run \<Longrightarrow>
    claim_verify (mr_prims M) claim = Inr () \<Longrightarrow>
    loop_step M sy (sy\<lparr>sy_node := (sy_node sy)\<lparr>nd_state := submit_local (mr_hex M) cd claim (nd_state (sy_node sy))\<rparr>,
      sy_phase := Waiting cd (claim_block_hash (mr_prims M) claim) result\<rparr>)"
| unverified: "sy_phase sy = Searching cd \<Longrightarrow>
    mine_reachable (candidate_job (mr_prims M) (keypair_address (mr_prims M) (mr_keypair M)) (mr_threads M) (sy_cursor sy) cd) k run \<Longrightarrow>
    all_joined run \<Longrightarrow> claim_verify (mr_prims M) (local_claim M q (sy_cursor sy) cd run) = Inl e \<Longrightarrow>
    loop_step M sy (sy\<lparr>sy_phase := Crashed (PanicLocalClaim e)\<rparr>)"
| elected: "sy_phase sy = Waiting cd lh result \<Longrightarrow>
    elect (mr_prims M) (cd_height cd) (nd_state (sy_node sy)) = (Inr w, s') \<Longrightarrow>
    loop_step M sy (sy\<lparr>sy_node := (sy_node sy)\<lparr>nd_state := s'\<rparr>, sy_phase := Elected cd lh result w\<rparr>)"
| no_claim: "sy_phase sy = Waiting cd lh result \<Longrightarrow>
    elect (mr_prims M) (cd_height cd) (nd_state (sy_node sy)) = (Inl p, s') \<Longrightarrow>
    loop_step M sy (sy\<lparr>sy_node := (sy_node sy)\<lparr>nd_state := s'\<rparr>, sy_phase := Crashed p\<rparr>)"
| committed: "sy_phase sy = Elected cd lh result w \<Longrightarrow>
    commit (mr_prims M) (mr_serde M) (mr_codec M) True fio secs cd result lh w (sy_cursor sy, sy_node sy, sy_file sy)
      = (Inr (), cu', nd', rf') \<Longrightarrow>
    loop_step M sy (sy\<lparr>sy_cursor := cu', sy_node := nd', sy_file := rf', sy_phase := Idle\<rparr>)"
| collision: "sy_phase sy = Elected cd lh result w \<Longrightarrow>
    commit (mr_prims M) (mr_serde M) (mr_codec M) True fio secs cd result lh w (sy_cursor sy, sy_node sy, sy_file sy)
      = (Inl p, cu', nd', rf') \<Longrightarrow>
    loop_step M sy (sy\<lparr>sy_cursor := cu', sy_node := nd', sy_file := rf', sy_phase := Crashed p\<rparr>)"

text \<open>A claim whose execution or admission fails is dropped; where the model has no step for it, it stays in
  flight for ever, which changes nothing.\<close>

inductive handler_step :: "miner \<Rightarrow> system \<Rightarrow> system \<Rightarrow> bool" for M where
  receive: "running sy \<Longrightarrow> unat now < 2 ^ 63 \<Longrightarrow> accept_payload (mr_prims M) claim txs = Inr () \<Longrightarrow>
    accept_structure (mr_prims M) now (nd_state (sy_node sy)) claim ckpt = Inr reward \<Longrightarrow>
    handler_step M sy (sy\<lparr>sy_inflight :=
      \<lparr>if_pending = \<lparr>pc_claim = claim, pc_btc_checkpoint = ckpt, pc_transactions = txs\<rparr>, if_reward = reward,
       if_executed = False\<rparr> # sy_inflight sy\<rparr>)"
| execute: "running sy \<Longrightarrow> i < length (sy_inflight sy) \<Longrightarrow> x = sy_inflight sy ! i \<Longrightarrow>
    accept_execution (mr_prims M) (nd_ledger (sy_node sy)) (pc_claim (if_pending x)) (pc_transactions (if_pending x)) (if_reward x)
      = Inr () \<Longrightarrow>
    handler_step M sy (sy\<lparr>sy_inflight := (sy_inflight sy)[i := x\<lparr>if_executed := True\<rparr>]\<rparr>)"
| admit: "running sy \<Longrightarrow> i < length (sy_inflight sy) \<Longrightarrow> x = sy_inflight sy ! i \<Longrightarrow> if_executed x \<Longrightarrow>
    handler_step M sy (sy\<lparr>sy_node := (sy_node sy)\<lparr>nd_state := snd (accept_admit (mr_prims M) (if_pending x) (nd_state (sy_node sy)))\<rparr>,
      sy_inflight := take i (sy_inflight sy) @ drop (Suc i) (sy_inflight sy)\<rparr>)"
| enqueue: "running sy \<Longrightarrow>
    handler_step M sy (sy\<lparr>sy_node := snd (enqueue_transaction (mr_prims M) (mr_serde M) t (sy_node sy))\<rparr>)"
| observe: "running sy \<Longrightarrow>
    handler_step M sy (sy\<lparr>sy_node := (sy_node sy)\<lparr>nd_state := btc_observe answer (nd_state (sy_node sy))\<rparr>\<rparr>)"

inductive node_reach :: "miner \<Rightarrow> system \<Rightarrow> system \<Rightarrow> bool" for M where
  begin_run: "node_reach M sy sy"
| loop: "node_reach M sy sy' \<Longrightarrow> loop_step M sy' sy'' \<Longrightarrow> node_reach M sy sy''"
| handler: "node_reach M sy sy' \<Longrightarrow> handler_step M sy' sy'' \<Longrightarrow> node_reach M sy sy''"

section \<open>The pool of claims\<close>

text \<open>What phase 1 of the admission establishes and later handlers keep, and phase 2.\<close>

definition structure_ok :: "prims \<Rightarrow> node_state \<Rightarrow> pending_claim \<Rightarrow> bool" where
  "structure_ok P s p \<longleftrightarrow>
     (let header = sc_header (pc_claim p) in
      claim_verify P (pc_claim p) = Inr () \<and> length (pc_transactions p) \<le> MAX_TXS_PER_BLOCK
      \<and> merkle_root P (pc_transactions p) = h_merkle_root header
      \<and> h_height header = ns_chain_height s + 1 \<and> h_prev_hash header = ns_tip_hash s
      \<and> h_difficulty_bits header = ns_difficulty_bits s
      \<and> ns_last_block_timestamp_ms s < h_timestamp header
      \<and> (if is_checkpoint_height (h_height header)
         then \<exists>proof. pc_btc_checkpoint p = Some proof \<and> checkpoint_seed_hash P proof = h_bitcoin_seed_hash header
         else h_bitcoin_seed_hash header = ns_btc_seed_hash s))"

definition execution_ok :: "prims \<Rightarrow> ledger \<Rightarrow> u64 \<Rightarrow> pending_claim \<Rightarrow> bool" where
  "execution_ok P l reward p \<longleftrightarrow>
     simulate_block_execution P l (pc_transactions p) (claim_miner_address_hex P (pc_claim p)) reward
       = (pc_transactions p, h_state_root (sc_header (pc_claim p)))"

lemma candidate_ok_split:
  "candidate_ok P s l p \<longleftrightarrow> structure_ok P s p
     \<and> execution_ok P l (block_reward (h_height (sc_header (pc_claim p))) (ns_total_mined_bina s)) p"
  by (auto simp: candidate_ok_def structure_ok_def execution_ok_def Let_def)

text \<open>The part of the shared state the admission of claims depends on.\<close>

definition same_tip :: "node_state \<Rightarrow> node_state \<Rightarrow> bool" where
  "same_tip s s' \<longleftrightarrow> ns_chain_height s' = ns_chain_height s \<and> ns_tip_hash s' = ns_tip_hash s
     \<and> ns_difficulty_bits s' = ns_difficulty_bits s \<and> ns_btc_seed_hash s' = ns_btc_seed_hash s
     \<and> ns_last_block_timestamp_ms s' = ns_last_block_timestamp_ms s
     \<and> ns_total_mined_bina s' = ns_total_mined_bina s"

lemma structure_ok_cong: "same_tip s s' \<Longrightarrow> structure_ok P s' p = structure_ok P s p"
  by (simp add: same_tip_def structure_ok_def)

lemma candidate_ok_cong: "same_tip s s' \<Longrightarrow> candidate_ok P s' l p = candidate_ok P s l p"
  by (simp add: same_tip_def structure_ok_def candidate_ok_split)

definition MAX_CLOCK :: nat where "MAX_CLOCK = 2 ^ 63 + 30000"

definition within_bounds :: "node_state \<Rightarrow> l1_header \<Rightarrow> bool" where
  "within_bounds s header \<longleftrightarrow> unat (h_height header) \<le> unat (ns_chain_height s) + 1
     \<and> unat (h_timestamp header) \<le> MAX_CLOCK + unat (h_height header)"

definition claim_inv :: "prims \<Rightarrow> node_state \<Rightarrow> ledger \<Rightarrow> pending_claim \<Rightarrow> bool" where
  "claim_inv P s l p \<longleftrightarrow> within_bounds s (sc_header (pc_claim p))
     \<and> (h_height (sc_header (pc_claim p)) = ns_chain_height s + 1 \<longrightarrow> candidate_ok P s l p)"

definition pool_inv :: "prims \<Rightarrow> node_state \<Rightarrow> ledger \<Rightarrow> bool" where
  "pool_inv P s l \<longleftrightarrow> (\<forall>h. \<forall>p \<in> set (hm_values (pending_at s h)).
     h_height (sc_header (pc_claim p)) = h \<and> claim_inv P s l p)"

definition flight_inv :: "prims \<Rightarrow> node_state \<Rightarrow> ledger \<Rightarrow> inflight \<Rightarrow> bool" where
  "flight_inv P s l x \<longleftrightarrow>
     (let p = if_pending x; header = sc_header (pc_claim p) in
      within_bounds s header
      \<and> (h_height header = ns_chain_height s + 1 \<longrightarrow>
          structure_ok P s p \<and> if_reward x = block_reward (h_height header) (ns_total_mined_bina s)
          \<and> (if_executed x \<longrightarrow> execution_ok P l (if_reward x) p)))"

text \<open>Every spent nullifier was derived for a height of the chain.\<close>

definition spent_inv :: "prims \<Rightarrow> u64 \<Rightarrow> nullifier_set \<Rightarrow> bool" where
  "spent_inv P height spent \<longleftrightarrow>
     (\<forall>n \<in> set spent. \<exists>h out. h \<le> height \<and> n = blake3 P (nullifier_preimage h out))"

definition nullifier_collision :: "prims \<Rightarrow> bool" where
  "nullifier_collision P \<longleftrightarrow>
     (\<exists>h out h' out'. h \<noteq> h' \<and> blake3 P (nullifier_preimage h out) = blake3 P (nullifier_preimage h' out'))"

definition node_inv :: "miner \<Rightarrow> cursor \<Rightarrow> node \<Rightarrow> bool" where
  "node_inv M cu nd \<longleftrightarrow>
     (let P = mr_prims M; s = nd_state nd in
      tracks cu nd \<and> unat (cu_height cu) \<le> 2 ^ 62 \<and> unat (cu_last_ts cu) \<le> MAX_CLOCK + unat (cu_height cu)
      \<and> supply_ok (nd_ledger nd) \<and> mempool_ok P (mr_serde M) nd
      \<and> spent_inv P (cu_height cu) (ns_nullifiers s) \<and> pool_inv P s (nd_ledger nd))"

definition drafted :: "miner \<Rightarrow> cursor \<Rightarrow> ledger \<Rightarrow> candidate \<Rightarrow> bool" where
  "drafted M cu l cd \<longleftrightarrow> candidate_fits (mr_prims M) (mr_hex M) cu l cd \<and> unat (cu_height cu) < 2 ^ 62
     \<and> unat (cd_timestamp cd) \<le> MAX_CLOCK + unat (cd_height cd)"

fun phase_inv :: "miner \<Rightarrow> cursor \<Rightarrow> node \<Rightarrow> phase \<Rightarrow> bool" where
  "phase_inv M cu nd Idle = True"
| "phase_inv M cu nd (Searching cd) = drafted M cu (nd_ledger nd) cd"
| "phase_inv M cu nd (Waiting cd lh result) =
     (drafted M cu (nd_ledger nd) cd \<and> pending_at (nd_state nd) (cd_height cd) \<noteq> [])"
| "phase_inv M cu nd (Elected cd lh result w) =
     (drafted M cu (nd_ledger nd) cd \<and> h_height (sc_header (pc_claim w)) = cd_height cd
      \<and> claim_inv (mr_prims M) (nd_state nd) (nd_ledger nd) w)"
| "phase_inv M cu nd (Crashed p) =
     (p = PanicNullifier \<and> nullifier_collision (mr_prims M) \<or> (\<exists>e. p = PanicLocalClaim e))"

definition system_inv :: "miner \<Rightarrow> system \<Rightarrow> bool" where
  "system_inv M sy \<longleftrightarrow> phase_inv M (sy_cursor sy) (sy_node sy) (sy_phase sy)
     \<and> (running sy \<longrightarrow> node_inv M (sy_cursor sy) (sy_node sy)
          \<and> (\<forall>x \<in> set (sy_inflight sy). flight_inv (mr_prims M) (nd_state (sy_node sy)) (nd_ledger (sy_node sy)) x))"

lemma within_bounds_cong: "same_tip s s' \<Longrightarrow> within_bounds s' h = within_bounds s h"
  by (simp add: within_bounds_def same_tip_def)

lemma claim_inv_cong: "same_tip s s' \<Longrightarrow> claim_inv P s' l p = claim_inv P s l p"
  by (simp add: claim_inv_def candidate_ok_cong within_bounds_cong) (simp add: same_tip_def)

lemma flight_inv_cong: "same_tip s s' \<Longrightarrow> flight_inv P s' l x = flight_inv P s l x"
  by (simp add: flight_inv_def Let_def structure_ok_cong within_bounds_cong) (simp add: same_tip_def)

lemma pool_inv_cong:
  "same_tip s s' \<Longrightarrow> ns_pending_claims s' = ns_pending_claims s \<Longrightarrow> pool_inv P s' l = pool_inv P s l"
  by (simp add: pool_inv_def pending_at_def claim_inv_cong)

lemma hm_values_insert: "set (hm_values (hm_insert k v m)) \<subseteq> insert v (set (hm_values m))"
  by (induction m) (auto simp: hm_values_def hm_insert_def)

lemma pending_at_cong: "ns_pending_claims s' = ns_pending_claims s \<Longrightarrow> pending_at s' = pending_at s"
  by (rule ext) (simp add: pending_at_def)

lemma pool_inv_insert:
  assumes "pool_inv P s l" "same_tip s s'"
    and "ns_pending_claims s' = hm_insert h m (ns_pending_claims s)"
    and "\<forall>p \<in> set (hm_values m). p \<in> set (hm_values (pending_at s h))
      \<or> h_height (sc_header (pc_claim p)) = h \<and> claim_inv P s l p"
  shows "pool_inv P s' l"
  using assms by (auto simp: pool_inv_def claim_inv_cong [OF assms(2)] pending_at_def split: if_splits)

section \<open>Handlers keep the invariant\<close>

text \<open>A handler changes neither the loop's variables nor the ledger nor the tip of the shared state.\<close>

lemma node_inv_quiet:
  assumes "node_inv M cu nd" "nd_ledger nd' = nd_ledger nd" "same_tip (nd_state nd) (nd_state nd')"
    and "ns_chain_work (nd_state nd') = ns_chain_work (nd_state nd)"
    and "ns_nullifiers (nd_state nd') = ns_nullifiers (nd_state nd)"
    and "mempool_ok (mr_prims M) (mr_serde M) nd'" "pool_inv (mr_prims M) (nd_state nd') (nd_ledger nd)"
  shows "node_inv M cu nd'"
  using assms by (simp add: node_inv_def Let_def tracks_def same_tip_def)

lemma phase_inv_quiet:
  assumes "phase_inv M cu nd ph" "nd_ledger nd' = nd_ledger nd" "same_tip (nd_state nd) (nd_state nd')"
    and "\<forall>h. pending_at (nd_state nd) h \<noteq> [] \<longrightarrow> pending_at (nd_state nd') h \<noteq> []"
  shows "phase_inv M cu nd' ph"
  using assms by (cases ph) (auto simp: claim_inv_cong)

lemma unat_next_height:
  fixes h :: u64
  shows "unat h \<le> 2 ^ 62 \<Longrightarrow> unat (h + 1) = unat h + 1"
  by (subst unat_add_fits) simp_all

lemma node_inv_height: "node_inv M cu nd \<Longrightarrow> ns_chain_height (nd_state nd) = cu_height cu \<and> unat (cu_height cu) \<le> 2 ^ 62"
  by (simp add: node_inv_def tracks_def Let_def)

lemma receive_flight:
  assumes "node_inv M cu nd" "unat now < 2 ^ 63" "accept_payload (mr_prims M) claim txs = Inr ()"
    and "accept_structure (mr_prims M) now (nd_state nd) claim ckpt = Inr reward"
  shows "flight_inv (mr_prims M) (nd_state nd) l
    \<lparr>if_pending = \<lparr>pc_claim = claim, pc_btc_checkpoint = ckpt, pc_transactions = txs\<rparr>, if_reward = reward, if_executed = False\<rparr>"
proof -
  let ?s = "nd_state nd" and ?h = "sc_header claim"
  have s: "h_height ?h = ns_chain_height ?s + 1" "h_prev_hash ?h = ns_tip_hash ?s"
    "h_difficulty_bits ?h = ns_difficulty_bits ?s" "accept_checkpoint (mr_prims M) ?s ?h ckpt = Inr ()"
    "timestamp_is_valid (h_timestamp ?h) (ns_last_block_timestamp_ms ?s) now MAX_FUTURE_MS"
    "reward = block_reward (h_height ?h) (ns_total_mined_bina ?s)"
    using assms(4) by (simp_all add: accept_structure_ok Let_def)
  have "unat (h_height ?h) \<le> unat (ns_chain_height ?s) + 1"
    using node_inv_height [OF assms(1)] s(1) unat_next_height [of "ns_chain_height ?s"] by simp
  moreover have "unat (h_timestamp ?h) \<le> MAX_CLOCK"
    using s(5) assms(2) by (simp add: timestamp_is_valid_iff MAX_CLOCK_def MAX_FUTURE_MS_def)
  moreover have "ns_last_block_timestamp_ms ?s < h_timestamp ?h"
    using s(5) by (simp add: timestamp_is_valid_def)
  ultimately show ?thesis
    using s assms(3)
    by (auto simp: flight_inv_def within_bounds_def structure_ok_def accept_payload_ok accept_checkpoint_ok Let_def
        split: if_splits)
qed

lemma admit_pool:
  assumes "pool_inv P s l" "flight_inv P s l x" "if_executed x"
  shows "pool_inv P (snd (accept_admit P (if_pending x) s)) l"
    "same_tip s (snd (accept_admit P (if_pending x) s))"
    "\<forall>h. pending_at s h \<noteq> [] \<longrightarrow> pending_at (snd (accept_admit P (if_pending x) s)) h \<noteq> []"
proof -
  let ?p = "if_pending x" let ?h = "h_height (sc_header (pc_claim ?p))" and ?m = "claim_miner_address_hex P (pc_claim ?p)"
  let ?s = "snd (accept_admit P ?p s)"
  have c: "claim_inv P s l ?p"
    using assms(2,3) by (auto simp: flight_inv_def claim_inv_def candidate_ok_split Let_def)
  define m where "m = (if hm_has (pending_at s ?h) ?m then pending_at s ?h else hm_insert ?m ?p (pending_at s ?h))"
  then have m: "m = pending_at s ?h \<or> m = hm_insert ?m ?p (pending_at s ?h)"
    "?s = s\<lparr>ns_pending_claims := hm_insert ?h m (ns_pending_claims s)\<rparr>"
    by (simp_all add: accept_admit_def Let_def)
  show "same_tip s ?s"
    by (simp add: m(2) same_tip_def)
  have "\<forall>p \<in> set (hm_values m). p \<in> set (hm_values (pending_at s ?h)) \<or> p = ?p"
    using m(1) hm_values_insert [of ?m ?p "pending_at s ?h"] by auto
  with c show "pool_inv P ?s l"
    by (intro pool_inv_insert [OF assms(1) \<open>same_tip s ?s\<close>, of ?h m]) (auto simp: m(2))
  show "\<forall>h. pending_at s h \<noteq> [] \<longrightarrow> pending_at ?s h \<noteq> []"
    using m(1) by (auto simp: m(2)) (metis hm_get_Nil hm_get_insert option.distinct(1))
qed

lemma accept_admit_rest:
  "ns_chain_work (snd (accept_admit P p s)) = ns_chain_work s"
  "ns_nullifiers (snd (accept_admit P p s)) = ns_nullifiers s" "ns_mempool (snd (accept_admit P p s)) = ns_mempool s"
  by (simp_all add: accept_admit_def Let_def)

lemma enqueue_rest:
  "nd_ledger (snd (enqueue_transaction P J t nd)) = nd_ledger nd"
  "same_tip (nd_state nd) (nd_state (snd (enqueue_transaction P J t nd)))"
  "ns_pending_claims (nd_state (snd (enqueue_transaction P J t nd))) = ns_pending_claims (nd_state nd)"
  "ns_chain_work (nd_state (snd (enqueue_transaction P J t nd))) = ns_chain_work (nd_state nd)"
  "ns_nullifiers (nd_state (snd (enqueue_transaction P J t nd))) = ns_nullifiers (nd_state nd)"
  by (simp_all add: enqueue_transaction_def Let_def same_tip_def split: sum.splits)

lemma observe_rest:
  "same_tip s (btc_observe a s)" "ns_pending_claims (btc_observe a s) = ns_pending_claims s"
  "ns_chain_work (btc_observe a s) = ns_chain_work s" "ns_nullifiers (btc_observe a s) = ns_nullifiers s"
  "ns_mempool (btc_observe a s) = ns_mempool s"
  by (simp_all add: btc_observe_def same_tip_def)

lemma system_inv_quiet:
  assumes "system_inv M sy" "running sy" "nd_ledger nd' = nd_ledger (sy_node sy)"
    and "same_tip (nd_state (sy_node sy)) (nd_state nd')"
    and "ns_chain_work (nd_state nd') = ns_chain_work (nd_state (sy_node sy))"
    and "ns_nullifiers (nd_state nd') = ns_nullifiers (nd_state (sy_node sy))"
    and "mempool_ok (mr_prims M) (mr_serde M) nd'" "pool_inv (mr_prims M) (nd_state nd') (nd_ledger nd')"
    and "\<forall>h. pending_at (nd_state (sy_node sy)) h \<noteq> [] \<longrightarrow> pending_at (nd_state nd') h \<noteq> []"
    and "set xs \<subseteq> set (sy_inflight sy)"
  shows "system_inv M (sy\<lparr>sy_node := nd', sy_inflight := xs\<rparr>)"
  using assms node_inv_quiet [of M "sy_cursor sy" "sy_node sy" nd'] phase_inv_quiet [of M "sy_cursor sy" "sy_node sy" "sy_phase sy" nd']
  by (auto simp: system_inv_def flight_inv_cong [OF assms(4)] running_def)

lemma system_inv_parts:
  assumes "system_inv M sy" "running sy"
  shows "node_inv M (sy_cursor sy) (sy_node sy)" "phase_inv M (sy_cursor sy) (sy_node sy) (sy_phase sy)"
    "pool_inv (mr_prims M) (nd_state (sy_node sy)) (nd_ledger (sy_node sy))"
    "mempool_ok (mr_prims M) (mr_serde M) (sy_node sy)"
    "x \<in> set (sy_inflight sy) \<Longrightarrow> flight_inv (mr_prims M) (nd_state (sy_node sy)) (nd_ledger (sy_node sy)) x"
  using assms by (auto simp: system_inv_def node_inv_def Let_def)

lemma execute_flight:
  "flight_inv P s l x \<Longrightarrow>
    accept_execution P l (pc_claim (if_pending x)) (pc_transactions (if_pending x)) (if_reward x) = Inr () \<Longrightarrow>
    flight_inv P s l (x\<lparr>if_executed := True\<rparr>)"
  by (auto simp: flight_inv_def Let_def accept_execution_ok execution_ok_def)

lemma set_list_update_in: "y \<in> set (xs[i := x]) \<Longrightarrow> y = x \<or> y \<in> set xs"
  using set_update_subset_insert [of xs i x] by auto

lemma handler_step_inv:
  assumes "handler_step M sy sy'" "hex_ok (mr_prims M)" "system_inv M sy"
  shows "system_inv M sy'"
  using assms(1)
proof cases
  case (receive now claim txs ckpt reward)
  note i = system_inv_parts [OF assms(3) receive(2)]
  show ?thesis
    using i assms(3) receive(2) receive_flight [OF i(1) receive(3-5)]
    by (auto simp: receive(1) system_inv_def running_def)
next
  case (execute i x)
  note inv = system_inv_parts [OF assms(3) execute(2)]
  have "flight_inv (mr_prims M) (nd_state (sy_node sy)) (nd_ledger (sy_node sy)) (x\<lparr>if_executed := True\<rparr>)"
    using execute(3,4) by (intro execute_flight [OF inv(5) execute(5)]) simp
  then show ?thesis
    using inv assms(3) execute(2) by (auto simp: execute(1) system_inv_def running_def dest!: set_list_update_in)
next
  case (admit i x)
  note inv = system_inv_parts [OF assms(3) admit(2)]
  have "flight_inv (mr_prims M) (nd_state (sy_node sy)) (nd_ledger (sy_node sy)) x"
    using admit(3,4) inv(5) by simp
  note a = admit_pool [OF inv(3) this admit(5)]
  have "mempool_ok (mr_prims M) (mr_serde M) ((sy_node sy)\<lparr>nd_state := snd (accept_admit (mr_prims M) (if_pending x) (nd_state (sy_node sy)))\<rparr>)"
    using inv(4) mempool_ok_cong [of "sy_node sy" "(sy_node sy)\<lparr>nd_state := snd (accept_admit (mr_prims M) (if_pending x) (nd_state (sy_node sy)))\<rparr>"]
    by (simp add: accept_admit_rest)
  with a show ?thesis
    unfolding admit(1)
    by (intro system_inv_quiet [OF assms(3) admit(2)])
      (auto simp: accept_admit_rest dest: in_set_takeD in_set_dropD)
next
  case (enqueue t)
  note inv = system_inv_parts [OF assms(3) enqueue(2)]
  have "system_inv M (sy\<lparr>sy_node := snd (enqueue_transaction (mr_prims M) (mr_serde M) t (sy_node sy)), sy_inflight := sy_inflight sy\<rparr>)"
    using inv mempool_ok_enqueue [OF assms(2) inv(4), of t]
    by (intro system_inv_quiet [OF assms(3) enqueue(2)])
      (simp_all add: enqueue_rest pool_inv_cong [OF enqueue_rest(2,3)] pending_at_cong [OF enqueue_rest(3)])
  then show ?thesis by (simp add: enqueue(1))
next
  case (observe answer)
  note inv = system_inv_parts [OF assms(3) observe(2)]
  let ?nd = "(sy_node sy)\<lparr>nd_state := btc_observe answer (nd_state (sy_node sy))\<rparr>"
  have "mempool_ok (mr_prims M) (mr_serde M) ?nd"
    using inv(4) mempool_ok_cong [of "sy_node sy" ?nd] by (simp add: observe_rest)
  then have "system_inv M (sy\<lparr>sy_node := ?nd, sy_inflight := sy_inflight sy\<rparr>)"
    using inv by (intro system_inv_quiet [OF assms(3) observe(2)])
      (simp_all add: observe_rest pool_inv_cong [OF observe_rest(1,2)] pending_at_cong [OF observe_rest(2)])
  then show ?thesis by (simp add: observe(1))
qed

section \<open>The loop keeps the invariant\<close>

lemma build_candidate_time:
  "build_candidate P now miner_hex fresh cu nd = (cd, nd') \<Longrightarrow>
     cd_timestamp cd = max now (sat_add (cu_last_ts cu) 1) \<and> cd_height cd = cu_height cu + 1"
  by (auto simp: build_candidate_def Let_def case_prod_unfold)

lemma prepare_inv:
  assumes "node_inv M cu nd" "unat (cu_height cu) < 2 ^ 62" "unat now < 2 ^ 63"
    and "build_candidate (mr_prims M) now (mr_hex M) fresh cu nd = (cd, nd')"
  shows "node_inv M cu nd'" "drafted M cu (nd_ledger nd') cd" "same_tip (nd_state nd) (nd_state nd')"
    "nd_ledger nd' = nd_ledger nd"
proof -
  have tr: "tracks cu nd" and ts: "unat (cu_last_ts cu) \<le> MAX_CLOCK + unat (cu_height cu)"
    using assms(1) by (simp_all add: node_inv_def Let_def)
  note nd' = build_candidate_node [OF assms(4)]
  have l: "nd_ledger nd' = nd_ledger nd" "nd_store nd' = nd_store nd"
    by (subst nd', simp)+
  have s: "nd_state nd' = (nd_state nd)\<lparr>ns_last_observed_btc := ns_last_observed_btc (nd_state nd'),
      ns_difficulty_bits := da_current_bits (cu_adjuster cu)\<rparr>"
    by (subst nd') simp
  have rest: "ns_pending_claims (nd_state nd') = ns_pending_claims (nd_state nd)"
    "ns_mempool (nd_state nd') = ns_mempool (nd_state nd)" "ns_chain_work (nd_state nd') = ns_chain_work (nd_state nd)"
    "ns_nullifiers (nd_state nd') = ns_nullifiers (nd_state nd)"
    by (subst s, simp)+
  show st: "same_tip (nd_state nd) (nd_state nd')"
    unfolding same_tip_def using tr by (subst (1 2 3 4 5 6) s) (simp add: tracks_def Let_def)
  show "nd_ledger nd' = nd_ledger nd" by (rule l)
  have "mempool_ok (mr_prims M) (mr_serde M) nd'"
    using assms(1) mempool_ok_cong [of nd nd'] rest l by (simp add: node_inv_def Let_def)
  then show "node_inv M cu nd'"
    using assms(1) l rest
    by (intro node_inv_quiet [OF assms(1) l(1) st]) (simp_all add: pool_inv_cong [OF st] node_inv_def Let_def)
  have "unat (cu_last_ts cu) + 1 < 2 ^ 64"
    using ts assms(2) by (simp add: MAX_CLOCK_def)
  from build_candidate_fits [OF assms(4) tr this]
  have "candidate_fits (mr_prims M) (mr_hex M) cu (nd_ledger nd') cd" by (simp add: l)
  moreover have "unat (cd_timestamp cd) \<le> MAX_CLOCK + unat (cd_height cd)"
  proof -
    have "unat (cu_height cu + 1) = unat (cu_height cu) + 1"
      using assms(2) by (intro unat_next_height) simp
    moreover have "unat (sat_add (cu_last_ts cu) 1) \<le> unat (cu_last_ts cu) + 1"
      by (simp add: unat_sat_add)
    moreover have "unat (max now (sat_add (cu_last_ts cu) 1)) \<le> max (unat now) (unat (sat_add (cu_last_ts cu) 1))"
      by (simp add: max_def)
    moreover have "unat now < MAX_CLOCK"
      using assms(3) by (simp add: MAX_CLOCK_def)
    ultimately show ?thesis
      using build_candidate_time [OF assms(4)] ts by simp
  qed
  ultimately show "drafted M cu (nd_ledger nd') cd"
    using assms(2) by (simp add: drafted_def)
qed

lemma mined_inv:
  assumes "node_inv M cu nd" "drafted M cu (nd_ledger nd) cd" "claim = local_claim M q cu cd run"
    and "claim_verify (mr_prims M) claim = Inr ()"
    and "nd' = nd\<lparr>nd_state := submit_local (mr_hex M) cd claim (nd_state nd)\<rparr>"
  shows "node_inv M cu nd'" "pending_at (nd_state nd') (cd_height cd) \<noteq> []" "same_tip (nd_state nd) (nd_state nd')"
    "nd_ledger nd' = nd_ledger nd"
proof -
  let ?s = "nd_state nd" and ?P = "mr_prims M" and ?h = "cd_height cd" and ?p = "local_pending cd claim"
  define m where m_eq: "m = (if hm_has (pending_at ?s ?h) (mr_hex M) then pending_at ?s ?h else hm_insert (mr_hex M) ?p (pending_at ?s ?h))"
  have s: "nd_state nd' = ?s\<lparr>ns_pending_claims := hm_insert ?h m (ns_pending_claims ?s)\<rparr>"
    by (simp add: assms(5) submit_local_def Let_def m_eq)
  show st: "same_tip ?s (nd_state nd')" and l: "nd_ledger nd' = nd_ledger nd"
    by (simp_all add: same_tip_def assms(5) submit_local_def Let_def)
  have tr: "tracks cu nd" and h: "unat (cu_height cu) < 2 ^ 62" "candidate_fits ?P (mr_hex M) cu (nd_ledger nd) cd"
    "unat (cd_timestamp cd) \<le> MAX_CLOCK + unat ?h"
    using assms(1,2) by (simp_all add: node_inv_def drafted_def Let_def)
  have header: "sc_header claim = mined_header (candidate_job ?P (keypair_address ?P (mr_keypair M)) (mr_threads M) cu cd) run"
    by (simp add: assms(3) local_claim_def claim_sign_def Let_def)
  then have f: "h_height (sc_header (pc_claim ?p)) = ?h" "h_timestamp (sc_header (pc_claim ?p)) = cd_timestamp cd"
    by (simp_all add: local_pending_def mined_header_fields candidate_job_def mining_template_def)
  have "candidate_ok ?P ?s (nd_ledger nd) ?p"
    using h(2) by (intro local_candidate_ok [OF _ tr header assms(4)]) (simp add: mr_hex_def)
  moreover have "unat (cu_height cu + 1) = unat (cu_height cu) + 1"
    using h(1) by (intro unat_next_height) simp
  moreover have "?h = cu_height cu + 1" "ns_chain_height ?s = cu_height cu"
    using h(2) tr by (simp_all add: candidate_fits_def tracks_def Let_def)
  ultimately have "claim_inv ?P ?s (nd_ledger nd) ?p"
    using h(3) by (simp add: claim_inv_def within_bounds_def f)
  moreover have "\<forall>p \<in> set (hm_values m). p \<in> set (hm_values (pending_at ?s ?h)) \<or> p = ?p"
    using hm_values_insert [of "mr_hex M" ?p "pending_at ?s ?h"] by (auto simp: m_eq)
  ultimately have m: "\<forall>p \<in> set (hm_values m). p \<in> set (hm_values (pending_at ?s ?h))
      \<or> h_height (sc_header (pc_claim p)) = ?h \<and> claim_inv ?P ?s (nd_ledger nd) p"
    using f(1) by blast
  have "pool_inv ?P ?s (nd_ledger nd)"
    using assms(1) by (simp add: node_inv_def Let_def)
  then have "pool_inv ?P (nd_state nd') (nd_ledger nd)"
    by (rule pool_inv_insert [OF _ st _ m]) (simp add: s)
  moreover have "mempool_ok ?P (mr_serde M) nd'"
    using assms(1) mempool_ok_cong [of nd nd'] by (simp add: node_inv_def Let_def s assms(5) submit_local_def)
  ultimately show "node_inv M cu nd'"
    by (intro node_inv_quiet [OF assms(1) l st]) (simp_all add: s)
  have "hm_has m (mr_hex M)"
    by (simp add: m_eq hm_has_def)
  then show "pending_at (nd_state nd') ?h \<noteq> []"
    by (auto simp: s hm_has_def)
qed

lemma hm_get_filter_key: "hm_get (filter (\<lambda>(h, _). Q h) m) k = (if Q k then hm_get m k else None)"
  by (induction m) auto

lemma pending_at_elect: "pending_at (snd (elect P h s)) k = (if k > h then pending_at s k else [])"
  by (simp add: elect_def Let_def pending_at_def retain_above_def hm_get_or_def hm_get_filter_key)

lemma elect_rest:
  "same_tip s (snd (elect P h s))" "ns_chain_work (snd (elect P h s)) = ns_chain_work s"
  "ns_nullifiers (snd (elect P h s)) = ns_nullifiers s" "ns_mempool (snd (elect P h s)) = ns_mempool s"
  by (simp_all add: elect_def Let_def same_tip_def)

lemma elect_member:
  "fst (elect P h s) = Inr w \<Longrightarrow> w \<in> set (hm_values (pending_at s h))"
  using pending.select_best_SomeD [of P "hm_values (pending_at s h)" w]
  by (auto simp: elect_def Let_def select_winning_pending_def split: option.splits)

lemma elect_some: "pending_at s h \<noteq> [] \<Longrightarrow> \<exists>w. fst (elect P h s) = Inr w"
  using pending.select_best_None [of P "hm_values (pending_at s h)"]
  by (auto simp: elect_def Let_def select_winning_pending_def hm_values_def split: option.splits)

lemma elect_inv:
  assumes "node_inv M cu nd" "elect (mr_prims M) h (nd_state nd) = (r, s')"
  shows "node_inv M cu (nd\<lparr>nd_state := s'\<rparr>)" "same_tip (nd_state nd) s'"
    "r = Inr w \<Longrightarrow> h_height (sc_header (pc_claim w)) = h \<and> claim_inv (mr_prims M) s' (nd_ledger nd) w"
proof -
  let ?P = "mr_prims M" and ?s = "nd_state nd"
  have s': "s' = snd (elect ?P h ?s)" and r: "r = fst (elect ?P h ?s)"
    using assms(2) by simp_all
  show st: "same_tip ?s s'" by (simp add: s' elect_rest)
  have pool: "pool_inv ?P ?s (nd_ledger nd)"
    using assms(1) by (simp add: node_inv_def Let_def)
  then have "pool_inv ?P s' (nd_ledger nd)"
    by (auto simp: pool_inv_def claim_inv_cong [OF st]) (auto simp: s' pending_at_elect hm_values_def split: if_splits)
  moreover have "mempool_ok ?P (mr_serde M) (nd\<lparr>nd_state := s'\<rparr>)"
    using assms(1) mempool_ok_cong [of nd "nd\<lparr>nd_state := s'\<rparr>"] by (simp add: node_inv_def Let_def s' elect_rest)
  ultimately show "node_inv M cu (nd\<lparr>nd_state := s'\<rparr>)"
    using st by (intro node_inv_quiet [OF assms(1)]) (simp_all add: s' elect_rest)
  show "r = Inr w \<Longrightarrow> h_height (sc_header (pc_claim w)) = h \<and> claim_inv ?P s' (nd_ledger nd) w"
    using elect_member [of ?P h ?s w] pool unfolding r pool_inv_def claim_inv_cong [OF st] by blast
qed

lemma mempool_ok_confirm:
  assumes "hex_ok P" "mempool_ok P J nd"
  shows "mempool_ok P J (nd\<lparr>nd_state := drop_confirmed P txs (nd_state nd),
    nd_store := fold (\<lambda>t. mempool_remove P (stx_tx_id P t)) txs (nd_store nd)\<rparr>)"
  using assms(2)
proof (induction txs arbitrary: nd)
  case (Cons t txs)
  from Cons.IH [OF mempool_ok_remove [OF assms(1) Cons.prems, of "stx_tx_id P t"]] show ?case
    by (simp add: drop_confirmed_def)
qed (simp add: drop_confirmed_def)

lemma commit_mempool:
  assumes "hex_ok P" "mempool_ok P J nd"
  shows "mempool_ok P J (fst (snd (snd (commit P J K lio fio secs cd result lh w (cu, nd, rf)))))"
  using mempool_ok_confirm [OF assms, of "pc_transactions w"]
    mempool_ok_cong [of "fst (snd (snd (commit P J K lio fio secs cd result lh w (cu, nd, rf))))"
      "nd\<lparr>nd_state := drop_confirmed P (pc_transactions w) (nd_state nd),
         nd_store := fold (\<lambda>t. mempool_remove P (stx_tx_id P t)) (pc_transactions w) (nd_store nd)\<rparr>" P J]
  by (simp add: commit_def commit_state_def Let_def case_prod_unfold insert_block_def split: sum.splits option.splits)

lemma commit_time:
  "cu_last_ts (commit_cursor P h w cu) = h_timestamp (sc_header (pc_claim w))" "cu_height (commit_cursor P h w cu) = h"
  by (simp_all add: commit_cursor_def Let_def)

lemma next_bounds:
  assumes "unat (cu_height cu) < 2 ^ 62" "ns_chain_height s = cu_height cu" "ns_chain_height s' = cu_height cu + 1"
    and "within_bounds s header"
  shows "within_bounds s' header" "h_height header \<noteq> ns_chain_height s' + 1"
proof -
  have u: "unat (cu_height cu + 1) = unat (cu_height cu) + 1" "unat (cu_height cu + 1 + 1) = unat (cu_height cu) + 2"
    using assms(1) unat_next_height [of "cu_height cu"] unat_next_height [of "cu_height cu + 1"] by simp_all
  then show "within_bounds s' header"
    using assms(2-4) by (simp add: within_bounds_def)
  show "h_height header \<noteq> ns_chain_height s' + 1"
    using assms(2-4) u by (auto simp: within_bounds_def)
qed

lemma elected_facts:
  assumes "phase_inv M cu nd (Elected cd lh result w)" "node_inv M cu nd"
  shows "candidate_ok (mr_prims M) (nd_state nd) (nd_ledger nd) w" "cd_height cd = cu_height cu + 1"
    "cd_reward cd = block_reward (cd_height cd) (lg_total_mined (nd_ledger nd))"
    "h_height (sc_header (pc_claim w)) = cd_height cd" "unat (cu_height cu) < 2 ^ 62"
    "unat (h_timestamp (sc_header (pc_claim w))) \<le> MAX_CLOCK + unat (cd_height cd)"
proof -
  show "cd_height cd = cu_height cu + 1" "cd_reward cd = block_reward (cd_height cd) (lg_total_mined (nd_ledger nd))"
    "h_height (sc_header (pc_claim w)) = cd_height cd" "unat (cu_height cu) < 2 ^ 62"
    using assms(1) by (simp_all add: drafted_def candidate_fits_def)
  then show "candidate_ok (mr_prims M) (nd_state nd) (nd_ledger nd) w"
    "unat (h_timestamp (sc_header (pc_claim w))) \<le> MAX_CLOCK + unat (cd_height cd)"
    using assms(1) node_inv_height [OF assms(2)] by (auto simp: claim_inv_def within_bounds_def)
qed

lemma spent_inv_commit:
  assumes "spent_inv P h spent" "unat h < 2 ^ 62"
    and "set spent' = insert (ro_nullifier (claim_randomness P (h + 1) c)) (set spent)"
  shows "spent_inv P (h + 1) spent'"
proof -
  have le: "h \<le> h + 1"
    using assms(2) unat_next_height [of h] by (simp add: word_le_nat_alt)
  obtain out where new: "ro_nullifier (claim_randomness P (h + 1) c) = blake3 P (nullifier_preimage (h + 1) out)"
    by (auto simp: claim_randomness_def randomness_from_block_def Let_def)
  have "\<exists>ha out. ha \<le> h + 1 \<and> n = blake3 P (nullifier_preimage ha out)" if n: "n \<in> set spent'" for n
  proof (cases "n \<in> set spent")
    case True
    then obtain ha out' where ha: "ha \<le> h" and n': "n = blake3 P (nullifier_preimage ha out')"
      using assms(1) unfolding spent_inv_def by blast
    have "ha \<le> h + 1" by (rule order.trans [OF ha le])
    with n' show ?thesis by blast
  next
    case False
    with n assms(3) new show ?thesis by auto
  qed
  then show ?thesis
    unfolding spent_inv_def by blast
qed

lemma commit_inv:
  assumes "hex_ok (mr_prims M)" "node_inv M cu nd" "phase_inv M cu nd (Elected cd lh result w)"
    and "commit (mr_prims M) (mr_serde M) (mr_codec M) True fio secs cd result lh w (cu, nd, rf) = (Inr (), cu', nd', rf')"
  shows "node_inv M cu' nd'"
    "flight_inv (mr_prims M) (nd_state nd) (nd_ledger nd) x \<Longrightarrow> flight_inv (mr_prims M) (nd_state nd') (nd_ledger nd') x"
proof -
  let ?P = "mr_prims M" and ?s = "nd_state nd" and ?s' = "nd_state nd'"
  note e = elected_facts [OF assms(3,2)]
  have tr: "tracks cu' nd'" by (rule commit_tracks [OF assms(4)])
  have cu': "cu' = commit_cursor ?P (cd_height cd) w cu"
    using commit_cursor_of [of ?P "mr_serde M" "mr_codec M" True fio secs cd result lh w cu nd rf] assms(4) by simp
  have l': "nd_ledger nd' = ledger_apply_block ?P True (cd_height cd) (pc_transactions w) (claim_miner_address_hex ?P (pc_claim w))
      (cd_reward cd) (h_timestamp (sc_header (pc_claim w)) div 1000) (nd_ledger nd)"
    using commit_ledger [of ?P "mr_serde M" "mr_codec M" True fio secs cd result lh w cu nd rf] assms(4) by simp
  have pending: "ns_pending_claims ?s' = ns_pending_claims ?s"
    using commit_pending [of ?P "mr_serde M" "mr_codec M" True fio secs cd result lh w cu nd rf] assms(4) by simp
  have spent: "set (ns_nullifiers ?s') = insert (ro_nullifier (claim_randomness ?P (cu_height cu + 1) (pc_claim w))) (set (ns_nullifiers ?s))"
    using commit_nullifiers [of ?P "mr_serde M" "mr_codec M" True fio secs cd result lh w cu nd rf] assms(4) e(2) by simp
  have h: "cu_height cu' = cu_height cu + 1" "ns_chain_height ?s' = cu_height cu + 1" "ns_chain_height ?s = cu_height cu"
    using tr assms(2) e(2) by (simp_all add: cu' commit_time tracks_def node_inv_def Let_def)
  have u: "unat (cu_height cu + 1) = unat (cu_height cu) + 1"
    using e(5) by (intro unat_next_height) simp
  note nb = next_bounds [OF e(5) h(3,2)]
  show "flight_inv ?P ?s (nd_ledger nd) x \<Longrightarrow> flight_inv ?P ?s' (nd_ledger nd') x"
    using nb by (auto simp: flight_inv_def Let_def)
  have pool: "pool_inv ?P ?s (nd_ledger nd)"
    and ok: "supply_ok (nd_ledger nd)" "mempool_ok ?P (mr_serde M) nd" "spent_inv ?P (cu_height cu) (ns_nullifiers ?s)"
    using assms(2) by (simp_all add: node_inv_def Let_def)
  then have "pool_inv ?P ?s' (nd_ledger nd')"
    using nb by (auto simp: pool_inv_def claim_inv_def pending_at_cong [OF pending])
  moreover have "supply_ok (nd_ledger nd')"
    unfolding l' e(3) by (rule ledger_apply_supply [OF ok(1)])
  moreover have "mempool_ok ?P (mr_serde M) nd'"
    using commit_mempool [OF assms(1) ok(2), of "mr_codec M" True fio secs cd result lh w cu rf] assms(4) by simp
  moreover have "spent_inv ?P (cu_height cu') (ns_nullifiers ?s')"
    unfolding h(1) by (rule spent_inv_commit [OF ok(3) e(5) spent])
  moreover have "unat (cu_last_ts cu') \<le> MAX_CLOCK + unat (cu_height cu')"
    using e(2,6) by (simp add: cu' commit_time)
  moreover have "unat (cu_height cu') \<le> 2 ^ 62"
    using u e(5) h(1) by simp
  ultimately show "node_inv M cu' nd'"
    using tr by (simp add: node_inv_def Let_def)
qed

lemma commit_crash:
  assumes "node_inv M cu nd" "cd_height cd = cu_height cu + 1" "unat (cu_height cu) < 2 ^ 62"
    and "commit (mr_prims M) J K lio fio secs cd result lh w (cu, nd, rf) = (Inl p, cu', nd', rf')"
  shows "p = PanicNullifier \<and> nullifier_collision (mr_prims M)"
proof -
  let ?P = "mr_prims M" and ?n = "ro_nullifier (claim_randomness (mr_prims M) (cu_height cu + 1) (pc_claim w))"
  have p: "p = PanicNullifier" "?n \<in> set (ns_nullifiers (nd_state nd))"
    using commit_result [of ?P J K lio fio secs cd result lh w cu nd rf] assms(2,4) by (auto split: if_splits)
  obtain out where n: "?n = blake3 ?P (nullifier_preimage (cu_height cu + 1) out)"
    by (auto simp: claim_randomness_def randomness_from_block_def Let_def)
  obtain h out' where h: "h \<le> cu_height cu" "?n = blake3 ?P (nullifier_preimage h out')"
    using p(2) assms(1) by (auto simp: node_inv_def spent_inv_def Let_def)
  then have "h \<noteq> cu_height cu + 1"
    using unat_next_height [of "cu_height cu"] assms(3) by (auto simp: word_le_nat_alt)
  with n h(2) p(1) show ?thesis
    unfolding nullifier_collision_def by metis
qed

lemma loop_step_inv:
  assumes "loop_step M sy sy'" "hex_ok (mr_prims M)" "system_inv M sy"
  shows "system_inv M sy'"
  using assms(1)
proof cases
  case (prepare now answers observed fresh cd nd')
  have run: "running sy" by (simp add: running_def prepare(2))
  note inv = system_inv_parts [OF assms(3) run]
  note p = prepare_inv [OF inv(1) prepare(3,4,6)]
  show ?thesis
    using p inv(5) by (auto simp: prepare(1) system_inv_def running_def flight_inv_cong [OF p(3)])
next
  case (mined cd k rn claim q result)
  have run: "running sy" by (simp add: running_def mined(2))
  note inv = system_inv_parts [OF assms(3) run]
  let ?nd = "(sy_node sy)\<lparr>nd_state := submit_local (mr_hex M) cd claim (nd_state (sy_node sy))\<rparr>"
  have d: "drafted M (sy_cursor sy) (nd_ledger (sy_node sy)) cd"
    using inv(2) by (simp add: mined(2))
  note m = mined_inv [OF inv(1) d mined(5,6) refl]
  show ?thesis
    using m d inv(5) by (simp add: mined(1) system_inv_def running_def) (simp add: flight_inv_cong [OF m(3), simplified])
next
  case (unverified cd k rn q e)
  then show ?thesis by (simp add: system_inv_def running_def)
next
  case (elected cd lh result w s')
  have run: "running sy" by (simp add: running_def elected(2))
  note inv = system_inv_parts [OF assms(3) run]
  note e = elect_inv [OF inv(1) elected(3)]
  show ?thesis
    using e(1) e(3) [OF refl] inv(2,5)
    by (auto simp: elected(1,2) system_inv_def running_def flight_inv_cong [OF e(2)])
next
  case (no_claim cd lh result p s')
  have run: "running sy" by (simp add: running_def no_claim(2))
  have "pending_at (nd_state (sy_node sy)) (cd_height cd) \<noteq> []"
    using system_inv_parts(2) [OF assms(3) run] by (simp add: no_claim(2))
  from elect_some [OF this, of "mr_prims M"] no_claim(3) show ?thesis by simp
next
  case (committed cd lh result w fio secs cu' nd' rf')
  have run: "running sy" by (simp add: running_def committed(2))
  note inv = system_inv_parts [OF assms(3) run]
  have ph: "phase_inv M (sy_cursor sy) (sy_node sy) (Elected cd lh result w)"
    using inv(2) by (simp only: committed(2))
  show ?thesis
    using commit_inv [OF assms(2) inv(1) ph committed(3)] inv(5)
    by (simp add: committed(1) system_inv_def)
next
  case (collision cd lh result w fio secs p cu' nd' rf')
  have run: "running sy" by (simp add: running_def collision(2))
  note inv = system_inv_parts [OF assms(3) run]
  have "phase_inv M (sy_cursor sy) (sy_node sy) (Elected cd lh result w)"
    using inv(2) by (simp only: collision(2))
  from commit_crash [OF inv(1) elected_facts(2,5) [OF this inv(1)] collision(3)] show ?thesis
    by (simp add: collision(1) system_inv_def running_def)
qed

text \<open>A node between two passes with no claims pending, such as one that has just started.\<close>

definition fresh_system :: "miner \<Rightarrow> system \<Rightarrow> bool" where
  "fresh_system M sy \<longleftrightarrow>
     sy_phase sy = Idle \<and> sy_inflight sy = [] \<and> ns_pending_claims (nd_state (sy_node sy)) = []
     \<and> tracks (sy_cursor sy) (sy_node sy) \<and> unat (cu_height (sy_cursor sy)) \<le> 2 ^ 62
     \<and> unat (cu_last_ts (sy_cursor sy)) \<le> 2 ^ 63
     \<and> supply_ok (nd_ledger (sy_node sy)) \<and> mempool_ok (mr_prims M) (mr_serde M) (sy_node sy)
     \<and> spent_inv (mr_prims M) (cu_height (sy_cursor sy)) (ns_nullifiers (nd_state (sy_node sy)))"

lemma fresh_inv: "fresh_system M sy \<Longrightarrow> system_inv M sy"
  by (simp add: fresh_system_def system_inv_def node_inv_def Let_def pool_inv_def pending_at_def hm_values_def MAX_CLOCK_def)

lemma reach_inv:
  assumes "node_reach M sy sy'" "hex_ok (mr_prims M)" "fresh_system M sy"
  shows "system_inv M sy'"
  using assms
  by (induction rule: node_reach.induct) (auto intro: fresh_inv loop_step_inv handler_step_inv)

section \<open>What the loop can rely on\<close>

lemma mined_header_nonce:
  assumes "mine_reachable j k run" "all_joined run" "0 < mj_threads j"
  shows "meets_difficulty (header_hash (mj_prims j) (mined_header j run)) (h_difficulty_bits (mined_header j run))"
proof -
  obtain n where n: "mn_winner run = Some n"
    using all_joined_winner [OF assms] by blast
  then have "nonce_wins j n"
    using mine_reachable_invs(1) [OF assms(1)] by (simp add: winner_inv_def)
  with n show ?thesis by (simp add: nonce_wins_def mined_header_def)
qed

text \<open>A miner whose key was generated from a seed and that mines with some thread.\<close>

definition honest :: "miner \<Rightarrow> bool" where
  "honest M \<longleftrightarrow> sig_ok (mr_prims M) \<and> 0 < mr_threads M
     \<and> (\<exists>seed r. length seed = 32 \<and> mr_keypair M = keypair_generate (mr_prims M) seed r)"

lemma local_claim_verifies:
  assumes "honest M" "all_joined run"
    and "mine_reachable (candidate_job (mr_prims M) (keypair_address (mr_prims M) (mr_keypair M)) (mr_threads M) cu cd) k run"
  shows "claim_verify (mr_prims M) (local_claim M q cu cd run) = Inr ()"
proof -
  let ?j = "candidate_job (mr_prims M) (keypair_address (mr_prims M) (mr_keypair M)) (mr_threads M) cu cd"
  obtain seed r where k: "length seed = 32" "mr_keypair M = keypair_generate (mr_prims M) seed r" "sig_ok (mr_prims M)"
    using assms(1) by (auto simp: honest_def)
  have "meets_difficulty (header_hash (mr_prims M) (mined_header ?j run)) (h_difficulty_bits (mined_header ?j run))"
    using mined_header_nonce [OF assms(3,2)] assms(1) by (simp add: honest_def candidate_job_def)
  moreover have "h_miner_address (mined_header ?j run) = wpk_address (mr_prims M) (kp_public (keypair_generate (mr_prims M) seed r))"
    by (simp add: mined_header_fields candidate_job_def mining_template_def keypair_address_def k(2))
  ultimately show ?thesis
    unfolding local_claim_def k(2) by (intro claim_sign_verifies [OF k(3,1)]) (simp_all only: k(2))
qed

lemma no_local_panic:
  assumes "node_reach M sy sy'" "honest M" "fresh_system M sy"
  shows "sy_phase sy' \<noteq> Crashed (PanicLocalClaim e)"
  using assms
proof (induction rule: node_reach.induct)
  case begin_run
  then show ?case by (simp add: fresh_system_def)
next
  case (loop sy sy' sy'')
  from loop.hyps(2) show ?case
  proof cases
    case (unverified cd k run q e')
    with local_claim_verifies [OF loop.prems(1) unverified(4,3)] show ?thesis by simp
  next
    case (no_claim cd lh result p s')
    then show ?thesis by (auto simp: elect_def Let_def split: option.splits)
  next
    case (collision cd lh result w fio secs p cu' nd' rf')
    then show ?thesis
      using commit_result [of "mr_prims M" "mr_serde M" "mr_codec M" True fio secs cd result lh w "sy_cursor sy'" "sy_node sy'" "sy_file sy'"]
      by (auto split: if_splits)
  qed simp_all
next
  case (handler sy sy' sy'')
  from handler.hyps(2) show ?case
    by cases (use handler.IH handler.prems in simp_all)
qed

section \<open>Properties\<close>




section \<open>A sample run\<close>

lemma easy_steps:
  assumes "fresh_system M sy" "hex_ok (mr_prims M)" "honest M" "mr_threads M = 1"
    and "unat (cu_height (sy_cursor sy)) < 2 ^ 62" "\<not> is_checkpoint_height (cu_height (sy_cursor sy) + 1)"
    and "da_current_bits (cu_adjuster (sy_cursor sy)) = 0" "unat now < 2 ^ 63"
  obtains sy1 sy2 sy3 cd lh result run where "loop_step M sy sy1" "sy_phase sy1 = Searching cd"
    "loop_step M sy1 sy2" "sy_phase sy2 = Waiting cd lh result"
    "loop_step M sy2 sy3" "sy_phase sy3 = Elected cd lh result (local_pending cd (local_claim M 0 (sy_cursor sy) cd run))"
    "sy_cursor sy3 = sy_cursor sy" "nd_ledger (sy_node sy3) = nd_ledger (sy_node sy)"
    "nd_store (sy_node sy3) = nd_store (sy_node sy)"
    "ns_nullifiers (nd_state (sy_node sy3)) = ns_nullifiers (nd_state (sy_node sy))"
    "ns_genesis_hash (nd_state (sy_node sy3)) = ns_genesis_hash (nd_state (sy_node sy))"
    "ns_pending_claims (nd_state (sy_node sy3)) = []" "sy_inflight sy3 = []"
    "cd_timestamp cd = max now (sat_add (cu_last_ts (sy_cursor sy)) 1)"
proof -
  let ?P = "mr_prims M" and ?cu = "sy_cursor sy"
  obtain cd nd' where b: "build_candidate ?P now (mr_hex M) btc_state_mock ?cu (sy_node sy) = (cd, nd')"
    by fastforce
  note nd' = build_candidate_node [OF b]
  have rest: "ns_pending_claims (nd_state nd') = []" "nd_ledger nd' = nd_ledger (sy_node sy)" "nd_store nd' = nd_store (sy_node sy)"
    "ns_nullifiers (nd_state nd') = ns_nullifiers (nd_state (sy_node sy))"
    "ns_genesis_hash (nd_state nd') = ns_genesis_hash (nd_state (sy_node sy))"
    using assms(1) by (subst nd', simp add: fresh_system_def)+
  define sy1 where "sy1 = sy\<lparr>sy_node := nd', sy_phase := Searching cd\<rparr>"
  have s1: "loop_step M sy sy1"
    unfolding sy1_def using assms(1,5,6,8) b by (intro loop_step.prepare [of sy now]) (simp_all add: fresh_system_def)
  let ?j = "candidate_job ?P (keypair_address ?P (mr_keypair M)) (mr_threads M) ?cu cd"
  let ?run = "sample_mined Done 0 True (Some 0) 1"
  let ?claim = "local_claim M 0 ?cu cd ?run" let ?lh = "claim_block_hash ?P ?claim"
  have bits: "cd_bits cd = 0" and ts: "cd_timestamp cd = max now (sat_add (cu_last_ts ?cu) 1)"
    using b assms(7) by (auto simp: build_candidate_def Let_def case_prod_unfold)
  have "mine_reachable ?j 1 ?run"
    using assms(4) by (intro easy_run) (simp_all add: nonce_wins_def candidate_job_def mining_template_def bits meets_difficulty_def)
  moreover have joined: "all_joined ?run"
    by (simp add: all_joined_def sample_mined_def)
  ultimately have run: "mine_reachable (candidate_job ?P (keypair_address ?P (mr_keypair M)) (mr_threads M) (sy_cursor sy1) cd) 1 ?run"
    by (simp add: sy1_def)
  define sy2 where "sy2 = sy1\<lparr>sy_node := (sy_node sy1)\<lparr>nd_state := submit_local (mr_hex M) cd ?claim (nd_state (sy_node sy1))\<rparr>,
      sy_phase := Waiting cd ?lh sample_result\<rparr>"
  have cu1: "sy_cursor sy1 = ?cu" and ph1: "sy_phase sy1 = Searching cd" by (simp_all add: sy1_def)
  have s2: "loop_step M sy1 sy2"
    unfolding sy2_def
    using loop_step.mined [OF ph1 run joined refl local_claim_verifies [OF assms(3) joined run]] unfolding cu1 .
  have "pending_at (nd_state (sy_node sy2)) (cd_height cd) = [(mr_hex M, local_pending cd ?claim)]"
    using rest(1) by (simp add: sy2_def sy1_def submit_local_def Let_def pending_at_def hm_has_def) (simp add: hm_insert_def)
  then have w: "elect ?P (cd_height cd) (nd_state (sy_node sy2))
      = (Inr (local_pending cd ?claim), snd (elect ?P (cd_height cd) (nd_state (sy_node sy2))))"
    by (simp add: elect_def Let_def select_winning_pending_def hm_values_def)
  have ph2: "sy_phase sy2 = Waiting cd ?lh sample_result"
    by (simp add: sy2_def)
  note s3 = loop_step.elected [OF ph2 w]
  have fl: "sy_inflight sy = []" using assms(1) by (simp add: fresh_system_def)
  show ?thesis
    by (rule that [OF s1 ph1 s2 ph2 s3])
      (simp_all add: sy2_def sy1_def rest elect_rest submit_local_def Let_def ts fl,
        simp_all add: elect_def Let_def rest retain_above_def hm_remove_def hm_insert_def)
qed

lemma easy_pass:
  assumes "fresh_system M sy" "hex_ok (mr_prims M)" "honest M" "mr_threads M = 1"
    and "unat (cu_height (sy_cursor sy)) < 2 ^ 62" "\<not> is_checkpoint_height (cu_height (sy_cursor sy) + 1)"
    and "da_current_bits (cu_adjuster (sy_cursor sy)) = 0"
  shows "\<exists>cd lh result w sy'. node_reach M sy sy' \<and> sy_phase sy' = Elected cd lh result w
    \<and> nd_ledger (sy_node sy') = nd_ledger (sy_node sy)"
  by (rule easy_steps [OF assms, of 0]) (simp, metis node_reach.begin_run node_reach.loop)

definition sample_mr :: miner where
  "sample_mr = \<lparr>mr_prims = sample_prims, mr_serde = sample_serde, mr_codec = sample_codec, mr_keypair = sample_miner,
     mr_threads = 1\<rparr>"

definition sample_system :: system where
  "sample_system = \<lparr>sy_cursor = sample_tip, sy_node = sample_node, sy_file = None, sy_phase = Idle, sy_inflight = []\<rparr>"

lemma sample_fresh: "fresh_system sample_mr sample_system"
proof -
  have "supply_ok (nd_ledger sample_node)"
    using sample_ledger_ok(2) by (simp add: sample_node_def)
  then show ?thesis
    using sample_tracks sample_node_mempool
    by (simp add: fresh_system_def sample_system_def sample_mr_def spent_inv_def)
      (simp add: sample_node_def sample_state_def initial_state_def sample_tip_def)
qed

lemma sample_mr_ok: "hex_ok (mr_prims sample_mr)" "honest sample_mr"
proof -
  have "sample_miner = keypair_generate sample_prims (zeros 32) 0" by (simp add: sample_miner_def)
  then show "honest sample_mr"
    unfolding honest_def sample_mr_def by (auto simp: sample_sig_ok intro!: exI [of _ "zeros 32"])
qed (simp add: sample_mr_def sample_hex_ok)

lemma sample_elected:
  "\<exists>cd lh result w sy. node_reach sample_mr sample_system sy \<and> sy_phase sy = Elected cd lh result w
    \<and> nd_ledger (sy_node sy) = sample_ledger"
  using easy_pass [OF sample_fresh sample_mr_ok]
  by (simp add: sample_mr_def sample_system_def sample_node_def) (simp add: sample_tip_def)




end
