(* ===== verification/Startup.thy ===== *)
theory Startup
  imports Node_System Ledger_Csv
begin

text \<open>
  The first part of \<^verbatim>\<open>mining_loop\<close> (\<^verbatim>\<open>node/src/main.rs\<close>): what a node rebuilds from the resume file,
  the ledger file and the block store before its first pass. The property is that it reaches a state
  from which the runs of \<open>Node_System\<close> start. The catch-up with peers that follows is
  \<open>catch_up_from_peers\<close>.
\<close>

section \<open>Rebuilding the state\<close>

fun reload_nullifiers :: "prims \<Rightarrow> string list \<Rightarrow> nullifier_set \<Rightarrow> panic + nullifier_set" where
  "reload_nullifiers P [] spent = Inr spent"
| "reload_nullifiers P (n_hex # ns) spent =
     res_bind (node_hex_to_32 P ''store.blocks.nullifier'' n_hex) (\<lambda>n.
       reload_nullifiers P ns (snd (nullifiers_mark_spent n spent)))"

definition still_valid :: "prims \<Rightarrow> ledger \<Rightarrow> signed_transaction \<Rightarrow> bool" where
  "still_valid P l t \<longleftrightarrow>
     (let from_addr = stx_from_hex P t in
      is_ok (stx_verify P t) \<and> tx_nonce (stx_tx t) = ledger_nonce l from_addr
      \<and> (case checked_add (tx_amount (stx_tx t)) (tx_fee (stx_tx t)) of
           None \<Rightarrow> False | Some need \<Rightarrow> ledger_balance l from_addr \<ge> need))"

definition reload_tx :: "prims \<Rightarrow> ledger \<Rightarrow> signed_transaction \<Rightarrow> (bytes, signed_transaction) hmap \<times> block_store
    \<Rightarrow> (bytes, signed_transaction) hmap \<times> block_store" where
  "reload_tx P l t = (\<lambda>(pool, store).
     if still_valid P l t then (hm_insert (stx_tx_id P t) t pool, store)
     else (pool, mempool_remove P (stx_tx_id P t) store))"

definition reload_mempool :: "prims \<Rightarrow> serde \<Rightarrow> ledger \<Rightarrow> (bytes, signed_transaction) hmap \<times> block_store
    \<Rightarrow> (bytes, signed_transaction) hmap \<times> block_store" where
  "reload_mempool P J l = (\<lambda>(pool, store).
     let (pending_txs, store') = mempool_load J store in fold (reload_tx P l) pending_txs (pool, store'))"

definition started_state :: "loaded_state \<Rightarrow> string \<Rightarrow> u64 \<Rightarrow> cursor \<Rightarrow> btc_entropy_state \<Rightarrow> node_state \<Rightarrow> node_state" where
  "started_state loaded miner_hex persisted_total cu observed s =
     s\<lparr>ns_genesis_hash := lc_genesis_hash loaded, ns_tip_hash := lc_tip_hash loaded,
       ns_chain_height := lc_height loaded, ns_miner_address := miner_hex,
       ns_total_mined_bina := persisted_total,
       ns_current_reward := block_reward (lc_height loaded + 1) persisted_total,
       ns_difficulty_bits := rs_difficulty_bits (lc_resume loaded), ns_btc_seed_hash := cu_btc_seed cu,
       ns_btc_checkpoint_tip_height := cu_ckpt_tip cu,
       ns_last_block_timestamp_ms := rs_last_block_timestamp_ms (lc_resume loaded),
       ns_chain_work := cu_work cu, ns_last_observed_btc := observed\<rparr>"

definition start_from :: "prims \<Rightarrow> serde \<Rightarrow> bool \<Rightarrow> string list option \<Rightarrow> btc_entropy_state option \<Rightarrow> string
    \<Rightarrow> loaded_state \<Rightarrow> node \<Rightarrow> panic + cursor \<times> node" where
  "start_from P J ledger_io ledger_file answer miner_hex loaded nd =
     (case ledger_open_scoped ledger_io ledger_file (lc_height loaded) of
        Inl e \<Rightarrow> Inl (PanicLedger e)
      | Inr l \<Rightarrow>
          res_bind (restore_cursor P (nd_store nd) loaded) (\<lambda>cu.
          res_bind (reload_nullifiers P (all_nullifiers (nd_store nd)) (ns_nullifiers (nd_state nd))) (\<lambda>spent.
            let (pool, store) = reload_mempool P J l (ns_mempool (nd_state nd), nd_store nd);
                s = (nd_state nd)\<lparr>ns_nullifiers := spent, ns_mempool := pool\<rparr> in
            Inr (cu, \<lparr>nd_state = started_state loaded miner_hex (lg_total_mined l) cu (fetch_btc answer None) s,
                      nd_ledger = l, nd_store = store\<rparr>))))"

definition start_node :: "prims \<Rightarrow> serde \<Rightarrow> chain_codec \<Rightarrow> bool \<Rightarrow> u64 \<Rightarrow> string option \<Rightarrow> bool \<Rightarrow> string list option
    \<Rightarrow> btc_entropy_state option \<Rightarrow> string \<Rightarrow> node \<Rightarrow> (panic + cursor \<times> node) \<times> string option" where
  "start_node P J K file_io now_secs chain_text ledger_io ledger_file answer miner_hex nd =
     (let genesis = genesis_header P;
          (r, chain_text') = load_or_create_chain_state P K file_io now_secs (header_hash P genesis) (h_timestamp genesis) chain_text in
      (res_bind r (\<lambda>loaded. start_from P J ledger_io ledger_file answer miner_hex loaded nd), chain_text'))"

section \<open>Lemmas\<close>

lemma still_valid_transfer: "still_valid P l t \<longleftrightarrow> transfer_ok P t l"
proof (cases "checked_add (tx_amount (stx_tx t)) (tx_fee (stx_tx t))")
  case None
  then have "\<not> transfer_ok P t l"
    using amount_fee_fits(1) [of "tx_amount (stx_tx t)" "tx_fee (stx_tx t)"] by (auto simp: transfer_ok_def)
  with None show ?thesis by (simp add: still_valid_def Let_def)
next
  case (Some d)
  then have "unat d = unat (tx_amount (stx_tx t)) + unat (tx_fee (stx_tx t))"
    by (rule checked_add_SomeD)
  with Some show ?thesis
    by (auto simp: still_valid_def transfer_ok_def Let_def word_le_nat_alt)
qed

lemma reload_nullifiers_set:
  "reload_nullifiers P ns spent = Inr spent' \<Longrightarrow>
     set spent' = set spent \<union> {n. \<exists>x \<in> set ns. node_hex_to_32 P ''store.blocks.nullifier'' x = Inr n}"
  by (induction ns arbitrary: spent) (auto simp: res_bind_Inr_iff)

lemma reload_tx_simps:
  "still_valid P l t \<Longrightarrow> reload_tx P l t (pool, store) = (hm_insert (stx_tx_id P t) t pool, store)"
  "\<not> still_valid P l t \<Longrightarrow> reload_tx P l t (pool, store) = (pool, mempool_remove P (stx_tx_id P t) store)"
  by (simp_all add: reload_tx_def)

lemma reload_fold:
  assumes "hex_ok P" "\<forall>t \<in> set ts. \<forall>u \<in> set ts. stx_tx_id P t = stx_tx_id P u \<longrightarrow> t = u"
    and "fold (reload_tx P l) ts (pool, store) = (pool', store')"
  shows "hm_get pool' k = (case find (\<lambda>t. stx_tx_id P t = k \<and> still_valid P l t) ts of Some t \<Rightarrow> Some t | None \<Rightarrow> hm_get pool k)
    \<and> hm_get (bs_mempool store') (hex_encode P k)
      = (if \<exists>t \<in> set ts. stx_tx_id P t = k \<and> \<not> still_valid P l t then None else hm_get (bs_mempool store) (hex_encode P k))
    \<and> (hm_wf pool \<longrightarrow> hm_wf pool') \<and> (hm_wf (bs_mempool store) \<longrightarrow> hm_wf (bs_mempool store'))"
  using assms(2,3)
proof (induction ts arbitrary: pool store)
  case (Cons t ts)
  show ?case
  proof (cases "still_valid P l t")
    case True
    then have "fold (reload_tx P l) ts (hm_insert (stx_tx_id P t) t pool, store) = (pool', store')"
      using Cons.prems(2) by (simp add: reload_tx_simps)
    note IH = Cons.IH [OF _ this]
    have other: "\<not> (\<exists>u \<in> set ts. stx_tx_id P u = k \<and> \<not> still_valid P l u)" if "stx_tx_id P t = k"
      using Cons.prems(1) True that by auto
    have later: "find (\<lambda>u. stx_tx_id P u = k \<and> still_valid P l u) ts \<in> {None, Some t}" if "stx_tx_id P t = k"
    proof (cases "find (\<lambda>u. stx_tx_id P u = k \<and> still_valid P l u) ts")
      case (Some u)
      then have "u \<in> set ts" "stx_tx_id P u = k"
        by (auto simp: find_Some_iff in_set_conv_nth)
      with Cons.prems(1) that Some show ?thesis by auto
    qed simp
    show ?thesis
    proof (cases "stx_tx_id P t = k")
      case k: True
      then show ?thesis
        using IH Cons.prems(1) True other later by (auto simp: hm_get_insert)
    next
      case k: False
      then have "hm_get (hm_insert (stx_tx_id P t) t pool) k = hm_get pool k"
        by (auto simp: hm_get_insert)
      with k show ?thesis
        using IH Cons.prems(1) True by (auto cong: option.case_cong)
    qed
  next
    case False
    then have "fold (reload_tx P l) ts (pool, mempool_remove P (stx_tx_id P t) store) = (pool', store')"
      using Cons.prems(2) by (simp add: reload_tx_simps)
    from Cons.IH [OF _ this] Cons.prems(1) False show ?thesis
      by (auto simp: mempool_remove_def mempool_del_def hex_encode_inj [OF assms(1)])
  qed
qed simp

text \<open>A table of pending transactions as the node writes it.\<close>

definition table_ok :: "prims \<Rightarrow> serde \<Rightarrow> (string, string) hmap \<Rightarrow> bool" where
  "table_ok P J m \<longleftrightarrow> hm_wf m
     \<and> (\<forall>(k, json) \<in> set m. \<exists>t. json = tx_to_json J t \<and> k = hex_encode P (stx_tx_id P t))"

lemma table_rows:
  assumes "table_ok P J m" "json_ok J"
  shows "(k, json) \<in> set m \<Longrightarrow> \<exists>t. tx_from_json J json = Some t \<and> json = tx_to_json J t \<and> k = hex_encode P (stx_tx_id P t)"
  using assms by (fastforce simp: table_ok_def)

lemma mempool_load_table:
  assumes "table_ok P J (bs_mempool store)" "json_ok J"
  shows "mempool_load J store = (map (\<lambda>(k, json). the (tx_from_json J json)) (bs_mempool store), store)"
proof -
  have ok: "tx_from_json J json \<noteq> None" if "(k, json) \<in> set (bs_mempool store)" for k json
    using table_rows [OF assms that] by auto
  have c: "filter (\<lambda>(k, json). tx_from_json J json = None) (bs_mempool store) = []"
    using ok by (fastforce simp: filter_empty_conv)
  have "filter (\<lambda>x. (\<lambda>(k, json). tx_from_json J json) x \<noteq> None) (bs_mempool store) = bs_mempool store"
    using ok by (intro filter_True) auto
  with c show ?thesis
    by (simp add: mempool_load_def Let_def List.map_filter_def comp_def case_prod_unfold)
qed

lemma reload_mempool_ok:
  assumes "hex_ok P" "json_ok J" "table_ok P J (bs_mempool store)"
    and "reload_mempool P J l ([], store) = (pool, store')"
  shows "hm_wf pool \<and> hm_wf (bs_mempool store')
    \<and> (\<forall>k t. hm_get pool k = Some t \<longrightarrow> k = stx_tx_id P t \<and> stx_verify P t = Inr ())
    \<and> (\<forall>k. hm_get (bs_mempool store') (hex_encode P k) = map_option (tx_to_json J) (hm_get pool k))
    \<and> (\<forall>t. hm_get pool (stx_tx_id P t) = Some t \<longleftrightarrow>
          hm_get (bs_mempool store) (hex_encode P (stx_tx_id P t)) = Some (tx_to_json J t) \<and> transfer_ok P t l)"
proof -
  let ?m = "bs_mempool store"
  define ts where "ts = map (\<lambda>(k, json). the (tx_from_json J json)) ?m"
  have wf: "hm_wf ?m" using assms(3) by (simp add: table_ok_def)
  have mem: "t \<in> set ts \<longleftrightarrow> hm_get ?m (hex_encode P (stx_tx_id P t)) = Some (tx_to_json J t)" for t
  proof
    assume "t \<in> set ts"
    then obtain k json where row: "(k, json) \<in> set ?m" "t = the (tx_from_json J json)" by (auto simp: ts_def)
    with table_rows [OF assms(3,2) row(1)] show "hm_get ?m (hex_encode P (stx_tx_id P t)) = Some (tx_to_json J t)"
      by (auto simp: hm_get_mem_iff [OF wf])
  next
    assume "hm_get ?m (hex_encode P (stx_tx_id P t)) = Some (tx_to_json J t)"
    then have "(hex_encode P (stx_tx_id P t), tx_to_json J t) \<in> set ?m"
      by (simp add: hm_get_mem_iff [OF wf])
    then show "t \<in> set ts"
      using assms(2) by (force simp: ts_def image_iff)
  qed
  have inj: "t = u" if "t \<in> set ts" "u \<in> set ts" "stx_tx_id P t = stx_tx_id P u" for t u
  proof -
    have "tx_to_json J t = tx_to_json J u"
      using that by (simp only: mem) simp
    then show ?thesis
      using assms(2) by (metis json_round_trip option.inject)
  qed
  have run: "fold (reload_tx P l) ts ([], store) = (pool, store')"
    using assms(4) by (simp add: reload_mempool_def mempool_load_table [OF assms(3,2)] ts_def)
  note r = reload_fold [OF assms(1) _ run]
  have uniq: "\<forall>t \<in> set ts. \<forall>u \<in> set ts. stx_tx_id P t = stx_tx_id P u \<longrightarrow> t = u"
    using inj by blast
  have pool: "hm_get pool k = Some t \<longleftrightarrow> t \<in> set ts \<and> stx_tx_id P t = k \<and> still_valid P l t" for k t
  proof (cases "find (\<lambda>t. stx_tx_id P t = k \<and> still_valid P l t) ts")
    case None
    then have "hm_get pool k = None" using r [OF uniq, of k] by simp
    with None show ?thesis by (auto simp: find_None_iff)
  next
    case (Some x)
    then have g: "hm_get pool k = Some x" using r [OF uniq, of k] by simp
    have x: "x \<in> set ts" "stx_tx_id P x = k" "still_valid P l x"
      using Some by (auto simp: find_Some_iff in_set_conv_nth)
    show ?thesis
    proof
      assume "hm_get pool k = Some t"
      with g x show "t \<in> set ts \<and> stx_tx_id P t = k \<and> still_valid P l t" by simp
    next
      assume t: "t \<in> set ts \<and> stx_tx_id P t = k \<and> still_valid P l t"
      then have "x = t" using inj [of x t] x by blast
      with g show "hm_get pool k = Some t" by simp
    qed
  qed
  have table: "hm_get (bs_mempool store') (hex_encode P k) = map_option (tx_to_json J) (hm_get pool k)" for k
  proof (cases "hm_get ?m (hex_encode P k)")
    case None
    have "hm_get pool k = None"
    proof (cases "hm_get pool k")
      case (Some t)
      then have "t \<in> set ts" "stx_tx_id P t = k" by (simp_all add: pool)
      with None show ?thesis by (simp add: mem)
    qed
    with None show ?thesis using r [OF uniq, of k] by simp
  next
    case (Some json)
    then have "(hex_encode P k, json) \<in> set ?m" by (simp add: hm_get_mem_iff [OF wf])
    from table_rows [OF assms(3,2) this] obtain t where t: "json = tx_to_json J t" "stx_tx_id P t = k"
      by (auto simp: hex_encode_inj [OF assms(1)])
    then have ts: "t \<in> set ts" using Some by (simp add: mem)
    show ?thesis
    proof (cases "still_valid P l t")
      case True
      then have "hm_get pool k = Some t" using ts t(2) by (simp add: pool)
      moreover have "\<not> (\<exists>u \<in> set ts. stx_tx_id P u = k \<and> \<not> still_valid P l u)"
        using True inj [OF ts] t(2) by blast
      ultimately show ?thesis using r [OF uniq, of k] Some t(1) by simp
    next
      case False
      have "hm_get pool k = None"
      proof (rule ccontr)
        assume "hm_get pool k \<noteq> None"
        then obtain u where "u \<in> set ts" "stx_tx_id P u = k" "still_valid P l u" by (auto simp: pool)
        with inj [OF ts, of u] t(2) False show False by simp
      qed
      then show ?thesis using r [OF uniq, of k] False ts t(2) by auto
    qed
  qed
  have "hm_wf pool" "hm_wf (bs_mempool store')"
    using r [OF uniq, of "[]"] wf by simp_all
  moreover have "stx_verify P t = Inr ()" if "still_valid P l t" for t
    using that by (simp add: still_valid_def Let_def is_ok_iff)
  ultimately show ?thesis
    using pool table mem by (auto simp: still_valid_transfer)
qed

lemma start_from_runs:
  assumes "ledger_open_scoped lio ledger_file (lc_height loaded) = Inr l" "restore_cursor P (nd_store nd) loaded = Inr cu"
    and "reload_nullifiers P (all_nullifiers (nd_store nd)) (ns_nullifiers (nd_state nd)) = Inr spent"
    and "reload_mempool P J l (ns_mempool (nd_state nd), nd_store nd) = (pool, store)"
  shows "start_from P J lio ledger_file answer miner_hex loaded nd
    = Inr (cu, \<lparr>nd_state = started_state loaded miner_hex (lg_total_mined l) cu (fetch_btc answer None)
                  ((nd_state nd)\<lparr>ns_nullifiers := spent, ns_mempool := pool\<rparr>), nd_ledger = l, nd_store = store\<rparr>)"
  using assms by (simp add: start_from_def)

lemma started_state_sel [simp]:
  "ns_pending_claims (started_state loaded mh mined cu obs s) = ns_pending_claims s"
  "ns_mempool (started_state loaded mh mined cu obs s) = ns_mempool s"
  "ns_nullifiers (started_state loaded mh mined cu obs s) = ns_nullifiers s"
  by (simp_all add: started_state_def)

lemma started_tracks:
  assumes "restore_cursor P store loaded = Inr cu" "lc_resume loaded = resume_of_cursor P old" "adjuster_ok (cu_adjuster old)"
  shows "tracks cu \<lparr>nd_state = started_state loaded mh (lg_total_mined l) cu obs s, nd_ledger = l, nd_store = store'\<rparr>"
  using assms
  by (auto simp: tracks_def started_state_def restore_cursor_def res_bind_Inr_iff Let_def adjuster_restore_def
      resume_of_cursor_def clamp_bits_id adjuster_ok_def)

lemma reload_nullifiers_runs:
  assumes "\<forall>x \<in> set ns. \<exists>n. length n = 32 \<and> x = hex_encode P n" "hex_ok P"
  shows "\<exists>spent'. reload_nullifiers P ns spent = Inr spent'"
  using assms(1)
proof (induction ns arbitrary: spent)
  case (Cons x ns)
  then obtain n where "length n = 32" "x = hex_encode P n" by auto
  with Cons assms(2) show ?case by simp
qed simp

text \<open>The nullifiers the block store holds at a height: each of a block not above it.\<close>

definition stored_nullifiers_ok :: "prims \<Rightarrow> u64 \<Rightarrow> block_store \<Rightarrow> bool" where
  "stored_nullifiers_ok P height store \<longleftrightarrow>
     (\<forall>x \<in> set (all_nullifiers store). \<exists>h out. h \<le> height \<and> x = hex_encode P (blake3 P (nullifier_preimage h out)))"

lemma reload_nullifiers_ok:
  assumes "stored_nullifiers_ok P height store" "hex_ok P" "hash_ok P"
  shows "\<exists>spent. reload_nullifiers P (all_nullifiers store) [] = Inr spent \<and> spent_inv P height spent
    \<and> (\<forall>n. n \<in> set spent \<longleftrightarrow> hex_encode P n \<in> set (all_nullifiers store))"
proof -
  have stored: "\<forall>x \<in> set (all_nullifiers store). \<exists>n. length n = 32 \<and> x = hex_encode P n"
  proof
    fix x assume "x \<in> set (all_nullifiers store)"
    then obtain h out where "x = hex_encode P (blake3 P (nullifier_preimage h out))"
      using assms(1) by (auto simp: stored_nullifiers_ok_def)
    then show "\<exists>n. length n = 32 \<and> x = hex_encode P n"
      using assms(3) by (intro exI [of _ "blake3 P (nullifier_preimage h out)"]) simp
  qed
  obtain spent where spent: "reload_nullifiers P (all_nullifiers store) [] = Inr spent"
    using stored reload_nullifiers_runs assms(2) by blast
  have "spent_inv P height spent"
    unfolding spent_inv_def
  proof
    fix n assume "n \<in> set spent"
    then obtain x where x: "x \<in> set (all_nullifiers store)" "node_hex_to_32 P ''store.blocks.nullifier'' x = Inr n"
      using reload_nullifiers_set [OF spent] by auto
    then obtain h out where "h \<le> height" "x = hex_encode P (blake3 P (nullifier_preimage h out))"
      using assms(1) by (auto simp: stored_nullifiers_ok_def)
    with x(2) assms(2,3) show "\<exists>h out. h \<le> height \<and> n = blake3 P (nullifier_preimage h out)"
      by (intro exI [of _ h] exI [of _ out]) simp
  qed
  moreover have "n \<in> set spent \<longleftrightarrow> hex_encode P n \<in> set (all_nullifiers store)" for n
  proof
    assume "n \<in> set spent"
    then obtain x where x: "x \<in> set (all_nullifiers store)" "node_hex_to_32 P ''store.blocks.nullifier'' x = Inr n"
      using reload_nullifiers_set [OF spent] by auto
    moreover obtain m where "length m = 32" "x = hex_encode P m"
      using stored x(1) by blast
    ultimately show "hex_encode P n \<in> set (all_nullifiers store)" using assms(2) by simp
  next
    assume n: "hex_encode P n \<in> set (all_nullifiers store)"
    then obtain m where "length m = 32" "hex_encode P n = hex_encode P m" using stored by blast
    then have "node_hex_to_32 P ''store.blocks.nullifier'' (hex_encode P n) = Inr n"
      using assms(2) by (simp add: hex_encode_inj [OF assms(2)])
    with n show "n \<in> set spent"
      using reload_nullifiers_set [OF spent] by auto
  qed
  ultimately show ?thesis using spent by blast
qed

section \<open>Properties\<close>

text \<open>C12: A node that starts on the files of an earlier run is ready to run: from the resume file saved at a
  height, a ledger file written by executed blocks up to it and a block store that belongs to it, it
  reaches a state satisfying the invariant of the mining loop, with the ledger in memory as it was,
  the consensus fields of the saved cursor, the nullifiers of all stored blocks spent and, in the
  pool, exactly the stored transactions that can still execute.\<close>

theorem started_node_ready:
  assumes "hex_ok (mr_prims M)" "hash_ok (mr_prims M)" "json_ok (mr_serde M)" "codec_ok K"
    and "length (cu_tip_hash cu) = 32" "length (cu_btc_seed cu) = 32" "adjuster_ok (cu_adjuster cu)"
    and "unat (cu_height cu) \<le> 2 ^ 62" "unat (cu_last_ts cu) \<le> 2 ^ 63"
    and "checkpoint_current store cu" "stored_nullifiers_ok (mr_prims M) (cu_height cu) store"
    and "table_ok (mr_prims M) (mr_serde M) (bs_mempool store)"
    and "ledger_history (mr_prims M) h l" "h \<le> cu_height cu"
    and "text = snd (save_chain_state (mr_prims M) K True now (header_hash (mr_prims M) (genesis_header (mr_prims M)))
      (cu_tip_hash cu) (cu_height cu) (resume_of_cursor (mr_prims M) cu) old)"
  shows "\<exists>cu' nd. start_node (mr_prims M) (mr_serde M) K io now' text lio (Some (lg_csv l)) answer miner_hex
      \<lparr>nd_state = initial_state t0 t1 threads, nd_ledger = new_ledger, nd_store = store\<rparr> = (Inr (cu', nd), text)
    \<and> cu' = cu\<lparr>cu_adjuster := cu_adjuster cu'\<rparr> \<and> same_schedule (cu_adjuster cu') (cu_adjuster cu)
    \<and> nd_ledger nd = l
    \<and> fresh_system M \<lparr>sy_cursor = cu', sy_node = nd, sy_file = text, sy_phase = Idle, sy_inflight = []\<rparr>
    \<and> (\<forall>n. n \<in> set (ns_nullifiers (nd_state nd)) \<longleftrightarrow> hex_encode (mr_prims M) n \<in> set (all_nullifiers store))
    \<and> (\<forall>t. hm_get (ns_mempool (nd_state nd)) (stx_tx_id (mr_prims M) t) = Some t \<longleftrightarrow>
          hm_get (bs_mempool store) (hex_encode (mr_prims M) (stx_tx_id (mr_prims M) t)) = Some (tx_to_json (mr_serde M) t)
          \<and> transfer_ok (mr_prims M) t l)"
proof -
  let ?P = "mr_prims M" and ?J = "mr_serde M"
  let ?s = "initial_state t0 t1 threads"
  let ?nd = "\<lparr>nd_state = ?s, nd_ledger = new_ledger, nd_store = store\<rparr>"
  let ?l = "\<lparr>lc_genesis_hash = header_hash ?P (genesis_header ?P), lc_tip_hash = cu_tip_hash cu, lc_height = cu_height cu,
      lc_created = False, lc_resume = resume_of_cursor ?P cu\<rparr>"
  have load: "load_or_create_chain_state ?P K io now' (header_hash ?P (genesis_header ?P)) (h_timestamp (genesis_header ?P)) text
      = (Inr ?l, text)"
    unfolding assms(15) by (rule load_saved) (use assms in simp_all)
  obtain cu' where cu': "restore_cursor ?P store ?l = Inr cu'" "cu' = cu\<lparr>cu_adjuster := cu_adjuster cu'\<rparr>"
    "same_schedule (cu_adjuster cu') (cu_adjuster cu)"
    using restore_saved [OF assms(1,6,10,7), of ?l] by auto
  have sel: "cu_height cu' = cu_height cu" "cu_last_ts cu' = cu_last_ts cu"
    using arg_cong [OF cu'(2), of cu_height] arg_cong [OF cu'(2), of cu_last_ts] by simp_all
  have led: "ledger_open_scoped lio (Some (lg_csv l)) (cu_height cu) = Inr l" "supply_ok l"
    using ledger_history_invariant [OF assms(13,1)] open_persisted(2) assms(14)
    unfolding ledger_open_scoped_def by blast+
  obtain spent where spent: "reload_nullifiers ?P (all_nullifiers store) [] = Inr spent" "spent_inv ?P (cu_height cu) spent"
    "\<forall>n. n \<in> set spent \<longleftrightarrow> hex_encode ?P n \<in> set (all_nullifiers store)"
    using reload_nullifiers_ok [OF assms(11,1,2)] by blast
  obtain pool store' where pool: "reload_mempool ?P ?J l ([], store) = (pool, store')"
    by (cases "reload_mempool ?P ?J l ([], store)")
  note mem = reload_mempool_ok [OF assms(1,3,12) pool]
  define nd where "nd = \<lparr>nd_state = started_state ?l miner_hex (lg_total_mined l) cu' (fetch_btc answer None)
      (?s\<lparr>ns_nullifiers := spent, ns_mempool := pool\<rparr>), nd_ledger = l, nd_store = store'\<rparr>"
  have s0: "ns_nullifiers ?s = []" "ns_mempool ?s = []" "ns_pending_claims ?s = []"
    by (simp_all add: initial_state_def)
  have "start_from ?P ?J lio (Some (lg_csv l)) answer miner_hex ?l ?nd = Inr (cu', nd)"
    unfolding nd_def using start_from_runs [of lio _ ?l l ?P ?nd cu' spent ?J pool store' answer miner_hex] led cu'(1) spent(1) pool s0
    by simp
  then have start: "start_node ?P ?J K io now' text lio (Some (lg_csv l)) answer miner_hex ?nd = (Inr (cu', nd), text)"
    by (simp add: start_node_def load)
  have "tracks cu' nd"
    unfolding nd_def by (rule started_tracks [OF cu'(1) _ assms(7)]) simp
  then have "fresh_system M \<lparr>sy_cursor = cu', sy_node = nd, sy_file = text, sy_phase = Idle, sy_inflight = []\<rparr>"
    using mem led(2) spent(2) assms(8,9) s0 by (simp add: fresh_system_def sel mempool_ok_def) (simp add: nd_def)
  with start cu'(2,3) mem spent(3) show ?thesis
    by (intro exI [of _ cu'] exI [of _ nd]) (simp add: nd_def)
qed

text \<open>The files of a node after its first block, with one pending transfer.\<close>

definition stopped_store :: block_store where
  "stopped_store = mempool_put (hex_encode sample_prims (stx_tx_id sample_prims sample_signed)) (tx_to_json sample_serde sample_signed)
     (insert_block sample_serde ((sample_record 1 ''a'')\<lparr>br_nullifier := hex_encode sample_prims
        (blake3 sample_prims (nullifier_preimage 1 (zeros 32)))\<rparr>) (store_open None))"

definition stopped_ledger :: ledger where
  "stopped_ledger = snd (execute_block sample_prims 1 [] (stx_from_hex sample_prims sample_signed) 50 1000 new_ledger)"

lemma stopped_history: "ledger_history sample_prims 1 stopped_ledger"
  unfolding stopped_ledger_def
  by (rule ledger_history.block [OF ledger_history.start _ _ _ prod.collapse [symmetric]])
    (simp_all add: stx_from_hex_def sample_hex_ok new_ledger_def unat_HARD_CAP del: sample_prims_sel)

lemma stopped_transfer: "transfer_ok sample_prims sample_signed stopped_ledger"
  using transfer_ok_due [of stopped_ledger] reorg_block_1_eq
  by (simp add: stopped_ledger_def reorg_block_1_def sample_from_def)

lemma stopped_store_ok:
  "checkpoint_current stopped_store sample_cursor" "stored_nullifiers_ok sample_prims 45 stopped_store"
  "table_ok sample_prims sample_serde (bs_mempool stopped_store)"
  "hm_get (bs_mempool stopped_store) (hex_encode sample_prims (stx_tx_id sample_prims sample_signed))
    = Some (tx_to_json sample_serde sample_signed)"
proof -
  have rows: "bs_blocks stopped_store = [record_to_row ((sample_record 1 ''a'')\<lparr>br_nullifier := hex_encode sample_prims
        (blake3 sample_prims (nullifier_preimage 1 (zeros 32)))\<rparr>)]"
    by (simp add: stopped_store_def mempool_put_def insert_block_def store_open_def Let_def)
  show "checkpoint_current stopped_store sample_cursor"
    by (simp add: checkpoint_current_def latest_checkpoint_def rows record_to_row_def sample_record_def as_i64_def)
  have "all_nullifiers stopped_store = [hex_encode sample_prims (blake3 sample_prims (nullifier_preimage 1 (zeros 32)))]"
    by (simp add: all_nullifiers_def rows record_to_row_def sort_key_def)
  then show "stored_nullifiers_ok sample_prims 45 stopped_store"
    unfolding stored_nullifiers_ok_def by (auto simp del: sample_prims_sel intro!: exI [of _ "1 :: u64"])
  have pool: "bs_mempool stopped_store = [(hex_encode sample_prims (stx_tx_id sample_prims sample_signed), tx_to_json sample_serde sample_signed)]"
    by (simp add: stopped_store_def mempool_put_def insert_block_def store_open_def hm_insert_def Let_def)
  then show "table_ok sample_prims sample_serde (bs_mempool stopped_store)"
    by (auto simp: table_ok_def hm_wf_def simp del: sample_prims_sel)
  show "hm_get (bs_mempool stopped_store) (hex_encode sample_prims (stx_tx_id sample_prims sample_signed))
    = Some (tx_to_json sample_serde sample_signed)"
    by (simp add: pool hm_get_def)
qed

theorem started_node_ready_witness:
  "\<exists>cu nd rf. fst (start_node sample_prims sample_serde sample_codec True 9 rf True (Some (lg_csv stopped_ledger)) None ''aa''
      \<lparr>nd_state = initial_state 0 0 1, nd_ledger = new_ledger, nd_store = stopped_store\<rparr>) = Inr (cu, nd)
    \<and> nd_ledger nd = stopped_ledger \<and> cu_height cu = 45
    \<and> hm_get (ns_mempool (nd_state nd)) (stx_tx_id sample_prims sample_signed) = Some sample_signed"
proof -
  have sel: "mr_prims sample_mr = sample_prims" "mr_serde sample_mr = sample_serde"
    by (simp_all add: sample_mr_def)
  have tip: "length (cu_tip_hash sample_cursor) = 32" "length (cu_btc_seed sample_cursor) = 32" "adjuster_ok (cu_adjuster sample_cursor)"
    "unat (cu_height sample_cursor) \<le> 2 ^ 62" "unat (cu_last_ts sample_cursor) \<le> 2 ^ 63"
    by (simp_all add: sample_cursor_def adjuster_ok_def)
  have h: "cu_height sample_cursor = 45" by (simp add: sample_cursor_def)
  note r = started_node_ready [of sample_mr sample_codec sample_cursor stopped_store 1 stopped_ledger _ 8 None True 9 True None "''aa''" 0 0 1,
      unfolded sel h, OF sample_hex_ok sample_hash_ok sample_json_ok sample_codec_ok tip [unfolded h] stopped_store_ok(1) _ stopped_store_ok(3)
        stopped_history _ refl]
  obtain cu nd rf where s: "start_node sample_prims sample_serde sample_codec True 9 rf True (Some (lg_csv stopped_ledger)) None ''aa''
      \<lparr>nd_state = initial_state 0 0 1, nd_ledger = new_ledger, nd_store = stopped_store\<rparr> = (Inr (cu, nd), rf)"
    "cu = sample_cursor\<lparr>cu_adjuster := cu_adjuster cu\<rparr>" "nd_ledger nd = stopped_ledger"
    "hm_get (ns_mempool (nd_state nd)) (stx_tx_id sample_prims sample_signed) = Some sample_signed"
    using r stopped_store_ok(2,4) stopped_transfer by auto
  from arg_cong [OF s(2), of cu_height] have "cu_height cu = 45" by (simp add: h)
  with s show ?thesis by (metis fst_conv)
qed

end
