(* ===== verification/Stale_Blocks.thy ===== *)
theory Stale_Blocks
  imports Hash_Map Sample_Prims Block Btc_Entropy
begin

text \<open>
  The first half of \<^verbatim>\<open>core/src/stale_block_miner.rs\<close>: the 80-byte header of a Bitcoin block that lost the
  race for the tip, the proof of its work with the checks of the proof on itself, the quality scores
  and the entropy report. Every reading of the system clock is an argument.
\<close>

section \<open>Constants and errors\<close>

definition MAX_TRACKED_TIPS :: nat where "MAX_TRACKED_TIPS = 16"
definition MAX_STALE_HISTORY :: nat where "MAX_STALE_HISTORY = 1024"
definition MIN_LEADING_ZEROS :: u32 where "MIN_LEADING_ZEROS = 32"
definition MAX_STALE_AGE_SECS :: u64 where "MAX_STALE_AGE_SECS = 7 * 24 * 3600"
definition BLOCK_HEADER_SIZE :: nat where "BLOCK_HEADER_SIZE = 80"
definition MAX_REORG_DEPTH :: u32 where "MAX_REORG_DEPTH = 100"

text \<open>What the message of \<open>InvalidHeader\<close> says.\<close>

datatype header_fault =
    ExpectedBytes nat nat
  | RawHeaderBytes nat
  | HashMismatch
  | ZerosMismatch u32 u32

datatype stale_error =
    InvalidHeader header_fault
  | InsufficientWork u32 u32
  | NotStale string
  | TooOld u64 u64
  | AlreadyHarvested string
  | ReorgTooDeep u32 u32
  | FetchError string

section \<open>Helpers\<close>

definition double_sha256 :: "prims \<Rightarrow> bytes \<Rightarrow> bytes" where
  "double_sha256 P raw = sha256 P (sha256 P raw)"

definition count_leading_zero_bits_be :: "bytes \<Rightarrow> u32" where
  "count_leading_zero_bits_be hash = word_of_nat (leading_zero_bits (rev hash))"

definition xor_32 :: "bytes \<Rightarrow> bytes \<Rightarrow> bytes" where
  "xor_32 a b = map (\<lambda>i. a ! i XOR b ! i) [0..<32]"

definition expand_u32_to_32 :: "prims \<Rightarrow> u32 \<Rightarrow> bytes" where
  "expand_u32_to_32 P v = sha256 P (as_bytes ''TGBT-NONCE-EXPAND'' @ le_bytes 4 v)"

text \<open>\<^verbatim>\<open>u32::count_ones\<close>.\<close>

definition count_ones :: "u32 \<Rightarrow> nat" where
  "count_ones w = length (filter (bit w) [0..<32])"

section \<open>The header\<close>

record stale_header =
  sh_version :: u32
  sh_prev_block_hash :: bytes
  sh_merkle_root :: bytes
  sh_timestamp :: u32
  sh_bits :: u32
  sh_nonce :: u32
  sh_block_hash :: bytes
  sh_height :: u64

definition header_from_raw :: "prims \<Rightarrow> bytes \<Rightarrow> u64 \<Rightarrow> stale_error + stale_header" where
  "header_from_raw P raw height =
     (if length raw \<noteq> BLOCK_HEADER_SIZE then Inl (InvalidHeader (ExpectedBytes BLOCK_HEADER_SIZE (length raw)))
      else Inr \<lparr>sh_version = from_le_bytes (take 4 raw), sh_prev_block_hash = take 32 (drop 4 raw),
                sh_merkle_root = take 32 (drop 36 raw), sh_timestamp = from_le_bytes (take 4 (drop 68 raw)),
                sh_bits = from_le_bytes (take 4 (drop 72 raw)), sh_nonce = from_le_bytes (take 4 (drop 76 raw)),
                sh_block_hash = double_sha256 P raw, sh_height = height\<rparr>)"

definition serialize_header :: "u32 \<Rightarrow> bytes \<Rightarrow> bytes \<Rightarrow> u32 \<Rightarrow> u32 \<Rightarrow> u32 \<Rightarrow> bytes" where
  "serialize_header version prev_block_hash merkle timestamp bits nonce =
     le_bytes 4 version @ prev_block_hash @ merkle @ le_bytes 4 timestamp @ le_bytes 4 bits @ le_bytes 4 nonce"

definition header_from_fields :: "prims \<Rightarrow> u32 \<Rightarrow> bytes \<Rightarrow> bytes \<Rightarrow> u32 \<Rightarrow> u32 \<Rightarrow> u32 \<Rightarrow> u64 \<Rightarrow> stale_header" where
  "header_from_fields P version prev_block_hash merkle timestamp bits nonce height =
     (let raw = serialize_header version prev_block_hash merkle timestamp bits nonce in
      \<lparr>sh_version = version, sh_prev_block_hash = prev_block_hash, sh_merkle_root = merkle, sh_timestamp = timestamp,
       sh_bits = bits, sh_nonce = nonce, sh_block_hash = double_sha256 P raw, sh_height = height\<rparr>)"

definition to_raw :: "stale_header \<Rightarrow> bytes" where
  "to_raw h = serialize_header (sh_version h) (sh_prev_block_hash h) (sh_merkle_root h) (sh_timestamp h) (sh_bits h) (sh_nonce h)"

definition stale_leading_zero_bits :: "stale_header \<Rightarrow> u32" where
  "stale_leading_zero_bits h = count_leading_zero_bits_be (sh_block_hash h)"

definition extract_entropy :: "prims \<Rightarrow> stale_header \<Rightarrow> bytes" where
  "extract_entropy P h =
     sha256 P (as_bytes ''TGBT-STALE-ENTROPY-v1'' @ sh_block_hash h @ sh_merkle_root h @ le_bytes 4 (sh_nonce h)
       @ le_bytes 4 (sh_timestamp h) @ le_bytes 4 (sh_bits h) @ le_bytes 4 (sh_version h) @ sh_prev_block_hash h
       @ le_bytes 8 (sh_height h))"

definition hash_hex :: "prims \<Rightarrow> bytes \<Rightarrow> string" where
  "hash_hex P hash = hex_encode P (rev hash)"

definition stale_hash_hex :: "prims \<Rightarrow> stale_header \<Rightarrow> string" where
  "stale_hash_hex P h = hash_hex P (sh_block_hash h)"

section \<open>Scores\<close>

record score_breakdown =
  pow_difficulty_score :: u32
  reorg_depth_score :: u32
  divergence_score :: u32
  freshness_score :: u32

definition compute_score_breakdown :: "u64 \<Rightarrow> stale_header \<Rightarrow> u32 \<Rightarrow> score_breakdown" where
  "compute_score_breakdown now header reorg_depth =
     (let leading_zeros = stale_leading_zero_bits header;
          pow_score = (if leading_zeros \<ge> 72 then 30 else if leading_zeros \<ge> 56 then 25
            else if leading_zeros \<ge> 40 then 20 else if leading_zeros \<ge> 32 then 15
            else min (leading_zeros div 3) 14);
          capped_depth = min reorg_depth 6;
          depth_score = (if capped_depth = 0 then 0 else if capped_depth = 1 then 10
            else if capped_depth = 2 then 15 else if capped_depth \<le> 5 then 20 else 25);
          nonce_entropy = word_of_nat (min (count_ones (sh_nonce header)) 16) :: u32;
          timestamp_entropy = min (sh_timestamp header mod 600) 300;
          divergence = min (nonce_entropy * 10 div 16 + timestamp_entropy * 15 div 300) 25;
          age_secs = sat_sub now (ucast (sh_timestamp header) :: u64);
          freshness = (if age_secs < 600 then 20 else if age_secs < 3600 then 15
            else if age_secs < 86400 then 10 else 5) in
      \<lparr>pow_difficulty_score = pow_score, reorg_depth_score = depth_score, divergence_score = divergence,
       freshness_score = freshness\<rparr>)"

definition score_sum :: "score_breakdown \<Rightarrow> u32" where
  "score_sum b = pow_difficulty_score b + reorg_depth_score b + divergence_score b + freshness_score b"

definition compute_quality_score :: "u64 \<Rightarrow> u32 \<Rightarrow> stale_header \<Rightarrow> u32" where
  "compute_quality_score now reorg_depth header =
     min (score_sum (compute_score_breakdown now header reorg_depth)) 100"

section \<open>The proof of stale work\<close>

record stale_proof =
  sp_proof_id :: string
  sp_raw_header :: bytes
  sp_block_hash :: bytes
  sp_height :: u64
  sp_canonical_hash :: bytes
  sp_leading_zeros :: u32
  sp_reorg_depth :: u32
  sp_entropy :: bytes
  sp_quality_score :: u32
  sp_submitter :: string
  sp_created_at :: u64

definition proof_preimage :: "bytes \<Rightarrow> bytes \<Rightarrow> u64 \<Rightarrow> u32 \<Rightarrow> string \<Rightarrow> bytes" where
  "proof_preimage block_hash canonical_hash height reorg_depth submitter =
     as_bytes ''TGBT-STALE-PROOF-v1'' @ block_hash @ canonical_hash @ le_bytes 8 height @ le_bytes 4 reorg_depth
       @ as_bytes submitter"

definition compute_proof_id :: "prims \<Rightarrow> bytes \<Rightarrow> bytes \<Rightarrow> u64 \<Rightarrow> u32 \<Rightarrow> string \<Rightarrow> string" where
  "compute_proof_id P block_hash canonical_hash height reorg_depth submitter =
     hex_encode P (sha256 P (proof_preimage block_hash canonical_hash height reorg_depth submitter))"

text \<open>\<open>now_score\<close> and \<open>now_created\<close> are the two readings of the clock.\<close>

definition proof_build :: "prims \<Rightarrow> u64 \<Rightarrow> u64 \<Rightarrow> stale_header \<Rightarrow> bytes \<Rightarrow> u32 \<Rightarrow> string \<Rightarrow> stale_error + stale_proof" where
  "proof_build P now_score now_created header canonical_hash reorg_depth submitter =
     (let leading_zeros = stale_leading_zero_bits header in
      if leading_zeros < MIN_LEADING_ZEROS then Inl (InsufficientWork leading_zeros MIN_LEADING_ZEROS)
      else if reorg_depth > MAX_REORG_DEPTH then Inl (ReorgTooDeep reorg_depth MAX_REORG_DEPTH)
      else Inr \<lparr>sp_proof_id = compute_proof_id P (sh_block_hash header) canonical_hash (sh_height header) reorg_depth submitter,
                sp_raw_header = to_raw header, sp_block_hash = sh_block_hash header, sp_height = sh_height header,
                sp_canonical_hash = canonical_hash, sp_leading_zeros = leading_zeros, sp_reorg_depth = reorg_depth,
                sp_entropy = extract_entropy P header,
                sp_quality_score = compute_quality_score now_score reorg_depth header,
                sp_submitter = submitter, sp_created_at = now_created\<rparr>)"

definition verify_self :: "prims \<Rightarrow> stale_proof \<Rightarrow> stale_error + unit" where
  "verify_self P p =
     (if length (sp_raw_header p) \<noteq> BLOCK_HEADER_SIZE then Inl (InvalidHeader (RawHeaderBytes (length (sp_raw_header p))))
      else let computed_hash = double_sha256 P (sp_raw_header p);
               computed_zeros = count_leading_zero_bits_be computed_hash in
        if computed_hash \<noteq> sp_block_hash p then Inl (InvalidHeader HashMismatch)
        else if computed_zeros \<noteq> sp_leading_zeros p then Inl (InvalidHeader (ZerosMismatch (sp_leading_zeros p) computed_zeros))
        else if sp_block_hash p = sp_canonical_hash p then Inl (NotStale (hex_encode P (sp_block_hash p)))
        else Inr ())"

section \<open>The entropy report\<close>

record entropy_report =
  er_block_hash_hex :: string
  er_height :: u64
  er_primary_entropy :: bytes
  er_secondary_entropy :: bytes
  er_fork_divergence_entropy :: bytes
  er_quality_score :: u32
  er_score_breakdown :: score_breakdown
  er_reorg_depth :: u32
  er_generated_at :: u64

definition report_build :: "prims \<Rightarrow> u64 \<Rightarrow> u64 \<Rightarrow> stale_header \<Rightarrow> bytes \<Rightarrow> u32 \<Rightarrow> entropy_report" where
  "report_build P now_score now_generated stale canonical_hash reorg_depth =
     (let breakdown = compute_score_breakdown now_score stale reorg_depth in
      \<lparr>er_block_hash_hex = stale_hash_hex P stale, er_height = sh_height stale,
       er_primary_entropy = extract_entropy P stale,
       er_secondary_entropy = xor_32 (sh_merkle_root stale) (expand_u32_to_32 P (sh_nonce stale)),
       er_fork_divergence_entropy =
         sha256 P (as_bytes ''TGBT-FORK-DIVERGENCE-v1'' @ xor_32 (sh_block_hash stale) canonical_hash),
       er_quality_score = score_sum breakdown, er_score_breakdown = breakdown, er_reorg_depth = reorg_depth,
       er_generated_at = now_generated\<rparr>)"

section \<open>Lemmas\<close>

text \<open>What the Rust type of a header guarantees, and what both constructors establish.\<close>

definition stale_wf :: "prims \<Rightarrow> stale_header \<Rightarrow> bool" where
  "stale_wf P h \<longleftrightarrow> length (sh_prev_block_hash h) = 32 \<and> length (sh_merkle_root h) = 32
     \<and> sh_block_hash h = double_sha256 P (to_raw h)"

lemma length_double_sha256 [simp, len_simps]: "hash_ok P \<Longrightarrow> length (double_sha256 P x) = 32"
  by (simp add: double_sha256_def)

lemma length_to_raw [len_simps]: "stale_wf P h \<Longrightarrow> length (to_raw h) = BLOCK_HEADER_SIZE"
  by (simp add: stale_wf_def to_raw_def serialize_header_def BLOCK_HEADER_SIZE_def)

lemma header_from_raw_simps:
  "length raw \<noteq> 80 \<Longrightarrow> header_from_raw P raw height = Inl (InvalidHeader (ExpectedBytes 80 (length raw)))"
  "length raw = 80 \<Longrightarrow> \<exists>h. header_from_raw P raw height = Inr h"
  by (simp_all add: header_from_raw_def BLOCK_HEADER_SIZE_def)

lemma take_le_bytes: "take 4 (le_bytes 4 w @ x) = le_bytes 4 w" "drop 4 (le_bytes 4 w @ x) = x"
  by simp_all

lemma from_le_u32 [simp]: "from_le_bytes (le_bytes 4 (w :: u32)) = w"
  by (rule from_le_bytes_le_bytes) simp

lemma le_from_u32: "length bs = 4 \<Longrightarrow> le_bytes 4 (from_le_bytes bs :: u32) = bs"
  using le_bytes_from_le_bytes [of bs, where 'a = 32] by simp

lemma six_fields:
  assumes "length a = 4" "length b = 32" "length c = 32" "length d = 4" "length e = 4" "length f = 4"
  shows "take 4 (a @ b @ c @ d @ e @ f) = a" "take 32 (drop 4 (a @ b @ c @ d @ e @ f)) = b"
    "take 32 (drop 36 (a @ b @ c @ d @ e @ f)) = c" "take 4 (drop 68 (a @ b @ c @ d @ e @ f)) = d"
    "take 4 (drop 72 (a @ b @ c @ d @ e @ f)) = e" "take 4 (drop 76 (a @ b @ c @ d @ e @ f)) = f"
  using assms by simp_all

lemma from_raw_to_raw:
  assumes "stale_wf P h"
  shows "header_from_raw P (to_raw h) (sh_height h) = Inr h"
proof -
  have "length (sh_prev_block_hash h) = 32" "length (sh_merkle_root h) = 32" "double_sha256 P (to_raw h) = sh_block_hash h"
    using assms by (simp_all add: stale_wf_def)
  moreover from this(1,2) have "length (to_raw h) = BLOCK_HEADER_SIZE"
    by (simp add: to_raw_def serialize_header_def BLOCK_HEADER_SIZE_def)
  ultimately show ?thesis
    by (simp add: header_from_raw_def) (simp add: to_raw_def serialize_header_def six_fields)
qed

lemma cut_take_drop:
  assumes "length raw = 80"
  shows "take 4 raw @ take 32 (drop 4 raw) @ take 32 (drop 36 raw) @ take 4 (drop 68 raw) @ take 4 (drop 72 raw) @ drop 76 raw = raw"
proof -
  have s: "take n (drop m raw) @ drop (m + n) raw = drop m raw" for n m
    by (metis append_take_drop_id drop_drop add.commute)
  have "take 4 (drop 72 raw) @ drop 76 raw = drop 72 raw" "take 4 (drop 68 raw) @ drop 72 raw = drop 68 raw"
    "take 32 (drop 36 raw) @ drop 68 raw = drop 36 raw" "take 32 (drop 4 raw) @ drop 36 raw = drop 4 raw"
    using s [of 4 72] s [of 4 68] s [of 32 36] s [of 32 4] by simp_all
  then show ?thesis by simp
qed

lemma to_raw_from_raw:
  assumes "header_from_raw P raw height = Inr h"
  shows "to_raw h = raw"
proof -
  from assms have len: "length raw = 80"
    by (auto simp: header_from_raw_def BLOCK_HEADER_SIZE_def split: if_splits)
  with assms have "to_raw h = take 4 raw @ take 32 (drop 4 raw) @ take 32 (drop 36 raw) @ take 4 (drop 68 raw)
      @ take 4 (drop 72 raw) @ drop 76 raw"
    by (auto simp: header_from_raw_def to_raw_def serialize_header_def BLOCK_HEADER_SIZE_def le_from_u32)
  with cut_take_drop [OF len] show ?thesis by simp
qed

lemma from_raw_wf:
  assumes "header_from_raw P raw height = Inr h"
  shows "stale_wf P h" "sh_height h = height" "sh_block_hash h = double_sha256 P raw" "length raw = 80"
proof -
  from assms show "sh_height h = height" and hash: "sh_block_hash h = double_sha256 P raw" and len: "length raw = 80"
    by (auto simp: header_from_raw_def BLOCK_HEADER_SIZE_def split: if_splits)
  from assms len have "length (sh_prev_block_hash h) = 32" "length (sh_merkle_root h) = 32"
    by (auto simp: header_from_raw_def BLOCK_HEADER_SIZE_def)
  with hash show "stale_wf P h"
    by (simp add: stale_wf_def to_raw_from_raw [OF assms])
qed

lemma from_fields_wf:
  "length prev = 32 \<Longrightarrow> length merkle = 32 \<Longrightarrow> stale_wf P (header_from_fields P v prev merkle t b n height)"
  by (simp add: stale_wf_def header_from_fields_def to_raw_def Let_def)

lemma score_bounds:
  "pow_difficulty_score (compute_score_breakdown now h d) \<le> 30"
  "reorg_depth_score (compute_score_breakdown now h d) \<le> 25"
  "divergence_score (compute_score_breakdown now h d) \<le> 25"
  "freshness_score (compute_score_breakdown now h d) \<le> 20"
proof -
  have "min x 14 \<le> (30 :: u32)" for x by (rule order_trans [of _ 14]) simp_all
  then show "pow_difficulty_score (compute_score_breakdown now h d) \<le> 30"
    by (simp add: compute_score_breakdown_def Let_def)
qed (simp_all add: compute_score_breakdown_def Let_def)

lemma unat_score_sum:
  "unat (score_sum (compute_score_breakdown now h d))
    = unat (pow_difficulty_score (compute_score_breakdown now h d)) + unat (reorg_depth_score (compute_score_breakdown now h d))
      + unat (divergence_score (compute_score_breakdown now h d)) + unat (freshness_score (compute_score_breakdown now h d))"
  "score_sum (compute_score_breakdown now h d) \<le> 100"
proof -
  have "unat (pow_difficulty_score (compute_score_breakdown now h d)) \<le> 30"
    "unat (reorg_depth_score (compute_score_breakdown now h d)) \<le> 25"
    "unat (divergence_score (compute_score_breakdown now h d)) \<le> 25"
    "unat (freshness_score (compute_score_breakdown now h d)) \<le> 20"
    using score_bounds [of now h d] by (simp_all add: word_le_nat_alt)
  then show "unat (score_sum (compute_score_breakdown now h d))
    = unat (pow_difficulty_score (compute_score_breakdown now h d)) + unat (reorg_depth_score (compute_score_breakdown now h d))
      + unat (divergence_score (compute_score_breakdown now h d)) + unat (freshness_score (compute_score_breakdown now h d))"
    "score_sum (compute_score_breakdown now h d) \<le> 100"
    by (simp_all add: score_sum_def word_le_nat_alt unat_word_ariths)
qed

lemma quality_score_sum: "compute_quality_score now d h = score_sum (compute_score_breakdown now h d)"
  using unat_score_sum(2) [of now h d] by (simp add: compute_quality_score_def min_def)

lemma proof_build_fields:
  assumes "proof_build P n1 n2 h canonical d sub = Inr p"
  shows "sp_proof_id p = compute_proof_id P (sh_block_hash h) canonical (sh_height h) d sub" "sp_raw_header p = to_raw h"
    "sp_block_hash p = sh_block_hash h" "sp_height p = sh_height h" "sp_canonical_hash p = canonical"
    "sp_leading_zeros p = stale_leading_zero_bits h" "sp_reorg_depth p = d" "sp_entropy p = extract_entropy P h"
    "sp_quality_score p = compute_quality_score n1 d h" "sp_submitter p = sub" "sp_created_at p = n2"
    "MIN_LEADING_ZEROS \<le> stale_leading_zero_bits h" "d \<le> MAX_REORG_DEPTH"
  using assms by (auto simp: proof_build_def Let_def split: if_splits)

lemma proof_build_ok_iff:
  "(\<exists>p. proof_build P n1 n2 h canonical d sub = Inr p) \<longleftrightarrow> MIN_LEADING_ZEROS \<le> stale_leading_zero_bits h \<and> d \<le> MAX_REORG_DEPTH"
  by (auto simp: proof_build_def Let_def)

lemma built_proof_verifies:
  assumes "proof_build P n1 n2 h canonical d sub = Inr p" "stale_wf P h"
  shows "verify_self P p = (if sh_block_hash h = canonical then Inl (NotStale (hex_encode P (sh_block_hash h))) else Inr ())"
  using assms(2) length_to_raw [OF assms(2)]
  by (auto simp: verify_self_def proof_build_fields [OF assms(1)] Let_def stale_leading_zero_bits_def stale_wf_def)

lemma length_proof_preimage_cut:
  assumes "length a = 32" "length a' = 32" "length c = 32" "length c' = 32"
    and "proof_preimage a c h d s = proof_preimage a' c' h' d' s'"
  shows "a = a' \<and> c = c' \<and> h = h' \<and> d = d' \<and> s = s'"
proof -
  have e: "a @ c @ le_bytes 8 h @ le_bytes 4 d @ as_bytes s = a' @ c' @ le_bytes 8 h' @ le_bytes 4 d' @ as_bytes s'"
    using assms(5) by (simp add: proof_preimage_def)
  then have "a = a'" "c @ le_bytes 8 h @ le_bytes 4 d @ as_bytes s = c' @ le_bytes 8 h' @ le_bytes 4 d' @ as_bytes s'"
    using assms(1,2) by (simp_all add: append_eq_append_conv)
  then have "c = c'" "le_bytes 8 h @ le_bytes 4 d @ as_bytes s = le_bytes 8 h' @ le_bytes 4 d' @ as_bytes s'"
    using assms(3,4) by (simp_all add: append_eq_append_conv)
  then have "le_bytes 8 h = le_bytes 8 h'" "le_bytes 4 d = le_bytes 4 d'" "as_bytes s = as_bytes s'"
    by (simp_all add: append_eq_append_conv)
  with \<open>a = a'\<close> \<open>c = c'\<close> show ?thesis
    using le_bytes_inj [of 8 h h'] le_bytes_inj [of 4 d d'] by (simp add: as_bytes_inj)
qed

section \<open>Properties\<close>

text \<open>The 80 bytes of a header and its parsed form determine each other: parsing gives back the header
  that was written, whatever built it, writing gives back the bytes that were parsed, and any other
  length is refused.\<close>

theorem stale_header_round_trip:
  shows "(stale_wf P h \<longrightarrow> header_from_raw P (to_raw h) (sh_height h) = Inr h)
    \<and> (\<forall>h'. header_from_raw P raw height = Inr h' \<longrightarrow> stale_wf P h' \<and> to_raw h' = raw \<and> sh_height h' = height)
    \<and> (length raw \<noteq> 80 \<longleftrightarrow> header_from_raw P raw height = Inl (InvalidHeader (ExpectedBytes 80 (length raw))))"
proof (intro conjI)
  show "stale_wf P h \<longrightarrow> header_from_raw P (to_raw h) (sh_height h) = Inr h"
    using from_raw_to_raw by blast
  show "\<forall>h'. header_from_raw P raw height = Inr h' \<longrightarrow> stale_wf P h' \<and> to_raw h' = raw \<and> sh_height h' = height"
    using to_raw_from_raw from_raw_wf by blast
  show "length raw \<noteq> 80 \<longleftrightarrow> header_from_raw P raw height = Inl (InvalidHeader (ExpectedBytes 80 (length raw)))"
    by (simp add: header_from_raw_def BLOCK_HEADER_SIZE_def)
qed

end
