(* ===== verification/Stale_Miner.thy ===== *)
theory Stale_Miner
  imports Complex_Main Stale_Blocks
begin

text \<open>
  The second half of \<^verbatim>\<open>core/src/stale_block_miner.rs\<close>: the tracker of tips, fork events and harvested
  headers (\<^verbatim>\<open>LoserChainTracker\<close>) and the miner that queues proofs and fork events for submission
  (\<^verbatim>\<open>StaleBlockMiner\<close>). A \<^verbatim>\<open>VecDeque\<close> is a list with its front at the head. Evicting the oldest
  entries is a loop that the code does not bound: it is a \<open>partial_function\<close>, and so is what calls it.
\<close>

section \<open>Tips and fork events\<close>

datatype tip_status = Active | Stale | Competing | Invalid

record chain_tip =
  ct_block_hash :: bytes
  ct_height :: u64
  ct_status :: tip_status
  ct_first_seen :: u64

record fork_event =
  fe_fork_height :: u64
  fe_winner_hash :: bytes
  fe_loser_hashes :: "bytes list"
  fe_reorg_depth :: u32
  fe_detected_at :: u64
  fe_fork_entropy :: bytes

definition entropy_quality :: "fork_event \<Rightarrow> u32" where
  "entropy_quality e = min (fe_reorg_depth e) 10 * 5 + min (word_of_nat (length (fe_loser_hashes e))) 5 * 10"

section \<open>The tracker\<close>

record tracker =
  tk_headers :: "(string, stale_header) hmap"
  tk_proofs :: "(string, stale_proof) hmap"
  tk_fork_events :: "fork_event list"
  tk_tips :: "chain_tip list"
  tk_cumulative_entropy :: bytes
  tk_total_stale :: u64
  tk_total_reorg :: u64
  tk_by_height :: "(u64, string list) hmap"

definition tracker_new :: tracker where
  "tracker_new = \<lparr>tk_headers = [], tk_proofs = [], tk_fork_events = [], tk_tips = [], tk_cumulative_entropy = zeros 32,
     tk_total_stale = 0, tk_total_reorg = 0, tk_by_height = []\<rparr>"

text \<open>\<^verbatim>\<open>Iterator::min_by_key\<close>: the first of the smallest elements.\<close>

fun min_by_key :: "('a \<Rightarrow> 'b::linorder) \<Rightarrow> 'a list \<Rightarrow> 'a option" where
  "min_by_key f [] = None"
| "min_by_key f (x # xs) = (case min_by_key f xs of None \<Rightarrow> Some x | Some y \<Rightarrow> if f y < f x then Some y else Some x)"

definition unlist_height :: "u64 \<Rightarrow> string \<Rightarrow> (u64, string list) hmap \<Rightarrow> (u64, string list) hmap" where
  "unlist_height height hex m =
     (case hm_get m height of
        None \<Rightarrow> m
      | Some hashes \<Rightarrow>
          let kept = filter (\<lambda>h. h \<noteq> hex) hashes in
          if kept = [] then hm_remove height m else hm_insert height kept m)"

definition evict_proof :: "prims \<Rightarrow> string \<Rightarrow> tracker \<Rightarrow> tracker" where
  "evict_proof P proof_id t =
     (case hm_get (tk_proofs t) proof_id of
        None \<Rightarrow> t
      | Some pr \<Rightarrow>
          let hex = hash_hex P (sp_block_hash pr) in
          t\<lparr>tk_proofs := hm_remove proof_id (tk_proofs t), tk_headers := hm_remove hex (tk_headers t),
            tk_by_height := unlist_height (sp_height pr) hex (tk_by_height t)\<rparr>)"

partial_function (option) evict_oldest :: "prims \<Rightarrow> tracker \<Rightarrow> tracker option" where
  "evict_oldest P t =
     (if length (tk_headers t) > MAX_STALE_HISTORY
      then (case min_by_key sp_created_at (hm_values (tk_proofs t)) of
              None \<Rightarrow> Some t
            | Some oldest \<Rightarrow> evict_oldest P (evict_proof P (sp_proof_id oldest) t))
      else Some t)"

definition too_old :: "u64 \<Rightarrow> stale_header \<Rightarrow> u64 option" where
  "too_old now header =
     (let block_time = ucast (sh_timestamp header) in
      if now > block_time then let age = now - block_time in if age > MAX_STALE_AGE_SECS then Some age else None
      else None)"

definition store_stale :: "prims \<Rightarrow> stale_header \<Rightarrow> stale_proof \<Rightarrow> tracker \<Rightarrow> tracker" where
  "store_stale P header pr t =
     (let hex = stale_hash_hex P header in
      t\<lparr>tk_cumulative_entropy := xor_32 (tk_cumulative_entropy t) (sp_entropy pr),
        tk_by_height := hm_insert (sh_height header) (hm_get_or [] (tk_by_height t) (sh_height header) @ [hex]) (tk_by_height t),
        tk_proofs := hm_insert (sp_proof_id pr) pr (tk_proofs t),
        tk_headers := hm_insert hex header (tk_headers t),
        tk_total_stale := tk_total_stale t + 1\<rparr>)"

text \<open>The clock is read for the age check, for the score and for the time of creation, in that order.\<close>

type_synonym clock = "u64 \<times> u64 \<times> u64"

definition record_stale_block :: "prims \<Rightarrow> clock \<Rightarrow> stale_header \<Rightarrow> bytes \<Rightarrow> u32 \<Rightarrow> string \<Rightarrow> tracker
    \<Rightarrow> ((stale_error + stale_proof) \<times> tracker) option" where
  "record_stale_block P clock header canonical_hash reorg_depth submitter t =
     (let (now, now_score, now_created) = clock; hex = stale_hash_hex P header in
      if hm_has (tk_headers t) hex then Some (Inl (AlreadyHarvested hex), t)
      else (case too_old now header of
              Some age \<Rightarrow> Some (Inl (TooOld age MAX_STALE_AGE_SECS), t)
            | None \<Rightarrow>
                (case res_bind (proof_build P now_score now_created header canonical_hash reorg_depth submitter) (\<lambda>pr.
                        res_bind (verify_self P pr) (\<lambda>_. Inr pr)) of
                   Inl e \<Rightarrow> Some (Inl e, t)
                 | Inr pr \<Rightarrow>
                     let t' = store_stale P header pr t in
                     if length (tk_headers t') > MAX_STALE_HISTORY
                     then map_option (\<lambda>t''. (Inr pr, t'')) (evict_oldest P t')
                     else Some (Inr pr, t'))))"

definition record_fork_event :: "fork_event \<Rightarrow> tracker \<Rightarrow> tracker" where
  "record_fork_event event t =
     t\<lparr>tk_total_reorg := tk_total_reorg t + 1,
       tk_fork_events := (if length (tk_fork_events t) \<ge> MAX_STALE_HISTORY then tl (tk_fork_events t) else tk_fork_events t)
         @ [event]\<rparr>"

definition fork_between :: "prims \<Rightarrow> u64 \<Rightarrow> chain_tip \<Rightarrow> chain_tip \<Rightarrow> fork_event" where
  "fork_between P now old_tip winner =
     \<lparr>fe_fork_height = ct_height old_tip, fe_winner_hash = ct_block_hash winner, fe_loser_hashes = [ct_block_hash old_tip],
      fe_reorg_depth = (if ct_height winner \<ge> ct_height old_tip then ucast (ct_height winner - ct_height old_tip + 1) else 1),
      fe_detected_at = now,
      fe_fork_entropy = sha256 P (as_bytes ''TGBT-FORK-EVENT-v1'' @ ct_block_hash old_tip @ ct_block_hash winner
        @ le_bytes 8 (ct_height old_tip))\<rparr>"

definition fork_events_of :: "prims \<Rightarrow> u64 \<Rightarrow> chain_tip list \<Rightarrow> chain_tip list \<Rightarrow> fork_event list" where
  "fork_events_of P now new_tips old_tips =
     List.map_filter (\<lambda>old_tip.
         map_option (fork_between P now old_tip)
           (find (\<lambda>t. ct_height t \<ge> ct_height old_tip \<and> ct_status t = Active) new_tips))
       (filter (\<lambda>old_tip. (ct_status old_tip = Active \<or> ct_status old_tip = Competing)
           \<and> \<not> list_ex (\<lambda>t. ct_block_hash t = ct_block_hash old_tip) new_tips) old_tips)"

definition update_tips :: "prims \<Rightarrow> u64 \<Rightarrow> chain_tip list \<Rightarrow> tracker \<Rightarrow> fork_event list \<times> tracker" where
  "update_tips P now new_tips t =
     (let events = fork_events_of P now new_tips (tk_tips t); t' = fold record_fork_event events t in
      (events, t'\<lparr>tk_tips := take MAX_TRACKED_TIPS new_tips\<rparr>))"

definition stales_at_height :: "tracker \<Rightarrow> u64 \<Rightarrow> string list" where
  "stales_at_height t height = hm_get_or [] (tk_by_height t) height"

definition get_proof :: "tracker \<Rightarrow> string \<Rightarrow> stale_proof option" where
  "get_proof t proof_id = hm_get (tk_proofs t) proof_id"

definition recent_fork_events :: "tracker \<Rightarrow> nat \<Rightarrow> fork_event list" where
  "recent_fork_events t n = take n (rev (tk_fork_events t))"

record tracker_stats =
  st_total_stale :: u64
  st_total_reorg :: u64
  st_average_quality :: u32
  st_max_reorg_depth :: u32
  st_max_leading_zeros :: u32
  st_active_tips :: u32
  st_competing_tips :: u32
  st_cumulative_hex :: string

definition max_or_0 :: "u32 list \<Rightarrow> u32" where
  "max_or_0 xs = fold max xs 0"

definition stats_of :: "prims \<Rightarrow> tracker \<Rightarrow> tracker_stats" where
  "stats_of P t =
     (let proofs = hm_values (tk_proofs t) in
      \<lparr>st_total_stale = tk_total_stale t, st_total_reorg = tk_total_reorg t,
       st_average_quality = (if tk_proofs t = [] then 0
         else ucast (fold (\<lambda>p acc. acc + ucast (sp_quality_score p)) proofs (0 :: u64) div word_of_nat (length (tk_proofs t)))),
       st_max_reorg_depth = max_or_0 (map fe_reorg_depth (tk_fork_events t)),
       st_max_leading_zeros = max_or_0 (map sp_leading_zeros proofs),
       st_active_tips = word_of_nat (length (filter (\<lambda>t. ct_status t = Active) (tk_tips t))),
       st_competing_tips = word_of_nat (length (filter (\<lambda>t. ct_status t = Competing) (tk_tips t))),
       st_cumulative_hex = hex_encode P (tk_cumulative_entropy t)\<rparr>)"

section \<open>The miner\<close>

record mempool_stats =
  ms_mempool_size :: u64
  ms_mempool_vbytes :: u64
  ms_fastest_fee :: u64
  ms_half_hour_fee :: u64
  ms_hour_fee :: u64
  ms_economy_fee :: u64
  ms_minimum_fee :: u64
  ms_captured_at :: u64

text \<open>The fee pressure, with exact numbers for the \<^verbatim>\<open>f64\<close> of the code.\<close>

definition congestion_ratio :: "mempool_stats \<Rightarrow> rat" where
  "congestion_ratio s =
     (if ms_fastest_fee s = 0 then 0
      else let ratio = rat_of_nat (unat (ms_fastest_fee s)) / rat_of_nat (unat (max (ms_economy_fee s) 1)) in
        min (max ((ratio - 1) / 9) 0) 1)"

lemma congestion_ratio_bounds: "0 \<le> congestion_ratio s \<and> congestion_ratio s \<le> 1"
  by (simp add: congestion_ratio_def Let_def)

text \<open>Of the configuration only the submitter's address is read; the thresholds in it are not.\<close>

record stale_config =
  sg_bitcoin_api_url :: string
  sg_api_key :: "string option"
  sg_poll_interval_secs :: u64
  sg_min_leading_zeros :: u32
  sg_max_stale_age_secs :: u64
  sg_submitter_address :: string
  sg_auto_submit :: bool

definition stale_config_default :: stale_config where
  "stale_config_default = \<lparr>sg_bitcoin_api_url = ''https://api.nativebtc.org'', sg_api_key = None, sg_poll_interval_secs = 30, sg_min_leading_zeros = MIN_LEADING_ZEROS,
     sg_max_stale_age_secs = MAX_STALE_AGE_SECS, sg_submitter_address = [], sg_auto_submit = False\<rparr>"

record stale_miner =
  sm_config :: stale_config
  sm_tracker :: tracker
  sm_pending_proofs :: "stale_proof list"
  sm_pending_forks :: "fork_event list"

definition stale_miner_new :: "stale_config \<Rightarrow> stale_miner" where
  "stale_miner_new config = \<lparr>sm_config = config, sm_tracker = tracker_new, sm_pending_proofs = [], sm_pending_forks = []\<rparr>"

definition proof_of_loser :: "prims \<Rightarrow> u64 \<Rightarrow> u64 \<Rightarrow> stale_miner \<Rightarrow> fork_event \<Rightarrow> bytes \<Rightarrow> stale_proof option" where
  "proof_of_loser P now_score now_created m event loser_hash =
     (case hm_get (tk_headers (sm_tracker m)) (hash_hex P loser_hash) of
        None \<Rightarrow> None
      | Some header \<Rightarrow>
          (case proof_build P now_score now_created header (fe_winner_hash event) (fe_reorg_depth event)
              (sg_submitter_address (sm_config m)) of
             Inl _ \<Rightarrow> None | Inr pr \<Rightarrow> Some pr))"

definition process_tips :: "prims \<Rightarrow> clock \<Rightarrow> chain_tip list \<Rightarrow> stale_miner \<Rightarrow> stale_proof list \<times> stale_miner" where
  "process_tips P clock tips m =
     (let (now, now_score, now_created) = clock; (events, t) = update_tips P now tips (sm_tracker m);
          m' = m\<lparr>sm_tracker := t, sm_pending_forks := sm_pending_forks m @ events\<rparr>;
          new_proofs = concat (map (\<lambda>event.
            List.map_filter (proof_of_loser P now_score now_created m' event) (fe_loser_hashes event)) events) in
      (new_proofs, m'\<lparr>sm_pending_proofs := sm_pending_proofs m' @ new_proofs\<rparr>))"

definition submit_stale :: "prims \<Rightarrow> clock \<Rightarrow> stale_header \<Rightarrow> bytes \<Rightarrow> u32 \<Rightarrow> stale_miner
    \<Rightarrow> ((stale_error + stale_proof) \<times> stale_miner) option" where
  "submit_stale P clock header canonical_hash reorg_depth m =
     (if sh_block_hash header = canonical_hash then Some (Inl (NotStale (stale_hash_hex P header)), m)
      else map_option (\<lambda>(r, t).
             (r, case r of Inl _ \<Rightarrow> m\<lparr>sm_tracker := t\<rparr>
                 | Inr pr \<Rightarrow> m\<lparr>sm_tracker := t, sm_pending_proofs := sm_pending_proofs m @ [pr]\<rparr>))
        (record_stale_block P clock header canonical_hash reorg_depth (sg_submitter_address (sm_config m)) (sm_tracker m)))"

definition submit_stale_header :: "prims \<Rightarrow> clock \<Rightarrow> bytes \<Rightarrow> u64 \<Rightarrow> bytes \<Rightarrow> u32 \<Rightarrow> stale_miner
    \<Rightarrow> ((stale_error + stale_proof) \<times> stale_miner) option" where
  "submit_stale_header P clock raw_header height canonical_hash reorg_depth m =
     (case header_from_raw P raw_header height of
        Inl e \<Rightarrow> Some (Inl e, m)
      | Inr header \<Rightarrow> submit_stale P clock header canonical_hash reorg_depth m)"

definition submit_stale_fields :: "prims \<Rightarrow> clock \<Rightarrow> u32 \<Rightarrow> bytes \<Rightarrow> bytes \<Rightarrow> u32 \<Rightarrow> u32 \<Rightarrow> u32 \<Rightarrow> u64 \<Rightarrow> bytes \<Rightarrow> u32
    \<Rightarrow> stale_miner \<Rightarrow> ((stale_error + stale_proof) \<times> stale_miner) option" where
  "submit_stale_fields P clock version prev_block_hash merkle timestamp bits nonce height canonical_hash reorg_depth m =
     submit_stale P clock (header_from_fields P version prev_block_hash merkle timestamp bits nonce height)
       canonical_hash reorg_depth m"

definition drain_pending_proofs :: "stale_miner \<Rightarrow> stale_proof list \<times> stale_miner" where
  "drain_pending_proofs m = (sm_pending_proofs m, m\<lparr>sm_pending_proofs := []\<rparr>)"

definition requeue_pending_proofs :: "stale_proof list \<Rightarrow> stale_miner \<Rightarrow> stale_miner" where
  "requeue_pending_proofs proofs m = fold (\<lambda>p m. m\<lparr>sm_pending_proofs := p # sm_pending_proofs m\<rparr>) (rev proofs) m"

definition latest_pending_proof :: "stale_miner \<Rightarrow> stale_proof option" where
  "latest_pending_proof m = (if sm_pending_proofs m = [] then None else Some (last (sm_pending_proofs m)))"

definition drain_pending_fork_events :: "stale_miner \<Rightarrow> fork_event list \<times> stale_miner" where
  "drain_pending_fork_events m = (sm_pending_forks m, m\<lparr>sm_pending_forks := []\<rparr>)"

definition requeue_fork_events :: "fork_event list \<Rightarrow> stale_miner \<Rightarrow> stale_miner" where
  "requeue_fork_events events m = fold (\<lambda>e m. m\<lparr>sm_pending_forks := e # sm_pending_forks m\<rparr>) (rev events) m"

definition stale_entropy_report :: "prims \<Rightarrow> u64 \<Rightarrow> u64 \<Rightarrow> stale_miner \<Rightarrow> string \<Rightarrow> bytes \<Rightarrow> u32 \<Rightarrow> entropy_report option" where
  "stale_entropy_report P now_score now_generated m block_hash_hex canonical_hash reorg_depth =
     map_option (\<lambda>header. report_build P now_score now_generated header canonical_hash reorg_depth)
       (hm_get (tk_headers (sm_tracker m)) block_hash_hex)"

section \<open>The invariant of the tracker\<close>

definition headers_ok :: "prims \<Rightarrow> tracker \<Rightarrow> bool" where
  "headers_ok P t \<longleftrightarrow> hm_wf (tk_headers t)
     \<and> (\<forall>k h. hm_get (tk_headers t) k = Some h \<longrightarrow> k = stale_hash_hex P h \<and> stale_wf P h)"

definition proofs_ok :: "prims \<Rightarrow> tracker \<Rightarrow> bool" where
  "proofs_ok P t \<longleftrightarrow> hm_wf (tk_proofs t)
     \<and> (\<forall>i p. hm_get (tk_proofs t) i = Some p \<longrightarrow> i = sp_proof_id p \<and> verify_self P p = Inr ()
          \<and> (\<exists>h. hm_get (tk_headers t) (hash_hex P (sp_block_hash p)) = Some h \<and> sh_height h = sp_height p))"

definition paired :: "prims \<Rightarrow> tracker \<Rightarrow> bool" where
  "paired P t \<longleftrightarrow>
     (\<forall>k. hm_has (tk_headers t) k \<longrightarrow> (\<exists>i p. hm_get (tk_proofs t) i = Some p \<and> hash_hex P (sp_block_hash p) = k))
     \<and> (\<forall>i j p q. hm_get (tk_proofs t) i = Some p \<longrightarrow> hm_get (tk_proofs t) j = Some q
          \<longrightarrow> sp_block_hash p = sp_block_hash q \<longrightarrow> i = j)"

definition index_ok :: "tracker \<Rightarrow> bool" where
  "index_ok t \<longleftrightarrow> hm_wf (tk_by_height t) \<and> (\<forall>height. hm_get (tk_by_height t) height \<noteq> Some [])
     \<and> (\<forall>height. distinct (stales_at_height t height))
     \<and> (\<forall>height. set (stales_at_height t height) = {k. \<exists>h. hm_get (tk_headers t) k = Some h \<and> sh_height h = height})"

definition linked :: "prims \<Rightarrow> tracker \<Rightarrow> bool" where
  "linked P t \<longleftrightarrow> headers_ok P t \<and> proofs_ok P t \<and> paired P t \<and> index_ok t"

definition tracker_ok :: "prims \<Rightarrow> tracker \<Rightarrow> bool" where
  "tracker_ok P t \<longleftrightarrow> linked P t \<and> length (tk_headers t) \<le> MAX_STALE_HISTORY
     \<and> length (tk_fork_events t) \<le> MAX_STALE_HISTORY \<and> length (tk_tips t) \<le> MAX_TRACKED_TIPS"

lemma hash_hex_inj: "hex_ok P \<Longrightarrow> hash_hex P a = hash_hex P b \<longleftrightarrow> a = b"
  by (simp add: hash_hex_def hex_encode_inj)

lemma length_hm_remove: "hm_wf m \<Longrightarrow> length (hm_remove k m) = (if hm_has m k then length m - 1 else length m)"
proof (induction m)
  case (Cons x m)
  obtain a b where x: "x = (a, b)" by (cases x)
  from Cons.prems x have wf: "hm_wf m" "a \<notin> set (hm_keys m)" by (simp_all add: hm_wf_def hm_keys_def)
  show ?case
  proof (cases "a = k")
    case True
    then have "\<not> hm_has m k" using wf(2) by (simp add: hm_has_iff)
    then have "length (hm_remove k m) = length m" using Cons.IH [OF wf(1)] by simp
    moreover have "hm_remove k (x # m) = hm_remove k m" by (simp add: hm_remove_def x True)
    ultimately show ?thesis by (simp add: hm_has_def x True)
  next
    case False
    then have "hm_remove k (x # m) = x # hm_remove k m" by (simp add: hm_remove_def x)
    moreover have "hm_has (x # m) k = hm_has m k" using False by (simp add: hm_has_def x)
    moreover have "hm_has m k \<Longrightarrow> 0 < length m" by (auto simp: hm_has_def)
    ultimately show ?thesis using Cons.IH [OF wf(1)] by (simp split: if_splits)
  qed
qed (simp add: hm_remove_def hm_has_def)

lemma min_by_key_None: "min_by_key f xs = None \<longleftrightarrow> xs = []"
  by (cases xs) (auto split: option.splits)

lemma min_by_key_mem: "min_by_key f xs = Some x \<Longrightarrow> x \<in> set xs \<and> (\<forall>y \<in> set xs. f x \<le> f y)"
proof (induction xs arbitrary: x)
  case (Cons a xs)
  show ?case
  proof (cases "min_by_key f xs")
    case None
    with Cons.prems show ?thesis by (simp add: min_by_key_None)
  next
    case (Some y)
    with Cons.IH have y: "y \<in> set xs" "\<forall>z \<in> set xs. f y \<le> f z" by blast+
    from Cons.prems Some have "x = (if f y < f a then y else a)" by (simp split: if_splits)
    with y show ?thesis by (auto intro: order_trans)
  qed
qed simp

lemma hm_values_get: "hm_wf m \<Longrightarrow> v \<in> set (hm_values m) \<longleftrightarrow> (\<exists>k. hm_get m k = Some v)"
  by (force simp: hm_values_def hm_get_mem_iff)

lemma store_stale_sel [simp]:
  "tk_headers (store_stale P h p t) = hm_insert (stale_hash_hex P h) h (tk_headers t)"
  "tk_proofs (store_stale P h p t) = hm_insert (sp_proof_id p) p (tk_proofs t)"
  "tk_by_height (store_stale P h p t) = hm_insert (sh_height h) (stales_at_height t (sh_height h) @ [stale_hash_hex P h]) (tk_by_height t)"
  "tk_fork_events (store_stale P h p t) = tk_fork_events t" "tk_tips (store_stale P h p t) = tk_tips t"
  by (simp_all add: store_stale_def stales_at_height_def Let_def)

lemma store_linked:
  assumes "hex_ok P" "linked P t" "stale_wf P h" "\<not> hm_has (tk_headers t) (stale_hash_hex P h)"
    and "proof_build P n1 n2 h canonical d sub = Inr p" "verify_self P p = Inr ()"
    and "get_proof t (sp_proof_id p) = None"
  shows "linked P (store_stale P h p t)"
proof -
  have l: "headers_ok P t" "proofs_ok P t" "paired P t" "index_ok t"
    using assms(2) by (simp_all add: linked_def)
  note f = proof_build_fields [OF assms(5)]
  have key: "hash_hex P (sp_block_hash p) = stale_hash_hex P h"
    by (simp add: f stale_hash_hex_def)
  have fresh: "hm_get (tk_proofs t) (sp_proof_id p) = None" "hm_get (tk_headers t) (stale_hash_hex P h) = None"
    using assms(4,7) by (simp_all add: get_proof_def hm_has_def)
  have other: "sp_block_hash q \<noteq> sp_block_hash p" if "hm_get (tk_proofs t) i = Some q" for i q
    using l(2) that fresh(2) key by (fastforce simp: proofs_ok_def)
  have "headers_ok P (store_stale P h p t)"
    using l(1) assms(3) by (auto simp: headers_ok_def)
  moreover have "proofs_ok P (store_stale P h p t)"
    unfolding proofs_ok_def
  proof (intro conjI allI impI)
    show "hm_wf (tk_proofs (store_stale P h p t))" using l(2) by (simp add: proofs_ok_def)
    fix i q assume i: "hm_get (tk_proofs (store_stale P h p t)) i = Some q"
    show "i = sp_proof_id q" "verify_self P q = Inr ()"
      using i l(2) assms(6) by (auto simp: proofs_ok_def split: if_splits)
    show "\<exists>x. hm_get (tk_headers (store_stale P h p t)) (hash_hex P (sp_block_hash q)) = Some x \<and> sh_height x = sp_height q"
    proof (cases "i = sp_proof_id p")
      case True
      with i have "q = p" by simp
      with key f(4) show ?thesis by simp
    next
      case False
      with i have q: "hm_get (tk_proofs t) i = Some q" by simp
      with other have "hash_hex P (sp_block_hash q) \<noteq> stale_hash_hex P h"
        using key hash_hex_inj [OF assms(1)] by metis
      with q l(2) show ?thesis by (auto simp: proofs_ok_def)
    qed
  qed
  moreover have "paired P (store_stale P h p t)"
  proof -
    have "\<exists>i q. hm_get (tk_proofs (store_stale P h p t)) i = Some q \<and> hash_hex P (sp_block_hash q) = k"
      if k: "hm_has (tk_headers (store_stale P h p t)) k" for k
    proof (cases "k = stale_hash_hex P h")
      case True
      with key show ?thesis by (intro exI [of _ "sp_proof_id p"] exI [of _ p]) simp
    next
      case False
      with k have "hm_has (tk_headers t) k" by (simp add: hm_has_def)
      with l(3) obtain i q where "hm_get (tk_proofs t) i = Some q" "hash_hex P (sp_block_hash q) = k"
        by (auto simp: paired_def)
      with fresh(1) show ?thesis by (intro exI [of _ i] exI [of _ q]) auto
    qed
    moreover have "i = j" if "hm_get (tk_proofs (store_stale P h p t)) i = Some x"
      "hm_get (tk_proofs (store_stale P h p t)) j = Some y" "sp_block_hash x = sp_block_hash y" for i j x y
      using that l(3) other by (auto simp: paired_def split: if_splits)
    ultimately show ?thesis unfolding paired_def by blast
  qed
  moreover have "index_ok (store_stale P h p t)"
  proof -
    have new: "stale_hash_hex P h \<notin> set (stales_at_height t height)" for height
      using l(4) fresh(2) by (simp add: index_ok_def)
    have s: "stales_at_height (store_stale P h p t) height
        = (if height = sh_height h then stales_at_height t height @ [stale_hash_hex P h] else stales_at_height t height)" for height
      by (simp add: stales_at_height_def)
    have old: "set (stales_at_height t height) = {k. \<exists>x. hm_get (tk_headers t) k = Some x \<and> sh_height x = height}" for height
      using l(4) by (simp add: index_ok_def)
    have "set (stales_at_height (store_stale P h p t) height)
        = {k. \<exists>x. hm_get (tk_headers (store_stale P h p t)) k = Some x \<and> sh_height x = height}" for height
    proof (rule set_eqI)
      fix k show "k \<in> set (stales_at_height (store_stale P h p t) height)
        \<longleftrightarrow> k \<in> {k. \<exists>x. hm_get (tk_headers (store_stale P h p t)) k = Some x \<and> sh_height x = height}"
        using fresh(2) by (cases "k = stale_hash_hex P h") (simp_all add: s old)
    qed
    with l(4) new show ?thesis by (simp add: index_ok_def s)
  qed
  ultimately show ?thesis by (simp add: linked_def)
qed

lemma evict_sel:
  assumes "hm_get (tk_proofs t) i = Some p"
  shows "tk_headers (evict_proof P i t) = hm_remove (hash_hex P (sp_block_hash p)) (tk_headers t)"
    "tk_proofs (evict_proof P i t) = hm_remove i (tk_proofs t)"
    "tk_by_height (evict_proof P i t) = unlist_height (sp_height p) (hash_hex P (sp_block_hash p)) (tk_by_height t)"
    "tk_fork_events (evict_proof P i t) = tk_fork_events t" "tk_tips (evict_proof P i t) = tk_tips t"
    "tk_total_stale (evict_proof P i t) = tk_total_stale t" "tk_cumulative_entropy (evict_proof P i t) = tk_cumulative_entropy t"
  using assms by (simp_all add: evict_proof_def Let_def)

lemma unlist_height_get:
  assumes "hm_wf m" "\<forall>x. hm_get m x \<noteq> Some []"
  shows "hm_wf (unlist_height height hex m)" "\<forall>x. hm_get (unlist_height height hex m) x \<noteq> Some []"
    "hm_get_or [] (unlist_height height hex m) x
      = (if x = height then filter (\<lambda>h. h \<noteq> hex) (hm_get_or [] m x) else hm_get_or [] m x)"
  using assms by (auto simp: unlist_height_def Let_def hm_get_or_def split: option.splits)

lemma evict_linked:
  assumes "hex_ok P" "linked P t" "hm_get (tk_proofs t) i = Some p"
  shows "linked P (evict_proof P i t)"
proof -
  let ?k = "hash_hex P (sp_block_hash p)"
  have l: "headers_ok P t" "proofs_ok P t" "paired P t" "index_ok t"
    using assms(2) by (simp_all add: linked_def)
  note e = evict_sel [OF assms(3)]
  obtain h where h: "hm_get (tk_headers t) ?k = Some h" "sh_height h = sp_height p"
    using l(2) assms(3) by (auto simp: proofs_ok_def)
  have other: "hash_hex P (sp_block_hash q) \<noteq> ?k" if "hm_get (tk_proofs t) j = Some q" "j \<noteq> i" for j q
    using that l(3) assms(3) unfolding paired_def hash_hex_inj [OF assms(1)] by blast
  have "headers_ok P (evict_proof P i t)"
    using l(1) by (auto simp: headers_ok_def e)
  moreover have "proofs_ok P (evict_proof P i t)"
    using l(2) other by (auto simp: proofs_ok_def e)
  moreover have "paired P (evict_proof P i t)"
    unfolding paired_def
  proof (intro conjI allI impI)
    fix k assume "hm_has (tk_headers (evict_proof P i t)) k"
    then have k: "k \<noteq> ?k" "hm_has (tk_headers t) k" by (auto simp: hm_has_def e split: if_splits)
    with l(3) obtain j q where "hm_get (tk_proofs t) j = Some q" "hash_hex P (sp_block_hash q) = k"
      unfolding paired_def by blast
    moreover from this k(1) assms(3) have "j \<noteq> i" by auto
    ultimately show "\<exists>j q. hm_get (tk_proofs (evict_proof P i t)) j = Some q \<and> hash_hex P (sp_block_hash q) = k"
      by (intro exI [of _ j] exI [of _ q]) (simp add: e)
  next
    fix j m x y
    assume "hm_get (tk_proofs (evict_proof P i t)) j = Some x" "hm_get (tk_proofs (evict_proof P i t)) m = Some y"
      "sp_block_hash x = sp_block_hash y"
    with l(3) show "j = m" by (auto simp: paired_def e split: if_splits)
  qed
  moreover have "index_ok (evict_proof P i t)"
  proof -
    have w: "hm_wf (tk_by_height t)" "\<forall>x. hm_get (tk_by_height t) x \<noteq> Some []"
      using l(4) by (simp_all add: index_ok_def)
    have s: "stales_at_height (evict_proof P i t) height
        = (if height = sp_height p then filter (\<lambda>x. x \<noteq> ?k) (stales_at_height t height) else stales_at_height t height)" for height
      by (simp add: stales_at_height_def e unlist_height_get(3) [OF w])
    have "set (stales_at_height (evict_proof P i t) height)
        = {k. \<exists>x. hm_get (tk_headers (evict_proof P i t)) k = Some x \<and> sh_height x = height}" for height
      using l(4) h by (auto simp: index_ok_def s e)
    with l(4) show ?thesis
      using unlist_height_get(1,2) [OF w] by (simp add: index_ok_def s e)
  qed
  ultimately show ?thesis by (simp add: linked_def)
qed

text \<open>One entry too many: the loop runs once, and what it removes is a proof created first.\<close>

lemma evict_oldest_once:
  assumes "hex_ok P" "linked P t" "length (tk_headers t) = Suc MAX_STALE_HISTORY"
  shows "\<exists>i p. hm_get (tk_proofs t) i = Some p \<and> (\<forall>j q. hm_get (tk_proofs t) j = Some q \<longrightarrow> sp_created_at p \<le> sp_created_at q)
    \<and> evict_oldest P t = Some (evict_proof P i t) \<and> length (tk_headers (evict_proof P i t)) = MAX_STALE_HISTORY"
proof -
  have l: "headers_ok P t" "proofs_ok P t" "paired P t"
    using assms(2) by (simp_all add: linked_def)
  obtain k where "k \<in> set (hm_keys (tk_headers t))"
    using assms(3) by (cases "tk_headers t") (auto simp: hm_keys_def)
  then obtain j q where "hm_get (tk_proofs t) j = Some q"
    using l(3) unfolding paired_def hm_has_iff by blast
  then have "hm_values (tk_proofs t) \<noteq> []"
    by (auto simp: hm_values_def)
  then obtain p where p: "min_by_key sp_created_at (hm_values (tk_proofs t)) = Some p"
    using min_by_key_None by blast
  have wf: "hm_wf (tk_proofs t)" using l(2) by (simp add: proofs_ok_def)
  obtain i where i: "hm_get (tk_proofs t) i = Some p"
    using min_by_key_mem [OF p] hm_values_get [OF wf] by blast
  then have id: "sp_proof_id p = i" using l(2) by (auto simp: proofs_ok_def)
  have "hm_has (tk_headers t) (hash_hex P (sp_block_hash p))"
    using i l(2) by (fastforce simp: proofs_ok_def hm_has_def)
  then have len: "length (tk_headers (evict_proof P i t)) = MAX_STALE_HISTORY"
    using l(1) assms(3) by (simp add: evict_sel [OF i] length_hm_remove headers_ok_def)
  then have "evict_oldest P (evict_proof P i t) = Some (evict_proof P i t)"
    by (subst evict_oldest.simps) simp
  then have "evict_oldest P t = Some (evict_proof P i t)"
    using assms(3) p id by (subst evict_oldest.simps) simp
  moreover have "\<forall>j q. hm_get (tk_proofs t) j = Some q \<longrightarrow> sp_created_at p \<le> sp_created_at q"
    using min_by_key_mem [OF p] hm_values_get [OF wf] by blast
  ultimately show ?thesis using i len by blast
qed

lemma tracker_ok_new: "tracker_ok P tracker_new"
  by (simp add: tracker_ok_def linked_def headers_ok_def proofs_ok_def paired_def index_ok_def tracker_new_def hm_has_def
      stales_at_height_def)

section \<open>What every operation does\<close>

definition verified_build :: "prims \<Rightarrow> u64 \<Rightarrow> u64 \<Rightarrow> stale_header \<Rightarrow> bytes \<Rightarrow> u32 \<Rightarrow> string \<Rightarrow> stale_error + stale_proof" where
  "verified_build P now_score now_created h canonical d sub =
     res_bind (proof_build P now_score now_created h canonical d sub) (\<lambda>pr. res_bind (verify_self P pr) (\<lambda>_. Inr pr))"

lemma verified_build_InrD:
  assumes "verified_build P n1 n2 h canonical d sub = Inr p"
  shows "proof_build P n1 n2 h canonical d sub = Inr p" "verify_self P p = Inr ()"
  using assms by (auto simp: verified_build_def res_bind_Inr_iff)

lemma verified_build_ok_iff:
  assumes "stale_wf P h"
  shows "(\<exists>p. verified_build P n1 n2 h canonical d sub = Inr p)
    \<longleftrightarrow> MIN_LEADING_ZEROS \<le> stale_leading_zero_bits h \<and> d \<le> MAX_REORG_DEPTH \<and> sh_block_hash h \<noteq> canonical"
proof (cases "proof_build P n1 n2 h canonical d sub")
  case (Inl e)
  with proof_build_ok_iff [of P n1 n2 h canonical d sub] show ?thesis
    by (auto simp: verified_build_def)
next
  case (Inr p)
  with proof_build_ok_iff [of P n1 n2 h canonical d sub] built_proof_verifies [OF Inr assms] show ?thesis
    by (auto simp: verified_build_def)
qed

lemma record_simps:
  "hm_has (tk_headers t) (stale_hash_hex P h) \<Longrightarrow>
     record_stale_block P (now, n1, n2) h canonical d sub t = Some (Inl (AlreadyHarvested (stale_hash_hex P h)), t)"
  "\<not> hm_has (tk_headers t) (stale_hash_hex P h) \<Longrightarrow> too_old now h = Some age \<Longrightarrow>
     record_stale_block P (now, n1, n2) h canonical d sub t = Some (Inl (TooOld age MAX_STALE_AGE_SECS), t)"
  "\<not> hm_has (tk_headers t) (stale_hash_hex P h) \<Longrightarrow> too_old now h = None \<Longrightarrow> verified_build P n1 n2 h canonical d sub = Inl e \<Longrightarrow>
     record_stale_block P (now, n1, n2) h canonical d sub t = Some (Inl e, t)"
  "\<not> hm_has (tk_headers t) (stale_hash_hex P h) \<Longrightarrow> too_old now h = None \<Longrightarrow> verified_build P n1 n2 h canonical d sub = Inr p \<Longrightarrow>
     record_stale_block P (now, n1, n2) h canonical d sub t =
       (let t' = store_stale P h p t in
        if length (tk_headers t') > MAX_STALE_HISTORY then map_option (\<lambda>t''. (Inr p, t'')) (evict_oldest P t') else Some (Inr p, t'))"
  by (simp_all add: record_stale_block_def verified_build_def Let_def)

lemma record_ok:
  assumes "hex_ok P" "tracker_ok P t" "stale_wf P h" "\<not> hm_has (tk_headers t) (stale_hash_hex P h)" "too_old now h = None"
    and "verified_build P n1 n2 h canonical d sub = Inr p" "get_proof t (sp_proof_id p) = None"
  shows "\<exists>t'. record_stale_block P (now, n1, n2) h canonical d sub t = Some (Inr p, t') \<and> tracker_ok P t'"
proof -
  let ?t = "store_stale P h p t"
  have ok: "linked P t" "length (tk_headers t) \<le> MAX_STALE_HISTORY" "length (tk_fork_events t) \<le> MAX_STALE_HISTORY"
    "length (tk_tips t) \<le> MAX_TRACKED_TIPS"
    using assms(2) by (simp_all add: tracker_ok_def)
  note rec = record_simps(4) [OF assms(4-6)]
  have l: "linked P ?t"
    by (rule store_linked [OF assms(1) ok(1) assms(3,4) verified_build_InrD [OF assms(6)] assms(7)])
  have len: "length (tk_headers ?t) = Suc (length (tk_headers t))"
    using assms(4) by (simp add: length_hm_insert)
  show ?thesis
  proof (cases "length (tk_headers t) = MAX_STALE_HISTORY")
    case True
    with len have "length (tk_headers ?t) = Suc MAX_STALE_HISTORY" by simp
    then obtain i q where e: "hm_get (tk_proofs ?t) i = Some q" "evict_oldest P ?t = Some (evict_proof P i ?t)"
      "length (tk_headers (evict_proof P i ?t)) = MAX_STALE_HISTORY"
      using evict_oldest_once [OF assms(1) l] by blast
    with evict_linked [OF assms(1) l e(1)] ok have "tracker_ok P (evict_proof P i ?t)"
      by (simp add: tracker_ok_def evict_sel(4,5) [OF e(1)])
    with rec len True e(2) show ?thesis by (simp add: Let_def)
  next
    case False
    with len ok l have "tracker_ok P ?t" by (simp add: tracker_ok_def)
    with rec len False ok(2) show ?thesis by (simp add: Let_def)
  qed
qed

lemma record_fork_event_sel [simp]:
  "tk_headers (record_fork_event e t) = tk_headers t" "tk_proofs (record_fork_event e t) = tk_proofs t"
  "tk_by_height (record_fork_event e t) = tk_by_height t" "tk_tips (record_fork_event e t) = tk_tips t"
  by (simp_all add: record_fork_event_def)

lemma linked_cong:
  assumes "tk_headers t' = tk_headers t" "tk_proofs t' = tk_proofs t" "tk_by_height t' = tk_by_height t"
  shows "linked P t' = linked P t"
  using assms by (simp add: linked_def headers_ok_def proofs_ok_def paired_def index_ok_def stales_at_height_def)

lemma tracker_ok_event: "tracker_ok P t \<Longrightarrow> tracker_ok P (record_fork_event e t)"
  using linked_cong [of "record_fork_event e t" t P]
  by (auto simp: tracker_ok_def) (auto simp: record_fork_event_def MAX_STALE_HISTORY_def)

lemma tracker_ok_tips: "tracker_ok P t \<Longrightarrow> tracker_ok P (snd (update_tips P' now tips t))"
proof -
  assume t: "tracker_ok P t"
  have "tracker_ok P (fold record_fork_event es t)" for es
    using t by (induction es arbitrary: t) (simp_all add: tracker_ok_event)
  moreover have "tracker_ok P (u\<lparr>tk_tips := take MAX_TRACKED_TIPS tips\<rparr>)" if "tracker_ok P u" for u
    using that linked_cong [of "u\<lparr>tk_tips := take MAX_TRACKED_TIPS tips\<rparr>" u P] by (simp add: tracker_ok_def)
  ultimately show ?thesis by (simp add: update_tips_def Let_def)
qed

lemma too_old_iff:
  "too_old now h = None \<longleftrightarrow> unat now \<le> unat (sh_timestamp h) + unat MAX_STALE_AGE_SECS"
proof -
  have t: "unat (ucast (sh_timestamp h) :: u64) = unat (sh_timestamp h)"
  proof -
    have "unat (sh_timestamp h) < 2 ^ 32" using unsigned_less [of "sh_timestamp h"] by simp
    then show ?thesis by (simp add: unsigned_ucast_eq take_bit_nat_eq_self)
  qed
  show ?thesis
    by (auto simp: too_old_def Let_def word_le_nat_alt word_less_nat_alt unat_sub_le t split: if_splits)
qed

text \<open>The conditions under which a header is harvested.\<close>

definition harvestable :: "prims \<Rightarrow> u64 \<Rightarrow> stale_header \<Rightarrow> bytes \<Rightarrow> u32 \<Rightarrow> tracker \<Rightarrow> bool" where
  "harvestable P now h canonical d t \<longleftrightarrow> sh_block_hash h \<noteq> canonical \<and> \<not> hm_has (tk_headers t) (stale_hash_hex P h)
     \<and> too_old now h = None \<and> 32 \<le> stale_leading_zero_bits h \<and> d \<le> 100"

lemma submit_refused:
  assumes "stale_wf P h" "\<not> harvestable P now h canonical d (sm_tracker m)"
  shows "\<exists>e. submit_stale P (now, n1, n2) h canonical d m = Some (Inl e, m)"
proof (cases "sh_block_hash h = canonical")
  case False
  let ?t = "sm_tracker m" and ?sub = "sg_submitter_address (sm_config m)"
  have "\<exists>e. record_stale_block P (now, n1, n2) h canonical d ?sub ?t = Some (Inl e, ?t)"
  proof (cases "hm_has (tk_headers ?t) (stale_hash_hex P h)")
    case True
    then show ?thesis using record_simps(1) by blast
  next
    case new: False
    show ?thesis
    proof (cases "too_old now h")
      case (Some age)
      then show ?thesis using record_simps(2) [OF new] by blast
    next
      case None
      with False new assms(2) have "\<not> (\<exists>p. verified_build P n1 n2 h canonical d ?sub = Inr p)"
        using verified_build_ok_iff [OF assms(1), of n1 n2 canonical d ?sub]
        by (simp add: harvestable_def MIN_LEADING_ZEROS_def MAX_REORG_DEPTH_def)
      then obtain e where "verified_build P n1 n2 h canonical d ?sub = Inl e"
        by (cases "verified_build P n1 n2 h canonical d ?sub") auto
      then show ?thesis using record_simps(3) [OF new None] by blast
    qed
  qed
  with False show ?thesis by (auto simp: submit_stale_def)
qed (simp add: submit_stale_def)

lemma submit_accepted:
  assumes "hex_ok P" "tracker_ok P (sm_tracker m)" "stale_wf P h" "harvestable P now h canonical d (sm_tracker m)"
    and "get_proof (sm_tracker m) (compute_proof_id P (sh_block_hash h) canonical (sh_height h) d (sg_submitter_address (sm_config m))) = None"
  shows "\<exists>p m'. submit_stale P (now, n1, n2) h canonical d m = Some (Inr p, m') \<and> tracker_ok P (sm_tracker m')
    \<and> verify_self P p = Inr () \<and> sp_raw_header p = to_raw h \<and> sp_height p = sh_height h \<and> sp_quality_score p \<le> 100
    \<and> sm_pending_proofs m' = sm_pending_proofs m @ [p]"
proof -
  let ?t = "sm_tracker m" and ?sub = "sg_submitter_address (sm_config m)"
  have c: "sh_block_hash h \<noteq> canonical" "\<not> hm_has (tk_headers ?t) (stale_hash_hex P h)" "too_old now h = None"
    using assms(4) by (simp_all add: harvestable_def)
  obtain p where p: "verified_build P n1 n2 h canonical d ?sub = Inr p"
    using verified_build_ok_iff [OF assms(3), of n1 n2 canonical d ?sub] assms(4)
    by (auto simp: harvestable_def MIN_LEADING_ZEROS_def MAX_REORG_DEPTH_def)
  note b = verified_build_InrD [OF p]
  note f = proof_build_fields [OF b(1)]
  have "get_proof ?t (sp_proof_id p) = None" using assms(5) by (simp add: f)
  from record_ok [OF assms(1-3) c(2,3) p this] obtain t' where
    "record_stale_block P (now, n1, n2) h canonical d ?sub ?t = Some (Inr p, t')" "tracker_ok P t'" by blast
  moreover have "sp_quality_score p \<le> 100" by (simp add: f compute_quality_score_def)
  ultimately show ?thesis
    using c(1) b(2) by (simp add: submit_stale_def f)
qed

section \<open>Properties\<close>

text \<open>C28: A raw header is harvested exactly when it has 80 bytes, its hash is not the canonical one and has 32
  leading zero bits, it is not harvested yet, at most a week old (or from the future) and the claimed depth is
  at most 100. The submission then always returns, even when the history is full: the proof verifies, carries
  the raw header, scores at most 100 and is queued last. A refusal changes nothing, and in every case the
  tracker stays consistent: at most 1024 headers, each with one proof and one entry in the index of its
  height.\<close>

theorem stale_submission_exact:
  assumes "hex_ok P" "tracker_ok P (sm_tracker m)"
    and "get_proof (sm_tracker m) (compute_proof_id P (double_sha256 P raw) canonical height d (sg_submitter_address (sm_config m))) = None"
  shows "\<exists>r m'. submit_stale_header P (now, n1, n2) raw height canonical d m = Some (r, m') \<and> tracker_ok P (sm_tracker m')
    \<and> ((\<exists>p. r = Inr p) \<longleftrightarrow> length raw = 80 \<and> double_sha256 P raw \<noteq> canonical
         \<and> \<not> hm_has (tk_headers (sm_tracker m)) (hash_hex P (double_sha256 P raw))
         \<and> unat now \<le> unat (from_le_bytes (take 4 (drop 68 raw)) :: u32) + 604800
         \<and> 32 \<le> count_leading_zero_bits_be (double_sha256 P raw) \<and> d \<le> 100)
    \<and> (\<forall>p. r = Inr p \<longrightarrow> verify_self P p = Inr () \<and> sp_raw_header p = raw \<and> sp_height p = height
         \<and> sp_quality_score p \<le> 100 \<and> sm_pending_proofs m' = sm_pending_proofs m @ [p])
    \<and> (\<forall>e. r = Inl e \<longrightarrow> m' = m)"
proof (cases "header_from_raw P raw height")
  case (Inl e)
  then have "length raw \<noteq> 80" using header_from_raw_simps(2) [of raw P height] by auto
  with Inl assms(2) show ?thesis by (simp add: submit_stale_header_def)
next
  case (Inr h)
  note h = from_raw_wf [OF Inr] to_raw_from_raw [OF Inr]
  have ts: "sh_timestamp h = from_le_bytes (take 4 (drop 68 raw))"
    using Inr h(4) by (auto simp: header_from_raw_def BLOCK_HEADER_SIZE_def)
  have hv: "harvestable P now h canonical d (sm_tracker m) \<longleftrightarrow> double_sha256 P raw \<noteq> canonical
      \<and> \<not> hm_has (tk_headers (sm_tracker m)) (hash_hex P (double_sha256 P raw))
      \<and> unat now \<le> unat (from_le_bytes (take 4 (drop 68 raw)) :: u32) + 604800
      \<and> 32 \<le> count_leading_zero_bits_be (double_sha256 P raw) \<and> d \<le> 100"
    by (simp add: harvestable_def stale_hash_hex_def stale_leading_zero_bits_def h(3) too_old_iff ts MAX_STALE_AGE_SECS_def)
  have submit: "submit_stale_header P (now, n1, n2) raw height canonical d m = submit_stale P (now, n1, n2) h canonical d m"
    by (simp add: submit_stale_header_def Inr)
  show ?thesis
  proof (cases "harvestable P now h canonical d (sm_tracker m)")
    case True
    with submit_accepted [OF assms(1,2) h(1) True, of n1 n2] assms(3) h hv show ?thesis
      unfolding submit by force
  next
    case False
    with submit_refused [OF h(1) False, of n1 n2] assms(2) hv show ?thesis
      unfolding submit by force
  qed
qed

text \<open>The fork detector of the stale-block miner takes the normal growth of the chain for a fork: when the only
  tip is replaced by its successor, the old tip is reported as the loser of a reorganisation of depth two, counted and
  queued for submission, whatever the parent of the new tip is.\<close>

theorem chain_growth_reported_as_fork:
  assumes "tk_tips (sm_tracker m) = [old_tip]" "ct_status old_tip = Active" "ct_status new_tip = Active"
    and "unat (ct_height new_tip) = unat (ct_height old_tip) + 1" "ct_block_hash new_tip \<noteq> ct_block_hash old_tip"
  shows "\<exists>event. sm_pending_forks (snd (process_tips P (now, n1, n2) [new_tip] m)) = sm_pending_forks m @ [event]
    \<and> fe_loser_hashes event = [ct_block_hash old_tip] \<and> fe_winner_hash event = ct_block_hash new_tip
    \<and> fe_reorg_depth event = 2 \<and> tk_total_reorg (sm_tracker (snd (process_tips P (now, n1, n2) [new_tip] m)))
        = tk_total_reorg (sm_tracker m) + 1"
proof -
  have le: "ct_height old_tip \<le> ct_height new_tip" using assms(4) by (simp add: word_le_nat_alt)
  have "unat (ct_height new_tip - ct_height old_tip) = unat (1 :: u64)"
    using assms(4) unat_sub_le [OF le] by simp
  then have d: "ct_height new_tip - ct_height old_tip = 1" by (simp only: word_unat_eq_iff)
  have "fork_events_of P now [new_tip] [old_tip] = [fork_between P now old_tip new_tip]"
    using assms le by (simp add: fork_events_of_def List.map_filter_def)
  then have "update_tips P now [new_tip] (sm_tracker m) =
      ([fork_between P now old_tip new_tip], (record_fork_event (fork_between P now old_tip new_tip) (sm_tracker m))\<lparr>tk_tips := [new_tip]\<rparr>)"
    using assms(1) by (simp add: update_tips_def MAX_TRACKED_TIPS_def)
  then show ?thesis
    using le d by (intro exI [of _ "fork_between P now old_tip new_tip"])
      (simp add: process_tips_def fork_between_def record_fork_event_def Let_def)
qed

text \<open>A header of eighty zero bytes, whose sample hash has 250 leading zero bits.\<close>

lemma sample_double_sha: "double_sha256 sample_prims (zeros 80) = [32, 0] @ zeros 30"
  by (simp add: double_sha256_def sample_hash_def zeros_def numeral_2_eq_2)

theorem stale_submission_exact_witness:
  "\<exists>p m'. submit_stale_header sample_prims (1000, 1000, 1000) (zeros 80) 7 (zeros 32) 1 (stale_miner_new stale_config_default)
      = Some (Inr p, m') \<and> verify_self sample_prims p = Inr () \<and> sm_pending_proofs m' = [p] \<and> tracker_ok sample_prims (sm_tracker m')"
proof -
  let ?m = "stale_miner_new stale_config_default"
  have ok: "tracker_ok sample_prims (sm_tracker ?m)"
    by (simp add: stale_miner_new_def tracker_ok_new)
  have empty: "get_proof (sm_tracker ?m) i = None" "\<not> hm_has (tk_headers (sm_tracker ?m)) k" for i k
    by (simp_all add: stale_miner_new_def tracker_new_def get_proof_def hm_has_def)
  have "zeros 30 = rev (zeros 30)" by (simp add: zeros_def)
  then have "count_leading_zero_bits_be (double_sha256 sample_prims (zeros 80)) = 250"
    unfolding sample_double_sha count_leading_zero_bits_be_def by code_simp
  moreover have "hd (double_sha256 sample_prims (zeros 80)) \<noteq> hd (zeros 32)"
    unfolding sample_double_sha by (simp add: zeros_def)
  then have "double_sha256 sample_prims (zeros 80) \<noteq> zeros 32" by metis
  moreover obtain r m' where "submit_stale_header sample_prims (1000, 1000, 1000) (zeros 80) 7 (zeros 32) 1 ?m = Some (r, m')"
    "tracker_ok sample_prims (sm_tracker m')"
    "(\<exists>p. r = Inr p) \<longleftrightarrow> length (zeros 80) = 80 \<and> double_sha256 sample_prims (zeros 80) \<noteq> zeros 32
         \<and> \<not> hm_has (tk_headers (sm_tracker ?m)) (hash_hex sample_prims (double_sha256 sample_prims (zeros 80)))
         \<and> unat (1000 :: u64) \<le> unat (from_le_bytes (take 4 (drop 68 (zeros 80))) :: u32) + 604800
         \<and> 32 \<le> count_leading_zero_bits_be (double_sha256 sample_prims (zeros 80)) \<and> (1 :: u32) \<le> 100"
    "\<forall>p. r = Inr p \<longrightarrow> verify_self sample_prims p = Inr () \<and> sm_pending_proofs m' = sm_pending_proofs ?m @ [p]"
    using stale_submission_exact [OF sample_hex_ok ok empty(1), of 1000 1000 1000 "zeros 80" 7 "zeros 32" 1] by blast
  moreover have "sm_pending_proofs ?m = []" by (simp add: stale_miner_new_def)
  ultimately show ?thesis
    using empty(2) by auto
qed

definition sample_chain_tip :: "u64 \<Rightarrow> chain_tip" where
  "sample_chain_tip height = \<lparr>ct_block_hash = le_bytes 32 height, ct_height = height, ct_status = Active, ct_first_seen = 0\<rparr>"

theorem chain_growth_reported_as_fork_witness:
  "let m = snd (process_tips sample_prims (1, 1, 1) [sample_chain_tip 5] (stale_miner_new stale_config_default));
       m' = snd (process_tips sample_prims (2, 2, 2) [sample_chain_tip 6] m) in
   sm_pending_forks m = [] \<and> length (sm_pending_forks m') = 1 \<and> tk_total_reorg (sm_tracker m') = 1"
proof -
  define m where "m = snd (process_tips sample_prims (1, 1, 1) [sample_chain_tip 5] (stale_miner_new stale_config_default))"
  have m: "tk_tips (sm_tracker m) = [sample_chain_tip 5]" "sm_pending_forks m = []" "tk_total_reorg (sm_tracker m) = 0"
    by (simp_all add: m_def process_tips_def update_tips_def fork_events_of_def stale_miner_new_def tracker_new_def
        MAX_TRACKED_TIPS_def Let_def List.map_filter_def)
  have "ct_block_hash (sample_chain_tip 6) \<noteq> ct_block_hash (sample_chain_tip 5)"
    using le_bytes_inj [of 32 "6 :: u64" 5] by (auto simp: sample_chain_tip_def)
  then show ?thesis
    using chain_growth_reported_as_fork [OF m(1), of "sample_chain_tip 6" sample_prims 2 2 2] m(2,3)
    unfolding Let_def m_def [symmetric] by (auto simp: sample_chain_tip_def)
qed

end
