(* ===== verification/Rate_Limit.thy ===== *)
theory Rate_Limit
  imports Peers Hash_Map
begin

text \<open>
  The request budget of the mutating endpoints (\<^verbatim>\<open>RateLimiter\<close> and \<^verbatim>\<open>rate_limit_middleware\<close>,
  \<^verbatim>\<open>node/src/main.rs\<close>). An \<^verbatim>\<open>Instant\<close> is a number of nanoseconds; \<^verbatim>\<open>duration_since\<close>
  saturates, as subtraction of natural numbers does. The counter is the \<^verbatim>\<open>u32\<close> of the code.
\<close>

section \<open>The limiter\<close>

definition RATE_LIMIT_WINDOW :: nat where "RATE_LIMIT_WINDOW = 10000000000"
definition RATE_LIMIT_MAX_REQUESTS :: u32 where "RATE_LIMIT_MAX_REQUESTS = 200"

type_synonym buckets = "(ip_addr, nat \<times> u32) hmap"

definition limiter_new :: buckets where
  "limiter_new = []"

text \<open>Above 50000 buckets the expired ones are dropped.\<close>

definition purge :: "nat \<Rightarrow> buckets \<Rightarrow> buckets" where
  "purge now buckets =
     (if length buckets > 50000 then filter (\<lambda>(_, started, _). now - started < RATE_LIMIT_WINDOW) buckets else buckets)"

definition limiter_allow :: "nat \<Rightarrow> ip_addr \<Rightarrow> buckets \<Rightarrow> bool \<times> buckets" where
  "limiter_allow now ip buckets =
     (let kept = purge now buckets; (started, count) = hm_get_or (now, 0) kept ip in
      if now - started \<ge> RATE_LIMIT_WINDOW then (True, hm_insert ip (now, 1) kept)
      else (count + 1 \<le> RATE_LIMIT_MAX_REQUESTS, hm_insert ip (started, count + 1) kept))"

text \<open>The middleware: a handler as a function of the state it shares with the others.\<close>

definition rate_limit_middleware :: "'r \<Rightarrow> nat \<Rightarrow> socket_addr \<Rightarrow> ('s \<Rightarrow> 'r \<times> 's) \<Rightarrow> buckets \<times> 's \<Rightarrow> 'r \<times> buckets \<times> 's" where
  "rate_limit_middleware too_many now addr next_handler = (\<lambda>(buckets, st).
     let (allowed, buckets') = limiter_allow now (sock_ip addr) buckets in
     if allowed then (let (r, st') = next_handler st in (r, buckets', st'))
     else (too_many, buckets', st))"

text \<open>A sequence of requests, each with its time and its source; the answers in order.\<close>

fun limiter_run :: "(nat \<times> ip_addr) list \<Rightarrow> buckets \<Rightarrow> bool list \<times> buckets" where
  "limiter_run [] b = ([], b)"
| "limiter_run ((now, ip) # reqs) b =
     (let (allowed, b') = limiter_allow now ip b; (rest, b'') = limiter_run reqs b' in (allowed # rest, b''))"

definition allowed_within :: "ip_addr \<Rightarrow> nat \<Rightarrow> (nat \<times> ip_addr) list \<Rightarrow> buckets \<Rightarrow> nat" where
  "allowed_within ip from_time reqs b =
     length (filter (\<lambda>((now, source), ok). ok \<and> source = ip \<and> from_time \<le> now \<and> now < from_time + RATE_LIMIT_WINDOW)
       (zip reqs (fst (limiter_run reqs b))))"

definition requests_of :: "ip_addr \<Rightarrow> (nat \<times> ip_addr) list \<Rightarrow> nat" where
  "requests_of ip reqs = length (filter (\<lambda>(_, source). source = ip) reqs)"

section \<open>One source at a time\<close>

text \<open>The bucket of a source after a request of its own, from the bucket the clean-up leaves; requests of other
  sources only age it.\<close>

definition aged :: "nat \<Rightarrow> (nat \<times> u32) option \<Rightarrow> (nat \<times> u32) option \<Rightarrow> bool" where
  "aged now old new \<longleftrightarrow> new = old \<or> new = None \<and> (\<exists>s c. old = Some (s, c) \<and> now - s \<ge> RATE_LIMIT_WINDOW)"

lemma purge_wf [simp]: "hm_wf b \<Longrightarrow> hm_wf (purge now b)"
  by (simp add: purge_def)

lemma purge_aged: "hm_wf b \<Longrightarrow> aged now (hm_get b ip) (hm_get (purge now b) ip)"
proof (cases "hm_get (purge now b) ip")
  case None
  assume wf: "hm_wf b"
  have "now - s \<ge> RATE_LIMIT_WINDOW \<or> hm_get (purge now b) ip = hm_get b ip" if "hm_get b ip = Some (s, c)" for s c
  proof (rule ccontr)
    assume n: "\<not> ?thesis"
    then have "(ip, s, c) \<in> set (purge now b)"
      using that wf by (auto simp: purge_def hm_get_mem_iff not_le split: if_splits)
    then have "hm_get (purge now b) ip = Some (s, c)"
      using wf by (simp add: hm_get_mem_iff)
    with n that show False by simp
  qed
  with None show ?thesis
    by (cases "hm_get b ip") (auto simp: aged_def)
next
  case (Some x)
  assume wf: "hm_wf b"
  with Some have "(ip, x) \<in> set (purge now b)" by (simp add: hm_get_mem_iff)
  then have "(ip, x) \<in> set b" by (auto simp: purge_def split: if_splits)
  with wf Some show ?thesis by (simp add: aged_def hm_get_mem_iff [symmetric])
qed

lemma allow_wf: "hm_wf b \<Longrightarrow> hm_wf (snd (limiter_allow now ip b))"
  by (simp add: limiter_allow_def Let_def case_prod_unfold)

lemma allow_other:
  "hm_wf b \<Longrightarrow> source \<noteq> ip \<Longrightarrow> aged now (hm_get b ip) (hm_get (snd (limiter_allow now source b)) ip)"
  using purge_aged [of b now ip] by (simp add: limiter_allow_def Let_def case_prod_unfold)

lemma allow_own:
  assumes "hm_wf b"
  obtains "fst (limiter_allow now ip b)" "hm_get (snd (limiter_allow now ip b)) ip = Some (now, 1)"
      "\<forall>s c. hm_get b ip = Some (s, c) \<longrightarrow> now - s \<ge> RATE_LIMIT_WINDOW"
  | s c where "hm_get b ip = Some (s, c)" "now - s < RATE_LIMIT_WINDOW"
      "fst (limiter_allow now ip b) \<longleftrightarrow> c + 1 \<le> 200" "hm_get (snd (limiter_allow now ip b)) ip = Some (s, c + 1)"
proof (cases "hm_get (purge now b) ip")
  case None
  have "fst (limiter_allow now ip b)" "hm_get (snd (limiter_allow now ip b)) ip = Some (now, 1)"
    using None by (simp_all add: limiter_allow_def hm_get_or_def RATE_LIMIT_WINDOW_def RATE_LIMIT_MAX_REQUESTS_def)
  moreover have "\<forall>s c. hm_get b ip = Some (s, c) \<longrightarrow> now - s \<ge> RATE_LIMIT_WINDOW"
    using purge_aged [OF assms, of now ip] None by (auto simp: aged_def)
  ultimately show ?thesis by (rule that(1))
next
  case (Some x)
  obtain s c where x: "x = (s, c)" by (cases x)
  have get: "hm_get b ip = Some (s, c)"
    using purge_aged [OF assms, of now ip] Some by (simp add: aged_def x)
  show ?thesis
  proof (cases "now - s \<ge> RATE_LIMIT_WINDOW")
    case True
    then show ?thesis
      using Some get by (intro that(1)) (simp_all add: limiter_allow_def hm_get_or_def x)
  next
    case False
    then show ?thesis
      using Some get
      by (intro that(2) [of s c]) (simp_all add: limiter_allow_def hm_get_or_def x RATE_LIMIT_MAX_REQUESTS_def)
  qed
qed

section \<open>Counting\<close>

definition bucket_room :: "nat \<Rightarrow> (nat \<times> u32) option \<Rightarrow> bool" where
  "bucket_room n bucket \<longleftrightarrow> n < 2 ^ 32 \<and> (\<forall>s c. bucket = Some (s, c) \<longrightarrow> unat c + n < 2 ^ 32)"

lemma bucket_room_aged: "aged now old new \<Longrightarrow> bucket_room (Suc n) old \<Longrightarrow> bucket_room n new"
  by (fastforce simp: aged_def bucket_room_def)

lemma unat_count: "unat (c :: u32) + 1 < 2 ^ 32 \<Longrightarrow> unat (c + 1) = unat c + 1"
  by (simp add: unat_word_ariths)

lemma bucket_room_own: "bucket_room (Suc n) (Some (s, c)) \<Longrightarrow> bucket_room n (Some (s, c + 1)) \<and> unat (c + 1) = unat c + 1"
  using unat_count [of c] by (simp add: bucket_room_def)

text \<open>What a source may still be granted from time \<open>a\<close> on, within one window.\<close>

fun credit :: "nat \<Rightarrow> (nat \<times> u32) option \<Rightarrow> nat" where
  "credit a None = 200"
| "credit a (Some (s, c)) = (if a \<le> s then 200 - unat c else 400 - min 200 (unat c))"

lemma allowed_within_Nil [simp]: "allowed_within ip a [] b = 0"
  by (simp add: allowed_within_def)

lemma allowed_within_Cons:
  "allowed_within ip a ((now, source) # reqs) b =
     (if fst (limiter_allow now source b) \<and> source = ip \<and> a \<le> now \<and> now < a + RATE_LIMIT_WINDOW then 1 else 0)
     + allowed_within ip a reqs (snd (limiter_allow now source b))"
  by (simp add: allowed_within_def case_prod_unfold Let_def)

lemma allowed_within_after: "\<forall>(now, _) \<in> set reqs. a + RATE_LIMIT_WINDOW \<le> now \<Longrightarrow> allowed_within ip a reqs b = 0"
  by (induction reqs arbitrary: b) (auto simp: allowed_within_Cons)

lemma allowed_within_credit:
  assumes "hm_wf b" "sorted (map fst reqs)" "\<forall>(now, _) \<in> set reqs. a \<le> now" "bucket_room (length reqs) (hm_get b ip)"
  shows "allowed_within ip a reqs b \<le> credit a (hm_get b ip)"
  using assms
proof (induction reqs arbitrary: b)
  case (Cons x reqs)
  obtain now source where x: "x = (now, source)" by (cases x)
  let ?b = "snd (limiter_allow now source b)"
  have rest: "hm_wf ?b" "sorted (map fst reqs)" "\<forall>(now, _) \<in> set reqs. a \<le> now" "a \<le> now"
    using Cons.prems by (auto simp: allow_wf x)
  note IH = Cons.IH [OF rest(1-3)]
  show ?case
  proof (cases "a + RATE_LIMIT_WINDOW \<le> now")
    case True
    then have "\<forall>(later, _) \<in> set (x # reqs). a + RATE_LIMIT_WINDOW \<le> later"
      using Cons.prems(2) by (fastforce simp: x)
    then show ?thesis by (simp only: allowed_within_after)
  next
    case within: False
    show ?thesis
    proof (cases "source = ip")
      case False
      from allow_other [OF Cons.prems(1) this] have g: "aged now (hm_get b ip) (hm_get ?b ip)" .
      then have "allowed_within ip a reqs ?b \<le> credit a (hm_get ?b ip)"
        using Cons.prems(4) by (intro IH) (simp add: bucket_room_aged)
      also have "credit a (hm_get ?b ip) \<le> credit a (hm_get b ip)"
        using g within by (auto simp: aged_def min_def RATE_LIMIT_WINDOW_def)
      finally show ?thesis using False by (simp add: allowed_within_Cons x)
    next
      case True
      from Cons.prems(1) show ?thesis
      proof (cases rule: allow_own [where now = now and ip = ip])
        case 1
        then have "allowed_within ip a reqs ?b \<le> credit a (Some (now, 1))"
          using Cons.prems(4) IH by (simp add: True bucket_room_def)
        moreover have "200 \<le> credit a (hm_get b ip)"
          using 1(3) within by (cases "hm_get b ip") (auto simp: min_def RATE_LIMIT_WINDOW_def)
        ultimately show ?thesis using rest(4) by (auto simp: allowed_within_Cons x True)
      next
        case (2 s c)
        note r = bucket_room_own [OF Cons.prems(4) [unfolded 2(1) length_Cons]]
        then have "allowed_within ip a reqs ?b \<le> credit a (Some (s, c + 1))"
          using IH 2(4) by (simp add: True)
        moreover have "c + 1 \<le> 200 \<longleftrightarrow> unat c < 200"
          using r by (simp add: word_le_nat_alt Suc_le_eq)
        ultimately show ?thesis
          using r 2 by (auto simp: allowed_within_Cons x True split: if_splits)
      qed
    qed
  qed
qed simp

lemma credit_le: "credit a bucket \<le> 400"
  by (cases bucket; cases "the bucket") auto

lemma allowed_within_bound:
  assumes "hm_wf b" "sorted (map fst reqs)" "bucket_room (length reqs) (hm_get b ip)"
  shows "allowed_within ip a reqs b \<le> 400"
  using assms
proof (induction reqs arbitrary: b)
  case (Cons x reqs)
  obtain now source where x: "x = (now, source)" by (cases x)
  show ?case
  proof (cases "a \<le> now")
    case True
    then have "\<forall>(later, _) \<in> set (x # reqs). a \<le> later"
      using Cons.prems(2) by (fastforce simp: x)
    from allowed_within_credit [OF Cons.prems(1,2) this Cons.prems(3)] credit_le show ?thesis
      by (rule order.trans)
  next
    case False
    have "bucket_room (length reqs) (hm_get (snd (limiter_allow now source b)) ip)"
    proof (cases "source = ip")
      case True
      show ?thesis
        using Cons.prems(1)
        by (cases rule: allow_own [where now = now and ip = ip])
          (use Cons.prems(3) bucket_room_own in \<open>auto simp: True bucket_room_def\<close>)
    qed (use Cons.prems(3) allow_other [OF Cons.prems(1)] bucket_room_aged in fastforce)
    then show ?thesis
      using Cons False by (simp add: allowed_within_Cons x allow_wf)
  qed
qed simp

lemma few_always_allowed:
  assumes "hm_wf b" "requests_of ip reqs + (case hm_get b ip of None \<Rightarrow> 0 | Some (s, c) \<Rightarrow> unat c) \<le> 200"
    and "((now, ip), ok) \<in> set (zip reqs (fst (limiter_run reqs b)))"
  shows ok
  using assms
proof (induction reqs arbitrary: b)
  case (Cons x reqs)
  obtain t source where x: "x = (t, source)" by (cases x)
  let ?b = "snd (limiter_allow t source b)" and ?used = "\<lambda>b. case hm_get b ip of None \<Rightarrow> 0 | Some (s, c :: u32) \<Rightarrow> unat c"
  have step: "?used ?b \<le> ?used b + (if source = ip then 1 else 0) \<and> (source = ip \<longrightarrow> fst (limiter_allow t source b))"
  proof (cases "source = ip")
    case True
    from Cons.prems(1) show ?thesis
    proof (cases rule: allow_own [where now = t and ip = ip])
      case (2 s c)
      then have "unat c < 200"
        using Cons.prems(2) by (simp add: requests_of_def x True)
      with unat_count [of c] 2 show ?thesis by (simp add: True word_le_nat_alt)
    qed (simp add: True)
  next
    case False
    with allow_other [OF Cons.prems(1) False, of t] show ?thesis by (auto simp: aged_def)
  qed
  show ?case
  proof (cases "((now, ip), ok) \<in> set (zip reqs (fst (limiter_run reqs ?b)))")
    case True
    have "requests_of ip reqs + ?used ?b \<le> 200"
      using step Cons.prems(2) by (auto simp: requests_of_def x split: if_splits)
    from Cons.IH [OF allow_wf [OF Cons.prems(1)] this True] show ?thesis .
  next
    case False
    then show ?thesis
      using Cons.prems(3) step by (auto simp: x case_prod_unfold Let_def)
  qed
qed simp

section \<open>Properties\<close>

text \<open>C29: Whatever requests arrive in the order of time, at most 400 requests of a source are allowed within any
  ten seconds, and a source that sends at most 200 requests is never refused because of the others.
  The documentation promises 200: the windows are fixed, not sliding, so that two of them meet.\<close>

theorem rate_limit_bounds:
  assumes "sorted (map fst reqs)" "length reqs < 2 ^ 32"
  shows "allowed_within ip from_time reqs limiter_new \<le> 400
    \<and> (requests_of ip reqs \<le> 200 \<longrightarrow>
        (\<forall>now ok. ((now, ip), ok) \<in> set (zip reqs (fst (limiter_run reqs limiter_new))) \<longrightarrow> ok))"
  using allowed_within_bound [of limiter_new reqs ip from_time] assms few_always_allowed [of limiter_new ip reqs]
  by (auto simp: limiter_new_def bucket_room_def)

text \<open>Requests of one source at one time, from a bucket that still has room for them.\<close>

lemma allowed_within_burst:
  assumes "from_time \<le> t" "t < from_time + RATE_LIMIT_WINDOW" "t - s < RATE_LIMIT_WINDOW" "unat c + n \<le> 200"
  shows "allowed_within ip from_time (replicate n (t, ip) @ reqs) [(ip, s, c)]
    = n + allowed_within ip from_time reqs [(ip, s, c + word_of_nat n)]"
  using assms(4)
proof (induction n arbitrary: c)
  case (Suc n)
  have u: "unat (c + 1) = unat c + 1"
    using Suc.prems by (intro unat_count) simp
  have "limiter_allow t ip [(ip, s, c)] = (True, [(ip, s, c + 1)])"
    using assms(3) Suc.prems u
    by (simp add: limiter_allow_def purge_def hm_get_or_def hm_insert_def RATE_LIMIT_MAX_REQUESTS_def word_le_nat_alt)
  with Suc u assms(1,2) show ?case
    by (simp add: allowed_within_Cons add.assoc)
qed simp

text \<open>Two hundred requests at the end of a window and two hundred at the start of the next: 399 are allowed within
  a nanosecond.\<close>

definition burst :: "(nat \<times> ip_addr) list" where
  "burst = (0, IpV4 7) # replicate 199 (9999999999, IpV4 7) @ (10000000000, IpV4 7) # replicate 199 (10000000000, IpV4 7)"

lemma allowed_in_burst: "allowed_within (IpV4 7) 9999999999 burst limiter_new = 399"
proof -
  have "limiter_allow 0 (IpV4 7) limiter_new = (True, [(IpV4 7, 0, 1)])"
    by (simp add: limiter_allow_def limiter_new_def purge_def RATE_LIMIT_WINDOW_def RATE_LIMIT_MAX_REQUESTS_def
        hm_get_or_def hm_insert_def)
  moreover have "limiter_allow 10000000000 (IpV4 7) [(IpV4 7, 0, c)] = (True, [(IpV4 7, 10000000000, 1)])" for c
    by (simp add: limiter_allow_def purge_def RATE_LIMIT_WINDOW_def hm_get_or_def hm_insert_def)
  moreover have "allowed_within (IpV4 7) 9999999999 (replicate 199 (10000000000, IpV4 7)) [(IpV4 7, 10000000000, 1)] = 199"
    using allowed_within_burst [of 9999999999 10000000000 10000000000 1 199 "IpV4 7" "[]"] by (simp add: RATE_LIMIT_WINDOW_def)
  moreover have "unat (1 :: u32) + 199 \<le> 200" by simp
  note allowed_within_burst [OF _ _ _ this, of 9999999999 9999999999 0 "IpV4 7"]
  ultimately show ?thesis
    by (simp add: burst_def allowed_within_Cons RATE_LIMIT_WINDOW_def)
qed

theorem rate_limit_bounds_witness:
  "allowed_within (IpV4 7) 9999999999 burst limiter_new = 399 \<and> allowed_within (IpV4 7) 9999999999 burst limiter_new \<le> 400"
proof -
  have "sorted (map fst burst)" "length burst < 2 ^ 32"
    by (simp_all add: burst_def sorted_append)
  from rate_limit_bounds [OF this] have "allowed_within (IpV4 7) 9999999999 burst limiter_new \<le> 400" by blast
  with allowed_in_burst show ?thesis by blast
qed

end
