(* ===== verification/Secure_Memory.thy ===== *)
theory Secure_Memory
  imports Text_Format
begin

text \<open>
  \<^verbatim>\<open>core/src/secure_memory.rs\<close>: the guarded buffer that holds a decoded wallet secret. The seed of the
  canaries, the address of the allocation and whether the pages can be locked are arguments; the address
  does not change while the buffer lives. \<^verbatim>\<open>Vec::zeroize\<close> clears the vector.
\<close>

unbundle bit_operations_syntax

section \<open>The buffer\<close>

definition GUARD_BYTE :: u8 where "GUARD_BYTE = 0xFD"
definition GUARD_SIZE :: nat where "GUARD_SIZE = 16"
definition MAX_SECURE_BYTES :: nat where "MAX_SECURE_BYTES = 1048576"

record memory_env =
  me_canary_seed :: u64
  me_ptr :: u64
  me_lock_ok :: bool

datatype memory_error = InvalidSize | IntegrityViolation | InvalidState | HexDecode

record secure_buffer =
  sb_data :: bytes
  sb_user_len :: nat
  sb_canary :: u64
  sb_locked :: bool
  sb_valid :: bool

definition make_canary :: "memory_env \<Rightarrow> u64" where
  "make_canary e = me_canary_seed e XOR (me_ptr e * 0x9e3779b97f4a7c15)"

definition sbuf_new :: "memory_env \<Rightarrow> nat \<Rightarrow> memory_error + secure_buffer" where
  "sbuf_new e user_len =
     (if user_len = 0 \<or> user_len > MAX_SECURE_BYTES then Inl InvalidSize
      else let total = GUARD_SIZE + user_len + GUARD_SIZE; blank = zeros total;
               low = replicate GUARD_SIZE GUARD_BYTE @ drop GUARD_SIZE blank;
               filled = take (GUARD_SIZE + user_len) low @ replicate (total - (GUARD_SIZE + user_len)) GUARD_BYTE in
        Inr \<lparr>sb_data = filled, sb_user_len = user_len, sb_canary = make_canary e, sb_locked = me_lock_ok e, sb_valid = True\<rparr>)"

definition sbuf_verify :: "memory_env \<Rightarrow> secure_buffer \<Rightarrow> memory_error + unit" where
  "sbuf_verify e b =
     (if \<not> sb_valid b then Inl InvalidState
      else if sb_canary b \<noteq> make_canary e then Inl IntegrityViolation
      else let low_guard_ok = list_all (\<lambda>x. x = GUARD_BYTE) (take GUARD_SIZE (sb_data b));
               high_guard_ok = list_all (\<lambda>x. x = GUARD_BYTE) (drop (GUARD_SIZE + sb_user_len b) (sb_data b)) in
        if \<not> low_guard_ok \<or> \<not> high_guard_ok then Inl IntegrityViolation else Inr ())"

definition sbuf_user :: "secure_buffer \<Rightarrow> bytes" where
  "sbuf_user b = take (sb_user_len b) (drop GUARD_SIZE (sb_data b))"

definition sbuf_as_slice :: "memory_env \<Rightarrow> secure_buffer \<Rightarrow> memory_error + bytes" where
  "sbuf_as_slice e b = res_bind (sbuf_verify e b) (\<lambda>_. Inr (sbuf_user b))"

text \<open>Writing a slice of the length of the buffer through \<^verbatim>\<open>as_mut_slice\<close>.\<close>

definition sbuf_write :: "memory_env \<Rightarrow> bytes \<Rightarrow> secure_buffer \<Rightarrow> memory_error + secure_buffer" where
  "sbuf_write e src b =
     res_bind (sbuf_verify e b) (\<lambda>_.
       Inr (b\<lparr>sb_data := take GUARD_SIZE (sb_data b) @ src @ drop (GUARD_SIZE + sb_user_len b) (sb_data b)\<rparr>))"

definition sbuf_from_slice :: "memory_env \<Rightarrow> bytes \<Rightarrow> memory_error + secure_buffer" where
  "sbuf_from_slice e secret = res_bind (sbuf_new e (length secret)) (sbuf_write e secret)"

definition sbuf_from_hex :: "prims \<Rightarrow> memory_env \<Rightarrow> string \<Rightarrow> memory_error + secure_buffer" where
  "sbuf_from_hex P e secret_hex =
     (case hex_decode P (trim secret_hex) of None \<Rightarrow> Inl HexDecode | Some decoded \<Rightarrow> sbuf_from_slice e decoded)"

definition sbuf_is_empty :: "secure_buffer \<Rightarrow> bool" where
  "sbuf_is_empty b = (sb_user_len b = 0)"

definition constant_time_eq :: "memory_env \<Rightarrow> secure_buffer \<Rightarrow> bytes \<Rightarrow> bool" where
  "constant_time_eq e b other =
     (if sb_user_len b \<noteq> length other \<or> \<not> is_ok (sbuf_verify e b) then False
      else fold (\<lambda>(left, right) diff. diff OR (left XOR right)) (zip (sbuf_user b) other) 0 = (0 :: u8))"

definition sbuf_zero :: "secure_buffer \<Rightarrow> secure_buffer" where
  "sbuf_zero b = b\<lparr>sb_data := take GUARD_SIZE (sb_data b) @ zeros (sb_user_len b) @ drop (GUARD_SIZE + sb_user_len b) (sb_data b)\<rparr>"

definition sbuf_drop :: "secure_buffer \<Rightarrow> secure_buffer" where
  "sbuf_drop b = b\<lparr>sb_valid := False, sb_data := [], sb_locked := False\<rparr>"

section \<open>The guards\<close>

definition sbuf_ok :: "memory_env \<Rightarrow> bytes \<Rightarrow> secure_buffer \<Rightarrow> bool" where
  "sbuf_ok e secret b \<longleftrightarrow> sb_valid b \<and> sb_canary b = make_canary e \<and> sb_user_len b = length secret
     \<and> sb_data b = replicate GUARD_SIZE GUARD_BYTE @ secret @ replicate GUARD_SIZE GUARD_BYTE"

lemma list_all_replicate [simp]: "list_all p (replicate n x) \<longleftrightarrow> n = 0 \<or> p x"
  by (induction n) auto

lemma sbuf_ok_new:
  assumes "0 < n" "n \<le> 1048576"
  shows "\<exists>b. sbuf_new e n = Inr b \<and> sbuf_ok e (zeros n) b"
  using assms by (simp add: sbuf_new_def sbuf_ok_def MAX_SECURE_BYTES_def zeros_def Let_def)

lemma sbuf_ok_verify [simp]: "sbuf_ok e s b \<Longrightarrow> sbuf_verify e b = Inr ()"
  by (simp add: sbuf_ok_def sbuf_verify_def)

lemma sbuf_ok_user [simp]: "sbuf_ok e s b \<Longrightarrow> sbuf_user b = s"
  by (simp add: sbuf_ok_def sbuf_user_def)

lemma sbuf_ok_write:
  "sbuf_ok e s b \<Longrightarrow> length src = length s \<Longrightarrow> \<exists>b'. sbuf_write e src b = Inr b' \<and> sbuf_ok e src b'"
  by (simp add: sbuf_write_def) (simp add: sbuf_ok_def)

lemma sbuf_ok_zero: "sbuf_ok e s b \<Longrightarrow> sbuf_ok e (zeros (length s)) (sbuf_zero b)"
  by (simp add: sbuf_ok_def sbuf_zero_def zeros_def)

lemma sbuf_from_slice_ok:
  assumes "0 < length s" "length s \<le> 1048576"
  shows "\<exists>b. sbuf_from_slice e s = Inr b \<and> sbuf_ok e s b"
proof -
  obtain b where "sbuf_new e (length s) = Inr b" "sbuf_ok e (zeros (length s)) b"
    using sbuf_ok_new [OF assms] by blast
  then show ?thesis
    using sbuf_ok_write [of e "zeros (length s)" b s] by (simp add: sbuf_from_slice_def zeros_def)
qed

text \<open>The accumulated difference is zero exactly when there is none.\<close>

lemma or_eq_0: "(a :: u8) OR b = 0 \<longleftrightarrow> a = 0 \<and> b = 0"
  by (auto simp: bit_eq_iff bit_or_iff)

lemma fold_diff:
  "length xs = length ys \<Longrightarrow>
     fold (\<lambda>(left, right) diff. diff OR (left XOR right)) (zip xs ys) d = (0 :: u8) \<longleftrightarrow> d = 0 \<and> xs = ys"
proof (induction xs ys arbitrary: d rule: list_induct2)
  case (Cons x xs y ys)
  have "x XOR y = 0 \<longleftrightarrow> x = y"
    by (metis xor.assoc xor.left_neutral xor_self_eq)
  then show ?case by (auto simp: Cons.IH or_eq_0)
qed simp

lemma constant_time_eq_iff: "sbuf_ok e s b \<Longrightarrow> constant_time_eq e b other \<longleftrightarrow> other = s"
proof -
  assume b: "sbuf_ok e s b"
  then have "sb_user_len b = length s" by (simp add: sbuf_ok_def)
  then have "constant_time_eq e b other \<longleftrightarrow> length s = length other
      \<and> fold (\<lambda>(left, right) diff. diff OR (left XOR right)) (zip s other) 0 = (0 :: u8)"
    using b by (simp add: constant_time_eq_def is_ok_iff)
  then show ?thesis
    using fold_diff [of s other 0] by blast
qed

lemma guard_detected:
  assumes "sbuf_ok e s b" "i < length (sb_data b)" "i < 16 \<or> 16 + length s \<le> i" "v \<noteq> GUARD_BYTE"
  shows "sbuf_verify e (b\<lparr>sb_data := (sb_data b)[i := v]\<rparr>) = Inl IntegrityViolation"
proof -
  let ?d = "(sb_data b)[i := v]"
  have b: "sb_valid b" "sb_canary b = make_canary e" "sb_user_len b = length s" "length (sb_data b) = 32 + length s"
    using assms(1) by (simp_all add: sbuf_ok_def GUARD_SIZE_def)
  have v: "?d ! i = v" using assms(2) by simp
  have "\<not> list_all (\<lambda>x. x = GUARD_BYTE) (take 16 ?d) \<or> \<not> list_all (\<lambda>x. x = GUARD_BYTE) (drop (16 + length s) ?d)"
  proof (cases "i < 16")
    case True
    then have "v \<in> set (take 16 ?d)"
      using assms(2) v by (metis in_set_conv_nth length_list_update length_take min_less_iff_conj nth_take)
    with assms(4) show ?thesis by (auto simp: list_all_iff)
  next
    case False
    then have "drop (16 + length s) ?d ! (i - (16 + length s)) = v" "i - (16 + length s) < length (drop (16 + length s) ?d)"
      using assms(2,3) v by auto
    then have "v \<in> set (drop (16 + length s) ?d)" by (metis nth_mem)
    with assms(4) show ?thesis by (auto simp: list_all_iff)
  qed
  then show ?thesis
    using b by (auto simp: sbuf_verify_def Let_def GUARD_SIZE_def)
qed

section \<open>Properties\<close>

text \<open>A secret of at most a megabyte comes out of its buffer as it went in, the comparison accepts exactly it,
  every byte written over a guard is detected, and a dropped buffer gives nothing away.\<close>

theorem secure_buffer_exact:
  assumes "0 < length secret" "length secret \<le> 1048576"
  shows "\<exists>b. sbuf_from_slice e secret = Inr b \<and> sbuf_as_slice e b = Inr secret
    \<and> (\<forall>other. constant_time_eq e b other \<longleftrightarrow> other = secret)
    \<and> (\<forall>i v. i < length (sb_data b) \<longrightarrow> i < 16 \<or> 16 + length secret \<le> i \<longrightarrow> v \<noteq> GUARD_BYTE \<longrightarrow>
         sbuf_verify e (b\<lparr>sb_data := (sb_data b)[i := v]\<rparr>) = Inl IntegrityViolation)
    \<and> sbuf_as_slice e (sbuf_zero b) = Inr (zeros (length secret))
    \<and> sb_data (sbuf_drop b) = [] \<and> sbuf_as_slice e (sbuf_drop b) = Inl InvalidState"
proof -
  obtain b where b: "sbuf_from_slice e secret = Inr b" "sbuf_ok e secret b"
    using sbuf_from_slice_ok [OF assms] by blast
  have "sbuf_as_slice e (sbuf_drop b) = Inl InvalidState" "sb_data (sbuf_drop b) = []"
    by (simp_all add: sbuf_as_slice_def sbuf_verify_def sbuf_drop_def)
  with b guard_detected [OF b(2)] constant_time_eq_iff [OF b(2)] sbuf_ok_zero [OF b(2)] show ?thesis
    by (intro exI [of _ b]) (simp add: sbuf_as_slice_def)
qed

theorem secure_buffer_exact_witness:
  "\<exists>b. sbuf_from_slice \<lparr>me_canary_seed = 3, me_ptr = 4096, me_lock_ok = False\<rparr> [1, 2] = Inr b
    \<and> sbuf_verify \<lparr>me_canary_seed = 3, me_ptr = 4096, me_lock_ok = False\<rparr> (b\<lparr>sb_data := (sb_data b)[0 := 0]\<rparr>)
        = Inl IntegrityViolation"
proof -
  let ?e = "\<lparr>me_canary_seed = 3, me_ptr = 4096, me_lock_ok = False\<rparr>"
  obtain b where b: "sbuf_from_slice ?e [1, 2] = Inr b"
    "\<forall>i v. i < length (sb_data b) \<longrightarrow> i < 16 \<or> 16 + length [1, 2 :: u8] \<le> i \<longrightarrow> v \<noteq> GUARD_BYTE \<longrightarrow>
         sbuf_verify ?e (b\<lparr>sb_data := (sb_data b)[i := v]\<rparr>) = Inl IntegrityViolation"
    "sbuf_as_slice ?e b = Inr [1, 2]"
    using secure_buffer_exact [of "[1, 2]" ?e] by auto
  have "0 < length (sb_data b)"
    using b(3) by (auto simp: sbuf_as_slice_def sbuf_user_def res_bind_Inr_iff)
  then have "sbuf_verify ?e (b\<lparr>sb_data := (sb_data b)[0 := 0]\<rparr>) = Inl IntegrityViolation"
    using b(2) by (simp add: GUARD_BYTE_def)
  with b(1) show ?thesis by blast
qed

end
