(* ===== verification/Http_Api.thy ===== *)
theory Http_Api
  imports Gossip Reorg Rate_Limit Secure_Memory
begin

text \<open>
  The HTTP interface of the node (\<^verbatim>\<open>node/src/main.rs\<close>): what each handler answers, what it changes and what
  it sends. Routing, JSON and the sockets are axum's; a request is the value a handler receives. Clocks, the
  environment variables (\<open>env\<close>), parsing and printing of socket addresses and what a contacted peer
  answers are arguments. An error answer is a status and the error it reports. The averages of the status
  page are computed in \<^verbatim>\<open>f64\<close>; here they are exact, rounded at the end.
\<close>

section \<open>Configuration\<close>

definition DEFAULT_PORT :: u16 where "DEFAULT_PORT = 8181"
definition SUBMISSION_GRACE_MS :: u64 where "SUBMISSION_GRACE_MS = 1500"

definition parse_u16 :: "string \<Rightarrow> u16 option" where
  "parse_u16 s = Option.bind (parse_u64 s) (\<lambda>w. if unat w < 2 ^ 16 then Some (ucast w) else None)"

definition http_port :: "(string \<Rightarrow> string option) \<Rightarrow> u16" where
  "http_port env = (case Option.bind (env ''BINA_HTTP_PORT'') parse_u16 of None \<Rightarrow> DEFAULT_PORT | Some port \<Rightarrow> port)"

definition data_dir :: "(string \<Rightarrow> string option) \<Rightarrow> string" where
  "data_dir env = (case env ''BINA_DATA_DIR'' of None \<Rightarrow> ''data'' | Some d \<Rightarrow> d)"

definition ledger_path :: "(string \<Rightarrow> string option) \<Rightarrow> string" where
  "ledger_path env = data_dir env @ ''/ledger.csv''"

definition chain_state_path :: "(string \<Rightarrow> string option) \<Rightarrow> string" where
  "chain_state_path env = data_dir env @ ''/chain-state.json''"

definition block_store_path :: "(string \<Rightarrow> string option) \<Rightarrow> string" where
  "block_store_path env = data_dir env @ ''/blocks.sqlite3''"

definition DEFAULT_SEED_PEERS :: "string list" where
  "DEFAULT_SEED_PEERS = [''144.126.157.197:8181'']"

definition parse_seed :: "(string \<Rightarrow> socket_addr option) \<Rightarrow> string \<Rightarrow> socket_addr option" where
  "parse_seed parse_addr raw = (let trimmed = trim raw in if trimmed = [] then None else parse_addr trimmed)"

definition parse_seed_peers :: "(string \<Rightarrow> socket_addr option) \<Rightarrow> (string \<Rightarrow> string option) \<Rightarrow> socket_addr list" where
  "parse_seed_peers parse_addr env =
     (let configured = (case env ''BINA_SEEDS'' of None \<Rightarrow> [] | Some s \<Rightarrow> s) in
      fold (\<lambda>addr peers. if addr \<in> set peers then peers else peers @ [addr])
        (List.map_filter (parse_seed parse_addr) (DEFAULT_SEED_PEERS @ split_on CHR '','' configured)) [])"

section \<open>Errors\<close>

datatype api_error =
    ErrClaim claim_reject
  | ErrPayload payload_error
  | ErrEnqueue enqueue_error
  | ErrRecipient tx_error
  | ErrSigning tx_error
  | ErrPeerAddress string
  | ErrHttpClient
  | ErrHelloFailed
  | ErrHelloRejected

type_synonym 'r answer = "status_code \<times> api_error + 'r"

definition json_error :: "status_code \<Rightarrow> api_error \<Rightarrow> 'r answer" where
  "json_error status e = Inl (status, e)"

definition claim_error_response :: "claim_reject \<Rightarrow> 'r answer" where
  "claim_error_response e = json_error (reject_status e) (ErrClaim e)"

section \<open>Reading the chain\<close>

text \<open>The integer square root, digit by digit in base four, and the square root rounded to the nearest integer.\<close>

fun isqrt :: "nat \<Rightarrow> nat" where
  "isqrt n = (if n = 0 then 0 else let r = 2 * isqrt (n div 4) in if (r + 1) * (r + 1) \<le> n then r + 1 else r)"

declare isqrt.simps [simp del]

definition round_sqrt :: "rat \<Rightarrow> nat" where
  "round_sqrt v = (isqrt (nat \<lfloor>4 * v\<rfloor>) + 1) div 2"

definition rolling_block_time_stats :: "block_record list \<Rightarrow> nat \<Rightarrow> u64 \<times> u64" where
  "rolling_block_time_stats blocks window =
     (let values = map (\<lambda>b. rat_of_nat (unat (br_elapsed_ms b)))
            (filter (\<lambda>b. br_elapsed_ms b > 0) (take window (rev blocks))) in
      if values = [] then (0, 0)
      else let n = rat_of_nat (length values); mean = sum_list values / n;
               variance = sum_list (map (\<lambda>v. (v - mean) * (v - mean)) values) / n in
        (word_of_int (round mean), word_of_nat (round_sqrt variance)))"

record status_view =
  sv_height :: u64
  sv_difficulty_bits :: u32
  sv_current_reward :: u64
  sv_total_mined :: u64
  sv_supply_remaining :: u64
  sv_hard_cap :: u64
  sv_halving_interval :: u64
  sv_initial_reward :: u64
  sv_total_hashes :: u64
  sv_avg_hashrate_mhs :: rat
  sv_uptime_secs :: u64
  sv_threads :: nat
  sv_miner_address :: string
  sv_btc_height :: u64
  sv_btc_tip :: string
  sv_btc_checkpoint_tip_height :: u64
  sv_btc_tip_divergence_height :: "u64 option"
  sv_btc_seed_age_secs :: u64
  sv_btc_seed_changed_at :: u64
  sv_btc_fork_seen :: bool
  sv_btc_checkpoint_interval :: u64
  sv_block_time_avg_ms :: u64
  sv_block_time_stddev_ms :: u64
  sv_nullifiers_spent :: nat
  sv_genesis_hash :: string
  sv_tip_hash :: string
  sv_chain_work :: string
  sv_last_adjustment :: "adjustment_info option"
  sv_mempool_size :: nat
  sv_reorg_depth_limit :: u64
  sv_epoch_size :: u64

definition ok_or :: "'a \<Rightarrow> 'e + 'a \<Rightarrow> 'a" where
  "ok_or d r = (case r of Inl _ \<Rightarrow> d | Inr a \<Rightarrow> a)"

definition handle_status :: "prims \<Rightarrow> serde \<Rightarrow> u64 \<Rightarrow> u64 \<Rightarrow> node \<Rightarrow> status_view" where
  "handle_status P J now_instant now_secs nd =
     (let s = nd_state nd; height = ns_chain_height s; btc = ns_last_observed_btc s;
          recent = ok_or [] (get_range J (nd_store nd) (sat_sub height 19) height 20);
          (avg, stddev) = rolling_block_time_stats recent 20 in
      \<lparr>sv_height = height, sv_difficulty_bits = ns_difficulty_bits s, sv_current_reward = ns_current_reward s,
       sv_total_mined = ns_total_mined_bina s, sv_supply_remaining = sat_sub HARD_CAP (ns_total_mined_bina s),
       sv_hard_cap = HARD_CAP, sv_halving_interval = HALVING_INTERVAL, sv_initial_reward = INITIAL_BLOCK_REWARD,
       sv_total_hashes = ns_total_hashes s,
       sv_avg_hashrate_mhs = (if ns_total_time_ms s > 0
         then (rat_of_nat (unat (ns_total_hashes s)) / 1000000) / (rat_of_nat (unat (ns_total_time_ms s)) / 1000) else 0),
       sv_uptime_secs = sat_sub now_instant (ns_started_at s), sv_threads = ns_threads s,
       sv_miner_address = ns_miner_address s, sv_btc_height = be_tip_height btc,
       sv_btc_tip = hex_encode P (take 8 (be_tip_hash btc)),
       sv_btc_checkpoint_tip_height = ns_btc_checkpoint_tip_height s,
       sv_btc_tip_divergence_height = (if be_fork_detected btc then Some (be_tip_height btc) else None),
       sv_btc_seed_age_secs = sat_sub now_secs (ns_btc_seed_changed_at s),
       sv_btc_seed_changed_at = ns_btc_seed_changed_at s, sv_btc_fork_seen = be_fork_detected btc,
       sv_btc_checkpoint_interval = BTC_CHECKPOINT_INTERVAL, sv_block_time_avg_ms = avg,
       sv_block_time_stddev_ms = stddev, sv_nullifiers_spent = nullifiers_len (ns_nullifiers s),
       sv_genesis_hash = hex_encode P (ns_genesis_hash s), sv_tip_hash = hex_encode P (ns_tip_hash s),
       sv_chain_work = show_hex (ns_chain_work s), sv_last_adjustment = ns_last_adjustment s,
       sv_mempool_size = length (ns_mempool s), sv_reorg_depth_limit = MAX_AUTO_REORG_DEPTH,
       sv_epoch_size = EPOCH_SIZE\<rparr>)"

definition handle_block :: "serde \<Rightarrow> u64 \<Rightarrow> node \<Rightarrow> status_code + block_record" where
  "handle_block J height nd =
     (case store_get J (nd_store nd) height of
        Inl _ \<Rightarrow> Inl INTERNAL_SERVER_ERROR
      | Inr None \<Rightarrow> Inl NOT_FOUND
      | Inr (Some b) \<Rightarrow> Inr b)"

definition handle_latest_block :: "serde \<Rightarrow> node \<Rightarrow> status_code + block_record" where
  "handle_latest_block J nd = handle_block J (ns_chain_height (nd_state nd)) nd"

definition handle_blocks_recent :: "serde \<Rightarrow> node \<Rightarrow> block_record list" where
  "handle_blocks_recent J nd =
     (let height = ns_chain_height (nd_state nd) in
      rev (ok_or [] (get_range J (nd_store nd) (sat_sub height 19) height 20)))"

text \<open>The page of a synchronising peer; the query parameters are optional.\<close>

definition handle_chain_headers :: "serde \<Rightarrow> u64 option \<Rightarrow> u64 option \<Rightarrow> node \<Rightarrow> block_record list" where
  "handle_chain_headers J from_param to_param nd =
     (let from_height = (case from_param of None \<Rightarrow> 0 | Some h \<Rightarrow> h);
          to_height = min (case to_param of None \<Rightarrow> - 1 | Some h \<Rightarrow> h) (sat_add from_height MAX_SYNC_PAGE) in
      ok_or [] (get_range J (nd_store nd) from_height to_height MAX_SYNC_PAGE))"

record randomness_view =
  rv_height :: u64
  rv_output :: string
  rv_nullifier :: string
  rv_block_hash :: string
  rv_btc_seed :: string
  rv_btc_height :: u64
  rv_verified :: bool
  rv_non_double_spend :: bool

text \<open>The two flags are constants of the answer.\<close>

definition randomness_view_of :: "block_record \<Rightarrow> randomness_view" where
  "randomness_view_of b =
     \<lparr>rv_height = br_height b, rv_output = br_randomness_output b, rv_nullifier = br_nullifier b,
      rv_block_hash = br_block_hash b, rv_btc_seed = br_btc_seed b, rv_btc_height = br_btc_height b,
      rv_verified = True, rv_non_double_spend = True\<rparr>"

definition handle_randomness_at :: "serde \<Rightarrow> u64 \<Rightarrow> node \<Rightarrow> status_code + randomness_view" where
  "handle_randomness_at J height nd = res_bind (handle_block J height nd) (\<lambda>b. Inr (randomness_view_of b))"

definition handle_randomness_latest :: "serde \<Rightarrow> node \<Rightarrow> status_code + randomness_view" where
  "handle_randomness_latest J nd = handle_randomness_at J (ns_chain_height (nd_state nd)) nd"

definition handle_wallet_balance :: "string \<Rightarrow> node \<Rightarrow> u64 \<times> u64" where
  "handle_wallet_balance address nd = (ledger_balance (nd_ledger nd) address, ledger_nonce (nd_ledger nd) address)"

record supply_view =
  su_total_mined :: u64
  su_supply_remaining :: u64
  su_hard_cap :: u64
  su_current_reward :: u64
  su_current_era :: u64
  su_halving_interval :: u64
  su_initial_reward :: u64
  su_next_halving_at :: u64
  su_difficulty_bits :: u32
  su_last_adjustment :: "adjustment_info option"

definition handle_supply :: "node \<Rightarrow> supply_view" where
  "handle_supply nd =
     (let s = nd_state nd; era = ns_chain_height s div HALVING_INTERVAL in
      \<lparr>su_total_mined = ns_total_mined_bina s, su_supply_remaining = sat_sub HARD_CAP (ns_total_mined_bina s),
       su_hard_cap = HARD_CAP, su_current_reward = ns_current_reward s, su_current_era = era,
       su_halving_interval = HALVING_INTERVAL, su_initial_reward = INITIAL_BLOCK_REWARD,
       su_next_halving_at = (era + 1) * HALVING_INTERVAL, su_difficulty_bits = ns_difficulty_bits s,
       su_last_adjustment = ns_last_adjustment s\<rparr>)"

section \<open>Asking a peer for its status\<close>

text \<open>The three fields that are read from the answer of a peer, each present with the right type or not.\<close>

record status_answer =
  sa_genesis_hash :: "string option"
  sa_chain_work :: "string option"
  sa_height :: "u64 option"

definition answer_of_status :: "status_view \<Rightarrow> status_answer" where
  "answer_of_status v =
     \<lparr>sa_genesis_hash = Some (sv_genesis_hash v), sa_chain_work = Some (sv_chain_work v), sa_height = Some (sv_height v)\<rparr>"

definition fetch_peer_status :: "prims \<Rightarrow> 'a \<Rightarrow> status_answer option \<Rightarrow> 'a peer_status option" where
  "fetch_peer_status P addr answer =
     Option.bind answer (\<lambda>json.
     Option.bind (Option.bind (sa_genesis_hash json) (hex_to_32 P)) (\<lambda>genesis_hash.
     Option.bind (Option.bind (sa_chain_work json) parse_hex_u128) (\<lambda>chain_work.
     Option.bind (sa_height json) (\<lambda>height.
       Some \<lparr>ps_addr = addr, ps_height = height, ps_genesis_hash = genesis_hash, ps_chain_work = chain_work\<rparr>))))"

section \<open>Submitting claims and transactions\<close>

record claim_submission =
  cs_claim :: signed_claim
  cs_btc_checkpoint :: "btc_checkpoint_proof option"
  cs_transactions :: "signed_transaction list"

record accepted_view =
  av_height :: u64
  av_miner_address :: string
  av_block_hash :: string
  av_work_bits :: nat
  av_election_score :: string
  av_candidate_window_ms :: u64
  av_broadcast :: bool

type_synonym sends = "(socket_addr \<times> bina_message) list"

definition handle_submit_claim :: "prims \<Rightarrow> u64 \<Rightarrow> u64 \<Rightarrow> claim_submission \<Rightarrow> gossip \<times> node
    \<Rightarrow> accepted_view answer \<times> sends \<times> gossip \<times> node" where
  "handle_submit_claim P now_ms now_secs submission = (\<lambda>(go, nd).
     case accept_signed_claim P now_ms (cs_claim submission) (cs_btc_checkpoint submission) (cs_transactions submission) nd of
       (Inl e, nd') \<Rightarrow> (claim_error_response e, [], go, nd')
     | (Inr accepted, nd') \<Rightarrow>
         let envelope = envelope_from_claim P now_secs (go_network go) DEFAULT_P2P_TTL (cs_claim submission)
               (cs_btc_checkpoint submission) (cs_transactions submission);
             (sent, go') = broadcast_claim envelope go in
         (Inr \<lparr>av_height = ac_height accepted, av_miner_address = ac_miner_hex accepted,
               av_block_hash = ac_block_hash accepted, av_work_bits = ac_work_bits accepted,
               av_election_score = ac_election_score accepted, av_candidate_window_ms = SUBMISSION_GRACE_MS,
               av_broadcast = True\<rparr>, sent, go', nd'))"

record queued_view =
  qv_tx_id :: string
  qv_from :: string
  qv_to :: string
  qv_amount :: u64
  qv_fee :: u64
  qv_nonce :: u64
  qv_signature_mode :: string

definition handle_submit_transaction :: "prims \<Rightarrow> serde \<Rightarrow> tx_payload \<Rightarrow> node \<Rightarrow> queued_view answer \<times> node" where
  "handle_submit_transaction P J payload nd =
     (case into_signed_transaction P payload of
        Inl e \<Rightarrow> (json_error BAD_REQUEST (ErrPayload e), nd)
      | Inr signed_tx \<Rightarrow>
          let signature_mode = (if length (stx_public_key signed_tx) = ED25519_PUBLIC_KEY_BYTES then ''ed25519-only'' else ''hybrid'');
              view = \<lparr>qv_tx_id = stx_tx_id_hex P signed_tx, qv_from = stx_from_hex P signed_tx, qv_to = stx_to_hex P signed_tx,
                qv_amount = tx_amount (stx_tx signed_tx), qv_fee = tx_fee (stx_tx signed_tx), qv_nonce = tx_nonce (stx_tx signed_tx),
                qv_signature_mode = signature_mode\<rparr> in
          (case enqueue_transaction P J signed_tx nd of
             (Inl e, nd') \<Rightarrow> (json_error BAD_REQUEST (ErrEnqueue e), nd')
           | (Inr _, nd') \<Rightarrow> (Inr view, nd')))"

text \<open>The miner's wallet: the text of the file when it can be read, and \<^verbatim>\<open>serde_json\<close>'s view of it, the secret
  key. Every failure is a panic.\<close>

datatype wallet_panic = WalletMissing | WalletNotJson | WalletNotHex memory_error | WalletBuffer memory_error
  | WalletCorrupt crypto_error

definition load_miner_keypair :: "prims \<Rightarrow> memory_env \<Rightarrow> (string \<Rightarrow> string option) \<Rightarrow> string option
    \<Rightarrow> wallet_panic + wallet_keypair" where
  "load_miner_keypair P e secret_key_of wallet_text =
     (case wallet_text of
        None \<Rightarrow> Inl WalletMissing
      | Some content \<Rightarrow>
          (case secret_key_of content of
             None \<Rightarrow> Inl WalletNotJson
           | Some secret_key \<Rightarrow>
               res_bind (map_err WalletNotHex (sbuf_from_hex P e secret_key)) (\<lambda>secret.
               res_bind (map_err WalletBuffer (sbuf_as_slice e secret)) (\<lambda>secret_bytes.
               map_err WalletCorrupt (keypair_from_secret_bytes P secret_bytes)))))"

record local_send =
  ls_to :: string
  ls_amount :: u64
  ls_fee :: "u64 option"
  ls_nonce :: "u64 option"

record sent_view = queued_view +
  tv_tx_digest :: string
  tv_public_key :: string
  tv_signature :: string

text \<open>The node signs with the key of its miner for whoever asks. \<open>wallet\<close> is what loading the key gives, \<open>q\<close> the
  randomness of the signature.\<close>

definition handle_wallet_send :: "prims \<Rightarrow> serde \<Rightarrow> wallet_panic + wallet_keypair \<Rightarrow> nat \<Rightarrow> local_send \<Rightarrow> node
    \<Rightarrow> (wallet_panic + sent_view answer) \<times> node" where
  "handle_wallet_send P J wallet q payload nd =
     (case parse_address_hex P (ls_to payload) of
        Inl e \<Rightarrow> (Inr (json_error BAD_REQUEST (ErrRecipient e)), nd)
      | Inr to_addr \<Rightarrow>
          (case wallet of
             Inl p \<Rightarrow> (Inl p, nd)
           | Inr miner_keypair \<Rightarrow>
               let fee = (case ls_fee payload of None \<Rightarrow> 0 | Some f \<Rightarrow> f);
                   from_addr = keypair_address P miner_keypair;
                   nonce = (case ls_nonce payload of
                       None \<Rightarrow> ledger_nonce (nd_ledger nd) (hex_encode P from_addr) | Some n \<Rightarrow> n);
                   tx = \<lparr>tx_from = from_addr, tx_to = to_addr, tx_amount = ls_amount payload, tx_nonce = nonce, tx_fee = fee\<rparr> in
               (case stx_sign P q tx miner_keypair of
                  Inl e \<Rightarrow> (Inr (json_error BAD_REQUEST (ErrSigning e)), nd)
                | Inr signed_tx \<Rightarrow>
                    (case enqueue_transaction P J signed_tx nd of
                       (Inl e, nd') \<Rightarrow> (Inr (json_error BAD_REQUEST (ErrEnqueue e)), nd')
                     | (Inr _, nd') \<Rightarrow>
                         (Inr (Inr \<lparr>qv_tx_id = stx_tx_id_hex P signed_tx, qv_from = hex_encode P from_addr,
                            qv_to = ls_to payload, qv_amount = ls_amount payload, qv_fee = fee, qv_nonce = nonce,
                            qv_signature_mode = ''hybrid'', tv_tx_digest = hex_encode P (tx_digest P tx),
                            tv_public_key = hex_encode P (stx_public_key signed_tx),
                            tv_signature = hex_encode P (stx_signature signed_tx)\<rparr>), nd')))))"

section \<open>Peers\<close>

text \<open>Every message is answered with \<^verbatim>\<open>200\<close>.\<close>

definition handle_p2p_message :: "prims \<Rightarrow> (string \<Rightarrow> socket_addr option) \<Rightarrow> u64 \<Rightarrow> u64 \<Rightarrow> bina_message \<Rightarrow> socket_addr
    \<Rightarrow> gossip \<times> node \<Rightarrow> status_code \<times> sends \<times> gossip \<times> node" where
  "handle_p2p_message P parse_addr now_ms now_secs message peer_addr = (\<lambda>(go, nd).
     case handle_incoming P parse_addr now_secs message go of
       (Some (BlockClaim envelope), go') \<Rightarrow>
         (case accept_signed_claim P now_ms (ev_claim envelope) (ev_btc_checkpoint envelope) (ev_transactions envelope) nd of
            (Inr _, nd') \<Rightarrow>
              (OK_200, if ev_ttl envelope > 0 then relay_message go' (BlockClaim envelope) peer_addr else [], go', nd')
          | (Inl _, nd') \<Rightarrow> (OK_200, [], go', nd'))
     | (_, go') \<Rightarrow> (OK_200, [], go', nd))"

definition handle_get_peers :: "(socket_addr \<Rightarrow> string) \<Rightarrow> gossip \<Rightarrow> string list" where
  "handle_get_peers show_addr go = map show_addr (peers_all (go_peers go))"

definition handle_peer_hello :: "(string \<Rightarrow> socket_addr option) \<Rightarrow> hello_envelope \<Rightarrow> gossip \<Rightarrow> status_code \<times> gossip" where
  "handle_peer_hello parse_addr hello go =
     (if hl_network hello \<noteq> go_network go then (BAD_REQUEST, go)
      else case parse_addr (hl_listen_addr hello) of
          Some addr \<Rightarrow> (OK_200, go\<lparr>go_peers := snd (peers_add addr (go_peers go))\<rparr>)
        | None \<Rightarrow> (BAD_REQUEST, go))"

record connected_view =
  cv_peer :: string
  cv_known_peers :: nat

text \<open>\<open>client_ok\<close>: the HTTP client can be built; \<open>hello_answer\<close>: \<open>None\<close> when the hello is not answered, else
  whether it was answered with success; \<open>peers_answer\<close>: the list of the peer, \<open>None\<close> when there is none.\<close>

definition handle_peer_connect :: "prims \<Rightarrow> (string \<Rightarrow> socket_addr option) \<Rightarrow> (socket_addr \<Rightarrow> string)
    \<Rightarrow> (string \<Rightarrow> string option) \<Rightarrow> bool \<Rightarrow> bool option \<Rightarrow> string list option \<Rightarrow> string \<Rightarrow> node \<Rightarrow> gossip
    \<Rightarrow> connected_view answer \<times> (socket_addr \<times> hello_envelope) option \<times> gossip" where
  "handle_peer_connect P parse_addr show_addr env client_ok hello_answer peers_answer address nd go =
     (case parse_addr (trim address) of
        None \<Rightarrow> (json_error BAD_REQUEST (ErrPeerAddress address), None, go)
      | Some addr \<Rightarrow>
          let listen_addr = (case env ''BINA_P2P_LISTEN_ADDR'' of
                Some a \<Rightarrow> a | None \<Rightarrow> ''127.0.0.1:'' @ show_nat (unat (http_port env)));
              hello = \<lparr>hl_network = go_network go, hl_version = 1, hl_best_height = ns_chain_height (nd_state nd),
                hl_best_hash = hex_encode P (ns_tip_hash (nd_state nd)), hl_listen_addr = listen_addr\<rparr> in
          if \<not> client_ok then (json_error INTERNAL_SERVER_ERROR ErrHttpClient, None, go)
          else (case hello_answer of
              None \<Rightarrow> (json_error BAD_GATEWAY ErrHelloFailed, Some (addr, hello), go)
            | Some success \<Rightarrow>
                if \<not> success then (json_error BAD_GATEWAY ErrHelloRejected, Some (addr, hello), go)
                else let go1 = go\<lparr>go_peers := snd (peers_add addr (go_peers go))\<rparr>;
                         go2 = (case peers_answer of None \<Rightarrow> go1 | Some peers \<Rightarrow> add_parsed parse_addr peers go1) in
                  (Inr \<lparr>cv_peer = show_addr addr, cv_known_peers = peers_count (go_peers go2)\<rparr>, Some (addr, hello), go2)))"

section \<open>Lemmas\<close>

lemma isqrt_bounds: "isqrt n * isqrt n \<le> n \<and> n < (isqrt n + 1) * (isqrt n + 1)"
proof (induction n rule: isqrt.induct)
  case (1 n)
  show ?case
  proof (cases "n = 0")
    case False
    define r where "r = isqrt (n div 4)"
    have "r * r \<le> n div 4" "n div 4 < (r + 1) * (r + 1)"
      using 1 [OF False] by (simp_all add: r_def)
    then have "2 * r * (2 * r) \<le> n" "n < (2 * r + 2) * (2 * r + 2)"
      by (auto simp: algebra_simps)
    then show ?thesis
      by (subst (1 2 3 4) isqrt.simps) (simp add: False r_def [symmetric] Let_def)
  qed (simp add: isqrt.simps)
qed

lemma parse_seed_peers_distinct: "distinct (parse_seed_peers parse_addr env)"
proof -
  have "distinct (fold (\<lambda>addr peers. if addr \<in> set peers then peers else peers @ [addr]) xs ps)" if "distinct ps" for xs ps :: "socket_addr list"
    using that by (induction xs arbitrary: ps) auto
  then show ?thesis by (simp add: parse_seed_peers_def)
qed

lemma fetch_status_of_handle:
  assumes "hex_ok P" "length (ns_genesis_hash (nd_state nd)) = 32"
  shows "fetch_peer_status P addr (Some (answer_of_status (handle_status P J now_instant now_secs nd)))
    = Some \<lparr>ps_addr = addr, ps_height = ns_chain_height (nd_state nd), ps_genesis_hash = ns_genesis_hash (nd_state nd),
        ps_chain_work = ns_chain_work (nd_state nd)\<rparr>"
  using assms by (simp add: fetch_peer_status_def answer_of_status_def handle_status_def Let_def case_prod_unfold)

lemma supply_adds_up:
  "unat (ns_total_mined_bina (nd_state nd)) \<le> unat HARD_CAP \<Longrightarrow>
    unat (su_total_mined (handle_supply nd)) + unat (su_supply_remaining (handle_supply nd)) = unat HARD_CAP"
  by (simp add: handle_supply_def Let_def unat_sat_sub)

lemma submit_transaction_enqueues:
  "into_signed_transaction P payload = Inr t \<Longrightarrow>
    snd (handle_submit_transaction P J payload nd) = snd (enqueue_transaction P J t nd)
    \<and> (is_ok (fst (handle_submit_transaction P J payload nd)) \<longleftrightarrow> is_ok (fst (enqueue_transaction P J t nd)))"
  by (auto simp: handle_submit_transaction_def json_error_def Let_def is_ok_def split: prod.splits sum.splits)

lemma enqueue_accepts:
  assumes "transfer_ok P t (nd_ledger nd)" "length (ns_mempool (nd_state nd)) < MAX_MEMPOOL_SIZE"
  shows "fst (enqueue_transaction P J t nd) = Inr ()"
    "ns_mempool (nd_state (snd (enqueue_transaction P J t nd))) = hm_insert (stx_tx_id P t) t (ns_mempool (nd_state nd))"
  using assms enqueue_check_ok [of P "nd_ledger nd" t] by (simp_all add: enqueue_transaction_def Let_def)

section \<open>Properties\<close>

text \<open>C30: The node's own wallet is open to everybody who reaches its port: whatever request for a transfer the
  balance covers is signed with the key of the miner and queued as a valid transfer to the recipient the
  request names; nothing in the request identifies its sender.\<close>

theorem wallet_send_spends_for_anyone:
  assumes "hash_ok P" "sig_ok P" "length seed = 32" "kp = keypair_generate P seed r"
    and "parse_address_hex P (ls_to payload) = Inr to_addr" "to_addr \<noteq> keypair_address P kp"
    and "ls_amount payload \<noteq> 0" "ls_fee payload = None" "ls_nonce payload = None"
    and "ls_amount payload \<le> ledger_balance (nd_ledger nd) (hex_encode P (keypair_address P kp))"
    and "length (ns_mempool (nd_state nd)) < MAX_MEMPOOL_SIZE"
  shows "\<exists>v t nd'. handle_wallet_send P J (Inr kp) q payload nd = (Inr (Inr v), nd')
    \<and> hm_get (ns_mempool (nd_state nd')) (stx_tx_id P t) = Some t \<and> transfer_ok P t (nd_ledger nd)
    \<and> tx_from (stx_tx t) = keypair_address P kp \<and> tx_to (stx_tx t) = to_addr \<and> tx_amount (stx_tx t) = ls_amount payload"
proof -
  define tx where "tx = \<lparr>tx_from = keypair_address P kp, tx_to = to_addr, tx_amount = ls_amount payload,
    tx_nonce = ledger_nonce (nd_ledger nd) (hex_encode P (keypair_address P kp)), tx_fee = 0\<rparr>"
  obtain t where t: "stx_sign P q tx kp = Inr t"
    by (simp add: stx_sign_def tx_def Let_def)
  have f: "stx_tx t = tx" using stx_sign_tx [OF t] by simp
  have "stx_verify P t = Inr ()"
    using stx_sign_verifies [OF assms(1-3) t [unfolded assms(4)]] assms(6,7) by (simp add: tx_def)
  then have ok: "transfer_ok P t (nd_ledger nd)"
    using assms(10) by (simp add: transfer_ok_def is_ok_iff stx_from_hex_def f) (simp add: tx_def word_le_nat_alt)
  note e = enqueue_accepts [OF ok assms(11), of J]
  then obtain nd' where "enqueue_transaction P J t nd = (Inr (), nd')" by (auto simp: prod_eq_iff)
  then obtain v where "handle_wallet_send P J (Inr kp) q payload nd = (Inr (Inr v), snd (enqueue_transaction P J t nd))"
    using t assms(5,8,9) by (simp add: handle_wallet_send_def Let_def tx_def)
  then show ?thesis
    using ok e(2) f
    by (intro exI [of _ v] exI [of _ t] exI [of _ "snd (enqueue_transaction P J t nd)"]) (simp add: tx_def)
qed

text \<open>A request of a stranger to a node whose miner has a balance.\<close>

definition stranger_send :: local_send where
  "stranger_send = \<lparr>ls_to = sample_hex (replicate 20 1), ls_amount = 5, ls_fee = None, ls_nonce = None\<rparr>"

definition wealthy_node :: node where
  "wealthy_node = sample_node\<lparr>nd_ledger := snd (ledger_credit True 1 sample_miner_hex 50 1 new_ledger)\<rparr>"

theorem wallet_send_spends_for_anyone_witness:
  "\<exists>v nd'. handle_wallet_send sample_prims sample_serde (Inr sample_miner) 0 stranger_send wealthy_node = (Inr (Inr v), nd')
    \<and> ns_mempool (nd_state nd') \<noteq> []"
proof -
  have kp: "sample_miner = keypair_generate sample_prims (zeros 32) 0" by (simp add: sample_miner_def)
  have l: "length (keypair_address sample_prims sample_miner) = 20"
    using sample_next_claim_verifies by (simp add: keypair_address_def wpk_address_def)
  have "last (keypair_address sample_prims sample_miner) \<noteq> last (replicate 20 1)" by code_simp
  then have to_addr: "replicate 20 1 \<noteq> keypair_address sample_prims sample_miner" by metis
  have bal: "5 \<le> ledger_balance (nd_ledger wealthy_node) (hex_encode sample_prims (keypair_address sample_prims sample_miner))"
    by (simp add: wealthy_node_def ledger_credit_def ledger_balance_def new_ledger_def sample_miner_hex_def Let_def)
  have pool: "ns_mempool (nd_state wealthy_node) = []"
    by (simp add: wealthy_node_def sample_node_def sample_state_def initial_state_def)
  have "parse_address_hex sample_prims (ls_to stranger_send) = Inr (replicate 20 1)"
    using parse_address_encode [OF sample_hex_ok, of "replicate 20 1"] by (simp add: stranger_send_def)
  from wallet_send_spends_for_anyone [OF sample_hash_ok sample_sig_ok _ kp this to_addr, of wealthy_node sample_serde 0]
  obtain v t nd' where "handle_wallet_send sample_prims sample_serde (Inr sample_miner) 0 stranger_send wealthy_node = (Inr (Inr v), nd')"
    "hm_get (ns_mempool (nd_state nd')) (stx_tx_id sample_prims t) = Some t"
    using bal pool by (auto simp: stranger_send_def MAX_MEMPOOL_SIZE_def)
  then show ?thesis
    by (intro exI [of _ v] exI [of _ nd']) auto
qed

text \<open>What the node serves as verified randomness need not be the output of its block: a synchronising node
  stores the output and the nullifier of a record as they were sent, and the endpoint reports any of them
  as verified.\<close>

theorem unverified_randomness_served:
  assumes "json_ok J" "sync_check P now cu (nd_ledger nd) r = Inr (claim, applied)"
    and "forged = r\<lparr>br_randomness_output := out, br_nullifier := n\<rparr>"
  shows "sync_check P now cu (nd_ledger nd) forged = Inr (claim, applied)
    \<and> (\<exists>v. handle_randomness_at J (br_height r) (snd (sync_apply P J io forged claim applied (cu, nd))) = Inr v
        \<and> rv_block_hash v = br_block_hash r \<and> rv_output v = out \<and> rv_nullifier v = n \<and> rv_verified v)"
proof -
  have g: "store_get J (nd_store (snd (sync_apply P J io forged claim applied (cu, nd)))) (br_height forged)
      = Inr (Some (as_stored forged))"
    unfolding sync_apply_view(5) by (rule store_get_insert_same [OF assms(1)])
  have h: "br_height forged = br_height r" by (simp add: assms(3))
  have "sync_check P now cu (nd_ledger nd) forged = Inr (claim, applied)"
    unfolding assms(3) sync_check_randomness by (rule assms(2))
  with g show ?thesis
    by (simp add: handle_randomness_at_def handle_block_def randomness_view_of_def h) (simp add: assms(3) as_stored_def)
qed

theorem unverified_randomness_served_witness:
  "\<exists>r nd' v. sync_check sample_prims 1000050 sample_tip sample_ledger r = Inr (pc_claim (sample_winner 1 50), [])
    \<and> nd_ledger nd' = nd_ledger (snd (sync_apply sample_prims sample_serde True r (pc_claim (sample_winner 1 50)) [] (sample_tip, sample_node)))
    \<and> handle_randomness_at sample_serde 2 nd' = Inr v \<and> rv_output v = ''forged'' \<and> rv_verified v"
proof -
  define r where "r = mined_record sample_prims 2 (sample_winner 1 50) 50 sample_result [] 0 0"
  have "sync_check sample_prims 1000050 sample_tip (nd_ledger sample_node) r = Inr (pc_claim (sample_winner 1 50), [])"
    using sample_record_accepted by (simp add: r_def sample_node_def)
  note f = unverified_randomness_served [OF sample_json_ok this refl, of "[]" "''forged''" True]
  define nd' where "nd' = snd (sync_apply sample_prims sample_serde True (r\<lparr>br_randomness_output := ''forged'', br_nullifier := []\<rparr>)
    (pc_claim (sample_winner 1 50)) [] (sample_tip, sample_node))"
  have "br_height r = 2" by (simp add: r_def)
  with f obtain v where "handle_randomness_at sample_serde 2 nd' = Inr v" "rv_output v = ''forged''" "rv_verified v"
    unfolding nd'_def by auto
  moreover have "nd_ledger nd' = nd_ledger (snd (sync_apply sample_prims sample_serde True r (pc_claim (sample_winner 1 50)) []
      (sample_tip, sample_node)))"
    by (simp add: nd'_def)
  ultimately show ?thesis
    using sample_record_accepted unfolding r_def by blast
qed

end
