(* ===== verification/Catch_Up.thy ===== *)
theory Catch_Up
  imports Node_System Http_Api
begin

text \<open>
  The composition of a running miner, its HTTP interface and a node that lags behind: the records the miner
  has stored since the two agreed are served page by page by \<^verbatim>\<open>/chain/headers\<close>, and the node that applies
  them ends in the consensus state of the miner, whatever the miner did in between.
\<close>

section \<open>Runs of ordinary blocks\<close>

text \<open>The elected block is one a peer can rebuild: its header has version 1 and fields of the right size, and no
  stored block has its hash.\<close>

definition plain_block :: "miner \<Rightarrow> system \<Rightarrow> bool" where
  "plain_block M sy \<longleftrightarrow>
     (case sy_phase sy of
        Elected cd lh result w \<Rightarrow>
          header_wf (sc_header (pc_claim w)) \<and> h_version (sc_header (pc_claim w)) = 1
          \<and> (\<forall>row \<in> set (bs_blocks (nd_store (sy_node sy))). row_block_hash row \<noteq> claim_block_hash_hex (mr_prims M) (pc_claim w))
      | _ \<Rightarrow> True)"

inductive plain_reach :: "miner \<Rightarrow> system \<Rightarrow> system \<Rightarrow> bool" for M where
  plain_start: "plain_reach M sy sy"
| plain_loop: "plain_reach M sy sy' \<Longrightarrow> plain_block M sy' \<Longrightarrow> loop_step M sy' sy'' \<Longrightarrow> plain_reach M sy sy''"
| plain_handler: "plain_reach M sy sy' \<Longrightarrow> handler_step M sy' sy'' \<Longrightarrow> plain_reach M sy sy''"

lemma plain_reach_node: "plain_reach M sy sy' \<Longrightarrow> node_reach M sy0 sy \<Longrightarrow> node_reach M sy0 sy'"
  by (induction rule: plain_reach.induct) (auto intro: node_reach.intros)

text \<open>The store holds nothing above the tip.\<close>

definition archived :: "serde \<Rightarrow> cursor \<Rightarrow> node \<Rightarrow> bool" where
  "archived J cu nd \<longleftrightarrow> store_inv J (nd_store nd) \<and> (\<forall>h. cu_height cu < h \<longrightarrow> store_lookup J (nd_store nd) h = None)"

definition agrees :: "cursor \<Rightarrow> node \<Rightarrow> cursor \<times> node \<Rightarrow> bool" where
  "agrees cu nd peer \<longleftrightarrow> same_consensus cu (fst peer) \<and> nd_ledger (snd peer) = nd_ledger nd"

text \<open>The records above height \<open>h0\<close> bring a peer to the state of the miner.\<close>

definition replayed :: "miner \<Rightarrow> serde \<Rightarrow> u64 \<Rightarrow> cursor \<times> node \<Rightarrow> block_record list \<Rightarrow> cursor \<Rightarrow> node \<Rightarrow> bool" where
  "replayed M J h0 peer chain cu nd \<longleftrightarrow>
     archived (mr_serde M) cu nd \<and> unat (cu_height cu) = unat h0 + length chain
     \<and> (\<forall>h. h0 < h \<and> h \<le> cu_height cu \<longrightarrow>
          store_lookup (mr_serde M) (nd_store nd) h = Some (chain ! (unat h - unat h0 - 1)))
     \<and> (\<forall>now. (\<forall>h. cu_last_ts cu \<le> now h) \<longrightarrow>
          (\<exists>peer'. sync_page (mr_prims M) J now (\<lambda>_. True) chain peer = (False, of_nat (length chain), peer')
             \<and> agrees cu nd peer'))"

lemma le_sat_add: "(a :: u64) \<le> sat_add a b"
  using unat_lt_u64 [of a] by (simp add: word_le_nat_alt unat_sat_add)

lemma same_consensus_refl: "same_consensus cu cu"
  by (simp add: same_consensus_def)

lemma replayed_start:
  "archived (mr_serde M) cu nd \<Longrightarrow> agrees cu nd peer \<Longrightarrow> replayed M J (cu_height cu) peer [] cu nd"
  by (auto simp: replayed_def)

lemma replayed_quiet:
  assumes "replayed M J h0 peer chain cu nd" "nd_ledger nd' = nd_ledger nd"
    and "bs_blocks (nd_store nd') = bs_blocks (nd_store nd)" "bs_txs (nd_store nd') = bs_txs (nd_store nd)"
  shows "replayed M J h0 peer chain cu nd'"
  using assms store_view_cong(1,2) [OF assms(3,4)]
  by (simp add: replayed_def archived_def agrees_def)

lemma handler_quiet:
  assumes "handler_step M sy sy'"
  shows "sy_cursor sy' = sy_cursor sy" "nd_ledger (sy_node sy') = nd_ledger (sy_node sy)"
    "bs_blocks (nd_store (sy_node sy')) = bs_blocks (nd_store (sy_node sy))"
    "bs_txs (nd_store (sy_node sy')) = bs_txs (nd_store (sy_node sy))"
  using assms by (cases; simp add: enqueue_transaction_def Let_def split: sum.splits)+

lemma replayed_commit:
  assumes "hex_ok (mr_prims M)" "replayed M J h0 peer chain cu nd" "node_inv M cu nd"
    and "phase_inv M cu nd (Elected cd lh result w)"
    and "header_wf (sc_header (pc_claim w))" "h_version (sc_header (pc_claim w)) = 1"
    and "\<forall>row \<in> set (bs_blocks (nd_store nd)). row_block_hash row \<noteq> claim_block_hash_hex (mr_prims M) (pc_claim w)"
    and "commit (mr_prims M) (mr_serde M) K True fio secs cd result lh w (cu, nd, rf) = (Inr (), cu', nd', rf')"
  shows "\<exists>r. replayed M J h0 peer (chain @ [r]) cu' nd'"
proof -
  let ?P = "mr_prims M" and ?J = "mr_serde M"
  note e = elected_facts [OF assms(4,3)]
  have tr: "tracks cu nd" using assms(3) by (simp add: node_inv_def Let_def)
  define r where "r = mined_record ?P (cd_height cd) w (cd_reward cd) result lh
      (pinned_tip (cd_height cd) w (ns_btc_checkpoint_tip_height (nd_state nd))) (cu_work (commit_cursor ?P (cd_height cd) w cu))"
  define st where "st = fold (\<lambda>t. mempool_remove ?P (stx_tx_id ?P t)) (pc_transactions w) (nd_store nd)"
  have self: "nd_store nd' = insert_block ?J r st" "cu' = commit_cursor ?P (cd_height cd) w cu"
    unfolding st_def r_def
    by (rule committed_record_syncs(1,5) [OF assms(1) e(1) tr assms(5,6) e(2,3) assms(8) same_consensus_refl refl le_sat_add])+
  have r: "br_height r = cu_height cu + 1" "as_stored r = r" by (simp_all add: r_def e(2))
  have u: "unat (cu_height cu + 1) = unat (cu_height cu) + 1"
    using e(5) by (intro unat_next_height) simp
  have old: "store_inv ?J (nd_store nd)" "\<And>h. cu_height cu < h \<Longrightarrow> store_lookup ?J (nd_store nd) h = None"
    "unat (cu_height cu) = unat h0 + length chain"
    "\<And>h. h0 < h \<Longrightarrow> h \<le> cu_height cu \<Longrightarrow> store_lookup ?J (nd_store nd) h = Some (chain ! (unat h - unat h0 - 1))"
    using assms(2) by (simp_all add: replayed_def archived_def)
  have view: "store_lookup ?J st = store_lookup ?J (nd_store nd)" "store_inv ?J st = store_inv ?J (nd_store nd)"
    "hash_fresh r st = hash_fresh r (nd_store nd)"
    by (rule store_view_cong; simp add: st_def)+
  have fresh: "hash_fresh r st"
    unfolding view(3) using assms(7) by (simp add: hash_fresh_def r_def)
  have small: "small_height (br_height r)"
    using u e(5) by (simp add: r small_height_def)
  have ts: "cu_last_ts cu < h_timestamp (sc_header (pc_claim w))" "cu_last_ts cu' = h_timestamp (sc_header (pc_claim w))"
    "cu_height cu' = cu_height cu + 1"
    using candidate_extends [OF e(1) tr] self(2) e(2) by (simp_all add: claim_extends_def Let_def commit_time)
  have store: "store_lookup ?J (nd_store nd') h = (if h = cu_height cu + 1 then Some r else store_lookup ?J (nd_store nd) h)" for h
    unfolding self(1) using store_lookup_insert [OF _ fresh] old(1) view r by simp
  have inv: "store_inv ?J (nd_store nd')"
    unfolding self(1) using store_inv_insert [OF _ small] old(1) view(2) by simp
  have "archived ?J cu' nd'"
    using inv store old(2) u by (auto simp: archived_def ts(3) word_less_nat_alt)
  moreover have "unat (cu_height cu') = unat h0 + length (chain @ [r])"
    using old(3) u by (simp add: ts(3))
  moreover have "store_lookup ?J (nd_store nd') h = Some ((chain @ [r]) ! (unat h - unat h0 - 1))"
    if h: "h0 < h" "h \<le> cu_height cu'" for h
  proof (cases "h = cu_height cu + 1")
    case True
    then show ?thesis using store u old(3) by (simp add: nth_append)
  next
    case False
    then have "unat h \<noteq> unat (cu_height cu) + 1"
      using u by (metis word_unat_eq_iff)
    then have le: "h \<le> cu_height cu"
      using h(2) u by (simp add: ts(3) word_le_nat_alt)
    then have "unat h - unat h0 - 1 < length chain"
      using h(1) old(3) by (simp add: word_le_nat_alt word_less_nat_alt)
    with store False old(4) [OF h(1) le] show ?thesis by (simp add: nth_append)
  qed
  moreover have "\<exists>peer'. sync_page ?P J now (\<lambda>_. True) (chain @ [r]) peer = (False, of_nat (length (chain @ [r])), peer')
      \<and> agrees cu' nd' peer'" if now: "\<forall>h. cu_last_ts cu' \<le> now h" for now
  proof -
    have "\<forall>h. cu_last_ts cu \<le> now h"
      using now ts(1,2) by (metis order.strict_implies_order order.trans)
    then obtain pcu pnd where run: "sync_page ?P J now (\<lambda>_. True) chain peer = (False, of_nat (length chain), pcu, pnd)"
      and a: "agrees cu nd (pcu, pnd)"
      using assms(2) unfolding replayed_def by (metis prod.collapse)
    have late: "h_timestamp (sc_header (pc_claim w)) \<le> sat_add (now (br_height r)) MAX_FUTURE_MS"
      using now ts(2) le_sat_add order.trans by metis
    have same: "same_consensus cu pcu" "nd_ledger pnd = nd_ledger nd" using a by (simp_all add: agrees_def)
    note s = committed_record_syncs(2-4) [OF assms(1) e(1) tr assms(5,6) e(2,3) assms(8) same late, folded r_def]
    have "sync_check ?P (now (br_height r)) pcu (nd_ledger pnd) r = Inr (pc_claim w, pc_transactions w)"
      "agrees cu' nd' (sync_apply ?P J True r (pc_claim w) (pc_transactions w) (pcu, pnd))"
      using s by (simp_all add: agrees_def)
    then show ?thesis
      by (simp add: sync_page_append run Let_def)
  qed
  ultimately show ?thesis
    unfolding replayed_def by (intro exI [of _ r]) blast
qed

lemma replayed_loop:
  assumes "loop_step M sy sy'" "plain_block M sy" "hex_ok (mr_prims M)" "system_inv M sy" "running sy" "running sy'"
    and "replayed M J h0 peer chain (sy_cursor sy) (sy_node sy)"
  shows "\<exists>chain'. replayed M J h0 peer chain' (sy_cursor sy') (sy_node sy')"
  using assms(1)
proof cases
  case (prepare now answers observed fresh cd nd')
  have "nd_ledger nd' = nd_ledger (sy_node sy)" "nd_store nd' = nd_store (sy_node sy)"
    by (subst build_candidate_node [OF prepare(6)], simp)+
  then have "replayed M J h0 peer chain (sy_cursor sy) nd'"
    by (intro replayed_quiet [OF assms(7)]) simp_all
  then show ?thesis using prepare(1) by auto
next
  case (mined cd k run claim q result)
  have "replayed M J h0 peer chain (sy_cursor sy) ((sy_node sy)\<lparr>nd_state := submit_local (mr_hex M) cd claim (nd_state (sy_node sy))\<rparr>)"
    by (intro replayed_quiet [OF assms(7)]) simp_all
  then show ?thesis using mined(1) by auto
next
  case (elected cd lh result w s')
  have "replayed M J h0 peer chain (sy_cursor sy) ((sy_node sy)\<lparr>nd_state := s'\<rparr>)"
    by (intro replayed_quiet [OF assms(7)]) simp_all
  then show ?thesis using elected(1) by auto
next
  case (committed cd lh result w fio secs cu' nd' rf')
  have "header_wf (sc_header (pc_claim w))" "h_version (sc_header (pc_claim w)) = 1"
    "\<forall>row \<in> set (bs_blocks (nd_store (sy_node sy))). row_block_hash row \<noteq> claim_block_hash_hex (mr_prims M) (pc_claim w)"
    using assms(2) by (simp_all add: plain_block_def committed(2))
  from replayed_commit [OF assms(3,7) system_inv_parts(1) [OF assms(4,5)] _ this committed(3)]
  show ?thesis
    using system_inv_parts(2) [OF assms(4,5)] committed(1,2) by auto
qed (use assms(6) in \<open>simp_all add: running_def\<close>)

lemma step_running: "loop_step M sy sy' \<Longrightarrow> running sy" "handler_step M sy sy' \<Longrightarrow> running sy"
  by (auto simp: running_def elim: loop_step.cases handler_step.cases)

lemma replayed_reach:
  assumes "plain_reach M sy0 sy" "node_reach M start sy0" "hex_ok (mr_prims M)" "fresh_system M start" "running sy"
    and "archived (mr_serde M) (sy_cursor sy0) (sy_node sy0)" "agrees (sy_cursor sy0) (sy_node sy0) peer"
  shows "\<exists>chain. replayed M J (cu_height (sy_cursor sy0)) peer chain (sy_cursor sy) (sy_node sy)"
  using assms
proof (induction rule: plain_reach.induct)
  case (plain_start sy)
  then show ?case using replayed_start by blast
next
  case (plain_loop sy0 sy' sy'')
  have r: "running sy'" by (rule step_running(1) [OF plain_loop.hyps(3)])
  then obtain chain where "replayed M J (cu_height (sy_cursor sy0)) peer chain (sy_cursor sy') (sy_node sy')"
    using plain_loop by blast
  moreover have "system_inv M sy'"
    using reach_inv plain_reach_node plain_loop.hyps(1) plain_loop.prems by blast
  ultimately show ?case
    using replayed_loop plain_loop.hyps(2,3) plain_loop.prems(2,4) r by blast
next
  case (plain_handler sy0 sy' sy'')
  have "running sy'" by (rule step_running(2) [OF plain_handler.hyps(2)])
  then obtain chain where "replayed M J (cu_height (sy_cursor sy0)) peer chain (sy_cursor sy') (sy_node sy')"
    using plain_handler by blast
  then show ?case
    using replayed_quiet handler_quiet [OF plain_handler.hyps(2)] by metis
qed

section \<open>The pages of the miner\<close>

lemma map_filter_chain:
  assumes "\<And>i. a \<le> i \<Longrightarrow> i < b \<Longrightarrow> f i = (if i < bound then Some (g i) else None)"
  shows "List.map_filter f [a..<b] = map g [a..<min b bound]"
proof -
  have "List.map_filter (\<lambda>i. if i < bound then Some (g i) else None) xs = map g (filter (\<lambda>i. i < bound) xs)" for xs
    by (induction xs) (simp_all add: List.map_filter_simps)
  moreover have "List.map_filter f [a..<b] = List.map_filter (\<lambda>i. if i < bound then Some (g i) else None) [a..<b]"
    using assms by (intro map_filter_cong) simp
  moreover have "filter (\<lambda>i. i < bound) [a..<b] = [a..<min b bound]"
    by (induction b) (auto simp: min_def not_less_eq_eq dest: le_antisym)
  ultimately show ?thesis by simp
qed

lemma miner_serves:
  assumes "replayed M J h0 peer chain cu nd" "unat (cu_height cu) \<le> 2 ^ 62"
  shows "serves (\<lambda>a b. Some (handle_chain_headers (mr_serde M) (Some a) (Some b) nd)) h0 chain"
  unfolding serves_def
proof (intro allI impI)
  fix start stop :: u64
  assume a: "unat h0 < unat start" "unat start \<le> unat h0 + length chain" "unat stop = unat start + 499"
  let ?J = "mr_serde M" and ?s = "nd_store nd"
  have h: "unat (cu_height cu) = unat h0 + length chain" and inv: "store_inv ?J ?s"
    and above: "\<And>h. cu_height cu < h \<Longrightarrow> store_lookup ?J ?s h = None"
    and within: "\<And>h. h0 < h \<Longrightarrow> h \<le> cu_height cu \<Longrightarrow> store_lookup ?J ?s h = Some (chain ! (unat h - unat h0 - 1))"
    using assms(1) by (simp_all add: replayed_def archived_def)
  have stop: "min stop (sat_add start MAX_SYNC_PAGE) = stop"
    using a h assms(2) by (simp add: min_def word_le_nat_alt unat_sat_add MAX_SYNC_PAGE_def)
  have small: "small_height start" "small_height stop" "small_height MAX_SYNC_PAGE"
    using a h assms(2) by (simp_all add: small_height_def MAX_SYNC_PAGE_def)
  have look: "store_lookup ?J ?s (of_nat i) = (if i < unat (cu_height cu) + 1 then Some (chain ! (i - unat h0 - 1)) else None)"
    if i: "unat start \<le> i" "i < Suc (unat stop)" for i
  proof -
    have u: "unat (of_nat i :: u64) = i"
      using i a h assms(2) by (simp add: unat_of_nat)
    show ?thesis
      using above [of "of_nat i"] within [of "of_nat i"] i a(1)
      by (auto simp: word_le_nat_alt word_less_nat_alt u)
  qed
  have "unat MAX_SYNC_PAGE = 500" by (simp add: MAX_SYNC_PAGE_def)
  then have "get_range ?J ?s start stop MAX_SYNC_PAGE
      = Inr (take 500 (map (\<lambda>i. chain ! (i - unat h0 - 1)) [unat start..<min (Suc (unat stop)) (unat (cu_height cu) + 1)]))"
    unfolding get_range_lookup [OF inv small] by (simp only: map_filter_chain [OF look])
  then have "handle_chain_headers ?J (Some start) (Some stop) nd
      = take 500 (map (\<lambda>i. chain ! (i - unat h0 - 1)) [unat start..<min (Suc (unat stop)) (unat (cu_height cu) + 1)])"
    by (simp add: handle_chain_headers_def stop ok_or_def del: upt_Suc)
  also have "\<dots> = take 500 (drop (unat start - unat h0 - 1) chain)"
    using a h by (intro nth_equalityI) (auto simp: min_def simp del: upt_Suc split: if_splits)
  finally show "Some (handle_chain_headers ?J (Some start) (Some stop) nd) = Some (take 500 (drop (unat start - unat h0 - 1) chain))"
    by simp
qed

text \<open>What an honest miner serves after a run: the records that bring the other node to its state.\<close>

lemma miner_chain:
  assumes "hex_ok (mr_prims M)" "fresh_system M start" "node_reach M start sy0" "plain_reach M sy0 sy" "running sy"
    and "archived (mr_serde M) (sy_cursor sy0) (sy_node sy0)" "agrees (sy_cursor sy0) (sy_node sy0) peer"
  shows "\<exists>chain. replayed M J (cu_height (sy_cursor sy0)) peer chain (sy_cursor sy) (sy_node sy)
    \<and> unat (of_nat (length chain) :: u64) = length chain
    \<and> cu_height (sy_cursor sy) = cu_height (sy_cursor sy0) + of_nat (length chain)
    \<and> unat (cu_height (sy_cursor sy)) = unat (cu_height (sy_cursor sy0)) + length chain
    \<and> unat (cu_height (sy_cursor sy)) \<le> 2 ^ 62 \<and> tracks (sy_cursor sy) (sy_node sy)"
proof -
  let ?h0 = "cu_height (sy_cursor sy0)"
  obtain chain where rep: "replayed M J ?h0 peer chain (sy_cursor sy) (sy_node sy)"
    using replayed_reach [OF assms(4,3,1,2,5,6,7)] by blast
  have "system_inv M sy"
    by (rule reach_inv [OF plain_reach_node [OF assms(4,3)] assms(1,2)])
  from node_inv_height [OF system_inv_parts(1) [OF this assms(5)]]
    system_inv_parts(1) [OF this assms(5)]
  have h: "unat (cu_height (sy_cursor sy)) \<le> 2 ^ 62" and tr: "tracks (sy_cursor sy) (sy_node sy)"
    by (simp_all add: node_inv_def Let_def)
  have len: "unat (cu_height (sy_cursor sy)) = unat ?h0 + length chain"
    using rep by (simp add: replayed_def)
  have "unat (of_nat (length chain) :: u64) = length chain"
    using len h by (simp add: unat_of_nat)
  moreover from this have "cu_height (sy_cursor sy) = ?h0 + of_nat (length chain)"
    using len h by (simp add: word_unat_eq_iff unat_add_fits)
  ultimately show ?thesis
    using rep len h tr by blast
qed

section \<open>Properties\<close>


lemma commit_genesis:
  "ns_genesis_hash (nd_state (fst (snd (snd (commit P J K lio fio secs cd result lh w (cu, nd, rf)))))) = ns_genesis_hash (nd_state nd)"
  by (simp add: commit_def Let_def case_prod_unfold commit_state_def drop_confirmed_def split: sum.splits option.splits)

lemma length_simulated_root: "hash_ok P \<Longrightarrow> length (snd (simulate_block_execution P l txs miner reward)) = 32"
  by (simp add: simulate_block_execution_def state_root_with_overlay_def compute_state_root_def case_prod_unfold Let_def)

text \<open>A miner with one thread, no difficulty and nothing pending extends its chain by a block, and is again in such a
  state.\<close>

lemma easy_block:
  assumes "fresh_system M sy" "hex_ok (mr_prims M)" "honest M" "mr_threads M = 1"
    and "unat (cu_height (sy_cursor sy)) < 2 ^ 62" "\<not> is_checkpoint_height (cu_height (sy_cursor sy) + 1)"
    and "da_current_bits (cu_adjuster (sy_cursor sy)) = 0" "unat now < 2 ^ 63"
    and "hash_ok (mr_prims M)" "unat (cu_last_ts (sy_cursor sy)) < 2 ^ 63"
    and "length (cu_tip_hash (sy_cursor sy)) = 32" "length (cu_btc_seed (sy_cursor sy)) = 32"
    and "length (keypair_address (mr_prims M) (mr_keypair M)) = 20"
    and "\<forall>out. blake3 (mr_prims M) (nullifier_preimage (cu_height (sy_cursor sy) + 1) out) \<notin> set (ns_nullifiers (nd_state (sy_node sy)))"
    and fresh: "\<forall>h row. header_wf h \<and> h_timestamp h = max now (sat_add (cu_last_ts (sy_cursor sy)) 1)
        \<and> row \<in> set (bs_blocks (nd_store (sy_node sy))) \<longrightarrow> row_block_hash row \<noteq> hex_encode (mr_prims M) (header_hash (mr_prims M) h)"
  obtains sy' header r st where "plain_reach M sy sy'" "fresh_system M sy'"
    "header_wf header" "h_timestamp header = max now (sat_add (cu_last_ts (sy_cursor sy)) 1)"
    "sy_cursor sy' = (sy_cursor sy)\<lparr>cu_height := cu_height (sy_cursor sy) + 1, cu_tip_hash := header_hash (mr_prims M) header,
      cu_last_ts := h_timestamp header, cu_work := sat_add (cu_work (sy_cursor sy)) 1,
      cu_adjuster := snd (record_block (cu_height (sy_cursor sy) + 1) (h_timestamp header) (cu_adjuster (sy_cursor sy)))\<rparr>"
    "ns_genesis_hash (nd_state (sy_node sy')) = ns_genesis_hash (nd_state (sy_node sy))"
    "nd_store (sy_node sy') = insert_block (mr_serde M) r st" "bs_blocks st = bs_blocks (nd_store (sy_node sy))"
    "br_height r = cu_height (sy_cursor sy) + 1" "br_block_hash r = hex_encode (mr_prims M) (header_hash (mr_prims M) header)"
    "csv_safe (br_miner_address r)"
proof -
  let ?P = "mr_prims M" and ?cu = "sy_cursor sy"
  obtain sy1 sy2 sy3 cd lh result run where s: "loop_step M sy sy1" "sy_phase sy1 = Searching cd"
    "loop_step M sy1 sy2" "sy_phase sy2 = Waiting cd lh result" "loop_step M sy2 sy3"
    and ph: "sy_phase sy3 = Elected cd lh result (local_pending cd (local_claim M 0 ?cu cd run))"
    and same: "sy_cursor sy3 = ?cu" "nd_ledger (sy_node sy3) = nd_ledger (sy_node sy)" "nd_store (sy_node sy3) = nd_store (sy_node sy)"
    "ns_nullifiers (nd_state (sy_node sy3)) = ns_nullifiers (nd_state (sy_node sy))"
    "ns_genesis_hash (nd_state (sy_node sy3)) = ns_genesis_hash (nd_state (sy_node sy))"
    and idle: "ns_pending_claims (nd_state (sy_node sy3)) = []" "sy_inflight sy3 = []"
    and ts: "cd_timestamp cd = max now (sat_add (cu_last_ts ?cu) 1)"
    by (rule easy_steps [OF assms(1-8)])
  let ?w = "local_pending cd (local_claim M 0 ?cu cd run)"
  let ?header = "sc_header (pc_claim ?w)"
  have "plain_block M sy" "plain_block M sy1" "plain_block M sy2"
    using s(2,4) assms(1) by (simp_all add: plain_block_def fresh_system_def)
  then have r3: "plain_reach M sy sy3"
    using s(1,3,5) plain_reach.intros by metis
  have "system_inv M sy3"
    by (rule reach_inv [OF plain_reach_node [OF r3 node_reach.begin_run] assms(2,1)])
  moreover have run3: "running sy3" by (simp add: running_def ph)
  ultimately have "phase_inv M ?cu (sy_node sy3) (Elected cd lh result ?w)"
    using system_inv_parts(2) [of M sy3] ph same(1) by simp
  then have d: "candidate_fits ?P (mr_hex M) ?cu (nd_ledger (sy_node sy3)) cd"
    by (simp add: drafted_def)
  have h: "?header = mined_header (candidate_job ?P (keypair_address ?P (mr_keypair M)) (mr_threads M) ?cu cd) run"
    by (simp add: local_pending_def local_claim_def claim_sign_def Let_def)
  have "length (cd_state_root cd) = 32"
    using d length_simulated_root [OF assms(9), of "nd_ledger (sy_node sy3)" "cd_txs cd" "mr_hex M" "cd_reward cd"]
    unfolding candidate_fits_def by (metis snd_conv)
  then have wf: "header_wf ?header" "h_version ?header = 1" "h_timestamp ?header = max now (sat_add (cu_last_ts ?cu) 1)"
    "h_difficulty_bits ?header = 0"
    using d length_merkle_root [OF assms(9), of "cd_txs cd"] assms(6,7,11-13) ts
    by (simp_all add: h header_wf_def mined_header_fields candidate_job_def mining_template_def candidate_fits_def)
  have hash: "claim_block_hash ?P (pc_claim ?w) = header_hash ?P ?header"
    by (simp add: claim_block_hash_def)
  have "\<forall>row \<in> set (bs_blocks (nd_store (sy_node sy))). row_block_hash row \<noteq> hex_encode ?P (header_hash ?P ?header)"
    using fresh wf(1,3) by blast
  then have plain: "plain_block M sy3"
    using wf(1,2) same(3) hash by (simp add: plain_block_def ph claim_block_hash_hex_def)
  obtain cu' nd' rf' where c: "commit ?P (mr_serde M) (mr_codec M) True True 9 cd result lh ?w (sy_cursor sy3, sy_node sy3, sy_file sy3)
      = (Inr (), cu', nd', rf')"
    using commit_result [of ?P "mr_serde M" "mr_codec M" True True 9 cd result lh ?w "sy_cursor sy3" "sy_node sy3" "sy_file sy3"]
      same(4) assms(14) d
    by (cases "commit ?P (mr_serde M) (mr_codec M) True True 9 cd result lh ?w (sy_cursor sy3, sy_node sy3, sy_file sy3)")
      (simp add: candidate_fits_def claim_randomness_def randomness_from_block_def Let_def)
  let ?sy = "sy3\<lparr>sy_cursor := cu', sy_node := nd', sy_file := rf', sy_phase := Idle\<rparr>"
  have step: "loop_step M sy3 ?sy"
    by (rule loop_step.committed [OF ph c])
  then have reach: "plain_reach M sy ?sy"
    by (rule plain_loop [OF r3 plain])
  have "cu' = commit_cursor ?P (cd_height cd) ?w ?cu"
    using commit_cursor_of [of ?P "mr_serde M" "mr_codec M" True True 9 cd result lh ?w "sy_cursor sy3" "sy_node sy3" "sy_file sy3"]
      c same(1) by simp
  then have cu': "cu' = ?cu\<lparr>cu_height := cu_height ?cu + 1, cu_tip_hash := header_hash ?P ?header, cu_last_ts := h_timestamp ?header,
      cu_work := sat_add (cu_work ?cu) 1,
      cu_adjuster := snd (record_block (cu_height ?cu + 1) (h_timestamp ?header) (cu_adjuster ?cu))\<rparr>"
    using d assms(6) wf(4) by (simp add: commit_cursor_def hash candidate_fits_def Let_def block_work_def)
  have "ns_pending_claims (nd_state nd') = ns_pending_claims (nd_state (sy_node sy3))"
    using arg_cong [OF c, of "\<lambda>x. ns_pending_claims (nd_state (fst (snd (snd x))))"]
    by (simp add: commit_def Let_def case_prod_unfold commit_state_def drop_confirmed_def split: sum.splits option.splits)
  moreover have "system_inv M ?sy"
    by (rule reach_inv [OF plain_reach_node [OF reach node_reach.begin_run] assms(2,1)])
  then have "node_inv M cu' nd'"
    using system_inv_parts(1) [of M ?sy] by (simp add: running_def)
  moreover have "unat (max now (sat_add (cu_last_ts ?cu) 1)) \<le> 2 ^ 63"
    using assms(8,10) by (simp add: max_def unat_sat_add)
  ultimately have f: "fresh_system M ?sy"
    using idle cu' wf(3) by (simp add: fresh_system_def node_inv_def Let_def)
  have g: "ns_genesis_hash (nd_state (sy_node ?sy)) = ns_genesis_hash (nd_state (sy_node sy))"
    using same(5) commit_genesis [of ?P "mr_serde M" "mr_codec M" True True 9 cd result lh ?w "sy_cursor sy3" "sy_node sy3" "sy_file sy3"] c
    by simp
  define r where "r = mined_record ?P (cd_height cd) ?w (cd_reward cd) result lh
      (pinned_tip (cd_height cd) ?w (ns_btc_checkpoint_tip_height (nd_state (sy_node sy3)))) (cu_work (commit_cursor ?P (cd_height cd) ?w ?cu))"
  have st: "nd_store (sy_node ?sy) = insert_block (mr_serde M) r
      (fold (\<lambda>t. mempool_remove ?P (stx_tx_id ?P t)) (pc_transactions ?w) (nd_store (sy_node sy)))"
    using commit_store [of ?P "mr_serde M" "mr_codec M" True True 9 cd result lh ?w "sy_cursor sy3" "sy_node sy3" "sy_file sy3"] c same(1,3)
    by (simp add: r_def)
  have "br_height r = cu_height ?cu + 1" "br_block_hash r = hex_encode ?P (header_hash ?P ?header)" "csv_safe (br_miner_address r)"
    using csv_safe_hex [OF assms(2)] d hash
    by (simp_all add: r_def claim_miner_address_hex_def claim_block_hash_hex_def candidate_fits_def)
  from that [OF reach f wf(1,3) _ g st fold_mempool_tables(1) this] cu' show thesis by simp
qed

text \<open>The sample miner extends its chain by a block.\<close>

lemma sample_archived: "archived sample_serde sample_tip sample_node"
  using store_inv_open [OF sample_json_ok]
  by (simp add: archived_def sample_node_def) (simp add: store_lookup_def store_get_def store_open_def)

lemma sample_commit:
  "\<exists>sy. plain_reach sample_mr sample_system sy \<and> running sy \<and> cu_work (sy_cursor sy) = 1
    \<and> ns_genesis_hash (nd_state (sy_node sy)) = replicate 32 7 \<and> cu_height (sy_cursor sy) = 2"
proof -
  have cu: "sy_cursor sample_system = sample_tip" "nd_store (sy_node sample_system) = store_open None"
    "ns_nullifiers (nd_state (sy_node sample_system)) = []" "ns_genesis_hash (nd_state (sy_node sample_system)) = replicate 32 7"
    "mr_threads sample_mr = 1" "mr_prims sample_mr = sample_prims" "mr_keypair sample_mr = sample_miner"
    by (simp_all add: sample_system_def sample_mr_def sample_node_def sample_state_def initial_state_def)
  have "length (keypair_address sample_prims sample_miner) = 20"
    using sample_next_claim_verifies by (simp add: keypair_address_def wpk_address_def)
  moreover have tip: "length (cu_tip_hash sample_tip) = 32" "length (cu_btc_seed sample_tip) = 32" "da_current_bits (cu_adjuster sample_tip) = 0"
    "unat (cu_last_ts sample_tip) < 2 ^ 63" "cu_work sample_tip = 0"
    by (simp_all add: sample_tip_def)
  ultimately obtain sy' where r: "plain_reach sample_mr sample_system sy'" "fresh_system sample_mr sy'"
    "cu_height (sy_cursor sy') = 2" "cu_work (sy_cursor sy') = sat_add 0 1"
    "ns_genesis_hash (nd_state (sy_node sy')) = replicate 32 7"
    by (rule_tac easy_block [OF sample_fresh sample_mr_ok cu(5), of 0])
      (simp_all add: cu sample_hash_ok store_open_def)
  then show ?thesis
    by (intro exI [of _ sy']) (simp add: fresh_system_def running_def sat_add_def)
qed


end
