(* ===== verification/Claim_Relay.thy ===== *)
theory Claim_Relay
  imports Node_System Http_Api
begin

text \<open>
  The composition of the claim endpoint, the gossip layer and the gossip endpoint of another node: what one node
  accepts from a miner, its peers in the same state admit and pass on.
\<close>

section \<open>The same check at another node\<close>

text \<open>Two nodes whose answers to a claim can differ only by their clocks.\<close>

definition same_view :: "node \<Rightarrow> node \<Rightarrow> bool" where
  "same_view a b \<longleftrightarrow> same_tip (nd_state a) (nd_state b) \<and> nd_ledger b = nd_ledger a
     \<and> ns_genesis_hash (nd_state b) = ns_genesis_hash (nd_state a)
     \<and> ns_btc_checkpoint_tip_height (nd_state b) = ns_btc_checkpoint_tip_height (nd_state a)
     \<and> be_tip_height (ns_last_observed_btc (nd_state b)) = be_tip_height (ns_last_observed_btc (nd_state a))"

lemma timestamp_valid_later:
  "timestamp_is_valid t last_ts now m \<Longrightarrow> now \<le> later \<Longrightarrow> timestamp_is_valid t last_ts later m"
  by (auto simp: timestamp_is_valid_iff word_le_nat_alt)

lemma accept_check_elsewhere:
  assumes "accept_check P now (nd_state a) (nd_ledger a) claim ckpt txs = Inr ()" "same_view a b" "now \<le> later"
  shows "accept_check P later (nd_state b) (nd_ledger b) claim ckpt txs = Inr ()"
proof -
  obtain reward where x: "accept_payload P claim txs = Inr ()" "accept_structure P now (nd_state a) claim ckpt = Inr reward"
    "accept_execution P (nd_ledger a) claim txs reward = Inr ()"
    using assms(1) by (auto simp: accept_check_def res_bind_Inr_iff)
  have "accept_checkpoint P (nd_state b) (sc_header claim) ckpt = accept_checkpoint P (nd_state a) (sc_header claim) ckpt"
    using assms(2) by (cases ckpt) (simp_all add: accept_checkpoint_def same_view_def same_tip_def)
  then have "accept_structure P later (nd_state b) claim ckpt = Inr reward"
    using x(2) assms(2) timestamp_valid_later [OF _ assms(3)]
    by (simp add: accept_structure_ok Let_def same_view_def same_tip_def)
  with x assms(2) show ?thesis
    by (simp add: accept_check_def same_view_def)
qed

lemma accept_admits:
  assumes "accept_check P now (nd_state nd) (nd_ledger nd) claim ckpt txs = Inr ()"
    and "\<not> hm_has (pending_at (nd_state nd) (h_height (sc_header claim))) (claim_miner_address_hex P claim)"
  shows "\<exists>a nd'. accept_signed_claim P now claim ckpt txs nd = (Inr a, nd')
    \<and> has_pending (h_height (sc_header claim)) (claim_miner_address_hex P claim)
        \<lparr>pc_claim = claim, pc_btc_checkpoint = ckpt, pc_transactions = txs\<rparr> (nd_state nd')"
  using assms by (simp add: accept_signed_claim_def accept_admit_def Let_def has_pending_def)

lemma submit_accepts:
  "accept_signed_claim P now_ms (cs_claim sub) (cs_btc_checkpoint sub) (cs_transactions sub) nd = (Inr a, nd') \<Longrightarrow>
    \<exists>v sent go'. handle_submit_claim P now_ms now_secs sub (go, nd) = (Inr v, sent, go', nd')"
  by (simp add: handle_submit_claim_def Let_def split: prod.splits)

section \<open>Properties\<close>

text \<open>C31: A claim that the endpoint of a node accepts is sent to every peer of the node, and a peer of the same
  network that agrees on the tip, has not seen the message, receives it within thirty seconds and has no
  claim of this miner yet admits it as a candidate and relays it to all its own peers but the sender. The size of
  the message is a matter of the server in front of the handler (\<open>Http_Router\<close>).\<close>

theorem submitted_claim_reaches_peers:
  assumes "handle_submit_claim P now_ms now_secs sub (go, nd) = (Inr v, sent, go', nd')"
    and "same_view nd peer_nd" "now_ms \<le> later_ms" "later \<le> sat_add now_secs 30"
    and "go_network peer_go = go_network go"
    and "message_id P (go_network go) now_secs (cs_claim sub) (derived_from_claim P (cs_claim sub)) (cs_btc_checkpoint sub)
      \<notin> set (sm_seen (go_seen peer_go))"
    and "\<not> hm_has (pending_at (nd_state peer_nd) (h_height (sc_header (cs_claim sub)))) (claim_miner_address_hex P (cs_claim sub))"
  shows "\<exists>message relayed. map fst sent = peers_all (go_peers go) \<and> (\<forall>x \<in> set sent. snd x = message)
    \<and> (\<exists>peer_go' peer_nd'. handle_p2p_message P parse_addr later_ms later message sender (peer_go, peer_nd)
          = (OK_200, relayed, peer_go', peer_nd')
        \<and> has_pending (h_height (sc_header (cs_claim sub))) (claim_miner_address_hex P (cs_claim sub))
            \<lparr>pc_claim = cs_claim sub, pc_btc_checkpoint = cs_btc_checkpoint sub, pc_transactions = cs_transactions sub\<rparr>
            (nd_state peer_nd'))
    \<and> map fst relayed = filter (\<lambda>a. a \<noteq> sender) (peers_all (go_peers peer_go))"
proof -
  let ?c = "cs_claim sub" and ?k = "cs_btc_checkpoint sub" and ?txs = "cs_transactions sub"
  define e where "e = envelope_from_claim P now_secs (go_network go) DEFAULT_P2P_TTL ?c ?k ?txs"
  define e' where "e' = e\<lparr>ev_ttl := sat_sub (ev_ttl e) 1\<rparr>"
  have chk: "accept_check P now_ms (nd_state nd) (nd_ledger nd) ?c ?k ?txs = Inr ()"
    using assms(1) by (auto simp: handle_submit_claim_def accept_signed_claim_def claim_error_response_def json_error_def
        split: sum.splits)
  have sent: "sent = map (\<lambda>peer. (peer, BlockClaim e)) (peers_all (go_peers go))"
    using assms(1) by (auto simp: handle_submit_claim_def claim_error_response_def json_error_def broadcast_claim_def
        broadcast_message_def e_def Let_def case_prod_unfold split: prod.splits sum.splits)
  have "envelope_verify P e = Inr ()"
    using chk unfolding e_def
    by (intro envelope_from_claim_verifies) (auto simp: accept_check_def accept_payload_ok res_bind_Inr_iff)
  then obtain peer_go' where g: "handle_incoming_claim P later e peer_go = (Some e', peer_go')"
      "go_peers peer_go' = go_peers peer_go"
    using assms(4-6) incoming_claim_accepted [of P later e peer_go e'
        "peer_go\<lparr>go_seen := snd (mark_seen (ev_message_id e) (go_seen peer_go))\<rparr>"]
    by (auto simp: e'_def e_def DEFAULT_P2P_TTL_def MESSAGE_MAX_AGE_SECS_def)
  then have inc: "handle_incoming P parse_addr later (BlockClaim e) peer_go = (Some (BlockClaim e'), peer_go')"
    using handle_incoming_block [of P parse_addr later e peer_go] by (simp add: prod_eq_iff)
  have e': "ev_claim e' = ?c" "ev_btc_checkpoint e' = ?k" "ev_transactions e' = ?txs" "ev_ttl e' > 0"
    by (simp_all add: e'_def e_def DEFAULT_P2P_TTL_def sat_sub_def)
  obtain a peer_nd' where adm: "accept_signed_claim P later_ms ?c ?k ?txs peer_nd = (Inr a, peer_nd')"
    "has_pending (h_height (sc_header ?c)) (claim_miner_address_hex P ?c)
      \<lparr>pc_claim = ?c, pc_btc_checkpoint = ?k, pc_transactions = ?txs\<rparr> (nd_state peer_nd')"
    using accept_admits [OF accept_check_elsewhere [OF chk assms(2,3)] assms(7)] by blast
  have "handle_p2p_message P parse_addr later_ms later (BlockClaim e) sender (peer_go, peer_nd)
      = (OK_200, relay_message peer_go' (BlockClaim e') sender, peer_go', peer_nd')"
    using adm(1) e' by (simp add: handle_p2p_message_def inc)
  with sent adm(2) g(2) show ?thesis
    by (intro exI [of _ "BlockClaim e"] exI [of _ "relay_message peer_go' (BlockClaim e') sender"])
      (auto simp: relay_message_def broadcast_message_def comp_def)
qed

definition sample_submission :: claim_submission where
  "sample_submission = \<lparr>cs_claim = sample_next_claim, cs_btc_checkpoint = None, cs_transactions = []\<rparr>"

text \<open>Two fresh nodes with the same chain; the first knows a peer.\<close>

theorem submitted_claim_reaches_peers_witness:
  "\<exists>v sent go' nd' message relayed peer_go' peer_nd'.
     handle_submit_claim sample_prims 1000050 100 sample_submission (sample_gossip\<lparr>go_peers := sample_peers\<rparr>, sample_node)
       = (Inr v, sent, go', nd')
     \<and> map snd sent = [message]
     \<and> handle_p2p_message sample_prims (\<lambda>_. None) 1000060 110 message (SocketV4 7 9) (sample_gossip, sample_node)
       = (OK_200, relayed, peer_go', peer_nd')
     \<and> has_pending 2 sample_miner_hex \<lparr>pc_claim = sample_next_claim, pc_btc_checkpoint = None, pc_transactions = []\<rparr> (nd_state peer_nd')"
proof -
  let ?go = "sample_gossip\<lparr>go_peers := sample_peers\<rparr>"
  let ?r = "handle_submit_claim sample_prims 1000050 100 sample_submission (?go, sample_node)"
  have sub: "cs_claim sample_submission = sample_next_claim" "cs_btc_checkpoint sample_submission = None"
    "cs_transactions sample_submission = []" by (simp_all add: sample_submission_def)
  obtain a where "accept_signed_claim sample_prims 1000050 sample_next_claim None [] sample_node
    = (Inr a, snd (accept_signed_claim sample_prims 1000050 sample_next_claim None [] sample_node))"
    by (rule sample_node_accepted)
  from submit_accepts [of sample_prims 1000050 sample_submission sample_node, unfolded sub, OF this]
  obtain v sent go' nd' where r: "?r = (Inr v, sent, go', nd')" by blast
  have "same_view sample_node sample_node"
    by (simp add: same_view_def same_tip_def)
  moreover have "pending_at (nd_state sample_node) h = []" for h
    by (simp add: pending_at_def sample_node_def sample_state_def initial_state_def)
  moreover have "go_network sample_gossip = go_network ?go" "sm_seen (go_seen sample_gossip) = []"
    by (simp_all add: sample_gossip_def gossip_new_def seen_new_def)
  moreover have "(110 :: u64) \<le> sat_add 100 30" "(1000050 :: u64) \<le> 1000060"
    by (simp_all add: sat_add_def)
  ultimately obtain message relayed peer_go' peer_nd' where m: "map fst sent = peers_all (go_peers ?go)"
    "\<forall>x \<in> set sent. snd x = message"
    "handle_p2p_message sample_prims (\<lambda>_. None) 1000060 110 message (SocketV4 7 9) (sample_gossip, sample_node)
       = (OK_200, relayed, peer_go', peer_nd')"
    "has_pending 2 sample_miner_hex \<lparr>pc_claim = sample_next_claim, pc_btc_checkpoint = None, pc_transactions = []\<rparr> (nd_state peer_nd')"
    using submitted_claim_reaches_peers [OF r, of sample_node 1000060 110 sample_gossip "\<lambda>_. None" "SocketV4 7 9"]
    by (auto simp: sub hm_has_def sample_next_header_def)
  have "length sent = 1"
    using m(1) sample_peers_all by (metis gossip.select_convs(1) gossip.surjective gossip.update_convs(1) length_map list.size(3,4) One_nat_def add_0)
  then have "map snd sent = [message]"
    using m(2) by (cases sent) auto
  show ?thesis
    by (intro exI conjI, rule r, rule \<open>map snd sent = [message]\<close>, rule m(3), rule m(4))
qed

end
