(* ===== verification/Wallet_Cli.thy ===== *)
theory Wallet_Cli
  imports Http_Api
begin

text \<open>
  \<^verbatim>\<open>node/src/wallet_cmd.rs\<close>: the command line wallet. A run takes the arguments and the files and gives what
  is printed, or the error it ends with, and the files after it. Argument texts, the environment, the
  answers of the file system, the random bytes and \<^verbatim>\<open>serde_json\<close> are parameters. Paths are those of Unix.
\<close>

section \<open>JSON\<close>

text \<open>A JSON object as the list of its members; a value that is not an object has none.\<close>

datatype json_value = JStr string | JNum u64 | JOther

type_synonym json_object = "(string \<times> json_value) list"

record wallet_json =
  wj_secret_key :: "string \<Rightarrow> string option"
  wj_parse :: "string \<Rightarrow> json_object option"
  wj_print :: "json_object \<Rightarrow> string"

section \<open>Outcomes\<close>

datatype cli_error =
    CannotCreateDirectory
  | CannotWriteWallet
  | WalletFileMissing
  | WalletFileNotJson
  | SecretKeyNotHex memory_error
  | SecretBuffer memory_error
  | WalletFileCorrupt crypto_error
  | WalletExists
  | SlicePanic
  | SignatureNotHex
  | BadSignature crypto_error
  | PublicKeyNotHex
  | BadPublicKey crypto_error
  | NotAU64 string
  | TxJsonInvalid
  | MissingString string
  | MissingU64 string
  | BadFromAddress tx_error
  | BadToAddress tx_error
  | BadRecipientAddress tx_error
  | CouldNotSign tx_error
  | CannotReadTxFile
  | SignatureInvalid crypto_error
  | TransactionInvalid tx_error
  | Usage string

text \<open>Rust's status for a panic is 101.\<close>

fun exit_code :: "cli_error \<Rightarrow> nat" where
  "exit_code CannotCreateDirectory = 101"
| "exit_code CannotWriteWallet = 101"
| "exit_code WalletFileNotJson = 101"
| "exit_code (SecretKeyNotHex e) = 101"
| "exit_code (SecretBuffer e) = 101"
| "exit_code SlicePanic = 101"
| "exit_code (SignatureInvalid e) = 2"
| "exit_code (TransactionInvalid e) = 2"
| "exit_code e = 1"

datatype cli_output =
    Created string string
  | Shown string string string nat
  | Line string
  | Signed string string string string string nat nat
  | Valid
  | ValidFor string
  | PrintedTx string
  | ValidTx string string string u64 u64 u64
  | Help

datatype file_entry = TextFile string | Unreadable

type_synonym files = "string \<Rightarrow> file_entry option"

record cli_env =
  ce_json :: wallet_json
  ce_memory :: memory_env
  ce_seed :: bytes
  ce_falcon_key_rand :: nat
  ce_falcon_sign_rand :: nat
  ce_mkdir_ok :: bool
  ce_write_ok :: bool

section \<open>The wallet file\<close>

definition join_path :: "string \<Rightarrow> string \<Rightarrow> string" where
  "join_path base part = (if base = [] then part else if last base = CHR ''/'' then base @ part else base @ ''/'' @ part)"

definition default_wallet_path :: "(string \<Rightarrow> string option) \<Rightarrow> string" where
  "default_wallet_path env =
     (let home = (case env ''USERPROFILE'' of Some h \<Rightarrow> h | None \<Rightarrow> (case env ''HOME'' of Some h \<Rightarrow> h | None \<Rightarrow> ''.'')) in
      join_path (join_path home ''.bina'') ''wallet.json'')"

definition json_member :: "string \<Rightarrow> string \<Rightarrow> string" where
  "json_member name v = [CHR 0x0A] @ ''  '' @ [CHR 0x22] @ name @ [CHR 0x22] @ '': '' @ v"

definition json_quoted :: "string \<Rightarrow> string" where
  "json_quoted s = [CHR 0x22] @ s @ [CHR 0x22]"

definition wallet_text :: "string \<Rightarrow> string \<Rightarrow> string \<Rightarrow> string" where
  "wallet_text address public_key secret_key =
     ''{'' @ json_member ''version'' ''1'' @ '','' @ json_member ''address'' (json_quoted address) @ '',''
     @ json_member ''public_key'' (json_quoted public_key) @ '','' @ json_member ''secret_key'' (json_quoted secret_key)
     @ [CHR 0x0A] @ ''}''"

definition save_wallet :: "prims \<Rightarrow> cli_env \<Rightarrow> wallet_keypair \<Rightarrow> string \<Rightarrow> files \<Rightarrow> cli_error + files" where
  "save_wallet P ce kp path files =
     (if \<not> ce_mkdir_ok ce then Inl CannotCreateDirectory
      else let secret_hex = hex_encode P (keypair_to_secret_bytes kp);
               content = wallet_text (wpk_address_hex P (kp_public kp)) (hex_encode P (wpk_to_bytes (kp_public kp))) secret_hex in
        if \<not> ce_write_ok ce then Inl CannotWriteWallet else Inr (files(path \<mapsto> TextFile content)))"

definition read_file :: "files \<Rightarrow> string \<Rightarrow> string option" where
  "read_file files path = (case files path of Some (TextFile s) \<Rightarrow> Some s | _ \<Rightarrow> None)"

definition load_wallet :: "prims \<Rightarrow> cli_env \<Rightarrow> string \<Rightarrow> files \<Rightarrow> cli_error + wallet_keypair" where
  "load_wallet P ce path files =
     (case read_file files path of
        None \<Rightarrow> Inl WalletFileMissing
      | Some content \<Rightarrow>
          (case wj_secret_key (ce_json ce) content of
             None \<Rightarrow> Inl WalletFileNotJson
           | Some secret_key \<Rightarrow>
               res_bind (map_err SecretKeyNotHex (sbuf_from_hex P (ce_memory ce) secret_key)) (\<lambda>secret.
               res_bind (map_err SecretBuffer (sbuf_as_slice (ce_memory ce) secret)) (\<lambda>secret_bytes.
               map_err WalletFileCorrupt (keypair_from_secret_bytes P secret_bytes)))))"

section \<open>Keys and signatures\<close>

text \<open>\<^verbatim>\<open>&s[..n]\<close>.\<close>

definition str_prefix :: "nat \<Rightarrow> string \<Rightarrow> cli_error + string" where
  "str_prefix n s = (if length s < n then Inl SlicePanic else Inr (take n s))"

definition cmd_generate :: "prims \<Rightarrow> cli_env \<Rightarrow> string \<Rightarrow> files \<Rightarrow> (cli_error + cli_output) \<times> files" where
  "cmd_generate P ce path files =
     (if files path \<noteq> None then (Inl WalletExists, files)
      else let kp = keypair_generate P (ce_seed ce) (ce_falcon_key_rand ce) in
        (case save_wallet P ce kp path files of
           Inl e \<Rightarrow> (Inl e, files)
         | Inr files' \<Rightarrow> (Inr (Created path (wpk_address_hex P (kp_public kp))), files')))"

definition cmd_show :: "prims \<Rightarrow> cli_env \<Rightarrow> string \<Rightarrow> files \<Rightarrow> cli_error + cli_output" where
  "cmd_show P ce path files =
     res_bind (load_wallet P ce path files) (\<lambda>kp.
       let pk_bytes = wpk_to_bytes (kp_public kp) in
       res_bind (str_prefix 32 (hex_encode P pk_bytes)) (\<lambda>start.
         Inr (Shown path (wpk_address_hex P (kp_public kp)) start (length pk_bytes))))"

definition cmd_address :: "prims \<Rightarrow> cli_env \<Rightarrow> string \<Rightarrow> files \<Rightarrow> cli_error + cli_output" where
  "cmd_address P ce path files =
     res_bind (load_wallet P ce path files) (\<lambda>kp. Inr (Line (wpk_address_hex P (kp_public kp))))"

definition cmd_public_key :: "prims \<Rightarrow> cli_env \<Rightarrow> string \<Rightarrow> files \<Rightarrow> cli_error + cli_output" where
  "cmd_public_key P ce path files =
     res_bind (load_wallet P ce path files) (\<lambda>kp. Inr (Line (hex_encode P (wpk_to_bytes (kp_public kp)))))"

definition cmd_sign :: "prims \<Rightarrow> cli_env \<Rightarrow> string \<Rightarrow> string \<Rightarrow> files \<Rightarrow> cli_error + cli_output" where
  "cmd_sign P ce path message files =
     res_bind (load_wallet P ce path files) (\<lambda>kp.
       let sig = keypair_sign P (ce_falcon_sign_rand ce) kp (as_bytes message); raw = hsig_to_bytes sig in
       res_bind (str_prefix 32 (hex_encode P (hs_falcon sig))) (\<lambda>start.
         Inr (Signed (wpk_address_hex P (kp_public kp)) message (hex_encode P raw) (hex_encode P (hs_ed25519 sig))
           start (length (hs_falcon sig)) (length raw))))"

text \<open>The signature of either verification command, read from its hexadecimal text.\<close>

definition parse_signature :: "prims \<Rightarrow> string \<Rightarrow> cli_error + hybrid_signature" where
  "parse_signature P sig_hex =
     (case hex_decode P sig_hex of
        None \<Rightarrow> Inl SignatureNotHex
      | Some raw \<Rightarrow> map_err BadSignature (hsig_from_bytes raw))"

definition cmd_verify :: "prims \<Rightarrow> cli_env \<Rightarrow> string \<Rightarrow> string \<Rightarrow> string \<Rightarrow> files \<Rightarrow> cli_error + cli_output" where
  "cmd_verify P ce path message sig_hex files =
     res_bind (load_wallet P ce path files) (\<lambda>kp.
     res_bind (parse_signature P sig_hex) (\<lambda>sig.
     res_bind (map_err SignatureInvalid (wpk_verify P (kp_public kp) (as_bytes message) sig)) (\<lambda>_. Inr Valid)))"

definition cmd_verify_public :: "prims \<Rightarrow> string \<Rightarrow> string \<Rightarrow> string \<Rightarrow> cli_error + cli_output" where
  "cmd_verify_public P message public_key_hex sig_hex =
     (case hex_decode P public_key_hex of
        None \<Rightarrow> Inl PublicKeyNotHex
      | Some pk_bytes \<Rightarrow>
          res_bind (map_err BadPublicKey (wpk_from_bytes P pk_bytes)) (\<lambda>public_key.
          res_bind (parse_signature P sig_hex) (\<lambda>sig.
          res_bind (map_err SignatureInvalid (wpk_verify P public_key (as_bytes message) sig)) (\<lambda>_.
            Inr (ValidFor (wpk_address_hex P public_key))))))"

section \<open>Transactions\<close>

definition parse_u64_arg :: "string \<Rightarrow> string \<Rightarrow> cli_error + u64" where
  "parse_u64_arg name v = (case parse_u64 v of None \<Rightarrow> Inl (NotAU64 name) | Some n \<Rightarrow> Inr n)"

definition signed_tx_json :: "prims \<Rightarrow> signed_transaction \<Rightarrow> json_object" where
  "signed_tx_json P t =
     [(''version'', JNum 1), (''from'', JStr (stx_from_hex P t)), (''to'', JStr (stx_to_hex P t)),
      (''amount'', JNum (tx_amount (stx_tx t))), (''nonce'', JNum (tx_nonce (stx_tx t))), (''fee'', JNum (tx_fee (stx_tx t))),
      (''tx_digest'', JStr (hex_encode P (tx_digest P (stx_tx t)))), (''tx_id'', JStr (stx_tx_id_hex P t)),
      (''public_key'', JStr (hex_encode P (stx_public_key t))), (''signature'', JStr (hex_encode P (stx_signature t)))]"

definition json_str :: "json_object \<Rightarrow> string \<Rightarrow> cli_error + string" where
  "json_str v name = (case map_of v name of Some (JStr s) \<Rightarrow> Inr s | _ \<Rightarrow> Inl (MissingString name))"

definition json_u64 :: "json_object \<Rightarrow> string \<Rightarrow> cli_error + u64" where
  "json_u64 v name = (case map_of v name of Some (JNum n) \<Rightarrow> Inr n | _ \<Rightarrow> Inl (MissingU64 name))"

definition signed_tx_from_json :: "prims \<Rightarrow> wallet_json \<Rightarrow> string \<Rightarrow> cli_error + signed_transaction" where
  "signed_tx_from_json P wj content =
     (case wj_parse wj content of
        None \<Rightarrow> Inl TxJsonInvalid
      | Some v \<Rightarrow>
          res_bind (json_str v ''from'') (\<lambda>from_hex.
          res_bind (map_err BadFromAddress (parse_address_hex P from_hex)) (\<lambda>from_addr.
          res_bind (json_str v ''to'') (\<lambda>to_hex.
          res_bind (map_err BadToAddress (parse_address_hex P to_hex)) (\<lambda>to_addr.
          res_bind (json_str v ''public_key'') (\<lambda>pk_hex.
          res_bind (case hex_decode P pk_hex of None \<Rightarrow> Inl PublicKeyNotHex | Some b \<Rightarrow> Inr b) (\<lambda>public_key.
          res_bind (json_str v ''signature'') (\<lambda>sig_hex.
          res_bind (case hex_decode P sig_hex of None \<Rightarrow> Inl SignatureNotHex | Some b \<Rightarrow> Inr b) (\<lambda>signature.
          res_bind (json_u64 v ''amount'') (\<lambda>amount.
          res_bind (json_u64 v ''nonce'') (\<lambda>nonce.
          res_bind (json_u64 v ''fee'') (\<lambda>fee.
            Inr \<lparr>stx_tx = \<lparr>tx_from = from_addr, tx_to = to_addr, tx_amount = amount, tx_nonce = nonce, tx_fee = fee\<rparr>,
                 stx_public_key = public_key, stx_signature = signature\<rparr>))))))))))))"

definition cmd_sign_tx :: "prims \<Rightarrow> cli_env \<Rightarrow> string \<Rightarrow> string \<Rightarrow> string \<Rightarrow> string \<Rightarrow> string \<Rightarrow> files \<Rightarrow> cli_error + cli_output" where
  "cmd_sign_tx P ce path to_hex amount_arg nonce_arg fee_arg files =
     res_bind (load_wallet P ce path files) (\<lambda>kp.
     res_bind (map_err BadRecipientAddress (parse_address_hex P to_hex)) (\<lambda>to_addr.
     res_bind (parse_u64_arg ''amount'' amount_arg) (\<lambda>amount.
     res_bind (parse_u64_arg ''nonce'' nonce_arg) (\<lambda>nonce.
     res_bind (parse_u64_arg ''fee'' fee_arg) (\<lambda>fee.
     res_bind (map_err CouldNotSign (stx_sign P (ce_falcon_sign_rand ce)
         \<lparr>tx_from = keypair_address P kp, tx_to = to_addr, tx_amount = amount, tx_nonce = nonce, tx_fee = fee\<rparr> kp)) (\<lambda>t.
       Inr (PrintedTx (wj_print (ce_json ce) (signed_tx_json P t)))))))))"

definition cmd_verify_tx :: "prims \<Rightarrow> cli_env \<Rightarrow> string \<Rightarrow> files \<Rightarrow> cli_error + cli_output" where
  "cmd_verify_tx P ce input files =
     res_bind (case files input of
         None \<Rightarrow> Inr input | Some (TextFile s) \<Rightarrow> Inr s | Some Unreadable \<Rightarrow> Inl CannotReadTxFile) (\<lambda>content.
     res_bind (signed_tx_from_json P (ce_json ce) content) (\<lambda>t.
     res_bind (map_err TransactionInvalid (stx_verify P t)) (\<lambda>_.
       Inr (ValidTx (stx_tx_id_hex P t) (stx_from_hex P t) (stx_to_hex P t) (tx_amount (stx_tx t))
         (tx_nonce (stx_tx t)) (tx_fee (stx_tx t))))))"

section \<open>The command line\<close>

text \<open>The arguments after the program name; the last \<open>--path\<close> with a value wins.\<close>

fun cli_args :: "string \<Rightarrow> string list \<Rightarrow> string list \<Rightarrow> string \<times> string list" where
  "cli_args path rest [] = (path, rest)"
| "cli_args path rest [a] = (path, rest @ [a])"
| "cli_args path rest (a # b # args) =
     (if a = ''--path'' \<or> a = ''-p'' then cli_args b rest args else cli_args path (rest @ [a]) (b # args))"

definition arg_at :: "string \<Rightarrow> string list \<Rightarrow> nat \<Rightarrow> cli_error + string" where
  "arg_at cmd rest i = (if i < length rest then Inr (rest ! i) else Inl (Usage cmd))"

definition wallet_main :: "prims \<Rightarrow> cli_env \<Rightarrow> (string \<Rightarrow> string option) \<Rightarrow> string list \<Rightarrow> files \<Rightarrow> (cli_error + cli_output) \<times> files" where
  "wallet_main P ce env args files =
     (let (path, rest) = cli_args (default_wallet_path env) [] args; cmd = (case rest of [] \<Rightarrow> ''help'' | c # _ \<Rightarrow> c) in
      if cmd = ''generate'' \<or> cmd = ''gen'' then cmd_generate P ce path files
      else if cmd = ''show'' then (cmd_show P ce path files, files)
      else if cmd = ''address'' \<or> cmd = ''addr'' then (cmd_address P ce path files, files)
      else if cmd = ''public-key'' \<or> cmd = ''pubkey'' then (cmd_public_key P ce path files, files)
      else if cmd = ''sign'' then
        (res_bind (arg_at cmd rest 1) (\<lambda>msg. cmd_sign P ce path msg files), files)
      else if cmd = ''verify'' then
        (res_bind (arg_at cmd rest 1) (\<lambda>msg. res_bind (arg_at cmd rest 2) (\<lambda>sig. cmd_verify P ce path msg sig files)), files)
      else if cmd = ''verify-public'' then
        (res_bind (arg_at cmd rest 1) (\<lambda>msg. res_bind (arg_at cmd rest 2) (\<lambda>pk. res_bind (arg_at cmd rest 3) (\<lambda>sig.
           cmd_verify_public P msg pk sig))), files)
      else if cmd = ''sign-tx'' then
        (res_bind (arg_at cmd rest 1) (\<lambda>to_hex. res_bind (arg_at cmd rest 2) (\<lambda>amount. res_bind (arg_at cmd rest 3) (\<lambda>nonce.
           res_bind (arg_at cmd rest 4) (\<lambda>fee. cmd_sign_tx P ce path to_hex amount nonce fee files)))), files)
      else if cmd = ''verify-tx'' then
        (res_bind (arg_at cmd rest 1) (\<lambda>input. cmd_verify_tx P ce input files), files)
      else (Inr Help, files))"

text \<open>The body of \<^verbatim>\<open>POST /tx/submit\<close> as \<^verbatim>\<open>serde\<close> reads it: every field present with its type, others ignored.\<close>

definition payload_of_json :: "json_object \<Rightarrow> tx_payload option" where
  "payload_of_json v =
     (case (map_of v ''from'', map_of v ''to'', map_of v ''amount'', map_of v ''nonce'', map_of v ''fee'',
            map_of v ''public_key'', map_of v ''signature'') of
        (Some (JStr f), Some (JStr t), Some (JNum a), Some (JNum n), Some (JNum e), Some (JStr pk), Some (JStr sg)) \<Rightarrow>
          Some \<lparr>pl_from = f, pl_to = t, pl_amount = a, pl_nonce = n, pl_fee = e, pl_public_key = pk, pl_signature = sg\<rparr>
      | _ \<Rightarrow> None)"

section \<open>Lemmas\<close>

text \<open>What \<^verbatim>\<open>serde_json\<close> documents: printing an object and parsing it gives the same members, and the text of
  a wallet file whose values need no escaping parses to its secret key.\<close>

definition wallet_json_ok :: "wallet_json \<Rightarrow> bool" where
  "wallet_json_ok wj \<longleftrightarrow>
     (\<forall>v. distinct (map fst v) \<longrightarrow> (\<exists>v'. wj_parse wj (wj_print wj v) = Some v' \<and> map_of v' = map_of v))
     \<and> (\<forall>a pk sk. set (a @ pk @ sk) \<subseteq> set ''0123456789abcdef'' \<longrightarrow> wj_secret_key wj (wallet_text a pk sk) = Some sk)"

lemma sbuf_hex_round_trip:
  assumes "hex_ok P" "0 < length secret" "length secret \<le> 1048576"
  obtains b where "sbuf_from_hex P e (hex_encode P secret) = Inr b" "sbuf_as_slice e b = Inr secret"
proof -
  obtain b where b: "sbuf_from_slice e secret = Inr b" "sbuf_ok e secret b"
    using sbuf_from_slice_ok [OF assms(2,3)] by blast
  with assms(1) have "sbuf_from_hex P e (hex_encode P secret) = Inr b"
    by (simp add: sbuf_from_hex_def csv_safe_trim)
  moreover have "sbuf_as_slice e b = Inr secret"
    by (simp add: sbuf_as_slice_def sbuf_ok_verify [OF b(2)] sbuf_ok_user [OF b(2)])
  ultimately show thesis by (rule that)
qed

text \<open>Both programs read back the wallet that was written.\<close>

lemma wallet_file_loads:
  assumes "hex_ok P" "wallet_json_ok (ce_json ce)" "keypair_wf P kp" "save_wallet P ce kp path files = Inr files'"
  shows "ce_json ce' = ce_json ce \<Longrightarrow> load_wallet P ce' path files' = Inr kp"
    and "load_miner_keypair P e (wj_secret_key (ce_json ce)) (read_file files' path) = Inr kp"
proof -
  define content where "content = wallet_text (wpk_address_hex P (kp_public kp)) (hex_encode P (wpk_to_bytes (kp_public kp)))
    (hex_encode P (keypair_to_secret_bytes kp))"
  have f: "read_file files' path = Some content"
    using assms(4) by (auto simp: save_wallet_def read_file_def content_def Let_def split: if_splits)
  have "set (hex_encode P b) \<subseteq> set ''0123456789abcdef''" for b
    using assms(1) unfolding hex_ok_def by blast
  then have k: "wj_secret_key (ce_json ce) content = Some (hex_encode P (keypair_to_secret_bytes kp))"
    using assms(2) unfolding wallet_json_ok_def content_def wpk_address_hex_def by (metis set_append Un_least)
  have l: "0 < length (keypair_to_secret_bytes kp)" "length (keypair_to_secret_bytes kp) \<le> 1048576"
    using assms(3) by (simp_all add: keypair_wf_def wpk_wf_def keypair_to_secret_bytes_def falcon_sizes)
  note loads = keypair_from_to_secret_bytes [OF assms(3)]
  show "load_wallet P ce' path files' = Inr kp" if "ce_json ce' = ce_json ce"
  proof -
    obtain b where "sbuf_from_hex P (ce_memory ce') (hex_encode P (keypair_to_secret_bytes kp)) = Inr b"
      "sbuf_as_slice (ce_memory ce') b = Inr (keypair_to_secret_bytes kp)"
      by (rule sbuf_hex_round_trip [OF assms(1) l])
    then show ?thesis by (simp add: load_wallet_def f that k loads)
  qed
  obtain b where "sbuf_from_hex P e (hex_encode P (keypair_to_secret_bytes kp)) = Inr b"
    "sbuf_as_slice e b = Inr (keypair_to_secret_bytes kp)"
    by (rule sbuf_hex_round_trip [OF assms(1) l])
  then show "load_miner_keypair P e (wj_secret_key (ce_json ce)) (read_file files' path) = Inr kp"
    by (simp add: load_miner_keypair_def f k loads)
qed

lemma parse_signature_encode:
  "hex_ok P \<Longrightarrow> hsig_wf sig \<Longrightarrow> parse_signature P (hex_encode P (hsig_to_bytes sig)) = Inr sig"
  by (simp add: parse_signature_def hsig_from_to_bytes)

text \<open>What a printed transaction parses to, for the wallet and for the node.\<close>

lemma printed_tx:
  assumes "hex_ok P" "wallet_json_ok wj" "tx_wf (stx_tx t)"
  obtains v payload where "wj_parse wj (wj_print wj (signed_tx_json P t)) = Some v"
    "signed_tx_from_json P wj (wj_print wj (signed_tx_json P t)) = Inr t"
    "payload_of_json v = Some payload" "into_signed_transaction P payload = Inr t"
proof -
  have "distinct (map fst (signed_tx_json P t))"
    by (simp add: signed_tx_json_def)
  then obtain v where v: "wj_parse wj (wj_print wj (signed_tx_json P t)) = Some v" "map_of v = map_of (signed_tx_json P t)"
    using assms(2) unfolding wallet_json_ok_def by blast
  have "\<lparr>stx_tx = \<lparr>tx_from = tx_from (stx_tx t), tx_to = tx_to (stx_tx t), tx_amount = tx_amount (stx_tx t),
      tx_nonce = tx_nonce (stx_tx t), tx_fee = tx_fee (stx_tx t)\<rparr>, stx_public_key = stx_public_key t, stx_signature = stx_signature t\<rparr> = t"
    by simp
  with assms(1,3) v(1) show thesis
    by (intro that [OF v(1), where payload = "\<lparr>pl_from = stx_from_hex P t, pl_to = stx_to_hex P t, pl_amount = tx_amount (stx_tx t),
        pl_nonce = tx_nonce (stx_tx t), pl_fee = tx_fee (stx_tx t), pl_public_key = hex_encode P (stx_public_key t),
        pl_signature = hex_encode P (stx_signature t)\<rparr>"])
      (simp_all add: signed_tx_from_json_def payload_of_json_def json_str_def json_u64_def v(2) signed_tx_json_def
        into_signed_transaction_def stx_from_hex_def stx_to_hex_def tx_wf_def)
qed

section \<open>A concrete JSON coding\<close>

fun sample_print :: "json_object \<Rightarrow> string list" where
  "sample_print [] = [''.'']"
| "sample_print ((name, JStr v) # ms) = sample_hex (as_bytes name) # ''s'' # sample_hex (as_bytes v) # sample_print ms"
| "sample_print ((name, JNum n) # ms) = sample_hex (as_bytes name) # ''n'' # show_u64 n # sample_print ms"
| "sample_print ((name, JOther) # ms) = sample_hex (as_bytes name) # ''o'' # [] # sample_print ms"

fun sample_parse :: "string list \<Rightarrow> json_object option" where
  "sample_parse (name # kind # v # ms) =
     map_option ((#) (get_text name, if kind = ''s'' then JStr (get_text v) else if kind = ''n'' then JNum (get_u64 v) else JOther))
       (sample_parse ms)"
| "sample_parse ms = (if ms = [''.''] then Some [] else None)"

definition sample_wallet_json :: wallet_json where
  "sample_wallet_json =
     \<lparr>wj_secret_key = (\<lambda>s. let parts = rev (split_on (CHR 0x22) s) in if length parts > 1 then Some (parts ! 1) else None),
      wj_parse = (\<lambda>s. sample_parse (split_on CHR '','' s)),
      wj_print = (\<lambda>v. join_with CHR '','' (sample_print v))\<rparr>"

lemma sample_parse_print: "sample_parse (sample_print v) = Some v"
  by (induction v rule: sample_print.induct) simp_all

lemma sample_print_safe: "f \<in> set (sample_print v) \<Longrightarrow> CHR '','' \<notin> set f"
proof (induction v rule: sample_print.induct)
  case (2 name s v)
  then show ?case using csv_safe_hex [OF sample_hex_ok] by (auto simp: csv_safe_def)
next
  case (3 name n v)
  then show ?case using csv_safe_hex [OF sample_hex_ok] csv_safe_show_u64 [of n] by (auto simp: csv_safe_def)
next
  case (4 name v)
  then show ?case using csv_safe_hex [OF sample_hex_ok] by (auto simp: csv_safe_def)
qed simp

lemma sample_wallet_json_ok: "wallet_json_ok sample_wallet_json"
proof -
  have "sample_print v \<noteq> []" for v
    by (cases v rule: sample_print.cases) simp_all
  then have "split_on CHR '','' (join_with CHR '','' (sample_print v)) = sample_print v" for v
    using sample_print_safe by (intro split_join) auto
  then have "wj_parse sample_wallet_json (wj_print sample_wallet_json v) = Some v" for v
    by (simp add: sample_wallet_json_def sample_parse_print)
  moreover have "wj_secret_key sample_wallet_json (wallet_text a pk sk) = Some sk"
    if "set (a @ pk @ sk) \<subseteq> set ''0123456789abcdef''" for a pk sk
  proof -
    have "CHR 0x22 \<notin> set ''0123456789abcdef''" by simp
    with that have q: "CHR 0x22 \<notin> set a" "CHR 0x22 \<notin> set pk" "CHR 0x22 \<notin> set sk" by auto
    show ?thesis
      using q by (simp add: sample_wallet_json_def wallet_text_def json_member_def json_quoted_def split_on_append split_on_no_sep)
  qed
  ultimately show ?thesis
    unfolding wallet_json_ok_def by blast
qed

definition sample_cli :: cli_env where
  "sample_cli = \<lparr>ce_json = sample_wallet_json, ce_memory = \<lparr>me_canary_seed = 3, me_ptr = 4096, me_lock_ok = False\<rparr>,
     ce_seed = zeros 32, ce_falcon_key_rand = 0, ce_falcon_sign_rand = 0, ce_mkdir_ok = True, ce_write_ok = True\<rparr>"

lemma sample_cli_sel [simp]:
  "ce_json sample_cli = sample_wallet_json" "ce_seed sample_cli = zeros 32" "ce_falcon_key_rand sample_cli = 0"
  "ce_mkdir_ok sample_cli" "ce_write_ok sample_cli"
  by (simp_all add: sample_cli_def)

section \<open>Properties\<close>

text \<open>The wallet that \<^verbatim>\<open>generate\<close> creates is the one every later command and the node load; it is never overwritten,
  and what it signs verifies, with the wallet and with the printed public key.\<close>

theorem generated_wallet_usable:
  assumes "sig_ok P" "hex_ok P" "wallet_json_ok (ce_json ce)" "length (ce_seed ce) = 32"
    and "ce_mkdir_ok ce" "ce_write_ok ce" "files path = None"
    and "kp = keypair_generate P (ce_seed ce) (ce_falcon_key_rand ce)"
    and "\<And>m. 16 \<le> length (fal_sign P (ce_falcon_sign_rand ce) (kp_falcon_sk kp) m)"
  shows "\<exists>files'. wallet_main P ce env [''--path'', path, ''generate''] files
        = (Inr (Created path (wpk_address_hex P (kp_public kp))), files')
    \<and> (\<forall>other. other \<noteq> path \<longrightarrow> files' other = files other)
    \<and> (\<forall>later. wallet_main P later env [''generate'', ''--path'', path] files' = (Inl WalletExists, files'))
    \<and> (\<forall>e. load_miner_keypair P e (wj_secret_key (ce_json ce)) (read_file files' path) = Inr kp)
    \<and> (\<forall>msg. \<exists>sig_hex ed start n m. cmd_sign P ce path msg files'
          = Inr (Signed (wpk_address_hex P (kp_public kp)) msg sig_hex ed start n m)
        \<and> cmd_verify P ce path msg sig_hex files' = Inr Valid
        \<and> (\<exists>pk_hex. cmd_public_key P ce path files' = Inr (Line pk_hex)
            \<and> cmd_verify_public P msg pk_hex sig_hex = Inr (ValidFor (wpk_address_hex P (kp_public kp)))))"
proof -
  obtain files' where save: "save_wallet P ce kp path files = Inr files'"
    and files': "files' path \<noteq> None" "\<And>other. other \<noteq> path \<Longrightarrow> files' other = files other"
    using assms(5,6) by (simp add: save_wallet_def Let_def)
  have wf: "keypair_wf P kp"
    unfolding assms(8) by (rule keypair_generate_wf [OF assms(1,4)])
  note loads = wallet_file_loads [OF assms(2,3) wf save]
  have gen: "wallet_main P ce env [''--path'', path, ''generate''] files
      = (Inr (Created path (wpk_address_hex P (kp_public kp))), files')"
    using assms(7) save by (simp add: wallet_main_def cmd_generate_def assms(8) Let_def)
  have again: "wallet_main P later env [''generate'', ''--path'', path] files' = (Inl WalletExists, files')" for later
    using files'(1) by (simp add: wallet_main_def cmd_generate_def)
  have sign: "\<exists>sig_hex ed start n m. cmd_sign P ce path msg files'
        = Inr (Signed (wpk_address_hex P (kp_public kp)) msg sig_hex ed start n m)
      \<and> cmd_verify P ce path msg sig_hex files' = Inr Valid
      \<and> (\<exists>pk_hex. cmd_public_key P ce path files' = Inr (Line pk_hex)
          \<and> cmd_verify_public P msg pk_hex sig_hex = Inr (ValidFor (wpk_address_hex P (kp_public kp))))" for msg
  proof -
    define sig where "sig = keypair_sign P (ce_falcon_sign_rand ce) kp (as_bytes msg)"
    have "hsig_wf sig" "wpk_verify P (kp_public kp) (as_bytes msg) sig = Inr ()"
      unfolding sig_def assms(8) by (rule keypair_sign_wf [OF assms(1,4)], rule keypair_sign_verifies [OF assms(1,4)])
    moreover have "wpk_from_bytes P (wpk_to_bytes (kp_public kp)) = Inr (kp_public kp)"
      using wf by (simp add: keypair_wf_def wpk_from_to_bytes)
    moreover have "\<exists>start. str_prefix 32 (hex_encode P (hs_falcon sig)) = Inr start"
      using assms(2) assms(9) [of "as_bytes msg"] by (simp add: str_prefix_def sig_def keypair_sign_def)
    ultimately show ?thesis
      using loads(1) [OF refl] parse_signature_encode [OF assms(2), of sig] assms(2)
      by (auto simp: cmd_sign_def cmd_verify_def cmd_public_key_def cmd_verify_public_def Let_def sig_def [symmetric])
  qed
  show ?thesis
    by (intro exI [of _ files'] conjI allI impI gen again sign files'(2) loads(2))
qed

theorem generated_wallet_usable_witness:
  "\<exists>files' sig_hex ed start n m. wallet_main sample_prims sample_cli (\<lambda>_. None) [''--path'', ''w'', ''generate''] (\<lambda>_. None)
      = (Inr (Created ''w'' sample_miner_hex), files')
    \<and> cmd_sign sample_prims sample_cli ''w'' ''hello'' files' = Inr (Signed sample_miner_hex ''hello'' sig_hex ed start n m)
    \<and> cmd_verify sample_prims sample_cli ''w'' ''hello'' sig_hex files' = Inr Valid"
proof -
  have kp: "sample_miner = keypair_generate sample_prims (ce_seed sample_cli) (ce_falcon_key_rand sample_cli)"
    by (simp add: sample_miner_def sample_cli_def)
  have addr: "wpk_address_hex sample_prims (kp_public sample_miner) = sample_miner_hex"
    by (simp add: sample_miner_hex_def keypair_address_def wpk_address_hex_def)
  have long: "16 \<le> length (fal_sign sample_prims q sk m)" for q sk m
    by (simp add: sample_prims_def)
  obtain files' where f: "wallet_main sample_prims sample_cli (\<lambda>_. None) [''--path'', ''w'', ''generate''] (\<lambda>_. None)
      = (Inr (Created ''w'' sample_miner_hex), files')"
    and u: "\<forall>msg. \<exists>sig_hex ed start n m. cmd_sign sample_prims sample_cli ''w'' msg files'
          = Inr (Signed sample_miner_hex msg sig_hex ed start n m)
        \<and> cmd_verify sample_prims sample_cli ''w'' msg sig_hex files' = Inr Valid \<and> (\<exists>pk_hex. cmd_public_key sample_prims sample_cli ''w'' files' = Inr (Line pk_hex)
            \<and> cmd_verify_public sample_prims msg pk_hex sig_hex = Inr (ValidFor sample_miner_hex))"
    using generated_wallet_usable [OF sample_sig_ok sample_hex_ok _ _ _ _ _ kp long, of "\<lambda>_. None" "''w''" "\<lambda>_. None",
      unfolded addr] sample_wallet_json_ok by auto
  obtain sig_hex ed start n m where "cmd_sign sample_prims sample_cli ''w'' ''hello'' files'
      = Inr (Signed sample_miner_hex ''hello'' sig_hex ed start n m)"
    "cmd_verify sample_prims sample_cli ''w'' ''hello'' sig_hex files' = Inr Valid"
    using u by blast
  with f show ?thesis by blast
qed

text \<open>C32: The transaction that \<^verbatim>\<open>sign-tx\<close> prints is the one asked for; \<^verbatim>\<open>verify-tx\<close> finds it valid, and posted to a
  node it is queued exactly as signed, if its nonce is the next one of the account and the balance covers it.\<close>

theorem printed_transfer_submits:
  assumes "hash_ok P" "sig_ok P" "hex_ok P" "wallet_json_ok (ce_json ce)" "length seed = 32"
    and "load_wallet P ce path files = Inr kp" "kp = keypair_generate P seed r"
    and "length to_addr = 20" "to_addr \<noteq> keypair_address P kp" "amount \<noteq> 0"
  shows "\<exists>content t. cmd_sign_tx P ce path (hex_encode P to_addr) (show_u64 amount) (show_u64 nonce) (show_u64 fee) files
        = Inr (PrintedTx content)
    \<and> stx_tx t = \<lparr>tx_from = keypair_address P kp, tx_to = to_addr, tx_amount = amount, tx_nonce = nonce, tx_fee = fee\<rparr>
    \<and> (files content = None \<longrightarrow> cmd_verify_tx P ce content files
        = Inr (ValidTx (stx_tx_id_hex P t) (hex_encode P (keypair_address P kp)) (hex_encode P to_addr) amount nonce fee))
    \<and> (\<exists>v payload. wj_parse (ce_json ce) content = Some v \<and> payload_of_json v = Some payload
        \<and> into_signed_transaction P payload = Inr t
        \<and> (transfer_ok P t (nd_ledger nd) \<longleftrightarrow> nonce = ledger_nonce (nd_ledger nd) (hex_encode P (keypair_address P kp))
            \<and> unat amount + unat fee \<le> unat (ledger_balance (nd_ledger nd) (hex_encode P (keypair_address P kp))))
        \<and> (transfer_ok P t (nd_ledger nd) \<and> length (ns_mempool (nd_state nd)) < MAX_MEMPOOL_SIZE \<longrightarrow>
            is_ok (fst (handle_submit_transaction P J payload nd))
            \<and> hm_get (ns_mempool (nd_state (snd (handle_submit_transaction P J payload nd)))) (stx_tx_id P t) = Some t))"
proof -
  define tx where "tx = \<lparr>tx_from = keypair_address P kp, tx_to = to_addr, tx_amount = amount, tx_nonce = nonce, tx_fee = fee\<rparr>"
  obtain t where t: "stx_sign P (ce_falcon_sign_rand ce) tx kp = Inr t"
    by (simp add: stx_sign_def tx_def Let_def)
  have f: "stx_tx t = tx" using stx_sign_tx [OF t] by simp
  have ver: "stx_verify P t = Inr ()"
    using stx_sign_verifies [OF assms(1,2,5) t [unfolded assms(7)]] assms(7,9,10) by (simp add: tx_def)
  have wf: "tx_wf (stx_tx t)"
    using assms(1,8) by (simp add: f tx_def tx_wf_def keypair_address_def)
  obtain v payload where p: "wj_parse (ce_json ce) (wj_print (ce_json ce) (signed_tx_json P t)) = Some v"
    "signed_tx_from_json P (ce_json ce) (wj_print (ce_json ce) (signed_tx_json P t)) = Inr t"
    "payload_of_json v = Some payload" "into_signed_transaction P payload = Inr t"
    by (rule printed_tx [OF assms(3,4) wf])
  let ?content = "wj_print (ce_json ce) (signed_tx_json P t)"
  have "cmd_sign_tx P ce path (hex_encode P to_addr) (show_u64 amount) (show_u64 nonce) (show_u64 fee) files = Inr (PrintedTx ?content)"
    using assms(3,6,8) t by (simp add: cmd_sign_tx_def parse_u64_arg_def tx_def)
  moreover have "files ?content = None \<longrightarrow> cmd_verify_tx P ce ?content files
        = Inr (ValidTx (stx_tx_id_hex P t) (hex_encode P (keypair_address P kp)) (hex_encode P to_addr) amount nonce fee)"
    using p(2) ver by (simp add: cmd_verify_tx_def stx_from_hex_def stx_to_hex_def f) (simp add: tx_def)
  moreover have "transfer_ok P t (nd_ledger nd) \<longleftrightarrow> nonce = ledger_nonce (nd_ledger nd) (hex_encode P (keypair_address P kp))
      \<and> unat amount + unat fee \<le> unat (ledger_balance (nd_ledger nd) (hex_encode P (keypair_address P kp)))"
    using ver by (simp add: transfer_ok_def is_ok_iff stx_from_hex_def f) (simp add: tx_def)
  moreover have "transfer_ok P t (nd_ledger nd) \<and> length (ns_mempool (nd_state nd)) < MAX_MEMPOOL_SIZE \<longrightarrow>
      is_ok (fst (handle_submit_transaction P J payload nd))
      \<and> hm_get (ns_mempool (nd_state (snd (handle_submit_transaction P J payload nd)))) (stx_tx_id P t) = Some t"
    using submit_transaction_enqueues [OF p(4), of J nd] enqueue_accepts [of P t nd J] by (auto simp: is_ok_iff)
  ultimately show ?thesis
    using p(1,3,4) f
    by (intro exI [of _ ?content] exI [of _ t] conjI exI [of _ v] exI [of _ payload]) (simp_all add: tx_def)
qed

text \<open>The wallet of the sample miner sends five to a fresh address.\<close>

theorem printed_transfer_submits_witness:
  "\<exists>files content t. cmd_sign_tx sample_prims sample_cli ''w'' (sample_hex (replicate 20 1)) (show_u64 5) (show_u64 0) (show_u64 1) files
      = Inr (PrintedTx content)
    \<and> tx_amount (stx_tx t) = 5 \<and> tx_to (stx_tx t) = replicate 20 1
    \<and> (\<exists>v payload. wj_parse sample_wallet_json content = Some v \<and> payload_of_json v = Some payload
        \<and> into_signed_transaction sample_prims payload = Inr t)"
proof -
  have wf: "keypair_wf sample_prims sample_miner"
    unfolding sample_miner_def by (rule keypair_generate_wf [OF sample_sig_ok]) simp
  obtain files where "save_wallet sample_prims sample_cli sample_miner ''w'' (\<lambda>_. None) = Inr files"
    by (simp add: save_wallet_def sample_cli_def Let_def)
  then have load: "load_wallet sample_prims sample_cli ''w'' files = Inr sample_miner"
    using wallet_file_loads(1) [OF sample_hex_ok _ wf _ refl, of sample_cli "''w''" "\<lambda>_. None" files] sample_wallet_json_ok
    by (simp add: sample_cli_def)
  have "last (keypair_address sample_prims sample_miner) \<noteq> last (replicate 20 1)" by code_simp
  then have "replicate 20 1 \<noteq> keypair_address sample_prims sample_miner" by metis
  note submits = printed_transfer_submits [OF sample_hash_ok sample_sig_ok sample_hex_ok _ _ load sample_miner_def _ this,
      where amount = 5 and nonce = 0 and fee = 1 and nd = sample_node and J = sample_serde, simplified, OF sample_wallet_json_ok]
  obtain content t where "cmd_sign_tx sample_prims sample_cli ''w'' (sample_hex (replicate 20 1)) (show_u64 5) (show_u64 0) (show_u64 1) files
      = Inr (PrintedTx content)"
    and t: "stx_tx t = \<lparr>tx_from = keypair_address sample_prims sample_miner, tx_to = replicate 20 1, tx_amount = 5, tx_nonce = 0, tx_fee = 1\<rparr>"
    and "\<exists>v payload. wj_parse sample_wallet_json content = Some v \<and> payload_of_json v = Some payload
        \<and> into_signed_transaction sample_prims payload = Inr t"
    using submits by blast
  then show ?thesis
    by (intro exI [of _ files] exI [of _ content] exI [of _ t] conjI) (simp_all add: t)
qed

end
