(* ===== verification/Live_Entropy.thy ===== *)
theory Live_Entropy
  imports Mining
begin

text \<open>
  \<^verbatim>\<open>node/src/bitcoin_entropy.rs\<close>: the Bitcoin observation a node builds from two public providers. What the
  providers answer to a request is a parameter, by URL; so is the clock. A failure carries the step it occurred in.
\<close>

section \<open>Configuration\<close>

record entropy_config =
  ec_mempool :: string
  ec_blockstream :: string
  ec_timeout_secs :: u64
  ec_allow_coinbase_fallback :: bool
  ec_allow_provider_fallback :: bool

definition entropy_config_default :: entropy_config where
  "entropy_config_default =
     \<lparr>ec_mempool = ''https://mempool.space/api'', ec_blockstream = ''https://blockstream.info/api'', ec_timeout_secs = 10,
      ec_allow_coinbase_fallback = True, ec_allow_provider_fallback = True\<rparr>"

section \<open>Answers\<close>

record block_info =
  bi_height :: u64
  bi_merkle_root :: string
  bi_nonce :: u64
  bi_timestamp :: u64

record tx_input =
  ti_coinbase :: "string option"
  ti_scriptsig :: "string option"

type_synonym tx_info = "tx_input list"

datatype http_failure = RequestFailed | BadStatus | BodyFailed

text \<open>A response: whether the status is a success, and the body when it can be read.\<close>

record http_response =
  hr_success :: bool
  hr_body :: "string option"

record providers =
  pv_client_ok :: bool
  pv_answer :: "string \<Rightarrow> http_response option"
  pv_block_of :: "string \<Rightarrow> block_info option"
  pv_tx_of :: "string \<Rightarrow> tx_info option"
  pv_txids_of :: "string \<Rightarrow> string list option"

datatype entropy_error =
    ClientBuild
  | FetchFailed string http_failure
  | JsonFailed string
  | TipNot32
  | MerkleNot32
  | TxidsNotJson
  | NoTransactions
  | ScriptNotHex
  | CoinbaseFailed entropy_error
  | BlockstreamNot32
  | BlockstreamFailed entropy_error

definition http_send :: "providers \<Rightarrow> string \<Rightarrow> string \<Rightarrow> entropy_error + http_response" where
  "http_send pv url label =
     (case pv_answer pv url of
        None \<Rightarrow> Inl (FetchFailed label RequestFailed)
      | Some r \<Rightarrow> if hr_success r then Inr r else Inl (FetchFailed label BadStatus))"

definition get_body :: "providers \<Rightarrow> string \<Rightarrow> string \<Rightarrow> entropy_error + string" where
  "get_body pv url label =
     res_bind (http_send pv url label) (\<lambda>r.
       case hr_body r of None \<Rightarrow> Inl (FetchFailed label BodyFailed) | Some s \<Rightarrow> Inr s)"

definition get_json :: "(string \<Rightarrow> 'a option) \<Rightarrow> providers \<Rightarrow> string \<Rightarrow> string \<Rightarrow> entropy_error + 'a" where
  "get_json parse pv url label =
     res_bind (http_send pv url label) (\<lambda>r.
       case Option.bind (hr_body r) parse of None \<Rightarrow> Inl (JsonFailed label) | Some v \<Rightarrow> Inr v)"

section \<open>The coinbase script\<close>

record coinbase_info =
  ci_entropy :: bytes
  ci_txid :: string
  ci_script_present :: bool

definition script_hex_of :: "tx_info \<Rightarrow> string" where
  "script_hex_of tx =
     (case tx of
        [] \<Rightarrow> []
      | i # _ \<Rightarrow> (case ti_scriptsig i of Some s \<Rightarrow> s
          | None \<Rightarrow> (case ti_coinbase i of Some s \<Rightarrow> s | None \<Rightarrow> [])))"

definition UTXO_DOMAIN :: bytes where "UTXO_DOMAIN = as_bytes ''BINA-UTXO-v1''"

definition fetch_coinbase_entropy :: "prims \<Rightarrow> providers \<Rightarrow> string \<Rightarrow> string \<Rightarrow> bytes \<Rightarrow> entropy_error + coinbase_info" where
  "fetch_coinbase_entropy P pv base tip_hex merkle_bytes =
     res_bind (get_body pv (base @ ''/block/'' @ tip_hex @ ''/txids'') ''mempool.space: block txids'') (\<lambda>txids_raw.
     case pv_txids_of pv txids_raw of
       None \<Rightarrow> Inl TxidsNotJson
     | Some [] \<Rightarrow> Inl NoTransactions
     | Some (coinbase_txid # _) \<Rightarrow>
         res_bind (get_json (pv_tx_of pv) pv (base @ ''/tx/'' @ coinbase_txid) ''mempool.space: coinbase tx'') (\<lambda>tx.
         let script_hex = script_hex_of tx in
         if script_hex = [] then Inr \<lparr>ci_entropy = merkle_bytes, ci_txid = coinbase_txid, ci_script_present = False\<rparr>
         else (case hex_decode P script_hex of
             None \<Rightarrow> Inl ScriptNotHex
           | Some script_bytes \<Rightarrow>
               Inr \<lparr>ci_entropy = xor32 (blake3_keyed P UTXO_DOMAIN script_bytes) merkle_bytes,
                    ci_txid = coinbase_txid, ci_script_present = True\<rparr>)))"

section \<open>The second provider\<close>

record stale_pool =
  sp_pool :: bytes
  sp_blockstream_tip :: "string option"
  sp_divergence :: bool
  sp_fallback_used :: bool

definition fallback_pool :: "u64 \<Rightarrow> u64 \<Rightarrow> bytes \<Rightarrow> bytes" where
  "fallback_pool nonce timestamp tip_hash = xor32 (le_bytes 8 nonce @ le_bytes 8 timestamp @ zeros 16) tip_hash"

definition build_stale_pool :: "prims \<Rightarrow> entropy_config \<Rightarrow> providers \<Rightarrow> string \<Rightarrow> bytes \<Rightarrow> u64 \<Rightarrow> u64 \<Rightarrow> entropy_error + stale_pool" where
  "build_stale_pool P cfg pv mempool_tip tip_hash block_nonce block_ts =
     (case get_body pv (ec_blockstream cfg @ ''/blocks/tip/hash'') ''blockstream.info: tip/hash'' of
        Inr body \<Rightarrow>
          let bs_hex = trim body in
          if bs_hex \<noteq> mempool_tip then
            (case hex_to_32 P bs_hex of
               None \<Rightarrow> Inl BlockstreamNot32
             | Some bs_hash \<Rightarrow> Inr \<lparr>sp_pool = xor32 tip_hash bs_hash, sp_blockstream_tip = Some bs_hex,
                 sp_divergence = True, sp_fallback_used = False\<rparr>)
          else Inr \<lparr>sp_pool = fallback_pool block_nonce block_ts tip_hash, sp_blockstream_tip = Some bs_hex,
                 sp_divergence = False, sp_fallback_used = False\<rparr>
      | Inl e \<Rightarrow>
          if ec_allow_provider_fallback cfg
          then Inr \<lparr>sp_pool = fallback_pool block_nonce block_ts tip_hash, sp_blockstream_tip = None,
                 sp_divergence = False, sp_fallback_used = True\<rparr>
          else Inl (BlockstreamFailed e))"

section \<open>The observation\<close>

record fetch_proof =
  fp_tip_hash :: string
  fp_tip_height :: u64
  fp_merkle_root :: string
  fp_block_nonce :: u64
  fp_block_timestamp :: u64
  fp_coinbase_txid :: "string option"
  fp_coinbase_script_present :: bool
  fp_coinbase_fallback_used :: bool
  fp_blockstream_tip :: "string option"
  fp_divergence :: bool
  fp_provider_fallback_used :: bool
  fp_fetched_at :: u64

record live_result =
  lr_state :: btc_entropy_state
  lr_proof :: fetch_proof

definition coinbase_part :: "entropy_config \<Rightarrow> bytes \<Rightarrow> entropy_error + coinbase_info
    \<Rightarrow> entropy_error + bytes \<times> string option \<times> bool \<times> bool" where
  "coinbase_part cfg merkle_bytes coinbase_result =
     (case coinbase_result of
        Inr info \<Rightarrow> Inr (ci_entropy info, Some (ci_txid info), ci_script_present info, False)
      | Inl e \<Rightarrow> if ec_allow_coinbase_fallback cfg then Inr (merkle_bytes, None, False, True) else Inl (CoinbaseFailed e))"

definition fetch_with_config :: "prims \<Rightarrow> entropy_config \<Rightarrow> providers \<Rightarrow> u64 \<Rightarrow> entropy_error + live_result" where
  "fetch_with_config P cfg pv fetched_at =
     (if \<not> pv_client_ok pv then Inl ClientBuild
      else
     res_bind (get_body pv (ec_mempool cfg @ ''/blocks/tip/hash'') ''mempool.space: tip/hash'') (\<lambda>tip_body.
     let tip_hex = trim tip_body in
     case hex_to_32 P tip_hex of
       None \<Rightarrow> Inl TipNot32
     | Some tip_hash \<Rightarrow>
     res_bind (get_json (pv_block_of pv) pv (ec_mempool cfg @ ''/block/'' @ tip_hex) ''mempool.space: block info'') (\<lambda>block.
     case hex_to_32 P (bi_merkle_root block) of
       None \<Rightarrow> Inl MerkleNot32
     | Some merkle_bytes \<Rightarrow>
     res_bind (coinbase_part cfg merkle_bytes (fetch_coinbase_entropy P pv (ec_mempool cfg) tip_hex merkle_bytes))
       (\<lambda>(utxo_entropy, coinbase_txid, script_present, fallback_used).
     res_bind (build_stale_pool P cfg pv tip_hex tip_hash (bi_nonce block) (bi_timestamp block)) (\<lambda>stale.
       Inr \<lparr>lr_state = \<lparr>be_tip_hash = tip_hash, be_utxo_entropy = utxo_entropy, be_stale_xor_pool = sp_pool stale,
              be_seed_timestamp = bi_timestamp block, be_tip_height = bi_height block, be_fork_detected = sp_divergence stale\<rparr>,
            lr_proof = \<lparr>fp_tip_hash = tip_hex, fp_tip_height = bi_height block, fp_merkle_root = bi_merkle_root block,
              fp_block_nonce = bi_nonce block, fp_block_timestamp = bi_timestamp block, fp_coinbase_txid = coinbase_txid,
              fp_coinbase_script_present = script_present, fp_coinbase_fallback_used = fallback_used,
              fp_blockstream_tip = sp_blockstream_tip stale, fp_divergence = sp_divergence stale,
              fp_provider_fallback_used = sp_fallback_used stale, fp_fetched_at = fetched_at\<rparr>\<rparr>)))))"

definition fetch_live_entropy_with_proof :: "prims \<Rightarrow> providers \<Rightarrow> u64 \<Rightarrow> entropy_error + live_result" where
  "fetch_live_entropy_with_proof P pv fetched_at = fetch_with_config P entropy_config_default pv fetched_at"

definition fetch_live_entropy :: "prims \<Rightarrow> providers \<Rightarrow> u64 \<Rightarrow> entropy_error + btc_entropy_state" where
  "fetch_live_entropy P pv fetched_at =
     res_bind (fetch_with_config P entropy_config_default pv fetched_at) (\<lambda>r. Inr (lr_state r))"

section \<open>Lemmas\<close>

lemma xor32_self: "xor32 a a = zeros 32"
  by (simp add: xor32_def zeros_def map_replicate_const [symmetric]) (simp add: map_replicate_const)

lemma coinbase_entropy_length:
  "length m = 32 \<Longrightarrow> fetch_coinbase_entropy P pv base tip_hex m = Inr info \<Longrightarrow> length (ci_entropy info) = 32"
  by (auto simp: fetch_coinbase_entropy_def res_bind_def Let_def split: sum.splits option.splits list.splits if_splits)

text \<open>With the fallback allowed the coinbase never makes the observation fail.\<close>

lemma coinbase_part_allowed:
  assumes "ec_allow_coinbase_fallback cfg" "length m = 32"
  shows "\<exists>e txid present used. length e = 32
    \<and> coinbase_part cfg m (fetch_coinbase_entropy P pv base tip_hex m) = Inr (e, txid, present, used)"
  using coinbase_entropy_length [OF assms(2), of P pv base tip_hex] assms
  by (cases "fetch_coinbase_entropy P pv base tip_hex m") (auto simp: coinbase_part_def)

definition second_tip :: "entropy_config \<Rightarrow> providers \<Rightarrow> entropy_error + string" where
  "second_tip cfg pv = get_body pv (ec_blockstream cfg @ ''/blocks/tip/hash'') ''blockstream.info: tip/hash''"

lemma stale_pool_cases:
  "(\<exists>e. second_tip cfg pv = Inl e) \<Longrightarrow> ec_allow_provider_fallback cfg \<Longrightarrow>
     build_stale_pool P cfg pv tip_hex tip nonce ts = Inr \<lparr>sp_pool = fallback_pool nonce ts tip, sp_blockstream_tip = None,
       sp_divergence = False, sp_fallback_used = True\<rparr>"
  "second_tip cfg pv = Inr body \<Longrightarrow> trim body = tip_hex \<Longrightarrow>
     build_stale_pool P cfg pv tip_hex tip nonce ts = Inr \<lparr>sp_pool = fallback_pool nonce ts tip, sp_blockstream_tip = Some tip_hex,
       sp_divergence = False, sp_fallback_used = False\<rparr>"
  "second_tip cfg pv = Inr body \<Longrightarrow> trim body \<noteq> tip_hex \<Longrightarrow>
     build_stale_pool P cfg pv tip_hex tip nonce ts = (case hex_to_32 P (trim body) of None \<Rightarrow> Inl BlockstreamNot32
       | Some h \<Rightarrow> Inr \<lparr>sp_pool = xor32 tip h, sp_blockstream_tip = Some (trim body), sp_divergence = True, sp_fallback_used = False\<rparr>)"
  by (auto simp: build_stale_pool_def second_tip_def Let_def)

text \<open>The first three steps, which must all succeed.\<close>

definition first_answers :: "prims \<Rightarrow> entropy_config \<Rightarrow> providers \<Rightarrow> string \<Rightarrow> bytes \<Rightarrow> block_info \<Rightarrow> bytes \<Rightarrow> bool" where
  "first_answers P cfg pv tip_hex tip block merkle \<longleftrightarrow> pv_client_ok pv
     \<and> (\<exists>body. get_body pv (ec_mempool cfg @ ''/blocks/tip/hash'') ''mempool.space: tip/hash'' = Inr body \<and> trim body = tip_hex)
     \<and> hex_to_32 P tip_hex = Some tip
     \<and> get_json (pv_block_of pv) pv (ec_mempool cfg @ ''/block/'' @ tip_hex) ''mempool.space: block info'' = Inr block
     \<and> hex_to_32 P (bi_merkle_root block) = Some merkle"

definition result_of :: "string \<Rightarrow> bytes \<Rightarrow> block_info \<Rightarrow> bytes \<times> string option \<times> bool \<times> bool \<Rightarrow> u64 \<Rightarrow> stale_pool \<Rightarrow> live_result" where
  "result_of tip_hex tip block coinbase now stale =
     (case coinbase of (e, txid, present, used) \<Rightarrow>
        \<lparr>lr_state = \<lparr>be_tip_hash = tip, be_utxo_entropy = e, be_stale_xor_pool = sp_pool stale,
           be_seed_timestamp = bi_timestamp block, be_tip_height = bi_height block, be_fork_detected = sp_divergence stale\<rparr>,
         lr_proof = \<lparr>fp_tip_hash = tip_hex, fp_tip_height = bi_height block, fp_merkle_root = bi_merkle_root block,
           fp_block_nonce = bi_nonce block, fp_block_timestamp = bi_timestamp block, fp_coinbase_txid = txid,
           fp_coinbase_script_present = present, fp_coinbase_fallback_used = used,
           fp_blockstream_tip = sp_blockstream_tip stale, fp_divergence = sp_divergence stale,
           fp_provider_fallback_used = sp_fallback_used stale, fp_fetched_at = now\<rparr>\<rparr>)"

lemma fetch_first:
  assumes "first_answers P cfg pv tip_hex tip block merkle" "hex_ok P" "ec_allow_coinbase_fallback cfg"
  obtains coinbase where "length (fst coinbase) = 32"
    "\<forall>now. fetch_with_config P cfg pv now =
       res_bind (build_stale_pool P cfg pv tip_hex tip (bi_nonce block) (bi_timestamp block)) (\<lambda>stale.
         Inr (result_of tip_hex tip block coinbase now stale))"
proof -
  obtain body where f: "pv_client_ok pv" "get_body pv (ec_mempool cfg @ ''/blocks/tip/hash'') ''mempool.space: tip/hash'' = Inr body"
    "trim body = tip_hex" "hex_to_32 P tip_hex = Some tip"
    "get_json (pv_block_of pv) pv (ec_mempool cfg @ ''/block/'' @ tip_hex) ''mempool.space: block info'' = Inr block"
    "hex_to_32 P (bi_merkle_root block) = Some merkle"
    using assms(1) by (auto simp: first_answers_def)
  obtain e txid present used where c: "length e = 32"
    "coinbase_part cfg merkle (fetch_coinbase_entropy P pv (ec_mempool cfg) tip_hex merkle) = Inr (e, txid, present, used)"
    using coinbase_part_allowed [OF assms(3) hex_to_32_length [OF assms(2) f(6)]] by blast
  show thesis
    by (rule that [of "(e, txid, present, used)"])
      (simp_all add: c result_of_def fetch_with_config_def f(1,3-6) f(2) [simplified] f(5) [simplified] del: append.simps)
qed

lemma fetch_needs_first:
  assumes "fetch_with_config P cfg pv now = Inr r"
  obtains tip_hex tip block merkle where "first_answers P cfg pv tip_hex tip block merkle"
  using assms that
  by (auto simp: fetch_with_config_def first_answers_def res_bind_Inr_iff Let_def split: if_splits option.splits)

lemma fetch_state:
  "fetch_live_entropy P pv now = res_bind (fetch_with_config P entropy_config_default pv now) (\<lambda>r. Inr (lr_state r))"
  by (rule fetch_live_entropy_def)

lemma default_allows [simp]:
  "ec_allow_coinbase_fallback entropy_config_default" "ec_allow_provider_fallback entropy_config_default"
  by (simp_all add: entropy_config_default_def)

lemma first_answers_unique:
  "first_answers P cfg pv tip_hex tip block merkle \<Longrightarrow> first_answers P cfg pv tip_hex' tip' block' merkle' \<Longrightarrow>
     tip_hex' = tip_hex \<and> tip' = tip \<and> block' = block"
  by (auto simp: first_answers_def)

lemma fallback_pool_length [simp]: "length (fallback_pool nonce ts tip) = 32"
  by (simp add: fallback_pool_def)

lemma result_of_sel [simp]:
  "be_tip_hash (lr_state (result_of tip_hex tip block c now stale)) = tip"
  "be_utxo_entropy (lr_state (result_of tip_hex tip block c now stale)) = fst c"
  "be_stale_xor_pool (lr_state (result_of tip_hex tip block c now stale)) = sp_pool stale"
  "be_fork_detected (lr_state (result_of tip_hex tip block c now stale)) = sp_divergence stale"
  "be_tip_height (lr_state (result_of tip_hex tip block c now stale)) = bi_height block"
  "fp_tip_hash (lr_proof (result_of tip_hex tip block c now stale)) = tip_hex"
  by (simp_all add: result_of_def case_prod_unfold)

lemma result_of_later: "lr_state (result_of tip_hex tip block c now stale) = lr_state (result_of tip_hex tip block c later stale)"
  by (simp add: result_of_def case_prod_unfold)

lemma stale_pool_ok:
  assumes "ec_allow_provider_fallback cfg"
  shows "(\<exists>st. build_stale_pool P cfg pv tip_hex tip nonce ts = Inr st) \<longleftrightarrow>
      (\<forall>body. second_tip cfg pv = Inr body \<longrightarrow> trim body = tip_hex \<or> hex_to_32 P (trim body) \<noteq> None)"
    and "build_stale_pool P cfg pv tip_hex tip nonce ts = Inr st \<Longrightarrow>
      length (sp_pool st) = 32 \<and> (sp_divergence st \<longleftrightarrow> (\<exists>body. second_tip cfg pv = Inr body \<and> trim body \<noteq> tip_hex))"
  using assms by (cases "second_tip cfg pv"; auto simp: build_stale_pool_def second_tip_def Let_def split: if_splits option.splits)+

lemma live_needs_first:
  "fetch_live_entropy P pv now = Inr s \<Longrightarrow> \<exists>tip_hex tip block merkle. first_answers P entropy_config_default pv tip_hex tip block merkle"
  using fetch_needs_first by (metis fetch_state res_bind_Inr_iff)

lemma live_succeeds:
  assumes "hex_ok P" "first_answers P entropy_config_default pv tip_hex tip block merkle"
  shows "(\<exists>s. fetch_live_entropy P pv now = Inr s) \<longleftrightarrow>
    (\<forall>body. second_tip entropy_config_default pv = Inr body \<longrightarrow> trim body = tip_hex \<or> hex_to_32 P (trim body) \<noteq> None)"
proof -
  obtain c where "\<forall>now. fetch_with_config P entropy_config_default pv now =
     res_bind (build_stale_pool P entropy_config_default pv tip_hex tip (bi_nonce block) (bi_timestamp block)) (\<lambda>stale.
       Inr (result_of tip_hex tip block c now stale))"
    by (rule fetch_first [OF assms(2,1) default_allows(1)])
  then show ?thesis
    unfolding stale_pool_ok(1) [OF default_allows(2), of P pv tip_hex tip "bi_nonce block" "bi_timestamp block", symmetric]
    by (auto simp: fetch_state res_bind_Inr_iff)
qed

lemma live_facts:
  assumes "hex_ok P" "first_answers P entropy_config_default pv tip_hex tip block merkle" "fetch_live_entropy P pv now = Inr s"
  shows "be_tip_hash s = tip \<and> length (be_utxo_entropy s) = 32 \<and> length (be_stale_xor_pool s) = 32
    \<and> be_tip_height s = bi_height block
    \<and> (be_fork_detected s \<longleftrightarrow> (\<exists>body. second_tip entropy_config_default pv = Inr body \<and> trim body \<noteq> tip_hex))
    \<and> (\<forall>later. fetch_live_entropy P pv later = Inr s)"
proof -
  obtain c where c: "length (fst c) = 32" "\<forall>now. fetch_with_config P entropy_config_default pv now =
     res_bind (build_stale_pool P entropy_config_default pv tip_hex tip (bi_nonce block) (bi_timestamp block)) (\<lambda>stale.
       Inr (result_of tip_hex tip block c now stale))"
    by (rule fetch_first [OF assms(2,1) default_allows(1)])
  then obtain st where st: "build_stale_pool P entropy_config_default pv tip_hex tip (bi_nonce block) (bi_timestamp block) = Inr st"
    and s: "s = lr_state (result_of tip_hex tip block c now st)"
    using assms(3) by (auto simp: fetch_state res_bind_Inr_iff)
  have "fetch_live_entropy P pv later = Inr s" for later
    by (simp add: fetch_state c(2) st s result_of_later [of _ _ _ _ now _ later])
  with stale_pool_ok(2) [OF default_allows(2) st] c(1) show ?thesis
    by (simp add: s)
qed

section \<open>Properties\<close>

text \<open>C33: An observation fails exactly when the first provider does not give a tip, its block and a Merkle root, or the
  second one answers with something that is neither the same text nor a hash; the coinbase never matters. What it gives has
  three parts of 32 bytes, reports a divergence exactly when the second text differs, and does not depend on the clock.\<close>

theorem live_entropy_exact:
  assumes "hex_ok P"
  shows "((\<exists>s. fetch_live_entropy P pv now = Inr s) \<longleftrightarrow>
      (\<exists>tip_hex tip block merkle. first_answers P entropy_config_default pv tip_hex tip block merkle
        \<and> (\<forall>body. second_tip entropy_config_default pv = Inr body \<longrightarrow> trim body = tip_hex \<or> hex_to_32 P (trim body) \<noteq> None)))
    \<and> (\<forall>s. fetch_live_entropy P pv now = Inr s \<longrightarrow>
        length (be_tip_hash s) = 32 \<and> length (be_utxo_entropy s) = 32 \<and> length (be_stale_xor_pool s) = 32
        \<and> (\<exists>tip_hex block merkle. first_answers P entropy_config_default pv tip_hex (be_tip_hash s) block merkle
            \<and> be_tip_height s = bi_height block
            \<and> (be_fork_detected s \<longleftrightarrow> (\<exists>body. second_tip entropy_config_default pv = Inr body \<and> trim body \<noteq> tip_hex)))
        \<and> (\<forall>later. fetch_live_entropy P pv later = Inr s))"
proof (intro conjI allI impI iffI)
  assume "\<exists>s. fetch_live_entropy P pv now = Inr s"
  then obtain s tip_hex tip block merkle where "fetch_live_entropy P pv now = Inr s"
    "first_answers P entropy_config_default pv tip_hex tip block merkle"
    using live_needs_first by metis
  then show "\<exists>tip_hex tip block merkle. first_answers P entropy_config_default pv tip_hex tip block merkle
      \<and> (\<forall>body. second_tip entropy_config_default pv = Inr body \<longrightarrow> trim body = tip_hex \<or> hex_to_32 P (trim body) \<noteq> None)"
    using live_succeeds [OF assms] by metis
next
  assume "\<exists>tip_hex tip block merkle. first_answers P entropy_config_default pv tip_hex tip block merkle
      \<and> (\<forall>body. second_tip entropy_config_default pv = Inr body \<longrightarrow> trim body = tip_hex \<or> hex_to_32 P (trim body) \<noteq> None)"
  then show "\<exists>s. fetch_live_entropy P pv now = Inr s"
    using live_succeeds [OF assms] by metis
next
  fix s later assume s: "fetch_live_entropy P pv now = Inr s"
  then obtain tip_hex tip block merkle where f: "first_answers P entropy_config_default pv tip_hex tip block merkle"
    using live_needs_first by metis
  note facts = live_facts [OF assms f s]
  show "length (be_tip_hash s) = 32"
    using f facts by (auto simp: first_answers_def dest: hex_to_32_length [OF assms])
  show "length (be_utxo_entropy s) = 32" "length (be_stale_xor_pool s) = 32" "fetch_live_entropy P pv later = Inr s"
    using facts by auto
  show "\<exists>tip_hex block merkle. first_answers P entropy_config_default pv tip_hex (be_tip_hash s) block merkle
      \<and> be_tip_height s = bi_height block
      \<and> (be_fork_detected s \<longleftrightarrow> (\<exists>body. second_tip entropy_config_default pv = Inr body \<and> trim body \<noteq> tip_hex))"
    using f facts by metis
qed

text \<open>Although the fallback for the second provider is on, an answer of it that is not a hash makes the whole
  observation fail, so the node keeps its previous one; and an answer that spells the same hash differently is
  reported as a divergence and gives an all-zero pool.\<close>

theorem second_provider_spoils_observation:
  assumes "hex_ok P" "first_answers P entropy_config_default pv tip_hex tip block merkle"
    and "second_tip entropy_config_default pv = Inr body" "trim body \<noteq> tip_hex"
  shows "(hex_to_32 P (trim body) = None \<longrightarrow> fetch_live_entropy P pv now = Inl BlockstreamNot32
      \<and> btc_observe (case fetch_live_entropy P pv now of Inl _ \<Rightarrow> None | Inr e \<Rightarrow> Some e) s = s)
    \<and> (hex_to_32 P (trim body) = Some tip \<longrightarrow> (\<exists>e. fetch_live_entropy P pv now = Inr e
        \<and> be_fork_detected e \<and> be_tip_hash e = tip \<and> be_stale_xor_pool e = zeros 32))"
proof -
  obtain c where c: "\<forall>now. fetch_with_config P entropy_config_default pv now =
       res_bind (build_stale_pool P entropy_config_default pv tip_hex tip (bi_nonce block) (bi_timestamp block)) (\<lambda>stale.
         Inr (result_of tip_hex tip block c now stale))"
    by (rule fetch_first [OF assms(2,1) default_allows(1)])
  show ?thesis
    by (auto simp: fetch_state c stale_pool_cases(3) [OF assms(3,4)] xor32_self btc_observe_def fetch_btc_def)
qed

text \<open>C34: A checkpoint is tied to Bitcoin by its height alone: whoever mines a claim that would be admitted with an honest
  proof can mine it with any tip, coinbase entropy and pool of his own making and is admitted as well, whatever
  Bitcoin state the validator itself observes at that height.\<close>

theorem checkpoint_binds_height_only:
  assumes "accept_check P now s l claim (Some proof) txs = Inr ()" "is_checkpoint_height (h_height (sc_header claim))"
    and "forged = \<lparr>cp_tip_hash = tip, cp_tip_height = cp_tip_height proof, cp_utxo_entropy = utxo, cp_stale_xor_pool = pool\<rparr>"
    and "sc_header mined = (sc_header claim)\<lparr>h_bitcoin_seed_hash := checkpoint_seed_hash P forged, h_nonce := nonce\<rparr>"
    and "claim_verify P mined = Inr ()"
  shows "accept_check P now (s\<lparr>ns_last_observed_btc := observed\<lparr>be_tip_height := be_tip_height (ns_last_observed_btc s)\<rparr>\<rparr>) l
    mined (Some forged) txs = Inr ()"
proof -
  let ?s = "s\<lparr>ns_last_observed_btc := observed\<lparr>be_tip_height := be_tip_height (ns_last_observed_btc s)\<rparr>\<rparr>"
  obtain reward where x: "accept_payload P claim txs = Inr ()" "accept_structure P now s claim (Some proof) = Inr reward"
    "accept_execution P l claim txs reward = Inr ()"
    using assms(1) by (auto simp: accept_check_def res_bind_Inr_iff)
  have "accept_payload P mined txs = Inr ()"
    using x(1) assms(5) by (simp add: accept_payload_ok assms(4))
  moreover have "accept_structure P now ?s mined (Some forged) = Inr reward"
    using x(2) assms(2) by (simp add: accept_structure_ok accept_checkpoint_ok Let_def assms(3,4) checkpoint_plausible_def split: if_splits)
  moreover have "accept_execution P l mined txs reward = Inr ()"
    using x(3) unfolding accept_execution_ok by (simp add: claim_miner_address_hex_def assms(4))
  ultimately show ?thesis
    by (simp add: accept_check_def)
qed

section \<open>Witnesses\<close>

text \<open>Two providers that agree up to the case of a digit.\<close>

definition sample_bitcoin_tip :: bytes where "sample_bitcoin_tip = replicate 31 0 @ [0x0a]"

definition sample_block_info :: block_info where
  "sample_block_info = \<lparr>bi_height = 900000, bi_merkle_root = sample_hex (replicate 32 3), bi_nonce = 5, bi_timestamp = 6\<rparr>"

definition sample_providers :: "string \<Rightarrow> providers" where
  "sample_providers second =
     \<lparr>pv_client_ok = True,
      pv_answer = (\<lambda>url. Some \<lparr>hr_success = True, hr_body = Some (if url = ec_blockstream entropy_config_default @ ''/blocks/tip/hash''
        then second else sample_hex sample_bitcoin_tip)\<rparr>),
      pv_block_of = (\<lambda>_. Some sample_block_info), pv_tx_of = (\<lambda>_. None), pv_txids_of = (\<lambda>_. None)\<rparr>"

lemma sample_second: "second_tip entropy_config_default (sample_providers second) = Inr second"
  by (simp add: second_tip_def get_body_def http_send_def sample_providers_def)

lemma sample_first:
  "first_answers sample_prims entropy_config_default (sample_providers second) (sample_hex sample_bitcoin_tip) sample_bitcoin_tip
     sample_block_info (replicate 32 3)"
proof -
  have t: "trim (sample_hex b) = sample_hex b" for b
    using csv_safe_trim [OF csv_safe_hex [OF sample_hex_ok, of b]] by simp
  have "hex_to_32 sample_prims (sample_hex b) = Some b" if "length b = 32" for b
    using hex_to_32_encode [OF sample_hex_ok that] by simp
  then show ?thesis
    by (simp add: first_answers_def get_body_def get_json_def http_send_def sample_providers_def t sample_bitcoin_tip_def
        entropy_config_default_def)
      (simp add: sample_block_info_def)
qed

theorem live_entropy_exact_witness:
  "\<exists>s. fetch_live_entropy sample_prims (sample_providers (sample_hex sample_bitcoin_tip)) 1 = Inr s
    \<and> length (be_stale_xor_pool s) = 32 \<and> fetch_live_entropy sample_prims (sample_providers (sample_hex sample_bitcoin_tip)) 2 = Inr s"
proof -
  have "trim (sample_hex sample_bitcoin_tip) = sample_hex sample_bitcoin_tip"
    using csv_safe_trim [OF csv_safe_hex [OF sample_hex_ok, of sample_bitcoin_tip]] by simp
  then have "\<exists>tip_hex tip block merkle. first_answers sample_prims entropy_config_default (sample_providers (sample_hex sample_bitcoin_tip))
      tip_hex tip block merkle \<and> (\<forall>body. second_tip entropy_config_default (sample_providers (sample_hex sample_bitcoin_tip)) = Inr body
        \<longrightarrow> trim body = tip_hex \<or> hex_to_32 sample_prims (trim body) \<noteq> None)"
    using sample_first unfolding sample_second by blast
  then show ?thesis
    using live_entropy_exact [OF sample_hex_ok, of "sample_providers (sample_hex sample_bitcoin_tip)" 1] by blast
qed

theorem second_provider_spoils_observation_witness:
  "fetch_live_entropy sample_prims (sample_providers ''offline'') 1 = Inl BlockstreamNot32
    \<and> (\<exists>e. fetch_live_entropy sample_prims (sample_providers (replicate 63 CHR ''0'' @ ''A'')) 1 = Inr e
        \<and> be_stale_xor_pool e = zeros 32 \<and> be_fork_detected e)"
proof -
  let ?up = "replicate 63 CHR ''0'' @ ''A''"
  have "trim ''offline'' = ''offline''" "trim ?up = ?up" by code_simp+
  moreover have "hex_to_32 sample_prims ''offline'' = None" "hex_to_32 sample_prims ?up = Some sample_bitcoin_tip"
    by code_simp+
  moreover have "''offline'' \<noteq> sample_hex sample_bitcoin_tip" "?up \<noteq> sample_hex sample_bitcoin_tip" by code_simp+
  ultimately show ?thesis
    using second_provider_spoils_observation [OF sample_hex_ok sample_first sample_second, of "''offline''" 1]
      second_provider_spoils_observation [OF sample_hex_ok sample_first sample_second, of ?up 1] by auto
qed

definition honest_proof :: btc_checkpoint_proof where
  "honest_proof = \<lparr>cp_tip_hash = replicate 32 9, cp_tip_height = 0, cp_utxo_entropy = replicate 32 8, cp_stale_xor_pool = replicate 32 6\<rparr>"

definition checkpoint_header :: "btc_checkpoint_proof \<Rightarrow> l1_header" where
  "checkpoint_header proof = sample_next_header\<lparr>h_height := 21, h_bitcoin_seed_hash := checkpoint_seed_hash sample_prims proof,
     h_state_root := snd (simulate_block_execution sample_prims sample_ledger [] sample_miner_hex (block_reward 21 100))\<rparr>"

theorem checkpoint_binds_height_only_witness:
  "accept_check sample_prims 1000050 (sample_state\<lparr>ns_chain_height := 20\<rparr>) sample_ledger
    (mined_by_sample (checkpoint_header (honest_proof\<lparr>cp_tip_hash := replicate 32 1\<rparr>))) (Some (honest_proof\<lparr>cp_tip_hash := replicate 32 1\<rparr>)) []
    = Inr ()"
proof -
  let ?s = "sample_state\<lparr>ns_chain_height := 20\<rparr>" and ?c = "mined_by_sample (checkpoint_header honest_proof)"
  let ?forged = "honest_proof\<lparr>cp_tip_hash := replicate 32 1\<rparr>"
  have verifies: "claim_verify sample_prims (mined_by_sample (checkpoint_header p)) = Inr ()" for p
    by (rule mined_by_sample_verifies) (simp add: checkpoint_header_def sample_next_header_def)
  have header: "sc_header (mined_by_sample (checkpoint_header p)) = checkpoint_header p" for p
    by simp (simp add: checkpoint_header_def sample_next_header_def)
  have m: "claim_miner_address_hex sample_prims ?c = sample_miner_hex"
    by (simp add: claim_miner_address_hex_def header) (simp add: checkpoint_header_def sample_next_header_def sample_miner_hex_def)
  have "length (fst (simulate_block_execution sample_prims sample_ledger [] m r)) = length ([] :: signed_transaction list)" for m r
    by (simp add: fst_simulate)
  then have "accept_execution sample_prims sample_ledger ?c [] (block_reward 21 100) = Inr ()"
    unfolding accept_execution_ok m header by (simp add: prod_eq_iff) (simp add: checkpoint_header_def)
  moreover have "accept_structure sample_prims 1000050 ?s ?c (Some honest_proof) = Inr (block_reward 21 100)"
    by (simp add: accept_structure_ok accept_checkpoint_ok Let_def header checkpoint_header_def sample_next_header_def sample_state_def
        initial_state_def timestamp_is_valid_iff MAX_FUTURE_MS_def is_checkpoint_height_def BTC_CHECKPOINT_INTERVAL_def
        sat_sub_def zeros_def checkpoint_plausible_def honest_proof_def btc_state_mock_def BTC_HEIGHT_TOLERANCE_def abs_diff_def)
  ultimately have "accept_check sample_prims 1000050 ?s sample_ledger ?c (Some honest_proof) [] = Inr ()"
    by (simp add: accept_check_def accept_payload_def verifies merkle_root_def header)
      (simp add: checkpoint_header_def sample_next_header_def)
  from checkpoint_binds_height_only [OF this _ _ _ verifies, of ?forged "replicate 32 1" "replicate 32 8" "replicate 32 6" ?forged 5
      "ns_last_observed_btc sample_state"]
  show ?thesis
    by (simp add: header) (simp add: checkpoint_header_def sample_next_header_def honest_proof_def is_checkpoint_height_def
        BTC_CHECKPOINT_INTERVAL_def sat_sub_def)
qed

end
