(* ===== verification/Full_Node.thy ===== *)
theory Full_Node
  imports Node_System Reorg
begin

text \<open>
  The whole node: the runs of \<open>Node_System\<close> with the records of peers and the rollbacks of a reorganisation as
  further steps, at the point of the loop where \<^verbatim>\<open>catch_up_from_peers\<close> and \<^verbatim>\<open>reconcile_fork\<close> run. A step applies
  one record or rolls back once, so handlers may run between the records of a page; which peer answers, with what,
  is left open. What survives of the invariants of \<open>Node_System\<close>, and what a reorganisation breaks.
\<close>

section \<open>Steps\<close>

inductive sync_step :: "miner \<Rightarrow> system \<Rightarrow> system \<Rightarrow> bool" for M where
  record_applied: "sy_phase sy = Idle \<Longrightarrow>
    sync_check (mr_prims M) now (sy_cursor sy) (nd_ledger (sy_node sy)) r = Inr (claim, applied) \<Longrightarrow>
    sync_apply (mr_prims M) (mr_serde M) io r claim applied (sy_cursor sy, sy_node sy) = (cu', nd') \<Longrightarrow>
    sync_step M sy (sy\<lparr>sy_cursor := cu', sy_node := nd'\<rparr>)"
| rolled: "sy_phase sy = Idle \<Longrightarrow>
    roll_back (mr_prims M) (mr_serde M) io ledger_text fork_point (sy_cursor sy, sy_node sy) = Some (cu', nd') \<Longrightarrow>
    sync_step M sy (sy\<lparr>sy_cursor := cu', sy_node := nd'\<rparr>)"

inductive full_reach :: "miner \<Rightarrow> system \<Rightarrow> system \<Rightarrow> bool" for M where
  full_begin: "full_reach M sy sy"
| full_loop: "full_reach M sy sy' \<Longrightarrow> loop_step M sy' sy'' \<Longrightarrow> full_reach M sy sy''"
| full_handler: "full_reach M sy sy' \<Longrightarrow> handler_step M sy' sy'' \<Longrightarrow> full_reach M sy sy''"
| full_sync: "full_reach M sy sy' \<Longrightarrow> sync_step M sy' sy'' \<Longrightarrow> full_reach M sy sy''"

section \<open>The functions of the code as runs\<close>

text \<open>What every applied record keeps, a synchronisation that returns has kept.\<close>

definition records_keep :: "prims \<Rightarrow> serde \<Rightarrow> (u64 \<Rightarrow> u64) \<Rightarrow> (u64 \<Rightarrow> bool) \<Rightarrow> (cursor \<times> node \<Rightarrow> bool) \<Rightarrow> bool" where
  "records_keep P J now io I \<longleftrightarrow> (\<forall>st r claim applied. I st \<longrightarrow>
     sync_check P (now (br_height r)) (fst st) (nd_ledger (snd st)) r = Inr (claim, applied) \<longrightarrow>
     I (sync_apply P J (io (br_height r)) r claim applied st))"

lemma sync_page_keeps:
  assumes "records_keep P J now io I" "I st" "sync_page P J now io rs st = (stop, n, st')"
  shows "I st'"
proof -
  have "I (snd (snd (sync_page P J now io rs st)))"
    by (rule sync_page_invariant [where I = I, OF _ assms(2)]) (use assms(1) in \<open>simp only: records_keep_def\<close>)
  then show ?thesis by (simp add: assms(3))
qed

lemma sync_forward_keeps:
  assumes "sync_forward P J now io fetch target st = Some y"
  shows "\<forall>I. records_keep P J now io I \<longrightarrow> I st \<longrightarrow> I (snd y)"
proof -
  let ?Q = "\<lambda>((((((P, J), now), io), fetch :: u64 \<Rightarrow> u64 \<Rightarrow> block_record list option), target :: u64), st) (y :: u64 \<times> cursor \<times> node).
    \<forall>I. records_keep P J now io I \<longrightarrow> I st \<longrightarrow> I (snd y)"
  have "?Q ((((((P, J), now), io), fetch), target), st) y"
  proof (rule sync_forward.raw_induct [of ?Q, OF _ assms])
    fix f :: "prims \<Rightarrow> serde \<Rightarrow> (u64 \<Rightarrow> u64) \<Rightarrow> (u64 \<Rightarrow> bool) \<Rightarrow> (u64 \<Rightarrow> u64 \<Rightarrow> block_record list option) \<Rightarrow> u64
        \<Rightarrow> cursor \<times> node \<Rightarrow> (u64 \<times> cursor \<times> node) option"
      and P J now io fetch target st y
    assume IH: "\<And>P J now io fetch target st y. f P J now io fetch target st = Some y \<Longrightarrow> ?Q ((((((P, J), now), io), fetch), target), st) y"
      and body: "(if target \<le> cu_height (fst st) then Some (0, st)
        else let start = cu_height (fst st) + 1; stop_at = sat_add start (MAX_SYNC_PAGE - 1) in
          case fetch start stop_at of None \<Rightarrow> Some (0, st)
          | Some page \<Rightarrow> if page = [] then Some (0, st)
              else case sync_page P J now io page st of (stop, n, st') \<Rightarrow>
                if stop then Some (n, st')
                else Option.bind (f P J now io fetch target st') (\<lambda>(m, st''). Some (n + m, st''))) = Some y"
    show "?Q ((((((P, J), now), io), fetch), target), st) y"
    proof (cases "y = (0, st)")
      case False
      then obtain page where p: "\<not> target \<le> cu_height (fst st)" "page \<noteq> []"
        "fetch (cu_height (fst st) + 1) (sat_add (cu_height (fst st) + 1) (MAX_SYNC_PAGE - 1)) = Some page"
        using body by (auto simp: Let_def split: if_splits option.splits)
      obtain stop n st' where page: "sync_page P J now io page st = (stop, n, st')"
        by (cases "sync_page P J now io page st")
      have y: "if stop then y = (n, st') else \<exists>m st''. f P J now io fetch target st' = Some (m, st'') \<and> y = (n + m, st'')"
        using body by (simp add: p page Let_def bind_eq_Some_conv split: if_splits prod.splits) blast
      have "I (snd y)" if keep: "records_keep P J now io I" and "I st" for I
      proof -
        have k: "I st'" by (rule sync_page_keeps [OF keep \<open>I st\<close> page])
        show ?thesis
        proof (cases stop)
          case False
          with y obtain m st'' where f: "f P J now io fetch target st' = Some (m, st'')" "y = (n + m, st'')" by auto
          have "\<forall>I. records_keep P J now io I \<longrightarrow> I st' \<longrightarrow> I st''"
            using IH [OF f(1)] by simp
          with keep k f(2) show ?thesis by (metis snd_conv)
        qed (use y k in simp)
      qed
      then show ?thesis unfolding split_conv by (intro allI impI)
    qed simp
  qed
  then show ?thesis by simp
qed

lemma reach_record:
  assumes "full_reach M sy (sy'\<lparr>sy_cursor := fst st, sy_node := snd st\<rparr>)" "sy_phase sy' = Idle"
    and "sync_check (mr_prims M) now (fst st) (nd_ledger (snd st)) r = Inr (claim, applied)"
  shows "full_reach M sy (sy'\<lparr>sy_cursor := fst (sync_apply (mr_prims M) (mr_serde M) io r claim applied st),
    sy_node := snd (sync_apply (mr_prims M) (mr_serde M) io r claim applied st)\<rparr>)"
proof -
  let ?sy = "sy'\<lparr>sy_cursor := fst st, sy_node := snd st\<rparr>"
  have "sync_step M ?sy (?sy\<lparr>sy_cursor := fst (sync_apply (mr_prims M) (mr_serde M) io r claim applied st),
    sy_node := snd (sync_apply (mr_prims M) (mr_serde M) io r claim applied st)\<rparr>)"
    using assms(2,3) by (intro record_applied [of ?sy M now r claim applied io]) (simp_all add: del: sync_apply_sel)
  from full_sync [OF assms(1) this] show ?thesis by simp
qed

text \<open>Whatever the peers answer, a synchronisation or a reorganisation of an idle loop is a run.\<close>

lemma sync_reaches:
  assumes "full_reach M sy sy'" "sy_phase sy' = Idle"
    and "sync_forward (mr_prims M) (mr_serde M) now io fetch target (cu, nd) = Some (n, cu', nd')"
    and "full_reach M sy (sy'\<lparr>sy_cursor := cu, sy_node := nd\<rparr>)"
  shows "full_reach M sy (sy'\<lparr>sy_cursor := cu', sy_node := nd'\<rparr>)"
proof -
  have "records_keep (mr_prims M) (mr_serde M) now io (\<lambda>st. full_reach M sy (sy'\<lparr>sy_cursor := fst st, sy_node := snd st\<rparr>))"
    unfolding records_keep_def by (intro allI impI) (rule reach_record [OF _ assms(2)])
  then show ?thesis
    using sync_forward_keeps [OF assms(3)] assms(4) by fastforce
qed

lemma rollback_reaches:
  assumes "sy_phase sy' = Idle" "full_reach M sy (sy'\<lparr>sy_cursor := cu, sy_node := nd\<rparr>)"
    and "roll_back (mr_prims M) (mr_serde M) io_ok ledger_text fork_point (cu, nd) = Some (cu', nd')"
  shows "full_reach M sy (sy'\<lparr>sy_cursor := cu', sy_node := nd'\<rparr>)"
  using full_sync [OF assms(2) rolled [of "sy'\<lparr>sy_cursor := cu, sy_node := nd\<rparr>" M io_ok ledger_text fork_point cu' nd']] assms(1,3)
  by simp

lemma reconcile_reaches:
  assumes "full_reach M sy sy'" "sy_phase sy' = Idle"
    and "reconcile_fork (mr_prims M) (mr_serde M) now io io_ok ledger_text fetch_status fetch peers (sy_cursor sy', sy_node sy')
      = Some (n, cu', nd')"
  shows "full_reach M sy (sy'\<lparr>sy_cursor := cu', sy_node := nd'\<rparr>)"
proof (cases "(cu', nd') = (sy_cursor sy', sy_node sy')")
  case False
  have same: "full_reach M sy (sy'\<lparr>sy_cursor := sy_cursor sy', sy_node := sy_node sy'\<rparr>)"
    using assms(1) by simp
  from False assms(3) consider
      (ahead) f t where "sync_forward (mr_prims M) (mr_serde M) now io f t (sy_cursor sy', sy_node sy') = Some (n, cu', nd')"
    | (fork) f t fork_point cu1 nd1 where
        "roll_back (mr_prims M) (mr_serde M) io_ok ledger_text fork_point (sy_cursor sy', sy_node sy') = Some (cu1, nd1)"
        "sync_forward (mr_prims M) (mr_serde M) now io f t (cu1, nd1) = Some (n, cu', nd')"
    unfolding reconcile_fork_def reconcile_with_def Let_def
    by (auto split: option.splits if_splits)
  then show ?thesis
  proof cases
    case ahead
    then show ?thesis by (rule sync_reaches [OF assms(1,2) _ same])
  next
    case fork
    show ?thesis
      by (rule sync_reaches [OF assms(1,2) fork(2) rollback_reaches [OF assms(2) same fork(1)]])
  qed
qed (use assms(1) in simp)

lemma catch_up_reaches:
  assumes "full_reach M sy sy'" "sy_phase sy' = Idle"
    and "catch_up_from_peers (mr_prims M) (mr_serde M) now io fetch_status fetch peers (sy_cursor sy', sy_node sy') = Some (n, cu', nd')"
  shows "full_reach M sy (sy'\<lparr>sy_cursor := cu', sy_node := nd'\<rparr>)"
proof (cases "(cu', nd') = (sy_cursor sy', sy_node sy')")
  case False
  then obtain f t where "sync_forward (mr_prims M) (mr_serde M) now io f t (sy_cursor sy', sy_node sy') = Some (n, cu', nd')"
    using assms(3) unfolding catch_up_from_peers_def by (auto split: option.splits)
  then show ?thesis
    by (rule sync_reaches [OF assms(1,2)]) (use assms(1) in simp)
qed (use assms(1) in simp)

section \<open>What survives\<close>

lemma tracks_quiet:
  "tracks cu nd \<Longrightarrow> nd_ledger nd' = nd_ledger nd \<Longrightarrow> same_tip (nd_state nd) (nd_state nd') \<Longrightarrow>
    ns_chain_work (nd_state nd') = ns_chain_work (nd_state nd) \<Longrightarrow> tracks cu nd'"
  by (simp add: tracks_def Let_def same_tip_def)

text \<open>Between two states of a running node: the loop's variables agree with the shared state, the genesis is the same
  and no nullifier has been forgotten.\<close>

definition in_step :: "system \<Rightarrow> system \<Rightarrow> bool" where
  "in_step sy sy' \<longleftrightarrow> tracks (sy_cursor sy') (sy_node sy')
     \<and> ns_genesis_hash (nd_state (sy_node sy')) = ns_genesis_hash (nd_state (sy_node sy))
     \<and> set (ns_nullifiers (nd_state (sy_node sy))) \<subseteq> set (ns_nullifiers (nd_state (sy_node sy')))"

lemma in_step_trans: "in_step a b \<Longrightarrow> in_step b c \<Longrightarrow> in_step a c"
  by (auto simp: in_step_def)

lemma mark_keeps: "set s \<subseteq> set (mark_record_nullifier P n s)"
  by (auto simp: mark_record_nullifier_def nullifiers_mark_spent_def split: option.splits)

lemma commit_genesis_kept:
  "ns_genesis_hash (nd_state (fst (snd (snd (commit P J K lio fio secs cd result lh w (cu, nd, file))))))
     = ns_genesis_hash (nd_state nd)"
  by (simp add: commit_def Let_def case_prod_unfold commit_state_def drop_confirmed_def split: sum.splits option.splits)

lemma sync_in_step: "sync_step M sy sy' \<Longrightarrow> tracks (sy_cursor sy) (sy_node sy) \<Longrightarrow> in_step sy sy'"
proof (induction rule: sync_step.induct)
  case (record_applied sy now r claim applied io cu' nd')
  have "mirrors cu' nd'"
    using mirrors_sync_apply [of "mr_prims M" "mr_serde M" io r claim applied "(sy_cursor sy, sy_node sy)"] record_applied(3) by simp
  then have "tracks cu' nd'" by (rule mirrors_tracks)
  moreover have "nd_state nd' = sync_state (mr_prims M) cu' (lg_total_mined (nd_ledger nd')) applied (br_nullifier r) (nd_state (sy_node sy))"
    using record_applied(3) by (auto simp: sync_apply_def Let_def)
  ultimately show ?case
    using mark_keeps by (simp add: in_step_def sync_state_def)
next
  case (rolled sy io ledger_text fork_point cu' nd')
  then show ?case
    by (auto simp: in_step_def roll_back_def tracks_def roll_back_state_def Let_def case_prod_unfold split: option.splits sum.splits)
qed

lemma loop_in_step: "loop_step M sy sy' \<Longrightarrow> tracks (sy_cursor sy) (sy_node sy) \<Longrightarrow> running sy' \<Longrightarrow> in_step sy sy'"
proof (induction rule: loop_step.induct)
  case (prepare sy now answers observed fresh cd nd')
  obtain obs where nd': "nd' = (sy_node sy)\<lparr>nd_state := (nd_state (sy_node sy))\<lparr>ns_last_observed_btc := obs,
      ns_difficulty_bits := da_current_bits (cu_adjuster (sy_cursor sy))\<rparr>\<rparr>"
    using build_candidate_node [OF prepare(5)] by blast
  show ?case
    using prepare.prems(1) by (simp add: in_step_def tracks_def Let_def nd')
next
  case (mined sy cd k run claim q result)
  then show ?case by (simp add: in_step_def tracks_def submit_local_def Let_def)
next
  case (elected sy cd lh result w s')
  then show ?case by (auto simp: in_step_def tracks_def elect_def Let_def split: option.splits)
next
  case (committed sy cd lh result w fio secs cu' nd' rf')
  then show ?case
    using commit_tracks [OF committed(2)]
      commit_genesis_kept [of "mr_prims M" "mr_serde M" "mr_codec M" True fio secs cd result lh w "sy_cursor sy" "sy_node sy" "sy_file sy"]
      commit_nullifiers [of "mr_prims M" "mr_serde M" "mr_codec M" True fio secs cd result lh w "sy_cursor sy" "sy_node sy" "sy_file sy"]
    by (auto simp: in_step_def)
qed (auto simp: running_def)

lemma handler_in_step: "handler_step M sy sy' \<Longrightarrow> tracks (sy_cursor sy) (sy_node sy) \<Longrightarrow> in_step sy sy'"
proof (induction rule: handler_step.induct)
  case (enqueue sy t)
  then show ?case
    using tracks_quiet [OF enqueue.prems enqueue_rest(1,2,4)]
    by (auto simp: in_step_def enqueue_rest) (simp add: enqueue_transaction_def Let_def split: sum.splits)
qed (auto simp: in_step_def accept_admit_def btc_observe_def Let_def tracks_def)

lemma full_step_running:
  "loop_step M sy sy' \<Longrightarrow> running sy" "handler_step M sy sy' \<Longrightarrow> running sy" "sync_step M sy sy' \<Longrightarrow> running sy"
  by (auto simp: running_def elim: loop_step.cases handler_step.cases sync_step.cases)

lemma full_in_step:
  "full_reach M sy sy' \<Longrightarrow> tracks (sy_cursor sy) (sy_node sy) \<Longrightarrow> running sy' \<Longrightarrow> in_step sy sy'"
proof (induction rule: full_reach.induct)
  case (full_loop sy sy' sy'')
  then have "in_step sy sy'" using full_step_running by blast
  with full_loop loop_in_step [OF full_loop(2)] show ?case
    by (meson in_step_def in_step_trans)
next
  case (full_handler sy sy' sy'')
  then have "in_step sy sy'" using full_step_running by blast
  with full_handler handler_in_step [OF full_handler(2)] show ?case
    by (meson in_step_def in_step_trans)
next
  case (full_sync sy sy' sy'')
  then have "in_step sy sy'" using full_step_running by blast
  with full_sync sync_in_step [OF full_sync(2)] show ?case
    by (meson in_step_def in_step_trans)
qed (simp add: in_step_def)

section \<open>What a reorganisation leaves behind\<close>

lemma pending_at_retain: "h < k \<Longrightarrow> pending_at (s\<lparr>ns_pending_claims := retain_above h (ns_pending_claims s)\<rparr>) k = pending_at s k"
  by (simp add: pending_at_def retain_above_def hm_get_or_def hm_get_filter_key)

lemma sync_apply_pending:
  "br_height r < k \<Longrightarrow> pending_at (nd_state (snd (sync_apply P J io r claim applied st))) k = pending_at (nd_state (snd st)) k"
  by (cases st) (simp add: sync_apply_def sync_state_def Let_def pending_at_def retain_above_def hm_get_or_def hm_get_filter_key)

lemma sync_page_pending:
  assumes "sync_page P J now io rs st = (False, n, st')" "unat (cu_height (fst st)) + length rs < unat k"
  shows "pending_at (nd_state (snd st')) k = pending_at (nd_state (snd st)) k"
  using assms
proof (induction rs arbitrary: st n)
  case (Cons r rs)
  from Cons.prems(1) obtain claim applied m where
    c: "sync_check P (now (br_height r)) (fst st) (nd_ledger (snd st)) r = Inr (claim, applied)"
    and rest: "sync_page P J now io rs (sync_apply P J (io (br_height r)) r claim applied st) = (False, m, st')"
    by (rule sync_page_ConsE)
  have "unat (cu_height (fst st)) + 1 < 2 ^ 64"
    using Cons.prems(2) unat_lt_u64 [of k] by simp
  then have h: "unat (br_height r) = unat (cu_height (fst st)) + 1"
    unfolding sync_check_facts(1) [OF c] by (subst unat_add_fits) simp_all
  then have "br_height r < k" using Cons.prems(2) by (simp add: word_less_nat_alt)
  then show ?case
    using Cons.IH [OF rest] Cons.prems(2) h by (simp add: sync_apply_pending)
qed simp

lemma roll_back_sel:
  assumes "roll_back P J io_ok ledger_text fork_point (cu, nd) = Some (cu1, nd1)"
  shows "cu_height cu1 = fork_point" "fork_point < k \<Longrightarrow> pending_at (nd_state nd1) k = pending_at (nd_state nd) k"
proof -
  have "cu_height cu1 = fork_point \<and> ns_pending_claims (nd_state nd1) = retain_above fork_point (ns_pending_claims (nd_state nd))"
    using assms by (auto simp: roll_back_def Let_def case_prod_unfold roll_back_state_def split: option.splits sum.splits)
  then show "cu_height cu1 = fork_point" "fork_point < k \<Longrightarrow> pending_at (nd_state nd1) k = pending_at (nd_state nd) k"
    using pending_at_retain [of fork_point k "nd_state nd"] by (simp_all add: pending_at_def)
qed

text \<open>With one claim of another miner in the pool, the election chooses it if it beats the local one.\<close>

lemma elect_other:
  assumes "pending_at s (cd_height cd) = [(m, p)]" "m \<noteq> miner_hex" "pending_is_better P p (local_pending cd local)"
  shows "fst (elect P (cd_height cd) (submit_local miner_hex cd local s)) = Inr p"
proof -
  have "\<not> pending_is_better P (local_pending cd local) p"
    using assms(3) claim_rank_laws(1) by (auto simp: pending_is_better_def)
  then show ?thesis
    using assms(1,2)
    by (simp add: elect_def submit_local_def Let_def pending_at_def hm_has_def hm_values_def select_winning_pending_def)
      (simp add: hm_insert_def)
qed

lemma foreign_parent_refused:
  assumes "hex_ok P" "h_prev_hash (sc_header (pc_claim p)) \<noteq> cu_tip_hash cu"
  shows "\<not> is_ok (sync_check P now cu l (mined_record P height p reward result lh tip work))"
  using assms by (auto simp: is_ok_iff sync_check_def res_bind_Inr_iff sync_check_header_ok mined_record_def Let_def hex_encode_inj)

section \<open>Properties\<close>

text \<open>C35: Under every interleaving of the mining loop, the handlers, the records of any peers and rollbacks, the loop's
  height, tip, timestamp, seed, difficulty and work and the mined total of the ledger agree with the shared state, the
  genesis stays and no nullifier is forgotten; a reorganisation of the idle loop, whatever the peers answer, is such a run.\<close>

theorem full_node_in_step:
  assumes "full_reach M sy sy'" "tracks (sy_cursor sy) (sy_node sy)" "running sy'"
  shows "tracks (sy_cursor sy') (sy_node sy')
    \<and> ns_genesis_hash (nd_state (sy_node sy')) = ns_genesis_hash (nd_state (sy_node sy))
    \<and> set (ns_nullifiers (nd_state (sy_node sy))) \<subseteq> set (ns_nullifiers (nd_state (sy_node sy')))
    \<and> (sy_phase sy' = Idle \<longrightarrow> reconcile_fork (mr_prims M) (mr_serde M) now io io_ok ledger_text fetch_status fetch peers
          (sy_cursor sy', sy_node sy') = Some (n, cu, nd) \<longrightarrow>
        full_reach M sy (sy'\<lparr>sy_cursor := cu, sy_node := nd\<rparr>) \<and> tracks cu nd)"
proof -
  have "tracks cu nd" if "full_reach M sy (sy'\<lparr>sy_cursor := cu, sy_node := nd\<rparr>)" "sy_phase sy' = Idle"
    using full_in_step [OF that(1) assms(2)] that(2) by (simp add: running_def in_step_def)
  with full_in_step [OF assms] reconcile_reaches [OF assms(1), of now io io_ok ledger_text fetch_status fetch peers n cu nd]
  show ?thesis by (auto simp: in_step_def)
qed

text \<open>C36: A reorganisation can fork the node off: claims pending above the fork survive it although they were checked against
  the abandoned tip, and when the new branch is as long as the old one, such a claim is elected if it beats the
  local one; no node on the branch accepts the record of the resulting block.\<close>

theorem stale_claim_wins_after_reorg:
  assumes "hex_ok P" "roll_back P J io_ok ledger_text fork_point (cu, nd) = Some (cu1, nd1)"
    and "sync_page P J now io branch (cu1, nd1) = (False, n, cu2, nd2)"
    and "unat fork_point + length branch = unat (cu_height cu)" "unat (cu_height cu) < 2 ^ 62"
    and "pending_at (nd_state nd) (cu_height cu + 1) = [(m, p)]" "m \<noteq> miner_hex" "cd_height cd = cu_height cu + 1"
    and "pending_is_better P p (local_pending cd local)" "h_prev_hash (sc_header (pc_claim p)) \<noteq> cu_tip_hash cu2"
  shows "cu_height cu2 = cu_height cu
    \<and> fst (elect P (cd_height cd) (submit_local miner_hex cd local (nd_state nd2))) = Inr p
    \<and> \<not> is_ok (sync_check P later cu2 l (mined_record P (cd_height cd) p reward result lh tip work))"
proof -
  note r = roll_back_sel [OF assms(2)]
  have k: "unat (cu_height cu + 1) = unat (cu_height cu) + 1"
    using assms(5) by (subst unat_add_fits) simp_all
  have "unat (cu_height cu2) = unat (cu_height cu)"
    using sync_page_height [OF assms(3)] assms(4,5) r(1) by simp
  moreover have "pending_at (nd_state nd2) (cu_height cu + 1) = [(m, p)]"
    using sync_page_pending [OF assms(3), of "cu_height cu + 1"] r(2) [of "cu_height cu + 1"] r(1) assms(4,6) k
    by (simp add: word_less_nat_alt)
  ultimately show ?thesis
    using elect_other [of "nd_state nd2" cd m p miner_hex P local] foreign_parent_refused [OF assms(1,10)] assms(7-9)
    by (simp only: word_unat_eq_iff [symmetric]) simp
qed

text \<open>C37: A block that was abandoned cannot be mined again: its nullifier stays spent through every rollback and every
  synchronisation, so when its claim is elected once more, the commitment panics.\<close>

theorem abandoned_block_panics:
  assumes "commit (mr_prims M) (mr_serde M) (mr_codec M) lio fio secs cd result lh w (cu, nd, rf) = (Inr (), sy_cursor sy, sy_node sy, rf')"
    and "full_reach M sy sy'" "running sy'" "cd_height cd' = cd_height cd"
  shows "fst (commit (mr_prims M) (mr_serde M) (mr_codec M) lio' fio' secs' cd' result' lh' w (sy_cursor sy', sy_node sy', rf''))
    = Inl PanicNullifier"
proof -
  have "ro_nullifier (claim_randomness (mr_prims M) (cd_height cd) (pc_claim w)) \<in> set (ns_nullifiers (nd_state (sy_node sy)))"
    using commit_nullifiers [of "mr_prims M" "mr_serde M" "mr_codec M" lio fio secs cd result lh w cu nd rf] assms(1) by simp
  moreover have "in_step sy sy'"
    using full_in_step [OF assms(2) commit_tracks [OF assms(1)] assms(3)] .
  ultimately show ?thesis
    using assms(4) by (auto simp: commit_result in_step_def)
qed

section \<open>A sample reorganisation\<close>

definition fork_claim :: signed_claim where
  "fork_claim = mined_by_sample (branch_header\<lparr>h_height := 3, h_prev_hash := zeros 32\<rparr>)"

definition rival_claim :: signed_claim where
  "rival_claim = \<lparr>sc_header = branch_header\<lparr>h_height := 3, h_miner_address := zeros 19 @ [255]\<rparr>, sc_public_key = [], sc_signature = []\<rparr>"

lemma branch_header_wf: "header_wf branch_header"
proof -
  have "length (snd (simulate_block_execution sample_prims base_ledger [] m r)) = 32" for m r
    by (simp add: simulate_block_execution_def state_root_with_overlay_def compute_state_root_def Let_def)
  then show ?thesis
    using sample_block_wf [of 1 50] by (simp add: branch_header_def header_wf_def)
qed

lemma sample_hash_long: "30 \<le> length x \<Longrightarrow> sample_hash x = le_nat 2 (length x) @ take 30 (rev x)"
  by (simp add: sample_hash_def)

lemma sample_header_hash:
  assumes "header_wf h"
  shows "header_hash sample_prims h = le_nat 2 190 @ take 30 (rev (h_bitcoin_seed_hash h))"
proof -
  have "take 30 (rev (header_preimage h)) = take 30 (rev (h_bitcoin_seed_hash h))"
    using assms by (simp add: header_preimage_def header_wf_def)
  then show ?thesis
    using length_header_preimage [OF assms] by (simp add: header_hash_def sample_hash_long)
qed

lemma sample_score:
  assumes "header_wf h"
  shows "election_score sample_prims h = le_nat 2 108 @ rev (h_miner_address h) @ take 10 (rev (header_hash sample_prims h))"
proof -
  have "length (header_hash sample_prims h) = 32" by (simp add: sample_hash_ok)
  then show ?thesis
    using assms by (simp add: election_score_def sample_hash_long ELECTION_TAG_def header_wf_def)
qed

lemma fork_claim_sel: "sc_header fork_claim = branch_header\<lparr>h_height := 3, h_prev_hash := zeros 32\<rparr>"
  by (simp add: fork_claim_def) (simp add: branch_header_def sample_block_def sample_next_header_def)

lemma fork_claim_better: "claim_is_better sample_prims fork_claim rival_claim"
proof -
  have wf: "header_wf (sc_header fork_claim)" "header_wf (sc_header rival_claim)"
    using branch_header_wf by (simp_all add: fork_claim_sel rival_claim_def header_wf_def)
  have h: "header_hash sample_prims (sc_header fork_claim) = header_hash sample_prims (sc_header rival_claim)"
    using wf by (simp add: sample_header_hash) (simp add: fork_claim_sel rival_claim_def)
  have a: "h_miner_address (sc_header fork_claim) = keypair_address sample_prims sample_miner"
    by (simp add: fork_claim_sel branch_header_def sample_block_def sample_next_header_def)
  have two: "le_nat 2 108 = [108, 0]"
    by code_simp
  have "rev (keypair_address sample_prims sample_miner) = [0, 0, 0, 0, 0, 0, 0, 0, 0, 0, 0, 0, 0, 0, 0, 0, 0, 0, 3, 173]"
    by code_simp
  then have "claim_election_score sample_prims fork_claim < claim_election_score sample_prims rival_claim"
    using two by (simp add: claim_election_score_def sample_score wf h a) (simp add: rival_claim_def)
  then show ?thesis
    by (simp add: claim_is_better_def claim_work_bits_def claim_block_hash_def h)
qed

definition crossed_node :: node where
  "crossed_node = base_node\<lparr>nd_state := (nd_state base_node)\<lparr>ns_pending_claims :=
     [(3, [(''ab'', \<lparr>pc_claim = fork_claim, pc_btc_checkpoint = None, pc_transactions = []\<rparr>)])]\<rparr>\<rparr>"

abbreviation branch_applied :: "node \<Rightarrow> cursor \<times> node" where
  "branch_applied nd \<equiv> sync_apply sample_prims sample_serde True branch_record (pc_claim branch_claim) [] (sample_tip, nd)"

lemma branch_record_sel: "br_height branch_record = 2" "br_difficulty_bits branch_record = 0"
  by (simp_all add: branch_record_def) (simp add: mined_record_def Let_def branch_header_def)

lemma overlay_read_csv: "overlay_read (l\<lparr>lg_csv := csv\<rparr>) = overlay_read l"
  by (simp add: fun_eq_iff overlay_read_def ledger_balance_def ledger_nonce_def)

lemma simulate_txs_csv: "simulate_txs P (l\<lparr>lg_csv := csv\<rparr>) miner txs ov = simulate_txs P l miner txs ov"
proof -
  have "simulate_tx P (l\<lparr>lg_csv := csv\<rparr>) miner s ov = simulate_tx P l miner s ov" for s ov
    by (simp add: simulate_tx_def overlay_read_csv Let_def case_prod_unfold cong: if_cong option.case_cong)
  then show ?thesis by (induction txs arbitrary: ov) (simp_all cong: option.case_cong)
qed

lemma simulate_csv: "simulate_block_execution P (l\<lparr>lg_csv := csv\<rparr>) txs miner reward = simulate_block_execution P l txs miner reward"
proof -
  have "simulate_reward (l\<lparr>lg_csv := csv\<rparr>) miner reward ov = simulate_reward l miner reward ov" for ov
    by (simp add: simulate_reward_def overlay_read_csv Let_def case_prod_unfold)
  then show ?thesis
    by (simp add: simulate_block_execution_def simulate_txs_csv state_root_with_overlay_def ledger_balance_def ledger_nonce_def)
qed

lemma sync_check_csv: "sync_check P now cu (l\<lparr>lg_csv := csv\<rparr>) r = sync_check P now cu l r"
  by (simp add: sync_check_def sync_check_body_def simulate_csv cong: if_cong)

text \<open>On any node with the sample ledger the branch is accepted, whatever the rows of the ledger's file.\<close>

lemma branch_page:
  assumes "nd_ledger nd = base_ledger\<lparr>lg_csv := csv\<rparr>"
  shows "sync_page sample_prims sample_serde (\<lambda>_. 1000050) (\<lambda>_. True) [branch_record] (sample_tip, nd)
    = (False, 1, branch_applied nd)"
  using branch_accepted assms sync_check_csv by (simp del: sync_apply_sel)

lemma branch_undone:
  assumes "nd_ledger nd = base_ledger" "nd_store nd = nd_store base_node"
  obtains nd1 where
    "roll_back sample_prims sample_serde True (Some (lg_csv (nd_ledger (snd (branch_applied nd))))) 1 (branch_applied nd) = Some (sample_tip, nd1)"
    "nd_ledger nd1 = base_ledger\<lparr>lg_csv := lg_csv (nd_ledger (snd (branch_applied nd)))\<rparr>"
proof -
  let ?st = "branch_applied nd"
  have page: "sync_page sample_prims sample_serde (\<lambda>_. 1000050) (\<lambda>_. True) [branch_record] (sample_tip, nd) = (False, 1, fst ?st, snd ?st)"
    by (simp only: prod.collapse) (rule branch_page [of nd "lg_csv base_ledger"], simp add: assms(1))
  have adj: "cu_adjuster (fst ?st) = cu_adjuster sample_tip"
    by (simp add: branch_record_sel advance_cursor_def Let_def record_block_def EPOCH_SIZE_def word_mod_def)
  have safe: "\<forall>r \<in> set [branch_record]. csv_safe (br_miner_address r)"
    using csv_safe_hex [OF sample_hex_ok] by (simp add: branch_record_def claim_miner_address_hex_def)
  have bounds: "unat (cu_height sample_tip) + length [branch_record] < 2 ^ 62"
    "unat (cu_work sample_tip) + branch_work [branch_record] < 2 ^ 128"
    "da_epoch_start_height (cu_adjuster (fst ?st)) \<le> cu_height sample_tip"
    by (simp_all only: adj) (simp_all add: branch_work_def branch_record_sel unat_block_work, simp_all add: sample_tip_def)
  have "persisted (cu_height sample_tip) (cu_height sample_tip) (nd_ledger nd)"
    using base_persisted assms(1) by simp
  from branch_rolls_back [OF sample_hex_ok base_anchored [folded assms(2)] this page branch_fresh [folded assms(2)] safe bounds]
  obtain pool store where
    "roll_back sample_prims sample_serde True (Some (lg_csv (nd_ledger (snd ?st)))) (cu_height sample_tip) (fst ?st, snd ?st) = Some (sample_tip,
      \<lparr>nd_state = roll_back_state sample_tip (lg_total_mined (nd_ledger nd)) pool (nd_state (snd ?st)),
       nd_ledger = (nd_ledger nd)\<lparr>lg_csv := lg_csv (nd_ledger (snd ?st))\<rparr>, nd_store = store\<rparr>)"
    by metis
  with assms(1) show thesis
    by (intro that) (simp del: sync_apply_sel, simp)
qed

theorem stale_claim_wins_after_reorg_witness:
  "\<exists>cu nd cu1 nd1 cu2 nd2 p. pending_at (nd_state nd) 3 = [(''ab'', p)]
    \<and> roll_back sample_prims sample_serde True (Some (lg_csv (nd_ledger nd))) 1 (cu, nd) = Some (cu1, nd1)
    \<and> sync_page sample_prims sample_serde (\<lambda>_. 1000050) (\<lambda>_. True) [branch_record] (cu1, nd1) = (False, 1, cu2, nd2)
    \<and> fst (elect sample_prims 3 (submit_local sample_miner_hex
         (sample_candidate_block\<lparr>cd_height := 3\<rparr>) rival_claim (nd_state nd2))) = Inr p
    \<and> \<not> is_ok (sync_check sample_prims 1000060 cu2 (nd_ledger nd2)
         (mined_record sample_prims 3 p 50 sample_result [] 0 0))"
proof -
  let ?st = "branch_applied crossed_node"
  let ?cd = "sample_candidate_block\<lparr>cd_height := 3\<rparr>"
  let ?p = "\<lparr>pc_claim = fork_claim, pc_btc_checkpoint = None, pc_transactions = []\<rparr>"
  obtain nd1 where rb: "roll_back sample_prims sample_serde True (Some (lg_csv (nd_ledger (snd ?st)))) 1 (fst ?st, snd ?st) = Some (sample_tip, nd1)"
    "nd_ledger nd1 = base_ledger\<lparr>lg_csv := lg_csv (nd_ledger (snd ?st))\<rparr>"
    unfolding prod.collapse by (rule branch_undone [of crossed_node]) (simp_all add: crossed_node_def base_node_def)
  let ?st2 = "branch_applied nd1"
  have page: "sync_page sample_prims sample_serde (\<lambda>_. 1000050) (\<lambda>_. True) [branch_record] (sample_tip, nd1) = (False, 1, fst ?st2, snd ?st2)"
    unfolding prod.collapse by (rule branch_page [OF rb(2)])
  have cu: "cu_height (fst ?st) = 2" "cu_tip_hash (fst ?st2) = header_hash sample_prims branch_header"
    by (simp_all add: branch_record_sel advance_cursor_def Let_def claim_block_hash_def)
  have pend: "pending_at (nd_state (snd ?st)) (cu_height (fst ?st) + 1) = [(''ab'', ?p)]"
    unfolding cu(1) using sync_apply_pending [of branch_record 3 sample_prims sample_serde True "pc_claim branch_claim" "[]" "(sample_tip, crossed_node)"]
    by (simp add: branch_record_sel crossed_node_def pending_at_def hm_get_or_def)
  have mh: "''ab'' \<noteq> sample_miner_hex"
    by code_simp
  have "pending_is_better sample_prims ?p (local_pending ?cd rival_claim)"
    using fork_claim_better by (simp add: pending_is_better_def local_pending_def)
  moreover have z: "zeros 32 ! 0 = 0" and le: "le_nat 2 190 = [190, 0]" by code_simp+
  have "header_hash sample_prims branch_header ! 0 \<noteq> 0"
    by (simp add: sample_header_hash [OF branch_header_wf]) (simp add: le)
  then have "h_prev_hash (sc_header (pc_claim ?p)) \<noteq> cu_tip_hash (fst ?st2)"
    unfolding cu(2) using z by (auto simp: fork_claim_sel)
  ultimately have "fst (elect sample_prims (cd_height ?cd) (submit_local sample_miner_hex ?cd rival_claim (nd_state (snd ?st2)))) = Inr ?p
    \<and> \<not> is_ok (sync_check sample_prims 1000060 (fst ?st2) (nd_ledger (snd ?st2)) (mined_record sample_prims (cd_height ?cd) ?p 50 sample_result [] 0 0))"
    using stale_claim_wins_after_reorg [OF sample_hex_ok rb(1) page _ _ pend, of sample_miner_hex ?cd rival_claim] cu(1) mh by simp
  with rb page pend cu(1) show ?thesis
    by (intro exI [of _ "fst ?st"] exI [of _ "snd ?st"] exI [of _ sample_tip] exI [of _ nd1] exI [of _ "fst ?st2"] exI [of _ "snd ?st2"] exI [of _ ?p])
      (simp del: sync_apply_sel)
qed

theorem full_node_in_step_witness:
  "\<exists>cu nd. reconcile_fork sample_prims sample_serde (\<lambda>_. 1000050) (\<lambda>_. True) True None
      (\<lambda>_. Some \<lparr>ps_addr = (), ps_height = 2, ps_genesis_hash = replicate 32 7, ps_chain_work = 1\<rparr>)
      (\<lambda>_ from_height _. Some (if from_height = 1 then [base_record] else [branch_record])) [()] (sample_tip, base_node)
    = Some (1, cu, nd) \<and> cu_height cu = 2 \<and> tracks cu nd"
proof -
  let ?st = "branch_applied base_node"
  let ?fetch = "\<lambda>from_height _. Some (if from_height = 1 then [base_record] else [branch_record])"
  let ?sy = "sample_system\<lparr>sy_cursor := sample_tip, sy_node := base_node\<rparr>"
  have hex: "hex_to_32 sample_prims (sample_hex (replicate 32 7)) = Some (replicate 32 7)"
    using hex_to_32_encode [OF sample_hex_ok, of "replicate 32 7"] by simp
  have b: "br_height base_record = 1" "br_block_hash base_record = sample_hex (replicate 32 7)"
    by (simp_all add: base_record_def sample_record_def)
  have "block_hash_at (nd_store base_node) 1 = Some (br_block_hash base_record)"
    by (simp add: base_node_def block_hash_at_def insert_block_def store_open_def Let_def b)
  then have probe: "probe_fork sample_prims (nd_store base_node) ?fetch 0 1 = Some 1"
    by (subst probe_fork.simps) (simp add: peer_hash_at_def local_hash_at_def b hex)
  have l: "nd_ledger base_node = base_ledger\<lparr>lg_csv := lg_csv base_ledger\<rparr>" "ns_genesis_hash (nd_state base_node) = replicate 32 7"
    by (simp_all add: base_node_def sample_state_def)
  have fwd: "sync_forward sample_prims sample_serde (\<lambda>_. 1000050) (\<lambda>_. True) ?fetch 2 (sample_tip, base_node) = Some (1, ?st)"
  proof -
    have "sync_forward sample_prims sample_serde (\<lambda>_. 1000050) (\<lambda>_. True) ?fetch 2 ?st = Some (0, ?st)"
      by (subst sync_forward.simps) (simp add: branch_record_sel)
    moreover have "\<not> (2 :: u64) \<le> 1" by (simp add: word_le_nat_alt)
    ultimately show ?thesis
      by (subst sync_forward.simps) (simp add: branch_page [OF l(1)] del: sync_page.simps sync_apply_sel)
  qed
  have t: "tracks sample_tip base_node"
    by (simp add: tracks_def Let_def base_node_def sample_tip_def sample_state_def initial_state_def)
  have r: "reconcile_fork sample_prims sample_serde (\<lambda>_. 1000050) (\<lambda>_. True) True None
      (\<lambda>_. Some \<lparr>ps_addr = (), ps_height = 2, ps_genesis_hash = replicate 32 7, ps_chain_work = 1\<rparr>)
      (\<lambda>_. ?fetch) [()] (sample_tip, base_node) = Some (1, ?st)"
  proof -
    have w: "cu_work sample_tip = 0" "sat_sub 1 MAX_AUTO_REORG_DEPTH = 0"
      by (simp_all add: sample_tip_def sat_sub_def MAX_AUTO_REORG_DEPTH_def EPOCH_SIZE_def word_le_nat_alt)
    show ?thesis
      using probe fwd by (simp add: reconcile_fork_def best_peer_by_work_def select_best_peer_def List.map_filter_def l(2) w)
        (simp add: reconcile_with_def Let_def w)
  qed
  obtain cu nd where st: "?st = (cu, nd)" by (cases ?st)
  have "cu_height cu = 2" using arg_cong [OF st, of fst] by (auto simp: branch_record_sel)
  with full_node_in_step [OF full_begin [of sample_mr ?sy], of "\<lambda>_. 1000050" "\<lambda>_. True" True None _ _ "[()]" 1 cu nd] t r st
  show ?thesis
    by (simp add: sample_mr_def sample_system_def running_def)
qed

theorem abandoned_block_panics_witness:
  "\<exists>cu nd rf cu' nd'. commit sample_prims sample_serde sample_codec True True 9 sample_candidate_block sample_result [] branch_claim
      (sample_tip, base_node, None) = (Inr (), cu, nd, rf)
    \<and> roll_back sample_prims sample_serde True (Some (lg_csv (nd_ledger nd))) 1 (cu, nd) = Some (cu', nd') \<and> cu_height cu' = 1
    \<and> fst (commit sample_prims sample_serde sample_codec True True 9 sample_candidate_block sample_result [] branch_claim
        (cu', nd', rf)) = Inl PanicNullifier"
proof -
  let ?run = "commit sample_prims sample_serde sample_codec True True 9 sample_candidate_block sample_result [] branch_claim
      (sample_tip, base_node, None)"
  obtain cu nd rf where run: "?run = (Inr (), cu, nd, rf)"
    using commit_result [of sample_prims sample_serde sample_codec True True 9 sample_candidate_block sample_result "[]" branch_claim
      sample_tip base_node None] by (cases ?run) (simp add: base_node_def sample_state_def initial_state_def)
  have "hash_fresh (mined_record sample_prims 2 branch_claim reward result lh tip work) (nd_store base_node)" for reward result lh tip work
    using branch_fresh by (simp add: fresh_branch_def hash_fresh_def branch_record_def mined_record_def Let_def)
  then have "store_get sample_serde (nd_store nd) 1 = store_get sample_serde (nd_store base_node) 1"
    using commit_store [of sample_prims sample_serde sample_codec True True 9 sample_candidate_block sample_result "[]" branch_claim
      sample_tip base_node None] run
    by (simp add: sample_candidate_block_def store_get_insert_other)
  also have "\<dots> = Inr (Some (as_stored base_record))"
    using base_anchored by (simp add: anchored_def store_get_lookup base_lookup)
  finally have g: "store_get sample_serde (nd_store nd) 1 = Inr (Some (as_stored base_record))" .
  have hex: "hex_to_32 sample_prims (sample_hex h) = Some h" if "length h = 32" for h
    using hex_to_32_encode [OF sample_hex_ok that] by simp
  have b: "br_block_hash base_record = sample_hex (replicate 32 7)" "br_btc_seed base_record = sample_hex (zeros 32)"
    by (simp_all add: base_record_def)
  obtain cu' nd' where rb: "roll_back sample_prims sample_serde True (Some (lg_csv (nd_ledger nd))) 1 (cu, nd) = Some (cu', nd')"
    using g by (simp add: roll_back_def Let_def case_prod_unfold fork_tip_def fork_seed_def governing_checkpoint_height_def hex as_stored_def b
      ledger_open_scoped_def open_inner_def)
  let ?sy = "sample_system\<lparr>sy_cursor := cu, sy_node := nd, sy_file := rf\<rparr>"
  have "full_reach sample_mr ?sy (?sy\<lparr>sy_cursor := cu', sy_node := nd'\<rparr>)"
    using full_sync [OF full_begin rolled [of ?sy sample_mr True "Some (lg_csv (nd_ledger nd))" 1 cu' nd']] rb
    by (simp add: sample_mr_def sample_system_def)
  from abandoned_block_panics [OF _ this, where cd = sample_candidate_block and cd' = sample_candidate_block and w = branch_claim] run
  have "fst (commit sample_prims sample_serde sample_codec True True 9 sample_candidate_block sample_result [] branch_claim
        (cu', nd', rf)) = Inl PanicNullifier"
    by (simp add: sample_mr_def sample_system_def running_def)
  with run rb roll_back_sel(1) [OF rb] show ?thesis by blast
qed

end
