(* ===== verification/Http_Router.thy ===== *)
theory Http_Router
  imports Http_Api Rate_Limit
begin

text \<open>
  The server of the node (\<^verbatim>\<open>main\<close>, \<^verbatim>\<open>node/src/main.rs\<close>): the table of routes, the layers around the
  endpoints that change state, in the order in which they are applied, and the dispatch to the handlers of
  \<open>Http_Api\<close>. A path is the list of its segments. The decoding of JSON bodies is a parameter that gives a value
  or the status of the refusal. Cross-origin headers and the answer to a preflight request are not modelled.
\<close>

section \<open>Routes\<close>

definition MAX_BODY_BYTES :: nat where "MAX_BODY_BYTES = 64 * 1024"

datatype http_method = GET | POST | OTHER_METHOD

datatype open_endpoint = EpStatus | EpLatest | EpBlocks | EpHeaders | EpSupply | EpPeers | EpBlock string
  | EpRandomnessLatest | EpRandomness string | EpBalance string

datatype mutating_endpoint = EpSubmitClaim | EpSubmitTransaction | EpWalletSend | EpMessage | EpHello | EpConnect

text \<open>A path without captures goes before one with captures, as \<^verbatim>\<open>axum\<close> documents.\<close>

fun open_route :: "string list \<Rightarrow> open_endpoint option" where
  "open_route [] = Some EpStatus"
| "open_route [a, b] =
     (if a = ''chain'' \<and> b = ''status'' then Some EpStatus
      else if a = ''chain'' \<and> b = ''latest'' then Some EpLatest
      else if a = ''chain'' \<and> b = ''blocks'' then Some EpBlocks
      else if a = ''chain'' \<and> b = ''headers'' then Some EpHeaders
      else if a = ''chain'' \<and> b = ''supply'' then Some EpSupply
      else if a = ''p2p'' \<and> b = ''peers'' then Some EpPeers
      else if a = ''block'' then Some (EpBlock b)
      else if a = ''randomness'' \<and> b = ''latest'' then Some EpRandomnessLatest
      else if a = ''randomness'' then Some (EpRandomness b)
      else None)"
| "open_route [a, b, c] = (if a = ''wallet'' \<and> c = ''balance'' then Some (EpBalance b) else None)"
| "open_route _ = None"

fun mutating_route :: "string list \<Rightarrow> mutating_endpoint option" where
  "mutating_route [a, b] =
     (if a = ''chain'' \<and> b = ''submit'' then Some EpSubmitClaim
      else if a = ''tx'' \<and> b = ''submit'' then Some EpSubmitTransaction
      else if a = ''wallet'' \<and> b = ''send'' then Some EpWalletSend
      else if a = ''p2p'' \<and> b = ''message'' then Some EpMessage
      else if a = ''p2p'' \<and> b = ''hello'' then Some EpHello
      else if a = ''p2p'' \<and> b = ''connect'' then Some EpConnect
      else None)"
| "mutating_route _ = None"

section \<open>Requests and what surrounds the handlers\<close>

text \<open>\<open>rq_length\<close> is the \<^verbatim>\<open>Content-Length\<close> of the request, if it has one; the query holds the numbers of
  \<^verbatim>\<open>BlocksQuery\<close>.\<close>

record request =
  rq_method :: http_method
  rq_path :: "string list"
  rq_query :: "u64 option \<times> u64 option"
  rq_length :: "nat option"
  rq_body :: string
  rq_addr :: socket_addr

record decoders =
  de_claim :: "string \<Rightarrow> status_code + claim_submission"
  de_payload :: "string \<Rightarrow> status_code + tx_payload"
  de_send :: "string \<Rightarrow> status_code + local_send"
  de_message :: "string \<Rightarrow> status_code + bina_message"
  de_hello :: "string \<Rightarrow> status_code + hello_envelope"
  de_connect :: "string \<Rightarrow> status_code + string"

text \<open>What the handlers read besides the state: clocks, the environment, the key of the miner, the answers of a peer.\<close>

record web_env =
  we_prims :: prims
  we_serde :: serde
  we_now :: nat
  we_instant_ms :: u64
  we_now_ms :: u64
  we_now_secs :: u64
  we_decoders :: decoders
  we_parse_addr :: "string \<Rightarrow> socket_addr option"
  we_show_addr :: "socket_addr \<Rightarrow> string"
  we_env :: "string \<Rightarrow> string option"
  we_wallet :: "wallet_panic + wallet_keypair"
  we_random :: nat
  we_client_ok :: bool
  we_hello_answer :: "bool option"
  we_peers_answer :: "string list option"

text \<open>The body limit: a declared length above it is refused at once, and a longer body without a declared length when
  the handler reads it, after the rate limiter has counted the request.\<close>

definition body_limit :: "'r \<Rightarrow> request \<Rightarrow> ('s \<Rightarrow> 'r \<times> 's) \<Rightarrow> (('s \<Rightarrow> 'r \<times> 's) \<Rightarrow> 'l \<times> 's \<Rightarrow> 'r \<times> 'l \<times> 's) \<Rightarrow> 'l \<times> 's
    \<Rightarrow> 'r \<times> 'l \<times> 's" where
  "body_limit too_large rq handler inner st =
     (if (case rq_length rq of None \<Rightarrow> False | Some n \<Rightarrow> n > MAX_BODY_BYTES) then (too_large, st)
      else inner (\<lambda>s. if length (rq_body rq) > MAX_BODY_BYTES then (too_large, s) else handler s) st)"

definition mutating_layers :: "'r \<Rightarrow> 'r \<Rightarrow> nat \<Rightarrow> request \<Rightarrow> ('s \<Rightarrow> 'r \<times> 's) \<Rightarrow> buckets \<times> 's \<Rightarrow> 'r \<times> buckets \<times> 's" where
  "mutating_layers too_large too_many now rq handler =
     body_limit too_large rq handler (rate_limit_middleware too_many now (rq_addr rq))"

section \<open>Dispatch\<close>

datatype open_answer =
    AStatus status_view
  | ABlock block_record
  | ABlocks "block_record list"
  | ARandomness randomness_view
  | ABalance "u64 \<times> u64"
  | ASupply supply_view
  | APeers "string list"
  | ARefused status_code

definition open_answer_of :: "('a \<Rightarrow> open_answer) \<Rightarrow> status_code + 'a \<Rightarrow> open_answer" where
  "open_answer_of f r = (case r of Inl s \<Rightarrow> ARefused s | Inr a \<Rightarrow> f a)"

definition with_height :: "string \<Rightarrow> (u64 \<Rightarrow> open_answer) \<Rightarrow> open_answer" where
  "with_height s f = (case parse_u64 s of None \<Rightarrow> ARefused BAD_REQUEST | Some h \<Rightarrow> f h)"

fun run_open :: "web_env \<Rightarrow> open_endpoint \<Rightarrow> u64 option \<times> u64 option \<Rightarrow> gossip \<times> node \<Rightarrow> open_answer" where
  "run_open E EpStatus q (go, nd) = AStatus (handle_status (we_prims E) (we_serde E) (we_instant_ms E) (we_now_secs E) nd)"
| "run_open E EpLatest q (go, nd) = open_answer_of ABlock (handle_latest_block (we_serde E) nd)"
| "run_open E EpBlocks q (go, nd) = ABlocks (handle_blocks_recent (we_serde E) nd)"
| "run_open E EpHeaders q (go, nd) = ABlocks (handle_chain_headers (we_serde E) (fst q) (snd q) nd)"
| "run_open E EpSupply q (go, nd) = ASupply (handle_supply nd)"
| "run_open E EpPeers q (go, nd) = APeers (handle_get_peers (we_show_addr E) go)"
| "run_open E (EpBlock s) q (go, nd) = with_height s (\<lambda>h. open_answer_of ABlock (handle_block (we_serde E) h nd))"
| "run_open E EpRandomnessLatest q (go, nd) = open_answer_of ARandomness (handle_randomness_latest (we_serde E) nd)"
| "run_open E (EpRandomness s) q (go, nd) =
     with_height s (\<lambda>h. open_answer_of ARandomness (handle_randomness_at (we_serde E) h nd))"
| "run_open E (EpBalance a) q (go, nd) = ABalance (handle_wallet_balance a nd)"

text \<open>The answer of a mutating endpoint: its status, \<open>None\<close> when the handler panics and the connection is closed, and
  the messages sent to peers.\<close>

type_synonym web_answer = "status_code option \<times> sends"

definition answer_status :: "'r answer \<Rightarrow> status_code" where
  "answer_status a = (case a of Inl (s, _) \<Rightarrow> s | Inr _ \<Rightarrow> OK_200)"

definition decoded :: "status_code + 'a \<Rightarrow> ('a \<Rightarrow> gossip \<times> node \<Rightarrow> web_answer \<times> gossip \<times> node) \<Rightarrow> gossip \<times> node
    \<Rightarrow> web_answer \<times> gossip \<times> node" where
  "decoded d f st = (case d of Inl s \<Rightarrow> ((Some s, []), st) | Inr a \<Rightarrow> f a st)"

fun run_mutating :: "web_env \<Rightarrow> mutating_endpoint \<Rightarrow> request \<Rightarrow> gossip \<times> node \<Rightarrow> web_answer \<times> gossip \<times> node" where
  "run_mutating E EpSubmitClaim rq = decoded (de_claim (we_decoders E) (rq_body rq)) (\<lambda>sub st.
     let (a, sent, st') = handle_submit_claim (we_prims E) (we_now_ms E) (we_now_secs E) sub st in
     ((Some (answer_status a), sent), st'))"
| "run_mutating E EpSubmitTransaction rq = decoded (de_payload (we_decoders E) (rq_body rq)) (\<lambda>payload (go, nd).
     let (a, nd') = handle_submit_transaction (we_prims E) (we_serde E) payload nd in
     ((Some (answer_status a), []), go, nd'))"
| "run_mutating E EpWalletSend rq = decoded (de_send (we_decoders E) (rq_body rq)) (\<lambda>payload (go, nd).
     let (a, nd') = handle_wallet_send (we_prims E) (we_serde E) (we_wallet E) (we_random E) payload nd in
     ((case a of Inl _ \<Rightarrow> None | Inr r \<Rightarrow> Some (answer_status r), []), go, nd'))"
| "run_mutating E EpMessage rq = decoded (de_message (we_decoders E) (rq_body rq)) (\<lambda>message st.
     let (s, sent, st') = handle_p2p_message (we_prims E) (we_parse_addr E) (we_now_ms E) (we_now_secs E) message
           (rq_addr rq) st in
     ((Some s, sent), st'))"
| "run_mutating E EpHello rq = decoded (de_hello (we_decoders E) (rq_body rq)) (\<lambda>hello (go, nd).
     let (s, go') = handle_peer_hello (we_parse_addr E) hello go in ((Some s, []), go', nd))"
| "run_mutating E EpConnect rq = decoded (de_connect (we_decoders E) (rq_body rq)) (\<lambda>address (go, nd).
     let (a, _, go') = handle_peer_connect (we_prims E) (we_parse_addr E) (we_show_addr E) (we_env E) (we_client_ok E)
           (we_hello_answer E) (we_peers_answer E) address nd go in
     ((Some (answer_status a), []), go', nd))"

text \<open>A request to an endpoint that changes state passes the layers even with another method.\<close>

definition serve_mutating :: "web_env \<Rightarrow> mutating_endpoint \<Rightarrow> request \<Rightarrow> buckets \<times> gossip \<times> node
    \<Rightarrow> web_answer \<times> buckets \<times> gossip \<times> node" where
  "serve_mutating E e rq =
     mutating_layers (Some PAYLOAD_TOO_LARGE, []) (Some TOO_MANY_REQUESTS, []) (we_now E) rq
       (if rq_method rq = POST then run_mutating E e rq else (\<lambda>st. ((Some METHOD_NOT_ALLOWED, []), st)))"

definition serve_request :: "web_env \<Rightarrow> request \<Rightarrow> buckets \<times> gossip \<times> node
    \<Rightarrow> (open_answer + web_answer) \<times> buckets \<times> gossip \<times> node" where
  "serve_request E rq = (\<lambda>(b, st).
     case mutating_route (rq_path rq) of
       Some e \<Rightarrow> let (a, b', st') = serve_mutating E e rq (b, st) in (Inr a, b', st')
     | None \<Rightarrow>
         (Inl (case open_route (rq_path rq) of
                 None \<Rightarrow> ARefused NOT_FOUND
               | Some e \<Rightarrow> if rq_method rq = GET then run_open E e (rq_query rq) st else ARefused METHOD_NOT_ALLOWED), b, st))"

section \<open>The services a node starts with\<close>

definition start_gossip :: "bool \<Rightarrow> (string \<Rightarrow> socket_addr option) \<Rightarrow> (string \<Rightarrow> string option) \<Rightarrow> gossip" where
  "start_gossip debug_assertions parse_addr env =
     gossip_new (fold (\<lambda>seed peers. snd (peers_add seed peers)) (parse_seed_peers parse_addr env)
       (peers_new debug_assertions MAX_PEERS)) NETWORK_ID"

definition p2p_listen_addr :: "(string \<Rightarrow> string option) \<Rightarrow> string" where
  "p2p_listen_addr env =
     (case env ''BINA_P2P_LISTEN_ADDR'' of
        Some a \<Rightarrow> a | None \<Rightarrow> ''127.0.0.1:'' @ show_nat (unat (http_port env)))"

section \<open>What the layers guarantee\<close>

lemma body_limit_declared [simp]:
  "rq_length rq = Some n \<Longrightarrow> n > MAX_BODY_BYTES \<Longrightarrow> body_limit too_large rq handler inner st = (too_large, st)"
  by (simp add: body_limit_def)

lemma mutating_layers_changes:
  assumes "mutating_layers too_large too_many now rq handler (b, st) = (a, b', st')" "st' \<noteq> st"
  shows "length (rq_body rq) \<le> MAX_BODY_BYTES" "fst (limiter_allow now (sock_ip (rq_addr rq)) b)" "(a, st') = handler st"
  using assms
  by (auto simp: mutating_layers_def body_limit_def rate_limit_middleware_def Let_def split: if_splits option.splits prod.splits)

lemma state_changes:
  assumes "serve_request E rq (b, go, nd) = (answer, b', go', nd')" "(go', nd') \<noteq> (go, nd)"
  shows "rq_method rq = POST \<and> length (rq_body rq) \<le> MAX_BODY_BYTES \<and> fst (limiter_allow (we_now E) (sock_ip (rq_addr rq)) b)
    \<and> (\<exists>e a. mutating_route (rq_path rq) = Some e \<and> answer = Inr a \<and> run_mutating E e rq (go, nd) = (a, go', nd'))"
proof -
  obtain e a where e: "mutating_route (rq_path rq) = Some e" "answer = Inr a"
    "serve_mutating E e rq (b, go, nd) = (a, b', go', nd')"
    using assms by (auto simp: serve_request_def split: option.splits prod.splits)
  note c = mutating_layers_changes [OF e(3) [unfolded serve_mutating_def] assms(2)]
  from assms(2) c(3) have "rq_method rq = POST" "run_mutating E e rq (go, nd) = (a, go', nd')"
    by (auto split: if_splits)
  with c(1,2) e(1,2) show ?thesis by simp
qed

text \<open>The bytes of the keys and signatures of verified transfers.\<close>

lemma verified_bytes:
  assumes "stx_verify P t = Inr ()"
  shows "96 \<le> length (stx_public_key t) + length (stx_signature t)"
proof (cases "length (stx_public_key t) = 32")
  case True
  then show ?thesis using assms by (simp add: stx_verify_characterised)
next
  case False
  then obtain pk where "wpk_from_bytes P (stx_public_key t) = Inr pk"
    using assms by (auto simp: stx_verify_characterised)
  then show ?thesis by (auto simp: wpk_from_bytes_def falcon_sizes split: if_splits)
qed

definition payload_bytes :: "signed_transaction list \<Rightarrow> nat" where
  "payload_bytes txs = (\<Sum>t\<leftarrow>txs. length (stx_public_key t) + length (stx_signature t))"

lemma payload_bytes_ge: "\<forall>t \<in> set txs. stx_verify P t = Inr () \<Longrightarrow> 96 * length txs \<le> payload_bytes txs"
  by (induction txs) (auto simp: payload_bytes_def dest!: verified_bytes)

section \<open>Properties\<close>

text \<open>C38: A request changes the gossip state or the node only if it is a \<^verbatim>\<open>POST\<close> to one of the six mutating
  paths with a body of at most 64 KB from a source within its budget; a request with a larger declared body is not
  even counted, and a request to any other path changes nothing at all.\<close>

theorem requests_change_state_within_limits:
  assumes "serve_request E rq (b, go, nd) = (answer, b', go', nd')"
  shows "((go', nd') \<noteq> (go, nd) \<longrightarrow> rq_method rq = POST \<and> length (rq_body rq) \<le> MAX_BODY_BYTES
      \<and> fst (limiter_allow (we_now E) (sock_ip (rq_addr rq)) b)
      \<and> (\<exists>e a. mutating_route (rq_path rq) = Some e \<and> answer = Inr a \<and> run_mutating E e rq (go, nd) = (a, go', nd')))
    \<and> ((\<exists>n. rq_length rq = Some n \<and> n > MAX_BODY_BYTES) \<or> mutating_route (rq_path rq) = None \<longrightarrow>
      (b', go', nd') = (b, go, nd))"
  using assms state_changes [OF assms]
  by (auto simp: serve_request_def serve_mutating_def mutating_layers_def Let_def split: option.splits prod.splits)

text \<open>C39: A block may carry 2000 transfers, but a claim with 342 of them is too large for its own gossip: its message
  is refused with \<^verbatim>\<open>413\<close> by every node, so no peer sees the claim as a candidate. \<open>encode\<close> is the JSON text
  of a message, which writes each byte of a key or a signature as a number and a separator.\<close>

theorem large_claims_cannot_be_gossiped:
  assumes "\<forall>env. 2 * payload_bytes (ev_transactions env) \<le> length (encode (BlockClaim env))"
    and "\<forall>t \<in> set txs. stx_verify P t = Inr ()" "342 \<le> length txs"
    and "rq_path rq = [''p2p'', ''message'']" "rq_length rq = Some (length (rq_body rq))"
    and "rq_body rq = encode (BlockClaim (envelope_from_claim P now network ttl claim ckpt txs))"
  shows "serve_request E rq st = (Inr (Some PAYLOAD_TOO_LARGE, []), st) \<and> 342 \<le> MAX_TXS_PER_BLOCK"
proof -
  have "2 * (96 * length txs) \<le> length (rq_body rq)"
    using payload_bytes_ge [OF assms(2)] assms(1) [rule_format, of "envelope_from_claim P now network ttl claim ckpt txs"] assms(6)
    by simp
  with assms(3) have "length (rq_body rq) > MAX_BODY_BYTES"
    by (simp add: MAX_BODY_BYTES_def)
  with assms(4,5) show ?thesis
    by (cases st) (simp add: serve_request_def serve_mutating_def mutating_layers_def MAX_TXS_PER_BLOCK_def)
qed

section \<open>Samples\<close>

definition sample_hello :: hello_envelope where
  "sample_hello = \<lparr>hl_network = ''bina-l1'', hl_version = 1, hl_best_height = 0, hl_best_hash = [], hl_listen_addr = ''seed''\<rparr>"

definition sample_web :: web_env where
  "sample_web = \<lparr>we_prims = sample_prims, we_serde = sample_serde, we_now = 0, we_instant_ms = 0, we_now_ms = 1000050,
     we_now_secs = 100, we_decoders = \<lparr>de_claim = \<lambda>_. Inl BAD_REQUEST, de_payload = \<lambda>_. Inl BAD_REQUEST,
       de_send = \<lambda>_. Inl BAD_REQUEST, de_message = \<lambda>_. Inl BAD_REQUEST,
       de_hello = \<lambda>s. if s = ''hello'' then Inr sample_hello else Inl BAD_REQUEST, de_connect = \<lambda>_. Inl BAD_REQUEST\<rparr>,
     we_parse_addr = \<lambda>s. if s = ''seed'' then Some (SocketV4 (ipv4 144 126 157 197) 8181) else None,
     we_show_addr = \<lambda>_. [], we_env = \<lambda>_. None, we_wallet = Inl WalletMissing, we_random = 0, we_client_ok = True,
     we_hello_answer = None, we_peers_answer = None\<rparr>"

definition sample_request :: "string list \<Rightarrow> string \<Rightarrow> request" where
  "sample_request path body = \<lparr>rq_method = POST, rq_path = path, rq_query = (None, None), rq_length = Some (length body),
     rq_body = body, rq_addr = SocketV4 7 9\<rparr>"

text \<open>A hello of a routable peer enters the peer list; the property applies to it.\<close>

theorem requests_change_state_within_limits_witness:
  "\<exists>answer b' go' nd'. serve_request sample_web (sample_request [''p2p'', ''hello''] ''hello'') (limiter_new, sample_gossip, sample_node)
      = (answer, b', go', nd')
    \<and> go' \<noteq> sample_gossip \<and> fst (limiter_allow 0 (IpV4 7) limiter_new)"
proof -
  let ?rq = "sample_request [''p2p'', ''hello''] ''hello''"
  obtain answer b' go' nd' where r: "serve_request sample_web ?rq (limiter_new, sample_gossip, sample_node) = (answer, b', go', nd')"
    using prod_cases4 by metis
  moreover have "pl_peers (go_peers go') = [SocketV4 (ipv4 144 126 157 197) 8181]"
  proof -
    have "is_allowed_addr (peers_new False 128) (SocketV4 (ipv4 144 126 157 197) 8181)"
      by (subst allowed_v4_iff) (simp_all add: peers_new_def sample_routable)
    then have "peers_add (SocketV4 (ipv4 144 126 157 197) 8181) (peers_new False 128)
        = (True, (peers_new False 128)\<lparr>pl_peers := [SocketV4 (ipv4 144 126 157 197) 8181]\<rparr>)"
      by (simp add: peers_add_def peers_contains_def) (simp add: peers_new_def)
    then show ?thesis
      using r by (auto simp: serve_request_def serve_mutating_def mutating_layers_def body_limit_def MAX_BODY_BYTES_def
          sample_request_def rate_limit_middleware_def limiter_allow_def limiter_new_def purge_def RATE_LIMIT_WINDOW_def RATE_LIMIT_MAX_REQUESTS_def word_le_nat_alt Let_def
          decoded_def sample_web_def handle_peer_hello_def sample_hello_def sample_gossip_def gossip_new_def)
  qed
  then have "go' \<noteq> sample_gossip"
    by (auto simp: sample_gossip_def gossip_new_def peers_new_def)
  ultimately show ?thesis
    using requests_change_state_within_limits [OF r] by (simp add: sample_web_def sample_request_def)
qed

theorem large_claims_cannot_be_gossiped_witness:
  "serve_request sample_web (sample_request [''p2p'', ''message''] (replicate (2 * payload_bytes (replicate 342 sample_signed)) (CHR ''0'')))
     (limiter_new, sample_gossip, sample_node) = (Inr (Some PAYLOAD_TOO_LARGE, []), limiter_new, sample_gossip, sample_node)"
proof -
  let ?encode = "\<lambda>m. case m of BlockClaim env \<Rightarrow> replicate (2 * payload_bytes (ev_transactions env)) (CHR ''0'') | _ \<Rightarrow> []"
  have "\<forall>t \<in> set (replicate 342 sample_signed). stx_verify sample_prims t = Inr ()"
    using sample_signed_sel(4) by (auto simp: is_ok_iff)
  from large_claims_cannot_be_gossiped [of ?encode, OF _ this, where rq = "sample_request [''p2p'', ''message''] (?encode (BlockClaim
      (envelope_from_claim sample_prims 0 ''bina-l1'' 4 sample_next_claim None (replicate 342 sample_signed))))"]
  show ?thesis
    by (simp add: sample_request_def envelope_from_claim_def Let_def)
qed

end
