(* ===== verification/Pinned_Height.thy ===== *)
theory Pinned_Height
  imports Mined_Sync Live_Entropy
begin

text \<open>
  The Bitcoin height pinned by the last checkpoint block, which the mining loop keeps only in the shared state
  (\<^verbatim>\<open>btc_checkpoint_tip_height_now\<close>) while the synchronisation writes the loop's own copy there
  (\<^verbatim>\<open>node/src/main.rs\<close>): the composition of \<open>commit\<close> and \<open>sync_apply\<close>.
\<close>

lemma commit_pins:
  assumes "commit P J K lio fio secs cd result lh w (cu, nd, rf) = (Inr (), cu', nd', rf')"
    and "is_checkpoint_height (cd_height cd)" "pc_btc_checkpoint w = Some proof"
  shows "ns_btc_checkpoint_tip_height (nd_state nd') = cp_tip_height proof" "cu_ckpt_tip cu' = cu_ckpt_tip cu"
proof -
  show "ns_btc_checkpoint_tip_height (nd_state nd') = cp_tip_height proof"
    using assms by (auto simp: commit_def Let_def commit_state_def pinned_tip_def split: sum.splits prod.splits)
  have "cu' = commit_cursor P (cd_height cd) w cu"
    using commit_cursor_of [of P J K lio fio secs cd result lh w cu nd rf] assms(1) by simp
  then show "cu_ckpt_tip cu' = cu_ckpt_tip cu" by (simp add: commit_cursor_def Let_def)
qed

lemma sync_pins:
  "\<not> is_checkpoint_height (br_height r) \<Longrightarrow>
    ns_btc_checkpoint_tip_height (nd_state (snd (sync_apply P J io r claim applied (cu, nd)))) = cu_ckpt_tip cu"
  by (simp add: sync_apply_def sync_state_def advance_cursor_def Let_def)


section \<open>A sample\<close>

definition pinning_proof :: btc_checkpoint_proof where
  "pinning_proof = honest_proof\<lparr>cp_tip_height := 900000\<rparr>"

definition pinning_block :: pending_claim where
  "pinning_block = \<lparr>pc_claim = mined_by_sample (checkpoint_header pinning_proof), pc_btc_checkpoint = Some pinning_proof,
     pc_transactions = []\<rparr>"

definition pinning_run :: "cursor \<times> node \<times> string option" where
  "pinning_run = snd (commit sample_prims sample_serde sample_codec True True 9 (sample_candidate_block\<lparr>cd_height := 21\<rparr>) sample_result []
     pinning_block (sample_tip\<lparr>cu_height := 20\<rparr>, sample_node, None))"

definition next_header :: l1_header where
  "next_header = sample_next_header\<lparr>h_height := 22, h_prev_hash := cu_tip_hash (fst pinning_run),
     h_bitcoin_seed_hash := cu_btc_seed (fst pinning_run), h_timestamp := 1000041,
     h_state_root := snd (simulate_block_execution sample_prims (nd_ledger (fst (snd pinning_run))) [] sample_miner_hex 50)\<rparr>"

definition next_block :: pending_claim where
  "next_block = \<lparr>pc_claim = mined_by_sample next_header, pc_btc_checkpoint = None, pc_transactions = []\<rparr>"

lemma pinning_header: "sc_header (pc_claim pinning_block) = checkpoint_header pinning_proof"
  by (simp add: pinning_block_def) (simp add: checkpoint_header_def sample_next_header_def)

lemma pinning_cursor: "fst pinning_run = commit_cursor sample_prims 21 pinning_block (sample_tip\<lparr>cu_height := 20\<rparr>)"
  by (simp add: pinning_run_def commit_cursor_of)

lemma pinning_cursor_sel: "cu_height (fst pinning_run) = 21" "cu_last_ts (fst pinning_run) = 1000040"
  "da_current_bits (cu_adjuster (fst pinning_run)) = 0" "length (cu_tip_hash (fst pinning_run)) = 32"
  "length (cu_btc_seed (fst pinning_run)) = 32"
  by (simp_all add: pinning_cursor commit_cursor_def Let_def pinning_header claim_block_hash_def sample_hash_ok)
    (simp_all add: pinning_block_def checkpoint_header_def sample_next_header_def record_block_def EPOCH_SIZE_def word_mod_def sample_tip_def
      checkpoint_seed_hash_def sample_hash_ok)

lemma next_header_sel: "sc_header (pc_claim next_block) = next_header"
  by (simp add: next_block_def) (simp add: next_header_def sample_next_header_def)

lemma next_extends: "claim_extends sample_prims (fst pinning_run) (nd_ledger (fst (snd pinning_run))) 50 next_block"
proof -
  have "length (fst (simulate_block_execution sample_prims l [] m r)) = length ([] :: signed_transaction list)" for l m r
    by (simp add: fst_simulate)
  moreover have "claim_verify sample_prims (pc_claim next_block) = Inr ()"
    unfolding next_block_def pending_claim.select_convs
    by (rule mined_by_sample_verifies) (simp add: next_header_def sample_next_header_def)
  moreover have "claim_miner_address_hex sample_prims (pc_claim next_block) = sample_miner_hex"
    unfolding claim_miner_address_hex_def next_header_sel by (simp add: next_header_def sample_next_header_def sample_miner_hex_def)
  ultimately show ?thesis
    unfolding claim_extends_def next_header_sel
    by (simp add: prod_eq_iff merkle_root_def pinning_cursor_sel next_block_def) (simp add: next_header_def sample_next_header_def)
qed

lemma next_header_wf: "header_wf next_header"
proof -
  have "length (snd (simulate_block_execution sample_prims l [] m r)) = 32" for l m r
    by (simp add: simulate_block_execution_def state_root_with_overlay_def compute_state_root_def Let_def)
  then show ?thesis
    using sample_block_wf [of 1 50] pinning_cursor_sel(4,5)
    by (simp add: header_wf_def next_header_def sample_block_def)
qed


end
