(* ===== verification/Cpu.thy ===== *)
theory Cpu
  imports Text_Format Complex_Main
begin

text \<open>
  \<^verbatim>\<open>core/src/cpu.rs\<close>, a module the library does not export: identity of the processor, its temperature on each
  platform, and the masked identity for peers. What \<^verbatim>\<open>raw_cpuid\<close>, the files under \<^verbatim>\<open>/sys\<close>, the \<^verbatim>\<open>sensors\<close>
  command, WMI and the SMC answer are arguments; a temperature (\<^verbatim>\<open>f32\<close>) is an exact number. Strings are UTF-8
  bytes; the lower-case mapping is that of ASCII, in which the labels looked for are written. Warnings and logging are
  not modelled.
\<close>

section \<open>Text\<close>

fun contains :: "string \<Rightarrow> string \<Rightarrow> bool" where
  "contains sub [] \<longleftrightarrow> sub = []"
| "contains sub (c # s) \<longleftrightarrow> take (length sub) (c # s) = sub \<or> contains sub s"

fun before_sub :: "string \<Rightarrow> string \<Rightarrow> string" where
  "before_sub sub [] = []"
| "before_sub sub (c # s) = (if take (length sub) (c # s) = sub then [] else c # before_sub sub s)"

definition to_lower :: "string \<Rightarrow> string" where
  "to_lower = map (\<lambda>c. let n = of_char c :: nat in if 65 \<le> n \<and> n \<le> 90 then char_of (n + 32) else c)"

definition parse_u32 :: "string \<Rightarrow> u32 option" where
  "parse_u32 s = Option.bind (parse_u64 s) (\<lambda>w. if unat w < 2 ^ 32 then Some (ucast w) else None)"

text \<open>A loop that returns the first hit.\<close>

fun find_map :: "('a \<Rightarrow> 'b option) \<Rightarrow> 'a list \<Rightarrow> 'b option" where
  "find_map f [] = None"
| "find_map f (x # xs) = (case f x of None \<Rightarrow> find_map f xs | Some y \<Rightarrow> Some y)"

definition or_else :: "'a option \<Rightarrow> 'a option \<Rightarrow> 'a option" where
  "or_else a b = (case a of None \<Rightarrow> b | Some x \<Rightarrow> Some x)"

fun reduce_max :: "rat list \<Rightarrow> rat option" where
  "reduce_max [] = None"
| "reduce_max (x # xs) = Some (fold (\<lambda>b a. max a b) xs x)"

section \<open>Identity\<close>

record cpu_identity =
  id_vendor :: string
  id_brand :: string
  id_family :: u32
  id_model :: u32
  id_stepping :: u32
  id_signature :: u32
  id_features :: "string list"
  id_cores :: u32
  id_threads :: u32
  id_cache_l3_kb :: u32
  id_detection_us :: u64

definition telemetry_fingerprint :: "prims \<Rightarrow> cpu_identity \<Rightarrow> string" where
  "telemetry_fingerprint P c = hex_encode P (sha256 P (as_bytes (id_vendor c) @ as_bytes (id_brand c)
     @ le_bytes 4 (id_signature c) @ le_bytes 4 (id_cores c) @ le_bytes 4 (id_threads c) @ le_bytes 4 (id_cache_l3_kb c)
     @ concat (map as_bytes (id_features c))))"

definition recommended_workers :: "cpu_identity \<Rightarrow> nat" where
  "recommended_workers c = unat (max (id_cores c) 1)"

definition display_name :: "cpu_identity \<Rightarrow> string" where
  "display_name c = id_vendor c @ '' '' @ id_brand c"

text \<open>The answers of \<^verbatim>\<open>raw_cpuid\<close>; a flag is given by the name the code lists it under.\<close>

record feature_info =
  fi_base_family :: u32
  fi_base_model :: u32
  fi_ext_family :: u32
  fi_ext_model :: u32
  fi_stepping :: u32
  fi_flags :: "string \<Rightarrow> bool"

datatype topology_type = TopologyCore | TopologySMT | TopologyOther

record l3_cache =
  ca_level :: u8
  ca_associativity :: u64
  ca_partitions :: u64
  ca_line_size :: u64
  ca_sets :: u64

record cpuid =
  ci_vendor :: "string option"
  ci_brand :: "string option"
  ci_features :: "feature_info option"
  ci_extended :: "(string \<Rightarrow> bool) option"
  ci_topology :: "(topology_type \<times> u32) list option"
  ci_caches :: "l3_cache list option"

definition BASIC_FEATURES :: "string list" where
  "BASIC_FEATURES = [''fpu'', ''tsc'', ''msr'', ''apic'', ''cmov'', ''mmx'', ''sse'', ''sse2'', ''sse3'', ''pclmulqdq'',
     ''ssse3'', ''fma'', ''sse4.1'', ''sse4.2'', ''aesni'', ''avx'', ''rdrand'', ''htt'']"

definition EXTENDED_FEATURES :: "string list" where
  "EXTENDED_FEATURES = [''avx2'', ''sgx'', ''avx512f'', ''avx512dq'', ''avx512bw'', ''avx512vl'', ''rdpid'']"

definition collect_features :: "cpuid \<Rightarrow> string list" where
  "collect_features q =
     (case ci_features q of None \<Rightarrow> [] | Some fi \<Rightarrow> filter (fi_flags fi) BASIC_FEATURES)
     @ (case ci_extended q of None \<Rightarrow> [] | Some has \<Rightarrow> filter has EXTENDED_FEATURES)"

text \<open>Logical processors per core and per package, from the levels of the topology leaf.\<close>

definition topology_counts :: "(topology_type \<times> u32) list \<Rightarrow> u32 \<times> u32" where
  "topology_counts levels = fold (\<lambda>(t, n) (per_core, per_package).
     case t of TopologyCore \<Rightarrow> (per_core, n) | TopologySMT \<Rightarrow> (n, per_package) | TopologyOther \<Rightarrow> (per_core, per_package))
     levels (0, 0)"

definition topology_fallback :: "u32 \<Rightarrow> bool \<Rightarrow> u32 \<times> u32" where
  "topology_fallback logical has_htt = (if has_htt \<and> logical > 1 then (logical div 2, logical) else (logical, logical))"

definition detect_topology :: "u32 \<Rightarrow> cpuid \<Rightarrow> u32 \<times> u32" where
  "detect_topology logical q =
     (let fallback = topology_fallback logical (case ci_features q of None \<Rightarrow> False | Some fi \<Rightarrow> fi_flags fi ''htt'') in
      case ci_topology q of
        None \<Rightarrow> fallback
      | Some levels \<Rightarrow>
          let (per_core, per_package) = topology_counts levels; threads = max (max logical per_package) 1 in
          if per_package > 0 \<and> per_core > 0 then (min (max (per_package div per_core) 1) threads, threads)
          else if per_package > 0 then (min per_package threads, threads)
          else fallback)"

definition l3_kb :: "l3_cache list \<Rightarrow> u32" where
  "l3_kb caches = fold (\<lambda>c kb. if ca_level c = 3
     then kb + ucast (ca_associativity c * ca_partitions c * ca_line_size c * ca_sets c div 1024) else kb) caches 0"

definition effective_family :: "feature_info \<Rightarrow> u32" where
  "effective_family fi =
     (if fi_base_family fi = 0xF then fi_base_family fi + fi_ext_family fi else fi_base_family fi)"

definition effective_model :: "feature_info \<Rightarrow> u32" where
  "effective_model fi =
     (if fi_base_family fi = 0x6 \<or> fi_base_family fi = 0xF then push_bit 4 (fi_ext_model fi) OR fi_base_model fi
      else fi_base_model fi)"

text \<open>\<open>logical\<close> is \<^verbatim>\<open>available_parallelism\<close>, 1 when it fails.\<close>

definition detect_cpu :: "u32 \<Rightarrow> u64 \<Rightarrow> cpuid \<Rightarrow> cpu_identity" where
  "detect_cpu logical elapsed_us q =
     (let (cores, threads) = detect_topology logical q;
          known = (case ci_features q of
             None \<Rightarrow> (0, 0, 0, 0)
           | Some fi \<Rightarrow> (effective_family fi, effective_model fi, fi_stepping fi,
               push_bit 12 (effective_family fi) OR push_bit 4 (effective_model fi) OR fi_stepping fi)) in
      \<lparr>id_vendor = (case ci_vendor q of None \<Rightarrow> [] | Some v \<Rightarrow> v),
       id_brand = (case ci_brand q of None \<Rightarrow> [] | Some b \<Rightarrow> trim b),
       id_family = fst known, id_model = fst (snd known), id_stepping = fst (snd (snd known)),
       id_signature = snd (snd (snd known)), id_features = collect_features q, id_cores = cores, id_threads = threads,
       id_cache_l3_kb = (case ci_caches q of None \<Rightarrow> 0 | Some cs \<Rightarrow> l3_kb cs), id_detection_us = elapsed_us\<rparr>)"

datatype cpu_feature = SSE | SSE2 | SSE3 | SSSE3 | SSE41 | SSE42 | AVX | AVX2 | AVX512F | AVX512BW | FMA | AES | RDRAND
  | PCLMULQDQ | SGX

fun feature_tag :: "cpu_feature \<Rightarrow> string" where
  "feature_tag SSE = ''sse''" | "feature_tag SSE2 = ''sse2''" | "feature_tag SSE3 = ''sse3''"
| "feature_tag SSSE3 = ''ssse3''" | "feature_tag SSE41 = ''sse4.1''" | "feature_tag SSE42 = ''sse4.2''"
| "feature_tag AVX = ''avx''" | "feature_tag AVX2 = ''avx2''" | "feature_tag AVX512F = ''avx512f''"
| "feature_tag AVX512BW = ''avx512bw''" | "feature_tag FMA = ''fma''" | "feature_tag AES = ''aesni''"
| "feature_tag RDRAND = ''rdrand''" | "feature_tag PCLMULQDQ = ''pclmulqdq''" | "feature_tag SGX = ''sgx''"

definition has_cpu_feature :: "cpu_feature \<Rightarrow> cpu_identity \<Rightarrow> bool" where
  "has_cpu_feature f c \<longleftrightarrow> feature_tag f \<in> set (id_features c)"

definition detection_metrics :: "cpu_identity \<Rightarrow> (string \<times> u64) list" where
  "detection_metrics c = [(''detection_us'', id_detection_us c), (''features_count'', word_of_nat (length (id_features c))),
     (''cores'', ucast (id_cores c)), (''threads'', ucast (id_threads c)), (''cache_l3_kb'', ucast (id_cache_l3_kb c))]"

section \<open>Temperature\<close>

definition temp_plausible :: "rat \<Rightarrow> bool" where
  "temp_plausible t \<longleftrightarrow> t > 1 \<and> t < 150"

definition if_plausible :: "rat \<Rightarrow> rat option" where
  "if_plausible t = (if temp_plausible t then Some t else None)"

text \<open>A file with thousandths of a degree; \<open>read\<close> is the text of a file that can be read.\<close>

definition read_millidegrees :: "(string \<Rightarrow> string option) \<Rightarrow> string \<Rightarrow> rat option" where
  "read_millidegrees read path =
     Option.bind (read path) (\<lambda>raw. Option.bind (parse_u32 (trim raw)) (\<lambda>v. if_plausible (rat_of_nat (unat v) / 1000)))"

definition read_hwmon_package_temp :: "(string \<Rightarrow> string option) \<Rightarrow> string \<Rightarrow> rat option" where
  "read_hwmon_package_temp read dir =
     find_map (\<lambda>i. case read (dir @ ''/temp'' @ show_nat i @ ''_label'') of
         None \<Rightarrow> None
       | Some raw \<Rightarrow> let label = to_lower (trim raw) in
           if contains ''package'' label \<or> contains ''tdie'' label \<or> contains ''tccd'' label
           then read_millidegrees read (dir @ ''/temp'' @ show_nat i @ ''_input'') else None) [1..<33]"

definition linux_hwmon_package :: "(string \<Rightarrow> string option) \<Rightarrow> string list option \<Rightarrow> rat option" where
  "linux_hwmon_package read entries =
     Option.bind entries (find_map (\<lambda>dir. case read (dir @ ''/name'') of
         None \<Rightarrow> None
       | Some name \<Rightarrow> if trim name \<in> {''coretemp'', ''k10temp'', ''zenpower''}
           then read_hwmon_package_temp read dir else None))"

definition DEGREE :: string where "DEGREE = [CHR 0xC2, CHR 0xB0]"

definition sensors_line :: "(string \<Rightarrow> rat option) \<Rightarrow> string \<Rightarrow> rat option" where
  "sensors_line parse_f32 line =
     (let lower = to_lower line in
      if (contains ''core'' lower \<or> contains ''package'' lower) \<and> contains DEGREE line
      then (case split_on (CHR '':'') line of
              _ # part # _ \<Rightarrow> Option.bind (parse_f32 (dropWhile (\<lambda>c. c = CHR ''+'') (trim (before_sub DEGREE part)))) if_plausible
            | _ \<Rightarrow> None)
      else None)"

text \<open>The output of \<^verbatim>\<open>sensors\<close>: \<open>None\<close> when it cannot be run or fails.\<close>

definition linux_sensors_cli :: "(string \<Rightarrow> rat option) \<Rightarrow> string option \<Rightarrow> rat option" where
  "linux_sensors_cli parse_f32 out =
     Option.bind out (\<lambda>t. reduce_max (List.map_filter (sensors_line parse_f32) (split_on (CHR 0x0A) t)))"

definition THERMAL_PATHS :: "string list" where
  "THERMAL_PATHS = [''/sys/class/thermal/thermal_zone0/temp'', ''/sys/class/thermal/thermal_zone1/temp'',
     ''/sys/class/thermal/thermal_zone2/temp'']"

definition linux_temperature :: "(string \<Rightarrow> string option) \<Rightarrow> string list option \<Rightarrow> (string \<Rightarrow> rat option) \<Rightarrow> string option
    \<Rightarrow> rat option" where
  "linux_temperature read entries parse_f32 sensors_out =
     or_else (linux_hwmon_package read entries)
       (or_else (find_map (read_millidegrees read) THERMAL_PATHS) (linux_sensors_cli parse_f32 sensors_out))"

record hardware_sensor =
  hs_name :: "string option"
  hs_sensor_type :: "string option"
  hs_value :: "rat option"

definition text_or_empty :: "string option \<Rightarrow> string" where
  "text_or_empty s = (case s of None \<Rightarrow> [] | Some t \<Rightarrow> t)"

definition names_cpu :: "string \<Rightarrow> bool" where
  "names_cpu name \<longleftrightarrow> list_ex (\<lambda>k. contains k (to_lower name)) [''cpu'', ''package'', ''tdie'', ''tctl'', ''core'']"

text \<open>The preferred and the other readings; a sensor without a value ends the function (\<^verbatim>\<open>sensor.value?\<close>).\<close>

fun split_sensors :: "hardware_sensor list \<Rightarrow> rat list \<times> rat list \<Rightarrow> (rat list \<times> rat list) option" where
  "split_sensors [] acc = Some acc"
| "split_sensors (s # ss) (preferred, fallback) =
     (case hs_value s of
        None \<Rightarrow> None
      | Some v \<Rightarrow>
          if \<not> temp_plausible v \<or> to_lower (text_or_empty (hs_sensor_type s)) \<noteq> ''temperature''
          then split_sensors ss (preferred, fallback)
          else if names_cpu (text_or_empty (hs_name s))
          then split_sensors ss (preferred @ [v], fallback)
          else split_sensors ss (preferred, fallback @ [v]))"

definition select_openhardware_temperature :: "hardware_sensor list \<Rightarrow> rat option" where
  "select_openhardware_temperature sensors =
     Option.bind (split_sensors sensors ([], [])) (\<lambda>(preferred, fallback). or_else (reduce_max preferred) (reduce_max fallback))"

text \<open>The answers of WMI, \<open>None\<close> for each query or namespace that fails; temperatures are tenths of a kelvin or of a
  degree.\<close>

definition windows_wmi_temperature :: "bool \<Rightarrow> u32 list option \<Rightarrow> hardware_sensor list option \<Rightarrow> hardware_sensor list option
    \<Rightarrow> int option list option \<Rightarrow> rat option" where
  "windows_wmi_temperature com_ok zones open_hw libre_hw probes =
     (if \<not> com_ok then None
      else or_else (Option.bind zones (\<lambda>zs. reduce_max (List.map_filter (\<lambda>z. if_plausible (rat_of_nat (unat z) / 10 - 5463 / 20)) zs)))
        (or_else (Option.bind open_hw select_openhardware_temperature)
          (or_else (Option.bind libre_hw select_openhardware_temperature)
            (Option.bind probes (\<lambda>ps. reduce_max (List.map_filter (\<lambda>p. Option.bind p (\<lambda>v. if_plausible (rat_of_int v / 10))) ps))))))"

definition SMC_KEYS :: "string list" where
  "SMC_KEYS = [''TC0P'', ''TC0D'', ''TC0E'', ''Tp09'', ''Tp0P'', ''TCXC'']"

definition SMC_CLUSTERS :: "string list" where
  "SMC_CLUSTERS = map (\<lambda>d. ''Tp0'' @ [d]) ''0123456789ABCDEF''"

definition macos_smc_temperature :: "(string \<Rightarrow> rat option) \<Rightarrow> rat option" where
  "macos_smc_temperature read_key =
     (let clusters = List.map_filter (\<lambda>k. Option.bind (read_key k) if_plausible) SMC_CLUSTERS in
      or_else (find_map (\<lambda>k. Option.bind (read_key k) if_plausible) SMC_KEYS)
        (if clusters = [] then None else Some (sum_list clusters / rat_of_nat (length clusters))))"

text \<open>The cache: \<open>0\<close> in \<open>tc_last_us\<close> means empty. \<open>sensor\<close> is what \<^verbatim>\<open>platform_temperature\<close> would give now.\<close>

definition TEMP_CACHE_TTL_US :: u64 where "TEMP_CACHE_TTL_US = 1000000"

record temp_cache =
  tc_last_us :: u64
  tc_temp :: rat

definition get_cpu_temperature :: "u64 \<Rightarrow> rat option \<Rightarrow> temp_cache \<Rightarrow> rat option \<times> temp_cache" where
  "get_cpu_temperature now_us sensor cache =
     (if tc_last_us cache > 0 \<and> sat_sub now_us (tc_last_us cache) < TEMP_CACHE_TTL_US then (Some (tc_temp cache), cache)
      else (sensor, case sensor of None \<Rightarrow> cache | Some t \<Rightarrow> \<lparr>tc_last_us = max now_us 1, tc_temp = t\<rparr>))"

section \<open>The masked identity\<close>

record masking_config =
  mc_brand_retention_pct :: rat
  mc_round_cores_power_of_two :: bool
  mc_round_cache_mb :: bool
  mc_strip_advanced_features :: bool

definition masking_config_default :: masking_config where
  "masking_config_default = \<lparr>mc_brand_retention_pct = 50, mc_round_cores_power_of_two = True, mc_round_cache_mb = True,
     mc_strip_advanced_features = False\<rparr>"

text \<open>\<^verbatim>\<open>char_indices\<close>: the positions and byte lengths of the characters of a UTF-8 text.\<close>

definition continuation :: "char \<Rightarrow> bool" where
  "continuation c \<longleftrightarrow> (let n = of_char c :: nat in 128 \<le> n \<and> n < 192)"

function char_indices :: "nat \<Rightarrow> string \<Rightarrow> (nat \<times> nat) list" where
  "char_indices i [] = []"
| "char_indices i (c # cs) =
     (let k = length (takeWhile continuation cs) in (i, Suc k) # char_indices (i + Suc k) (drop k cs))"
  by pat_completeness auto
termination by (relation "measure (\<lambda>(i, s). length s)") auto

definition kept_bytes :: "rat \<Rightarrow> string \<Rightarrow> nat" where
  "kept_bytes pct brand =
     (let keep_raw = min (nat \<lfloor>rat_of_nat (length brand) * min (max pct 0) 100 / 100\<rfloor>) (length brand);
          starts = takeWhile (\<lambda>(i, _). i < keep_raw) (char_indices 0 brand) in
      if keep_raw = 0 then 0
      else if starts = [] then 0 else (case last starts of (i, n) \<Rightarrow> min (i + n) (length brand)))"

text \<open>\<^verbatim>\<open>u32::leading_zeros\<close>.\<close>

definition leading_zeros_u32 :: "u32 \<Rightarrow> nat" where
  "leading_zeros_u32 n = length (takeWhile (\<lambda>i. \<not> bit n i) (rev [0..<32]))"

definition prev_power_of_two :: "u32 \<Rightarrow> u32" where
  "prev_power_of_two n = (if n = 0 then 0 else push_bit (31 - leading_zeros_u32 n) 1)"

definition KEEP_FEATURES :: "string list" where
  "KEEP_FEATURES = [''fpu'', ''sse'', ''sse2'', ''avx'', ''avx2'', ''aesni'', ''rdrand'']"

definition mask_cpu_identity :: "masking_config option \<Rightarrow> cpu_identity \<Rightarrow> cpu_identity" where
  "mask_cpu_identity config c =
     (let cfg = (case config of None \<Rightarrow> masking_config_default | Some g \<Rightarrow> g);
          keep = kept_bytes (mc_brand_retention_pct cfg) (id_brand c) in
      c\<lparr>id_brand := (if keep < length (id_brand c)
           then take keep (id_brand c) @ replicate (length (id_brand c) - keep) (CHR ''*'') else id_brand c),
        id_cores := (if mc_round_cores_power_of_two cfg then max (prev_power_of_two (id_cores c)) 1 else id_cores c),
        id_threads := (if mc_round_cores_power_of_two cfg then max (prev_power_of_two (id_threads c)) 1 else id_threads c),
        id_cache_l3_kb := (if mc_round_cache_mb cfg then id_cache_l3_kb c div 1024 * 1024 else id_cache_l3_kb c),
        id_features := (if mc_strip_advanced_features cfg then filter (\<lambda>f. f \<in> set KEEP_FEATURES) (id_features c)
           else id_features c)\<rparr>)"

section \<open>Lemmas\<close>

lemma find_map_Some: "find_map f xs = Some y \<Longrightarrow> \<exists>x \<in> set xs. f x = Some y"
  by (induction xs) (auto split: option.splits)

lemma reduce_max_mem: "reduce_max xs = Some y \<Longrightarrow> y \<in> set xs"
proof (cases xs)
  case (Cons x l)
  have "fold (\<lambda>b a. max a b) l x \<in> set (x # l)" for x
  proof (induction l arbitrary: x)
    case (Cons b l)
    from Cons [of "max x b"] show ?case by (auto simp: max_def split: if_splits)
  qed simp
  then show "reduce_max xs = Some y \<Longrightarrow> y \<in> set xs" by (auto simp: Cons)
qed simp

lemma or_else_Some: "or_else a b = Some y \<Longrightarrow> a = Some y \<or> b = Some y"
  by (auto simp: or_else_def split: option.splits)

lemma if_plausible_SomeD: "if_plausible t = Some u \<Longrightarrow> temp_plausible u"
  by (auto simp: if_plausible_def split: if_splits)

lemma split_sensors_plausible:
  "split_sensors ss (a, b) = Some (p, f) \<Longrightarrow> \<forall>t \<in> set (a @ b). temp_plausible t \<Longrightarrow> \<forall>t \<in> set (p @ f). temp_plausible t"
proof (induction ss arbitrary: a b)
  case (Cons s ss)
  from Cons.prems(1) obtain a' b' where ab: "split_sensors ss (a', b') = Some (p, f)"
      "set (a' @ b') \<subseteq> set (a @ b) \<union> {v. temp_plausible v}"
    by (cases "hs_value s") (fastforce split: if_splits)+
  then show ?case using Cons.IH [OF ab(1)] Cons.prems(2) by blast
qed simp

lemma select_plausible: "select_openhardware_temperature ss = Some t \<Longrightarrow> temp_plausible t"
  using split_sensors_plausible [of ss "[]" "[]"]
  by (auto simp: select_openhardware_temperature_def bind_eq_Some_conv dest!: or_else_Some reduce_max_mem)

lemma mean_plausible:
  assumes "xs \<noteq> []" "\<forall>t \<in> set xs. temp_plausible t"
  shows "temp_plausible (sum_list xs / rat_of_nat (length xs))"
proof -
  have b: "rat_of_nat (length xs) < sum_list xs \<and> sum_list xs < 150 * rat_of_nat (length xs)"
    using assms
  proof (induction xs rule: list_nonempty_induct)
    case (cons x xs)
    then show ?case by (auto simp: temp_plausible_def algebra_simps)
  qed (auto simp: temp_plausible_def)
  then show ?thesis using assms(1) by (simp add: temp_plausible_def field_simps)
qed

lemma map_filter_mem: "y \<in> set (List.map_filter f xs) \<longleftrightarrow> (\<exists>x \<in> set xs. f x = Some y)"
  by (auto simp: List.map_filter_def image_iff)

lemma platform_plausible:
  "linux_temperature read entries parse_f32 out = Some t \<Longrightarrow> temp_plausible t"
  "windows_wmi_temperature com_ok zones open_hw libre_hw probes = Some t \<Longrightarrow> temp_plausible t"
  "macos_smc_temperature read_key = Some t \<Longrightarrow> temp_plausible t"
proof -
  have m: "read_millidegrees read path = Some t \<Longrightarrow> temp_plausible t" for path t
    by (auto simp: read_millidegrees_def bind_eq_Some_conv dest: if_plausible_SomeD)
  have s: "sensors_line parse_f32 line = Some t \<Longrightarrow> temp_plausible t" for line t
    by (auto simp: sensors_line_def Let_def bind_eq_Some_conv dest: if_plausible_SomeD split: if_splits list.splits)
  have "linux_hwmon_package read entries = Some t \<Longrightarrow> temp_plausible t"
    by (auto simp: linux_hwmon_package_def read_hwmon_package_temp_def bind_eq_Some_conv Let_def m
        dest!: find_map_Some split: option.splits if_splits)
  moreover have "linux_sensors_cli parse_f32 out = Some t \<Longrightarrow> temp_plausible t"
    by (auto simp: linux_sensors_cli_def bind_eq_Some_conv map_filter_mem s dest!: reduce_max_mem)
  ultimately show "linux_temperature read entries parse_f32 out = Some t \<Longrightarrow> temp_plausible t"
    using m by (auto simp: linux_temperature_def dest!: or_else_Some find_map_Some)
  show "windows_wmi_temperature com_ok zones open_hw libre_hw probes = Some t \<Longrightarrow> temp_plausible t"
    by (auto simp: windows_wmi_temperature_def bind_eq_Some_conv map_filter_mem select_plausible
        dest!: or_else_Some reduce_max_mem if_plausible_SomeD split: if_splits)
  have "\<forall>u \<in> set (List.map_filter (\<lambda>k. Option.bind (read_key k) if_plausible) SMC_CLUSTERS). temp_plausible u"
    by (auto simp: map_filter_mem bind_eq_Some_conv dest: if_plausible_SomeD)
  then show "macos_smc_temperature read_key = Some t \<Longrightarrow> temp_plausible t"
    using mean_plausible
    by (auto simp: macos_smc_temperature_def Let_def bind_eq_Some_conv dest!: or_else_Some find_map_Some if_plausible_SomeD split: if_splits)
qed

text \<open>Calls in order, each with its time and what the sensor would give; the answers.\<close>

fun temp_run :: "(u64 \<times> rat option) list \<Rightarrow> temp_cache \<Rightarrow> rat option list" where
  "temp_run [] cache = []"
| "temp_run ((now, sensor) # calls) cache =
     (let (t, cache') = get_cpu_temperature now sensor cache in t # temp_run calls cache')"

definition cache_from :: "(u64 \<times> rat option) list \<Rightarrow> temp_cache \<Rightarrow> bool" where
  "cache_from past cache \<longleftrightarrow> tc_last_us cache = 0 \<or> (\<exists>t0. (t0, Some (tc_temp cache)) \<in> set past \<and> tc_last_us cache = max t0 1)"

lemma answer_from:
  assumes "cache_from past cache" "get_cpu_temperature now sensor cache = (answer, cache')"
  shows "cache_from (past @ [(now, sensor)]) cache'"
    "answer = Some t \<Longrightarrow> \<exists>t0. (t0, Some t) \<in> set (past @ [(now, sensor)]) \<and> unat now - unat t0 \<le> 1000000"
proof -
  show "cache_from (past @ [(now, sensor)]) cache'"
    using assms by (auto simp: cache_from_def get_cpu_temperature_def split: if_splits option.splits)
  assume a: "answer = Some t"
  show "\<exists>t0. (t0, Some t) \<in> set (past @ [(now, sensor)]) \<and> unat now - unat t0 \<le> 1000000"
  proof (cases "tc_last_us cache > 0 \<and> sat_sub now (tc_last_us cache) < TEMP_CACHE_TTL_US")
    case True
    then obtain t0 where t0: "(t0, Some (tc_temp cache)) \<in> set past" "tc_last_us cache = max t0 1"
      using assms(1) by (auto simp: cache_from_def)
    have "unat (max t0 1) \<le> unat t0 + 1" by (simp add: max_def)
    moreover have "unat now - unat (max t0 1) < 1000000"
      using True t0(2) by (simp add: word_less_nat_alt TEMP_CACHE_TTL_US_def unat_sat_sub)
    ultimately have "unat now - unat t0 \<le> 1000000" by linarith
    with True t0(1) a assms(2) show ?thesis by (auto simp: get_cpu_temperature_def)
  next
    case False
    with a assms(2) show ?thesis by (auto simp: get_cpu_temperature_def)
  qed
qed

lemma temp_run_from:
  assumes "cache_from past cache" "i < length calls" "temp_run calls cache ! i = Some t"
  shows "\<exists>t0. (t0, Some t) \<in> set (past @ take (Suc i) calls) \<and> unat (fst (calls ! i)) - unat t0 \<le> 1000000"
  using assms
proof (induction calls arbitrary: past cache i)
  case (Cons c calls)
  obtain now sensor where c: "c = (now, sensor)" by (cases c)
  obtain answer cache' where g: "get_cpu_temperature now sensor cache = (answer, cache')" by fastforce
  note a = answer_from [OF Cons.prems(1) g]
  show ?case
  proof (cases i)
    case 0
    with Cons.prems(3) a(2) g c show ?thesis by simp
  next
    case (Suc k)
    with Cons.IH [OF a(1), of k] Cons.prems(2,3) g c show ?thesis by simp
  qed
qed simp

text \<open>Every answer is a plausible reading that is at most a second old.\<close>

theorem temperature_fresh_and_plausible:
  assumes "tc_last_us cache = 0" "\<forall>t. Some t \<in> snd ` set calls \<longrightarrow> temp_plausible t"
    and "i < length calls" "temp_run calls cache ! i = Some t"
  shows "temp_plausible t \<and> (\<exists>j \<le> i. snd (calls ! j) = Some t \<and> unat (fst (calls ! i)) - unat (fst (calls ! j)) \<le> 1000000)"
proof -
  obtain t0 where t0: "(t0, Some t) \<in> set (take (Suc i) calls)" "unat (fst (calls ! i)) - unat t0 \<le> 1000000"
    using temp_run_from [of "[]" cache i calls t] assms(1,3,4) by (auto simp: cache_from_def)
  then obtain j where j: "j \<le> i" "calls ! j = (t0, Some t)"
    using assms(3) by (auto simp: in_set_conv_nth less_Suc_eq_le)
  moreover have "temp_plausible t"
    using assms(2) t0(1) by (metis image_eqI in_set_takeD snd_conv)
  ultimately show ?thesis using t0(2) by (intro conjI exI [of _ j]) auto
qed

text \<open>Whatever the processor reports, there is a core, and there are at least as many threads as cores.\<close>

lemma div_bounds: "0 < (b :: u32) \<Longrightarrow> a div b \<le> a"
  by (simp add: word_le_nat_alt unat_div div_le_dividend)

theorem detected_identity_ok:
  assumes "1 \<le> logical"
  shows "1 \<le> id_cores (detect_cpu logical us q) \<and> id_cores (detect_cpu logical us q) \<le> id_threads (detect_cpu logical us q)
    \<and> recommended_workers (detect_cpu logical us q) = unat (id_cores (detect_cpu logical us q))
    \<and> distinct (id_features (detect_cpu logical us q))"
proof -
  have f: "1 \<le> fst (topology_fallback logical h) \<and> fst (topology_fallback logical h) \<le> snd (topology_fallback logical h)" for h
    using assms by (auto simp: topology_fallback_def word_le_nat_alt word_less_nat_alt unat_div)
  have t: "1 \<le> fst (detect_topology logical q) \<and> fst (detect_topology logical q) \<le> snd (detect_topology logical q)"
  proof (cases "ci_topology q")
    case (Some levels)
    obtain c p where "topology_counts levels = (c, p)" by fastforce
    with Some f show ?thesis
      by (auto simp: detect_topology_def Let_def min_def max_def word_le_nat_alt word_less_nat_alt)
  qed (use f in \<open>simp add: detect_topology_def\<close>)
  moreover have "distinct (BASIC_FEATURES @ EXTENDED_FEATURES)"
    by (simp add: BASIC_FEATURES_def EXTENDED_FEATURES_def)
  then have "distinct (collect_features q)"
    by (auto simp: collect_features_def split: option.splits)
  ultimately show ?thesis
    by (auto simp: detect_cpu_def Let_def case_prod_unfold recommended_workers_def max_def)
qed

text \<open>A power of two.\<close>

lemma prev_power_of_two_exact:
  assumes "n \<noteq> 0"
  obtains k where "prev_power_of_two n = 2 ^ k" "2 ^ k \<le> unat n" "unat n < 2 ^ Suc k" "k < 32"
proof -
  define z where "z = leading_zeros_u32 n"
  have len: "z \<le> 32" using length_takeWhile_le [of "\<lambda>i. \<not> bit n i" "rev [0..<32]"] by (simp add: z_def leading_zeros_u32_def)
  have "z \<noteq> 32"
  proof
    assume "z = 32"
    then have "takeWhile (\<lambda>i. \<not> bit n i) (rev [0..<32]) = rev [0..<32]"
      unfolding z_def leading_zeros_u32_def by (metis length_rev length_upt minus_nat.diff_0 takeWhile_eq_take take_all order_refl)
    then have "\<forall>i < 32. \<not> bit n i" by (simp add: takeWhile_eq_all_conv)
    then have "n = 0" by (intro bit_word_eqI) simp
    with assms show False by simp
  qed
  with len have z: "z < length (rev [0..<32])" by simp
  define k where "k = 31 - z"
  have nth: "rev [0..<32] ! j = 31 - j" if "j < 32" for j
    using that by (simp add: rev_nth)
  have "bit n k"
    using nth_length_takeWhile [of "\<lambda>i. \<not> bit n i" "rev [0..<32]"] z nth [of z]
    by (simp add: z_def leading_zeros_u32_def k_def)
  then have "bit (unat n) k"
    by (simp add: bit_unsigned_iff bit_imp_le_length)
  then have "odd (unat n div 2 ^ k)"
    by (simp add: bit_iff_odd)
  then have "2 ^ k \<le> unat n"
    by (metis div_less even_zero not_le)
  moreover have "\<not> bit n i" if "k < i" for i
  proof (cases "i < 32")
    case True
    then have "31 - i < z" using that by (simp add: k_def)
    then have "\<not> bit n (rev [0..<32] ! (31 - i))"
      using nth_mem [of "31 - i" "takeWhile (\<lambda>i. \<not> bit n i) (rev [0..<32])"] takeWhile_nth [of "31 - i" "\<lambda>i. \<not> bit n i" "rev [0..<32]"]
      by (metis leading_zeros_u32_def set_takeWhileD z_def)
    with True nth [of "31 - i"] show ?thesis by simp
  qed (auto dest: bit_imp_le_length)
  then have "take_bit (Suc k) n = n"
    by (intro bit_eqI) (auto simp: bit_take_bit_iff not_less [symmetric] less_Suc_eq_le)
  then have "unat n < 2 ^ Suc k"
    by (metis take_bit_nat_less_exp unsigned_take_bit_eq)
  moreover have "prev_power_of_two n = 2 ^ k"
    using assms by (simp add: prev_power_of_two_def k_def z_def push_bit_eq_mult)
  moreover have "k < 32" by (simp add: k_def)
  ultimately show ?thesis using that by blast
qed

text \<open>The masked identity has a brand of the same length, starred from the kept bytes on, as number
  of cores the largest power of two up to the real one and, when features are stripped, only well-known ones.\<close>

theorem masked_identity_hides:
  assumes "id_cores c \<noteq> 0" "mc_round_cores_power_of_two cfg"
  shows "let m = mask_cpu_identity (Some cfg) c; keep = kept_bytes (mc_brand_retention_pct cfg) (id_brand c) in
    length (id_brand m) = length (id_brand c) \<and> take keep (id_brand m) = take keep (id_brand c)
    \<and> (\<forall>x \<in> set (drop keep (id_brand m)). x = CHR ''*'')
    \<and> (\<exists>k. id_cores m = 2 ^ k \<and> 2 ^ k \<le> unat (id_cores c) \<and> unat (id_cores c) < 2 ^ Suc k)
    \<and> (mc_strip_advanced_features cfg \<longrightarrow> set (id_features m) \<subseteq> set KEEP_FEATURES)"
proof -
  obtain k where k: "prev_power_of_two (id_cores c) = 2 ^ k" "2 ^ k \<le> unat (id_cores c)" "unat (id_cores c) < 2 ^ Suc k" "k < 32"
    using prev_power_of_two_exact [OF assms(1)] .
  have "unat (2 ^ k :: u32) = 2 ^ k"
  proof -
    have "(2 :: nat) ^ k < 2 ^ 32" using k(4) by (rule power_strict_increasing) simp
    then show ?thesis
      using unat_of_nat [where 'a = 32, of "2 ^ k"] by (simp add: take_bit_nat_eq_self)
  qed
  then have "max (prev_power_of_two (id_cores c)) 1 = 2 ^ k"
    using k(1) by (simp add: max_def word_le_nat_alt) (metis One_nat_def le_Suc_eq le_zero_eq power_not_zero unat_1 word_unat_eq_iff zero_neq_numeral)
  with k(2,3) assms(2) show ?thesis
    by (auto simp: mask_cpu_identity_def Let_def)
qed

text \<open>A character that the kept share cuts is kept whole, although the comment promises a boundary before the
  share: of three bytes, half gives one, and two are kept.\<close>

lemma kept_bytes_rounds_up: "kept_bytes 50 [CHR 0xC3, CHR 0xA9, CHR ''a''] = 2"
  by code_simp

text \<open>One sensor without a value hides every other reading.\<close>

lemma missing_reading_hides_others:
  assumes "hs_value s = None"
  shows "select_openhardware_temperature (ss @ [s]) = None"
proof -
  have "split_sensors (ss @ [s]) acc = None" for acc
    using assms by (induction ss acc rule: split_sensors.induct) (auto split: option.splits)
  then show ?thesis by (simp add: select_openhardware_temperature_def)
qed

end
