(* ===== verification/Fork_Adoption.thy ===== *)
theory Fork_Adoption
  imports Catch_Up Full_Node
begin

text \<open>
  Two branches of one chain: a node that has followed the lighter one adopts the heavier one of an honest miner
  over the miner's HTTP interface. The composition of the search for the common ancestor, the rollback and the
  synchronisation (\<^verbatim>\<open>reconcile_fork\<close>, \<^verbatim>\<open>node/src/main.rs\<close>) with the run of the miner it copies.
\<close>

section \<open>Ledgers that differ in their file only\<close>

text \<open>A rollback keeps the rows of the abandoned blocks in the ledger file; the balances, the nonces and the mined total
  do not depend on them.\<close>

definition same_books :: "ledger \<Rightarrow> ledger \<Rightarrow> bool" where
  "same_books l l' \<longleftrightarrow> l' = l\<lparr>lg_csv := lg_csv l'\<rparr>"

lemma same_books_refl: "same_books l l"
  by (simp add: same_books_def)

lemma same_books_csv: "same_books l (l\<lparr>lg_csv := csv\<rparr>)"
  by (simp add: same_books_def)

lemma same_books_fields:
  "same_books l l' \<longleftrightarrow> lg_balances l' = lg_balances l \<and> lg_nonces l' = lg_nonces l \<and> lg_total_mined l' = lg_total_mined l"
  by (cases l; cases l') (auto simp: same_books_def)

lemma same_books_read:
  assumes "same_books l l'"
  shows "ledger_balance l' = ledger_balance l" "ledger_nonce l' = ledger_nonce l"
    "transfer_ok P s l' = transfer_ok P s l"
  using assms by (simp_all add: same_books_fields ledger_balance_def ledger_nonce_def transfer_ok_def fun_eq_iff)

lemma same_books_append:
  "same_books l l' \<Longrightarrow> same_books (snd (append_line io line x l)) (snd (append_line io line' x l'))"
  by (simp add: same_books_fields append_line_def)

lemma same_books_apply:
  assumes "same_books l l'"
  shows "same_books (snd (apply_transaction P io h s miner ts l)) (snd (apply_transaction P io h s miner ts l'))"
proof (cases "transfer_ok P s l")
  case True
  have "same_books (transfer_effect P s miner l) (transfer_effect P s miner l')"
    using assms by (simp add: same_books_fields transfer_effect_def ledger_balance_def Let_def)
  then show ?thesis
    using True same_books_read(3) [OF assms] by (simp add: apply_transaction_ok same_books_append)
next
  case False
  then show ?thesis
    using assms same_books_read(3) [OF assms] apply_transaction_bad by (metis snd_conv)
qed

lemma same_books_credit:
  "same_books l l' \<Longrightarrow> same_books (snd (ledger_credit io h miner reward ts l)) (snd (ledger_credit io h miner reward ts l'))"
  by (simp add: same_books_fields ledger_credit_def ledger_balance_def append_line_def Let_def)

lemma same_books_block:
  assumes "same_books l l'"
  shows "same_books (ledger_apply_block P io h txs miner reward ts l) (ledger_apply_block P io h txs miner reward ts l')"
proof -
  have "same_books (fold (\<lambda>s l. snd (apply_transaction P io h s miner ts l)) txs l)
      (fold (\<lambda>s l. snd (apply_transaction P io h s miner ts l)) txs l')"
    using assms by (induction txs arbitrary: l l') (simp_all add: same_books_apply)
  then show ?thesis by (simp add: ledger_apply_block_def same_books_credit)
qed

lemma sync_check_books: "same_books l l' \<Longrightarrow> sync_check P now cu l' r = sync_check P now cu l r"
  unfolding same_books_def by (metis sync_check_csv)

text \<open>Synchronising does not read the file: two nodes with the same cursor and the same books accept the same records.\<close>

lemma sync_page_books:
  assumes "sync_page P J now io rs st = (stop, n, st')" "fst st2 = fst st" "same_books (nd_ledger (snd st)) (nd_ledger (snd st2))"
  shows "\<exists>st2'. sync_page P J now io rs st2 = (stop, n, st2') \<and> fst st2' = fst st'
    \<and> same_books (nd_ledger (snd st')) (nd_ledger (snd st2'))"
  using assms
proof (induction rs arbitrary: st st2 n)
  case (Cons r rs)
  note check = sync_check_books [OF Cons.prems(3), of P "now (br_height r)" "fst st" r]
  show ?case
  proof (cases "sync_check P (now (br_height r)) (fst st) (nd_ledger (snd st)) r")
    case (Inl e)
    then show ?thesis using Cons.prems check by auto
  next
    case (Inr x)
    obtain claim applied where x: "x = (claim, applied)" by (cases x)
    let ?st = "sync_apply P J (io (br_height r)) r claim applied st"
      and ?st2 = "sync_apply P J (io (br_height r)) r claim applied st2"
    obtain m where rest: "sync_page P J now io rs ?st = (stop, m, st')" "n = 1 + m"
      using Cons.prems(1) Inr x by (auto simp: Let_def case_prod_unfold prod_eq_iff)
    have "fst ?st2 = fst ?st" "same_books (nd_ledger (snd ?st)) (nd_ledger (snd ?st2))"
      using Cons.prems(2,3) by (simp_all add: same_books_block)
    from Cons.IH [OF rest(1) this] obtain st2' where
      "sync_page P J now io rs ?st2 = (stop, m, st2')" "fst st2' = fst st'" "same_books (nd_ledger (snd st')) (nd_ledger (snd st2'))"
      by blast
    then show ?thesis
      using Inr x check rest(2) Cons.prems(2) by (simp del: sync_apply_sel)
  qed
qed auto

section \<open>Finding the common ancestor\<close>

lemma block_hash_at_lookup:
  "store_lookup J s h = Some r \<Longrightarrow> block_hash_at s h = Some (br_block_hash r) \<and> br_height r = h"
  by (auto simp: store_lookup_def store_get_def block_hash_at_def res_bind_def row_to_record_def Let_def
      simp: find_Some_iff split: option.splits sum.splits)

lemma headers_at:
  assumes "store_inv J (nd_store nd)" "small_height h" "store_lookup J (nd_store nd) h = Some r"
  shows "handle_chain_headers J (Some h) (Some h) nd = [r]"
proof -
  have "min h (sat_add h MAX_SYNC_PAGE) = h"
    using unat_lt_u64 [of h] by (simp add: min_def word_le_nat_alt unat_sat_add)
  moreover have "small_height MAX_SYNC_PAGE" "unat MAX_SYNC_PAGE = 500"
    by (simp_all add: small_height_def MAX_SYNC_PAGE_def)
  ultimately show ?thesis
    using get_range_lookup [OF assms(1,2,2), of MAX_SYNC_PAGE] assms(3)
    by (simp add: handle_chain_headers_def ok_or_def List.map_filter_simps)
qed

lemma peer_hash_of_miner:
  assumes "store_inv J (nd_store nd)" "small_height h" "store_lookup J (nd_store nd) h = Some r"
  shows "peer_hash_at P (\<lambda>a b. Some (handle_chain_headers J (Some a) (Some b) nd)) h = hex_to_32 P (br_block_hash r)"
  using headers_at [OF assms] block_hash_at_lookup [OF assms(3)] by (simp add: peer_hash_at_def)

lemma probe_descends:
  assumes "unat h = unat h0 + k" "probe_floor < h0"
    and "\<forall>x. h0 < x \<and> x \<le> h \<longrightarrow> (\<exists>a b. peer_hash_at P fetch x = Some a \<and> local_hash_at P store x = Some b \<and> b \<noteq> a)"
    and "peer_hash_at P fetch h0 = Some c" "local_hash_at P store h0 = Some c"
  shows "probe_fork P store fetch probe_floor h = Some h0"
  using assms(1,3)
proof (induction k arbitrary: h)
  case 0
  then have "h = h0" by (simp add: word_unat_eq_iff)
  then show ?case
    using assms(2,4,5) by (subst probe_fork.simps) simp
next
  case (Suc k)
  have lt: "h0 < h" "h \<noteq> 0" using Suc.prems(1) by (auto simp: word_less_nat_alt)
  then have u: "unat (h - 1) = unat h - 1"
    by (metis unat_minus_one)
  have "probe_fork P store fetch probe_floor (h - 1) = Some h0"
  proof (rule Suc.IH)
    show "unat (h - 1) = unat h0 + k" using u Suc.prems(1) by simp
    have "x \<le> h" if "x \<le> h - 1" for x
      using that u by (simp add: word_le_nat_alt)
    then show "\<forall>x. h0 < x \<and> x \<le> h - 1 \<longrightarrow> (\<exists>a b. peer_hash_at P fetch x = Some a \<and> local_hash_at P store x = Some b \<and> b \<noteq> a)"
      using Suc.prems(2) by blast
  qed
  moreover obtain a b where "peer_hash_at P fetch h = Some a" "local_hash_at P store h = Some b" "b \<noteq> a"
    using Suc.prems(2) lt(1) by blast
  moreover have "probe_floor < h" using assms(2) lt(1) by (rule less_trans)
  ultimately show ?case
    using lt(2) by (subst probe_fork.simps) simp
qed

lemma sync_page_hashes:
  assumes "sync_page P J now io rs st = (False, n, st')" "r \<in> set rs"
  shows "\<exists>claim. br_block_hash r = hex_encode P (claim_block_hash P claim)"
  using assms
proof (induction rs arbitrary: st n)
  case (Cons x rs)
  from Cons.prems(1) obtain claim applied m where
    c: "sync_check P (now (br_height x)) (fst st) (nd_ledger (snd st)) x = Inr (claim, applied)"
    and rest: "sync_page P J now io rs (sync_apply P J (io (br_height x)) x claim applied st) = (False, m, st')"
    by (rule sync_page_ConsE)
  then show ?case
    using sync_check_facts(6) [OF c] Cons.IH [OF rest] Cons.prems(2) by auto
qed simp

text \<open>A run leaves the blocks below its start as they are.\<close>

lemma commit_keeps_lookup:
  assumes "phase_inv M cu nd (Elected cd lh result w)" "node_inv M cu nd"
    and "\<forall>row \<in> set (bs_blocks (nd_store nd)). row_block_hash row \<noteq> claim_block_hash_hex (mr_prims M) (pc_claim w)"
    and "commit (mr_prims M) (mr_serde M) K True fio secs cd result lh w (cu, nd, rf) = (Inr (), cu', nd', rf')"
    and "h \<le> cu_height cu"
  shows "store_lookup (mr_serde M) (nd_store nd') h = store_lookup (mr_serde M) (nd_store nd) h"
proof -
  let ?P = "mr_prims M" and ?J = "mr_serde M"
  note e = elected_facts [OF assms(1,2)]
  have u: "unat (cu_height cu + 1) = unat (cu_height cu) + 1"
    using e(5) by (intro unat_next_height) simp
  define r where "r = mined_record ?P (cd_height cd) w (cd_reward cd) result lh
      (pinned_tip (cd_height cd) w (ns_btc_checkpoint_tip_height (nd_state nd))) (cu_work (commit_cursor ?P (cd_height cd) w cu))"
  define st where "st = fold (\<lambda>t. mempool_remove ?P (stx_tx_id ?P t)) (pc_transactions w) (nd_store nd)"
  have s: "nd_store nd' = insert_block ?J r st"
    using commit_store [of ?P ?J K True fio secs cd result lh w cu nd rf] assms(4) by (simp add: r_def st_def)
  have tables: "bs_blocks st = bs_blocks (nd_store nd)" "bs_txs st = bs_txs (nd_store nd)"
    by (simp_all add: st_def)
  have "hash_fresh r st"
    using assms(3) by (simp add: hash_fresh_def tables r_def)
  moreover have "h \<noteq> br_height r"
    using assms(5) u by (auto simp: r_def e(2) word_le_nat_alt)
  ultimately have "store_get ?J (insert_block ?J r st) h = store_get ?J st h"
    by (simp add: store_get_insert_other)
  then show ?thesis
    using store_view_cong(5) [OF tables] by (simp add: store_lookup_def s)
qed

lemma loop_keeps_lookup:
  assumes "loop_step M sy sy'" "plain_block M sy" "system_inv M sy" "running sy" "running sy'" "h \<le> cu_height (sy_cursor sy)"
  shows "store_lookup (mr_serde M) (nd_store (sy_node sy')) h = store_lookup (mr_serde M) (nd_store (sy_node sy)) h"
  using assms(1)
proof cases
  case (prepare now answers observed fresh cd nd')
  have "nd_store nd' = nd_store (sy_node sy)"
    by (subst build_candidate_node [OF prepare(6)], simp)
  then show ?thesis using prepare(1) by simp
next
  case (committed cd lh result w fio secs cu' nd' rf')
  have "\<forall>row \<in> set (bs_blocks (nd_store (sy_node sy))). row_block_hash row \<noteq> claim_block_hash_hex (mr_prims M) (pc_claim w)"
    using assms(2) by (simp add: plain_block_def committed(2))
  from commit_keeps_lookup [OF _ system_inv_parts(1) [OF assms(3,4)] this committed(3) assms(6)]
  show ?thesis
    using system_inv_parts(2) [OF assms(3,4)] committed(1,2) by simp
qed (use assms(5) in \<open>simp_all add: running_def\<close>)

lemma run_keeps_lookup:
  assumes "plain_reach M sy0 sy" "node_reach M start sy0" "hex_ok (mr_prims M)" "fresh_system M start" "running sy"
    and "archived (mr_serde M) (sy_cursor sy0) (sy_node sy0)" "h \<le> cu_height (sy_cursor sy0)"
  shows "store_lookup (mr_serde M) (nd_store (sy_node sy)) h = store_lookup (mr_serde M) (nd_store (sy_node sy0)) h"
  using assms
proof (induction rule: plain_reach.induct)
  case (plain_loop sy0 sy' sy'')
  have r: "running sy'" by (rule step_running(1) [OF plain_loop.hyps(3)])
  have "agrees (sy_cursor sy0) (sy_node sy0) (sy_cursor sy0, sy_node sy0)"
    by (simp add: agrees_def same_consensus_refl)
  from miner_chain [OF plain_loop.prems(2,3,1) plain_loop.hyps(1) r plain_loop.prems(5) this, of undefined]
  have "h \<le> cu_height (sy_cursor sy')"
    using plain_loop.prems(6) by (auto simp: word_le_nat_alt)
  moreover have "system_inv M sy'"
    using reach_inv plain_reach_node plain_loop.hyps(1) plain_loop.prems by blast
  ultimately show ?case
    using plain_loop.IH [OF plain_loop.prems(1-3) r plain_loop.prems(5,6)]
      loop_keeps_lookup [OF plain_loop.hyps(3,2) _ r plain_loop.prems(4)] by simp
next
  case (plain_handler sy0 sy' sy'')
  have "running sy'" by (rule step_running(2) [OF plain_handler.hyps(2)])
  then show ?case
    using plain_handler.IH plain_handler.prems handler_quiet(3,4) [OF plain_handler.hyps(2)] store_view_cong(1)
    by metis
qed simp

lemma roll_back_mirrors:
  assumes "roll_back P J io_ok ledger_text fork_point (cu, nd) = Some (cu', nd')" "mirrors cu nd"
  shows "mirrors cu' nd'"
  using assms by (auto simp: roll_back_def mirrors_def roll_back_state_def Let_def case_prod_unfold split: option.splits sum.splits)

section \<open>The two branches at the common block and above\<close>

lemma claim_hash_decodes:
  "hex_ok P \<Longrightarrow> hash_ok P \<Longrightarrow> hex_to_32 P (hex_encode P (claim_block_hash P c)) = Some (claim_block_hash P c)"
  by (simp add: hex_to_32_encode claim_block_hash_def)

lemma branch_block_at:
  assumes "sync_page P J now io rs (cu, nd) = (False, n, cu', nd')" "unat (cu_height cu) + length rs < 2 ^ 62"
    and "store_inv J (nd_store nd)" "fresh_branch rs (nd_store nd)" "cu_height cu < x" "x \<le> cu_height cu'"
  obtains r where "r \<in> set rs" "br_height r = x" "block_hash_at (nd_store nd') x = Some (br_block_hash r)"
proof -
  have h: "unat (cu_height cu') = unat (cu_height cu) + length rs"
    using sync_page_height [OF assms(1)] assms(2) by simp
  define i where "i = unat x - unat (cu_height cu) - 1"
  have i: "i < length rs" "unat (cu_height cu) + 1 + i = unat x"
    using assms(5,6) h by (auto simp: i_def word_less_nat_alt word_le_nat_alt)
  have "br_height (rs ! i) = x"
    using sync_page_heights [OF assms(1) _ i(1)] assms(2) i(2) by (simp add: word_unat_eq_iff)
  moreover from this have "store_lookup J (nd_store nd') x = Some (as_stored (rs ! i))"
    using sync_page_store [OF assms(1)] assms(2-4) i(1) by auto
  from block_hash_at_lookup [OF this] have "block_hash_at (nd_store nd') x = Some (br_block_hash (rs ! i))"
    by (simp add: as_stored_def)
  ultimately show thesis
    using that i(1) nth_mem by blast
qed

lemma served_block_at:
  assumes "replayed M J h0 peer chain cu nd" "h0 < x" "x \<le> cu_height cu"
  obtains r claim where "store_lookup (mr_serde M) (nd_store nd) x = Some r"
    "br_block_hash r = hex_encode (mr_prims M) (claim_block_hash (mr_prims M) claim)"
proof -
  have "sync_page (mr_prims M) J (\<lambda>_. - 1) (\<lambda>_. True) chain peer
      = (False, of_nat (length chain), snd (snd (sync_page (mr_prims M) J (\<lambda>_. - 1) (\<lambda>_. True) chain peer)))"
    using assms(1) by (fastforce simp: replayed_def)
  moreover have "unat x - unat h0 - 1 < length chain"
    using assms by (simp add: replayed_def word_less_nat_alt word_le_nat_alt)
  ultimately obtain claim where "br_block_hash (chain ! (unat x - unat h0 - 1)) = hex_encode (mr_prims M) (claim_block_hash (mr_prims M) claim)"
    using sync_page_hashes nth_mem by metis
  with assms show thesis
    by (intro that [of "chain ! (unat x - unat h0 - 1)" claim]) (simp_all add: replayed_def)
qed

lemma ancestor_found:
  assumes "hex_ok (mr_prims M)" "hash_ok (mr_prims M)" "replayed M J (cu_height cu) peer chain mcu mnd"
    and "unat (cu_height mcu) \<le> 2 ^ 62"
    and "anchored (mr_prims M) J cu (nd_store nd)"
    and page: "sync_page (mr_prims M) J now (\<lambda>_. True) rs (cu, nd) = (False, n0, cu1, nd1)"
    and "fresh_branch rs (nd_store nd)" "unat (cu_height cu) + length rs < 2 ^ 62" "cu_height cu1 \<le> cu_height mcu"
    and "probe_floor < cu_height cu"
    and base: "store_lookup (mr_serde M) (nd_store mnd) (cu_height cu) = Some b" "hex_to_32 (mr_prims M) (br_block_hash b) = Some (cu_tip_hash cu)"
    and differ: "\<forall>r \<in> set rs. block_hash_at (nd_store mnd) (br_height r) \<noteq> Some (br_block_hash r)"
  shows "probe_fork (mr_prims M) (nd_store nd1) (\<lambda>a b. Some (handle_chain_headers (mr_serde M) (Some a) (Some b) mnd))
      probe_floor (cu_height cu1) = Some (cu_height cu)"
proof -
  let ?P = "mr_prims M" and ?fetch = "\<lambda>a b. Some (handle_chain_headers (mr_serde M) (Some a) (Some b) mnd)"
  have inv: "store_inv (mr_serde M) (nd_store mnd)" "store_inv J (nd_store nd)"
    using assms(3,5) by (simp_all add: replayed_def archived_def anchored_def)
  have h1: "unat (cu_height cu1) = unat (cu_height cu) + length rs"
    using sync_page_height [OF page] assms(8) by simp
  have small: "small_height x" if "x \<le> cu_height mcu" for x
    using that assms(4) by (simp add: small_height_def word_le_nat_alt)
  have le: "cu_height cu \<le> cu_height mcu"
    using h1 assms(9) by (simp add: word_le_nat_alt)
  obtain b1 where b1: "store_lookup J (nd_store nd) (cu_height cu) = Some b1" "hex_to_32 ?P (br_block_hash b1) = Some (cu_tip_hash cu)"
    using assms(5) by (auto simp: anchored_def)
  have "store_lookup J (nd_store nd1) (cu_height cu) = Some b1"
    using fork_block_found(3) [OF assms(5) page assms(7,8) order_refl] b1(1) by (simp add: store_lookup_def)
  then have own: "local_hash_at ?P (nd_store nd1) (cu_height cu) = Some (cu_tip_hash cu)"
    using b1(2) block_hash_at_lookup by (metis bind.bind_lunit local_hash_at_def)
  have peer: "peer_hash_at ?P ?fetch (cu_height cu) = Some (cu_tip_hash cu)"
    using peer_hash_of_miner [OF inv(1) small [OF le] base(1)] base(2) by simp
  have above: "\<exists>a b. peer_hash_at ?P ?fetch x = Some a \<and> local_hash_at ?P (nd_store nd1) x = Some b \<and> b \<noteq> a"
    if x: "cu_height cu < x" "x \<le> cu_height cu1" for x
  proof -
    have xm: "x \<le> cu_height mcu" using x(2) assms(9) by (rule order.trans)
    obtain r where r: "r \<in> set rs" "br_height r = x" "block_hash_at (nd_store nd1) x = Some (br_block_hash r)"
      by (rule branch_block_at [OF page assms(8) inv(2) assms(7) x])
    obtain claim where c: "br_block_hash r = hex_encode ?P (claim_block_hash ?P claim)"
      using sync_page_hashes [OF page r(1)] by blast
    obtain r' claim' where r': "store_lookup (mr_serde M) (nd_store mnd) x = Some r'"
      "br_block_hash r' = hex_encode ?P (claim_block_hash ?P claim')"
      by (rule served_block_at [OF assms(3) x(1) xm])
    have "br_block_hash r' \<noteq> br_block_hash r"
      using differ r(1,2) block_hash_at_lookup [OF r'(1)] by auto
    moreover have "peer_hash_at ?P ?fetch x = Some (claim_block_hash ?P claim')"
      using peer_hash_of_miner [OF inv(1) small [OF xm] r'(1)] r'(2) claim_hash_decodes [OF assms(1,2)] by simp
    moreover have "local_hash_at ?P (nd_store nd1) x = Some (claim_block_hash ?P claim)"
      using r(3) c claim_hash_decodes [OF assms(1,2)] by (simp add: local_hash_at_def)
    ultimately show ?thesis using r'(2) c by auto
  qed
  show ?thesis
    using above by (intro probe_descends [OF h1 assms(10) _ peer own]) blast
qed

section \<open>Properties\<close>

text \<open>Once the node is back at the common block, the miner's blocks lead it to the miner's state.\<close>

lemma replay_after_rollback:
  assumes "replayed M J h0 (cu, nd) chain cu2 nd2" "\<forall>h. cu_last_ts cu2 \<le> now_ms h"
    and "nd_ledger ndb = (nd_ledger nd)\<lparr>lg_csv := csv\<rparr>" "mirrors cu ndb"
  shows "\<exists>st. sync_page (mr_prims M) J now_ms (\<lambda>_. True) chain (cu, ndb) = (False, of_nat (length chain), st)
    \<and> same_consensus cu2 (fst st) \<and> same_books (nd_ledger nd2) (nd_ledger (snd st)) \<and> mirrors (fst st) (snd st)"
proof -
  obtain peer' where run: "sync_page (mr_prims M) J now_ms (\<lambda>_. True) chain (cu, nd) = (False, of_nat (length chain), peer')"
    and agree: "agrees cu2 nd2 peer'"
    using assms(1,2) unfolding replayed_def by blast
  obtain st where st: "sync_page (mr_prims M) J now_ms (\<lambda>_. True) chain (cu, ndb) = (False, of_nat (length chain), st)"
    "fst st = fst peer'" "same_books (nd_ledger (snd peer')) (nd_ledger (snd st))"
    using sync_page_books [OF run, of "(cu, ndb)"] assms(3) same_books_csv by auto
  moreover have "mirrors (fst st) (snd st)"
    using sync_page_mirrors [of "(cu, ndb)" "mr_prims M" J now_ms "\<lambda>_. True" chain] assms(4) st(1) by simp
  ultimately show ?thesis
    using agree by (simp add: agrees_def)
qed

text \<open>The common block lies above the floor of the probe, below the tip of the branch.\<close>

lemma branch_floor:
  assumes "anchored P J cu (nd_store nd)" "sync_page P J now io rs (cu, nd) = (False, n0, cu1, nd1)"
    and "rs \<noteq> []" "unat (cu_height cu) + length rs < 2 ^ 62" "length rs < unat MAX_AUTO_REORG_DEPTH"
  shows "sat_sub (cu_height cu1) MAX_AUTO_REORG_DEPTH < cu_height cu" "cu_height cu \<noteq> cu_height cu1"
proof -
  have h1: "unat (cu_height cu1) = unat (cu_height cu) + length rs"
    using sync_page_height [OF assms(2)] assms(4) by simp
  moreover have "unat (cu_height cu) \<noteq> 0"
    using assms(1) by (simp add: anchored_def unat_eq_0)
  ultimately show "sat_sub (cu_height cu1) MAX_AUTO_REORG_DEPTH < cu_height cu"
    using assms(5) by (simp add: word_less_nat_alt unat_sat_sub)
  show "cu_height cu \<noteq> cu_height cu1"
    using h1 assms(3) by auto
qed

lemma branch_taken_back:
  assumes "hex_ok P" "anchored P J cu (nd_store nd)" "persisted (cu_height cu) (cu_height cu) (nd_ledger nd)" "mirrors cu nd"
    and page: "sync_page P J now (\<lambda>_. True) rs (cu, nd) = (False, n0, cu1, nd1)"
    and "fresh_branch rs (nd_store nd)" "\<forall>r \<in> set rs. csv_safe (br_miner_address r)" "unat (cu_height cu) + length rs < 2 ^ 62"
    and "unat (cu_work cu) + branch_work rs < 2 ^ 128" "da_epoch_start_height (cu_adjuster cu1) \<le> cu_height cu"
  obtains ndb where "roll_back P J True (Some (lg_csv (nd_ledger nd1))) (cu_height cu) (cu1, nd1) = Some (cu, ndb)"
    "nd_ledger ndb = (nd_ledger nd)\<lparr>lg_csv := lg_csv (nd_ledger nd1)\<rparr>" "mirrors cu ndb"
proof -
  obtain pool store where "roll_back P J True (Some (lg_csv (nd_ledger nd1))) (cu_height cu) (cu1, nd1) = Some (cu,
      \<lparr>nd_state = roll_back_state cu (lg_total_mined (nd_ledger nd)) pool (nd_state nd1),
       nd_ledger = (nd_ledger nd)\<lparr>lg_csv := lg_csv (nd_ledger nd1)\<rparr>, nd_store = store\<rparr>)" (is "?rb = _")
    by (rule branch_rolls_back [OF assms(1-3) page assms(6-10)])
  then obtain ndb where rb: "?rb = Some (cu, ndb)" "nd_ledger ndb = (nd_ledger nd)\<lparr>lg_csv := lg_csv (nd_ledger nd1)\<rparr>"
    by simp
  have "mirrors cu1 nd1"
    using sync_page_mirrors [of "(cu, nd)" P J now "\<lambda>_. True" rs] assms(4) page by simp
  with that [OF rb] roll_back_mirrors [OF rb(1)] show thesis by blast
qed

text \<open>C4: A node that has followed a lighter branch adopts the heavier branch of an honest miner: when both had the
  same chain at some block, and the node has since applied a branch of its own that stays within one difficulty
  epoch and the permitted depth, then after any run of the miner that is at least as high, has more work and
  shares no block above the common one, the reorganisation finds the common block over the miner's HTTP interface,
  rolls back to it and applies the miner's blocks. The node ends in the consensus state of the miner, with its
  balances, nonces and mined total.\<close>

theorem heavier_branch_adopted:
  assumes "hex_ok (mr_prims M)" "hash_ok (mr_prims M)" "fresh_system M start" "node_reach M start sy0" "plain_reach M sy0 sy" "running sy"
    and "archived (mr_serde M) (sy_cursor sy0) (sy_node sy0)" "anchored (mr_prims M) (mr_serde M) (sy_cursor sy0) (nd_store (sy_node sy0))"
    and "same_consensus (sy_cursor sy0) cu" "nd_ledger nd = nd_ledger (sy_node sy0)" "mirrors cu nd"
    and "anchored (mr_prims M) J cu (nd_store nd)" "persisted (cu_height cu) (cu_height cu) (nd_ledger nd)"
    and "sync_page (mr_prims M) J now (\<lambda>_. True) rs (cu, nd) = (False, n0, cu1, nd1)"
    and "rs \<noteq> []" "fresh_branch rs (nd_store nd)" "\<forall>r \<in> set rs. csv_safe (br_miner_address r)"
    and "unat (cu_work cu) + branch_work rs < 2 ^ 128" "da_epoch_start_height (cu_adjuster cu1) \<le> cu_height cu"
    and "unat (cu_height cu) + length rs < 2 ^ 62" "length rs < unat MAX_AUTO_REORG_DEPTH" "cu_height cu1 \<le> cu_height (sy_cursor sy)"
    and "\<forall>r \<in> set rs. block_hash_at (nd_store (sy_node sy)) (br_height r) \<noteq> Some (br_block_hash r)"
    and "ns_genesis_hash (nd_state nd1) = ns_genesis_hash (nd_state (sy_node sy))"
    and "length (ns_genesis_hash (nd_state (sy_node sy))) = 32"
    and "cu_work cu1 < cu_work (sy_cursor sy)" "\<forall>h. cu_last_ts (sy_cursor sy) \<le> now_ms h"
  shows "\<exists>n cu' nd'. reconcile_fork (mr_prims M) J now_ms (\<lambda>_. True) True (Some (lg_csv (nd_ledger nd1)))
        (\<lambda>a. fetch_peer_status (mr_prims M) a (Some (answer_of_status (handle_status (mr_prims M) (mr_serde M) instant secs (sy_node sy)))))
        (\<lambda>_ from_height to_height. Some (handle_chain_headers (mr_serde M) (Some from_height) (Some to_height) (sy_node sy)))
        [addr] (cu1, nd1) = Some (n, cu', nd')
    \<and> same_consensus (sy_cursor sy) cu' \<and> same_books (nd_ledger (sy_node sy)) (nd_ledger nd') \<and> mirrors cu' nd'
    \<and> unat (cu_height (sy_cursor sy)) = unat (cu_height cu) + unat n"
proof -
  let ?P = "mr_prims M" and ?h0 = "cu_height cu" and ?s = "nd_store (sy_node sy)"
  let ?fetch = "\<lambda>a b. Some (handle_chain_headers (mr_serde M) (Some a) (Some b) (sy_node sy))"
  have h0: "cu_height (sy_cursor sy0) = ?h0" "cu_tip_hash (sy_cursor sy0) = cu_tip_hash cu"
    using same_consensus_fields(1,2) [OF assms(9)] by simp_all
  have "agrees (sy_cursor sy0) (sy_node sy0) (cu, nd)"
    using assms(9,10) by (simp add: agrees_def)
  from miner_chain [OF assms(1,3-7) this, of J] obtain chain where
    chain: "replayed M J ?h0 (cu, nd) chain (sy_cursor sy) (sy_node sy)"
    and len: "unat (of_nat (length chain) :: u64) = length chain"
      "cu_height (sy_cursor sy) = ?h0 + of_nat (length chain)"
      "unat (cu_height (sy_cursor sy)) = unat ?h0 + length chain"
    and h: "unat (cu_height (sy_cursor sy)) \<le> 2 ^ 62" and tr: "tracks (sy_cursor sy) (sy_node sy)"
    unfolding h0 by blast
  note page = assms(14)
  note floor = branch_floor [OF assms(12) page assms(15,20,21)]
  obtain b where "store_lookup (mr_serde M) (nd_store (sy_node sy0)) ?h0 = Some b" "hex_to_32 ?P (br_block_hash b) = Some (cu_tip_hash cu)"
    using assms(8) by (auto simp: anchored_def h0)
  then have probe: "probe_fork ?P (nd_store nd1) ?fetch (sat_sub (cu_height cu1) MAX_AUTO_REORG_DEPTH) (cu_height cu1) = Some ?h0"
    using run_keeps_lookup [OF assms(5,4,1,3,6,7), of ?h0] h0(1)
    by (intro ancestor_found [OF assms(1,2) chain h assms(12) page assms(16,20,22) floor(1) _ _ assms(23)]) simp_all
  obtain ndb where rb: "roll_back ?P J True (Some (lg_csv (nd_ledger nd1))) ?h0 (cu1, nd1) = Some (cu, ndb)"
    "nd_ledger ndb = (nd_ledger nd)\<lparr>lg_csv := lg_csv (nd_ledger nd1)\<rparr>" "mirrors cu ndb"
    by (rule branch_taken_back [OF assms(1,12,13,11) page assms(16,17,20,18,19)])
  from replay_after_rollback [OF chain assms(27) rb(2,3)] obtain st where
    run2: "sync_page ?P J now_ms (\<lambda>_. True) chain (cu, ndb) = (False, of_nat (length chain), st)"
    and st: "same_consensus (sy_cursor sy) (fst st)" "same_books (nd_ledger (sy_node sy)) (nd_ledger (snd st))" "mirrors (fst st) (snd st)"
    by blast
  have tip: "ns_chain_height (nd_state (sy_node sy)) = cu_height (sy_cursor sy)"
    "ns_chain_work (nd_state (sy_node sy)) = cu_work (sy_cursor sy)"
    using tr by (simp_all add: tracks_def Let_def)
  have fwd: "sync_forward ?P J now_ms (\<lambda>_. True) ?fetch (cu_height (sy_cursor sy)) (cu, ndb) = Some (of_nat (length chain), st)"
    using sync_chain_rest [OF _ _ _ _ miner_serves [OF chain h], of "cu_height (sy_cursor sy)" "(cu, ndb)" 0 ?P J now_ms "\<lambda>_. True"]
      len h run2 by simp
  have "\<not> cu_height (sy_cursor sy) < cu_height cu1" "\<not> ?h0 \<le> sat_sub (cu_height cu1) MAX_AUTO_REORG_DEPTH"
    "\<not> ?h0 < da_epoch_start_height (cu_adjuster cu1)" "?h0 \<noteq> cu_height cu1"
    using assms(19,22) floor by (simp_all add: not_less not_le)
  then have "reconcile_with ?P J now_ms (\<lambda>_. True) True (Some (lg_csv (nd_ledger nd1))) ?fetch (cu_height (sy_cursor sy)) (cu1, nd1)
      = Some (of_nat (length chain), st)"
    using probe rb(1) fwd by (simp add: reconcile_with_def Let_def del: not_less not_le)
  then show ?thesis
    using st len assms(24-26) tip
    by (intro exI [of _ "of_nat (length chain)"] exI [of _ "fst st"] exI [of _ "snd st"])
      (simp add: reconcile_fork_def best_peer_by_work_def select_best_peer_def fetch_status_of_handle [OF assms(1)]
        List.map_filter_simps)
qed

section \<open>Two sample branches\<close>

lemma plain_reach_trans: "plain_reach M b c \<Longrightarrow> plain_reach M a b \<Longrightarrow> plain_reach M a c"
  by (induction rule: plain_reach.induct) (auto intro: plain_reach.intros)

text \<open>A stand-in for BLAKE3 that tells headers apart by their timestamps and nullifiers by their heights.\<close>

definition window_hash :: "bytes \<Rightarrow> bytes" where
  "window_hash x = take 32 (drop (if take 12 x = TAG_NULLIFIER then 12 else 118) x @ zeros 32)"

definition window_prims :: prims where
  "window_prims = sample_prims\<lparr>blake3 := window_hash\<rparr>"

definition window_mr :: miner where
  "window_mr = sample_mr\<lparr>mr_prims := window_prims, mr_keypair := keypair_generate window_prims (zeros 32) 0\<rparr>"

definition window_system :: system where
  "window_system = sample_system\<lparr>sy_node := base_node\<rparr>"

lemma window_sel [simp]:
  "blake3 window_prims = window_hash" "hex_encode window_prims = sample_hex" "hex_decode window_prims = sample_unhex"
  "mr_prims window_mr = window_prims" "mr_serde window_mr = sample_serde" "mr_threads window_mr = 1"
  "sy_cursor window_system = sample_tip" "sy_node window_system = base_node"
  by (simp_all add: window_prims_def window_mr_def window_system_def sample_mr_def sample_system_def)

lemma length_window_hash [simp]: "length (window_hash x) = 32"
  by (simp add: window_hash_def min_def)

lemma window_ok: "hash_ok window_prims" "hex_ok window_prims" "honest window_mr"
proof -
  show "hash_ok window_prims"
    by (simp add: hash_ok_def window_prims_def)
  show "hex_ok window_prims"
    using sample_hex_ok by (simp add: hex_ok_def)
  have "sig_ok window_prims"
    using sample_sig_ok by (simp add: sig_ok_def window_prims_def)
  then show "honest window_mr"
    by (auto simp: honest_def window_mr_def sample_mr_def intro!: exI [of _ "zeros 32"])
qed

lemma window_header:
  assumes "header_wf h"
  shows "take 8 (header_hash window_prims h) = le_bytes 8 (h_timestamp h)"
proof -
  have "take 12 (header_preimage h) \<noteq> TAG_NULLIFIER"
  proof
    assume "take 12 (header_preimage h) = TAG_NULLIFIER"
    then have "take 6 (take 12 (header_preimage h)) = take 6 TAG_NULLIFIER" by simp
    moreover have "take 6 (take 12 (header_preimage h)) = take 6 DOMAIN_TAG"
      by (simp add: header_preimage_def DOMAIN_TAG_def)
    moreover have "take 6 DOMAIN_TAG \<noteq> take 6 TAG_NULLIFIER" by code_simp
    ultimately show False by simp
  qed
  moreover have "drop 118 (header_preimage h) = le_bytes 8 (h_timestamp h) @ le_bytes 8 (h_nonce h)
      @ h_miner_address h @ le_bytes 4 (h_difficulty_bits h) @ h_bitcoin_seed_hash h"
    using assms by (simp add: header_preimage_def header_wf_def DOMAIN_TAG_def)
  ultimately show ?thesis
    by (simp add: header_hash_def window_hash_def)
qed

lemma window_nullifier: "take 8 (window_hash (nullifier_preimage h out)) = le_bytes 8 h"
proof -
  have "length TAG_NULLIFIER = 12" by (simp add: TAG_NULLIFIER_def)
  then show ?thesis
    by (simp add: window_hash_def nullifier_preimage_def)
qed

text \<open>The timestamps of the blocks in a store.\<close>

definition stamped :: "block_store \<Rightarrow> u64 set \<Rightarrow> bool" where
  "stamped s T \<longleftrightarrow> (\<forall>row \<in> set (bs_blocks s). \<exists>b t. row_block_hash row = sample_hex b \<and> take 8 b = le_bytes 8 t \<and> t \<in> T)"

lemma le_bytes_u64: "le_bytes 8 (a :: u64) = le_bytes 8 b \<longleftrightarrow> a = b"
  using le_bytes_inj [of 8 a b] by auto

lemma stamped_fresh:
  assumes "stamped s T" "header_wf h" "h_timestamp h \<notin> T" "row \<in> set (bs_blocks s)"
  shows "row_block_hash row \<noteq> sample_hex (header_hash window_prims h)"
proof
  assume "row_block_hash row = sample_hex (header_hash window_prims h)"
  moreover obtain b t where "row_block_hash row = sample_hex b" "take 8 b = le_bytes 8 t" "t \<in> T"
    using assms(1,4) unfolding stamped_def by blast
  ultimately have "le_bytes 8 (h_timestamp h) = le_bytes 8 t"
    using window_header [OF assms(2)] hex_encode_inj [OF sample_hex_ok] by simp
  with assms(3) \<open>t \<in> T\<close> show False by (simp add: le_bytes_u64)
qed

lemma window_base:
  "fresh_system window_mr window_system" "stamped (nd_store base_node) {0x0707070707070707}"
proof -
  have "supply_ok base_ledger"
    using ledger_history_invariant [OF sample_history sample_hex_ok] by (simp add: base_ledger_def)
  moreover have "tracks sample_tip base_node"
    by (simp add: tracks_def Let_def base_node_def sample_tip_def sample_state_def initial_state_def)
  moreover have "mempool_ok window_prims sample_serde base_node"
    by (simp add: mempool_ok_def base_node_def sample_state_def initial_state_def store_open_def insert_block_def Let_def)
  moreover have "sy_phase window_system = Idle" "sy_inflight window_system = []" "ns_pending_claims (nd_state base_node) = []"
    "ns_nullifiers (nd_state base_node) = []" "nd_ledger base_node = base_ledger" "unat (cu_last_ts sample_tip) \<le> 2 ^ 63"
    by (simp_all add: window_system_def sample_system_def base_node_def sample_state_def initial_state_def sample_tip_def)
  ultimately show "fresh_system window_mr window_system"
    by (simp add: fresh_system_def spent_inv_def)
  have "bs_blocks (nd_store base_node) = [record_to_row base_record]"
    by (simp add: base_node_def insert_block_def Let_def store_open_def)
  moreover have "row_block_hash (record_to_row base_record) = sample_hex (replicate 32 7)"
    by (simp add: record_to_row_def base_record_def)
  moreover have "replicate 8 x = [x, x, x, x, x, x, x, x]" for x :: byte
    by code_simp
  then have "nat_of_le (replicate 8 7) = 0x0707070707070707"
    by simp
  then have "from_le_bytes (replicate 8 7) = (0x0707070707070707 :: u64)"
    by (simp add: from_le_bytes_def)
  then have "take 8 (replicate 32 7) = le_bytes 8 (0x0707070707070707 :: u64)"
    using le_bytes_from_le_bytes [of "replicate 8 7", where 'a = 64] by simp
  ultimately show "stamped (nd_store base_node) {0x0707070707070707}"
    unfolding stamped_def by (intro ballI exI [of _ "replicate 32 7"] exI [of _ "0x0707070707070707"]) simp
qed

lemma window_block:
  assumes "fresh_system window_mr sy" "unat (cu_height (sy_cursor sy)) < 2 ^ 62"
    and "\<not> is_checkpoint_height (cu_height (sy_cursor sy) + 1)" "(cu_height (sy_cursor sy) + 1) mod EPOCH_SIZE \<noteq> 0"
    and "da_current_bits (cu_adjuster (sy_cursor sy)) = 0" "unat (cu_last_ts (sy_cursor sy)) < 2 ^ 63"
    and "length (cu_tip_hash (sy_cursor sy)) = 32" "length (cu_btc_seed (sy_cursor sy)) = 32"
    and "stamped (nd_store (sy_node sy)) T" "max now (sat_add (cu_last_ts (sy_cursor sy)) 1) = ts" "ts \<notin> T" "unat now < 2 ^ 63"
  obtains sy' header r st where "plain_reach window_mr sy sy'" "fresh_system window_mr sy'" "header_wf header" "h_timestamp header = ts"
    "sy_cursor sy' = (sy_cursor sy)\<lparr>cu_height := cu_height (sy_cursor sy) + 1, cu_tip_hash := header_hash window_prims header,
      cu_last_ts := ts, cu_work := sat_add (cu_work (sy_cursor sy)) 1\<rparr>"
    "ns_genesis_hash (nd_state (sy_node sy')) = ns_genesis_hash (nd_state (sy_node sy))"
    "nd_store (sy_node sy') = insert_block sample_serde r st" "bs_blocks st = bs_blocks (nd_store (sy_node sy))"
    "br_height r = cu_height (sy_cursor sy) + 1" "br_block_hash r = sample_hex (header_hash window_prims header)"
    "csv_safe (br_miner_address r)" "stamped (nd_store (sy_node sy')) (insert ts T)"
proof -
  have addr: "length (keypair_address (mr_prims window_mr) (mr_keypair window_mr)) = 20"
    by (simp add: keypair_address_def wpk_address_def)
  have spent: "\<forall>out. blake3 (mr_prims window_mr) (nullifier_preimage (cu_height (sy_cursor sy) + 1) out)
      \<notin> set (ns_nullifiers (nd_state (sy_node sy)))"
  proof (intro allI notI)
    fix out assume "blake3 (mr_prims window_mr) (nullifier_preimage (cu_height (sy_cursor sy) + 1) out) \<in> set (ns_nullifiers (nd_state (sy_node sy)))"
    then obtain h out' where "h \<le> cu_height (sy_cursor sy)"
      "window_hash (nullifier_preimage (cu_height (sy_cursor sy) + 1) out) = window_hash (nullifier_preimage h out')"
      using assms(1) by (auto simp: fresh_system_def spent_inv_def)
    then have "cu_height (sy_cursor sy) + 1 \<le> cu_height (sy_cursor sy)"
      using window_nullifier le_bytes_u64 by metis
    then show False
      using unat_next_height [OF less_imp_le [OF assms(2)]] by (simp add: word_le_nat_alt)
  qed
  have fresh: "\<forall>h row. header_wf h \<and> h_timestamp h = max now (sat_add (cu_last_ts (sy_cursor sy)) 1)
      \<and> row \<in> set (bs_blocks (nd_store (sy_node sy))) \<longrightarrow> row_block_hash row \<noteq> hex_encode (mr_prims window_mr) (header_hash (mr_prims window_mr) h)"
    using stamped_fresh [OF assms(9)] assms(10,11) by simp
  have P: "hex_ok (mr_prims window_mr)" "hash_ok (mr_prims window_mr)" using window_ok by simp_all
  obtain sy' header r st where b: "plain_reach window_mr sy sy'" "fresh_system window_mr sy'" "header_wf header"
    and ts: "h_timestamp header = max now (sat_add (cu_last_ts (sy_cursor sy)) 1)"
    and cu: "sy_cursor sy' = (sy_cursor sy)\<lparr>cu_height := cu_height (sy_cursor sy) + 1, cu_tip_hash := header_hash (mr_prims window_mr) header,
      cu_last_ts := h_timestamp header, cu_work := sat_add (cu_work (sy_cursor sy)) 1,
      cu_adjuster := snd (record_block (cu_height (sy_cursor sy) + 1) (h_timestamp header) (cu_adjuster (sy_cursor sy)))\<rparr>"
    and g: "ns_genesis_hash (nd_state (sy_node sy')) = ns_genesis_hash (nd_state (sy_node sy))"
    and st: "nd_store (sy_node sy') = insert_block (mr_serde window_mr) r st" "bs_blocks st = bs_blocks (nd_store (sy_node sy))"
    and r: "br_height r = cu_height (sy_cursor sy) + 1" "br_block_hash r = hex_encode (mr_prims window_mr) (header_hash (mr_prims window_mr) header)"
      "csv_safe (br_miner_address r)"
    by (rule easy_block [OF assms(1) P(1) window_ok(3) window_sel(6) assms(2,3,5,12) P(2) assms(6-8) addr spent fresh])
  have "sy_cursor sy' = (sy_cursor sy)\<lparr>cu_height := cu_height (sy_cursor sy) + 1, cu_tip_hash := header_hash window_prims header,
      cu_last_ts := ts, cu_work := sat_add (cu_work (sy_cursor sy)) 1\<rparr>"
    using cu ts assms(4,10) by (simp add: record_block_def)
  moreover have "stamped (nd_store (sy_node sy')) (insert ts T)"
    unfolding stamped_def
  proof
    fix row assume "row \<in> set (bs_blocks (nd_store (sy_node sy')))"
    then have "row = record_to_row r \<or> row \<in> set (bs_blocks (nd_store (sy_node sy)))"
      by (auto simp: st insert_block_def Let_def)
    then show "\<exists>b t. row_block_hash row = sample_hex b \<and> take 8 b = le_bytes 8 t \<and> t \<in> insert ts T"
    proof
      assume "row = record_to_row r"
      then show ?thesis
        using window_header [OF b(3)] ts assms(10) r(2)
        by (intro exI [of _ "header_hash window_prims header"] exI [of _ ts]) (simp add: record_to_row_def)
    next
      assume "row \<in> set (bs_blocks (nd_store (sy_node sy)))"
      then show ?thesis using assms(9) unfolding stamped_def by blast
    qed
  qed
  ultimately show thesis
    using ts assms(10) st r b g by (intro that [of sy' header r st]) simp_all
qed

lemma window_tip: "unat (cu_height sample_tip) < 2 ^ 62" "\<not> is_checkpoint_height (cu_height sample_tip + 1)"
  "(cu_height sample_tip + 1) mod EPOCH_SIZE \<noteq> 0" "\<not> is_checkpoint_height (cu_height sample_tip + 1 + 1)"
  "(cu_height sample_tip + 1 + 1) mod EPOCH_SIZE \<noteq> 0" "da_current_bits (cu_adjuster sample_tip) = 0"
  "length (cu_tip_hash sample_tip) = 32" "length (cu_btc_seed sample_tip) = 32" "cu_work sample_tip = 0"
  "cu_last_ts sample_tip = 1000000" "unat (cu_height sample_tip + 1) < 2 ^ 62"
proof -
  have "\<not> is_checkpoint_height 3"
    by (simp add: is_checkpoint_height_def BTC_CHECKPOINT_INTERVAL_def sat_sub_def word_le_nat_alt)
  then show "\<not> is_checkpoint_height (cu_height sample_tip + 1 + 1)" by simp
qed (simp_all add: EPOCH_SIZE_def word_mod_def, simp_all add: sample_tip_def)

lemma inserted_lookup:
  assumes "store_lookup J (insert_block J r s) (br_height r) = Some x"
  shows "br_block_hash x = br_block_hash r" "br_miner_address x = br_miner_address r"
proof -
  have "find (\<lambda>row. row_height row = as_i64 (br_height r)) (bs_blocks (insert_block J r s)) = Some (record_to_row r)"
    by (simp add: insert_block_def Let_def find_append_if find_filter_none record_to_row_def)
  then show "br_block_hash x = br_block_hash r" "br_miner_address x = br_miner_address r"
    using assms by (auto simp: store_lookup_def store_get_def res_bind_def row_to_record_def record_to_row_def Let_def
        split: sum.splits)
qed

lemma window_anchored:
  "anchored window_prims sample_serde sample_tip (nd_store base_node)" "archived sample_serde sample_tip base_node"
proof -
  have "hex_to_32 window_prims = hex_to_32 sample_prims"
    by (simp add: fun_eq_iff hex_to_32_def Let_def)
  then show "anchored window_prims sample_serde sample_tip (nd_store base_node)"
    using base_anchored by (simp add: anchored_def)
  show "archived sample_serde sample_tip base_node"
    using base_anchored by (auto simp: archived_def anchored_def base_lookup)
qed

text \<open>One branch of one block at time 1000050, another of two blocks at times 1000001 and 1000002.\<close>

lemma light_branch:
  obtains r cu1 nd1 header where "sync_page window_prims sample_serde (\<lambda>_. - 1) (\<lambda>_. True) [r] (sample_tip, base_node) = (False, 1, cu1, nd1)"
    "cu_height cu1 = 2" "cu_work cu1 = 1" "cu_adjuster cu1 = cu_adjuster sample_tip"
    "csv_safe (br_miner_address r)" "br_block_hash r = sample_hex (header_hash window_prims header)"
    "header_wf header" "h_timestamp header = 1000050"
proof -
  have tip: "stamped (nd_store (sy_node window_system)) {0x0707070707070707}"
    "max 1000050 (sat_add (cu_last_ts (sy_cursor window_system)) 1) = 1000050"
    using window_base(2) by (simp_all add: window_tip(10) sat_add_def)
  obtain sy header r st where b: "plain_reach window_mr window_system sy" "fresh_system window_mr sy"
    and h: "header_wf header" "h_timestamp header = 1000050"
    and cu: "sy_cursor sy = (sy_cursor window_system)\<lparr>cu_height := cu_height (sy_cursor window_system) + 1,
      cu_tip_hash := header_hash window_prims header, cu_last_ts := 1000050, cu_work := sat_add (cu_work (sy_cursor window_system)) 1\<rparr>"
    and st: "nd_store (sy_node sy) = insert_block sample_serde r st"
    and r: "br_height r = cu_height (sy_cursor window_system) + 1" "br_block_hash r = sample_hex (header_hash window_prims header)"
      "csv_safe (br_miner_address r)"
    by (rule window_block [OF window_base(1) _ _ _ _ _ _ _ tip])
      (use window_tip in \<open>simp_all del: sample_height_2 sample_tip_sel\<close>)
  have "agrees (sy_cursor window_system) (sy_node window_system) (sample_tip, base_node)"
    by (simp add: agrees_def same_consensus_refl)
  moreover have run: "running sy" using b(2) by (simp add: fresh_system_def running_def)
  moreover have "archived (mr_serde window_mr) (sy_cursor window_system) (sy_node window_system)"
    using window_anchored(2) by simp
  ultimately obtain chain where chain: "replayed window_mr sample_serde 1 (sample_tip, base_node) chain (sy_cursor sy) (sy_node sy)"
    "unat (cu_height (sy_cursor sy)) = unat (cu_height sample_tip) + length chain"
    using miner_chain [OF _ window_base(1) node_reach.begin_run b(1), of "(sample_tip, base_node)" sample_serde] window_ok(2)
    by auto
  obtain x where x: "chain = [x]"
    using chain(2) cu by (cases chain; cases "tl chain") (auto)
  have "store_lookup sample_serde (nd_store (sy_node sy)) 2 = Some x"
    using chain(1) cu by (simp add: replayed_def x)
  then have sel: "br_block_hash x = br_block_hash r" "br_miner_address x = br_miner_address r"
    using inserted_lookup [of sample_serde r st x] st(1) r(1) by simp_all
  obtain peer where "sync_page window_prims sample_serde (\<lambda>_. - 1) (\<lambda>_. True) chain (sample_tip, base_node) = (False, of_nat (length chain), peer)"
    "agrees (sy_cursor sy) (sy_node sy) peer"
    using chain(1) unfolding replayed_def by fastforce
  moreover from this have "cu_height (fst peer) = 2" "cu_work (fst peer) = 1" "cu_adjuster (fst peer) = cu_adjuster sample_tip"
    using same_consensus_fields [of "sy_cursor sy" "fst peer"] cu by (simp_all add: agrees_def window_tip(9) sat_add_def)
  ultimately show thesis
    using that [of x "fst peer" "snd peer" header] x sel r(2,3) h by simp
qed

lemma heavy_branch:
  obtains sy where "plain_reach window_mr window_system sy" "running sy" "cu_height (sy_cursor sy) = 3" "cu_work (sy_cursor sy) = 2"
    "stamped (nd_store (sy_node sy)) {1000002, 1000001, 0x0707070707070707}"
    "ns_genesis_hash (nd_state (sy_node sy)) = replicate 32 7"
proof -
  have tip: "stamped (nd_store (sy_node window_system)) {0x0707070707070707}"
    "max 0 (sat_add (cu_last_ts (sy_cursor window_system)) 1) = 1000001"
    using window_base(2) by (simp_all add: window_tip(10) sat_add_def)
  obtain sy1 h1 where b1: "plain_reach window_mr window_system sy1" "fresh_system window_mr sy1"
    and cu1: "sy_cursor sy1 = (sy_cursor window_system)\<lparr>cu_height := cu_height (sy_cursor window_system) + 1,
      cu_tip_hash := header_hash window_prims h1, cu_last_ts := 1000001, cu_work := sat_add (cu_work (sy_cursor window_system)) 1\<rparr>"
    and g1: "ns_genesis_hash (nd_state (sy_node sy1)) = ns_genesis_hash (nd_state (sy_node window_system))"
    and s1: "stamped (nd_store (sy_node sy1)) {1000001, 0x0707070707070707}"
    by (rule window_block [OF window_base(1) _ _ _ _ _ _ _ tip])
      (use window_tip in \<open>simp_all del: sample_height_2 sample_tip_sel\<close>)
  have tip2: "max 0 (sat_add (cu_last_ts (sy_cursor sy1)) 1) = 1000002"
    by (simp add: cu1 sat_add_def)
  obtain sy2 h2 where b2: "plain_reach window_mr sy1 sy2" "fresh_system window_mr sy2"
    and cu2: "sy_cursor sy2 = (sy_cursor sy1)\<lparr>cu_height := cu_height (sy_cursor sy1) + 1,
      cu_tip_hash := header_hash window_prims h2, cu_last_ts := 1000002, cu_work := sat_add (cu_work (sy_cursor sy1)) 1\<rparr>"
    and g2: "ns_genesis_hash (nd_state (sy_node sy2)) = ns_genesis_hash (nd_state (sy_node sy1))"
    and s2: "stamped (nd_store (sy_node sy2)) {1000002, 1000001, 0x0707070707070707}"
    by (rule window_block [OF b1(2) _ _ _ _ _ _ _ s1 tip2])
      (use window_tip window_ok(1) in \<open>simp_all add: cu1 del: sample_height_2 sample_tip_sel\<close>)
  have "plain_reach window_mr window_system sy2"
    by (rule plain_reach_trans [OF b2(1) b1(1)])
  moreover have "ns_genesis_hash (nd_state base_node) = replicate 32 7"
    by (simp add: base_node_def sample_state_def)
  ultimately show thesis
    using b2(2) cu1 cu2 g1 g2 s2
    by (intro that [of sy2]) (simp_all add: running_def fresh_system_def window_tip(9) sat_add_def)
qed

lemma sync_page_genesis:
  "ns_genesis_hash (nd_state (snd (snd (snd (sync_page P J now io rs st))))) = ns_genesis_hash (nd_state (snd st))"
  by (rule sync_page_invariant [of "\<lambda>x. ns_genesis_hash (nd_state (snd x)) = ns_genesis_hash (nd_state (snd st))"])
    (simp_all add: sync_apply_def Let_def sync_state_def case_prod_unfold)

theorem heavier_branch_adopted_witness:
  "\<exists>r cu1 nd1 sy n cu' nd'. sync_page window_prims sample_serde (\<lambda>_. - 1) (\<lambda>_. True) [r] (sample_tip, base_node) = (False, 1, cu1, nd1)
    \<and> plain_reach window_mr window_system sy \<and> cu_height cu1 = 2 \<and> cu_height (sy_cursor sy) = 3
    \<and> reconcile_fork window_prims sample_serde (\<lambda>_. - 1) (\<lambda>_. True) True (Some (lg_csv (nd_ledger nd1)))
        (\<lambda>a. fetch_peer_status window_prims a (Some (answer_of_status (handle_status window_prims sample_serde 0 0 (sy_node sy)))))
        (\<lambda>_ from_height to_height. Some (handle_chain_headers sample_serde (Some from_height) (Some to_height) (sy_node sy)))
        [()] (cu1, nd1) = Some (n, cu', nd')
    \<and> cu_height cu' = 3 \<and> lg_balances (nd_ledger nd') = lg_balances (nd_ledger (sy_node sy))"
proof -
  obtain r cu1 nd1 header where page: "sync_page window_prims sample_serde (\<lambda>_. - 1) (\<lambda>_. True) [r] (sample_tip, base_node) = (False, 1, cu1, nd1)"
    and cu1: "cu_height cu1 = 2" "cu_work cu1 = 1" "cu_adjuster cu1 = cu_adjuster sample_tip"
    and r: "csv_safe (br_miner_address r)" "br_block_hash r = sample_hex (header_hash window_prims header)"
    and h: "header_wf header" "h_timestamp header = 1000050"
    by (rule light_branch)
  obtain sy where sy: "plain_reach window_mr window_system sy" "running sy" "cu_height (sy_cursor sy) = 3" "cu_work (sy_cursor sy) = 2"
    and stamps: "stamped (nd_store (sy_node sy)) {1000002, 1000001, 0x0707070707070707}"
    and g: "ns_genesis_hash (nd_state (sy_node sy)) = replicate 32 7"
    by (rule heavy_branch)
  have "row_block_hash row \<noteq> br_block_hash r" if "row \<in> set (bs_blocks (nd_store (sy_node sy)))" for row
    using stamped_fresh [OF stamps h(1) _ that] h(2) r(2) by simp
  then have differ: "\<forall>r \<in> set [r]. block_hash_at (nd_store (sy_node sy)) (br_height r) \<noteq> Some (br_block_hash r)"
    by (auto simp: block_hash_at_def simp: find_Some_iff)
  have "row_block_hash row \<noteq> br_block_hash r" if "row \<in> set (bs_blocks (nd_store base_node))" for row
    using stamped_fresh [OF window_base(2) h(1) _ that] h(2) r(2) by simp
  then have fresh: "fresh_branch [r] (nd_store base_node)"
    by (auto simp: fresh_branch_def hash_fresh_def)
  have g1: "ns_genesis_hash (nd_state nd1) = replicate 32 7"
    using sync_page_genesis [of window_prims sample_serde "\<lambda>_. - 1" "\<lambda>_. True" "[r]" "(sample_tip, base_node)"] page
    by (simp add: base_node_def sample_state_def)
  have m: "mirrors sample_tip base_node"
    by (simp add: mirrors_def Let_def base_node_def) (simp add: sample_tip_def sample_state_def initial_state_def)
  have work: "unat (cu_work sample_tip) + branch_work [r] < 2 ^ 128"
    by (simp add: branch_work_def window_tip(9)) (rule less_le_trans [OF unsigned_less], simp)
  have depth: "length [r] < unat MAX_AUTO_REORG_DEPTH"
    by (simp add: MAX_AUTO_REORG_DEPTH_def EPOCH_SIZE_def)
  have start: "nd_ledger base_node = nd_ledger (sy_node window_system)" "persisted (cu_height sample_tip) (cu_height sample_tip) (nd_ledger base_node)"
    "same_consensus (sy_cursor window_system) sample_tip"
    "anchored (mr_prims window_mr) (mr_serde window_mr) (sy_cursor window_system) (nd_store (sy_node window_system))"
    "archived (mr_serde window_mr) (sy_cursor window_system) (sy_node window_system)"
    using base_persisted window_anchored by (simp_all add: same_consensus_refl) (simp add: base_node_def)
  have P: "hex_ok (mr_prims window_mr)" "hash_ok (mr_prims window_mr)" using window_ok by simp_all
  have "da_epoch_start_height (cu_adjuster cu1) \<le> cu_height sample_tip" "cu_height cu1 \<le> cu_height (sy_cursor sy)"
    "cu_work cu1 < cu_work (sy_cursor sy)" "[r] \<noteq> []" "\<forall>r \<in> set [r]. csv_safe (br_miner_address r)"
    "unat (cu_height sample_tip) + length [r] < 2 ^ 62"
    using cu1 sy(3,4) r(1) by (simp_all add: word_le_nat_alt word_less_nat_alt) (simp add: sample_tip_def)
  then obtain n cu' nd' where "reconcile_fork window_prims sample_serde (\<lambda>_. - 1) (\<lambda>_. True) True (Some (lg_csv (nd_ledger nd1)))
        (\<lambda>a. fetch_peer_status window_prims a (Some (answer_of_status (handle_status window_prims sample_serde 0 0 (sy_node sy)))))
        (\<lambda>_ from_height to_height. Some (handle_chain_headers sample_serde (Some from_height) (Some to_height) (sy_node sy)))
        [()] (cu1, nd1) = Some (n, cu', nd')"
    "same_consensus (sy_cursor sy) cu'" "same_books (nd_ledger (sy_node sy)) (nd_ledger nd')"
    using heavier_branch_adopted [OF P window_base(1) node_reach.begin_run sy(1,2) start(5,4,3,1) m _ start(2) page [folded window_sel(4)]
        _ fresh _ work _ _ depth _ differ, of "\<lambda>_. - 1" 0 0 "()"] window_anchored(1) g g1
    by auto
  then show ?thesis
    using page sy(1,3) cu1(1) same_consensus_fields(1) [of "sy_cursor sy" cu']
    by (intro exI [of _ r] exI [of _ cu1] exI [of _ nd1] exI [of _ sy] exI [of _ n] exI [of _ cu'] exI [of _ nd'])
      (simp add: same_books_fields)
qed

end
