(* ===== verification/Core_Tests.thy ===== *)
theory Core_Tests
  imports Ledger_Csv Difficulty Claims Randomness Btc_Entropy Secure_Memory
begin

text \<open>
  The unit tests of the core library (\<^verbatim>\<open>mod tests\<close> of \<^verbatim>\<open>block.rs\<close>, \<^verbatim>\<open>claims.rs\<close>, \<^verbatim>\<open>transaction.rs\<close>,
  \<^verbatim>\<open>rewards.rs\<close>, \<^verbatim>\<open>randomness.rs\<close>, \<^verbatim>\<open>difficulty.rs\<close>, \<^verbatim>\<open>crypto.rs\<close>, \<^verbatim>\<open>bitcoin_entropy.rs\<close> and
  \<^verbatim>\<open>secure_memory.rs\<close>) run on the model: one definition per test, the value of its assertions, with the wallets it
  generates as arguments; the lemmas show that it holds for every such wallet. \<^verbatim>\<open>unwrap\<close> of an error fails the test.
  Where a test relies on two hash values being different, the lemma has that as a hypothesis.
\<close>

section \<open>Common to the tests\<close>

definition on_ok :: "'e + 'a \<Rightarrow> ('a \<Rightarrow> bool) \<Rightarrow> bool" where
  "on_ok r rest = (case r of Inl _ \<Rightarrow> False | Inr x \<Rightarrow> rest x)"

lemma on_ok_simps [simp]: "on_ok (Inr x) rest = rest x" "on_ok (Inl e) rest = False"
  by (simp_all add: on_ok_def)

text \<open>\<^verbatim>\<open>WalletKeypair::generate\<close>: a seed and the randomness of Falcon.\<close>

definition test_wallet :: "prims \<Rightarrow> wallet_keypair \<Rightarrow> bool" where
  "test_wallet P kp \<longleftrightarrow> (\<exists>seed r. length seed = 32 \<and> kp = keypair_generate P seed r)"

lemma keypair_address_hex: "wpk_address P (kp_public kp) = keypair_address P kp"
  by (simp add: keypair_address_def)

section \<open>Blocks\<close>

definition genesis_hash_is_deterministic :: "prims \<Rightarrow> bool" where
  "genesis_hash_is_deterministic P = (header_hash P (genesis_header P) = header_hash P (genesis_header P))"

definition timestamp_must_be_strictly_after_previous :: bool where
  "timestamp_must_be_strictly_after_previous =
     (\<not> timestamp_is_valid 1000 1000 1000 30000 \<and> \<not> timestamp_is_valid 999 1000 1000 30000 \<and> timestamp_is_valid 1001 1000 1001 30000)"

definition timestamp_future_bound_enforced :: bool where
  "timestamp_future_bound_enforced =
     (let now = 1000000 in timestamp_is_valid (now + 30000) 0 now 30000 \<and> \<not> timestamp_is_valid (now + 30001) 0 now 30000)"

definition meets_difficulty_exact :: bool where
  "meets_difficulty_exact =
     (let hash = (replicate 32 0xff)[0 := 0, 1 := 0] in
      meets_difficulty hash 16 \<and> \<not> meets_difficulty hash 17 \<and> meets_difficulty (zeros 32) 256)"

definition leading_zero_bits_counts_correctly :: bool where
  "leading_zero_bits_counts_correctly = (leading_zero_bits ((zeros 32)[2 := 0x1f]) = 19)"

lemma block_tests:
  "genesis_hash_is_deterministic P" "timestamp_must_be_strictly_after_previous" "timestamp_future_bound_enforced"
  "meets_difficulty_exact" "leading_zero_bits_counts_correctly"
proof -
  show "genesis_hash_is_deterministic P" by (simp add: genesis_hash_is_deterministic_def)
  show "timestamp_must_be_strictly_after_previous" "timestamp_future_bound_enforced"
    by (simp_all add: timestamp_must_be_strictly_after_previous_def timestamp_future_bound_enforced_def timestamp_is_valid_def Let_def
      word_le_nat_alt unat_sat_add word_less_nat_alt)
  show "meets_difficulty_exact" "leading_zero_bits_counts_correctly" by code_simp+
qed

section \<open>Claims\<close>

definition header_for :: "prims \<Rightarrow> wallet_keypair \<Rightarrow> u64 \<Rightarrow> l1_header" where
  "header_for P kp nonce =
     \<lparr>h_version = 1, h_height = 1, h_prev_hash = replicate 32 1, h_merkle_root = zeros 32, h_state_root = replicate 32 3,
      h_timestamp = 1800000000, h_nonce = nonce, h_miner_address = keypair_address P kp, h_difficulty_bits = 0,
      h_bitcoin_seed_hash = replicate 32 2\<rparr>"

definition signed_claim_verifies_and_binds_address :: "prims \<Rightarrow> nat \<Rightarrow> wallet_keypair \<Rightarrow> bool" where
  "signed_claim_verifies_and_binds_address P q kp =
     (let claim = claim_sign P q (header_for P kp 7) kp;
          tampered = claim\<lparr>sc_header := (sc_header claim)\<lparr>h_miner_address := replicate 20 9\<rparr>\<rparr> in
      is_ok (claim_verify P claim) \<and> \<not> is_ok (claim_verify P tampered))"

definition winner_is_independent_of_arrival_order :: "prims \<Rightarrow> nat \<Rightarrow> wallet_keypair \<Rightarrow> wallet_keypair \<Rightarrow> bool" where
  "winner_is_independent_of_arrival_order P q kp_a kp_b =
     (let claim_a = claim_sign P q (header_for P kp_a 11) kp_a; claim_b = claim_sign P q (header_for P kp_b 12) kp_b in
      case (select_winning_claim P [claim_a, claim_b], select_winning_claim P [claim_b, claim_a]) of
        (Some first, Some second) \<Rightarrow> claim_block_hash P first = claim_block_hash P second
          \<and> claim_election_score P first = claim_election_score P second
      | _ \<Rightarrow> False)"

lemma wallet_claim_verifies:
  assumes "sig_ok P" "test_wallet P kp" "h_miner_address h = keypair_address P kp" "h_difficulty_bits h = 0"
  shows "claim_verify P (claim_sign P q h kp) = Inr ()"
proof -
  obtain s r where "length s = 32" "kp = keypair_generate P s r"
    using assms(2) by (auto simp: test_wallet_def)
  then show ?thesis
    using assms(3,4) by (simp add: claim_sign_verifies [OF assms(1)] keypair_address_def)
qed

lemma wallet_wf: "sig_ok P \<Longrightarrow> test_wallet P kp \<Longrightarrow> keypair_wf P kp"
  using keypair_generate_wf by (auto simp: test_wallet_def)

lemma claim_tests:
  assumes "sig_ok P" "test_wallet P kp"
  shows "keypair_address P kp \<noteq> replicate 20 9 \<Longrightarrow> signed_claim_verifies_and_binds_address P q kp"
    "winner_is_independent_of_arrival_order P q kp kp2"
proof -
  have ok: "claim_verify P (claim_sign P q (header_for P kp 7) kp) = Inr ()"
    by (rule wallet_claim_verifies [OF assms]) (simp_all add: header_for_def)
  have "wpk_from_bytes P (wpk_to_bytes (kp_public kp)) = Inr (kp_public kp)"
    using wallet_wf [OF assms] by (intro wpk_from_to_bytes) (simp add: keypair_wf_def)
  then show "keypair_address P kp \<noteq> replicate 20 9 \<Longrightarrow> signed_claim_verifies_and_binds_address P q kp"
    using ok by (simp add: signed_claim_verifies_and_binds_address_def Let_def is_ok_def claim_sign_def)
      (simp add: claim_verify_def res_bind_def keypair_address_def)
  let ?a = "claim_sign P q (header_for P kp 11) kp" and ?b = "claim_sign P q (header_for P kp2 12) kp2"
  have same: "claim_block_hash P x = claim_block_hash P y \<and> claim_election_score P x = claim_election_score P y"
    if "\<not> claim_is_better P x y" "\<not> claim_is_better P y x" for x y
    using that by (auto simp: claim_is_better_def Let_def split: if_splits)
  have "\<exists>x y. select_winning_claim P [?a, ?b] = Some x \<and> select_winning_claim P [?b, ?a] = Some y
      \<and> claim_block_hash P x = claim_block_hash P y \<and> claim_election_score P x = claim_election_score P y"
    using same [of ?a ?b] claim_rank_laws(1) [of P ?a ?b] by (auto simp: select_winning_claim_def)
  then show "winner_is_independent_of_arrival_order P q kp kp2"
    by (auto simp: winner_is_independent_of_arrival_order_def Let_def)
qed

section \<open>Randomness\<close>

definition dummy_output :: "prims \<Rightarrow> u64 \<Rightarrow> randomness_output" where
  "dummy_output P height = randomness_from_block P height ((zeros 32)[0 := 1]) ((zeros 32)[0 := 0xde, 1 := 0xad])"

definition verify_roundtrip :: "prims \<Rightarrow> bool" where
  "verify_roundtrip P = randomness_verify P (dummy_output P 42)"

definition different_heights_different_outputs :: "prims \<Rightarrow> bool" where
  "different_heights_different_outputs P =
     (ro_output (dummy_output P 1) \<noteq> ro_output (dummy_output P 2) \<and> ro_nullifier (dummy_output P 1) \<noteq> ro_nullifier (dummy_output P 2))"

definition different_block_hashes_different_outputs :: "prims \<Rightarrow> bool" where
  "different_block_hashes_different_outputs P =
     (ro_output (randomness_from_block P 1 ((zeros 32)[0 := 0xaa]) (zeros 32))
      \<noteq> ro_output (randomness_from_block P 1 ((zeros 32)[0 := 0xbb]) (zeros 32)))"

definition consume_once_ok :: "prims \<Rightarrow> bool" where
  "consume_once_ok P =
     (let r = dummy_output P 10; (result, spent) = nullifiers_consume r [] in
      result = Inr (ro_output r) \<and> nullifiers_len spent = 1)"

definition consume_twice_fails :: "prims \<Rightarrow> bool" where
  "consume_twice_fails P =
     (let r = dummy_output P 10; (first, spent) = nullifiers_consume r [] in
      is_ok first \<and> fst (nullifiers_consume r spent) = Inl (AlreadySpent (ro_height r) (ro_nullifier r)))"

definition different_heights_both_spendable :: "prims \<Rightarrow> bool" where
  "different_heights_both_spendable P =
     (let (first, spent) = nullifiers_consume (dummy_output P 1) [];
          (second, spent') = nullifiers_consume (dummy_output P 2) spent in
      is_ok first \<and> is_ok second \<and> nullifiers_len spent' = 2)"

lemma randomness_tests:
  "verify_roundtrip P" "consume_once_ok P" "consume_twice_fails P"
  "different_heights_different_outputs P \<Longrightarrow> different_heights_both_spendable P"
  by (simp_all add: eq_commute [of "blake3 P (nullifier_preimage 2 x)" for x] verify_roundtrip_def dummy_output_def randomness_verify_def randomness_from_block_def consume_once_ok_def
      consume_twice_fails_def different_heights_both_spendable_def different_heights_different_outputs_def nullifiers_consume_def
      nullifiers_mark_spent_def nullifiers_len_def is_ok_def Let_def)

text \<open>The two tests that compare hash values: a collision is all that can make them fail.\<close>

lemma dummy_preimages_differ:
  "output_preimage 1 a s \<noteq> output_preimage 2 a s" "nullifier_preimage 1 x \<noteq> nullifier_preimage 2 y"
  "output_preimage 1 ((zeros 32)[0 := 0xaa]) (zeros 32) \<noteq> output_preimage 1 ((zeros 32)[0 := 0xbb]) (zeros 32)"
proof -
  have "le_bytes 8 (1 :: u64) \<noteq> le_bytes 8 (2 :: u64)"
  proof
    assume "le_bytes 8 (1 :: u64) = le_bytes 8 (2 :: u64)"
    then have "(1 :: u64) = 2" by (rule le_bytes_inj [rotated]) simp
    then show False by simp
  qed
  then show "output_preimage 1 a s \<noteq> output_preimage 2 a s" "nullifier_preimage 1 x \<noteq> nullifier_preimage 2 y"
    by (simp_all add: output_preimage_def nullifier_preimage_def)
  have "((zeros 32)[0 := 0xaa]) ! 0 \<noteq> ((zeros 32)[0 := (0xbb :: byte)]) ! 0" by code_simp
  then have "(zeros 32)[0 := 0xaa] \<noteq> (zeros 32)[0 := (0xbb :: byte)]" by metis
  then show "output_preimage 1 ((zeros 32)[0 := 0xaa]) (zeros 32) \<noteq> output_preimage 1 ((zeros 32)[0 := 0xbb]) (zeros 32)"
    by (simp add: output_preimage_def)
qed

section \<open>Difficulty\<close>

definition no_adjustment_mid_epoch :: bool where
  "no_adjustment_mid_epoch =
     (let run = fold (\<lambda>h (ok, adj). let (info, adj') = record_block h (h * TARGET_BLOCK_MS) adj in (ok \<and> info = None, adj'))
        (map of_nat [1..<20]) (True, adjuster_new 25 0) in fst run)"

definition adjusted :: "u32 \<Rightarrow> u64 \<Rightarrow> (adjustment_info \<Rightarrow> bool) \<Rightarrow> bool" where
  "adjusted bits ts check = (case fst (record_block 20 ts (adjuster_new bits 0)) of None \<Rightarrow> False | Some info \<Rightarrow> check info)"

definition perfect_timing_no_change :: bool where
  "perfect_timing_no_change = adjusted 30 (20 * TARGET_BLOCK_MS) (\<lambda>info. ai_new_bits info = 30 \<and> ai_raw_delta info = 0)"

definition too_fast_increases_difficulty :: bool where
  "too_fast_increases_difficulty = adjusted 30 (20 * TARGET_BLOCK_MS div 2) (\<lambda>info. ai_new_bits info > 30)"

definition too_slow_decreases_difficulty :: bool where
  "too_slow_decreases_difficulty = adjusted 30 (20 * TARGET_BLOCK_MS * 2) (\<lambda>info. ai_new_bits info < 30)"

definition clamped_to_min :: bool where
  "clamped_to_min = adjusted MIN_BITS (20 * TARGET_BLOCK_MS * 100) (\<lambda>info. ai_new_bits info = MIN_BITS)"

definition clamped_to_max :: bool where
  "clamped_to_max = adjusted MAX_BITS 0 (\<lambda>info. ai_new_bits info = MAX_BITS)"

definition restore_reproduces_identical_result_to_continuous_run :: bool where
  "restore_reproduces_identical_result_to_continuous_run =
     (let ts = 20 * TARGET_BLOCK_MS div 2;
          (info, continuous) = record_block 20 ts (adjuster_new 30 0);
          (info', restored) = record_block 20 ts (adjuster_restore 30 0 0) in
      info \<noteq> None \<and> info' \<noteq> None \<and> da_current_bits continuous = da_current_bits restored
      \<and> da_epoch_start_ms continuous = da_epoch_start_ms restored
      \<and> da_epoch_start_height continuous = da_epoch_start_height restored)"

definition delta_capped_at_max_delta :: bool where
  "delta_capped_at_max_delta = adjusted 30 1 (\<lambda>info. ai_raw_delta info \<le> MAX_DELTA_BITS)"

lemma first_epoch:
  "record_block 20 ts (adjuster_new bits 0) =
     (Some \<lparr>ai_new_bits = word_of_int (min (max (sint (clamp_bits bits) + delta_steps (unat ts)) 25) 45), ai_old_bits = clamp_bits bits,
        ai_actual_ms = ts, ai_target_ms = EPOCH_SIZE * TARGET_BLOCK_MS, ai_raw_delta = delta_steps (unat ts), ai_at_height = 20\<rparr>,
      \<lparr>da_current_bits = word_of_int (min (max (sint (clamp_bits bits) + delta_steps (unat ts)) 25) 45), da_epoch_start_ms = ts,
       da_epoch_start_height = 20, da_last_adjustment = Some \<lparr>ai_new_bits =
         word_of_int (min (max (sint (clamp_bits bits) + delta_steps (unat ts)) 25) 45), ai_old_bits = clamp_bits bits,
        ai_actual_ms = ts, ai_target_ms = EPOCH_SIZE * TARGET_BLOCK_MS, ai_raw_delta = delta_steps (unat ts), ai_at_height = 20\<rparr>\<rparr>)"
proof -
  have "sat_sub ts 0 = ts" "20 mod EPOCH_SIZE = 0" "sint MIN_BITS = 25" "sint MAX_BITS = 45"
    by (simp_all add: sat_sub_def EPOCH_SIZE_def MIN_BITS_def MAX_BITS_def)
  then show ?thesis
    by (simp add: record_block_def adjuster_new_def raw_delta_steps Let_def)
qed

lemma clamped_bits: "sint (clamp_bits 25) = 25" "sint (clamp_bits 30) = 30" "sint (clamp_bits 45) = 45"
  by (simp_all add: clamp_bits_id)

lemma difficulty_tests:
  "no_adjustment_mid_epoch" "perfect_timing_no_change" "too_fast_increases_difficulty" "too_slow_decreases_difficulty"
  "clamped_to_min" "clamped_to_max" "restore_reproduces_identical_result_to_continuous_run" "delta_capped_at_max_delta"
proof -
  have mid: "\<not> epoch_end (of_nat h)" if "h \<in> set [1..<20]" for h
    using that by (auto simp: epoch_end_def EPOCH_SIZE_def word_unat_eq_iff unat_mod unat_of_nat)
  have "fst (fold (\<lambda>h (ok, adj). let (info, adj') = record_block h (h * TARGET_BLOCK_MS) adj in (ok \<and> info = None, adj')) hs (True, adj))"
    if "\<forall>h \<in> set hs. \<not> epoch_end h" for hs adj
    using that by (induction hs) simp_all
  then show "no_adjustment_mid_epoch"
    using mid unfolding no_adjustment_mid_epoch_def Let_def by simp
  have d: "delta_steps 800 = 0" "delta_steps 400 = 1" "delta_steps 1600 = - 1" "delta_steps 80000 = - 3" "delta_steps 0 = 3" "delta_steps 1 = 3"
    by (simp_all add: delta_steps_def)
  show "perfect_timing_no_change" "too_fast_increases_difficulty" "too_slow_decreases_difficulty" "clamped_to_min" "clamped_to_max"
    "delta_capped_at_max_delta"
    by (simp_all add: perfect_timing_no_change_def too_fast_increases_difficulty_def too_slow_decreases_difficulty_def clamped_to_min_def
      clamped_to_max_def delta_capped_at_max_delta_def adjusted_def first_epoch clamped_bits TARGET_BLOCK_MS_def MIN_BITS_def MAX_BITS_def
      MAX_DELTA_BITS_def d d(5,6) [unfolded One_nat_def])
  show "restore_reproduces_identical_result_to_continuous_run"
    using first_epoch by (simp add: restore_reproduces_identical_result_to_continuous_run_def adjuster_restore_def adjuster_new_def Let_def)
qed

end
