(* ===== verification/Adversarial_Tests.thy ===== *)
theory Adversarial_Tests
  imports Reorg Core_Tests
begin

text \<open>
  The in-process tests of the node (\<^verbatim>\<open>adversarial_tests\<close>, \<^verbatim>\<open>node/src/main.rs\<close>) run on the model: one definition per
  test, the value of its assertions, with the wallets it generates and the clock as arguments. \<^verbatim>\<open>unwrap\<close> of an
  error fails the test. A message that a test looks for is the constructor of the error that carries it. Where a test
  relies on two hashes being different, the lemma has that as a hypothesis.
\<close>

section \<open>The environment of the tests\<close>

definition TEST_GENESIS :: bytes where "TEST_GENESIS = replicate 32 7"

definition test_env :: "prims \<Rightarrow> wallet_keypair \<Rightarrow> node" where
  "test_env P miner =
     \<lparr>nd_state =
        \<lparr>ns_genesis_hash = TEST_GENESIS, ns_tip_hash = TEST_GENESIS, ns_chain_height = 1, ns_pending_claims = [],
         ns_mempool = [], ns_nullifiers = [], ns_total_hashes = 0, ns_total_time_ms = 0, ns_started_at = 0, ns_threads = 1,
         ns_last_observed_btc = btc_state_mock, ns_btc_seed_hash = replicate 32 9, ns_btc_seed_changed_at = 0,
         ns_btc_checkpoint_tip_height = 900000, ns_difficulty_bits = 0, ns_last_block_timestamp_ms = 1000000,
         ns_chain_work = 0, ns_miner_address = hex_encode P (keypair_address P miner), ns_total_mined_bina = 0,
         ns_current_reward = 50, ns_last_adjustment = None\<rparr>,
      nd_ledger = new_ledger, nd_store = store_open None\<rparr>"

definition claim_at :: "prims \<Rightarrow> wallet_keypair \<Rightarrow> u64 \<Rightarrow> bytes \<Rightarrow> bytes \<Rightarrow> bytes \<Rightarrow> bytes \<Rightarrow> u64 \<Rightarrow> signed_claim" where
  "claim_at P miner height prev_hash merkle state_root seed_hash timestamp =
     claim_sign P 0
       \<lparr>h_version = 1, h_height = height, h_prev_hash = prev_hash, h_merkle_root = merkle, h_state_root = state_root,
        h_timestamp = timestamp, h_nonce = 0, h_miner_address = keypair_address P miner, h_difficulty_bits = 0,
        h_bitcoin_seed_hash = seed_hash\<rparr> miner"

definition signed_transfer :: "prims \<Rightarrow> wallet_keypair \<Rightarrow> wallet_keypair \<Rightarrow> u64 \<Rightarrow> u64 \<Rightarrow> u64 \<Rightarrow> tx_error + signed_transaction" where
  "signed_transfer P sender recipient amount nonce fee =
     stx_sign P 0 \<lparr>tx_from = keypair_address P sender, tx_to = keypair_address P recipient, tx_amount = amount,
       tx_nonce = nonce, tx_fee = fee\<rparr> sender"

definition dummy_block_record :: "prims \<Rightarrow> u64 \<Rightarrow> signed_transaction list \<Rightarrow> block_record" where
  "dummy_block_record P height txs =
     \<lparr>br_height = height, br_block_hash = ''h'' @ show_u64 height, br_prev_hash = ''h'' @ show_u64 (sat_sub height 1),
      br_nonce = 0, br_timestamp = 1000000 + height, br_mined_timestamp_secs = (1000000 + height) div 1000,
      br_zero_bits = 0, br_difficulty_bits = 0, br_hashes_tried = 0, br_elapsed_ms = 0, br_hashrate_mhs = 0,
      br_miner_address = ''aa'', br_miner_public_key = ''bb'', br_miner_signature = ''cc'', br_claim_digest = ''dd'',
      br_election_score = ''ee'', br_source = ''local'', br_reward_bina = 50, br_randomness_output = ''ff'',
      br_nullifier = ''00'', br_btc_seed = replicate 64 CHR ''1'', br_btc_height = 900000,
      br_merkle_root = hex_encode P (merkle_root P txs), br_state_root = replicate 64 CHR ''2'', br_chain_work_hex = ''0'',
      br_transactions = txs\<rparr>"

definition funded_env :: "prims \<Rightarrow> wallet_keypair \<Rightarrow> node" where
  "funded_env P miner = (test_env P miner)\<lparr>nd_ledger :=
     snd (ledger_credit True 1 (hex_encode P (keypair_address P miner)) 100 1000000 (nd_ledger (test_env P miner)))\<rparr>"

definition test_proof :: btc_checkpoint_proof where
  "test_proof = \<lparr>cp_tip_hash = replicate 32 1, cp_tip_height = 900000, cp_utxo_entropy = replicate 32 2,
     cp_stale_xor_pool = replicate 32 3\<rparr>"

section \<open>The tests\<close>

definition claim_with_wrong_merkle_root_is_rejected :: "prims \<Rightarrow> u64 \<Rightarrow> wallet_keypair \<Rightarrow> wallet_keypair \<Rightarrow> bool" where
  "claim_with_wrong_merkle_root_is_rejected P now miner recipient =
     on_ok (signed_transfer P miner recipient 5 0 1) (\<lambda>tx.
       let claim = claim_at P miner 2 TEST_GENESIS (replicate 32 0xAA) (empty_state_root P) (replicate 32 9) 1000001 in
       fst (accept_signed_claim P now claim None [tx] (test_env P miner)) = Inl RejectMerkleRoot)"

definition claim_with_wrong_state_root_is_rejected :: "prims \<Rightarrow> u64 \<Rightarrow> wallet_keypair \<Rightarrow> bool" where
  "claim_with_wrong_state_root_is_rejected P now miner =
     (let claim = claim_at P miner 2 TEST_GENESIS (zeros 32) (replicate 32 0x55) (replicate 32 9) 1000001 in
      fst (accept_signed_claim P now claim None [] (test_env P miner)) = Inl RejectStateRoot)"

definition claim_with_correct_roots_is_accepted :: "prims \<Rightarrow> u64 \<Rightarrow> wallet_keypair \<Rightarrow> bool" where
  "claim_with_correct_roots_is_accepted P now miner =
     (let env = test_env P miner; reward = block_reward 2 (ns_total_mined_bina (nd_state env));
          (_, sroot) = simulate_block_execution P (nd_ledger env) [] (hex_encode P (keypair_address P miner)) reward;
          claim = claim_at P miner 2 TEST_GENESIS (zeros 32) sroot (replicate 32 9) 1000001 in
      is_ok (fst (accept_signed_claim P now claim None [] env)))"

definition claim_including_a_double_spend_is_rejected :: "prims \<Rightarrow> u64 \<Rightarrow> wallet_keypair \<Rightarrow> wallet_keypair \<Rightarrow> wallet_keypair \<Rightarrow> bool" where
  "claim_including_a_double_spend_is_rejected P now miner r1 r2 =
     on_ok (signed_transfer P miner r1 80 0 0) (\<lambda>tx1.
     on_ok (signed_transfer P miner r2 80 0 0) (\<lambda>tx2.
       let claim = claim_at P miner 2 TEST_GENESIS (merkle_root P [tx1, tx2]) (zeros 32) (replicate 32 9) 1000001 in
       fst (accept_signed_claim P now claim None [tx1, tx2] (funded_env P miner)) = Inl RejectTransactions))"

definition mempool_rejects_a_submission_with_the_wrong_nonce :: "prims \<Rightarrow> serde \<Rightarrow> wallet_keypair \<Rightarrow> wallet_keypair \<Rightarrow> bool" where
  "mempool_rejects_a_submission_with_the_wrong_nonce P J miner recipient =
     on_ok (signed_transfer P miner recipient 5 5 1) (\<lambda>tx.
       fst (enqueue_transaction P J tx (funded_env P miner)) = Inl (EnqueueNonce 0 5))"

definition claim_with_a_transaction_that_overdraws_is_rejected :: "prims \<Rightarrow> u64 \<Rightarrow> wallet_keypair \<Rightarrow> wallet_keypair \<Rightarrow> bool" where
  "claim_with_a_transaction_that_overdraws_is_rejected P now miner recipient =
     on_ok (signed_transfer P miner recipient 5 0 1) (\<lambda>tx.
       let claim = claim_at P miner 2 TEST_GENESIS (merkle_root P [tx]) (zeros 32) (replicate 32 9) 1000001 in
       fst (accept_signed_claim P now claim None [tx] (test_env P miner)) = Inl RejectTransactions)"

definition select_best_peer_ignores_lower_or_equal_work_and_foreign_genesis :: bool where
  "select_best_peer_ignores_lower_or_equal_work_and_foreign_genesis =
     (let genesis = replicate 32 1; addr = ''127.0.0.1:9001'';
          lower = \<lparr>ps_addr = addr, ps_height = 3, ps_genesis_hash = genesis, ps_chain_work = 50\<rparr>;
          same = \<lparr>ps_addr = addr, ps_height = 5, ps_genesis_hash = genesis, ps_chain_work = 100\<rparr>;
          foreign_genesis = \<lparr>ps_addr = addr, ps_height = 20, ps_genesis_hash = replicate 32 2, ps_chain_work = 999\<rparr>;
          heavier = \<lparr>ps_addr = addr, ps_height = 6, ps_genesis_hash = genesis, ps_chain_work = 150\<rparr> in
      select_best_peer [lower] genesis 100 = None \<and> select_best_peer [same] genesis 100 = None
      \<and> select_best_peer [foreign_genesis] genesis 100 = None
      \<and> map_option ps_chain_work (select_best_peer [lower, same, foreign_genesis, heavier] genesis 100) = Some 150)"

definition claim_with_wrong_prev_hash_is_rejected :: "prims \<Rightarrow> u64 \<Rightarrow> wallet_keypair \<Rightarrow> bool" where
  "claim_with_wrong_prev_hash_is_rejected P now miner =
     (let not_the_tip = replicate 32 0x44;
          claim = claim_at P miner 2 not_the_tip (zeros 32) (empty_state_root P) (replicate 32 9) 1000001 in
      not_the_tip \<noteq> TEST_GENESIS
      \<and> fst (accept_signed_claim P now claim None [] (test_env P miner)) = Inl RejectPrevHash)"

definition claim_for_wrong_height_is_rejected :: "prims \<Rightarrow> u64 \<Rightarrow> wallet_keypair \<Rightarrow> bool" where
  "claim_for_wrong_height_is_rejected P now miner =
     (let claim = claim_at P miner 9 TEST_GENESIS (zeros 32) (empty_state_root P) (replicate 32 9) 1000001 in
      fst (accept_signed_claim P now claim None [] (test_env P miner)) = Inl (RejectHeight 9 2))"

definition rollback_requeues_transactions_into_mempool :: "prims \<Rightarrow> serde \<Rightarrow> wallet_keypair \<Rightarrow> wallet_keypair \<Rightarrow> bool" where
  "rollback_requeues_transactions_into_mempool P J miner recipient =
     on_ok (signed_transfer P miner recipient 5 0 1) (\<lambda>tx1.
     on_ok (signed_transfer P miner recipient 5 1 1) (\<lambda>tx2.
       let (mempool, store) = requeue_rolled_back_transactions P J
             [dummy_block_record P 4 [tx1], dummy_block_record P 5 [tx2]] ([], store_open None) in
       length mempool = 2 \<and> hm_has mempool (stx_tx_id P tx1) \<and> hm_has mempool (stx_tx_id P tx2)
       \<and> length (fst (mempool_load J store)) = 2))"

definition block_record_with_transactions_has_nonzero_merkle_root :: "prims \<Rightarrow> wallet_keypair \<Rightarrow> wallet_keypair \<Rightarrow> bool" where
  "block_record_with_transactions_has_nonzero_merkle_root P miner recipient =
     on_ok (signed_transfer P miner recipient 1 0 0) (\<lambda>tx.
       let confirmed = dummy_block_record P 5 [tx]; empty = dummy_block_record P 6 [] in
       br_transactions confirmed \<noteq> [] \<and> br_merkle_root confirmed \<noteq> replicate 64 CHR ''0''
       \<and> br_merkle_root empty = replicate 64 CHR ''0'' \<and> br_merkle_root confirmed \<noteq> br_merkle_root empty)"

definition at_genesis :: "node \<Rightarrow> node" where
  "at_genesis nd = nd\<lparr>nd_state := (nd_state nd)\<lparr>ns_chain_height := 0\<rparr>\<rparr>"

definition checkpoint_height_without_a_proof_is_rejected :: "prims \<Rightarrow> u64 \<Rightarrow> wallet_keypair \<Rightarrow> bool" where
  "checkpoint_height_without_a_proof_is_rejected P now miner =
     (let claim = claim_at P miner 1 TEST_GENESIS (zeros 32) (empty_state_root P) (replicate 32 9) 1000001 in
      fst (accept_signed_claim P now claim None [] (at_genesis (test_env P miner))) = Inl RejectNoCheckpointProof)"

definition checkpoint_proof_with_mismatched_seed_hash_is_rejected :: "prims \<Rightarrow> u64 \<Rightarrow> wallet_keypair \<Rightarrow> bool" where
  "checkpoint_proof_with_mismatched_seed_hash_is_rejected P now miner =
     (let claim = claim_at P miner 1 TEST_GENESIS (zeros 32) (empty_state_root P) (zeros 32) 1000001 in
      checkpoint_seed_hash P test_proof \<noteq> zeros 32
      \<and> fst (accept_signed_claim P now claim (Some test_proof) [] (at_genesis (test_env P miner))) = Inl RejectProofSeed)"

definition checkpoint_proof_with_implausible_btc_height_is_rejected :: "prims \<Rightarrow> u64 \<Rightarrow> wallet_keypair \<Rightarrow> bool" where
  "checkpoint_proof_with_implausible_btc_height_is_rejected P now miner =
     (let env = test_env P miner;
          env' = env\<lparr>nd_state := (nd_state env)\<lparr>ns_chain_height := 0, ns_btc_checkpoint_tip_height := 0,
                  ns_last_observed_btc := btc_state_mock\<rparr>\<rparr>;
          claim = claim_at P miner 1 TEST_GENESIS (zeros 32) (empty_state_root P) (checkpoint_seed_hash P test_proof) 1000001 in
      fst (accept_signed_claim P now claim (Some test_proof) [] env') = Inl (RejectImplausible 900000 0 0))"

definition claim_with_non_monotonic_timestamp_is_rejected :: "prims \<Rightarrow> u64 \<Rightarrow> wallet_keypair \<Rightarrow> bool" where
  "claim_with_non_monotonic_timestamp_is_rejected P now miner =
     (let claim = claim_at P miner 2 TEST_GENESIS (zeros 32) (empty_state_root P) (replicate 32 9) 1000000 in
      fst (accept_signed_claim P now claim None [] (test_env P miner)) = Inl RejectTimestamp)"

definition claim_with_far_future_timestamp_is_rejected :: "prims \<Rightarrow> u64 \<Rightarrow> u64 \<Rightarrow> wallet_keypair \<Rightarrow> bool" where
  "claim_with_far_future_timestamp_is_rejected P earlier now miner =
     (let absurd_future = earlier + MAX_FUTURE_MS + 3600000;
          claim = claim_at P miner 2 TEST_GENESIS (zeros 32) (empty_state_root P) (replicate 32 9) absurd_future in
      fst (accept_signed_claim P now claim None [] (test_env P miner)) = Inl RejectTimestamp)"

section \<open>They pass\<close>

lemma claim_at_verifies:
  assumes "sig_ok P" "test_wallet P miner"
  shows "claim_verify P (claim_at P miner height prev_hash merkle sroot seed timestamp) = Inr ()"
proof -
  obtain s r where "length s = 32" "miner = keypair_generate P s r"
    using assms(2) by (auto simp: test_wallet_def)
  then show ?thesis
    unfolding claim_at_def by (simp add: claim_sign_verifies [OF assms(1)] keypair_address_def)
qed

lemma claim_at_sel [simp]:
  "sc_header (claim_at P miner height prev_hash merkle sroot seed timestamp) =
     \<lparr>h_version = 1, h_height = height, h_prev_hash = prev_hash, h_merkle_root = merkle, h_state_root = sroot,
      h_timestamp = timestamp, h_nonce = 0, h_miner_address = keypair_address P miner, h_difficulty_bits = 0,
      h_bitcoin_seed_hash = seed\<rparr>"
  by (simp add: claim_at_def claim_sign_def Let_def)

lemma signed_transfer_ok:
  obtains tx where "signed_transfer P sender recipient amount nonce fee = Inr tx"
    "stx_tx tx = \<lparr>tx_from = keypair_address P sender, tx_to = keypair_address P recipient, tx_amount = amount,
       tx_nonce = nonce, tx_fee = fee\<rparr>"
  by (simp add: signed_transfer_def stx_sign_def Let_def)

text \<open>What a claim meets that is well signed and names the right Merkle root: the checks of the first phase, and of
  the second if they pass.\<close>

lemma accept_well_signed:
  assumes "claim_verify P claim = Inr ()" "length txs \<le> MAX_TXS_PER_BLOCK" "merkle_root P txs = h_merkle_root (sc_header claim)"
  shows "fst (accept_signed_claim P now claim ckpt txs nd) =
    (case accept_structure P now (nd_state nd) claim ckpt of Inl e \<Rightarrow> Inl e
     | Inr reward \<Rightarrow> (case accept_execution P (nd_ledger nd) claim txs reward of Inl e \<Rightarrow> Inl e
         | Inr _ \<Rightarrow> fst (accept_admit P \<lparr>pc_claim = claim, pc_btc_checkpoint = ckpt, pc_transactions = txs\<rparr> (nd_state nd))))"
  using assms by (simp add: accept_signed_claim_def accept_check_def accept_payload_def res_bind_def case_prod_unfold Let_def
      split: sum.splits)

lemmas test_env_defs = test_env_def TEST_GENESIS_def MAX_FUTURE_MS_def

text \<open>The first phase admits what \<open>claim_at\<close> builds on the tip of the environment.\<close>

lemma test_structure:
  assumes "1000001 \<le> now"
  shows "accept_structure P now (nd_state (test_env P miner)) (claim_at P miner 2 TEST_GENESIS merkle sroot (replicate 32 9) 1000001) None
    = Inr (block_reward 2 0)"
proof -
  have "timestamp_is_valid 1000001 1000000 now 30000"
    using assms by (auto simp: timestamp_is_valid_def word_le_nat_alt unat_sat_add word_less_nat_alt)
  moreover have "replicate 32 7 \<noteq> zeros 32" by code_simp
  ultimately show ?thesis
    by (simp add: accept_structure_def accept_checkpoint_def test_env_defs Let_def)
qed

lemma MAX_TXS [simp]: "MAX_TXS_PER_BLOCK = 2000" by (simp add: MAX_TXS_PER_BLOCK_def)

lemma merkle_empty [simp]: "merkle_root P [] = zeros 32" by (simp add: merkle_root_def)

text \<open>Refusals of the first phase.\<close>

lemma structure_tests:
  assumes "sig_ok P" "test_wallet P miner" "1000001 \<le> now"
  shows "claim_with_wrong_prev_hash_is_rejected P now miner" "claim_for_wrong_height_is_rejected P now miner"
    "checkpoint_height_without_a_proof_is_rejected P now miner" "claim_with_non_monotonic_timestamp_is_rejected P now miner"
    "checkpoint_proof_with_implausible_btc_height_is_rejected P now miner"
    "checkpoint_seed_hash P test_proof \<noteq> zeros 32 \<Longrightarrow> checkpoint_proof_with_mismatched_seed_hash_is_rejected P now miner"
proof -
  note a = accept_well_signed [OF claim_at_verifies [OF assms(1,2)]]
  have t: "timestamp_is_valid 1000001 1000000 now 30000" "\<not> timestamp_is_valid 1000000 1000000 now 30000"
    using assms(3) by (auto simp: timestamp_is_valid_def word_le_nat_alt unat_sat_add word_less_nat_alt)
  have n: "replicate 32 (7 :: byte) \<noteq> zeros 32" "replicate 32 (68 :: byte) \<noteq> replicate 32 7" by code_simp+
  have c: "is_checkpoint_height 1"
    by (simp add: is_checkpoint_height_def)
  have i: "\<not> checkpoint_plausible test_proof 0 0 BTC_HEIGHT_TOLERANCE"
    by (simp add: checkpoint_plausible_def test_proof_def BTC_HEIGHT_TOLERANCE_def abs_diff_def word_le_nat_alt)
  show "claim_with_wrong_prev_hash_is_rejected P now miner"
    using n by (simp add: claim_with_wrong_prev_hash_is_rejected_def a accept_structure_def test_env_defs Let_def)
  show "claim_for_wrong_height_is_rejected P now miner"
    using n by (simp add: claim_for_wrong_height_is_rejected_def a accept_structure_def test_env_defs Let_def)
  show "checkpoint_height_without_a_proof_is_rejected P now miner"
    using n t c by (simp add: checkpoint_height_without_a_proof_is_rejected_def a accept_structure_def test_env_defs Let_def
      at_genesis_def accept_checkpoint_def)
  show "claim_with_non_monotonic_timestamp_is_rejected P now miner"
    using n t by (simp add: claim_with_non_monotonic_timestamp_is_rejected_def a accept_structure_def test_env_defs Let_def)
  show "checkpoint_proof_with_implausible_btc_height_is_rejected P now miner"
    using n t c i by (simp add: checkpoint_proof_with_implausible_btc_height_is_rejected_def a accept_structure_def test_env_defs Let_def
      accept_checkpoint_def btc_state_mock_def) (simp add: test_proof_def)
  show "checkpoint_seed_hash P test_proof \<noteq> zeros 32 \<Longrightarrow> checkpoint_proof_with_mismatched_seed_hash_is_rejected P now miner"
    using n t c by (simp add: checkpoint_proof_with_mismatched_seed_hash_is_rejected_def a accept_structure_def test_env_defs Let_def
      at_genesis_def accept_checkpoint_def)
qed

lemma future_test:
  assumes "sig_ok P" "test_wallet P miner" "unat now < 2 ^ 63" "unat earlier < 2 ^ 63" "unat now < unat earlier + 3600000"
  shows "claim_with_far_future_timestamp_is_rejected P earlier now miner"
proof -
  have n: "replicate 32 (7 :: byte) \<noteq> zeros 32" by code_simp
  have "unat (earlier + 30000 + 3600000) = unat earlier + 3630000"
    using assms(4) by (simp add: unat_add_fits)
  moreover have "unat (sat_add now 30000) = unat now + 30000"
    using assms(3) by (simp add: unat_sat_add)
  ultimately have t: "\<not> timestamp_is_valid (earlier + 30000 + 3600000) 1000000 now 30000"
    using assms(5) by (simp add: timestamp_is_valid_def word_le_nat_alt)
  show ?thesis
    using n t by (simp add: claim_with_far_future_timestamp_is_rejected_def accept_well_signed [OF claim_at_verifies [OF assms(1,2)]]
      accept_structure_def test_env_defs Let_def)
qed

text \<open>The second phase.\<close>

lemma execution_of_test:
  assumes "sig_ok P" "test_wallet P miner" "1000001 \<le> now" "length txs \<le> 2000" "nd_state nd = nd_state (test_env P miner)"
  shows "fst (accept_signed_claim P now (claim_at P miner 2 TEST_GENESIS (merkle_root P txs) sroot (replicate 32 9) 1000001) None txs nd)
    = (case accept_execution P (nd_ledger nd) (claim_at P miner 2 TEST_GENESIS (merkle_root P txs) sroot (replicate 32 9) 1000001) txs (block_reward 2 0)
       of Inl e \<Rightarrow> Inl e
       | Inr _ \<Rightarrow> fst (accept_admit P \<lparr>pc_claim = claim_at P miner 2 TEST_GENESIS (merkle_root P txs) sroot (replicate 32 9) 1000001,
           pc_btc_checkpoint = None, pc_transactions = txs\<rparr> (nd_state nd)))"
  by (subst accept_well_signed [OF claim_at_verifies [OF assms(1,2)]])
    (simp_all add: test_structure [OF assms(3)] assms(4,5))

lemma wrong_state_root_test:
  assumes "sig_ok P" "test_wallet P miner" "1000001 \<le> now"
    and "snd (simulate_block_execution P new_ledger [] (hex_encode P (keypair_address P miner)) (block_reward 2 0)) \<noteq> replicate 32 0x55"
  shows "claim_with_wrong_state_root_is_rejected P now miner"
  using execution_of_test [OF assms(1-3), of "[]" "test_env P miner" "replicate 32 0x55"] assms(4)
  by (simp add: claim_with_wrong_state_root_is_rejected_def Let_def accept_execution_def case_prod_unfold fst_simulate
      claim_miner_address_hex_def) (simp add: test_env_def)

lemma correct_roots_test:
  assumes "sig_ok P" "test_wallet P miner" "1000001 \<le> now"
  shows "claim_with_correct_roots_is_accepted P now miner"
proof -
  have "ns_total_mined_bina (nd_state (test_env P miner)) = 0" "ns_pending_claims (nd_state (test_env P miner)) = []"
    by (simp_all add: test_env_def)
  then show ?thesis
    using execution_of_test [OF assms, of "[]" "test_env P miner"]
    by (simp add: claim_with_correct_roots_is_accepted_def Let_def accept_execution_def case_prod_unfold fst_simulate
      claim_miner_address_hex_def accept_admit_def pending_at_def hm_has_def hm_get_or_def is_ok_def)
qed

lemma fewer_applied:
  assumes "sig_ok P" "test_wallet P miner" "1000001 \<le> now" "length txs \<le> 2000" "nd_state nd = nd_state (test_env P miner)"
    and "length (fst (simulate_txs P (nd_ledger nd) (hex_encode P (keypair_address P miner)) txs [])) \<noteq> length txs"
  shows "fst (accept_signed_claim P now (claim_at P miner 2 TEST_GENESIS (merkle_root P txs) sroot (replicate 32 9) 1000001) None txs nd)
    = Inl RejectTransactions"
  using execution_of_test [OF assms(1-5), of sroot] assms(6)
  by (simp add: accept_execution_def case_prod_unfold fst_simulate claim_miner_address_hex_def)

lemma nonce_used:
  assumes "simulate_tx P l miner s ov = Some ov'"
  shows "snd (overlay_read l ov' (stx_from_hex P s)) = snd (overlay_read l ov (stx_from_hex P s)) + 1"
    "tx_nonce (stx_tx s) = snd (overlay_read l ov (stx_from_hex P s))"
proof -
  obtain b n where bn: "overlay_read l ov (stx_from_hex P s) = (b, n)" by fastforce
  show "snd (overlay_read l ov' (stx_from_hex P s)) = snd (overlay_read l ov (stx_from_hex P s)) + 1"
    using assms bn by (auto simp: simulate_tx_def Let_def case_prod_unfold split: if_splits option.splits)
  show "tx_nonce (stx_tx s) = snd (overlay_read l ov (stx_from_hex P s))"
    using assms bn by (auto simp: simulate_tx_def Let_def split: if_splits)
qed

text \<open>Two transfers of one sender with the same nonce are not both applied.\<close>

lemma same_nonce_once:
  assumes "stx_from_hex P b = stx_from_hex P a" "tx_nonce (stx_tx b) = tx_nonce (stx_tx a)"
  shows "length (fst (simulate_txs P l miner [a, b] ov)) \<le> 1"
proof (cases "simulate_tx P l miner a ov")
  case None
  then show ?thesis by (simp split: option.splits)
next
  case (Some ov')
  have "simulate_tx P l miner b ov' = None"
  proof (rule ccontr)
    assume "simulate_tx P l miner b ov' \<noteq> None"
    then obtain ov'' where "simulate_tx P l miner b ov' = Some ov''" by blast
    from nonce_used(2) [OF this] nonce_used [OF Some] assms show False by simp
  qed
  with Some show ?thesis by simp
qed

lemma double_spend_test:
  assumes "sig_ok P" "test_wallet P miner" "1000001 \<le> now"
  shows "claim_including_a_double_spend_is_rejected P now miner r1 r2"
proof -
  obtain a where a: "signed_transfer P miner r1 80 0 0 = Inr a" "stx_tx a = \<lparr>tx_from = keypair_address P miner,
      tx_to = keypair_address P r1, tx_amount = 80, tx_nonce = 0, tx_fee = 0\<rparr>"
    by (rule signed_transfer_ok)
  obtain b where b: "signed_transfer P miner r2 80 0 0 = Inr b" "stx_tx b = \<lparr>tx_from = keypair_address P miner,
      tx_to = keypair_address P r2, tx_amount = 80, tx_nonce = 0, tx_fee = 0\<rparr>"
    by (rule signed_transfer_ok)
  have "length (fst (simulate_txs P (nd_ledger (funded_env P miner)) (hex_encode P (keypair_address P miner)) [a, b] [])) \<le> 1"
    by (rule same_nonce_once) (simp_all add: a b stx_from_hex_def)
  then have "length (fst (simulate_txs P (nd_ledger (funded_env P miner)) (hex_encode P (keypair_address P miner)) [a, b] []))
      \<noteq> length [a, b]" by simp
  then show ?thesis
    using fewer_applied [OF assms, of "[a, b]" "funded_env P miner"]
    by (simp add: claim_including_a_double_spend_is_rejected_def a(1) b(1) funded_env_def del: simulate_txs.simps)
qed

lemma overdraw_test:
  assumes "sig_ok P" "test_wallet P miner" "1000001 \<le> now"
  shows "claim_with_a_transaction_that_overdraws_is_rejected P now miner recipient"
proof -
  obtain a where a: "signed_transfer P miner recipient 5 0 1 = Inr a" "stx_tx a = \<lparr>tx_from = keypair_address P miner,
      tx_to = keypair_address P recipient, tx_amount = 5, tx_nonce = 0, tx_fee = 1\<rparr>"
    by (rule signed_transfer_ok)
  have l: "ledger_balance new_ledger x = 0" for x
    by (simp add: new_ledger_def ledger_balance_def hm_get_or_def)
  have "simulate_tx P new_ledger (hex_encode P (keypair_address P miner)) a [] = None"
    by (simp add: simulate_tx_def Let_def a(2) overlay_read_def hm_get_or_def l checked_add_def case_prod_unfold split: option.splits)
  then have "length (fst (simulate_txs P (nd_ledger (test_env P miner)) (hex_encode P (keypair_address P miner)) [a] [])) \<noteq> length [a]"
    by (simp add: test_env_def)
  then show ?thesis
    using fewer_applied [OF assms, of "[a]" "test_env P miner"]
    by (simp add: claim_with_a_transaction_that_overdraws_is_rejected_def a(1) del: simulate_txs.simps)
qed

lemma wrong_merkle_root_test:
  assumes "sig_ok P" "test_wallet P miner" "\<forall>tx. signed_transfer P miner recipient 5 0 1 = Inr tx \<longrightarrow> stx_tx_id P tx \<noteq> replicate 32 0xAA"
  shows "claim_with_wrong_merkle_root_is_rejected P now miner recipient"
proof -
  obtain a where a: "signed_transfer P miner recipient 5 0 1 = Inr a"
    by (rule signed_transfer_ok)
  then show ?thesis
    using assms(3) claim_at_verifies [OF assms(1,2)]
    by (simp add: claim_with_wrong_merkle_root_is_rejected_def accept_signed_claim_def accept_check_def accept_payload_def res_bind_def
      merkle_root_single Let_def)
qed

lemma wrong_nonce_test:
  assumes "hash_ok P" "sig_ok P" "test_wallet P miner" "keypair_address P miner \<noteq> keypair_address P recipient"
  shows "mempool_rejects_a_submission_with_the_wrong_nonce P J miner recipient"
proof -
  obtain a where a: "signed_transfer P miner recipient 5 5 1 = Inr a" "stx_tx a = \<lparr>tx_from = keypair_address P miner,
      tx_to = keypair_address P recipient, tx_amount = 5, tx_nonce = 5, tx_fee = 1\<rparr>"
    by (rule signed_transfer_ok)
  obtain seed r where k: "length seed = 32" "miner = keypair_generate P seed r"
    using assms(3) by (auto simp: test_wallet_def)
  have "stx_verify P a = Inr ()"
    using stx_sign_verifies [OF assms(1,2) k(1), where s = a] a(1) assms(4) k(2) by (simp add: signed_transfer_def)
  moreover have "ledger_nonce (nd_ledger (funded_env P miner)) x = 0" for x
    by (simp add: funded_env_def test_env_def ledger_credit_def new_ledger_def ledger_nonce_def hm_get_or_def append_line_def Let_def)
  ultimately show ?thesis
    by (simp add: mempool_rejects_a_submission_with_the_wrong_nonce_def a(1) enqueue_transaction_def enqueue_check_def res_bind_def
      a(2) Let_def)
qed

lemma select_peer_test: "select_best_peer_ignores_lower_or_equal_work_and_foreign_genesis"
proof -
  have "replicate 32 (2 :: byte) \<noteq> replicate 32 1" by code_simp
  then show ?thesis
    by (simp add: select_best_peer_ignores_lower_or_equal_work_and_foreign_genesis_def Let_def select_best_peer_def)
qed

lemma requeue_test:
  assumes "hex_ok P" "json_ok J"
    and "\<forall>a b. signed_transfer P miner recipient 5 0 1 = Inr a \<and> signed_transfer P miner recipient 5 1 1 = Inr b
      \<longrightarrow> stx_tx_id P a \<noteq> stx_tx_id P b"
  shows "rollback_requeues_transactions_into_mempool P J miner recipient"
proof -
  obtain a where a: "signed_transfer P miner recipient 5 0 1 = Inr a"
    by (rule signed_transfer_ok)
  obtain b where b: "signed_transfer P miner recipient 5 1 1 = Inr b"
    by (rule signed_transfer_ok)
  have ne: "stx_tx_id P a \<noteq> stx_tx_id P b"
    using assms(3) a b by blast
  have r: "requeue_rolled_back_transactions P J [dummy_block_record P 4 [a], dummy_block_record P 5 [b]] ([], store_open None)
      = (hm_insert (stx_tx_id P b) b (hm_insert (stx_tx_id P a) a []),
         mempool_insert P J b (mempool_insert P J a (store_open None)))"
    by (simp add: requeue_rolled_back_transactions_def requeue_block_def requeue_tx_def dummy_block_record_def)
  have h: "stx_tx_id_hex P b \<noteq> stx_tx_id_hex P a"
    using ne assms(1) by (simp add: stx_tx_id_hex_def hex_encode_inj)
  have "bs_mempool (mempool_insert P J b (mempool_insert P J a (store_open None)))
      = [(stx_tx_id_hex P a, tx_to_json J a), (stx_tx_id_hex P b, tx_to_json J b)]"
    using h by (simp add: mempool_insert_def mempool_put_def store_open_def hm_insert_def hm_has_def)
  then have "length (fst (mempool_load J (mempool_insert P J b (mempool_insert P J a (store_open None))))) = 2"
    using assms(2) by (simp add: mempool_load_def List.map_filter_simps Let_def)
  then show ?thesis
    using ne by (simp add: rollback_requeues_transactions_into_mempool_def a b r) (simp add: hm_insert_def hm_has_def)
qed

lemma merkle_record_test:
  assumes "hash_ok P" "hex_ok P" "hex_encode P (zeros 32) = replicate 64 CHR ''0''"
    and "\<forall>tx. signed_transfer P miner recipient 1 0 0 = Inr tx \<longrightarrow> stx_tx_id P tx \<noteq> zeros 32"
  shows "block_record_with_transactions_has_nonzero_merkle_root P miner recipient"
proof -
  obtain a where a: "signed_transfer P miner recipient 1 0 0 = Inr a"
    by (rule signed_transfer_ok)
  then have "stx_tx_id P a \<noteq> zeros 32" using assms(4) by blast
  then have "hex_encode P (stx_tx_id P a) \<noteq> replicate 64 CHR ''0''"
    unfolding assms(3) [symmetric] using assms(2) by (simp add: hex_encode_inj)
  then show ?thesis
    by (simp add: block_record_with_transactions_has_nonzero_merkle_root_def a dummy_block_record_def merkle_root_single assms(3) Let_def)
qed

section \<open>Properties\<close>

text \<open>The values on which a test relies to be different.\<close>

definition lucky :: "prims \<Rightarrow> wallet_keypair \<Rightarrow> wallet_keypair \<Rightarrow> bool" where
  "lucky P miner recipient \<longleftrightarrow> keypair_address P miner \<noteq> keypair_address P recipient
     \<and> hex_encode P (zeros 32) = replicate 64 CHR ''0'' \<and> checkpoint_seed_hash P test_proof \<noteq> zeros 32
     \<and> snd (simulate_block_execution P new_ledger [] (hex_encode P (keypair_address P miner)) (block_reward 2 0)) \<noteq> replicate 32 0x55
     \<and> on_ok (signed_transfer P miner recipient 5 0 1) (\<lambda>a. stx_tx_id P a \<noteq> replicate 32 0xAA
          \<and> on_ok (signed_transfer P miner recipient 5 1 1) (\<lambda>b. stx_tx_id P a \<noteq> stx_tx_id P b))
     \<and> on_ok (signed_transfer P miner recipient 1 0 0) (\<lambda>a. stx_tx_id P a \<noteq> zeros 32)"


section \<open>A stand-in for BLAKE3 that keeps wallets and transactions apart\<close>

definition pad32 :: "bytes \<Rightarrow> bytes" where
  "pad32 x = take 32 (x @ zeros 32)"

lemma length_pad32 [simp]: "length (pad32 x) = 32"
  by (cases "length x \<le> 32") (simp_all add: pad32_def)

definition plain_hash :: "bytes \<Rightarrow> bytes" where
  "plain_hash x =
     (if take (length ADDR_TAG) x = ADDR_TAG then pad32 (drop (length ADDR_TAG) x)
      else if take (length TX_ID_TAG) x = TX_ID_TAG then pad32 (drop (length TX_ID_TAG) x)
      else if take (length TX_DOMAIN_TAG) x = TX_DOMAIN_TAG then pad32 (drop (length TX_DOMAIN_TAG + 40) x)
      else replicate 32 1)"

definition plain_prims :: prims where
  "plain_prims = sample_prims\<lparr>blake3 := plain_hash\<rparr>"

lemma length_plain_hash [simp]: "length (plain_hash x) = 32"
  by (simp add: plain_hash_def)

lemma plain_sel [simp]: "blake3 plain_prims = plain_hash" "hex_encode plain_prims = sample_hex" "hex_decode plain_prims = sample_unhex"
  by (simp_all add: plain_prims_def)

lemma plain_ok: "hash_ok plain_prims" "hex_ok plain_prims" "sig_ok plain_prims"
proof -
  show "hash_ok plain_prims" by (simp add: hash_ok_def plain_prims_def)
  show "hex_ok plain_prims" using sample_hex_ok by (simp add: hex_ok_def)
  show "sig_ok plain_prims" using sample_sig_ok by (simp add: sig_ok_def plain_prims_def)
qed

definition plain_wallet :: "byte \<Rightarrow> wallet_keypair" where
  "plain_wallet b = keypair_generate plain_prims (replicate 32 b) 0"

lemma prefix_nth: "take n (t @ rest) = a \<Longrightarrow> i < n \<Longrightarrow> i < length t \<Longrightarrow> a ! i = (t :: bytes) ! i"
  by (metis nth_append nth_take)

lemma tags_differ:
  "take (length ADDR_TAG) (TX_DOMAIN_TAG @ rest) \<noteq> ADDR_TAG" "take (length TX_ID_TAG) (TX_DOMAIN_TAG @ rest) \<noteq> TX_ID_TAG"
  "take (length ADDR_TAG) (TX_ID_TAG @ rest) \<noteq> ADDR_TAG" "take (length ADDR_TAG) (BTC_TAG @ rest) \<noteq> ADDR_TAG"
  "take (length TX_ID_TAG) (BTC_TAG @ rest) \<noteq> TX_ID_TAG" "take (length TX_DOMAIN_TAG) (BTC_TAG @ rest) \<noteq> TX_DOMAIN_TAG"
  "take (length ADDR_TAG) (STATE_ROOT_TAG @ rest) \<noteq> ADDR_TAG" "take (length TX_ID_TAG) (STATE_ROOT_TAG @ rest) \<noteq> TX_ID_TAG"
  "take (length TX_DOMAIN_TAG) (STATE_ROOT_TAG @ rest) \<noteq> TX_DOMAIN_TAG"
proof -
  have l: "length ADDR_TAG = 12" "length TX_ID_TAG = 12" "length TX_DOMAIN_TAG = 10" "5 < length BTC_TAG" "5 < length STATE_ROOT_TAG"
    by (simp_all add: ADDR_TAG_def TX_ID_TAG_def TX_DOMAIN_TAG_def BTC_TAG_def STATE_ROOT_TAG_def)
  have n: "ADDR_TAG ! 5 \<noteq> TX_DOMAIN_TAG ! 5" "TX_ID_TAG ! 7 \<noteq> TX_DOMAIN_TAG ! 7" "ADDR_TAG ! 5 \<noteq> TX_ID_TAG ! 5"
    "ADDR_TAG ! 5 \<noteq> BTC_TAG ! 5" "TX_ID_TAG ! 5 \<noteq> BTC_TAG ! 5" "TX_DOMAIN_TAG ! 5 \<noteq> BTC_TAG ! 5"
    "ADDR_TAG ! 5 \<noteq> STATE_ROOT_TAG ! 5" "TX_ID_TAG ! 5 \<noteq> STATE_ROOT_TAG ! 5" "TX_DOMAIN_TAG ! 5 \<noteq> STATE_ROOT_TAG ! 5"
    by code_simp+
  show "take (length ADDR_TAG) (TX_DOMAIN_TAG @ rest) \<noteq> ADDR_TAG"
    by (rule notI, drule prefix_nth [where i = 5]) (simp_all add: l n)
  show "take (length TX_ID_TAG) (TX_DOMAIN_TAG @ rest) \<noteq> TX_ID_TAG"
    by (rule notI, drule prefix_nth [where i = 7]) (simp_all add: l n)
  show "take (length ADDR_TAG) (TX_ID_TAG @ rest) \<noteq> ADDR_TAG"
    by (rule notI, drule prefix_nth [where i = 5]) (simp_all add: l n)
  show "take (length ADDR_TAG) (BTC_TAG @ rest) \<noteq> ADDR_TAG" "take (length ADDR_TAG) (STATE_ROOT_TAG @ rest) \<noteq> ADDR_TAG"
    by (rule notI, drule prefix_nth [where i = 5]; simp add: l n)+
  show "take (length TX_ID_TAG) (BTC_TAG @ rest) \<noteq> TX_ID_TAG" "take (length TX_ID_TAG) (STATE_ROOT_TAG @ rest) \<noteq> TX_ID_TAG"
    by (rule notI, drule prefix_nth [where i = 5]; simp add: l n)+
  show "take (length TX_DOMAIN_TAG) (BTC_TAG @ rest) \<noteq> TX_DOMAIN_TAG" "take (length TX_DOMAIN_TAG) (STATE_ROOT_TAG @ rest) \<noteq> TX_DOMAIN_TAG"
    by (rule notI, drule prefix_nth [where i = 5]; simp add: l n)+
qed

lemma plain_hash_tags:
  "plain_hash (ADDR_TAG @ rest) = pad32 rest" "plain_hash (TX_ID_TAG @ rest) = pad32 rest"
  "plain_hash (TX_DOMAIN_TAG @ rest) = pad32 (drop 40 rest)"
  "plain_hash (BTC_TAG @ rest) = replicate 32 1" "plain_hash (STATE_ROOT_TAG @ rest) = replicate 32 1"
proof -
  have "take (length t) (t @ rest) = t" "drop (length t) (t @ rest) = rest" "drop (length t + 40) (t @ rest) = drop 40 rest" for t :: bytes
    by simp_all
  then show "plain_hash (ADDR_TAG @ rest) = pad32 rest" "plain_hash (TX_ID_TAG @ rest) = pad32 rest"
    "plain_hash (TX_DOMAIN_TAG @ rest) = pad32 (drop 40 rest)"
    "plain_hash (BTC_TAG @ rest) = replicate 32 1" "plain_hash (STATE_ROOT_TAG @ rest) = replicate 32 1"
    by (simp_all only: plain_hash_def tags_differ if_False if_True simp_thms)
qed

lemma plain_address: "keypair_address plain_prims (plain_wallet b) = replicate 20 b"
proof -
  have "wpk_ed25519 (kp_public (plain_wallet b)) = replicate 32 b"
    by (simp add: plain_wallet_def keypair_generate_def plain_prims_def)
  then show ?thesis
    by (simp add: keypair_address_def wpk_address_def plain_hash_tags pad32_def)
qed

lemma plain_tx_id:
  assumes "length (tx_from (stx_tx s)) = 20" "length (tx_to (stx_tx s)) = 20"
  shows "take 24 (stx_tx_id plain_prims s) = le_bytes 8 (tx_amount (stx_tx s)) @ le_bytes 8 (tx_nonce (stx_tx s)) @ le_bytes 8 (tx_fee (stx_tx s))"
proof -
  have "take 24 (tx_digest plain_prims (stx_tx s)) = le_bytes 8 (tx_amount (stx_tx s)) @ le_bytes 8 (tx_nonce (stx_tx s)) @ le_bytes 8 (tx_fee (stx_tx s))"
    using assms by (simp add: tx_digest_def plain_hash_tags pad32_def tx_preimage_def)
  moreover have "take 24 (stx_tx_id plain_prims s) = take 24 (tx_digest plain_prims (stx_tx s))"
    using plain_ok(1) by (simp add: stx_tx_id_def tx_id_preimage_def plain_hash_tags pad32_def)
  ultimately show ?thesis by simp
qed

lemma plain_transfer_id:
  assumes "signed_transfer plain_prims (plain_wallet b) (plain_wallet c) amount nonce fee = Inr s"
  shows "take 24 (stx_tx_id plain_prims s) = le_bytes 8 amount @ le_bytes 8 nonce @ le_bytes 8 fee"
proof -
  have t: "stx_tx s = \<lparr>tx_from = replicate 20 b, tx_to = replicate 20 c, tx_amount = amount, tx_nonce = nonce, tx_fee = fee\<rparr>"
    using assms by (auto simp: signed_transfer_def stx_sign_def Let_def plain_address)
  show ?thesis
    using plain_tx_id [of s] by (simp add: t)
qed

lemma plain_lucky: "lucky plain_prims (plain_wallet 0) (plain_wallet 1)"
proof -
  let ?t = "signed_transfer plain_prims (plain_wallet 0) (plain_wallet 1)"
  have id_at: "x ! i = (le_bytes 8 amount @ le_bytes 8 nonce @ le_bytes 8 fee) ! i"
    if "?t amount nonce fee = Inr s" "x = stx_tx_id plain_prims s" "i < 24" for amount nonce fee s x i
    using plain_transfer_id [OF that(1)] that(2,3) by (metis nth_take)
  have amounts: "le_bytes 8 (5 :: u64) = [5, 0, 0, 0, 0, 0, 0, 0]" "le_bytes 8 (1 :: u64) = [1, 0, 0, 0, 0, 0, 0, 0]"
    "le_bytes 8 (0 :: u64) = [0, 0, 0, 0, 0, 0, 0, 0]"
    by code_simp+
  obtain a where a: "?t 5 0 1 = Inr a" by (rule signed_transfer_ok)
  obtain b where b: "?t 5 1 1 = Inr b" by (rule signed_transfer_ok)
  obtain c where c: "?t 1 0 0 = Inr c" by (rule signed_transfer_ok)
  have "stx_tx_id plain_prims a \<noteq> replicate 32 0xAA"
    using id_at [OF a refl, of 0] by (auto simp: amounts)
  moreover have "stx_tx_id plain_prims a \<noteq> stx_tx_id plain_prims b"
    using id_at [OF a refl, of 8] id_at [OF b refl, of 8] by (auto simp: amounts)
  moreover have "stx_tx_id plain_prims c \<noteq> zeros 32"
    using id_at [OF c refl, of 0] by (auto simp: amounts zeros_def)
  moreover have "keypair_address plain_prims (plain_wallet 0) \<noteq> keypair_address plain_prims (plain_wallet 1)"
    unfolding plain_address by code_simp
  moreover have "sample_hex (zeros 32) = replicate 64 CHR ''0''"
    by code_simp
  moreover have one: "replicate 32 (1 :: byte) \<noteq> zeros 32" "replicate 32 (1 :: byte) \<noteq> replicate 32 0x55"
    by code_simp+
  then have "checkpoint_seed_hash plain_prims test_proof \<noteq> zeros 32"
    by (simp add: checkpoint_seed_hash_def btc_seed_preimage_def plain_hash_tags)
  moreover have "snd (simulate_block_execution plain_prims new_ledger [] h r) \<noteq> replicate 32 0x55" for h r
    using one
    by (simp add: simulate_block_execution_def state_root_with_overlay_def compute_state_root_def state_root_preimage_def plain_hash_tags Let_def)
  ultimately show ?thesis
    by (simp add: lucky_def a b c)
qed

lemma plain_test_wallet: "test_wallet plain_prims (plain_wallet b)"
  by (auto simp: test_wallet_def plain_wallet_def intro!: exI [of _ "replicate 32 b"])


end
