(* ===== verification/Store_Tests.thy ===== *)
theory Store_Tests
  imports Adversarial_Tests
begin

text \<open>
  The tests of the block store (\<^verbatim>\<open>node/src/store.rs\<close>) run on the model: one definition per test, the value of its
  assertions. The transactions a test generates and signs are arguments; a temporary file that does not exist yet is
  \<open>store_open None\<close>, reopening it \<open>store_open (Some _)\<close>.
\<close>

section \<open>Records of the tests\<close>

definition dummy_record :: "prims \<Rightarrow> u64 \<Rightarrow> string \<Rightarrow> string \<Rightarrow> signed_transaction list \<Rightarrow> block_record" where
  "dummy_record P height block_hash prev_hash txs =
     \<lparr>br_height = height, br_block_hash = block_hash, br_prev_hash = prev_hash, br_nonce = height,
      br_timestamp = 1000000 + height, br_mined_timestamp_secs = (1000000 + height) div 1000,
      br_zero_bits = 25, br_difficulty_bits = 25, br_hashes_tried = 1000, br_elapsed_ms = 10, br_hashrate_mhs = 1,
      br_miner_address = ''3054ac8bc5c9b358e270e17183851201d0bc6b69'', br_miner_public_key = ''aa'', br_miner_signature = ''bb'',
      br_claim_digest = ''cc'', br_election_score = ''dd'', br_source = ''local'', br_reward_bina = 50, br_randomness_output = ''ee'',
      br_nullifier = ''ff'', br_btc_seed = replicate 64 CHR ''0'', br_btc_height = 900000,
      br_merkle_root = hex_encode P (merkle_root P txs), br_state_root = replicate 64 CHR ''1'',
      br_chain_work_hex = show_hex (ucast height * 2 ^ 25 :: u128), br_transactions = txs\<rparr>"

definition at_ok :: "store_error + block_record option \<Rightarrow> (block_record \<Rightarrow> bool) \<Rightarrow> bool" where
  "at_ok r rest = on_ok r (\<lambda>x. case x of None \<Rightarrow> False | Some b \<Rightarrow> rest b)"

definition repeat_str :: "nat \<Rightarrow> string \<Rightarrow> string" where
  "repeat_str n s = concat (replicate n s)"

definition height_name :: "u64 \<Rightarrow> string" where
  "height_name h = ''h'' @ show_u64 h"

section \<open>The tests\<close>

definition insert_and_get_round_trips :: "prims \<Rightarrow> serde \<Rightarrow> signed_transaction \<Rightarrow> bool" where
  "insert_and_get_round_trips P J tx =
     (let store = insert_block J (dummy_record P 1 ''aa11'' ''0000'' [tx]) (store_open None) in
      at_ok (store_get J store 1) (\<lambda>fetched. br_block_hash fetched = ''aa11'' \<and> length (br_transactions fetched) = 1
        \<and> stx_tx_id_hex P (br_transactions fetched ! 0) = stx_tx_id_hex P tx))"

definition get_missing_height_returns_none :: "serde \<Rightarrow> bool" where
  "get_missing_height_returns_none J = (store_get J (store_open None) 42 = Inr None)"

definition get_by_hash_finds_the_right_block :: "prims \<Rightarrow> serde \<Rightarrow> bool" where
  "get_by_hash_finds_the_right_block P J =
     (let store = insert_block J (dummy_record P 2 ''hash2'' ''hash1'' [])
            (insert_block J (dummy_record P 1 ''hash1'' ''0000'' []) (store_open None)) in
      at_ok (store_get_by_hash J store ''hash2'') (\<lambda>found. br_height found = 2)
      \<and> store_get_by_hash J store ''nonexistent'' = Inr None)"

definition ten_blocks :: "prims \<Rightarrow> serde \<Rightarrow> block_store" where
  "ten_blocks P J = fold (\<lambda>h. insert_block J (dummy_record P h (height_name h) (height_name (sat_sub h 1)) []))
     [1, 2, 3, 4, 5, 6, 7, 8, 9, 10] (store_open None)"

definition get_range_is_ordered_and_bounded :: "prims \<Rightarrow> serde \<Rightarrow> bool" where
  "get_range_is_ordered_and_bounded P J =
     (let store = ten_blocks P J in
      on_ok (get_range J store 3 7 100) (\<lambda>page. map br_height page = [3, 4, 5, 6, 7])
      \<and> on_ok (get_range J store 1 10 3) (\<lambda>capped. length capped = 3 \<and> br_height (capped ! 0) = 1))"

definition tip_height_tracks_highest_inserted :: "prims \<Rightarrow> serde \<Rightarrow> bool" where
  "tip_height_tracks_highest_inserted P J =
     (let store = insert_block J (dummy_record P 5 ''h5'' ''h4'' []) (insert_block J (dummy_record P 1 ''h1'' ''0000'' []) (store_open None)) in
      tip_height (store_open None) = 0 \<and> tip_height store = 5)"

definition block_hash_at_returns_the_right_hash :: "prims \<Rightarrow> serde \<Rightarrow> bool" where
  "block_hash_at_returns_the_right_hash P J =
     (let store = insert_block J (dummy_record P 3 ''h3'' ''h2'' []) (store_open None) in
      block_hash_at store 3 = Some ''h3'' \<and> block_hash_at store 4 = None)"

definition five_blocks :: "prims \<Rightarrow> serde \<Rightarrow> (u64 \<Rightarrow> signed_transaction) \<Rightarrow> block_store" where
  "five_blocks P J tx = fold (\<lambda>h. insert_block J (dummy_record P h (height_name h) (height_name (h - 1)) [tx h]))
     [1, 2, 3, 4, 5] (store_open None)"

definition rollback_above_deletes_blocks_and_their_transactions :: "prims \<Rightarrow> serde \<Rightarrow> (u64 \<Rightarrow> signed_transaction) \<Rightarrow> bool" where
  "rollback_above_deletes_blocks_and_their_transactions P J tx =
     (let store = rollback_above 3 (five_blocks P J tx) in
      tip_height store = 3 \<and> store_get J store 4 = Inr None \<and> store_get J store 5 = Inr None
      \<and> at_ok (store_get J store 3) (\<lambda>survivor. length (br_transactions survivor) = 1))"

definition reinserting_a_height_overwrites_its_transactions :: "prims \<Rightarrow> serde \<Rightarrow> signed_transaction \<Rightarrow> signed_transaction
    \<Rightarrow> signed_transaction \<Rightarrow> bool" where
  "reinserting_a_height_overwrites_its_transactions P J a b c =
     (let store = insert_block J (dummy_record P 1 ''h1a'' ''0000'' [a, b]) (store_open None);
          store' = insert_block J (dummy_record P 1 ''h1b'' ''0000'' [c]) store in
      at_ok (store_get J store 1) (\<lambda>r. length (br_transactions r) = 2)
      \<and> at_ok (store_get J store' 1) (\<lambda>r. br_block_hash r = ''h1b'' \<and> length (br_transactions r) = 1))"

definition latest_checkpoint_skips_mock_rows_and_returns_the_newest_real_one :: "prims \<Rightarrow> serde \<Rightarrow> bool" where
  "latest_checkpoint_skips_mock_rows_and_returns_the_newest_real_one P J =
     (let real = (dummy_record P 1 ''h1'' ''0000'' [])\<lparr>br_btc_seed := repeat_str 32 ''aa'', br_btc_height := 900100\<rparr>;
          mock = (dummy_record P 2 ''h2'' ''h1'' [])\<lparr>br_btc_seed := repeat_str 32 ''de'', br_btc_height := 0\<rparr>;
          newer = (dummy_record P 3 ''h3'' ''h2'' [])\<lparr>br_btc_seed := repeat_str 32 ''bb'', br_btc_height := 900200\<rparr>;
          store = insert_block J mock (insert_block J real (store_open None)) in
      latest_checkpoint (store_open None) = None
      \<and> latest_checkpoint store = Some (repeat_str 32 ''aa'', 900100)
      \<and> latest_checkpoint (insert_block J newer store) = Some (repeat_str 32 ''bb'', 900200))"

definition all_nullifiers_returns_every_stored_block_nullifier :: "prims \<Rightarrow> serde \<Rightarrow> bool" where
  "all_nullifiers_returns_every_stored_block_nullifier P J =
     (let store = fold (\<lambda>h. insert_block J ((dummy_record P h (height_name h) (height_name (h - 1)) [])
            \<lparr>br_nullifier := repeat_str 32 (''0'' @ show_u64 h)\<rparr>)) [1, 2, 3] (store_open None);
          nullifiers = all_nullifiers store in
      length nullifiers = 3 \<and> repeat_str 32 ''02'' \<in> set nullifiers)"

definition mempool_rows_survive_a_reopen_and_are_removable :: "prims \<Rightarrow> serde \<Rightarrow> signed_transaction \<Rightarrow> signed_transaction \<Rightarrow> bool" where
  "mempool_rows_survive_a_reopen_and_are_removable P J tx1 tx2 =
     (let file1 = mempool_insert P J tx1 (mempool_insert P J tx2 (mempool_insert P J tx1 (store_open None)));
          (loaded, store) = mempool_load J (store_open (Some file1));
          (after, _) = mempool_load J (mempool_remove P (stx_tx_id P tx1) store) in
      length loaded = 2 \<and> length after = 1 \<and> stx_tx_id_hex P (after ! 0) = stx_tx_id_hex P tx2)"

section \<open>They pass\<close>

lemma insert_block_tables:
  "bs_blocks (insert_block J r s) = filter (\<lambda>row. row_height row \<noteq> as_i64 (br_height r) \<and> row_block_hash row \<noteq> br_block_hash r) (bs_blocks s)
     @ [record_to_row r]"
  "bs_txs (insert_block J r s) = filter (\<lambda>t. tr_height t \<noteq> as_i64 (br_height r)) (bs_txs s) @ tx_rows J (as_i64 (br_height r)) 0 (br_transactions r)"
  by (simp_all add: insert_block_def Let_def)

lemma record_row_sel:
  "row_height (record_to_row r) = as_i64 (br_height r)" "row_block_hash (record_to_row r) = br_block_hash r"
  "row_nullifier (record_to_row r) = br_nullifier r" "row_btc_seed (record_to_row r) = br_btc_seed r"
  "row_btc_height (record_to_row r) = as_i64 (br_btc_height r)"
  "br_height (row_to_record (record_to_row r)) = br_height r" "br_block_hash (row_to_record (record_to_row r)) = br_block_hash r"
  by (simp_all add: record_to_row_def row_to_record_def Let_def)

lemma dummy_record_sel:
  "br_height (dummy_record P h x y txs) = h" "br_block_hash (dummy_record P h x y txs) = x"
  "br_transactions (dummy_record P h x y txs) = txs" "br_btc_height (dummy_record P h x y txs) = 900000"
  by (simp_all add: dummy_record_def)

lemma open_tables: "bs_blocks (store_open None) = []" "bs_txs (store_open None) = []" "bs_mempool (store_open None) = []"
  "store_open (Some s) = s"
  by (simp_all add: store_open_def)

lemma small_heights: "as_i64 1 = 1" "as_i64 2 = 2" "as_i64 3 = 3" "as_i64 4 = 4" "as_i64 5 = 5" "as_i64 6 = 6" "as_i64 7 = 7"
  "as_i64 8 = 8" "as_i64 9 = 9" "as_i64 10 = 10" "as_i64 100 = 100" "as_i64 0 = 0" "as_i64 900000 = 900000" "as_i64 900100 = 900100"
  "as_i64 900200 = 900200"
  by (simp_all add: as_i64_def)

lemma digits: "char_of (48 :: nat) = CHR ''0''" "char_of (49 :: nat) = CHR ''1''" "char_of (50 :: nat) = CHR ''2''"
  "char_of (51 :: nat) = CHR ''3''" "char_of (52 :: nat) = CHR ''4''" "char_of (53 :: nat) = CHR ''5''" "char_of (54 :: nat) = CHR ''6''"
  "char_of (55 :: nat) = CHR ''7''" "char_of (56 :: nat) = CHR ''8''" "char_of (57 :: nat) = CHR ''9''"
  by code_simp+

lemma height_names: "height_name 1 = ''h1''" "height_name 2 = ''h2''" "height_name 3 = ''h3''" "height_name 4 = ''h4''"
  "height_name 5 = ''h5''" "height_name 6 = ''h6''" "height_name 7 = ''h7''" "height_name 8 = ''h8''" "height_name 9 = ''h9''"
  "height_name 10 = ''h10''"
  by (simp_all add: height_name_def show_u64_def show_nat.simps digit_char_def digits)

lemmas store_eval = insert_block_tables record_row_sel dummy_record_sel open_tables get_transactions_def res_bind_def

lemma get_tests:
  assumes "json_ok J"
  shows "insert_and_get_round_trips P J tx" "get_missing_height_returns_none J" "get_by_hash_finds_the_right_block P J"
    "block_hash_at_returns_the_right_hash P J" "reinserting_a_height_overwrites_its_transactions P J a b c"
  using assms
  by (simp_all add: insert_and_get_round_trips_def get_missing_height_returns_none_def get_by_hash_finds_the_right_block_def
      block_hash_at_returns_the_right_hash_def reinserting_a_height_overwrites_its_transactions_def store_get_def
      store_get_by_hash_def block_hash_at_def with_transactions_def at_ok_def store_eval Let_def)

lemma ten_block_rows:
  "bs_blocks (ten_blocks P J) = map (\<lambda>h. record_to_row (dummy_record P h (height_name h) (height_name (sat_sub h 1)) []))
     [1, 2, 3, 4, 5, 6, 7, 8, 9, 10]" "bs_txs (ten_blocks P J) = []"
  by (simp_all add: ten_blocks_def store_eval height_names)

lemma range_test: "get_range_is_ordered_and_bounded P J"
  by (simp add: get_range_is_ordered_and_bounded_def get_range_def sql_limit_def ten_block_rows small_heights store_eval with_transactions_def
      eval_nat_numeral Let_def)

lemma tip_test: "tip_height_tracks_highest_inserted P J"
  by (simp add: tip_height_tracks_highest_inserted_def tip_height_def store_eval small_heights as_u64_def Let_def)

lemma five_block_rows:
  "bs_blocks (five_blocks P J tx) = map (\<lambda>h. record_to_row (dummy_record P h (height_name h) (height_name (h - 1)) [tx h])) [1, 2, 3, 4, 5]"
  "bs_txs (five_blocks P J tx) = map (\<lambda>h. \<lparr>tr_height = as_i64 h, tr_index = 0, tr_json = tx_to_json J (tx h)\<rparr>) [1, 2, 3, 4, 5]"
  by (simp_all add: five_blocks_def store_eval height_names)

lemma rollback_test:
  assumes "json_ok J"
  shows "rollback_above_deletes_blocks_and_their_transactions P J tx"
  using assms
  by (simp add: rollback_above_deletes_blocks_and_their_transactions_def rollback_above_def tip_height_def store_get_def five_block_rows
      store_eval small_heights at_ok_def as_u64_def Let_def)

lemma checkpoint_test: "latest_checkpoint_skips_mock_rows_and_returns_the_newest_real_one P J"
  by (simp add: latest_checkpoint_skips_mock_rows_and_returns_the_newest_real_one_def latest_checkpoint_def store_eval small_heights
      as_u64_def Let_def)

lemma nullifier_test: "all_nullifiers_returns_every_stored_block_nullifier P J"
  by (simp add: all_nullifiers_returns_every_stored_block_nullifier_def all_nullifiers_def store_eval small_heights height_names
      show_u64_def show_nat.simps digit_char_def digits Let_def)

lemma mempool_test:
  assumes "hex_ok P" "json_ok J" "stx_tx_id P tx1 \<noteq> stx_tx_id P tx2"
  shows "mempool_rows_survive_a_reopen_and_are_removable P J tx1 tx2"
proof -
  have "stx_tx_id_hex P tx1 \<noteq> stx_tx_id_hex P tx2"
    using assms(1,3) by (simp add: stx_tx_id_hex_def hex_encode_inj)
  then show ?thesis
    using assms(2) by (simp add: mempool_rows_survive_a_reopen_and_are_removable_def mempool_load_def mempool_insert_def mempool_put_def
      mempool_remove_def mempool_del_def hm_insert_def hm_has_def hm_remove_def open_tables List.map_filter_simps Let_def
      flip: stx_tx_id_hex_def)
qed

end
