(* ===== verification/Wallet_Tests.thy ===== *)
theory Wallet_Tests
  imports Core_Tests
begin

text \<open>
  The unit tests of the wallet, the transfers, the Bitcoin checkpoints and the guarded buffer (\<^verbatim>\<open>mod tests\<close> of
  \<^verbatim>\<open>crypto.rs\<close>, \<^verbatim>\<open>transaction.rs\<close>, \<^verbatim>\<open>bitcoin_entropy.rs\<close> and \<^verbatim>\<open>secure_memory.rs\<close>), as in \<open>Core_Tests\<close>. That a
  signature does not verify for another message or another key is a hypothesis on the scheme.
\<close>

section \<open>The hybrid wallet\<close>

definition generate_and_sign_verify :: "prims \<Rightarrow> nat \<Rightarrow> wallet_keypair \<Rightarrow> bool" where
  "generate_and_sign_verify P q kp =
     (let msg = as_bytes ''hello TGBT-L1'' in is_ok (wpk_verify P (kp_public kp) msg (keypair_sign P q kp msg)))"

definition tampered_message_fails :: "prims \<Rightarrow> nat \<Rightarrow> wallet_keypair \<Rightarrow> bool" where
  "tampered_message_fails P q kp =
     (\<not> is_ok (wpk_verify P (kp_public kp) (as_bytes ''tampered'') (keypair_sign P q kp (as_bytes ''original''))))"

definition address_is_deterministic :: "prims \<Rightarrow> wallet_keypair \<Rightarrow> bool" where
  "address_is_deterministic P kp =
     (keypair_address P kp = keypair_address P kp \<and> keypair_address P kp = wpk_address P (kp_public kp))"

definition different_keypairs_different_addresses :: "prims \<Rightarrow> wallet_keypair \<Rightarrow> wallet_keypair \<Rightarrow> bool" where
  "different_keypairs_different_addresses P a b = (keypair_address P a \<noteq> keypair_address P b)"

definition pubkey_serialisation_roundtrip :: "prims \<Rightarrow> wallet_keypair \<Rightarrow> bool" where
  "pubkey_serialisation_roundtrip P kp =
     (let bytes = wpk_to_bytes (kp_public kp) in
      length bytes = 32 + FALCON_PK_BYTES
      \<and> on_ok (wpk_from_bytes P bytes) (\<lambda>pk2. wpk_address P (kp_public kp) = wpk_address P pk2))"

definition keypair_secret_serialisation_roundtrip :: "prims \<Rightarrow> nat \<Rightarrow> nat \<Rightarrow> wallet_keypair \<Rightarrow> bool" where
  "keypair_secret_serialisation_roundtrip P q q2 kp =
     (let msg = as_bytes ''roundtrip test''; sig = keypair_sign P q kp msg; bytes = keypair_to_secret_bytes kp in
      length bytes = 32 + FALCON_PK_BYTES + FALCON_SK_BYTES
      \<and> on_ok (keypair_from_secret_bytes P bytes) (\<lambda>kp2.
           keypair_address P kp = keypair_address P kp2
           \<and> (let sig2 = keypair_sign P q2 kp2 msg in
              is_ok (wpk_verify P (kp_public kp) msg sig2) \<and> is_ok (wpk_verify P (kp_public kp2) msg sig))))"

definition hybrid_sig_serialisation_roundtrip :: "prims \<Rightarrow> nat \<Rightarrow> wallet_keypair \<Rightarrow> bool" where
  "hybrid_sig_serialisation_roundtrip P q kp =
     (let msg = as_bytes ''sig roundtrip''; bytes = hsig_to_bytes (keypair_sign P q kp msg) in
      on_ok (hsig_from_bytes bytes) (\<lambda>sig2. is_ok (wpk_verify P (kp_public kp) msg sig2)))"

definition falcon_is_probabilistic_ed25519_is_deterministic :: "prims \<Rightarrow> nat \<Rightarrow> nat \<Rightarrow> wallet_keypair \<Rightarrow> bool" where
  "falcon_is_probabilistic_ed25519_is_deterministic P q q2 kp =
     (let msg = as_bytes ''same message''; s1 = keypair_sign P q kp msg; s2 = keypair_sign P q2 kp msg in
      hs_ed25519 s1 = hs_ed25519 s2
      \<and> is_ok (wpk_verify P (kp_public kp) msg s1) \<and> is_ok (wpk_verify P (kp_public kp) msg s2))"

definition wrong_key_fails_verification :: "prims \<Rightarrow> nat \<Rightarrow> wallet_keypair \<Rightarrow> wallet_keypair \<Rightarrow> bool" where
  "wrong_key_fails_verification P q kp1 kp2 =
     (let sig = keypair_sign P q kp1 (as_bytes ''message'') in \<not> is_ok (wpk_verify P (kp_public kp2) (as_bytes ''message'') sig))"

lemma wallet_signs:
  assumes "sig_ok P" "test_wallet P kp"
  shows "wpk_verify P (kp_public kp) msg (keypair_sign P q kp msg) = Inr ()" "hsig_wf (keypair_sign P q kp msg)"
  using assms keypair_sign_verifies keypair_sign_wf by (auto simp: test_wallet_def)

lemma wallet_lengths:
  assumes "sig_ok P" "test_wallet P kp"
  shows "length (wpk_ed25519 (kp_public kp)) = 32" "length (wpk_falcon (kp_public kp)) = FALCON_PK_BYTES"
    "length (kp_ed_sk kp) = 32" "length (kp_falcon_sk kp) = FALCON_SK_BYTES" "wpk_wf P (kp_public kp)"
  using wallet_wf [OF assms] unfolding keypair_wf_def wpk_wf_def by blast+

lemma keypair_sign_ed [simp]: "hs_ed25519 (keypair_sign P q kp msg) = ed_sign P (kp_ed_sk kp) msg"
  by (simp add: keypair_sign_def)

lemma crypto_tests:
  assumes "sig_ok P" "test_wallet P kp"
  shows "generate_and_sign_verify P q kp" "address_is_deterministic P kp" "pubkey_serialisation_roundtrip P kp"
    "keypair_secret_serialisation_roundtrip P q q2 kp" "hybrid_sig_serialisation_roundtrip P q kp"
    "falcon_is_probabilistic_ed25519_is_deterministic P q q2 kp"
proof -
  have len: "length (wpk_to_bytes (kp_public kp)) = 32 + FALCON_PK_BYTES"
    "length (keypair_to_secret_bytes kp) = 32 + FALCON_PK_BYTES + FALCON_SK_BYTES"
    using wallet_lengths [OF assms] by (simp_all add: wpk_to_bytes_def keypair_to_secret_bytes_def)
  note again = wpk_from_to_bytes [OF wallet_lengths(5) [OF assms]] keypair_from_to_secret_bytes [OF wallet_wf [OF assms]]
    hsig_from_to_bytes [OF wallet_signs(2) [OF assms]]
  show "generate_and_sign_verify P q kp" "address_is_deterministic P kp" "pubkey_serialisation_roundtrip P kp"
    "keypair_secret_serialisation_roundtrip P q q2 kp" "hybrid_sig_serialisation_roundtrip P q kp"
    "falcon_is_probabilistic_ed25519_is_deterministic P q q2 kp"
    by (simp_all add: generate_and_sign_verify_def address_is_deterministic_def keypair_address_def pubkey_serialisation_roundtrip_def
      keypair_secret_serialisation_roundtrip_def hybrid_sig_serialisation_roundtrip_def
      falcon_is_probabilistic_ed25519_is_deterministic_def again len wallet_signs(1) [OF assms] is_ok_def Let_def)
qed

text \<open>The negative tests hold of any scheme whose Ed25519 part is not forgeable in this way.\<close>

lemma crypto_tests_reject:
  "\<not> ed_verify P (wpk_ed25519 (kp_public kp)) (as_bytes ''tampered'') (ed_sign P (kp_ed_sk kp) (as_bytes ''original''))
     \<Longrightarrow> tampered_message_fails P q kp"
  "\<not> ed_verify P (wpk_ed25519 (kp_public kp2)) (as_bytes ''message'') (ed_sign P (kp_ed_sk kp) (as_bytes ''message''))
     \<Longrightarrow> wrong_key_fails_verification P q kp kp2"
  by (simp_all add: tampered_message_fails_def wrong_key_fails_verification_def wpk_verify_def keypair_sign_def is_ok_def Let_def)

text \<open>Two wallets share an address only if their keys are the same or the hash truncated to 20 bytes collides.\<close>

lemma crypto_tests_addresses:
  assumes "sig_ok P" "test_wallet P a" "test_wallet P b" "kp_public a \<noteq> kp_public b"
    and "inj_on (\<lambda>m. take 20 (blake3 P m)) {ADDR_TAG @ wpk_to_bytes (kp_public a), ADDR_TAG @ wpk_to_bytes (kp_public b)}"
  shows "different_keypairs_different_addresses P a b"
proof -
  have "wpk_to_bytes (kp_public a) \<noteq> wpk_to_bytes (kp_public b)"
    using wpk_from_to_bytes [OF wallet_lengths(5) [OF assms(1,2)]] wpk_from_to_bytes [OF wallet_lengths(5) [OF assms(1,3)]] assms(4)
    by auto
  with assms(5) show ?thesis
    by (auto simp: different_keypairs_different_addresses_def keypair_address_def wpk_address_def wpk_to_bytes_def)
qed

section \<open>Transfers\<close>

definition test_tx :: "prims \<Rightarrow> wallet_address \<Rightarrow> wallet_keypair \<Rightarrow> u64 \<Rightarrow> u64 \<Rightarrow> u64 \<Rightarrow> transaction" where
  "test_tx P sender recipient amount nonce fee =
     \<lparr>tx_from = sender, tx_to = keypair_address P recipient, tx_amount = amount, tx_nonce = nonce, tx_fee = fee\<rparr>"

definition signed_transaction_verifies :: "prims \<Rightarrow> nat \<Rightarrow> wallet_keypair \<Rightarrow> wallet_keypair \<Rightarrow> bool" where
  "signed_transaction_verifies P q sender recipient =
     on_ok (stx_sign P q (test_tx P (keypair_address P sender) recipient 42 7 1) sender) (\<lambda>signed_tx.
       is_ok (stx_verify P signed_tx) \<and> stx_from_hex P signed_tx = wpk_address_hex P (kp_public sender)
       \<and> stx_to_hex P signed_tx = wpk_address_hex P (kp_public recipient))"

definition signature_binds_transaction_fields :: "prims \<Rightarrow> nat \<Rightarrow> wallet_keypair \<Rightarrow> wallet_keypair \<Rightarrow> bool" where
  "signature_binds_transaction_fields P q sender recipient =
     on_ok (stx_sign P q (test_tx P (keypair_address P sender) recipient 42 7 1) sender) (\<lambda>signed_tx.
       \<not> is_ok (stx_verify P (signed_tx\<lparr>stx_tx := (stx_tx signed_tx)\<lparr>tx_amount := 43\<rparr>\<rparr>)))"

definition rejects_wrong_from_address :: "prims \<Rightarrow> nat \<Rightarrow> wallet_keypair \<Rightarrow> wallet_keypair \<Rightarrow> wallet_keypair \<Rightarrow> bool" where
  "rejects_wrong_from_address P q sender other recipient =
     (\<not> is_ok (stx_sign P q (test_tx P (keypair_address P other) recipient 42 7 1) sender))"

definition ed25519_only_transaction_verifies :: "prims \<Rightarrow> wallet_keypair \<Rightarrow> bool" where
  "ed25519_only_transaction_verifies P recipient =
     (let sender = replicate 32 7 in
      on_ok (ed25519_only_address P (ed_public P sender)) (\<lambda>sender_address.
      on_ok (stx_sign_ed25519_only P (test_tx P sender_address recipient 42 0 1) sender) (\<lambda>signed_tx.
        is_ok (stx_verify P signed_tx) \<and> length (stx_public_key signed_tx) = ED25519_PUBLIC_KEY_BYTES
        \<and> length (stx_signature signed_tx) = ED25519_SIGNATURE_BYTES)))"

definition ed25519_only_transaction_binds_fields :: "prims \<Rightarrow> wallet_keypair \<Rightarrow> wallet_keypair \<Rightarrow> bool" where
  "ed25519_only_transaction_binds_fields P recipient other =
     (let sender = replicate 32 9 in
      on_ok (ed25519_only_address P (ed_public P sender)) (\<lambda>sender_address.
      on_ok (stx_sign_ed25519_only P (test_tx P sender_address recipient 42 0 1) sender) (\<lambda>signed_tx.
        \<not> is_ok (stx_verify P (signed_tx\<lparr>stx_tx := (stx_tx signed_tx)\<lparr>tx_to := keypair_address P other\<rparr>\<rparr>)))))"

definition parses_hex_address :: "prims \<Rightarrow> bool" where
  "parses_hex_address P =
     (let address = ''3054ac8bc5c9b358e270e17183851201d0bc6b69'' in
      on_ok (parse_address_hex P address) (\<lambda>parsed. hex_encode P parsed = address)
      \<and> on_ok (parse_address_hex P (''0x'' @ address)) (\<lambda>parsed. hex_encode P parsed = address))"

text \<open>The helper \<^verbatim>\<open>signed_tx\<close> of the Merkle tests, with the wallets it generates.\<close>

definition fresh_signed_tx :: "prims \<Rightarrow> nat \<Rightarrow> wallet_keypair \<Rightarrow> wallet_keypair \<Rightarrow> u64 \<Rightarrow> tx_error + signed_transaction" where
  "fresh_signed_tx P q sender recipient nonce = stx_sign P q (test_tx P (keypair_address P sender) recipient 10 nonce 1) sender"

definition merkle_root_empty_is_zero :: "prims \<Rightarrow> bool" where
  "merkle_root_empty_is_zero P = (merkle_root P [] = zeros 32)"

definition merkle_root_deterministic_and_order_sensitive ::
    "prims \<Rightarrow> nat \<Rightarrow> wallet_keypair \<times> wallet_keypair \<Rightarrow> wallet_keypair \<times> wallet_keypair \<Rightarrow> bool" where
  "merkle_root_deterministic_and_order_sensitive P q wa wb =
     on_ok (fresh_signed_tx P q (fst wa) (snd wa) 0) (\<lambda>a.
     on_ok (fresh_signed_tx P q (fst wb) (snd wb) 0) (\<lambda>b.
       let r1 = merkle_root P [a, b]; r2 = merkle_root P [a, b]; r3 = merkle_root P [b, a] in r1 = r2 \<and> r1 \<noteq> r3))"

definition merkle_root_odd_count_does_not_panic ::
    "prims \<Rightarrow> nat \<Rightarrow> wallet_keypair \<times> wallet_keypair \<Rightarrow> wallet_keypair \<times> wallet_keypair \<Rightarrow> wallet_keypair \<times> wallet_keypair \<Rightarrow> bool" where
  "merkle_root_odd_count_does_not_panic P q wa wb wc =
     on_ok (fresh_signed_tx P q (fst wa) (snd wa) 0) (\<lambda>a.
     on_ok (fresh_signed_tx P q (fst wb) (snd wb) 0) (\<lambda>b.
     on_ok (fresh_signed_tx P q (fst wc) (snd wc) 0) (\<lambda>c. merkle_root P [a, b, c] \<noteq> zeros 32)))"

definition merkle_root_single_tx_equals_its_tx_id :: "prims \<Rightarrow> nat \<Rightarrow> wallet_keypair \<Rightarrow> wallet_keypair \<Rightarrow> bool" where
  "merkle_root_single_tx_equals_its_tx_id P q sender recipient =
     on_ok (fresh_signed_tx P q sender recipient 0) (\<lambda>tx. merkle_root P [tx] = stx_tx_id P tx)"

text \<open>Two wallets with different addresses.\<close>

definition apart :: "prims \<Rightarrow> wallet_keypair \<Rightarrow> wallet_keypair \<Rightarrow> bool" where
  "apart P a b \<longleftrightarrow> test_wallet P a \<and> test_wallet P b \<and> keypair_address P a \<noteq> keypair_address P b"

lemma wallet_transfer_verifies:
  assumes "hash_ok P" "sig_ok P" "apart P sender recipient" "amount \<noteq> 0"
  shows "\<exists>s. stx_sign P q (test_tx P (keypair_address P sender) recipient amount nonce fee) sender = Inr s
    \<and> stx_verify P s = Inr () \<and> stx_tx s = test_tx P (keypair_address P sender) recipient amount nonce fee"
proof -
  let ?t = "test_tx P (keypair_address P sender) recipient amount nonce fee"
  obtain seed r where w: "length seed = 32" "sender = keypair_generate P seed r"
    using assms(3) by (auto simp: apart_def test_wallet_def)
  obtain s where s: "stx_sign P q ?t sender = Inr s"
    by (simp add: stx_sign_def test_tx_def Let_def)
  have "stx_verify P s = Inr ()"
    using stx_sign_verifies [OF assms(1,2) w(1) s [unfolded w(2)]] assms(3,4) w(2) by (simp add: test_tx_def apart_def)
  with s stx_sign_tx [OF s] show ?thesis by blast
qed

lemma transfer_tests:
  assumes "hash_ok P" "sig_ok P" "apart P sender recipient"
  shows "signed_transaction_verifies P q sender recipient"
    "apart P sender other \<Longrightarrow> rejects_wrong_from_address P q sender other recipient"
    "merkle_root_single_tx_equals_its_tx_id P q sender recipient" "merkle_root_empty_is_zero P"
proof -
  show "signed_transaction_verifies P q sender recipient"
    using wallet_transfer_verifies [OF assms, of 42 q 7 1]
    by (auto simp: signed_transaction_verifies_def stx_from_hex_def stx_to_hex_def wpk_address_hex_def keypair_address_def
      test_tx_def is_ok_def)
  show "apart P sender other \<Longrightarrow> rejects_wrong_from_address P q sender other recipient"
    by (simp add: rejects_wrong_from_address_def stx_sign_def test_tx_def apart_def is_ok_def eq_commute [of "keypair_address P other"])
  show "merkle_root_single_tx_equals_its_tx_id P q sender recipient"
    using wallet_transfer_verifies [OF assms, of 10 q 0 1]
    by (auto simp: merkle_root_single_tx_equals_its_tx_id_def fresh_signed_tx_def merkle_root_single)
  show "merkle_root_empty_is_zero P"
    by (simp add: merkle_root_empty_is_zero_def merkle_root_def)
qed

lemma ed25519_only_tests:
  assumes "sig_ok P" "take 20 (keccak256 P (ed_public P (replicate 32 7))) \<noteq> keypair_address P recipient"
  shows "ed25519_only_transaction_verifies P recipient"
proof -
  let ?sk = "replicate 32 7 :: bytes" and ?a = "take 20 (keccak256 P (ed_public P (replicate 32 7)))"
  have len: "length (ed_public P ?sk) = 32" "length (ed_sign P ?sk m) = 64" for m
    using assms(1) by (simp_all add: sig_ok_def)
  then have a: "ed25519_only_address P (ed_public P ?sk) = Inr ?a"
    by (simp add: ed25519_only_address_def ed25519_sizes)
  then obtain s where s: "stx_sign_ed25519_only P (test_tx P ?a recipient 42 0 1) ?sk = Inr s"
    "stx_public_key s = ed_public P ?sk" "length (stx_signature s) = 64"
    by (simp add: stx_sign_ed25519_only_def test_tx_def Let_def len)
  moreover have "stx_verify P s = Inr ()"
    using assms(2) by (intro stx_sign_ed25519_only_verifies [OF assms(1) _ s(1)]) (simp_all add: test_tx_def)
  ultimately show ?thesis
    by (simp add: ed25519_only_transaction_verifies_def a len ed25519_sizes is_ok_def)
qed

text \<open>A signature of either kind binds the fields, if the scheme does not accept it for another digest.\<close>

lemma binding_tests:
  assumes "sig_ok P"
  shows "test_wallet P sender \<Longrightarrow>
      \<not> ed_verify P (wpk_ed25519 (kp_public sender)) (tx_digest P (test_tx P (keypair_address P sender) recipient 43 7 1))
        (ed_sign P (kp_ed_sk sender) (tx_digest P (test_tx P (keypair_address P sender) recipient 42 7 1))) \<Longrightarrow>
      signature_binds_transaction_fields P q sender recipient"
    "(let a = take 20 (keccak256 P (ed_public P (replicate 32 9))) in
      \<not> ed_verify P (ed_public P (replicate 32 9)) (tx_digest P (test_tx P a other 42 0 1))
        (ed_sign P (replicate 32 9) (tx_digest P (test_tx P a recipient 42 0 1)))) \<Longrightarrow>
      ed25519_only_transaction_binds_fields P recipient other"
proof -
  assume w: "test_wallet P sender"
    and no: "\<not> ed_verify P (wpk_ed25519 (kp_public sender)) (tx_digest P (test_tx P (keypair_address P sender) recipient 43 7 1))
        (ed_sign P (kp_ed_sk sender) (tx_digest P (test_tx P (keypair_address P sender) recipient 42 7 1)))"
  let ?t = "test_tx P (keypair_address P sender) recipient 42 7 1"
  have pk: "wpk_from_bytes P (wpk_to_bytes (kp_public sender)) = Inr (kp_public sender)"
    "hsig_from_bytes (hsig_to_bytes (keypair_sign P q sender m)) = Inr (keypair_sign P q sender m)" for m
    using wallet_lengths(5) [OF assms w] wallet_signs(2) [OF assms w] by (simp_all add: wpk_from_to_bytes hsig_from_to_bytes)
  have len: "length (wpk_to_bytes (kp_public sender)) = 32 + 897"
    using wallet_lengths(1,2) [OF assms w] by (simp add: wpk_to_bytes_def falcon_sizes)
  have "?t\<lparr>tx_amount := 43\<rparr> = test_tx P (keypair_address P sender) recipient 43 7 1"
    by (simp add: test_tx_def)
  then show "signature_binds_transaction_fields P q sender recipient"
    using no by (simp add: signature_binds_transaction_fields_def stx_sign_def Let_def is_ok_iff stx_verify_ok_iff pk wpk_verify_ok_iff len)
      (simp add: test_tx_def)
next
  let ?sk = "replicate 32 9 :: bytes" and ?a = "take 20 (keccak256 P (ed_public P (replicate 32 9)))"
  assume no: "let a = ?a in \<not> ed_verify P (ed_public P ?sk) (tx_digest P (test_tx P a other 42 0 1))
        (ed_sign P ?sk (tx_digest P (test_tx P a recipient 42 0 1)))"
  have len: "length (ed_public P ?sk) = 32"
    using assms by (simp add: sig_ok_def)
  then have a: "ed25519_only_address P (ed_public P ?sk) = Inr ?a"
    by (simp add: ed25519_only_address_def ed25519_sizes)
  have "(test_tx P ?a recipient 42 0 1)\<lparr>tx_to := keypair_address P other\<rparr> = test_tx P ?a other 42 0 1"
    "tx_from (test_tx P ?a recipient 42 0 1) = ?a"
    by (simp_all add: test_tx_def)
  then show "ed25519_only_transaction_binds_fields P recipient other"
    using no by (simp add: ed25519_only_transaction_binds_fields_def a stx_sign_ed25519_only_def is_ok_iff stx_verify_ok_iff
      stx_verify_ed25519_only_ok_iff len Let_def)
qed

lemma parse_tests: "parses_hex_address sample_prims"
  by code_simp

section \<open>Bitcoin checkpoints\<close>

definition checkpoint_heights_are_periodic_from_one :: bool where
  "checkpoint_heights_are_periodic_from_one =
     (is_checkpoint_height 1 \<and> \<not> is_checkpoint_height 2 \<and> \<not> is_checkpoint_height 20 \<and> is_checkpoint_height 21
      \<and> is_checkpoint_height 41 \<and> \<not> is_checkpoint_height 40)"

definition governing_checkpoint_maps_every_height_in_epoch_to_its_pin :: bool where
  "governing_checkpoint_maps_every_height_in_epoch_to_its_pin =
     (list_all (\<lambda>h. governing_checkpoint_height (of_nat h) = 1) [1..<21]
      \<and> list_all (\<lambda>h. governing_checkpoint_height (of_nat h) = 21) [21..<41])"

definition checkpoint_proof_hash_matches_state_seed_hash :: "prims \<Rightarrow> bool" where
  "checkpoint_proof_hash_matches_state_seed_hash P =
     (let state = btc_state_mock in checkpoint_seed_hash P (checkpoint_from_state state) = btc_state_seed_hash P state)"

definition checkpoint_proof_rejects_backward_tip_height :: bool where
  "checkpoint_proof_rejects_backward_tip_height =
     (let proof1 = \<lparr>cp_tip_hash = replicate 32 1, cp_tip_height = 100, cp_utxo_entropy = replicate 32 2,
            cp_stale_xor_pool = replicate 32 3\<rparr>;
          proof2 = proof1\<lparr>cp_tip_height := 150\<rparr> in
      \<not> checkpoint_plausible proof1 150 100 5 \<and> checkpoint_plausible proof2 150 150 5)"

definition checkpoint_proof_rejects_implausible_drift_from_observed_tip :: bool where
  "checkpoint_proof_rejects_implausible_drift_from_observed_tip =
     (let p = \<lparr>cp_tip_hash = replicate 32 1, cp_tip_height = 900000, cp_utxo_entropy = replicate 32 2,
            cp_stale_xor_pool = replicate 32 3\<rparr> in
      \<not> checkpoint_plausible p 0 100 5 \<and> checkpoint_plausible p 0 900002 5)"

lemma checkpoint_tests:
  "checkpoint_heights_are_periodic_from_one" "governing_checkpoint_maps_every_height_in_epoch_to_its_pin"
  "checkpoint_proof_hash_matches_state_seed_hash P" "checkpoint_proof_rejects_backward_tip_height"
  "checkpoint_proof_rejects_implausible_drift_from_observed_tip"
proof -
  show "checkpoint_heights_are_periodic_from_one" "governing_checkpoint_maps_every_height_in_epoch_to_its_pin"
    by code_simp+
  show "checkpoint_proof_hash_matches_state_seed_hash P"
    by (simp add: checkpoint_proof_hash_matches_state_seed_hash_def checkpoint_seed_hash_def btc_state_seed_hash_def
      checkpoint_from_state_def Let_def)
  show "checkpoint_proof_rejects_backward_tip_height" "checkpoint_proof_rejects_implausible_drift_from_observed_tip"
    by code_simp+
qed

section \<open>The guarded buffer\<close>

definition new_buffer_is_zeroed :: "memory_env \<Rightarrow> bool" where
  "new_buffer_is_zeroed e =
     on_ok (sbuf_new e 32) (\<lambda>buffer. sb_user_len buffer = 32 \<and> on_ok (sbuf_as_slice e buffer) (list_all (\<lambda>byte. byte = 0)))"

definition from_hex_decodes_into_buffer :: "prims \<Rightarrow> memory_env \<Rightarrow> bool" where
  "from_hex_decodes_into_buffer P e =
     on_ok (sbuf_from_hex P e ''deadbeef'') (\<lambda>buffer. on_ok (sbuf_as_slice e buffer) (\<lambda>bytes. bytes = [0xde, 0xad, 0xbe, 0xef]))"

definition constant_time_eq_checks_contents :: "prims \<Rightarrow> memory_env \<Rightarrow> bool" where
  "constant_time_eq_checks_contents P e =
     on_ok (sbuf_from_hex P e ''00010203'') (\<lambda>buffer.
       constant_time_eq e buffer [0, 1, 2, 3] \<and> \<not> constant_time_eq e buffer [0, 1, 2, 4] \<and> \<not> constant_time_eq e buffer [0, 1, 2])"

definition guard_corruption_fails_verification :: "memory_env \<Rightarrow> bool" where
  "guard_corruption_fails_verification e =
     on_ok (sbuf_new e 16) (\<lambda>buffer. sbuf_verify e (buffer\<lparr>sb_data := (sb_data buffer)[0 := 0]\<rparr>) = Inl IntegrityViolation)"

lemma secure_memory_tests:
  "new_buffer_is_zeroed e" "guard_corruption_fails_verification e"
  "hex_decode P ''deadbeef'' = Some [0xde, 0xad, 0xbe, 0xef] \<Longrightarrow> from_hex_decodes_into_buffer P e"
  "hex_decode P ''00010203'' = Some [0, 1, 2, 3] \<Longrightarrow> constant_time_eq_checks_contents P e"
proof -
  obtain b where b: "sbuf_new e 32 = Inr b" "sbuf_ok e (zeros 32) b"
    using sbuf_ok_new [of 32 e] by auto
  then show "new_buffer_is_zeroed e"
    by (simp add: new_buffer_is_zeroed_def sbuf_as_slice_def zeros_def) (simp add: sbuf_ok_def)
  obtain b where b: "sbuf_new e 16 = Inr b" "sbuf_ok e (zeros 16) b"
    using sbuf_ok_new [of 16 e] by auto
  then show "guard_corruption_fails_verification e"
    using guard_detected [OF b(2), of 0 0] by (simp add: guard_corruption_fails_verification_def sbuf_ok_def GUARD_BYTE_def GUARD_SIZE_def)
  have t: "trim ''deadbeef'' = ''deadbeef''" "trim ''00010203'' = ''00010203''" by code_simp+
  assume "hex_decode P ''deadbeef'' = Some [0xde, 0xad, 0xbe, 0xef]"
  then show "from_hex_decodes_into_buffer P e"
    using sbuf_from_slice_ok [of "[0xde, 0xad, 0xbe, 0xef]" e]
    by (auto simp: from_hex_decodes_into_buffer_def sbuf_from_hex_def t sbuf_as_slice_def)
next
  have t: "trim ''00010203'' = ''00010203''" by code_simp
  assume "hex_decode P ''00010203'' = Some [0, 1, 2, 3]"
  then show "constant_time_eq_checks_contents P e"
    using sbuf_from_slice_ok [of "[0, 1, 2, 3]" e]
    by (auto simp: constant_time_eq_checks_contents_def sbuf_from_hex_def t constant_time_eq_iff)
qed

end
