(* ===== verification/Ledger_Tests.thy ===== *)
theory Ledger_Tests
  imports Wallet_Tests Block_Execution
begin

text \<open>
  The unit tests of the emission schedule and the reward ledger (\<^verbatim>\<open>mod tests\<close> of \<^verbatim>\<open>rewards.rs\<close>), as in
  \<open>Core_Tests\<close>. Each test works on a file of its own, which does not exist when it starts; reloading reads the lines
  written so far.
\<close>

section \<open>The emission schedule\<close>

definition reward_era_0 :: bool where
  "reward_era_0 = (block_reward 0 0 = 50 \<and> block_reward (HALVING_INTERVAL - 1) 0 = 50)"

definition reward_era_1 :: bool where
  "reward_era_1 = (block_reward HALVING_INTERVAL 0 = 25)"

definition reward_era_2 :: bool where
  "reward_era_2 = (block_reward (HALVING_INTERVAL * 2) 0 = 12)"

definition hard_cap_enforced :: bool where
  "hard_cap_enforced = (let almost = HARD_CAP - 10 in block_reward 0 almost = 10 \<and> block_reward 0 HARD_CAP = 0)"

lemma emission_tests: "reward_era_0" "reward_era_1" "reward_era_2" "hard_cap_enforced"
  by code_simp+

section \<open>Crediting, transfers and reloading\<close>

definition wallet_hex :: "prims \<Rightarrow> wallet_keypair \<Rightarrow> string" where
  "wallet_hex P kp = wpk_address_hex P (kp_public kp)"

definition test_transfer :: "prims \<Rightarrow> nat \<Rightarrow> wallet_keypair \<Rightarrow> wallet_keypair \<Rightarrow> u64 \<Rightarrow> u64 \<Rightarrow> u64 \<Rightarrow> tx_error + signed_transaction" where
  "test_transfer P q sender recipient amount nonce fee =
     stx_sign P q (test_tx P (keypair_address P sender) recipient amount nonce fee) sender"

definition ledger_roundtrip :: bool where
  "ledger_roundtrip =
     on_ok (ledger_open True None) (\<lambda>l0.
       let (r1, l1) = ledger_credit True 1 ''aabbcc'' 50 1000000 l0;
           (r2, l2) = ledger_credit True 2 ''aabbcc'' 50 1000004 l1;
           (r3, l3) = ledger_credit True 3 ''ddeeff'' 50 1000008 l2 in
       is_ok r1 \<and> is_ok r2 \<and> is_ok r3
       \<and> ledger_balance l3 ''aabbcc'' = 100 \<and> ledger_balance l3 ''ddeeff'' = 50 \<and> lg_total_mined l3 = 150
       \<and> on_ok (ledger_open True (Some (lg_csv l3))) (\<lambda>ledger2.
            ledger_balance ledger2 ''aabbcc'' = 100 \<and> lg_total_mined ledger2 = 150))"

definition ledger_applies_signed_transaction_with_nonce_and_fee ::
    "prims \<Rightarrow> nat \<Rightarrow> wallet_keypair \<Rightarrow> wallet_keypair \<Rightarrow> wallet_keypair \<Rightarrow> bool" where
  "ledger_applies_signed_transaction_with_nonce_and_fee P q sender recipient miner =
     (let sender_hex = wallet_hex P sender; recipient_hex = wallet_hex P recipient; miner_hex = wallet_hex P miner in
      on_ok (ledger_open True None) (\<lambda>l0.
      on_ok (test_transfer P q sender recipient 25 0 2) (\<lambda>signed_tx.
        let (r1, l1) = ledger_credit True 1 sender_hex 100 1000000 l0;
            (r2, l2) = apply_transaction P True 2 signed_tx miner_hex 1000004 l1 in
        is_ok r1 \<and> is_ok r2
        \<and> ledger_balance l2 sender_hex = 73 \<and> ledger_balance l2 recipient_hex = 25 \<and> ledger_balance l2 miner_hex = 2
        \<and> ledger_nonce l2 sender_hex = 1 \<and> lg_total_mined l2 = 100
        \<and> on_ok (ledger_open True (Some (lg_csv l2))) (\<lambda>reloaded.
             ledger_balance reloaded sender_hex = 73 \<and> ledger_balance reloaded recipient_hex = 25
             \<and> ledger_balance reloaded miner_hex = 2 \<and> ledger_nonce reloaded sender_hex = 1))))"

definition ledger_applies_ed25519_only_transaction_to_native_wallet :: "prims \<Rightarrow> wallet_keypair \<Rightarrow> bool" where
  "ledger_applies_ed25519_only_transaction_to_native_wallet P recipient =
     (let sender = replicate 32 11 in
      on_ok (ed25519_only_address P (ed_public P sender)) (\<lambda>sender_address.
      let sender_hex = hex_encode P sender_address; recipient_hex = wallet_hex P recipient in
      on_ok (ledger_open True None) (\<lambda>l0.
      on_ok (stx_sign_ed25519_only P (test_tx P sender_address recipient 40 0 1) sender) (\<lambda>signed_tx.
        let (r1, l1) = ledger_credit True 1 sender_hex 100 1000000 l0;
            (r2, l2) = apply_transaction P True 2 signed_tx [] 1000004 l1 in
        is_ok r1 \<and> is_ok r2
        \<and> ledger_balance l2 sender_hex = 59 \<and> ledger_balance l2 recipient_hex = 40 \<and> ledger_nonce l2 sender_hex = 1
        \<and> on_ok (ledger_open True (Some (lg_csv l2))) (\<lambda>reloaded.
             ledger_balance reloaded sender_hex = 59 \<and> ledger_balance reloaded recipient_hex = 40
             \<and> ledger_nonce reloaded sender_hex = 1)))))"

definition ledger_rejects_replayed_nonce :: "prims \<Rightarrow> nat \<Rightarrow> wallet_keypair \<Rightarrow> wallet_keypair \<Rightarrow> bool" where
  "ledger_rejects_replayed_nonce P q sender recipient =
     on_ok (ledger_open True None) (\<lambda>l0.
     on_ok (test_transfer P q sender recipient 25 1 2) (\<lambda>signed_tx.
       let (r1, l1) = ledger_credit True 1 (wallet_hex P sender) 100 1000000 l0 in
       is_ok r1 \<and> \<not> is_ok (fst (apply_transaction P True 2 signed_tx [] 1000004 l1))))"

section \<open>The state root\<close>

definition empty_state_root_matches_compute_with_no_entries :: "prims \<Rightarrow> bool" where
  "empty_state_root_matches_compute_with_no_entries P = (empty_state_root P = compute_state_root P [])"

definition state_root_is_order_independent :: "prims \<Rightarrow> bool" where
  "state_root_is_order_independent P =
     (compute_state_root P [(''bbbb'', 1, 0), (''aaaa'', 2, 0)] = compute_state_root P [(''aaaa'', 2, 0), (''bbbb'', 1, 0)])"

definition state_root_changes_with_any_balance_or_nonce_change :: "prims \<Rightarrow> bool" where
  "state_root_changes_with_any_balance_or_nonce_change P =
     (let base = compute_state_root P [(''aaaa'', 10, 0)]; diff_balance = compute_state_root P [(''aaaa'', 11, 0)];
          diff_nonce = compute_state_root P [(''aaaa'', 10, 1)] in base \<noteq> diff_balance \<and> base \<noteq> diff_nonce)"

section \<open>The dry run\<close>

definition simulate_applies_valid_tx_and_matches_real_apply ::
    "prims \<Rightarrow> nat \<Rightarrow> wallet_keypair \<Rightarrow> wallet_keypair \<Rightarrow> wallet_keypair \<Rightarrow> bool" where
  "simulate_applies_valid_tx_and_matches_real_apply P q sender recipient miner =
     on_ok (ledger_open True None) (\<lambda>l0.
     on_ok (test_transfer P q sender recipient 25 0 2) (\<lambda>signed_tx.
       let (r1, l1) = ledger_credit True 1 (wallet_hex P sender) 100 1000000 l0;
           (applied, sim_root) = simulate_block_execution P l1 [signed_tx] (wallet_hex P miner) 50;
           (r2, l2) = apply_transaction P True 2 signed_tx (wallet_hex P miner) 1000004 l1;
           (r3, l3) = ledger_credit True 2 (wallet_hex P miner) 50 1000004 l2 in
       is_ok r1 \<and> length applied = 1 \<and> is_ok r2 \<and> is_ok r3 \<and> ledger_state_root P l3 = sim_root))"

definition simulate_drops_transactions_that_would_overdraw :: "prims \<Rightarrow> nat \<Rightarrow> wallet_keypair \<Rightarrow> wallet_keypair \<Rightarrow> bool" where
  "simulate_drops_transactions_that_would_overdraw P q sender recipient =
     on_ok (ledger_open True None) (\<lambda>l0.
     on_ok (test_transfer P q sender recipient 25 0 2) (\<lambda>signed_tx.
       let (applied, sroot) = simulate_block_execution P l0 [signed_tx] [] 0 in
       applied = [] \<and> sroot = ledger_state_root P l0))"

definition simulate_drops_second_conflicting_nonce_in_same_batch ::
    "prims \<Rightarrow> nat \<Rightarrow> wallet_keypair \<Rightarrow> wallet_keypair \<Rightarrow> wallet_keypair \<Rightarrow> bool" where
  "simulate_drops_second_conflicting_nonce_in_same_batch P q sender r1 r2 =
     on_ok (ledger_open True None) (\<lambda>l0.
     on_ok (test_transfer P q sender r1 80 0 0) (\<lambda>signed1.
     on_ok (test_transfer P q sender r2 80 0 0) (\<lambda>signed2.
       let (r, l1) = ledger_credit True 1 (wallet_hex P sender) 100 1000000 l0;
           (applied, sroot) = simulate_block_execution P l1 [signed1, signed2] [] 0 in
       is_ok r \<and> length applied = 1)))"

section \<open>They pass\<close>

lemma fresh_ledger: "ledger_open True None = Inr new_ledger"
  by (simp add: ledger_open_def open_inner_def new_ledger_def)

lemma fresh_persisted: "persisted 0 0 new_ledger" "supply_ok new_ledger"
proof -
  have "ledger_history sample_prims 0 new_ledger" by (rule ledger_history.start)
  then show "persisted 0 0 new_ledger" "supply_ok new_ledger"
    using ledger_history_invariant [of sample_prims] sample_hex_ok by blast+
qed

text \<open>Crediting an account of a ledger kept in step with its file.\<close>

lemma credit_reloads:
  assumes "persisted h h l" "h < h'" "csv_safe miner" "supply_ok l" "unat (lg_total_mined l) + unat reward \<le> 2000000000"
  shows "persisted h' h' (snd (ledger_credit True h' miner reward ts l))" "supply_ok (snd (ledger_credit True h' miner reward ts l))"
  using assms by (auto intro!: persisted_credit [OF assms(1,2)] supply_ok_credit simp: unat_HARD_CAP)

lemma ledger_roundtrip_passes: "ledger_roundtrip"
proof -
  define l1 where "l1 = snd (ledger_credit True 1 ''aabbcc'' 50 1000000 new_ledger)"
  define l2 where "l2 = snd (ledger_credit True 2 ''aabbcc'' 50 1000004 l1)"
  define l3 where "l3 = snd (ledger_credit True 3 ''ddeeff'' 50 1000008 l2)"
  have safe: "csv_safe ''aabbcc''" "csv_safe ''ddeeff''" by code_simp+
  have c1: "ledger_credit True 1 ''aabbcc'' 50 1000000 new_ledger = (Inr 50, l1)"
    "lg_total_mined l1 = 50" "ledger_balance l1 = (\<lambda>a. if a = ''aabbcc'' then 50 else 0)"
    unfolding l1_def by (simp_all add: ledger_credit_def append_line_def new_ledger_def ledger_balance_def Let_def fun_eq_iff sat_add_def)
  have c2: "ledger_credit True 2 ''aabbcc'' 50 1000004 l1 = (Inr 100, l2)"
    "lg_total_mined l2 = 100" "ledger_balance l2 = (\<lambda>a. if a = ''aabbcc'' then 100 else 0)"
    unfolding l2_def by (simp_all add: ledger_credit_def append_line_def c1 ledger_balance_def [of "_\<lparr>lg_csv := _\<rparr>"] Let_def fun_eq_iff sat_add_def)
      (simp_all add: c1 [unfolded ledger_balance_def fun_eq_iff])
  have c3: "ledger_credit True 3 ''ddeeff'' 50 1000008 l2 = (Inr 50, l3)"
    "lg_total_mined l3 = 150" "ledger_balance l3 = (\<lambda>a. if a = ''aabbcc'' then 100 else if a = ''ddeeff'' then 50 else 0)"
    unfolding l3_def by (simp_all add: ledger_credit_def append_line_def c2 ledger_balance_def [of "_\<lparr>lg_csv := _\<rparr>"] Let_def fun_eq_iff sat_add_def)
      (simp_all add: c2 [unfolded ledger_balance_def fun_eq_iff])
  have p1: "persisted 1 1 l1" "supply_ok l1"
    unfolding l1_def by (rule credit_reloads [OF fresh_persisted(1) _ safe(1) fresh_persisted(2)]; simp add: new_ledger_def)+
  have p2: "persisted 2 2 l2" "supply_ok l2"
    unfolding l2_def by (rule credit_reloads [OF p1(1) _ safe(1) p1(2)]; simp add: c1)+
  have "persisted 3 3 l3"
    unfolding l3_def by (rule credit_reloads [OF p2(1) _ safe(2) p2(2)]; simp add: c2)
  then have "ledger_open True (Some (lg_csv l3)) = Inr l3"
    by (simp add: ledger_open_def open_persisted(1) [OF _ order_refl])
  then show ?thesis
    by (simp add: ledger_roundtrip_def fresh_ledger c1(1) c2(1) c3 is_ok_def)
qed

text \<open>A wallet with 100 BINA on a new ledger, and a transfer that applies to a ledger kept in step with its file.\<close>

definition funded :: "string \<Rightarrow> ledger" where
  "funded a = snd (ledger_credit True 1 a 100 1000000 new_ledger)"

lemma funded_credit:
  "ledger_credit True 1 a 100 1000000 new_ledger = (Inr 100, funded a)"
  by (simp add: funded_def ledger_credit_def append_line_def new_ledger_def ledger_balance_def Let_def)

lemma funded_sel [simp]:
  "lg_balances (funded a) = hm_insert a 100 []" "lg_nonces (funded a) = []" "lg_total_mined (funded a) = 100"
  by (simp_all add: funded_def ledger_credit_def append_line_def new_ledger_def ledger_balance_def Let_def sat_add_def)

lemma funded_reloads: "csv_safe a \<Longrightarrow> persisted 1 1 (funded a)"
  unfolding funded_def by (rule credit_reloads [OF fresh_persisted(1) _ _ fresh_persisted(2)]; simp add: new_ledger_def)

lemma transfer_reloads:
  assumes "persisted 1 1 l" "transfer_ok P s l" "csv_safe miner" "hex_ok P"
  shows "\<exists>l'. apply_transaction P True 2 s miner ts l = (Inr (), l') \<and> lg_balances l' = lg_balances (transfer_effect P s miner l)
    \<and> lg_nonces l' = lg_nonces (transfer_effect P s miner l) \<and> lg_total_mined l' = lg_total_mined l
    \<and> ledger_open True (Some (lg_csv l')) = Inr l'"
proof -
  let ?l' = "snd (apply_transaction P True 2 s miner ts l)"
  have "apply_transaction P True 2 s miner ts l = (Inr (), ?l')" "lg_balances ?l' = lg_balances (transfer_effect P s miner l)"
    "lg_nonces ?l' = lg_nonces (transfer_effect P s miner l)" "lg_total_mined ?l' = lg_total_mined l"
    using apply_transaction_ok [OF assms(2)] by (simp_all add: append_line_def)
  moreover have "persisted 1 2 ?l'"
    by (rule persisted_transfer [OF assms(1) _ assms(3,4)]) simp
  ultimately show ?thesis
    by (auto simp: ledger_open_def open_persisted(1) [OF _ order_refl])
qed

lemma wallet_hex_eq: "wallet_hex P kp = hex_encode P (keypair_address P kp)"
  by (simp add: wallet_hex_def wpk_address_hex_def keypair_address_def)

lemma test_tx_hex:
  "stx_tx s = test_tx P a recipient amount nonce fee \<Longrightarrow> stx_from_hex P s = hex_encode P a"
  "stx_tx s = test_tx P a recipient amount nonce fee \<Longrightarrow> stx_to_hex P s = wallet_hex P recipient"
  by (simp_all add: stx_from_hex_def stx_to_hex_def test_tx_def wallet_hex_eq)

lemma signed_transaction_passes:
  assumes "hash_ok P" "hex_ok P" "sig_ok P" "apart P sender recipient" "apart P sender miner" "apart P recipient miner"
  shows "ledger_applies_signed_transaction_with_nonce_and_fee P q sender recipient miner"
proof -
  let ?S = "wallet_hex P sender" and ?R = "wallet_hex P recipient" and ?M = "wallet_hex P miner"
  have ne: "?S \<noteq> ?R" "?S \<noteq> ?M" "?R \<noteq> ?M" "?R \<noteq> ?S" "?M \<noteq> ?S" "?M \<noteq> ?R" "?M \<noteq> []"
    using assms(4-6) length_hex_encode [OF assms(2), of "keypair_address P miner"] assms(1)
    by (auto simp: wallet_hex_eq hex_encode_inj [OF assms(2)] apart_def keypair_address_def simp del: length_hex_encode)
  have safe: "csv_safe (wallet_hex P kp)" for kp
    by (simp add: wallet_hex_eq csv_safe_hex [OF assms(2)])
  obtain s where s: "test_transfer P q sender recipient 25 0 2 = Inr s" "stx_verify P s = Inr ()"
    "stx_tx s = test_tx P (keypair_address P sender) recipient 25 0 2"
    using wallet_transfer_verifies [OF assms(1,3,4), of 25 q 0 2] by (auto simp: test_transfer_def)
  have hex: "stx_from_hex P s = ?S" "stx_to_hex P s = ?R"
    using test_tx_hex [OF s(3)] by (simp_all add: wallet_hex_eq)
  have fields: "tx_amount (stx_tx s) = 25" "tx_nonce (stx_tx s) = 0" "tx_fee (stx_tx s) = 2"
    by (simp_all add: s(3) test_tx_def)
  have "transfer_ok P s (funded ?S)"
    by (simp add: transfer_ok_def s(2) hex fields is_ok_def ledger_balance_def ledger_nonce_def)
  then obtain l' where l': "apply_transaction P True 2 s ?M 1000004 (funded ?S) = (Inr (), l')"
    "lg_balances l' = lg_balances (transfer_effect P s ?M (funded ?S))" "lg_nonces l' = lg_nonces (transfer_effect P s ?M (funded ?S))"
    "lg_total_mined l' = 100" "ledger_open True (Some (lg_csv l')) = Inr l'"
    using transfer_reloads [OF funded_reloads [OF safe] _ safe assms(2)] by fastforce
  have "ledger_balance l' ?S = 73" "ledger_balance l' ?R = 25" "ledger_balance l' ?M = 2" "ledger_nonce l' ?S = 1"
    using ne by (simp_all add: ledger_balance_def ledger_nonce_def l'(2,3) transfer_effect_def hex fields credit_balance_def sat_add_def Let_def)
  with l' s(1) show ?thesis
    by (simp add: ledger_applies_signed_transaction_with_nonce_and_fee_def fresh_ledger funded_credit is_ok_def)
qed

lemma ed25519_transaction_passes:
  assumes "hash_ok P" "hex_ok P" "sig_ok P" "take 20 (keccak256 P (ed_public P (replicate 32 11))) \<noteq> keypair_address P recipient"
  shows "ledger_applies_ed25519_only_transaction_to_native_wallet P recipient"
proof -
  let ?sk = "replicate 32 11 :: bytes" and ?a = "take 20 (keccak256 P (ed_public P (replicate 32 11)))"
  let ?S = "hex_encode P ?a" and ?R = "wallet_hex P recipient"
  have ne: "?S \<noteq> ?R" "?R \<noteq> ?S"
    using assms(4) by (auto simp: wallet_hex_eq hex_encode_inj [OF assms(2)])
  have safe: "csv_safe ?S" "csv_safe []"
    by (simp_all add: csv_safe_hex [OF assms(2)])
  have len: "length (ed_public P ?sk) = 32"
    using assms(3) by (simp add: sig_ok_def)
  then have a: "ed25519_only_address P (ed_public P ?sk) = Inr ?a"
    by (simp add: ed25519_only_address_def ed25519_sizes)
  then obtain s where s: "stx_sign_ed25519_only P (test_tx P ?a recipient 40 0 1) ?sk = Inr s"
    by (simp add: stx_sign_ed25519_only_def test_tx_def Let_def)
  have tx: "stx_tx s = test_tx P ?a recipient 40 0 1"
    by (rule stx_sign_ed25519_only_tx [OF s])
  have v: "stx_verify P s = Inr ()"
    using assms(4) by (intro stx_sign_ed25519_only_verifies [OF assms(3) _ s]) (simp_all add: test_tx_def)
  have hex: "stx_from_hex P s = ?S" "stx_to_hex P s = ?R"
    using test_tx_hex [OF tx] by simp_all
  have fields: "tx_amount (stx_tx s) = 40" "tx_nonce (stx_tx s) = 0" "tx_fee (stx_tx s) = 1"
    by (simp_all add: tx test_tx_def)
  have "transfer_ok P s (funded ?S)"
    by (simp add: transfer_ok_def v hex fields is_ok_def ledger_balance_def ledger_nonce_def)
  then obtain l' where l': "apply_transaction P True 2 s [] 1000004 (funded ?S) = (Inr (), l')"
    "lg_balances l' = lg_balances (transfer_effect P s [] (funded ?S))" "lg_nonces l' = lg_nonces (transfer_effect P s [] (funded ?S))"
    "ledger_open True (Some (lg_csv l')) = Inr l'"
    using transfer_reloads [OF funded_reloads [OF safe(1)] _ safe(2) assms(2)] by fastforce
  have "ledger_balance l' ?S = 59" "ledger_balance l' ?R = 40" "ledger_nonce l' ?S = 1"
    using ne by (simp_all add: ledger_balance_def ledger_nonce_def l'(2,3) transfer_effect_def hex fields credit_balance_def sat_add_def Let_def)
  with l' s show ?thesis
    by (simp add: ledger_applies_ed25519_only_transaction_to_native_wallet_def a fresh_ledger funded_credit is_ok_def)
qed

lemma replayed_nonce_passes:
  assumes "hash_ok P" "sig_ok P" "apart P sender recipient"
  shows "ledger_rejects_replayed_nonce P q sender recipient"
proof -
  obtain s where s: "test_transfer P q sender recipient 25 1 2 = Inr s"
    "stx_tx s = test_tx P (keypair_address P sender) recipient 25 1 2"
    using wallet_transfer_verifies [OF assms, of 25 q 1 2] by (auto simp: test_transfer_def)
  have "\<not> transfer_ok P s (funded (wallet_hex P sender))"
    by (simp add: transfer_ok_def s(2) test_tx_def ledger_nonce_def)
  then obtain e where "apply_transaction P True 2 s [] 1000004 (funded (wallet_hex P sender)) = (Inl e, funded (wallet_hex P sender))"
    using apply_transaction_bad by blast
  with s(1) show ?thesis
    by (simp add: ledger_rejects_replayed_nonce_def fresh_ledger funded_credit is_ok_def)
qed

lemma state_root_tests:
  "empty_state_root_matches_compute_with_no_entries P" "state_root_is_order_independent P"
  "inj_on (blake3 P) (state_root_preimage ` {[(''aaaa'', 10, 0)], [(''aaaa'', 11, 0)], [(''aaaa'', 10, 1)]})
     \<Longrightarrow> state_root_changes_with_any_balance_or_nonce_change P"
proof -
  show "empty_state_root_matches_compute_with_no_entries P"
    by (simp add: empty_state_root_matches_compute_with_no_entries_def empty_state_root_def)
  have "state_root_preimage [(''bbbb'', 1, 0), (''aaaa'', 2, 0)] = state_root_preimage [(''aaaa'', 2, 0), (''bbbb'', 1, 0)]"
    by (rule state_root_preimage_perm) (simp_all add: add_mset_commute)
  then show "state_root_is_order_independent P"
    by (simp add: state_root_is_order_independent_def compute_state_root_def)
  have "state_root_preimage [(''aaaa'', 10, 0)] \<noteq> state_root_preimage [(''aaaa'', 11, 0)]"
    "state_root_preimage [(''aaaa'', 10, 0)] \<noteq> state_root_preimage [(''aaaa'', 10, 1)]"
    using state_root_preimage_inj [of "[(''aaaa'', 10, 0)]" "[(''aaaa'', 11, 0)]" 4]
      state_root_preimage_inj [of "[(''aaaa'', 10, 0)]" "[(''aaaa'', 10, 1)]" 4] by auto
  moreover assume "inj_on (blake3 P) (state_root_preimage ` {[(''aaaa'', 10, 0)], [(''aaaa'', 11, 0)], [(''aaaa'', 10, 1)]})"
  ultimately show "state_root_changes_with_any_balance_or_nonce_change P"
    unfolding state_root_changes_with_any_balance_or_nonce_change_def compute_state_root_def Let_def inj_on_def by blast
qed

text \<open>The accounts the dry run works on.\<close>

lemma funded_accounts: "ledger_accounts (funded a) = [a \<mapsto> (100, 0)]"
  by (rule ext) (simp add: ledger_accounts_def ledger_balance_def ledger_nonce_def hm_has_def)

lemma empty_accounts: "ledger_accounts new_ledger = Map.empty"
  by (rule ext) (simp add: ledger_accounts_def new_ledger_def hm_has_def)

lemma dry_run_applied:
  assumes "nonce_room (length txs) (ledger_accounts l)"
  shows "fst (simulate_block_execution P l txs miner reward) = fst (exec_txs (acc_transfer P miner) txs (ledger_accounts l))"
    "state_root_with_overlay P l (snd (simulate_txs P l miner txs [])) = accounts_root P (snd (exec_txs (acc_transfer P miner) txs (ledger_accounts l)))"
  using dry.exec_accounts [where l = l and P = P and miner = miner and txs = txs and s = "[]"] assms
  by (simp_all add: fst_simulate simulate_txs_exec overlay_accounts_Nil state_root_overlay_accounts)

lemma simulate_drops_passes:
  assumes "hash_ok P" "sig_ok P" "apart P sender recipient"
  shows "simulate_drops_transactions_that_would_overdraw P q sender recipient"
proof -
  obtain s where s: "test_transfer P q sender recipient 25 0 2 = Inr s"
    "stx_tx s = test_tx P (keypair_address P sender) recipient 25 0 2"
    using wallet_transfer_verifies [OF assms, of 25 q 0 2] by (auto simp: test_transfer_def)
  have ex: "exec_txs (acc_transfer P []) [s] Map.empty = ([], Map.empty)"
    by (simp add: acc_transfer_def acc_transfer_ok_def acc_get_def s(2) test_tx_def)
  have room: "nonce_room (length [s]) (ledger_accounts new_ledger)"
    by (simp add: nonce_room_def empty_accounts acc_get_def)
  have "fst (simulate_block_execution P new_ledger [s] [] 0) = []"
    by (simp only: dry_run_applied(1) [OF room] empty_accounts ex fst_conv)
  moreover have "snd (simulate_block_execution P new_ledger [s] [] 0) = state_root_with_overlay P new_ledger (snd (simulate_txs P new_ledger [] [s] []))"
    by (simp add: simulate_block_execution_def simulate_reward_def del: simulate_txs.simps split: prod.splits)
  moreover have "ledger_state_root P new_ledger = accounts_root P Map.empty"
    by (simp add: ledger_state_root_def state_root_overlay_accounts empty_accounts)
  moreover note dry_run_applied(2) [OF room, of P "[]", unfolded empty_accounts ex snd_conv]
  ultimately show ?thesis
    using s(1) by (auto simp: simulate_drops_transactions_that_would_overdraw_def fresh_ledger del: simulate_txs.simps split: prod.splits)
qed

lemma simulate_conflict_passes:
  assumes "hash_ok P" "sig_ok P" "apart P sender r1" "apart P sender r2"
  shows "simulate_drops_second_conflicting_nonce_in_same_batch P q sender r1 r2"
proof -
  let ?S = "wallet_hex P sender"
  obtain a where a: "test_transfer P q sender r1 80 0 0 = Inr a" "stx_verify P a = Inr ()"
    "stx_tx a = test_tx P (keypair_address P sender) r1 80 0 0"
    using wallet_transfer_verifies [OF assms(1-3), of 80 q 0 0] by (auto simp: test_transfer_def)
  obtain b where b: "test_transfer P q sender r2 80 0 0 = Inr b" "stx_tx b = test_tx P (keypair_address P sender) r2 80 0 0"
    using wallet_transfer_verifies [OF assms(1,2,4), of 80 q 0 0] by (auto simp: test_transfer_def)
  have hex: "stx_from_hex P a = ?S" "stx_from_hex P b = ?S"
    using test_tx_hex(1) [OF a(3)] test_tx_hex(1) [OF b(2)] by (simp_all add: wallet_hex_eq)
  have f: "tx_amount (stx_tx a) = 80" "tx_nonce (stx_tx a) = 0" "tx_fee (stx_tx a) = 0" "tx_nonce (stx_tx b) = 0"
    by (simp_all add: a(3) b(2) test_tx_def)
  define m where "m = acc_credit (stx_to_hex P a) 80 [?S \<mapsto> (20, 1)]"
  have m: "snd (acc_get m ?S) = 1"
    by (simp add: m_def acc_credit_def acc_get_def)
  have "acc_transfer P [] a [?S \<mapsto> (100, 0)] = Some m" "acc_transfer P [] b m = None"
    by (simp_all add: acc_transfer_def acc_transfer_ok_def hex f acc_get_def a(2) is_ok_def m_def) (simp add: m [unfolded m_def acc_get_def])
  then have ex: "fst (exec_txs (acc_transfer P []) [a, b] [?S \<mapsto> (100, 0)]) = [a]"
    by simp
  have "nonce_room (length [a, b]) (ledger_accounts (funded ?S))"
    by (simp add: nonce_room_def funded_accounts acc_get_def)
  then have "fst (simulate_block_execution P (funded ?S) [a, b] [] 0) = [a]"
    by (simp only: dry_run_applied(1) funded_accounts ex)
  with a(1) b(1) show ?thesis
    by (auto simp: simulate_drops_second_conflicting_nonce_in_same_batch_def fresh_ledger funded_credit is_ok_def split: prod.splits)
qed

lemma simulate_matches_passes:
  assumes "hash_ok P" "hex_ok P" "sig_ok P" "apart P sender recipient" "apart P sender miner" "apart P recipient miner"
  shows "simulate_applies_valid_tx_and_matches_real_apply P q sender recipient miner"
proof -
  let ?S = "wallet_hex P sender" and ?R = "wallet_hex P recipient" and ?M = "wallet_hex P miner"
  have ne: "?M \<noteq> ?S" "?M \<noteq> ?R" "?R \<noteq> ?S"
    using assms(4-6) by (auto simp: wallet_hex_eq hex_encode_inj [OF assms(2)] apart_def)
  obtain s where s: "test_transfer P q sender recipient 25 0 2 = Inr s" "stx_verify P s = Inr ()"
    "stx_tx s = test_tx P (keypair_address P sender) recipient 25 0 2"
    using wallet_transfer_verifies [OF assms(1,3,4), of 25 q 0 2] by (auto simp: test_transfer_def)
  have hex: "stx_from_hex P s = ?S" "stx_to_hex P s = ?R"
    using test_tx_hex [OF s(3)] by (simp_all add: wallet_hex_eq)
  have f: "tx_amount (stx_tx s) = 25" "tx_nonce (stx_tx s) = 0" "tx_fee (stx_tx s) = 2"
    by (simp_all add: s(3) test_tx_def)
  have room: "nonce_room (length [s]) (ledger_accounts (funded ?S))"
    by (simp add: nonce_room_def funded_accounts acc_get_def)
  have ex: "fst (exec_txs (acc_transfer P ?M) [s] [?S \<mapsto> (100, 0)]) = [s]"
    "unat (fst (acc_get (snd (exec_txs (acc_transfer P ?M) [s] [?S \<mapsto> (100, 0)])) ?M)) \<le> 2"
    using ne by (simp_all add: acc_transfer_def acc_transfer_ok_def hex f acc_get_def s(2) is_ok_def acc_credit_def sat_add_def Let_def) auto
  have fits: "reward_fits (block_accounts P (funded ?S) [s] ?M) ?M 50"
    using ex(2) by (simp add: reward_fits_def block_accounts_def funded_accounts del: exec_txs.simps)
  obtain sroot where sim: "simulate_block_execution P (funded ?S) [s] ?M 50 = ([s], sroot)"
    using dry_run_applied(1) [OF room, of P ?M 50] ex(1)
    by (cases "simulate_block_execution P (funded ?S) [s] ?M 50") (simp add: funded_accounts del: exec_txs.simps)
  obtain l3 where l3: "execute_block P 2 [s] ?M 50 1000004 (funded ?S) = (Inr (), l3)" "ledger_state_root P l3 = sroot"
    using simulate_execute_agree [OF assms(2) room fits sim] by blast
  have "transfer_ok P s (funded ?S)"
    by (simp add: transfer_ok_def s(2) hex f is_ok_def ledger_balance_def ledger_nonce_def)
  then obtain l2 where l2: "apply_transaction P True 2 s ?M 1000004 (funded ?S) = (Inr (), l2)"
    by (auto simp: apply_transaction_ok append_line_def)
  have "\<exists>x. ledger_credit True 2 ?M 50 1000004 l2 = (Inr x, l3)"
    using l3(1) by (auto simp: execute_block_def l2 ledger_credit_def append_line_def Let_def)
  with l3(2) l2 s(1) sim show ?thesis
    by (auto simp: simulate_applies_valid_tx_and_matches_real_apply_def fresh_ledger funded_credit is_ok_def)
qed

end
