(* ===== verification/Stale_Tests.thy ===== *)
theory Stale_Tests
  imports Stale_Miner Core_Tests
begin

text \<open>
  The unit tests of the stale-block miner (\<^verbatim>\<open>mod tests\<close> of \<^verbatim>\<open>stale_block_miner.rs\<close>), as in \<open>Core_Tests\<close>; the readings of
  the clock are arguments. Most tests accept that their header lacks the work, since they do not search for a nonce:
  the lemmas hold of every hash function with 32-byte values. The one test against a known SHA-256 value is left out.
\<close>

section \<open>Headers and proofs of the tests\<close>

definition make_test_header :: "prims \<Rightarrow> u64 \<Rightarrow> u64 \<Rightarrow> u32 \<Rightarrow> stale_header" where
  "make_test_header P now height nonce =
     header_from_fields P 0x20000000 (replicate 32 0xAA) (replicate 32 0xBB) (ucast now) 0x1d00ffff nonce height"

definition test_canonical_hash :: bytes where "test_canonical_hash = replicate 32 0xFF"

definition test_config :: "string \<Rightarrow> stale_config" where
  "test_config submitter = stale_config_default\<lparr>sg_min_leading_zeros := 0, sg_submitter_address := submitter\<rparr>"

definition manual_proof :: "prims \<Rightarrow> u64 \<Rightarrow> string \<Rightarrow> stale_header \<Rightarrow> bytes \<Rightarrow> u32 \<Rightarrow> string \<Rightarrow> stale_proof" where
  "manual_proof P created proof_id header canonical_hash leading_zeros submitter =
     \<lparr>sp_proof_id = proof_id, sp_raw_header = to_raw header, sp_block_hash = sh_block_hash header, sp_height = 800000,
      sp_canonical_hash = canonical_hash, sp_leading_zeros = leading_zeros, sp_reorg_depth = 1,
      sp_entropy = extract_entropy P header, sp_quality_score = 50, sp_submitter = submitter, sp_created_at = created\<rparr>"

fun is_invalid_header :: "stale_error + 'a \<Rightarrow> bool" where
  "is_invalid_header (Inl (InvalidHeader _)) = True"
| "is_invalid_header _ = False"

fun is_not_stale :: "stale_error + 'a \<Rightarrow> bool" where
  "is_not_stale (Inl (NotStale _)) = True"
| "is_not_stale _ = False"

fun is_already_harvested :: "stale_error + 'a \<Rightarrow> bool" where
  "is_already_harvested (Inl (AlreadyHarvested _)) = True"
| "is_already_harvested _ = False"

fun is_insufficient :: "stale_error + 'a \<Rightarrow> bool" where
  "is_insufficient (Inl (InsufficientWork _ _)) = True"
| "is_insufficient _ = False"

section \<open>Headers\<close>

definition stale_block_header_roundtrip :: "prims \<Rightarrow> u64 \<Rightarrow> bool" where
  "stale_block_header_roundtrip P now =
     (let header = make_test_header P now 800000 12345 in
      on_ok (header_from_raw P (to_raw header) 800000) (\<lambda>parsed.
        sh_version header = sh_version parsed \<and> sh_prev_block_hash header = sh_prev_block_hash parsed
        \<and> sh_merkle_root header = sh_merkle_root parsed \<and> sh_timestamp header = sh_timestamp parsed
        \<and> sh_bits header = sh_bits parsed \<and> sh_nonce header = sh_nonce parsed
        \<and> sh_block_hash header = sh_block_hash parsed))"

definition header_entropy_is_deterministic :: "prims \<Rightarrow> u64 \<Rightarrow> u64 \<Rightarrow> bool" where
  "header_entropy_is_deterministic P t1 t2 =
     (extract_entropy P (make_test_header P t1 800000 42) = extract_entropy P (make_test_header P t2 800000 42))"

definition different_nonces_produce_different_entropy :: "prims \<Rightarrow> u64 \<Rightarrow> u64 \<Rightarrow> bool" where
  "different_nonces_produce_different_entropy P t1 t2 =
     (extract_entropy P (make_test_header P t1 800000 42) \<noteq> extract_entropy P (make_test_header P t2 800000 43))"

definition invalid_header_size_rejected :: "prims \<Rightarrow> bool" where
  "invalid_header_size_rejected P =
     (is_invalid_header (header_from_raw P (zeros 79) 1) \<and> is_invalid_header (header_from_raw P (zeros 81) 1))"

definition leading_zero_bits_correct :: bool where
  "leading_zero_bits_correct =
     (count_leading_zero_bits_be (zeros 32) = 256 \<and> count_leading_zero_bits_be ((zeros 32)[31 := 0x01]) = 7
      \<and> count_leading_zero_bits_be ((zeros 32)[31 := 0x80]) = 0 \<and> count_leading_zero_bits_be ((zeros 32)[29 := 0x0F]) = 20)"

definition xor_32_commutative_and_identity :: bool where
  "xor_32_commutative_and_identity =
     (let a = replicate 32 0xAA; b = replicate 32 0x55 in xor_32 a b = xor_32 b a \<and> xor_32 a a = zeros 32)"

definition block_hash_hex_is_reversed :: "prims \<Rightarrow> u64 \<Rightarrow> bool" where
  "block_hash_hex_is_reversed P now =
     (let header = make_test_header P now 1 0; hex_str = stale_hash_hex P header in
      length hex_str = 64 \<and> hex_str \<noteq> hex_encode P (sh_block_hash header))"

section \<open>Proofs\<close>

definition stale_work_proof_self_verification :: "prims \<Rightarrow> u64 \<Rightarrow> u64 \<Rightarrow> u64 \<Rightarrow> bool" where
  "stale_work_proof_self_verification P now n1 n2 =
     (let result = proof_build P n1 n2 (make_test_header P now 800000 99) test_canonical_hash 1 ''test-miner'' in
      case result of
        Inr p \<Rightarrow> is_ok (verify_self P p) \<and> sp_proof_id p \<noteq> [] \<and> sp_height p = 800000
      | Inl _ \<Rightarrow> is_insufficient result)"

definition not_stale_if_matches_canonical :: "prims \<Rightarrow> u64 \<Rightarrow> u64 \<Rightarrow> u64 \<Rightarrow> bool" where
  "not_stale_if_matches_canonical P now n1 n2 =
     (let header = make_test_header P now 800000 42 in
      case proof_build P n1 n2 header (sh_block_hash header) 1 ''miner'' of
        Inl _ \<Rightarrow> True
      | Inr p \<Rightarrow> is_not_stale (verify_self P (p\<lparr>sp_canonical_hash := sp_block_hash p\<rparr>)))"

definition reorg_depth_max_rejects_over_100 :: "prims \<Rightarrow> u64 \<Rightarrow> u64 \<Rightarrow> u64 \<Rightarrow> bool" where
  "reorg_depth_max_rejects_over_100 P now n1 n2 =
     (case proof_build P n1 n2 (make_test_header P now 800000 42) test_canonical_hash 101 ''attacker'' of
        Inl (ReorgTooDeep depth max_depth) \<Rightarrow> depth = 101 \<and> max_depth = 100
      | Inl (InsufficientWork _ _) \<Rightarrow> 101 > MAX_REORG_DEPTH
      | _ \<Rightarrow> False)"

definition reorg_depth_max_boundary_accepts_100 :: "prims \<Rightarrow> u64 \<Rightarrow> u64 \<Rightarrow> u64 \<Rightarrow> bool" where
  "reorg_depth_max_boundary_accepts_100 P now n1 n2 =
     (let result = proof_build P n1 n2 (make_test_header P now 800000 42) test_canonical_hash 100 ''miner'' in
      is_insufficient result \<or> is_ok result)"

definition verify_self_catches_canonical_hash_equals_block_hash :: "prims \<Rightarrow> u64 \<Rightarrow> u64 \<Rightarrow> bool" where
  "verify_self_catches_canonical_hash_equals_block_hash P now created =
     (let header = make_test_header P now 800000 42;
          p = manual_proof P created ''fake'' header (sh_block_hash header) (stale_leading_zero_bits header) ''attacker'' in
      is_not_stale (verify_self P (p\<lparr>sp_canonical_hash := sp_block_hash p\<rparr>)))"

definition different_canonical_hashes_produce_different_proof_ids :: "prims \<Rightarrow> u64 \<Rightarrow> bool" where
  "different_canonical_hashes_produce_different_proof_ids P now =
     (let header = make_test_header P now 800000 42 in
      compute_proof_id P (sh_block_hash header) (replicate 32 0x11) 800000 1 ''miner''
      \<noteq> compute_proof_id P (sh_block_hash header) (replicate 32 0x22) 800000 1 ''miner'')"

definition different_canonical_hash_changes_fork_divergence_entropy :: "prims \<Rightarrow> u64 \<Rightarrow> u64 \<Rightarrow> bool" where
  "different_canonical_hash_changes_fork_divergence_entropy P now n1 =
     (let header = make_test_header P now 800000 42;
          r1 = report_build P n1 n1 header (replicate 32 0x11) 1; r2 = report_build P n1 n1 header (replicate 32 0x22) 1 in
      er_fork_divergence_entropy r1 \<noteq> er_fork_divergence_entropy r2 \<and> er_primary_entropy r1 = er_primary_entropy r2)"

definition verify_self_catches_raw_header_tamper :: "prims \<Rightarrow> u64 \<Rightarrow> u64 \<Rightarrow> bool" where
  "verify_self_catches_raw_header_tamper P now created =
     (let header = make_test_header P now 800000 42;
          p = manual_proof P created ''test'' header test_canonical_hash (stale_leading_zero_bits header) ''miner'';
          tampered = p\<lparr>sp_raw_header := (sp_raw_header p)[40 := sp_raw_header p ! 40 XOR 1]\<rparr> in
      is_invalid_header (verify_self P tampered))"

definition verify_self_catches_leading_zeros_lie :: "prims \<Rightarrow> u64 \<Rightarrow> u64 \<Rightarrow> bool" where
  "verify_self_catches_leading_zeros_lie P now created =
     (let header = make_test_header P now 800000 42 in
      is_invalid_header (verify_self P (manual_proof P created ''test'' header test_canonical_hash 200 ''miner'')))"

definition stale_entropy_report_fields_populated :: "prims \<Rightarrow> u64 \<Rightarrow> u64 \<Rightarrow> u64 \<Rightarrow> bool" where
  "stale_entropy_report_fields_populated P now n1 n2 =
     (let report = report_build P n1 n2 (make_test_header P now 800000 777) test_canonical_hash 2 in
      er_height report = 800000 \<and> er_reorg_depth report = 2 \<and> er_block_hash_hex report \<noteq> []
      \<and> er_primary_entropy report \<noteq> zeros 32 \<and> er_secondary_entropy report \<noteq> zeros 32
      \<and> er_fork_divergence_entropy report \<noteq> zeros 32 \<and> er_quality_score report \<le> 100)"

section \<open>Scores\<close>

definition score_breakdown_ranges :: "prims \<Rightarrow> u64 \<Rightarrow> u64 \<Rightarrow> bool" where
  "score_breakdown_ranges P now n1 =
     (let b = compute_score_breakdown n1 (make_test_header P now 800000 42) 3;
          total = pow_difficulty_score b + reorg_depth_score b + divergence_score b + freshness_score b in
      pow_difficulty_score b \<le> 30 \<and> reorg_depth_score b \<le> 25 \<and> divergence_score b \<le> 25 \<and> freshness_score b \<le> 20
      \<and> total \<le> 100)"

definition test_depth_score :: "prims \<Rightarrow> u64 \<Rightarrow> u64 \<Rightarrow> u32 \<Rightarrow> u32" where
  "test_depth_score P now n1 depth = reorg_depth_score (compute_score_breakdown n1 (make_test_header P now 800000 1) depth)"

definition reorg_depth_score_capped_at_6 :: "prims \<Rightarrow> u64 \<Rightarrow> u64 \<Rightarrow> bool" where
  "reorg_depth_score_capped_at_6 P now n1 =
     (let s = test_depth_score P now n1 in s 6 = 25 \<and> s 50 = s 6 \<and> s 100 = s 6)"

definition reorg_depth_boundary_values :: "prims \<Rightarrow> u64 \<Rightarrow> u64 \<Rightarrow> bool" where
  "reorg_depth_boundary_values P now n1 =
     (let s = test_depth_score P now n1 in
      s 0 = 0 \<and> s 1 = 10 \<and> s 2 = 15 \<and> s 3 = 20 \<and> s 5 = 20 \<and> s 6 = 25 \<and> s 7 = s 6)"

definition quality_score_never_exceeds_100 :: "prims \<Rightarrow> u64 \<Rightarrow> u64 \<Rightarrow> bool" where
  "quality_score_never_exceeds_100 P now n1 =
     list_all (\<lambda>depth. compute_quality_score n1 depth (make_test_header P now 800000 42) \<le> 100) [0, 1, 2, 3, 5, 6, 50, 100]"

definition zero_reorg_depth_at_score_level :: "prims \<Rightarrow> u64 \<Rightarrow> u64 \<Rightarrow> bool" where
  "zero_reorg_depth_at_score_level P now n1 =
     (reorg_depth_score (compute_score_breakdown n1 (make_test_header P now 800000 42) 0) = 0)"

section \<open>The tracker and the miner\<close>

definition loser_chain_tracker_stats :: "prims \<Rightarrow> bool" where
  "loser_chain_tracker_stats P =
     (let stats = stats_of P tracker_new in
      st_total_stale stats = 0 \<and> st_total_reorg stats = 0 \<and> st_average_quality stats = 0)"

definition test_fork_event :: "u64 \<Rightarrow> bytes list \<Rightarrow> u32 \<Rightarrow> fork_event" where
  "test_fork_event now losers depth =
     \<lparr>fe_fork_height = 800000, fe_winner_hash = replicate 32 0xAA, fe_loser_hashes = losers, fe_reorg_depth = depth,
      fe_detected_at = now, fe_fork_entropy = replicate 32 0x11\<rparr>"

definition fork_event_entropy_quality :: "u64 \<Rightarrow> bool" where
  "fork_event_entropy_quality now = (entropy_quality (test_fork_event now [replicate 32 0xBB, replicate 32 0xCC] 3) = 35)"

definition tracker_records_fork_events :: "u64 \<Rightarrow> bool" where
  "tracker_records_fork_events now =
     (let t = record_fork_event (test_fork_event now [replicate 32 0xBB] 1) tracker_new in
      tk_total_reorg t = 1 \<and> length (recent_fork_events t 10) = 1)"

definition stale_miner_submit_and_drain :: "prims \<Rightarrow> u64 \<Rightarrow> clock \<Rightarrow> bool" where
  "stale_miner_submit_and_drain P now c =
     (case submit_stale_header P c (to_raw (make_test_header P now 800000 42)) 800000 test_canonical_hash 1
         (stale_miner_new (test_config ''test-miner'')) of
        None \<Rightarrow> False
      | Some (Inl _, _) \<Rightarrow> True
      | Some (Inr p, m) \<Rightarrow>
          let (drained, m') = drain_pending_proofs m in
          length (sm_pending_proofs m) = 1 \<and> map sp_proof_id drained = [sp_proof_id p] \<and> length (sm_pending_proofs m') = 0)"

definition canonical_hash_equals_block_hash_rejected :: "prims \<Rightarrow> u64 \<Rightarrow> clock \<Rightarrow> bool" where
  "canonical_hash_equals_block_hash_rejected P now c =
     (let header = make_test_header P now 800000 42 in
      case submit_stale_header P c (to_raw header) 800000 (sh_block_hash header) 1 (stale_miner_new (test_config ''attacker'')) of
        None \<Rightarrow> False
      | Some (result, _) \<Rightarrow> is_not_stale result)"

definition duplicate_submission_rejected :: "prims \<Rightarrow> u64 \<Rightarrow> clock \<Rightarrow> clock \<Rightarrow> bool" where
  "duplicate_submission_rejected P now c1 c2 =
     (let raw = to_raw (make_test_header P now 800000 7) in
      case submit_stale_header P c1 raw 800000 test_canonical_hash 1 (stale_miner_new (test_config ''miner'')) of
        None \<Rightarrow> False
      | Some (first, m) \<Rightarrow>
          is_ok first \<longrightarrow> (case submit_stale_header P c2 raw 800000 test_canonical_hash 1 m of
             None \<Rightarrow> False | Some (second, _) \<Rightarrow> is_already_harvested second))"

definition ancient_stale_block_rejected :: "prims \<Rightarrow> clock \<Rightarrow> bool" where
  "ancient_stale_block_rejected P c =
     (let header = header_from_fields P 0x20000000 (replicate 32 0xAA) (replicate 32 0xBB) 1000000 0x1d00ffff 42 100000 in
      case submit_stale_header P c (to_raw header) 100000 test_canonical_hash 1 (stale_miner_new (test_config ''miner'')) of
        Some (Inl (TooOld _ _), _) \<Rightarrow> True
      | _ \<Rightarrow> False)"

definition one_bit_different_from_canonical_is_still_stale :: "prims \<Rightarrow> u64 \<Rightarrow> clock \<Rightarrow> bool" where
  "one_bit_different_from_canonical_is_still_stale P now c =
     (let header = make_test_header P now 800000 42;
          near_canonical = (sh_block_hash header)[0 := sh_block_hash header ! 0 XOR 1] in
      case submit_stale_header P c (to_raw header) 800000 near_canonical 1 (stale_miner_new (test_config ''miner'')) of
        None \<Rightarrow> False
      | Some (result, _) \<Rightarrow> \<not> is_not_stale result)"

text \<open>Two headers recorded one after the other on a new tracker, the results dropped.\<close>

definition recorded_entropy :: "prims \<Rightarrow> u64 \<Rightarrow> clock \<Rightarrow> clock \<Rightarrow> bytes option" where
  "recorded_entropy P now c1 c2 =
     (case record_stale_block P c1 (make_test_header P now 800000 100) test_canonical_hash 1 ''miner'' tracker_new of
        None \<Rightarrow> None
      | Some (_, t1) \<Rightarrow>
          map_option (\<lambda>(_, t2). tk_cumulative_entropy t2)
            (record_stale_block P c2 (make_test_header P now 800001 200) test_canonical_hash 1 ''miner'' t1))"

definition cumulative_entropy_not_zero_after_submissions :: "prims \<Rightarrow> u64 \<Rightarrow> clock \<Rightarrow> clock \<Rightarrow> clock \<Rightarrow> clock \<Rightarrow> bool" where
  "cumulative_entropy_not_zero_after_submissions P now c1 c2 c3 c4 =
     (recorded_entropy P now c1 c2 \<noteq> None \<and> recorded_entropy P now c1 c2 = recorded_entropy P now c3 c4)"

definition xor_self_cancellation_requires_different_blocks :: "prims \<Rightarrow> u64 \<Rightarrow> clock \<Rightarrow> clock \<Rightarrow> bool" where
  "xor_self_cancellation_requires_different_blocks P now c1 c2 =
     (let h = make_test_header P now 800000 55 in
      case record_stale_block P c1 h test_canonical_hash 1 ''miner'' tracker_new of
        None \<Rightarrow> False
      | Some (first, t) \<Rightarrow>
          is_ok first \<longrightarrow> tk_cumulative_entropy t \<noteq> zeros 32
            \<and> (case record_stale_block P c2 h test_canonical_hash 1 ''miner'' t of
                 None \<Rightarrow> False
               | Some (second, t') \<Rightarrow> is_already_harvested second \<and> tk_cumulative_entropy t' = tk_cumulative_entropy t))"

section \<open>They pass\<close>

lemma test_header_wf [simp]: "stale_wf P (make_test_header P now height nonce)"
  unfolding make_test_header_def by (rule from_fields_wf) simp_all

lemma test_header_sel [simp]:
  "sh_height (make_test_header P now height nonce) = height" "sh_timestamp (make_test_header P now height nonce) = ucast now"
  "sh_nonce (make_test_header P now height nonce) = nonce" "sh_merkle_root (make_test_header P now height nonce) = replicate 32 0xBB"
  by (simp_all add: make_test_header_def header_from_fields_def Let_def)

lemma test_header_hash: "sh_block_hash (make_test_header P now height nonce) = double_sha256 P (to_raw (make_test_header P now height nonce))"
  using test_header_wf by (simp add: stale_wf_def)

lemma test_header_parses:
  "header_from_raw P (to_raw (make_test_header P now height nonce)) height = Inr (make_test_header P now height nonce)"
  using from_raw_to_raw [OF test_header_wf] by simp

lemma length_to_raw_test: "length (to_raw (make_test_header P now height nonce)) = 80"
  using length_to_raw [OF test_header_wf] by (simp add: BLOCK_HEADER_SIZE_def)

lemma canonical_zeros: "stale_leading_zero_bits h \<ge> MIN_LEADING_ZEROS \<Longrightarrow> sh_block_hash h \<noteq> test_canonical_hash"
proof
  assume "stale_leading_zero_bits h \<ge> MIN_LEADING_ZEROS" "sh_block_hash h = test_canonical_hash"
  moreover have "count_leading_zero_bits_be test_canonical_hash = 0" by code_simp
  ultimately show False by (simp add: stale_leading_zero_bits_def MIN_LEADING_ZEROS_def)
qed

lemma header_tests:
  "stale_block_header_roundtrip P now" "header_entropy_is_deterministic P now now" "invalid_header_size_rejected P"
  "leading_zero_bits_correct" "xor_32_commutative_and_identity"
proof -
  show "stale_block_header_roundtrip P now"
    by (simp add: stale_block_header_roundtrip_def test_header_parses)
  show "header_entropy_is_deterministic P now now"
    by (simp add: header_entropy_is_deterministic_def)
  show "invalid_header_size_rejected P"
    by (simp add: invalid_header_size_rejected_def header_from_raw_def BLOCK_HEADER_SIZE_def zeros_def)
  show "leading_zero_bits_correct" "xor_32_commutative_and_identity"
    by code_simp+
qed

text \<open>What \<open>extract_entropy\<close> hashes.\<close>

definition entropy_preimage :: "stale_header \<Rightarrow> bytes" where
  "entropy_preimage h = as_bytes ''TGBT-STALE-ENTROPY-v1'' @ sh_block_hash h @ sh_merkle_root h @ le_bytes 4 (sh_nonce h)
     @ le_bytes 4 (sh_timestamp h) @ le_bytes 4 (sh_bits h) @ le_bytes 4 (sh_version h) @ sh_prev_block_hash h
     @ le_bytes 8 (sh_height h)"

lemma nonces_test:
  assumes "hash_ok P"
    and "inj_on (sha256 P) {entropy_preimage (make_test_header P t1 800000 42), entropy_preimage (make_test_header P t2 800000 43)}"
  shows "different_nonces_produce_different_entropy P t1 t2"
proof -
  let ?a = "make_test_header P t1 800000 42" and ?b = "make_test_header P t2 800000 43"
  have len: "length (sh_block_hash ?a) = 32" "length (sh_block_hash ?b) = 32"
    using assms(1) by (simp_all add: test_header_hash)
  have "le_bytes 4 (42 :: u32) \<noteq> le_bytes 4 (43 :: u32)"
    using le_bytes_inj [of 4 "42 :: u32" 43] by auto
  then have "entropy_preimage ?a \<noteq> entropy_preimage ?b"
    using len by (auto simp: entropy_preimage_def)
  then show ?thesis
    using assms(2) by (auto simp: different_nonces_produce_different_entropy_def extract_entropy_def entropy_preimage_def dest: inj_onD)
qed

text \<open>The tests that compare hash values: a collision is all that can make them fail.\<close>

lemma header_tests_hashes:
  assumes "hash_ok P" "hex_ok P"
  shows "rev (double_sha256 P (to_raw (make_test_header P now 1 0))) \<noteq> double_sha256 P (to_raw (make_test_header P now 1 0))
      \<Longrightarrow> block_hash_hex_is_reversed P now"
    "sha256 P (proof_preimage (sh_block_hash (make_test_header P now 800000 42)) (replicate 32 0x11) 800000 1 ''miner'')
      \<noteq> sha256 P (proof_preimage (sh_block_hash (make_test_header P now 800000 42)) (replicate 32 0x22) 800000 1 ''miner'')
      \<Longrightarrow> different_canonical_hashes_produce_different_proof_ids P now"
  using assms by (simp_all add: block_hash_hex_is_reversed_def stale_hash_hex_def hash_hex_def hex_encode_inj test_header_hash Let_def
    different_canonical_hashes_produce_different_proof_ids_def compute_proof_id_def)

lemma divergence_inputs_differ:
  assumes "length h = 32"
  shows "xor_32 h (replicate 32 0x11) \<noteq> xor_32 h (replicate 32 0x22)"
proof
  assume "xor_32 h (replicate 32 0x11) = xor_32 h (replicate 32 0x22)"
  then have "xor_32 h (replicate 32 0x11) ! 0 = xor_32 h (replicate 32 0x22) ! 0" by simp
  then have "h ! 0 XOR 0x11 = h ! 0 XOR 0x22" by (simp add: xor_32_def)
  then have "h ! 0 XOR (h ! 0 XOR 0x11) = h ! 0 XOR (h ! 0 XOR (0x22 :: byte))" by simp
  then show False by (simp add: xor.assoc [symmetric])
qed

lemma divergence_test:
  assumes "hash_ok P"
    and "inj_on (sha256 P) ((\<lambda>canonical. as_bytes ''TGBT-FORK-DIVERGENCE-v1''
      @ xor_32 (sh_block_hash (make_test_header P now 800000 42)) canonical) ` {replicate 32 0x11, replicate 32 0x22})"
  shows "different_canonical_hash_changes_fork_divergence_entropy P now n1"
proof -
  have "length (sh_block_hash (make_test_header P now 800000 42)) = 32"
    using assms(1) by (simp add: test_header_hash)
  from divergence_inputs_differ [OF this] show ?thesis
    using assms(2) by (auto simp: different_canonical_hash_changes_fork_divergence_entropy_def report_build_def Let_def
      dest: inj_onD)
qed

lemma proof_tests:
  assumes "hash_ok P" "hex_ok P"
  shows "stale_work_proof_self_verification P now n1 n2" "not_stale_if_matches_canonical P now n1 n2"
    "reorg_depth_max_rejects_over_100 P now n1 n2" "reorg_depth_max_boundary_accepts_100 P now n1 n2"
    "verify_self_catches_canonical_hash_equals_block_hash P now created"
proof -
  let ?h = "make_test_header P now 800000"
  show "stale_work_proof_self_verification P now n1 n2"
  proof (cases "proof_build P n1 n2 (?h 99) test_canonical_hash 1 ''test-miner''")
    case (Inl e)
    then have "is_insufficient (proof_build P n1 n2 (?h 99) test_canonical_hash 1 ''test-miner'')"
      by (auto simp: proof_build_def Let_def MAX_REORG_DEPTH_def split: if_splits)
    with Inl show ?thesis by (simp add: stale_work_proof_self_verification_def)
  next
    case (Inr p)
    note f = proof_build_fields [OF Inr]
    have "length (sp_proof_id p) = 64"
      using assms by (simp add: f(1) compute_proof_id_def)
    then have "sp_proof_id p \<noteq> []" by auto
    moreover have "verify_self P p = Inr ()"
      using built_proof_verifies [OF Inr test_header_wf] canonical_zeros [OF f(12)] by simp
    ultimately show ?thesis
      using f(4) by (simp add: stale_work_proof_self_verification_def Inr is_ok_def)
  qed
  show "not_stale_if_matches_canonical P now n1 n2"
  proof (cases "proof_build P n1 n2 (?h 42) (sh_block_hash (?h 42)) 1 ''miner''")
    case (Inr p)
    then have "verify_self P p = Inl (NotStale (hex_encode P (sh_block_hash (?h 42))))" "p\<lparr>sp_canonical_hash := sp_block_hash p\<rparr> = p"
      using built_proof_verifies [OF Inr test_header_wf] proof_build_fields [OF Inr] by simp_all
    with Inr show ?thesis by (simp add: not_stale_if_matches_canonical_def)
  qed (simp add: not_stale_if_matches_canonical_def)
  show "reorg_depth_max_rejects_over_100 P now n1 n2" "reorg_depth_max_boundary_accepts_100 P now n1 n2"
    by (simp_all add: reorg_depth_max_rejects_over_100_def reorg_depth_max_boundary_accepts_100_def proof_build_def MAX_REORG_DEPTH_def
      Let_def is_ok_def)
  show "verify_self_catches_canonical_hash_equals_block_hash P now created"
    by (simp add: verify_self_catches_canonical_hash_equals_block_hash_def manual_proof_def verify_self_def length_to_raw_test
      BLOCK_HEADER_SIZE_def test_header_hash [symmetric] stale_leading_zero_bits_def Let_def)
qed

lemma tamper_tests:
  assumes "hash_ok P"
  shows "(let raw = to_raw (make_test_header P now 800000 42) in double_sha256 P (raw[40 := raw ! 40 XOR 1]) \<noteq> double_sha256 P raw)
      \<Longrightarrow> verify_self_catches_raw_header_tamper P now created"
    "stale_leading_zero_bits (make_test_header P now 800000 42) \<noteq> 200 \<Longrightarrow> verify_self_catches_leading_zeros_lie P now created"
  by (simp_all add: verify_self_catches_raw_header_tamper_def verify_self_catches_leading_zeros_lie_def manual_proof_def verify_self_def
    length_to_raw_test BLOCK_HEADER_SIZE_def test_header_hash [symmetric] stale_leading_zero_bits_def Let_def)

lemma report_test:
  assumes "hash_ok P" "hex_ok P" "extract_entropy P (make_test_header P now 800000 777) \<noteq> zeros 32"
    and "expand_u32_to_32 P 777 \<noteq> replicate 32 0xBB"
    and "sha256 P (as_bytes ''TGBT-FORK-DIVERGENCE-v1'' @ xor_32 (sh_block_hash (make_test_header P now 800000 777)) test_canonical_hash) \<noteq> zeros 32"
  shows "stale_entropy_report_fields_populated P now n1 n2"
proof -
  let ?h = "make_test_header P now 800000 777"
  have "length (stale_hash_hex P ?h) = 64"
    using assms(1,2) by (simp add: stale_hash_hex_def hash_hex_def test_header_hash)
  then have "stale_hash_hex P ?h \<noteq> []" by auto
  moreover have "xor_32 (replicate 32 0xBB) (expand_u32_to_32 P 777) \<noteq> zeros 32"
  proof
    let ?e = "expand_u32_to_32 P 777"
    assume z: "xor_32 (replicate 32 0xBB) ?e = zeros 32"
    have "?e ! i = 0xBB" if "i < 32" for i
    proof -
      have "0xBB XOR ?e ! i = (0 :: byte)"
        using arg_cong [OF z, of "\<lambda>x. x ! i"] that by (simp add: xor_32_def zeros_def)
      then have "0xBB XOR (0xBB XOR ?e ! i) = (0xBB :: byte)" by simp
      then show ?thesis by (simp add: xor.assoc [symmetric])
    qed
    then have "?e = replicate 32 0xBB"
      using assms(1) by (intro nth_equalityI) (simp_all add: expand_u32_to_32_def)
    with assms(4) show False by simp
  qed
  ultimately show ?thesis
    using assms(3,5) unat_score_sum(2) [of n1 ?h 2]
    by (simp add: stale_entropy_report_fields_populated_def report_build_def Let_def)
qed

lemma score_tests:
  "score_breakdown_ranges P now n1" "reorg_depth_score_capped_at_6 P now n1" "reorg_depth_boundary_values P now n1"
  "quality_score_never_exceeds_100 P now n1" "zero_reorg_depth_at_score_level P now n1"
proof -
  show "score_breakdown_ranges P now n1"
    using unat_score_sum(2) [of n1 "make_test_header P now 800000 42" 3] score_bounds [of n1 "make_test_header P now 800000 42" 3]
    by (simp add: score_breakdown_ranges_def score_sum_def Let_def)
  have depth: "reorg_depth_score (compute_score_breakdown n1 h d) = (if d = 0 then 0 else if d = 1 then 10 else if d = 2 then 15
      else if d \<le> 5 then 20 else 25)" for h d
  proof -
    have "unat d \<le> 5 \<or> unat d > 5" by linarith
    then show ?thesis
      by (auto simp: compute_score_breakdown_def Let_def min_def word_le_nat_alt word_unat_eq_iff)
  qed
  show "reorg_depth_score_capped_at_6 P now n1" "reorg_depth_boundary_values P now n1" "zero_reorg_depth_at_score_level P now n1"
    by (simp_all add: reorg_depth_score_capped_at_6_def reorg_depth_boundary_values_def zero_reorg_depth_at_score_level_def
      test_depth_score_def depth Let_def)
  show "quality_score_never_exceeds_100 P now n1"
    using unat_score_sum(2) by (simp add: quality_score_never_exceeds_100_def quality_score_sum)
qed

text \<open>What a submission of a test header to a new miner does.\<close>

lemma first_submission:
  assumes "hex_ok P"
  obtains (Refused) e where "submit_stale_header P c (to_raw (make_test_header P now height nonce)) height canonical 1
      (stale_miner_new (test_config sub)) = Some (Inl e, stale_miner_new (test_config sub))"
  | (Accepted) p m where "submit_stale_header P c (to_raw (make_test_header P now height nonce)) height canonical 1
      (stale_miner_new (test_config sub)) = Some (Inr p, m)" "sm_pending_proofs m = [p]" "tracker_ok P (sm_tracker m)"
      "hm_has (tk_headers (sm_tracker m)) (stale_hash_hex P (make_test_header P now height nonce))"
proof -
  let ?h = "make_test_header P now height nonce" and ?m = "stale_miner_new (test_config sub)"
  obtain a n1 n2 where c: "c = (a, n1, n2)" by (cases c)
  have submit: "submit_stale_header P c (to_raw ?h) height canonical 1 ?m = submit_stale P (a, n1, n2) ?h canonical 1 ?m"
    by (simp add: submit_stale_header_def test_header_parses c)
  show thesis
  proof (cases "harvestable P a ?h canonical 1 (sm_tracker ?m)")
    case False
    then show ?thesis
      using submit_refused [OF test_header_wf False, of n1 n2] submit Refused by metis
  next
    case True
    have "tracker_ok P (sm_tracker ?m)" "\<forall>i. get_proof (sm_tracker ?m) i = None"
      using tracker_ok_new by (simp_all add: stale_miner_new_def) (simp add: tracker_new_def get_proof_def)
    with submit_accepted [OF assms _ test_header_wf True, of n1 n2] obtain p m where
      pm: "submit_stale P (a, n1, n2) ?h canonical 1 ?m = Some (Inr p, m)" "tracker_ok P (sm_tracker m)" "sm_pending_proofs m = [p]"
      by (auto simp: stale_miner_new_def)
    from True have new: "\<not> hm_has (tk_headers tracker_new) (stale_hash_hex P ?h)" "too_old a ?h = None" "sh_block_hash ?h \<noteq> canonical"
      by (simp_all add: harvestable_def stale_miner_new_def)
    have "verified_build P n1 n2 ?h canonical 1 sub = Inr p"
    proof (cases "verified_build P n1 n2 ?h canonical 1 sub")
      case (Inl e)
      with pm(1) record_simps(3) [OF new(1,2) Inl] new(3) show ?thesis
        by (simp add: submit_stale_def stale_miner_new_def test_config_def)
    next
      case (Inr p')
      with pm(1) record_simps(4) [OF new(1,2) Inr] new(3) show ?thesis
        by (auto simp: submit_stale_def stale_miner_new_def test_config_def tracker_new_def MAX_STALE_HISTORY_def length_hm_insert
          Let_def split: if_splits)
    qed
    from pm(1) record_simps(4) [OF new(1,2) this] new(3) have "sm_tracker m = store_stale P ?h p tracker_new"
      by (auto simp: submit_stale_def stale_miner_new_def test_config_def MAX_STALE_HISTORY_def tracker_new_def Let_def hm_insert_def)
    then have "hm_has (tk_headers (sm_tracker m)) (stale_hash_hex P ?h)"
      by (simp add: hm_has_def)
    with pm submit Accepted show ?thesis by metis
  qed
qed

lemma never_not_stale:
  assumes "stale_wf P h" "sh_block_hash h \<noteq> canonical"
  shows "\<exists>r t. record_stale_block P (a, n1, n2) h canonical d sub tracker_new = Some (r, t) \<and> \<not> is_not_stale r"
proof -
  have new: "\<not> hm_has (tk_headers tracker_new) x" for x
    by (simp add: tracker_new_def hm_has_def)
  have build: "\<not> is_not_stale (verified_build P n1 n2 h canonical d sub)"
  proof (cases "proof_build P n1 n2 h canonical d sub")
    case (Inl e)
    then show ?thesis by (auto simp: verified_build_def proof_build_def Let_def split: if_splits)
  next
    case (Inr p)
    with built_proof_verifies [OF Inr assms(1)] assms(2) show ?thesis by (simp add: verified_build_def)
  qed
  show ?thesis
  proof (cases "too_old a h")
    case None
    show ?thesis
    proof (cases "verified_build P n1 n2 h canonical d sub")
      case (Inl e)
      with record_simps(3) [OF new None Inl] build show ?thesis by auto
    next
      case (Inr p)
      with record_simps(4) [OF new None Inr] show ?thesis
        by (simp add: tracker_new_def MAX_STALE_HISTORY_def length_hm_insert Let_def)
    qed
  qed (use record_simps(2) [OF new] in auto)
qed

lemma submission_tests:
  assumes "hex_ok P"
  shows "stale_miner_submit_and_drain P now c" "canonical_hash_equals_block_hash_rejected P now c"
    "hash_ok P \<Longrightarrow> one_bit_different_from_canonical_is_still_stale P now c" "duplicate_submission_rejected P now c c2"
    "1604800 < unat (fst c) \<Longrightarrow> sh_block_hash (header_from_fields P 0x20000000 (replicate 32 0xAA) (replicate 32 0xBB) 1000000
       0x1d00ffff 42 100000) \<noteq> test_canonical_hash \<Longrightarrow> ancient_stale_block_rejected P c"
proof -
  show "stale_miner_submit_and_drain P now c"
    using assms by (cases rule: first_submission [where c = c and now = now and height = 800000 and nonce = 42
        and canonical = test_canonical_hash and sub = "''test-miner''"])
      (simp_all add: stale_miner_submit_and_drain_def drain_pending_proofs_def)
  show "canonical_hash_equals_block_hash_rejected P now c"
    by (simp add: canonical_hash_equals_block_hash_rejected_def submit_stale_header_def test_header_parses submit_stale_def Let_def)
  from assms show "duplicate_submission_rejected P now c c2"
  proof (cases rule: first_submission [where c = c and now = now and height = 800000 and nonce = 7
      and canonical = test_canonical_hash and sub = "''miner''"])
    case (Accepted p m)
    obtain a n1 n2 where c2: "c2 = (a, n1, n2)" by (cases c2)
    show ?thesis
    proof (cases "sh_block_hash (make_test_header P now 800000 7) = test_canonical_hash")
      case True
      with Accepted(1) show ?thesis
        by (simp add: submit_stale_header_def test_header_parses submit_stale_def)
    next
      case False
      with Accepted(4) show ?thesis
        by (simp add: duplicate_submission_rejected_def Accepted(1) c2 submit_stale_header_def [of P "(a, n1, n2)"] test_header_parses
          submit_stale_def record_simps(1))
    qed
  qed (simp add: duplicate_submission_rejected_def is_ok_def)
  let ?h = "make_test_header P now 800000 42"
  let ?near = "(sh_block_hash ?h)[0 := sh_block_hash ?h ! 0 XOR 1]"
  show "hash_ok P \<Longrightarrow> one_bit_different_from_canonical_is_still_stale P now c"
  proof -
    assume "hash_ok P"
    then have "length (sh_block_hash ?h) = 32" by (simp add: test_header_hash)
    moreover have "sh_block_hash ?h ! 0 XOR 1 \<noteq> sh_block_hash ?h ! 0"
    proof
      assume "sh_block_hash ?h ! 0 XOR 1 = sh_block_hash ?h ! 0"
      then have "sh_block_hash ?h ! 0 XOR (sh_block_hash ?h ! 0 XOR 1) = 0" by simp
      then show False by (simp add: xor.assoc [symmetric])
    qed
    ultimately have "sh_block_hash ?h \<noteq> ?near"
      by (metis nth_list_update_eq zero_less_numeral)
    obtain a n1 n2 where "c = (a, n1, n2)" by (cases c)
    with never_not_stale [OF test_header_wf \<open>sh_block_hash ?h \<noteq> ?near\<close>, of a n1 n2 1 "''miner''"] \<open>sh_block_hash ?h \<noteq> ?near\<close> show ?thesis
      by (auto simp: one_bit_different_from_canonical_is_still_stale_def submit_stale_header_def test_header_parses submit_stale_def
        stale_miner_new_def test_config_def Let_def)
  qed
  obtain a n1 n2 where c: "c = (a, n1, n2)" by (cases c)
  let ?old = "header_from_fields P 0x20000000 (replicate 32 0xAA) (replicate 32 0xBB) 1000000 0x1d00ffff 42 100000"
  have wf: "stale_wf P ?old" by (rule from_fields_wf) simp_all
  have parse: "header_from_raw P (to_raw ?old) 100000 = Inr ?old"
    using from_raw_to_raw [OF wf] by (simp add: header_from_fields_def Let_def)
  assume "1604800 < unat (fst c)" and other: "sh_block_hash ?old \<noteq> test_canonical_hash"
  from this(1) have "too_old a ?old \<noteq> None"
    by (simp add: too_old_iff c header_from_fields_def MAX_STALE_AGE_SECS_def Let_def)
  then obtain age where age: "too_old a ?old = Some age" by blast
  show "ancient_stale_block_rejected P c"
    using record_simps(2) [OF _ age] other
    by (simp add: ancient_stale_block_rejected_def c parse submit_stale_header_def submit_stale_def stale_miner_new_def tracker_new_def
      hm_has_def Let_def)
qed

text \<open>The entropy and the headers a record leaves behind: of the clock only the age check matters.\<close>

lemma record_entropy:
  assumes "stale_wf P h" "too_old a h = None" "length (tk_headers t) < MAX_STALE_HISTORY"
  shows "\<exists>r t'. record_stale_block P (a, n1, n2) h canonical d sub t = Some (r, t')
    \<and> (if \<not> hm_has (tk_headers t) (stale_hash_hex P h) \<and> MIN_LEADING_ZEROS \<le> stale_leading_zero_bits h \<and> d \<le> MAX_REORG_DEPTH
          \<and> sh_block_hash h \<noteq> canonical
        then is_ok r \<and> tk_cumulative_entropy t' = xor_32 (tk_cumulative_entropy t) (extract_entropy P h)
          \<and> tk_headers t' = hm_insert (stale_hash_hex P h) h (tk_headers t)
        else \<not> is_ok r \<and> t' = t)"
proof (cases "hm_has (tk_headers t) (stale_hash_hex P h)")
  case True
  then show ?thesis using record_simps(1) [OF True] by (simp add: is_ok_def)
next
  case new: False
  show ?thesis
  proof (cases "verified_build P n1 n2 h canonical d sub")
    case (Inl e)
    then have "\<not> (\<exists>p. verified_build P n1 n2 h canonical d sub = Inr p)" by simp
    then show ?thesis
      using record_simps(3) [OF new assms(2) Inl] verified_build_ok_iff [OF assms(1), of n1 n2 canonical d sub] by (simp add: is_ok_def)
  next
    case (Inr p)
    then have "MIN_LEADING_ZEROS \<le> stale_leading_zero_bits h \<and> d \<le> MAX_REORG_DEPTH \<and> sh_block_hash h \<noteq> canonical"
      using verified_build_ok_iff [OF assms(1), of n1 n2 canonical d sub] by blast
    moreover have "length (tk_headers (store_stale P h p t)) \<le> MAX_STALE_HISTORY"
      using assms(3) new by (simp add: length_hm_insert)
    moreover have "tk_cumulative_entropy (store_stale P h p t) = xor_32 (tk_cumulative_entropy t) (extract_entropy P h)"
      using proof_build_fields(8) [OF verified_build_InrD(1) [OF Inr]] by (simp add: store_stale_def Let_def)
    ultimately show ?thesis
      using record_simps(4) [OF new assms(2) Inr] new by (simp add: is_ok_def Let_def)
  qed
qed

lemma new_tracker: "length (tk_headers tracker_new) < MAX_STALE_HISTORY" "\<not> hm_has (tk_headers tracker_new) x"
    "tk_cumulative_entropy tracker_new = zeros 32"
  by (simp_all add: tracker_new_def hm_has_def MAX_STALE_HISTORY_def)

lemma xor_zeros: "length e = 32 \<Longrightarrow> xor_32 (zeros 32) e = e"
  by (rule nth_equalityI) (simp_all add: xor_32_def zeros_def)

lemma xor_cancellation_test:
  assumes "hash_ok P" "extract_entropy P (make_test_header P now 800000 55) \<noteq> zeros 32"
    and "too_old (fst c1) (make_test_header P now 800000 55) = None"
  shows "xor_self_cancellation_requires_different_blocks P now c1 c2"
proof -
  let ?h = "make_test_header P now 800000 55"
  obtain a n1 n2 where c1: "c1 = (a, n1, n2)" by (cases c1)
  obtain b k1 k2 where c2: "c2 = (b, k1, k2)" by (cases c2)
  have len: "length (extract_entropy P ?h) = 32"
    using assms(1) by (simp add: extract_entropy_def)
  have young: "too_old a ?h = None"
    using assms(3) by (simp add: c1)
  obtain r t where r: "record_stale_block P c1 ?h test_canonical_hash 1 ''miner'' tracker_new = Some (r, t)"
    "if \<not> hm_has (tk_headers tracker_new) (stale_hash_hex P ?h) \<and> MIN_LEADING_ZEROS \<le> stale_leading_zero_bits ?h
        \<and> 1 \<le> MAX_REORG_DEPTH \<and> sh_block_hash ?h \<noteq> test_canonical_hash
      then is_ok r \<and> tk_cumulative_entropy t = xor_32 (tk_cumulative_entropy tracker_new) (extract_entropy P ?h)
        \<and> tk_headers t = hm_insert (stale_hash_hex P ?h) ?h (tk_headers tracker_new)
      else \<not> is_ok r \<and> t = tracker_new"
    unfolding c1 using record_entropy [OF test_header_wf young new_tracker(1)] by blast
  from r(2) have "is_ok r \<longrightarrow> tk_cumulative_entropy t = extract_entropy P ?h \<and> hm_has (tk_headers t) (stale_hash_hex P ?h)"
    by (auto simp: new_tracker(3) xor_zeros [OF len] split: if_splits)
  with r(1) show ?thesis
    using assms(2) record_simps(1) [of t P ?h b k1 k2 test_canonical_hash 1 "''miner''"]
    by (auto simp: xor_self_cancellation_requires_different_blocks_def c2)
qed

lemma cumulative_test:
  assumes "\<forall>c \<in> {c1, c3}. too_old (fst c) (make_test_header P now 800000 100) = None"
    and "\<forall>c \<in> {c2, c4}. too_old (fst c) (make_test_header P now 800001 200) = None"
  shows "cumulative_entropy_not_zero_after_submissions P now c1 c2 c3 c4"
proof -
  let ?h1 = "make_test_header P now 800000 100" and ?h2 = "make_test_header P now 800001 200"
  define work where "work h \<longleftrightarrow> MIN_LEADING_ZEROS \<le> stale_leading_zero_bits h \<and> sh_block_hash h \<noteq> test_canonical_hash" for h
  define headers where "headers = (if work ?h1 then hm_insert (stale_hash_hex P ?h1) ?h1 [] else [])"
  define e1 where "e1 = (if work ?h1 then xor_32 (zeros 32) (extract_entropy P ?h1) else zeros 32)"
  define e2 where "e2 = (if \<not> hm_has headers (stale_hash_hex P ?h2) \<and> work ?h2 then xor_32 e1 (extract_entropy P ?h2) else e1)"
  have run: "recorded_entropy P now (a, n1, n2) (b, k1, k2) = Some e2"
    if young: "too_old a ?h1 = None" "too_old b ?h2 = None" for a n1 n2 b k1 k2
  proof -
    obtain r t where r: "record_stale_block P (a, n1, n2) ?h1 test_canonical_hash 1 ''miner'' tracker_new = Some (r, t)"
      "if \<not> hm_has (tk_headers tracker_new) (stale_hash_hex P ?h1) \<and> MIN_LEADING_ZEROS \<le> stale_leading_zero_bits ?h1
          \<and> 1 \<le> MAX_REORG_DEPTH \<and> sh_block_hash ?h1 \<noteq> test_canonical_hash
        then is_ok r \<and> tk_cumulative_entropy t = xor_32 (tk_cumulative_entropy tracker_new) (extract_entropy P ?h1)
          \<and> tk_headers t = hm_insert (stale_hash_hex P ?h1) ?h1 (tk_headers tracker_new)
        else \<not> is_ok r \<and> t = tracker_new"
      using record_entropy [OF test_header_wf young(1) new_tracker(1)] by blast
    then have "tk_cumulative_entropy t = e1" "tk_headers t = headers"
      by (auto simp: work_def e1_def headers_def new_tracker MAX_REORG_DEPTH_def split: if_splits) (simp_all add: tracker_new_def)
    note r = r(1) this
    have "length (tk_headers t) < MAX_STALE_HISTORY"
      by (simp add: r(3) headers_def MAX_STALE_HISTORY_def length_hm_insert)
    then obtain r' t' where r': "record_stale_block P (b, k1, k2) ?h2 test_canonical_hash 1 ''miner'' t = Some (r', t')"
      "if \<not> hm_has (tk_headers t) (stale_hash_hex P ?h2) \<and> MIN_LEADING_ZEROS \<le> stale_leading_zero_bits ?h2
          \<and> 1 \<le> MAX_REORG_DEPTH \<and> sh_block_hash ?h2 \<noteq> test_canonical_hash
        then is_ok r' \<and> tk_cumulative_entropy t' = xor_32 (tk_cumulative_entropy t) (extract_entropy P ?h2)
          \<and> tk_headers t' = hm_insert (stale_hash_hex P ?h2) ?h2 (tk_headers t)
        else \<not> is_ok r' \<and> t' = t"
      using record_entropy [OF test_header_wf young(2)] by blast
    then have "tk_cumulative_entropy t' = e2"
      by (auto simp: work_def e2_def r(2,3) MAX_REORG_DEPTH_def split: if_splits)
    note r' = r'(1) this
    with r(1) show ?thesis by (simp add: recorded_entropy_def)
  qed
  obtain a1 a2 a3 b1 b2 b3 where "c1 = (a1, a2, a3)" "c2 = (b1, b2, b3)" by (cases c1, cases c2)
  moreover obtain d1 d2 d3 f1 f2 f3 where "c3 = (d1, d2, d3)" "c4 = (f1, f2, f3)" by (cases c3, cases c4)
  ultimately show ?thesis
    using assms run by (simp add: cumulative_entropy_not_zero_after_submissions_def)
qed

lemma tracker_tests:
  "loser_chain_tracker_stats P" "fork_event_entropy_quality now" "tracker_records_fork_events now"
  by (simp_all add: loser_chain_tracker_stats_def stats_of_def tracker_new_def Let_def fork_event_entropy_quality_def entropy_quality_def
    test_fork_event_def tracker_records_fork_events_def record_fork_event_def recent_fork_events_def)

end
