(* ===== verification/Hardware_Tests.thy ===== *)
theory Hardware_Tests
  imports Cpu Live_Entropy Core_Tests
begin

text \<open>
  The unit tests of the processor detection and of the live Bitcoin entropy (\<^verbatim>\<open>mod tests\<close> of \<^verbatim>\<open>cpu.rs\<close> and of
  \<^verbatim>\<open>node/bitcoin_entropy.rs\<close>), as in \<open>Core_Tests\<close>. The identity is detected once per process: the tests on it are
  predicates of what \<^verbatim>\<open>detect_cpu\<close> returned. What a test assumes of the machine is a hypothesis of its lemma.
\<close>

section \<open>The identity\<close>

text \<open>\<^verbatim>\<open>Display for CpuIdentity\<close>.\<close>

definition show_u32 :: "u32 \<Rightarrow> string" where
  "show_u32 n = show_u64 (ucast n)"

definition cpu_display :: "cpu_identity \<Rightarrow> string" where
  "cpu_display c = id_vendor c @ '' '' @ id_brand c @ '' (fam='' @ show_u32 (id_family c) @ '' mod='' @ show_u32 (id_model c)
     @ '' step='' @ show_u32 (id_stepping c) @ '') cores='' @ show_u32 (id_cores c) @ '' threads='' @ show_u32 (id_threads c)
     @ '' L3='' @ show_u32 (id_cache_l3_kb c) @ ''KB''"

definition detect_returns_non_empty_vendor :: "cpu_identity \<Rightarrow> bool" where
  "detect_returns_non_empty_vendor cpu = (id_vendor cpu \<noteq> [])"

definition detect_returns_non_empty_brand :: "cpu_identity \<Rightarrow> bool" where
  "detect_returns_non_empty_brand cpu = (id_brand cpu \<noteq> [])"

definition cores_at_least_one :: "cpu_identity \<Rightarrow> bool" where
  "cores_at_least_one cpu = (id_cores cpu \<ge> 1)"

definition threads_gte_cores :: "cpu_identity \<Rightarrow> bool" where
  "threads_gte_cores cpu = (id_threads cpu \<ge> id_cores cpu)"

definition recommended_workers_gte_one :: "cpu_identity \<Rightarrow> bool" where
  "recommended_workers_gte_one cpu = (recommended_workers cpu \<ge> 1)"

definition fingerprint_is_deterministic :: "prims \<Rightarrow> cpu_identity \<Rightarrow> bool" where
  "fingerprint_is_deterministic P cpu = (telemetry_fingerprint P cpu = telemetry_fingerprint P cpu)"

definition fingerprint_is_hex_64_chars :: "prims \<Rightarrow> cpu_identity \<Rightarrow> bool" where
  "fingerprint_is_hex_64_chars P cpu =
     (let fp = telemetry_fingerprint P cpu in length fp = 64 \<and> list_all (\<lambda>c. c \<in> set ''0123456789abcdefABCDEF'') fp)"

definition has_feature_sse2_on_x86 :: "cpu_identity \<Rightarrow> bool" where
  "has_feature_sse2_on_x86 cpu = has_cpu_feature SSE2 cpu"

definition detection_metrics_returns_expected_keys :: "cpu_identity \<Rightarrow> bool" where
  "detection_metrics_returns_expected_keys cpu =
     (let m = detection_metrics cpu in
      hm_has m ''detection_us'' \<and> hm_has m ''cores'' \<and> hm_has m ''threads'' \<and> hm_has m ''cache_l3_kb'')"

definition display_trait_non_empty :: "cpu_identity \<Rightarrow> bool" where
  "display_trait_non_empty cpu = (cpu_display cpu \<noteq> [])"

lemma identity_tests:
  assumes "1 \<le> logical" "hash_ok P" "hex_ok P"
  shows "cores_at_least_one (detect_cpu logical us q)" "threads_gte_cores (detect_cpu logical us q)"
    "recommended_workers_gte_one (detect_cpu logical us q)" "fingerprint_is_deterministic P cpu"
    "fingerprint_is_hex_64_chars P cpu" "detection_metrics_returns_expected_keys cpu" "display_trait_non_empty cpu"
proof -
  note d = detected_identity_ok [OF assms(1), of us q]
  then show "cores_at_least_one (detect_cpu logical us q)" "threads_gte_cores (detect_cpu logical us q)"
    "recommended_workers_gte_one (detect_cpu logical us q)"
    by (simp_all add: cores_at_least_one_def threads_gte_cores_def recommended_workers_gte_one_def word_le_nat_alt)
  have sub: "set ''0123456789abcdef'' \<subseteq> set ''0123456789abcdefABCDEF''" by simp
  show "fingerprint_is_hex_64_chars P cpu"
    unfolding fingerprint_is_hex_64_chars_def Let_def list_all_iff telemetry_fingerprint_def
    using assms(2,3) hex_encode_chars [OF assms(3)] sub by fastforce
qed (simp_all add: fingerprint_is_deterministic_def detection_metrics_returns_expected_keys_def detection_metrics_def hm_has_def
    display_trait_non_empty_def cpu_display_def Let_def)

lemma identity_tests_machine:
  "ci_vendor q = Some v \<Longrightarrow> v \<noteq> [] \<Longrightarrow> detect_returns_non_empty_vendor (detect_cpu logical us q)"
  "ci_brand q = Some b \<Longrightarrow> trim b \<noteq> [] \<Longrightarrow> detect_returns_non_empty_brand (detect_cpu logical us q)"
  "ci_features q = Some fi \<Longrightarrow> fi_flags fi ''sse2'' \<Longrightarrow> has_feature_sse2_on_x86 (detect_cpu logical us q)"
  by (simp_all add: detect_returns_non_empty_vendor_def detect_returns_non_empty_brand_def has_feature_sse2_on_x86_def
    has_cpu_feature_def detect_cpu_def collect_features_def BASIC_FEATURES_def case_prod_unfold Let_def)

section \<open>Temperature\<close>

definition temperature_in_range_if_present :: "u64 \<Rightarrow> rat option \<Rightarrow> temp_cache \<Rightarrow> bool" where
  "temperature_in_range_if_present now sensor cache =
     (case fst (get_cpu_temperature now sensor cache) of None \<Rightarrow> True | Some t \<Rightarrow> t > 1 \<and> t < 150)"

definition temperature_cached_on_second_call :: "u64 \<Rightarrow> u64 \<Rightarrow> rat option \<Rightarrow> rat option \<Rightarrow> temp_cache \<Rightarrow> bool" where
  "temperature_cached_on_second_call now1 now2 sensor1 sensor2 cache =
     (let (t1, cache1) = get_cpu_temperature now1 sensor1 cache; (t2, _) = get_cpu_temperature now2 sensor2 cache1 in t1 = t2)"

text \<open>The second call hits the cache if it comes within a second of the reading; a sensor that answers only the
  second time makes the test fail, since an absent reading is not cached.\<close>

lemma temperature_tests:
  "tc_last_us cache = 0 \<Longrightarrow> (\<forall>t. sensor = Some t \<longrightarrow> temp_plausible t) \<Longrightarrow> temperature_in_range_if_present now sensor cache"
  "tc_last_us cache = 0 \<Longrightarrow> sensor1 = Some t \<Longrightarrow> 1 \<le> now1 \<Longrightarrow> sat_sub now2 now1 < 1000000 \<Longrightarrow>
     temperature_cached_on_second_call now1 now2 sensor1 sensor2 cache"
  "tc_last_us cache = 0 \<Longrightarrow> temperature_cached_on_second_call now1 now2 None None cache"
  "tc_last_us cache = 0 \<Longrightarrow> \<not> temperature_cached_on_second_call now1 now2 None (Some t) cache"
  by (auto simp: temperature_in_range_if_present_def temperature_cached_on_second_call_def get_cpu_temperature_def temp_plausible_def
    TEMP_CACHE_TTL_US_def max_def word_gt_0 split: option.splits)

section \<open>Masking\<close>

definition masking_shortens_brand :: "cpu_identity \<Rightarrow> bool" where
  "masking_shortens_brand cpu =
     (let cfg = masking_config_default\<lparr>mc_brand_retention_pct := 0\<rparr>; masked = mask_cpu_identity (Some cfg) cpu in
      list_all (\<lambda>c. c = CHR ''*'') (id_brand masked) \<and> length (id_brand masked) = length (id_brand cpu))"

definition masking_100pct_preserves_brand :: "cpu_identity \<Rightarrow> bool" where
  "masking_100pct_preserves_brand cpu =
     (let cfg = \<lparr>mc_brand_retention_pct = 100, mc_round_cores_power_of_two = False, mc_round_cache_mb = False,
            mc_strip_advanced_features = False\<rparr>;
          masked = mask_cpu_identity (Some cfg) cpu in
      id_brand masked = id_brand cpu)"

definition prev_power_of_two_correct :: bool where
  "prev_power_of_two_correct =
     (prev_power_of_two 0 = 0 \<and> prev_power_of_two 1 = 1 \<and> prev_power_of_two 3 = 2 \<and> prev_power_of_two 4 = 4
      \<and> prev_power_of_two 6 = 4 \<and> prev_power_of_two 8 = 8 \<and> prev_power_of_two 12 = 8 \<and> prev_power_of_two 16 = 16)"

text \<open>The characters of a text cover it: the last one starts before any cut and ends at or after it.\<close>

lemma char_indices_cover:
  assumes "s \<noteq> []"
  shows "char_indices i s \<noteq> []" "\<forall>(k, n) \<in> set (char_indices i s). i \<le> k \<and> k < i + length s"
    "fst (last (char_indices i s)) + snd (last (char_indices i s)) = i + length s"
  using assms
proof (induction i s rule: char_indices.induct)
  case (2 i c cs)
  let ?k = "length (takeWhile continuation cs)"
  {
    case 1
    show ?case by (simp add: Let_def)
  next
    case 2
    show ?case
      using "2.IH"(2) [of ?k] length_takeWhile_le [of continuation cs]
      by (cases "drop ?k cs = []") (fastforce simp: Let_def)+
  next
    case 3
    show ?case
    proof (cases "drop ?k cs = []")
      case True
      then have "length cs = ?k"
        using length_takeWhile_le [of continuation cs] by simp
      with True show ?thesis by (simp add: Let_def)
    next
      case False
      then show ?thesis
        using "2.IH"(1,3) [of ?k] length_takeWhile_le [of continuation cs] by (simp add: Let_def)
    qed
  }
qed simp_all

lemma kept_all: "kept_bytes 100 brand = length brand"
proof (cases "brand = []")
  case False
  note cover = char_indices_cover [OF False, of 0]
  have tw: "takeWhile (\<lambda>(i, _). i < length brand) (char_indices 0 brand) = char_indices 0 brand"
    using cover(2) by (auto simp: takeWhile_eq_all_conv)
  show ?thesis
    using cover(1,3) False by (auto simp: kept_bytes_def Let_def tw split: prod.splits)
qed (simp add: kept_bytes_def)

lemma masking_tests: "masking_shortens_brand cpu" "masking_100pct_preserves_brand cpu" "prev_power_of_two_correct"
proof -
  have "kept_bytes 0 brand = 0" for brand
    by (simp add: kept_bytes_def)
  then show "masking_shortens_brand cpu"
    by (simp add: masking_shortens_brand_def mask_cpu_identity_def masking_config_default_def list_all_iff Let_def)
  show "masking_100pct_preserves_brand cpu"
    by (simp add: masking_100pct_preserves_brand_def mask_cpu_identity_def kept_all Let_def)
  show "prev_power_of_two_correct" by code_simp
qed

section \<open>Live entropy\<close>

definition short_hex :: "string \<Rightarrow> string" where
  "short_hex s = (let n = min (length s) 12 in take n s)"

definition short_hex_handles_short_input :: bool where
  "short_hex_handles_short_input = (short_hex ''abc'' = ''abc'' \<and> short_hex ''abcdefghijklmnop'' = ''abcdefghijkl'')"

definition fallback_pool_changes_with_nonce :: bool where
  "fallback_pool_changes_with_nonce =
     (let tip_hash = replicate 32 7 in fallback_pool 1 100 tip_hash \<noteq> fallback_pool 2 100 tip_hash)"

definition fallback_pool_changes_with_timestamp :: bool where
  "fallback_pool_changes_with_timestamp =
     (let tip_hash = replicate 32 7 in fallback_pool 1 100 tip_hash \<noteq> fallback_pool 1 101 tip_hash)"

definition fallback_pool_is_nonzero_for_normal_tip_hash :: bool where
  "fallback_pool_is_nonzero_for_normal_tip_hash = (let tip_hash = replicate 32 7 in fallback_pool 1 100 tip_hash \<noteq> zeros 32)"

definition default_config_is_valid :: bool where
  "default_config_is_valid =
     (let cfg = entropy_config_default in
      take 8 (ec_mempool cfg) = ''https://'' \<and> take 8 (ec_blockstream cfg) = ''https://'' \<and> ec_timeout_secs cfg > 0)"

lemma live_entropy_tests:
  "short_hex_handles_short_input" "fallback_pool_changes_with_nonce" "fallback_pool_changes_with_timestamp"
  "fallback_pool_is_nonzero_for_normal_tip_hash" "default_config_is_valid"
  by code_simp+

end
