(* ===== verification/Spec2Isabelle.thy ===== *)
theory Spec2Isabelle
  imports Ledger_Csv Difficulty Claims Randomness Btc_Entropy Pow Gossip Reorg Startup Stale_Miner Http_Api Catch_Up Claim_Relay Wallet_Cli Live_Entropy Full_Node Http_Router Pinned_Height Cpu
    Fork_Adoption Store_Tests Ledger_Tests Stale_Tests Hardware_Tests
begin

text \<open>
  A model of the Bina L1 chain: the core library (\<^verbatim>\<open>core/src\<close>), the node and its wallet (\<^verbatim>\<open>node/src\<close>), all
  under \<^verbatim>\<open>src/l1-chain\<close>. A node keeps a reward ledger (a CSV file), a block store (SQLite), a resume file, a pool of
  pending claims and one of pending transfers, and a list of peers. Its mining loop builds a candidate block on its tip,
  searches a nonce, puts its own claim into the pool, elects the best claim known for the height and commits it; HTTP
  handlers admit claims and transfers of others at the same time, gossip passes claims on, and a node that is behind
  or on a lighter branch copies the records of a peer. The theories follow these parts from the bottom up.

  \<^bold>\<open>Foundations.\<close> \<open>Bina_Prelude\<close>: machine integers at their width, saturating and checked arithmetic, byte
  encodings, results as sums (\<open>Inl\<close> the error), and \<open>prims\<close>, the record of the third-party functions (BLAKE3, SHA-256,
  Keccak-256, hex, Ed25519, Falcon-512), which is an argument of whatever uses one. The laws assumed of them are
  \<open>hash_ok\<close> (output lengths), \<open>hex_ok\<close> (decoding inverts encoding) and \<open>sig_ok\<close> (a signature verifies under its key);
  no collision resistance is assumed. \<open>Sample_Prims\<close> is one computable instance, used by witnesses only. \<open>Hash_Map\<close>:
  \<^verbatim>\<open>HashMap\<close> as an association list with distinct keys, so that the iteration order of the code is an explicit list;
  the locale \<open>dictionary\<close>. \<open>Text_Format\<close>: printing and parsing of numbers, splitting, trimming.

  \<^bold>\<open>Consensus data (\<^verbatim>\<open>core/src\<close>).\<close> \<open>Block\<close> (\<^verbatim>\<open>block.rs\<close>): headers, their hash, the difficulty mask.
  \<open>Wallet_Crypto\<close> (\<^verbatim>\<open>crypto.rs\<close>), \<open>Transactions\<close> (\<^verbatim>\<open>transaction.rs\<close>): hybrid and Ed25519-only transfers, ids, the
  Merkle root. \<open>State_Root\<close>, \<open>Rewards\<close>, \<open>Ledger_Csv\<close> (\<^verbatim>\<open>rewards.rs\<close>): emission, the ledger, its file and the two
  ways of loading it. \<open>Block_Execution\<close>: the dry run and the real run of a block as two instances of the locale
  \<open>block_executor\<close>. \<open>Difficulty\<close> (\<^verbatim>\<open>difficulty.rs\<close>): the \<^verbatim>\<open>f64\<close> logarithm is replaced by exact comparisons, equal to
  the rounded value of the mathematical one. \<open>Claims\<close> (\<^verbatim>\<open>claims.rs\<close>): signed claims and the election, the locale
  \<open>election\<close>. \<open>Randomness\<close>, \<open>Btc_Entropy\<close> (\<^verbatim>\<open>randomness.rs\<close>, \<^verbatim>\<open>bitcoin_entropy.rs\<close>): outputs and nullifiers,
  checkpoints. \<open>Pow\<close> (\<^verbatim>\<open>pow.rs\<close>): the mining threads as an interleaving of their atomic steps. \<open>Secure_Memory\<close>
  (\<^verbatim>\<open>secure_memory.rs\<close>). \<open>Stale_Blocks\<close>, \<open>Stale_Miner\<close> (\<^verbatim>\<open>stale_block_miner.rs\<close>) and \<open>Cpu\<close> (\<^verbatim>\<open>cpu.rs\<close>): two files
  that \<^verbatim>\<open>lib.rs\<close> does not declare, modelled as they stand.

  \<^bold>\<open>The node (\<^verbatim>\<open>node/src\<close>).\<close> \<open>Block_Record\<close>, \<open>Block_Store\<close> (\<^verbatim>\<open>store.rs\<close>): records and the tables; the locale
  \<open>block_archive\<close> is the abstract map from heights to records that they implement. \<open>Peers\<close>, \<open>Envelope\<close>, \<open>Gossip\<close>:
  the files of these names. From \<^verbatim>\<open>main.rs\<close>: \<open>Node_State\<close> (the shared state, \<^verbatim>\<open>accept_signed_claim\<close> in the three
  phases its locks cut it into, \<^verbatim>\<open>enqueue_transaction\<close>), \<open>Chain_State\<close> (\<^verbatim>\<open>chain-state.json\<close>), \<open>Startup\<close> (the part of
  \<^verbatim>\<open>mining_loop\<close> before the loop), \<open>Chain_Sync\<close> (\<^verbatim>\<open>sync_forward_from_peer\<close>, \<^verbatim>\<open>catch_up_from_peers\<close>), \<open>Reorg\<close>
  (\<^verbatim>\<open>reconcile_fork\<close>), \<open>Mining\<close> (one pass of the loop), \<open>Rate_Limit\<close>, \<open>Http_Api\<close> (every handler), \<open>Http_Router\<close> (\<^verbatim>\<open>main\<close>:
  routes and layers). \<open>Live_Entropy\<close> (\<^verbatim>\<open>bitcoin_entropy.rs\<close>): the observation built from two public providers.
  \<open>Wallet_Cli\<close> (\<^verbatim>\<open>wallet_cmd.rs\<close>): every command of the wallet program.

  \<^bold>\<open>Compositions.\<close> \<open>Mined_Sync\<close>: a block one node commits is what another accepts, and what it does not check.
  \<open>Node_System\<close>: the passes of the loop (\<open>loop_step\<close>) interleaved with the phases of the handlers (\<open>handler_step\<close>); a
  step is what runs under one lock or between two suspension points. \<open>Catch_Up\<close>: a running miner, its HTTP answers and
  a node that follows. \<open>Claim_Relay\<close>: the way of a claim through the endpoint, gossip and a peer. \<open>Full_Node\<close>: runs
  with records of peers and rollbacks as further steps. \<open>Fork_Adoption\<close>: a node on a lighter branch and the miner of
  a heavier one, from the answers of the miner's HTTP handlers to the adopted chain. \<open>Pinned_Height\<close>: a mined
  checkpoint followed by a synchronised block.

  \<^bold>\<open>Tests of the repository.\<close> \<open>Adversarial_Tests\<close> (\<^verbatim>\<open>main.rs\<close>), \<open>Store_Tests\<close> (\<^verbatim>\<open>store.rs\<close>), \<open>Core_Tests\<close> (\<^verbatim>\<open>block.rs\<close>,
  \<^verbatim>\<open>claims.rs\<close>, \<^verbatim>\<open>randomness.rs\<close>, \<^verbatim>\<open>difficulty.rs\<close>), \<open>Wallet_Tests\<close> (\<^verbatim>\<open>crypto.rs\<close>, \<^verbatim>\<open>transaction.rs\<close>,
  \<^verbatim>\<open>bitcoin_entropy.rs\<close>, \<^verbatim>\<open>secure_memory.rs\<close>), \<open>Ledger_Tests\<close> (\<^verbatim>\<open>rewards.rs\<close>), \<open>Stale_Tests\<close> (\<^verbatim>\<open>stale_block_miner.rs\<close>)
  and \<open>Hardware_Tests\<close> (\<^verbatim>\<open>cpu.rs\<close>, \<^verbatim>\<open>node/bitcoin_entropy.rs\<close>) run the unit tests on the model. A test is a boolean of the
  same name, the conjunction of its assertions, with the keys it generates and the clocks it reads as arguments; the
  lemmas show that it holds for every such argument, under a hypothesis where it relies on two hash values being
  different or on a forged signature being refused.

  \<^bold>\<open>State and operations.\<close> A struct is a record of the same fields with a short prefix (\<^verbatim>\<open>NodeState\<close> is
  \<open>node_state\<close>, fields \<open>ns_...\<close>); an operation that changes state returns it updated, and keeps the name of the
  function it models. \<open>node\<close> is the shared state, ledger and store together; \<open>cursor\<close> is the set of local variables of
  \<^verbatim>\<open>mining_loop\<close> that follow the tip. Clocks, answers of other hosts, the environment, files, key generation and whether
  a write succeeds are arguments. \<^verbatim>\<open>panic!\<close>, \<^verbatim>\<open>expect\<close> and \<^verbatim>\<open>unwrap\<close> of the node are values of \<open>panic\<close>.

  \<^bold>\<open>What is proved.\<close> Safety: an admitted or elected claim executes on the ledger with the root it names; the
  nonce found meets the difficulty. Invariants: balances sum to the mined total below the cap; loop variables, shared
  state and ledger agree in every interleaving, reorganisations included. Refinement and round trips: the dry run
  predicts the run, the tables are a map, a committed record is accepted by a peer, a lagging node reaches the tip and
  the ledger of the miner it copies, a node on a lighter branch adopts the heavier one, reloading a file and rolling back a branch restore what was there. Termination:
  the synchronisation loop returns against any peer, for reported heights and pages below \<open>2 ^ 63\<close>; the loop of a node
  stops only on a nullifier collision. Errors: what the code does in the situations listed as findings, each derived from the unmodified
  definitions; a theorem of that kind shows the effect and its witness one run with it.

  \<^bold>\<open>Locales.\<close> \<open>dictionary\<close> (interpreted on \<open>Hash_Map\<close> and on the mempool table), \<open>block_executor\<close> (dry run and ledger),
  \<open>election\<close> (claims and pending claims), \<open>block_archive\<close> (the SQLite tables).

  \<^bold>\<open>Bounds and termination.\<close> Heights are \<^verbatim>\<open>u64\<close>; where a wrap of a height or an \<^verbatim>\<open>i64\<close> column would change the result
  the assumption is written out (below \<open>2 ^ 62\<close> or \<open>2 ^ 63\<close>), far above any reachable height. Loops that depend on other
  hosts (\<open>sync_forward\<close>, \<open>await_observation\<close>) and the eviction loop of the stale-block tracker are
  \<open>partial_function (option)\<close>: \<open>None\<close> is the run that does not return, and the theorems that they return say when. No
  definition uses fuel. Plain addition wraps, as in the release build the README prescribes.

  \<^bold>\<open>Approximations.\<close> \<^verbatim>\<open>f32\<close> and \<^verbatim>\<open>f64\<close> values (hash rates, block-time averages, temperatures, the congestion ratio) are
  exact rationals. Locks do not fail (no poisoning), SQLite applies each transaction entirely, and JSON text is a
  parameter with the round-trip law \<open>json_ok\<close> or \<open>codec_ok\<close> where one is needed. A step of \<open>Node_System\<close> is atomic; two
  handlers never run inside one step. The pause of ten seconds between reorganisation checks is dropped: a check may
  precede every pass.

  \<^bold>\<open>Not modelled.\<close> Sockets, TLS, CORS headers and \<^verbatim>\<open>axum\<close>'s path matching beyond its documented order; the page
  locking and debugger queries of \<^verbatim>\<open>secure_memory.rs\<close> and the \<^verbatim>\<open>raw_cpuid\<close>, WMI and SMC libraries, whose answers are
  arguments; printing and logging, among them \<^verbatim>\<open>adjustment_log\<close> and the usage texts; \<^verbatim>\<open>derive\<close>d serialisers; the
  module list \<^verbatim>\<open>lib.rs\<close>; the integration tests of \<^verbatim>\<open>main.rs\<close>, which start processes and talk over sockets; and the test
  of one SHA-256 value.
\<close>

end
